(* ===== verification/Prelude.thy ===== *)
theory Prelude
  imports Main "HOL-Library.Word"
begin

text \<open>
  Shared vocabulary of the development: the fixed-width integer types of
  \<^verbatim>\<open>kernel/include/types.h\<close>, the constants several files use, counting loops over
  64-bit unsigned indices, and the arithmetic facts the components rest on.

  A C loop \<^verbatim>\<open>for (uint64_t i = a; i < n; i++) body\<close> is \<open>for_range body a n\<close>; the
  variant that leaves at the first index satisfying a test is \<open>find_range\<close>; the
  counting-down loop of \<^verbatim>\<open>memory_copy\<close> is \<open>for_down\<close>. All three are total: the index
  moves towards its bound, as the termination proofs show.
\<close>

unbundle bit_operations_syntax

named_theorems frame_simps \<open>fields an operation leaves alone\<close>

section \<open>Integer types and constants\<close>

type_synonym u8 = "8 word"
type_synonym u16 = "16 word"
type_synonym u32 = "32 word"
type_synonym u64 = "64 word"

text \<open>The 32-bit \<^verbatim>\<open>int\<close> arguments of the C code; results of type \<^verbatim>\<open>int\<close> are HOL integers.\<close>

type_synonym c_int = "32 word"

definition PAGE_SHIFT :: nat where
  "PAGE_SHIFT = 12"

definition PAGE_SIZE :: u64 where
  "PAGE_SIZE = push_bit PAGE_SHIFT 1"

lemma PAGE_SIZE_eq: "PAGE_SIZE = 4096"
  by (simp add: PAGE_SIZE_def PAGE_SHIFT_def push_bit_eq_mult)

lemma unat_PAGE_SIZE: "unat PAGE_SIZE = 4096"
  by (simp add: PAGE_SIZE_eq)

text \<open>The result codes of \<^verbatim>\<open>kern_result_t\<close>.\<close>

datatype kern_result =
    KERN_SUCCESS | KERN_ERROR | KERN_NOMEM | KERN_INVALID | KERN_NOTFOUND | KERN_EXISTS
  | KERN_BUSY | KERN_TIMEOUT | KERN_IO | KERN_PERM | KERN_INTR

fun kern_code :: "kern_result \<Rightarrow> int" where
  "kern_code KERN_SUCCESS = 0"
| "kern_code KERN_ERROR = -1"
| "kern_code KERN_NOMEM = -2"
| "kern_code KERN_INVALID = -3"
| "kern_code KERN_NOTFOUND = -4"
| "kern_code KERN_EXISTS = -5"
| "kern_code KERN_BUSY = -6"
| "kern_code KERN_TIMEOUT = -7"
| "kern_code KERN_IO = -8"
| "kern_code KERN_PERM = -9"
| "kern_code KERN_INTR = -10"

section \<open>Unsigned arithmetic\<close>

lemma unat_less_2p: "unat (x :: 'a::len word) < 2 ^ LENGTH('a)"
  by (rule unsigned_less)

lemma unat_Suc_less: "i < (n :: 'a::len word) \<Longrightarrow> unat (i + 1) = Suc (unat i)"
proof -
  assume "i < n"
  then have "unat i + 1 < 2 ^ LENGTH('a)"
    using unat_less_2p [of n] unfolding word_less_nat_alt by linarith
  then show ?thesis
    by (simp add: unat_plus_if')
qed

lemma less_Suc_word: "k < n \<Longrightarrow> p < k + 1 \<longleftrightarrow> p < k \<or> p = (k :: 'a::len word)"
  by (auto simp: word_less_nat_alt unat_Suc_less less_Suc_eq word_unat_eq_iff)

lemma word_less_Suc: "x + 1 \<noteq> 0 \<Longrightarrow> x < x + (1 :: 'a::len word)"
  using inc_less_eq_self_iff_eq [of x] by (auto simp: not_le [symmetric])

lemma unat_less_2p64: "unat (x :: u64) < 18446744073709551616"
  using unat_less_2p [of x] by simp

lemma unat_of_nat_small: "n < 2 ^ LENGTH('a) \<Longrightarrow> unat (of_nat n :: 'a::len word) = n"
  by (simp add: unat_of_nat)

lemma card_word_less: "card {i :: 'a::len word. i < c} = unat c"
proof -
  have "unat ` {i :: 'a word. i < c} = {..<unat c}"
  proof (intro set_eqI iffI)
    fix n assume "n \<in> {..<unat c}"
    then have "n < 2 ^ LENGTH('a)"
      using unat_less_2p [of c] less_trans by (simp only: lessThan_iff) 
    then have "unat (of_nat n :: 'a word) = n"
      by (rule unat_of_nat_small)
    with \<open>n \<in> {..<unat c}\<close> show "n \<in> unat ` {i :: 'a word. i < c}"
      by (intro image_eqI [of _ _ "of_nat n"]) (simp_all add: word_less_nat_alt)
  qed (auto simp: word_less_nat_alt)
  moreover have "inj_on unat {i :: 'a word. i < c}"
    by (simp add: inj_on_def word_unat_eq_iff)
  ultimately show ?thesis
    by (metis card_image card_lessThan)
qed

lemma unat_sub_le: "(b :: 'a::len word) \<le> a \<Longrightarrow> unat (a - b) = unat a - unat b"
  by (simp add: unat_sub_if' word_le_nat_alt)

lemma word_diff_small_iff:
  "(y - k < (c :: 'a::len word)) \<longleftrightarrow> (k \<le> y \<and> y < k + c)"
  if "unat k + unat c < 2 ^ LENGTH('a)"
proof -
  have kc: "unat (k + c) = unat k + unat c"
    using that by (simp add: unat_add_lem)
  show ?thesis
  proof (cases "k \<le> y")
    case True
    then show ?thesis
      by (auto simp: word_less_nat_alt word_le_nat_alt kc unat_sub_le)
  next
    case False
    then have lt: "unat y < unat k"
      by (simp add: word_le_nat_alt)
    have "unat (y - k) = unat y + 2 ^ LENGTH('a) - unat k"
      using False by (simp add: unat_sub_if' word_le_nat_alt)
    with that have "unat c \<le> unat (y - k)"
      by simp
    with False show ?thesis
      by (simp add: word_less_nat_alt)
  qed
qed

lemma unat_take_bit: "unat (take_bit k (a :: 'a::len word)) = unat a mod 2 ^ k"
  by (simp only: unsigned_take_bit_eq) (simp only: take_bit_eq_mod)

lemma and_not_mask_sub: "a AND NOT (2 ^ k - 1) = a - take_bit k (a :: 'a::len word)"
proof -
  have "a AND NOT (2 ^ k - 1) = push_bit k (drop_bit k a)"
    by (rule bit_word_eqI) (auto simp: bit_simps mask_eq_exp_minus_1 [symmetric])
  then show ?thesis
    using bits_ident [of k a] by (simp add: algebra_simps)
qed

lemma unat_and_not_mask:
  "unat ((a :: 'a::len word) AND NOT (2 ^ k - 1)) = unat a div 2 ^ k * 2 ^ k"
proof -
  have "take_bit k a \<le> a"
    by (simp add: word_le_nat_alt unat_take_bit)
  then show ?thesis
    by (simp add: and_not_mask_sub unat_sub_le unat_take_bit minus_mod_eq_div_mult)
qed

lemma and_mask_0_iff: "(a :: 'a::len word) AND (2 ^ k - 1) = 0 \<longleftrightarrow> 2 ^ k dvd unat a"
  by (simp add: take_bit_eq_mask [symmetric] mask_eq_exp_minus_1 [symmetric] unat_eq_zero [symmetric]
       unat_take_bit dvd_eq_mod_eq_0)
lemma unat_power_2: "k < LENGTH('a) \<Longrightarrow> unat (2 ^ k :: 'a::len word) = 2 ^ k"
  by (metis unat_of_nat_small of_nat_numeral of_nat_power one_less_numeral_iff power_strict_increasing semiring_norm(76))

lemma round_up_bounds:
  assumes "0 < (d :: nat)"
  shows "x \<le> (x + d - 1) div d * d" and "(x + d - 1) div d * d < x + d"
  using div_mult_mod_eq [of "x + d - 1" d] mod_less_divisor [OF assms, of "x + d - 1"] assms
  by linarith+

lemma mod_mult_eq_iff:
  "(x :: nat) mod (a * b) = y mod (a * b) \<longleftrightarrow> x mod a = y mod a \<and> x div a mod b = y div a mod b"
proof (cases "a = 0")
  case False
  have "x mod (a * b) mod a = x mod a" "x mod (a * b) div a = x div a mod b" for x
    using False by (simp_all add: mod_mult2_eq)
  then show ?thesis
    by (metis mod_mult2_eq)
qed simp

section \<open>Counting loops\<close>

function for_range :: "(u64 \<Rightarrow> 's \<Rightarrow> 's) \<Rightarrow> u64 \<Rightarrow> u64 \<Rightarrow> 's \<Rightarrow> 's" where
  "for_range f i n s = (if i < n then for_range f (i + 1) n (f i s) else s)"
  by pat_completeness auto
termination
  by (relation "measure (\<lambda>(f, i, n, s). unat n - unat i)")
    (auto simp: unat_Suc_less word_less_nat_alt)

declare for_range.simps [simp del]

function find_range :: "(u64 \<Rightarrow> bool) \<Rightarrow> u64 \<Rightarrow> u64 \<Rightarrow> u64 option" where
  "find_range P i n =
     (if i < n then (if P i then Some i else find_range P (i + 1) n) else None)"
  by pat_completeness auto
termination
  by (relation "measure (\<lambda>(P, i, n). unat n - unat i)")
    (auto simp: unat_Suc_less word_less_nat_alt)

declare find_range.simps [simp del]

function for_down :: "(u64 \<Rightarrow> 's \<Rightarrow> 's) \<Rightarrow> u64 \<Rightarrow> 's \<Rightarrow> 's" where
  "for_down f i s = (if 0 < i then for_down f (i - 1) (f (i - 1) s) else s)"
  by pat_completeness auto
termination
  by (relation "measure (\<lambda>(f, i, s). unat i)")
    (auto simp: word_gt_0 unat_minus_one unat_gt_0)

declare for_down.simps [simp del]

lemma for_range_done [simp]: "\<not> i < n \<Longrightarrow> for_range f i n s = s"
  by (simp add: for_range.simps)

lemma for_range_step: "i < n \<Longrightarrow> for_range f i n s = for_range f (i + 1) n (f i s)"
  by (simp add: for_range.simps)

lemma for_down_0 [simp]: "for_down f 0 s = s"
  by (simp add: for_down.simps)

lemma for_down_step: "0 < i \<Longrightarrow> for_down f i s = for_down f (i - 1) (f (i - 1) s)"
  by (simp add: for_down.simps)

text \<open>The loop rule: an assertion indexed by the loop counter.\<close>

lemma for_range_rule:
  assumes "P i s" and "i \<le> n"
    and "\<And>k s. i \<le> k \<Longrightarrow> k < n \<Longrightarrow> P k s \<Longrightarrow> P (k + 1) (f k s)"
  shows "P n (for_range f i n s)"
  using assms
proof (induction f i n s rule: for_range.induct)
  case (1 f i n s)
  show ?case
  proof (cases "i < n")
    case True
    have "i \<le> i + 1"
      using True by (simp add: word_le_nat_alt unat_Suc_less)
    then have "P n (for_range f (i + 1) n (f i s))"
      using "1.IH" [OF True] "1.prems" True by (meson inc_le order.trans order_refl)
    with True show ?thesis
      by (simp add: for_range_step)
  next
    case False
    with "1.prems" show ?thesis
      by (simp add: antisym_conv1)
  qed
qed

text \<open>A condition every iteration keeps survives the loop.\<close>

lemma for_range_inv:
  assumes "I s" and "\<And>k s. i \<le> k \<Longrightarrow> k < n \<Longrightarrow> I s \<Longrightarrow> I (f k s)"
  shows "I (for_range f i n s)"
proof (cases "i \<le> n")
  case True
  show ?thesis
    by (rule for_range_rule [where P = "\<lambda>_. I"]) (use assms True in auto)
next
  case False
  with assms(1) show ?thesis
    by simp
qed

lemma for_range_cong:
  assumes "\<And>k s. i \<le> k \<Longrightarrow> k < n \<Longrightarrow> f k s = g k s"
  shows "for_range f i n s = for_range g i n s"
  using assms
proof (induction f i n s rule: for_range.induct)
  case (1 f i n s)
  show ?case
  proof (cases "i < n")
    case True
    then have "i \<le> i + 1"
      by (simp add: word_le_nat_alt unat_Suc_less)
    then show ?thesis
      using 1 True by (simp add: for_range_step)
  qed simp
qed

lemma for_range_split:
  assumes "i \<le> k" and "k \<le> n"
  shows "for_range f i n s = for_range f k n (for_range f i k s)"
  using assms
proof (induction f i k s rule: for_range.induct)
  case (1 f i k s)
  show ?case
  proof (cases "i < k")
    case True
    then have "i + 1 \<le> k" "i < n"
      using 1 by (auto simp: inc_le)
    then show ?thesis
      using 1 True by (simp add: for_range_step [of i])
  next
    case False
    with 1 show ?thesis by simp
  qed
qed

lemma for_range_inj:
  assumes "\<And>k s t. i \<le> k \<Longrightarrow> k < n \<Longrightarrow> f k s = f k t \<Longrightarrow> s = t" 
   and "for_range f i n s = for_range f i n t"
  shows "s = t"
  using assms
proof (induction f i n s arbitrary: t rule: for_range.induct)
  case (1 f i n s)
  show ?case
  proof (cases "i < n")
    case True
    then have "i \<le> i + 1"
      by (simp add: word_le_nat_alt unat_Suc_less)
    have "f i s = f i t"
    proof (rule "1.IH" [OF True])
      show "for_range f (i + 1) n (f i s) = for_range f (i + 1) n (f i t)"
        using "1.prems"(2) True by (simp add: for_range_step)
    qed (use "1.prems"(1) \<open>i \<le> i + 1\<close> in \<open>meson order.trans\<close>)
    then show ?thesis using 1 True by blast
  next
    case False
    with 1 show ?thesis by simp
  qed
qed


lemma for_down_rule:
  assumes "P n s" and "\<And>k s. k < n \<Longrightarrow> P (k + 1) s \<Longrightarrow> P k (f k s)"
  shows "P 0 (for_down f n s)"
  using assms
proof (induction f n s rule: for_down.induct)
  case (1 f n s)
  show ?case
  proof (cases "0 < n")
    case True
    then have n: "n - 1 < n" "n - 1 + 1 = n"
      by (auto simp: word_less_nat_alt unat_minus_one unat_gt_0)
    then have "P (n - 1) (f (n - 1) s)"
      using "1.prems"(2) [of "n - 1" s] "1.prems"(1) by simp
    then show ?thesis
      using "1.IH" [OF True] "1.prems"(2) n(1) True by (simp add: for_down_step)
  next
    case False
    with "1.prems"(1) show ?thesis
      by (simp add: word_gt_0)
  qed
qed

lemma find_range_Some:
  "find_range P i n = Some k \<Longrightarrow>
     i \<le> k \<and> k < n \<and> P k \<and> (\<forall>j. i \<le> j \<longrightarrow> j < k \<longrightarrow> \<not> P j)"
proof (induction P i n rule: find_range.induct)
  case (1 P i n)
  then have "i < n"
    by (auto simp: find_range.simps [of P i n] split: if_splits)
  show ?case
  proof (cases "P i")
    case True
    with 1 \<open>i < n\<close> show ?thesis
      by (auto simp: find_range.simps [of P i n])
  next
    case False
    with 1 \<open>i < n\<close> have IH: "i + 1 \<le> k \<and> k < n \<and> P k \<and> (\<forall>j. i + 1 \<le> j \<longrightarrow> j < k \<longrightarrow> \<not> P j)"
      by (auto simp: find_range.simps [of P i n])
    have "i < k"
      using IH \<open>i < n\<close> by (auto simp: word_le_nat_alt word_less_nat_alt unat_Suc_less)
    moreover have "\<not> P j" if "i \<le> j" "j < k" for j
      using that IH False by (metis inc_le order_le_less)
    ultimately show ?thesis
      using IH by auto
  qed
qed

lemma find_range_None:
  "find_range P i n = None \<Longrightarrow> i \<le> j \<Longrightarrow> j < n \<Longrightarrow> \<not> P j"
proof (induction P i n rule: find_range.induct)
  case (1 P i n)
  show ?case
  proof (cases "i < n")
    case True
    with "1.prems" have "\<not> P i" and "find_range P (i + 1) n = None"
      by (auto simp: find_range.simps [of P i n] split: if_splits)
    with 1 True show ?thesis
      by (metis inc_le order_le_less)
  next
    case False
    with "1.prems" show ?thesis
      by simp
  qed
qed

lemma find_range_None_iff:
  "find_range P i n = None \<longleftrightarrow> (\<forall>j. i \<le> j \<longrightarrow> j < n \<longrightarrow> \<not> P j)"
proof
  assume "\<forall>j. i \<le> j \<longrightarrow> j < n \<longrightarrow> \<not> P j"
  then show "find_range P i n = None"
    by (cases "find_range P i n") (auto dest: find_range_Some)
qed (auto dest: find_range_None)

end
