(* ===== verification/Bytes.thy ===== *)
theory Bytes
  imports Prelude "HOL-Library.List_Lexorder"
begin

text \<open>
  Byte-addressed memory and the routines that work on it: \<^verbatim>\<open>kernel/mm/memory_utils.c\<close>
  and \<^verbatim>\<open>kernel/src/string_stubs.c\<close>.

  Memory is a total function from 64-bit addresses to bytes, so address arithmetic wraps
  as the machine's does. The region of \<open>n\<close> bytes at \<open>d\<close> is the set of addresses \<open>a\<close>
  with \<open>a - d < n\<close>; this form needs no side condition on overflow. Multi-byte accesses
  are little-endian. \<open>memory_set\<close>, which has a 64-bit fast path, is proved equal to a plain
  fill; \<open>memory_copy\<close> to a simultaneous copy, overlap included; \<open>memory_compare\<close>
  to the lexicographic order of the two byte strings.
\<close>

unbundle bit_operations_syntax

type_synonym mem = "u64 \<Rightarrow> u8"

section \<open>Regions, loads and stores\<close>

text \<open>\<open>a\<close> lies in the region of \<open>n\<close> bytes at \<open>d\<close>.\<close>

definition in_region :: "u64 \<Rightarrow> u64 \<Rightarrow> u64 \<Rightarrow> bool" where
  "in_region d n a \<longleftrightarrow> a - d < n"

text \<open>Two regions have no address in common.\<close>

definition disjoint_regions :: "u64 \<Rightarrow> u64 \<Rightarrow> u64 \<Rightarrow> u64 \<Rightarrow> bool" where
  "disjoint_regions a n b k \<longleftrightarrow> n \<le> b - a \<and> k \<le> a - b"

fun load_le :: "mem \<Rightarrow> u64 \<Rightarrow> nat \<Rightarrow> 'w::len word" where
  "load_le m a 0 = 0"
| "load_le m a (Suc n) = ucast (m a) OR push_bit 8 (load_le m (a + 1) n)"

definition store_le :: "u64 \<Rightarrow> nat \<Rightarrow> 'w::len word \<Rightarrow> mem \<Rightarrow> mem" where
  "store_le a n v m =
     (\<lambda>x. if unat (x - a) < n then ucast (drop_bit (8 * unat (x - a)) v) else m x)"

abbreviation load64 :: "mem \<Rightarrow> u64 \<Rightarrow> u64" where
  "load64 m a \<equiv> load_le m a 8"

abbreviation store64 :: "u64 \<Rightarrow> u64 \<Rightarrow> mem \<Rightarrow> mem" where
  "store64 a v \<equiv> store_le a 8 v"

abbreviation load32 :: "mem \<Rightarrow> u64 \<Rightarrow> u32" where
  "load32 m a \<equiv> load_le m a 4"

abbreviation store32 :: "u64 \<Rightarrow> u32 \<Rightarrow> mem \<Rightarrow> mem" where
  "store32 a v \<equiv> store_le a 4 v"

text \<open>The bytes of a region as a list.\<close>

definition read_bytes :: "mem \<Rightarrow> u64 \<Rightarrow> nat \<Rightarrow> u8 list" where
  "read_bytes m p n = map (\<lambda>i. m (p + of_nat i)) [0..<n]"

text \<open>The meaning of filling and copying: every byte of the region at once.\<close>

definition mem_fill :: "u64 \<Rightarrow> u8 \<Rightarrow> u64 \<Rightarrow> mem \<Rightarrow> mem" where
  "mem_fill d v n m = (\<lambda>a. if in_region d n a then v else m a)"

definition mem_move :: "u64 \<Rightarrow> u64 \<Rightarrow> u64 \<Rightarrow> mem \<Rightarrow> mem" where
  "mem_move d s n m = (\<lambda>a. if in_region d n a then m (s + (a - d)) else m a)"

section \<open>memory\_utils.c\<close>

definition memory_copy :: "u64 \<Rightarrow> u64 \<Rightarrow> u64 \<Rightarrow> mem \<Rightarrow> mem" where
  "memory_copy dest src sz m =
     (if dest = 0 \<or> src = 0 \<or> sz = 0 then m
      else if dest < src then for_range (\<lambda>i m. m(dest + i := m (src + i))) 0 sz m
      else if dest > src then for_down (\<lambda>i m. m(dest + i := m (src + i))) sz m
      else m)"

text \<open>The 64-bit pattern \<^verbatim>\<open>memory_set\<close> builds from the fill byte for its fast path.\<close>

definition repeat8 :: "u8 \<Rightarrow> u64" where
  "repeat8 v =
     (let v0 = (ucast v :: u64);
          v1 = v0 OR push_bit 8 v0;
          v2 = v1 OR push_bit 16 v1
      in v2 OR push_bit 32 v2)"

definition memory_set :: "u64 \<Rightarrow> c_int \<Rightarrow> u64 \<Rightarrow> mem \<Rightarrow> mem" where
  "memory_set dest value sz m =
     (if dest = 0 \<or> sz = 0 then m
      else
        let val = (ucast value :: u8) in
        if 8 \<le> sz \<and> dest mod 8 = 0 then
          let val64 = repeat8 val;
              count64 = sz div 8;
              m' = for_range (\<lambda>i. store64 (dest + i * 8) val64) 0 count64 m;
              d = dest + count64 * 8;
              rest = sz - count64 * 8
          in for_range (\<lambda>i m. m(d + i := val)) 0 rest m'
        else for_range (\<lambda>i m. m(dest + i := val)) 0 sz m)"

definition memory_compare :: "u64 \<Rightarrow> u64 \<Rightarrow> u64 \<Rightarrow> mem \<Rightarrow> int" where
  "memory_compare ptr1 ptr2 sz m =
     (if ptr1 = 0 \<or> ptr2 = 0 then
        (if ptr1 = ptr2 then 0 else if ptr1 \<noteq> 0 then 1 else -1)
      else
        (case find_range (\<lambda>i. m (ptr1 + i) \<noteq> m (ptr2 + i)) 0 sz of
           Some i \<Rightarrow> uint (m (ptr1 + i)) - uint (m (ptr2 + i))
         | None \<Rightarrow> 0))"

definition memory_find :: "u64 \<Rightarrow> c_int \<Rightarrow> u64 \<Rightarrow> mem \<Rightarrow> u64" where
  "memory_find ptr value sz m =
     (if ptr = 0 \<or> sz = 0 then 0
      else
        (case find_range (\<lambda>i. m (ptr + i) = (ucast value :: u8)) 0 sz of
           Some i \<Rightarrow> ptr + i
         | None \<Rightarrow> 0))"

definition memory_zero_secure :: "u64 \<Rightarrow> u64 \<Rightarrow> mem \<Rightarrow> mem" where
  "memory_zero_secure ptr sz m =
     (if ptr = 0 \<or> sz = 0 then m
      else for_range (\<lambda>i m. m(ptr + i := 0)) 0 sz m)"

definition memory_is_zero :: "u64 \<Rightarrow> u64 \<Rightarrow> mem \<Rightarrow> bool" where
  "memory_is_zero ptr sz m =
     (if ptr = 0 \<or> sz = 0 then True
      else find_range (\<lambda>i. m (ptr + i) \<noteq> 0) 0 sz = None)"

definition memory_align_up :: "u64 \<Rightarrow> u64 \<Rightarrow> u64" where
  "memory_align_up addr alignment =
     (if alignment = 0 then addr else (addr + alignment - 1) AND NOT (alignment - 1))"

definition memory_align_down :: "u64 \<Rightarrow> u64 \<Rightarrow> u64" where
  "memory_align_down addr alignment =
     (if alignment = 0 then addr else addr AND NOT (alignment - 1))"

definition memory_is_aligned :: "u64 \<Rightarrow> u64 \<Rightarrow> bool" where
  "memory_is_aligned addr alignment =
     (if alignment = 0 then True else addr AND (alignment - 1) = 0)"

definition memory_checksum :: "u64 \<Rightarrow> u64 \<Rightarrow> mem \<Rightarrow> u32" where
  "memory_checksum ptr sz m =
     (if ptr = 0 \<or> sz = 0 then 0
      else
        for_range
          (\<lambda>i checksum.
             let c = checksum + ucast (m (ptr + i))
             in push_bit 1 c OR drop_bit 31 c)
          0 sz 0)"

section \<open>string\_stubs.c\<close>

text \<open>
  The two loops of \<^verbatim>\<open>strncpy\<close>: copy until the terminator or the limit, then pad. The
  source is read from the memory being written, so overlapping buffers behave as in C.
\<close>

function strncpy_copy :: "u64 \<Rightarrow> u64 \<Rightarrow> u64 \<Rightarrow> mem \<Rightarrow> u64 \<times> u64 \<times> mem" where
  "strncpy_copy dest src n m =
     (if 0 < n \<and> m src \<noteq> 0
      then strncpy_copy (dest + 1) (src + 1) (n - 1) (m(dest := m src))
      else (dest, n, m))"
  by pat_completeness auto
termination
  by (relation "measure (\<lambda>(d, s, n, m). unat n)") (auto simp: word_gt_0 unat_minus_one unat_gt_0)

function strncpy_pad :: "u64 \<Rightarrow> u64 \<Rightarrow> mem \<Rightarrow> mem" where
  "strncpy_pad dest n m =
     (if 0 < n then strncpy_pad (dest + 1) (n - 1) (m(dest := 0)) else m)"
  by pat_completeness auto
termination
  by (relation "measure (\<lambda>(d, n, m). unat n)") (auto simp: word_gt_0 unat_minus_one unat_gt_0)

definition strncpy :: "u64 \<Rightarrow> u64 \<Rightarrow> u64 \<Rightarrow> mem \<Rightarrow> mem" where
  "strncpy dest src n m = (case strncpy_copy dest src n m of (d, k, m') \<Rightarrow> strncpy_pad d k m')"

function memset :: "u64 \<Rightarrow> c_int \<Rightarrow> u64 \<Rightarrow> mem \<Rightarrow> mem" where
  "memset ptr value sz m =
     (if sz \<noteq> 0 then memset (ptr + 1) value (sz - 1) (m(ptr := ucast value)) else m)"
  by pat_completeness auto
termination
  by (relation "measure (\<lambda>(p, v, n, m). unat n)") (auto simp: unat_minus_one unat_gt_0)

function memcpy :: "u64 \<Rightarrow> u64 \<Rightarrow> u64 \<Rightarrow> mem \<Rightarrow> mem" where
  "memcpy dest src n m =
     (if n \<noteq> 0 then memcpy (dest + 1) (src + 1) (n - 1) (m(dest := m src)) else m)"
  by pat_completeness auto
termination
  by (relation "measure (\<lambda>(d, s, n, m). unat n)") (auto simp: unat_minus_one unat_gt_0)

function memcmp :: "u64 \<Rightarrow> u64 \<Rightarrow> u64 \<Rightarrow> mem \<Rightarrow> int" where
  "memcmp p1 p2 num m =
     (if num \<noteq> 0 then
        (if m p1 \<noteq> m p2 then uint (m p1) - uint (m p2) else memcmp (p1 + 1) (p2 + 1) (num - 1) m)
      else 0)"
  by pat_completeness auto
termination
  by (relation "measure (\<lambda>(p1, p2, n, m). unat n)") (auto simp: unat_minus_one unat_gt_0)

declare strncpy_copy.simps [simp del] strncpy_pad.simps [simp del]
  memset.simps [simp del] memcpy.simps [simp del] memcmp.simps [simp del]

section \<open>Regions\<close>

lemma in_region_self [simp]: "in_region d n d \<longleftrightarrow> n \<noteq> 0"
  by (simp add: in_region_def word_neq_0_conv)

lemma in_region_offset [simp]: "in_region d n (d + i) \<longleftrightarrow> i < n"
  by (simp add: in_region_def)

lemma disjoint_regions_sym: "disjoint_regions a n b k \<longleftrightarrow> disjoint_regions b k a n"
  by (auto simp: disjoint_regions_def)

lemma disjoint_regionsD:
  assumes "disjoint_regions a n b k" and "in_region a n x"
  shows "\<not> in_region b k x"
proof -
  define y where "y = b - a"
  define z where "z = x - a"
  have "x - b = z - y" and ab: "a - b = - y"
    by (simp_all add: y_def z_def)
  have "n \<le> y" "k \<le> - y" "z < n"
    using assms unfolding disjoint_regions_def in_region_def ab y_def z_def by blast+
  then have lt: "unat z < unat y" and "unat k \<le> unat (- y)"
    unfolding word_less_nat_alt word_le_nat_alt by linarith+
  moreover have "unat (- y) = 2 ^ 64 - unat y"
    using unat_sub_if' [of 0 y] lt by auto
  moreover have "unat (z - y) = 2 ^ 64 + unat z - unat y"
    using unat_sub_if' [of z y] lt by simp
  ultimately have "k \<le> z - y"
    unfolding word_le_nat_alt by linarith
  then show ?thesis
    by (simp add: in_region_def \<open>x - b = z - y\<close> not_less)
qed

lemma in_region_append:
  assumes "unat n + unat k < 2 ^ 64"
  shows "in_region d (n + k) a \<longleftrightarrow> in_region d n a \<or> in_region (d + n) k a"
proof -
  have "unat (a - (d + n)) = unat (a - d - n)" by (simp add: diff_diff_eq)
  moreover have "unat (n + k) = unat n + unat k"
    using assms unat_add_lem [of n k] by simp
  ultimately show ?thesis
    using word_diff_small_iff [of n k "a - d"] assms
    by (auto simp: in_region_def word_less_nat_alt word_le_nat_alt)
qed

lemma in_region_Suc: 
  assumes "k < n" shows "in_region d (k + 1) a \<longleftrightarrow> in_region d k a \<or> a = d + k"
proof -
  have "unat k + unat (1 :: u64) < 2 ^ 64"
    using assms unat_less_2p64 [of n] by (simp add: word_less_nat_alt)
  moreover have "in_region (d + k) 1 a \<longleftrightarrow> a = d + k"
    by (auto simp: in_region_def word_less_nat_alt unat_eq_zero)
  ultimately show ?thesis using in_region_append [of k 1 d a] by simp
qed

section \<open>Loads after stores\<close>

lemma bit_load_le:
  "bit (load_le m a n :: 'w::len word) k \<longleftrightarrow>
     k < LENGTH('w) \<and> k < 8 * n \<and> bit (m (a + of_nat (k div 8))) (k mod 8)"
proof (induction n arbitrary: a k)
  case 0
  then show ?case by simp
next
  case (Suc n)
  show ?case
  proof (cases "k < 8")
    case True
    then show ?thesis
      by (auto simp: bit_simps)
  next
    case False
    then obtain j where j: "k = j + 8" by (metis add.commute le_Suc_ex not_less)
    have nb: "\<not> bit (m a) (j + 8)" by (auto dest: bit_imp_le_length)
    have e: "bit (load_le m a (Suc n) :: 'w word) k \<longleftrightarrow> k < LENGTH('w) \<and> bit (load_le m (a + 1) n :: 'w word) j"
      by (simp add: bit_or_iff bit_ucast_iff bit_push_bit_iff nb j)
    have "k div 8 = Suc (j div 8)" "k mod 8 = j mod 8" "k < 8 * Suc n \<longleftrightarrow> j < 8 * n"
      unfolding j by (simp_all add: div_add_self2)
    then show ?thesis unfolding e Suc by (auto simp add: j add.assoc)
  qed
qed

lemma load_le_cong:
  "(\<And>i. i < n \<Longrightarrow> m (a + of_nat i) = m' (a + of_nat i)) \<Longrightarrow> load_le m a n = load_le m' a n"
proof (induction n arbitrary: a)
  case (Suc n)
  have "load_le m (a + 1) n = (load_le m' (a + 1) n :: 'a word)"
    by (rule Suc.IH) (use Suc.prems [of "Suc _"] in \<open>simp add: add.assoc\<close>)
  with Suc.prems [of 0] show ?case
    by simp
qed simp

lemma load_store_same:
  assumes "8 * n = LENGTH('w)" and "n \<le> 8"
  shows "load_le (store_le a n (v :: 'w::len word) m) a n = v"
proof (rule bit_word_eqI)
  fix k
  assume k: "k < LENGTH('w)"
  then have kn: "k div 8 < n" using assms by auto
  then have u: "unat (of_nat (k div 8) :: u64) = k div 8" using assms(2)
    by (intro unat_of_nat_small) simp
  show "bit (load_le (store_le a n v m) a n :: 'w word) k = bit v k"
    using k kn assms(1)
    by (simp add: bit_load_le store_le_def u bit_ucast_iff bit_drop_bit_eq)
qed

lemma load_store_other:
  assumes "disjoint_regions a (of_nat n) b (of_nat k)" and "n \<le> 8" and "k \<le> 8"
  shows "load_le (store_le b k v m) a n = load_le m a n"
proof (rule load_le_cong)
  fix i assume "i < n"
  then have "in_region a (of_nat n) (a + of_nat i)"
    using assms(2) by (simp add: word_less_nat_alt unat_of_nat_small)
  then have "\<not> in_region b (of_nat k) (a + of_nat i)"
    using assms(1) by (rule disjoint_regionsD [rotated])
  then show "store_le b k v m (a + of_nat i) = m (a + of_nat i)"
    using assms(3) by (simp add: store_le_def in_region_def word_less_nat_alt unat_of_nat_small)
qed

lemma store_le_out:
  "\<not> in_region b (of_nat k) x \<Longrightarrow> k \<le> 8 \<Longrightarrow> store_le b k v m x = m x"
  by (simp add: store_le_def in_region_def word_less_nat_alt unat_of_nat_small)

section \<open>Filling\<close>

lemma fill_loop: "for_range (\<lambda>i m. m(d + i := v)) 0 n m = mem_fill d v n m"
  by (rule for_range_rule [where P = "\<lambda>k s. s = mem_fill d v k m"])
     (auto simp: mem_fill_def in_region_Suc fun_eq_iff in_region_def [of _ 0])

lemma mem_fill_append:
  "unat n + unat k < 2 ^ 64 \<Longrightarrow> mem_fill (d + n) v k (mem_fill d v n m) = mem_fill d v (n + k) m"
  by (auto simp: mem_fill_def fun_eq_iff in_region_append)

lemma bit_u8_ge: "8 \<le> k \<Longrightarrow> \<not> bit (v :: u8) k"
  by (auto dest: bit_imp_le_length)

lemma store_repeat8: "store64 a (repeat8 v) m = mem_fill a v 8 m"
proof
  fix x
  have "ucast (drop_bit (8 * j) (repeat8 v)) = v" if "j < 8" for j
  proof -
    have "j \<in> {0,1,2,3,4,5,6,7}" using that by auto
    then show ?thesis
      by (elim insertE emptyE; hypsubst; intro bit_word_eqI;
          auto simp: repeat8_def Let_def bit_simps bit_u8_ge)
  qed
  then show "store64 a (repeat8 v) m x = mem_fill a v 8 m x"
    by (simp add: store_le_def mem_fill_def in_region_def word_less_nat_alt)
qed

lemma mem_fill_0 [simp]: "mem_fill d v 0 m = m"
  by (simp add: mem_fill_def in_region_def)

lemma fill64_loop:
  assumes "unat n * 8 < 2 ^ 64"
  shows "for_range (\<lambda>i. store64 (d + i * 8) (repeat8 v)) 0 n m = mem_fill d v (n * 8) m"
proof (rule for_range_rule [where P = "\<lambda>k s. s = mem_fill d v (k * 8) m"])
  fix k s
  assume k: "k < n" and s: "s = mem_fill d v (k * 8) m"
  have "unat k < unat n" using k by (simp add: word_less_nat_alt)
  then have "unat (k * 8) = unat k * 8" 
    using assms unat_mult_lem [of k 8] by simp
  then have "unat (k * 8) + unat (8 :: u64) < 2 ^ 64"
    using assms \<open>unat k < unat n\<close> by simp
  then show "store64 (d + k * 8) (repeat8 v) s = mem_fill d v ((k + 1) * 8) m"
    unfolding s store_repeat8 by (simp only: mem_fill_append) (simp add: distrib_right)
qed simp_all

lemma memory_set_fill:
  "memory_set dest value sz m = (if dest = 0 then m else mem_fill dest (ucast value) sz m)"
proof (cases "dest = 0 \<or> sz = 0")
  case False
  let ?c = "sz div 8"
  have c: "unat ?c * 8 \<le> unat sz"
    by (simp add: unat_div)
  then have c8: "unat (?c * 8) = unat ?c * 8"
    using unat_mult_lem [of ?c 8] unat_less_2p64 [of sz] by simp
  then have le: "?c * 8 \<le> sz"
    using c by (simp add: word_le_nat_alt)
  have "unat ?c * 8 < 2 ^ 64" "unat (?c * 8) + unat (sz - ?c * 8) < 2 ^ 64"
    using c c8 unat_less_2p64 [of sz] unat_sub_le [OF le] by simp_all
  with False show ?thesis
    by (simp add: memory_set_def Let_def fill_loop fill64_loop mem_fill_append)
qed (auto simp: memory_set_def)

lemma memory_zero_secure_fill:
  "memory_zero_secure p n m = (if p = 0 then m else mem_fill p 0 n m)"
  by (auto simp: memory_zero_secure_def fill_loop)

lemma memory_is_zero_iff:
  "memory_is_zero p n m \<longleftrightarrow> p = 0 \<or> (\<forall>a. in_region p n a \<longrightarrow> m a = 0)"
proof -
  have "(\<forall>a. in_region p n a \<longrightarrow> m a = 0) \<longleftrightarrow> (\<forall>j<n. m (p + j) = 0)"
    by (metis in_region_def in_region_offset add_diff_cancel_left' add.commute diff_add_cancel)
  then show ?thesis
    by (auto simp: memory_is_zero_def find_range_None_iff)
qed

lemma memset_fill: "memset p v n m = mem_fill p (ucast v) n m"
proof (induction p v n m rule: memset.induct)
  case (1 p v n m)
  show ?case
  proof (cases "n = 0")
    case False
    then have "unat (1 :: u64) + unat (n - 1) < 2 ^ 64"
      using unat_less_2p64 [of n] by (simp add: unat_minus_one unat_gt_0)
    then have "mem_fill (p + 1) (ucast v) (n - 1) (mem_fill p (ucast v) 1 m) = mem_fill p (ucast v) n m"
      by (simp add: mem_fill_append)
    moreover have "mem_fill p (ucast v) 1 m = m(p := ucast v)"
      by (auto simp: mem_fill_def in_region_def fun_eq_iff word_less_nat_alt unat_eq_zero)
    ultimately show ?thesis
      using 1 [OF False] False by (simp add: memset.simps [of p v n] fun_upd_def)
  qed (simp add: memset.simps)
qed

section \<open>Copying\<close>

lemma copy_up_loop:
  assumes "dest < src" and "unat src + unat sz \<le> 2 ^ 64"
  shows "for_range (\<lambda>i m. m(dest + i := m (src + i))) 0 sz m = mem_move dest src sz m"
proof (rule for_range_rule [where P = "\<lambda>k s. s = mem_move dest src k m"])
  fix k s
  assume k: "k < sz" and s: "s = mem_move dest src k m"
  have "src + k = dest + ((src - dest) + k)" by simp
  moreover have "unat (src - dest) = unat src - unat dest"
    using assms(1) by (simp add: unat_sub_le)
  then have "unat ((src - dest) + k) = unat src - unat dest + unat k"
    using assms k by (subst unat_add_lem [THEN iffD1]) (auto simp: word_less_nat_alt)
  then have "\<not> (src - dest) + k < k" by (simp add: word_less_nat_alt)
  ultimately have "\<not> in_region dest k (src + k)" by (metis in_region_offset)
  then show "s(dest + k := s (src + k)) = mem_move dest src (k + 1) m"
    using k by (auto simp: s mem_move_def in_region_Suc fun_eq_iff)
qed (simp_all add: mem_move_def in_region_def)

lemma copy_down_loop:
  assumes "src < dest" and "unat dest + unat sz \<le> 2 ^ 64"
  shows "for_down (\<lambda>i m. m(dest + i := m (src + i))) sz m = mem_move dest src sz m"
proof -
  define M where "M k a = (if k \<le> a - dest \<and> a - dest < sz then m (src + (a - dest)) else m a)" for k a
  let ?P = "\<lambda>k s. s = M k"
  have "?P 0 (for_down (\<lambda>i m. m(dest + i := m (src + i))) sz m)"
  proof (rule for_down_rule [where P = ?P])
    show "?P sz m"
      by (auto simp: M_def fun_eq_iff)
  next
    fix k s
    assume k: "k < sz" and s: "?P (k + 1) s"
    let ?d = "dest - src"
    have d: "unat ?d = unat dest - unat src" "unat src < unat dest"
      using assms(1) unat_sub_le [of src dest] by (auto simp: word_less_nat_alt word_le_nat_alt)
    have "unat (k - ?d) \<le> unat k \<or> unat sz \<le> unat (k - ?d)"
      using d assms(2) k unat_less_2p64 [of src] by (simp add: unat_sub_if' word_less_nat_alt) linarith
    then have "\<not> (k + 1 \<le> k - ?d \<and> k - ?d < sz)"
      using k by (auto simp: word_less_nat_alt word_le_nat_alt unat_Suc_less)
    moreover have "src + k - dest = k - ?d" by simp
    ultimately have "s (src + k) = m (src + k)"
      unfolding s M_def by presburger
    moreover have "(k \<le> x \<and> x < sz) \<longleftrightarrow> x = k \<or> (k + 1 \<le> x \<and> x < sz)" for x
      using k by (auto simp: word_less_nat_alt word_le_nat_alt unat_Suc_less word_unat_eq_iff)
    ultimately show "?P k (s(dest + k := s (src + k)))"
      by (auto simp: s M_def fun_eq_iff diff_eq_eq add.commute)
  qed
  then show ?thesis by (simp add: M_def mem_move_def in_region_def fun_eq_iff)
qed

lemma memory_copy_move:
  assumes "unat src + unat sz \<le> 2 ^ 64" and "unat dest + unat sz \<le> 2 ^ 64"
  shows "memory_copy dest src sz m = (if dest = 0 \<or> src = 0 then m else mem_move dest src sz m)"
proof -
  have "mem_move dest dest sz m = m" "mem_move dest src 0 m = m"
    by (simp_all add: mem_move_def in_region_def fun_eq_iff)
  then show ?thesis
    using assms by (auto simp: memory_copy_def copy_up_loop copy_down_loop not_less_iff_gr_or_eq)
qed

lemma memcpy_loop: "memcpy (d + i) (s + i) (n - i) m = for_range (\<lambda>i m. m(d + i := m (s + i))) i n m" if "i \<le> n"
  using that
proof (induction "(\<lambda>i (m::mem). m(d + i := m (s + i)))" i n m rule: for_range.induct)
  case (1 i n m)
  show ?case
  proof (cases "i < n")
    case True
    then have "n - i \<noteq> 0" "i + 1 \<le> n" by (auto simp: inc_le)
    then show ?thesis using 1 True
      by (simp add: memcpy.simps [of _ _ "n - i"] for_range_step add.assoc diff_diff_eq)
  next
    case False
    with 1 show ?thesis by (simp add: memcpy.simps)
  qed
qed

lemma memcpy_move:
  assumes "d < s" and "unat s + unat n \<le> 2 ^ 64"
  shows "memcpy d s n m = mem_move d s n m"
  using memcpy_loop [of 0 n d s m] copy_up_loop [OF assms] by simp

section \<open>Comparing\<close>

lemma length_read_bytes [simp]: "length (read_bytes m p n) = n"
  by (simp add: read_bytes_def)

lemma nth_read_bytes [simp]: "i < n \<Longrightarrow> read_bytes m p n ! i = m (p + of_nat i)"
  by (simp add: read_bytes_def)

lemma read_bytes_Suc: "read_bytes m p (Suc n) = m p # read_bytes m (p + 1) n"
  by (rule nth_equalityI) (auto simp: nth_Cons add.assoc split: nat.splits)

lemma read_bytes_eq_iff:
  "read_bytes m p n = read_bytes m' q n \<longleftrightarrow> (\<forall>i<n. m (p + of_nat i) = m' (q + of_nat i))"
  by (simp add: list_eq_iff_nth_eq)

text \<open>Comparing from the two ends of the loop: \<open>cmp_bytes\<close> is the value both compare loops return.\<close>

fun cmp_bytes :: "u8 list \<Rightarrow> u8 list \<Rightarrow> int" where
  "cmp_bytes (x # xs) (y # ys) = (if x \<noteq> y then uint x - uint y else cmp_bytes xs ys)"
| "cmp_bytes _ _ = 0"

lemma cmp_bytes_sign:
  assumes "length xs = length ys"
  shows "(cmp_bytes xs ys = 0 \<longleftrightarrow> xs = ys) \<and> (cmp_bytes xs ys < 0 \<longleftrightarrow> xs < ys)"
  using assms
proof (induction xs ys rule: list_induct2)
  case (Cons x xs y ys)
  then show ?case by (auto simp: word_less_def word_uint_eq_iff)
qed simp

lemma memcmp_bytes: "memcmp p q n m = cmp_bytes (read_bytes m p (unat n)) (read_bytes m q (unat n))"
proof (induction p q n m rule: memcmp.induct)
  case (1 p q n m)
  show ?case
  proof (cases "n = 0")
    case False
    then have "unat n = Suc (unat (n - 1))" by (simp add: unat_minus_one unat_gt_0)
    then show ?thesis using 1 False by (simp add: memcmp.simps [of p q n] read_bytes_Suc)
  qed (simp add: memcmp.simps read_bytes_def)
qed

lemma cmp_find:
  "i \<le> n \<Longrightarrow> (case find_range (\<lambda>i. m (p + i) \<noteq> m (q + i)) i n of
     Some i \<Rightarrow> uint (m (p + i)) - uint (m (q + i)) | None \<Rightarrow> 0)
   = memcmp (p + i) (q + i) (n - i) m"
proof (induction "(\<lambda>i. m (p + i) \<noteq> m (q + i))" i n rule: find_range.induct)
  case (1 i n)
  show ?case
  proof (cases "i < n")
    case True
    then have "n - i \<noteq> 0" "i + 1 \<le> n" by (auto simp: inc_le)
    then show ?thesis using 1 True
      by (simp add: memcmp.simps [of _ _ "n - i"] find_range.simps [of _ i n] add.assoc diff_diff_eq)
  next
    case False
    with 1 show ?thesis by (simp add: memcmp.simps find_range.simps)
  qed
qed

lemma memory_compare_memcmp:
  "p \<noteq> 0 \<Longrightarrow> q \<noteq> 0 \<Longrightarrow> memory_compare p q n m = memcmp p q n m"
  using cmp_find [of 0 n m p q] by (simp add: memory_compare_def)

section \<open>Checksums\<close>

definition rotl1 :: "u32 \<Rightarrow> u32" where
  "rotl1 c = push_bit 1 c OR drop_bit 31 c"

lemma bit_rotl1: "bit (rotl1 c) k \<longleftrightarrow> k < 32 \<and> bit c (if k = 0 then 31 else k - 1)"
  unfolding rotl1_def bit_or_iff bit_push_bit_iff bit_drop_bit_eq
  by (auto dest: bit_imp_le_length)

lemma rotl1_inj: "rotl1 c = rotl1 d \<longleftrightarrow> c = d"
proof
  assume e: "rotl1 c = rotl1 d"
  show "c = d"
  proof (rule bit_word_eqI)
    fix k assume "k < LENGTH(32)"
    moreover have "bit (rotl1 c) (Suc k mod 32) = bit (rotl1 d) (Suc k mod 32)" using e by simp
    ultimately show "bit c k = bit d k" 
      by (cases "k = 31") (auto simp: bit_rotl1 )
  qed
qed simp


definition checksum_step :: "mem \<Rightarrow> u64 \<Rightarrow> u64 \<Rightarrow> u32 \<Rightarrow> u32" where
  "checksum_step m p i c = rotl1 (c + ucast (m (p + i)))"

lemma checksum_loop:
  "memory_checksum p n m = (if p = 0 then 0 else for_range (checksum_step m p) 0 n 0)"
  by (auto simp: memory_checksum_def checksum_step_def [abs_def] rotl1_def Let_def)

lemma ucast_u8_u32: "(ucast (ucast v :: u32) :: u8) = v"
  by (rule bit_word_eqI) (simp add: bit_ucast_iff)

section \<open>Alignment\<close>

lemma align_up_bounds:
  assumes "k < 64" and "unat a + 2 ^ k \<le> 2 ^ 64"
  shows "2 ^ k dvd unat (memory_align_up a (2 ^ k)) \<and> unat a \<le> unat (memory_align_up a (2 ^ k)) \<and>
    unat (memory_align_up a (2 ^ k)) < unat a + 2 ^ k"
proof -
  let ?d = "(2::nat) ^ k"
  let ?r = "(unat a + ?d - 1) div ?d * ?d"
  have u: "unat (2 ^ k :: u64) = ?d" using assms(1) by (simp add: unat_power_2)
  then have nz: "(2 ^ k :: u64) \<noteq> 0" by (metis unat_0 power_not_zero zero_neq_numeral)
  have "unat (2 ^ k - 1 :: u64) = ?d - 1" using u nz by (simp add: unat_minus_one)
  moreover have "0 < ?d"
    by simp
  ultimately have "unat a + unat (2 ^ k - 1 :: u64) < 2 ^ LENGTH(64)"
    using assms(2) by simp
  then have "unat (a + (2 ^ k - 1)) = unat a + (?d - 1)"
    using \<open>unat (2 ^ k - 1 :: u64) = ?d - 1\<close> unat_add_lem [of a "2 ^ k - 1"] by simp
  then have "unat (memory_align_up a (2 ^ k)) = ?r"
    using nz by (simp add: memory_align_up_def unat_and_not_mask add_diff_eq)
  moreover have "unat a \<le> ?r" "?r < unat a + ?d"
    using round_up_bounds [of ?d "unat a"] by simp_all
  ultimately show ?thesis by simp
qed
lemma strncpy_pad_fill: "strncpy_pad d n m = mem_fill d 0 n m"
proof (induction d n m rule: strncpy_pad.induct)
  case (1 d n m)
  show ?case
  proof (cases "n = 0")
    case True
    then show ?thesis by (simp add: strncpy_pad.simps [of d 0] mem_fill_def in_region_def)
  next
    case False
    then have "strncpy_pad d n m = memset (d + 1) 0 (n - 1) (m(d := 0))"
      using 1 by (simp add: strncpy_pad.simps [of d n] word_gt_0 memset_fill fun_upd_def)
    also have "\<dots> = memset d 0 n m" using False by (simp add: memset.simps [of d 0 n] unsigned_0)
    finally show ?thesis by (simp add: memset_fill unsigned_0)
  qed
qed

lemma strncpy_step:
  "strncpy d s n m =
     (if n \<noteq> 0 \<and> m s \<noteq> 0 then strncpy (d + 1) (s + 1) (n - 1) (m(d := m s))
      else mem_fill d 0 n m)"
  by (simp add: strncpy_def strncpy_copy.simps [of d s n] strncpy_pad_fill word_gt_0)

lemma in_region_tail:
  assumes "in_region (d + 1) (n - 1) x" and "n \<noteq> 0"
  shows "in_region d n x"
proof -
  define y where "y = x - (d + 1)"
  have "unat y < unat n - 1"
    using assms by (simp add: in_region_def word_less_nat_alt unat_minus_one y_def)
  moreover have "unat (y + 1) \<le> unat y + 1"
    unfolding unat_word_ariths(1) [of y 1] by simp
  moreover have "x - d = y + 1" by (simp add: y_def)
  ultimately show ?thesis by (simp add: in_region_def word_less_nat_alt)
qed

text \<open>\<^verbatim>\<open>strncpy\<close> writes its destination only.\<close>

lemma strncpy_outside: "\<not> in_region d n x \<Longrightarrow> strncpy d s n m x = m x"
proof (induction "unat n" arbitrary: d s n m)
  case 0
  then show ?case by (simp add: strncpy_step [of d s 0] unat_eq_zero mem_fill_def)
next
  case (Suc k)
  then have n0: "n \<noteq> 0" by auto
  then have k: "k = unat (n - 1)" using Suc.hyps(2) by (simp add: unat_minus_one)
  have "x \<noteq> d" using Suc.prems n0 by auto
  moreover have "\<not> in_region (d + 1) (n - 1) x" using Suc.prems in_region_tail n0 by blast
  ultimately show ?case
    using Suc.hyps(1) [OF k, of "d + 1" "s + 1" "m(d := m s)"] Suc.prems
    by (simp add: strncpy_step [of d s n] mem_fill_def)
qed

section \<open>Properties\<close>

text \<open>
  C39: \<^verbatim>\<open>memory_set\<close>, 64-bit fast path included, writes the low byte of its value to every
  byte of the region and to no other, whatever the size and the alignment; a null
  destination is ignored.
\<close>

theorem memory_set_correct:
  "memory_set dest value sz m =
     (if dest = 0 then m else (\<lambda>a. if a - dest < sz then ucast value else m a))"
  by (simp add: memory_set_fill mem_fill_def in_region_def)

text \<open>
  C40: \<^verbatim>\<open>memory_copy\<close> moves a block as if all bytes were read before any is written, also when
  the two blocks overlap, provided neither runs past the end of the address space. A null
  pointer leaves the memory as it is.
\<close>

theorem memory_copy_correct:
  assumes "unat src + unat sz \<le> 2 ^ 64" and "unat dest + unat sz \<le> 2 ^ 64"
  shows "memory_copy dest src sz m =
    (if dest = 0 \<or> src = 0 then m
     else (\<lambda>a. if a - dest < sz then m (src + (a - dest)) else m a))"
  using memory_copy_move [OF assms] by (simp add: mem_move_def in_region_def)

lemma memory_copy_correct_witness:
  "memory_copy 8 4 6 (\<lambda>a. ucast a) 13 = 9 \<and> memory_copy 4 8 6 (\<lambda>a. ucast a) 4 = 8 \<and>
   memory_copy 4 8 6 (\<lambda>a. ucast a) 9 = 13"
  using memory_copy_correct [of 4 6 8 "\<lambda>a. ucast a"] memory_copy_correct [of 8 6 4 "\<lambda>a. ucast a"]
  by simp

text \<open>
  The result of \<^verbatim>\<open>memory_compare\<close> on two non-null blocks orders them: it is zero exactly
  when the blocks hold the same bytes, and negative exactly when the first precedes the
  second in lexicographic order of unsigned bytes. \<^verbatim>\<open>memcmp\<close> returns the same value.
\<close>

theorem memory_compare_correct:
  assumes "ptr1 \<noteq> 0" and "ptr2 \<noteq> 0"
  shows "(memory_compare ptr1 ptr2 sz m = 0 \<longleftrightarrow>
      read_bytes m ptr1 (unat sz) = read_bytes m ptr2 (unat sz)) \<and>
    (memory_compare ptr1 ptr2 sz m < 0 \<longleftrightarrow>
      read_bytes m ptr1 (unat sz) < read_bytes m ptr2 (unat sz)) \<and>
    memory_compare ptr1 ptr2 sz m = memcmp ptr1 ptr2 sz m"
  using cmp_bytes_sign [of "read_bytes m ptr1 (unat sz)" "read_bytes m ptr2 (unat sz)"] assms
  by (simp add: memory_compare_memcmp memcmp_bytes)

lemma memory_compare_correct_witness:
  "memory_compare 16 32 2 (\<lambda>a. if a = 33 then 7 else 0) < 0"
proof -
  have "read_bytes (\<lambda>a. if a = 33 then 7 else 0) 16 2 < read_bytes (\<lambda>a. if a = 33 then 7 else 0) 32 2"
    by (simp add: read_bytes_def upt_rec)
  then show ?thesis
    using memory_compare_correct [of 16 32 2 "\<lambda>a. if a = 33 then 7 else 0"] by simp
qed

text \<open>
  Changing any single byte of a non-null block changes its \<^verbatim>\<open>memory_checksum\<close>.
\<close>

theorem memory_checksum_detects:
  assumes "ptr \<noteq> 0" and "j < sz" and "v \<noteq> m (ptr + j)"
  shows "memory_checksum ptr sz (m(ptr + j := v)) \<noteq> memory_checksum ptr sz m"
proof
  let ?m = "m(ptr + j := v)" and ?f = "\<lambda>m. checksum_step m ptr"
  let ?c = "for_range (?f m) 0 j 0"
  have rest: "for_range (?f ?m) (j + 1) sz s = for_range (?f m) (j + 1) sz s" for s
    by (rule for_range_cong)
      (use assms(2) in \<open>auto simp: checksum_step_def word_le_nat_alt unat_Suc_less\<close>)
  have split: "for_range (?f m) 0 sz 0 = for_range (?f m) (j + 1) sz (?f m j (for_range (?f m) 0 j 0))"
    for m
    using for_range_split [of 0 j sz "?f m" 0] assms(2) by (simp add: for_range_step [of j sz])
  have start: "for_range (?f ?m) 0 j 0 = ?c"
    by (rule for_range_cong) (auto simp: checksum_step_def)
  assume "memory_checksum ptr sz ?m = memory_checksum ptr sz m"
  then have "for_range (?f m) (j + 1) sz (?f ?m j ?c) = for_range (?f m) (j + 1) sz (?f m j ?c)"
    by (simp add: checksum_loop assms(1) split [of m] split [of ?m] start rest)
  then have "?f ?m j ?c = ?f m j ?c"
    by (rule for_range_inj [rotated]) (simp add: checksum_step_def rotl1_inj)
  then have "(ucast v :: u32) = ucast (m (ptr + j))"
    by (simp add: checksum_step_def rotl1_inj)
  then have "v = m (ptr + j)"
    by (metis ucast_u8_u32)
  with assms(3) show False
    by simp
qed

lemma memory_checksum_detects_witness:
  "memory_checksum 16 4 ((\<lambda>_. 0)(16 + 2 := 1)) \<noteq> memory_checksum 16 4 (\<lambda>_. 0)"
  by (rule memory_checksum_detects) simp_all

text \<open>
  For a power-of-two alignment and an address that does not overflow when rounded,
  \<^verbatim>\<open>memory_align_up\<close> returns the least aligned address not below its argument, and
  \<^verbatim>\<open>memory_align_down\<close> the greatest aligned one not above it; \<^verbatim>\<open>memory_is_aligned\<close> recognises
  the results.
\<close>

theorem memory_align_correct:
  assumes "k < 64" and "unat addr + 2 ^ k \<le> 2 ^ 64"
  shows "memory_is_aligned (memory_align_up addr (2 ^ k)) (2 ^ k) \<and>
    memory_is_aligned (memory_align_down addr (2 ^ k)) (2 ^ k) \<and>
    unat addr \<le> unat (memory_align_up addr (2 ^ k)) \<and>
    unat (memory_align_up addr (2 ^ k)) < unat addr + 2 ^ k \<and>
    unat (memory_align_down addr (2 ^ k)) \<le> unat addr \<and>
    unat addr < unat (memory_align_down addr (2 ^ k)) + 2 ^ k"
proof -
  let ?d = "(2::nat) ^ k"
  have "unat (2 ^ k :: u64) = ?d"
    using assms(1) by (simp add: unat_power_2)
  then have nz: "(2 ^ k :: u64) \<noteq> 0"
    by (metis unat_0 power_not_zero zero_neq_numeral)
  have "unat addr mod ?d < ?d"
    by simp
  then have "unat addr div ?d * ?d \<le> unat addr" "unat addr < unat addr div ?d * ?d + ?d"
    using div_mult_mod_eq [of "unat addr" ?d] by linarith+
  then show ?thesis
    using align_up_bounds [OF assms] nz
    by (simp add: memory_is_aligned_def memory_align_down_def and_mask_0_iff unat_and_not_mask)
qed

lemma memory_align_correct_witness:
  "unat (5000 :: u64) \<le> unat (memory_align_up 5000 (2 ^ 12))"
  using memory_align_correct [of 12 5000] by simp

end
