(* ===== verification/Pmm.thy ===== *)
theory Pmm
  imports Bytes
begin

text \<open>
  The physical memory manager, \<^verbatim>\<open>kernel/mm/pmm.c\<close>: page frames tracked by a bitmap that
  itself lives in memory, at the fixed address \<^verbatim>\<open>0x100000\<close>. A set bit is a page in use.

  The kernel's state is one record per component, each extending the previous one in boot
  order, so that an operation of a component applies unchanged to every state that
  contains it. The machine is the memory; the statics of \<^verbatim>\<open>pmm.c\<close>
  are the fields of \<open>pmm\<close>. Diagnostics (\<^verbatim>\<open>KINFO\<close> and the like) have no effect on
  the state and are left out.

  The abstract view of the allocator is \<open>free_set\<close>, the set of free page numbers.
\<close>

unbundle bit_operations_syntax

section \<open>State\<close>

record machine =
  memory :: mem

record memory_region =
  region_start :: u64
  region_end :: u64
  region_size :: u64
  region_type :: u32
  region_flags :: u32
  region_name :: u64

definition MEMORY_TYPE_AVAILABLE :: u32 where
  "MEMORY_TYPE_AVAILABLE = 1"

record memory_stats =
  total_physical :: u64
  available_physical :: u64
  used_physical :: u64
  total_virtual :: u64
  used_virtual :: u64
  page_faults :: u32
  allocations :: u32

record pmm = machine +
  page_bitmap :: u64
  total_pages :: u64
  free_pages :: u64
  bitmap_size :: u64
  memory_regions :: "memory_region list"
  region_count :: u64
  pmm_stats :: memory_stats

section \<open>Operations\<close>

definition bitmap_byte :: "u64 \<Rightarrow> 'a pmm_scheme \<Rightarrow> u64" where
  "bitmap_byte page_number s = page_bitmap s + page_number div 8"

definition bit_mask :: "u64 \<Rightarrow> u8" where
  "bit_mask page_number = push_bit (unat (page_number mod 8)) 1"

definition pmm_mark_page_used :: "u64 \<Rightarrow> 'a pmm_scheme \<Rightarrow> 'a pmm_scheme" where
  "pmm_mark_page_used page_number s =
     (if total_pages s \<le> page_number then s
      else
        let a = bitmap_byte page_number s; b = memory s a; k = bit_mask page_number in
        if \<not> (b AND k \<noteq> 0) then
          s\<lparr>memory := (memory s)(a := b OR k),
            free_pages := free_pages s - 1,
            pmm_stats := (pmm_stats s)\<lparr>
              used_physical := used_physical (pmm_stats s) + PAGE_SIZE,
              available_physical := available_physical (pmm_stats s) - PAGE_SIZE\<rparr>\<rparr>
        else s)"

definition pmm_mark_page_free :: "u64 \<Rightarrow> 'a pmm_scheme \<Rightarrow> 'a pmm_scheme" where
  "pmm_mark_page_free page_number s =
     (if total_pages s \<le> page_number then s
      else
        let a = bitmap_byte page_number s; b = memory s a; k = bit_mask page_number in
        if b AND k \<noteq> 0 then
          s\<lparr>memory := (memory s)(a := b AND NOT k),
            free_pages := free_pages s + 1,
            pmm_stats := (pmm_stats s)\<lparr>
              used_physical := used_physical (pmm_stats s) - PAGE_SIZE,
              available_physical := available_physical (pmm_stats s) + PAGE_SIZE\<rparr>\<rparr>
        else s)"

definition pmm_is_page_free :: "u64 \<Rightarrow> 'a pmm_scheme \<Rightarrow> bool" where
  "pmm_is_page_free page_number s =
     (if total_pages s \<le> page_number then False
      else \<not> (memory s (bitmap_byte page_number s) AND bit_mask page_number \<noteq> 0))"

text \<open>
  \<^verbatim>\<open>pmm_init\<close>. The argument is \<open>None\<close> for a null pointer; otherwise the array of regions with
  its count. The table \<^verbatim>\<open>memory_regions\<close> holds 32 entries, so only that many are kept.
\<close>

definition available_memory :: "memory_region list \<Rightarrow> u64" where
  "available_memory regions =
     fold (\<lambda>r total. if region_type r = MEMORY_TYPE_AVAILABLE then total + region_size r else total)
       regions 0"

definition free_region :: "memory_region \<Rightarrow> 'a pmm_scheme \<Rightarrow> 'a pmm_scheme" where
  "free_region r s =
     (if region_type r = MEMORY_TYPE_AVAILABLE then
        let start_page = region_start r div PAGE_SIZE;
            page_count = region_size r div PAGE_SIZE
        in for_range pmm_mark_page_free start_page (start_page + page_count) s
      else s)"

definition pmm_init :: "memory_region list option \<Rightarrow> 'a pmm_scheme \<Rightarrow> int \<times> 'a pmm_scheme" where
  "pmm_init regions s =
     (case regions of
        None \<Rightarrow> (-1, s)
      | Some rs \<Rightarrow>
          if rs = [] then (-1, s)
          else
            let n = (if length rs > 32 then 32 else length rs);
                s = s\<lparr>region_count := of_nat n,
                      memory_regions := take n rs @ drop n (memory_regions s)\<rparr>;
                active = take n (memory_regions s);
                total_memory = available_memory active;
                s = s\<lparr>total_pages := total_memory div PAGE_SIZE\<rparr>;
                s = s\<lparr>bitmap_size := (total_pages s + 7) div 8, free_pages := 0,
                      page_bitmap := 0x100000\<rparr>;
                s = s\<lparr>memory := memory_set (page_bitmap s) 0xFF (bitmap_size s) (memory s)\<rparr>;
                s = fold free_region active s;
                s = s\<lparr>pmm_stats := (pmm_stats s)\<lparr>
                        total_physical := total_memory,
                        available_physical := free_pages s * PAGE_SIZE,
                        used_physical := (total_pages s - free_pages s) * PAGE_SIZE\<rparr>\<rparr>
            in (0, s))"

definition count_allocation :: "'a pmm_scheme \<Rightarrow> 'a pmm_scheme" where
  "count_allocation s =
     s\<lparr>pmm_stats := (pmm_stats s)\<lparr>allocations := allocations (pmm_stats s) + 1\<rparr>\<rparr>"

definition pmm_alloc_page :: "'a pmm_scheme \<Rightarrow> u64 \<times> 'a pmm_scheme" where
  "pmm_alloc_page s =
     (if free_pages s = 0 then (0, s)
      else
        (case find_range (\<lambda>page. pmm_is_page_free page s) 0 (total_pages s) of
           Some page \<Rightarrow>
             let s = count_allocation (pmm_mark_page_used page s);
                 physical_addr = page * PAGE_SIZE;
                 s = s\<lparr>memory := memory_set physical_addr 0 PAGE_SIZE (memory s)\<rparr>
             in (physical_addr, s)
         | None \<Rightarrow> (0, s)))"

definition pmm_free_page :: "u64 \<Rightarrow> 'a pmm_scheme \<Rightarrow> 'a pmm_scheme" where
  "pmm_free_page page s =
     (if page = 0 \<or> page mod PAGE_SIZE \<noteq> 0 then s
      else
        let page_number = page div PAGE_SIZE in
        if pmm_is_page_free page_number s then s else pmm_mark_page_free page_number s)"

text \<open>
  \<^verbatim>\<open>pmm_alloc_pages\<close> scans with \<^verbatim>\<open>start_page <= total_pages - count\<close>. The bound is inclusive, so
  the scan is not a counting loop with a fixed end: it runs forever when the bound is the
  largest 64-bit value. The result \<open>None\<close> is that divergence.
\<close>

partial_function (option) scan_upto ::
  "(u64 \<Rightarrow> bool) \<Rightarrow> u64 \<Rightarrow> u64 \<Rightarrow> u64 option option" where
  "scan_upto P i n =
     (if i \<le> n then (if P i then Some (Some i) else scan_upto P (i + 1) n) else Some None)"

definition block_free :: "u64 \<Rightarrow> 'a pmm_scheme \<Rightarrow> u64 \<Rightarrow> bool" where
  "block_free count s start_page \<longleftrightarrow>
     find_range (\<lambda>i. \<not> pmm_is_page_free (start_page + i) s) 0 count = None"

definition pmm_alloc_pages :: "u64 \<Rightarrow> 'a pmm_scheme \<Rightarrow> (u64 \<times> 'a pmm_scheme) option" where
  "pmm_alloc_pages count s =
     (if count = 0 then Some (0, s)
      else if count = 1 then Some (pmm_alloc_page s)
      else if free_pages s < count then Some (0, s)
      else
        (case scan_upto (block_free count s) 0 (total_pages s - count) of
           None \<Rightarrow> None
         | Some None \<Rightarrow> Some (0, s)
         | Some (Some start_page) \<Rightarrow>
             let s = for_range (\<lambda>i. pmm_mark_page_used (start_page + i)) 0 count s;
                 s = count_allocation s;
                 physical_addr = start_page * PAGE_SIZE;
                 s = s\<lparr>memory := memory_set physical_addr 0 (count * PAGE_SIZE) (memory s)\<rparr>
             in Some (physical_addr, s)))"

definition pmm_free_pages :: "u64 \<Rightarrow> u64 \<Rightarrow> 'a pmm_scheme \<Rightarrow> 'a pmm_scheme" where
  "pmm_free_pages start count s =
     (if start = 0 \<or> start mod PAGE_SIZE \<noteq> 0 \<or> count = 0 then s
      else for_range (\<lambda>i. pmm_free_page (start + i * PAGE_SIZE)) 0 count s)"

definition get_memory_stats :: "'a pmm_scheme \<Rightarrow> memory_stats \<times> 'a pmm_scheme" where
  "get_memory_stats s =
     (let s = s\<lparr>pmm_stats := (pmm_stats s)\<lparr>
                  available_physical := free_pages s * PAGE_SIZE,
                  used_physical := (total_pages s - free_pages s) * PAGE_SIZE\<rparr>\<rparr>
      in (pmm_stats s, s))"

section \<open>The abstract allocator\<close>

definition page_bit :: "u64 \<Rightarrow> 'a pmm_scheme \<Rightarrow> bool" where
  "page_bit p s = bit (memory s (bitmap_byte p s)) (unat (p mod 8))"

definition free_set :: "'a pmm_scheme \<Rightarrow> u64 set" where
  "free_set s = {p. p < total_pages s \<and> \<not> page_bit p s}"

text \<open>
  The type invariant: the counter \<^verbatim>\<open>free_pages\<close> is the number of clear bits, and the two byte
  totals of the statistics follow from it. The second predicate is what an allocation
  needs in addition: page \<open>0\<close> is in use (its address means failure), and no free page
  overlaps the bitmap itself.
\<close>

definition pmm_count :: "'a pmm_scheme \<Rightarrow> bool" where
  "pmm_count s \<longleftrightarrow>
     unat (total_pages s) < 2 ^ 52 \<and>
     bitmap_size s = (total_pages s + 7) div 8 \<and>
     unat (free_pages s) = card (free_set s)"

definition pmm_inv :: "'a pmm_scheme \<Rightarrow> bool" where
  "pmm_inv s \<longleftrightarrow>
     pmm_count s \<and>
     available_physical (pmm_stats s) = free_pages s * PAGE_SIZE \<and>
     used_physical (pmm_stats s) = (total_pages s - free_pages s) * PAGE_SIZE"

definition pmm_safe :: "'a pmm_scheme \<Rightarrow> bool" where
  "pmm_safe s \<longleftrightarrow>
     0 \<notin> free_set s \<and>
     (\<forall>p\<in>free_set s. disjoint_regions (p * PAGE_SIZE) PAGE_SIZE (page_bitmap s) (bitmap_size s))"

text \<open>The addresses the bitmap occupies.\<close>

definition in_bitmap :: "'a pmm_scheme \<Rightarrow> u64 \<Rightarrow> bool" where
  "in_bitmap s = in_region (page_bitmap s) (bitmap_size s)"

text \<open>\<open>t\<close> differs from \<open>s\<close> in the allocator's own bookkeeping at most.\<close>

definition bookkeeping :: "'a pmm_scheme \<Rightarrow> 'a pmm_scheme \<Rightarrow> bool" where
  "bookkeeping s t \<longleftrightarrow>
     total_pages t = total_pages s \<and> page_bitmap t = page_bitmap s \<and> bitmap_size t = bitmap_size s \<and>
     (\<forall>a. \<not> in_bitmap s a \<longrightarrow> memory t a = memory s a)"

text \<open>The page numbers an available region covers.\<close>

definition region_pages :: "memory_region \<Rightarrow> u64 set" where
  "region_pages r =
     (if region_type r = MEMORY_TYPE_AVAILABLE
      then {p. region_start r div PAGE_SIZE \<le> p \<and>
               p < region_start r div PAGE_SIZE + region_size r div PAGE_SIZE}
      else {})"

text \<open>
  A page frame a client holds: not free, and clear of the allocator's own memory.
\<close>

definition held :: "u64 set \<Rightarrow> (u64 \<Rightarrow> bool) \<Rightarrow> u64 \<Rightarrow> bool" where
  "held free reserved p \<longleftrightarrow> p \<notin> free \<and> (\<forall>x. x div PAGE_SIZE = p \<longrightarrow> \<not> reserved x)"

section \<open>Marking pages\<close>

lemma and_bit_mask: "b AND bit_mask p = 0 \<longleftrightarrow> \<not> bit b (unat (p mod 8))"
  by (simp add: bit_mask_def bit_iff_and_push_bit_not_eq_0)

lemma unat_mod_8: "unat (p mod 8 :: u64) = unat p mod 8" and unat_div_8: "unat (p div 8 :: u64) = unat p div 8"
  by (simp_all add: unat_mod unat_div)

lemma unat_mod_8_less: "unat (p mod 8 :: u64) < 8"
  by (simp add: unat_mod_8)

lemma bit_mask_iff: "bit (bit_mask p) k \<longleftrightarrow> k = unat (p mod 8)"
  by (auto simp: bit_mask_def bit_simps unat_mod_8)

lemma page_slot_inj: "p div 8 = (q :: u64) div 8 \<Longrightarrow> unat (p mod 8) = unat (q mod 8) \<Longrightarrow> p = q"
  by (metis div_mult_mod_eq word_unat_eq_iff)

lemma pmm_is_page_free_iff: "pmm_is_page_free p s \<longleftrightarrow> p \<in> free_set s"
  by (auto simp: pmm_is_page_free_def free_set_def page_bit_def and_bit_mask)

lemma mark_used_page_bit:
  "page_bit q (pmm_mark_page_used p s) \<longleftrightarrow> page_bit q s \<or> (p < total_pages s \<and> q = p)"
  by (auto simp: pmm_mark_page_used_def page_bit_def bitmap_byte_def Let_def and_bit_mask
       bit_or_iff bit_mask_iff unat_mod_8_less not_le dest: page_slot_inj)

lemma mark_free_page_bit:
  "page_bit q (pmm_mark_page_free p s) \<longleftrightarrow> page_bit q s \<and> \<not> (p < total_pages s \<and> q = p)"
  by (auto simp: pmm_mark_page_free_def page_bit_def bitmap_byte_def Let_def and_bit_mask
       bit_and_iff bit_not_iff bit_mask_iff unat_mod_8_less not_le dest: page_slot_inj)


lemma mark_frame [frame_simps]:
  "total_pages (pmm_mark_page_used p s) = total_pages s"
  "page_bitmap (pmm_mark_page_used p s) = page_bitmap s"
  "bitmap_size (pmm_mark_page_used p s) = bitmap_size s"
  "total_pages (pmm_mark_page_free p s) = total_pages s"
  "page_bitmap (pmm_mark_page_free p s) = page_bitmap s"
  "bitmap_size (pmm_mark_page_free p s) = bitmap_size s"
  by (simp_all add: pmm_mark_page_used_def pmm_mark_page_free_def Let_def)

lemma mark_used_free_set: "free_set (pmm_mark_page_used p s) = free_set s - {p}"
  by (auto simp: free_set_def mark_used_page_bit frame_simps)

lemma mark_free_free_set:
  "free_set (pmm_mark_page_free p s) = (if p < total_pages s then insert p (free_set s) else free_set s)"
  by (auto simp: free_set_def mark_free_page_bit frame_simps)

lemma finite_free_set [simp]: "finite (free_set s)"
  by (rule finite_subset [OF subset_UNIV]) simp

lemma mark_used_cases:
  "pmm_mark_page_used p s =
     (if p \<in> free_set s then
        s\<lparr>memory := (memory s)(bitmap_byte p s := memory s (bitmap_byte p s) OR bit_mask p),
          free_pages := free_pages s - 1,
          pmm_stats := (pmm_stats s)\<lparr>
            used_physical := used_physical (pmm_stats s) + PAGE_SIZE,
            available_physical := available_physical (pmm_stats s) - PAGE_SIZE\<rparr>\<rparr>
      else s)"
  by (auto simp: pmm_mark_page_used_def free_set_def page_bit_def Let_def and_bit_mask)

lemma mark_free_cases:
  "pmm_mark_page_free p s =
     (if p < total_pages s \<and> p \<notin> free_set s then
        s\<lparr>memory := (memory s)(bitmap_byte p s := memory s (bitmap_byte p s) AND NOT (bit_mask p)),
          free_pages := free_pages s + 1,
          pmm_stats := (pmm_stats s)\<lparr>
            used_physical := used_physical (pmm_stats s) - PAGE_SIZE,
            available_physical := available_physical (pmm_stats s) + PAGE_SIZE\<rparr>\<rparr>
      else s)"
  by (auto simp: pmm_mark_page_free_def free_set_def page_bit_def Let_def and_bit_mask)

lemma mark_used_count:
  assumes "pmm_count s"
  shows "pmm_count (pmm_mark_page_used p s)"
proof (cases "p \<in> free_set s")
  case True
  then have "0 < card (free_set s)" by (auto simp: card_gt_0_iff)
  then have nz: "free_pages s \<noteq> 0" using assms by (auto simp: pmm_count_def)
  then have "unat (free_pages s - 1) = card (free_set s - {p})"
    using assms True by (simp add: pmm_count_def unat_minus_one)
  then show ?thesis
    using assms True unfolding pmm_count_def mark_used_free_set frame_simps
    by (simp add: mark_used_cases algebra_simps)
next
  case False
  with assms show ?thesis by (simp add: mark_used_cases)
qed

lemma card_free_set_le: "card (free_set s) \<le> unat (total_pages s)"
proof -
  have "unat ` free_set s \<subseteq> {..<unat (total_pages s)}"
    by (auto simp: free_set_def word_less_nat_alt)
  then have "card (unat ` free_set s) \<le> unat (total_pages s)"
    using card_mono [of "{..<unat (total_pages s)}"] by simp
  then show ?thesis by (simp add: card_image inj_on_def word_unat_eq_iff)
qed

lemma mark_free_count:
  assumes "pmm_count s"
  shows "pmm_count (pmm_mark_page_free p s)"
proof (cases "p < total_pages s \<and> p \<notin> free_set s")
  case True
  have "unat (free_pages s) + 1 < 2 ^ 64"
    using assms card_free_set_le [of s] by (simp add: pmm_count_def)
  then have "unat (free_pages s + 1) = card (insert p (free_set s))"
    using assms True unat_add_lem [of "free_pages s" 1] by (simp add: pmm_count_def)
  then show ?thesis
    using assms True unfolding pmm_count_def mark_free_free_set frame_simps
    by (simp add: mark_free_cases algebra_simps)
next
  case False
  then have "pmm_mark_page_free p s = s" by (auto simp add: mark_free_cases)
  with assms show ?thesis by simp
qed

lemma mark_used_inv: "pmm_inv s \<Longrightarrow> pmm_inv (pmm_mark_page_used p s)"
  using mark_used_count [of s p] by (auto simp: pmm_inv_def mark_used_cases algebra_simps)

lemma mark_free_inv: "pmm_inv s \<Longrightarrow> pmm_inv (pmm_mark_page_free p s)"
  using mark_free_count [of s p] by (auto simp: pmm_inv_def mark_free_cases algebra_simps)

lemma pmm_inv_count: "pmm_inv s \<Longrightarrow> pmm_count s"
  by (simp add: pmm_inv_def)

section \<open>Allocating one page\<close>

lemma count_allocation_frame [frame_simps]:
  "memory (count_allocation s) = memory s" "total_pages (count_allocation s) = total_pages s"
  "page_bitmap (count_allocation s) = page_bitmap s" "bitmap_size (count_allocation s) = bitmap_size s"
  "free_pages (count_allocation s) = free_pages s" "free_set (count_allocation s) = free_set s"
  "pmm_inv (count_allocation s) = pmm_inv s"
  by (simp_all add: count_allocation_def free_set_def page_bit_def bitmap_byte_def pmm_inv_def
      pmm_count_def)

lemma bitmap_byte_in:
  assumes "pmm_count s" and "p < total_pages s"
  shows "in_bitmap s (bitmap_byte p s)"
proof -
  have "unat (total_pages s + 7) = unat (total_pages s) + 7"
    using assms(1) unat_add_lem [of "total_pages s" 7] by (simp add: pmm_count_def)
  then have "unat (p div 8) < unat (bitmap_size s)"
    using assms by (simp add: pmm_count_def unat_div word_less_nat_alt)
  then show ?thesis by (simp add: in_bitmap_def bitmap_byte_def word_less_nat_alt)
qed

text \<open>Memory outside the bitmap does not matter to the allocator.\<close>

lemma free_set_cong:
  assumes "pmm_count s" and "\<And>a. in_bitmap s a \<Longrightarrow> m a = memory s a"
  shows "free_set (s\<lparr>memory := m\<rparr>) = free_set s"
  using assms(2) [OF bitmap_byte_in [OF assms(1)]]
  by (auto simp: free_set_def page_bit_def bitmap_byte_def)

lemma pmm_inv_cong:
  assumes "pmm_inv s" and "\<And>a. in_bitmap s a \<Longrightarrow> m a = memory s a"
  shows "pmm_inv (s\<lparr>memory := m\<rparr>)"
  using assms(1) free_set_cong [OF pmm_inv_count [OF assms(1)] assms(2)]
  by (simp add: pmm_inv_def pmm_count_def)

lemma mark_used_memory:
  "pmm_count s \<Longrightarrow> \<not> in_bitmap s a \<Longrightarrow> memory (pmm_mark_page_used p s) a = memory s a"
  using bitmap_byte_in [of s p] by (auto simp: mark_used_cases free_set_def)

lemma mark_free_memory:
  "pmm_count s \<Longrightarrow> \<not> in_bitmap s a \<Longrightarrow> memory (pmm_mark_page_free p s) a = memory s a"
  using bitmap_byte_in [of s p] by (auto simp: mark_free_cases free_set_def)

lemma page_address:
  assumes "pmm_count s" and "p < total_pages s"
  shows "unat (p * PAGE_SIZE) = unat p * 4096"
proof -
  have "unat p * unat PAGE_SIZE < 2 ^ LENGTH(64)"
    using assms by (simp add: pmm_count_def word_less_nat_alt unat_PAGE_SIZE)
  then have "unat (p * PAGE_SIZE) = unat p * unat PAGE_SIZE"
    by (simp only: unat_mult_lem)
  then show ?thesis by (simp add: unat_PAGE_SIZE)
qed

lemma find_free:
  assumes "pmm_count s" and "free_set s \<noteq> {}"
  shows "find_range (\<lambda>page. pmm_is_page_free page s) 0 (total_pages s) = Some (Min (free_set s))"
proof (cases "find_range (\<lambda>page. pmm_is_page_free page s) 0 (total_pages s)")
  case None
  then have "p \<notin> free_set s" for p
    by (auto simp: find_range_None_iff pmm_is_page_free_iff free_set_def)
  with assms show ?thesis by auto
next
  case (Some p)
  then have "p \<in> free_set s" "\<And>q. q \<in> free_set s \<Longrightarrow> p \<le> q"
    using find_range_Some [OF Some] by (auto simp: pmm_is_page_free_iff not_le [symmetric])
  with Some show ?thesis by (simp add: Min_eqI [symmetric])
qed

lemma alloc_page_none:
  assumes "pmm_count s" and "free_set s = {}"
  shows "pmm_alloc_page s = (0, s)"
  using assms by (simp add: pmm_alloc_page_def pmm_count_def unat_eq_zero)

lemma alloc_page_some:
  assumes inv: "pmm_inv s" and safe: "pmm_safe s" and ne: "free_set s \<noteq> {}"
    and p: "p = Min (free_set s)" and r: "pmm_alloc_page s = (a, s')"
  shows "a = p * PAGE_SIZE" "a \<noteq> 0" "free_set s' = free_set s - {p}" "pmm_inv s'" "pmm_safe s'"
    "\<And>x. in_region a PAGE_SIZE x \<Longrightarrow> memory s' x = 0"
    "\<And>x. \<not> in_region a PAGE_SIZE x \<Longrightarrow> \<not> in_bitmap s x \<Longrightarrow> memory s' x = memory s x"
    "page_bitmap s' = page_bitmap s" "bitmap_size s' = bitmap_size s" "total_pages s' = total_pages s"
proof -
  let ?t = "count_allocation (pmm_mark_page_used p s)"
  have pf: "p \<in> free_set s" using ne p by simp
  then have pt: "p < total_pages s" and p0: "p \<noteq> 0"
    using safe by (auto simp: free_set_def pmm_safe_def)
  have "unat (p * PAGE_SIZE) \<noteq> 0"
    using page_address [OF pmm_inv_count [OF inv] pt] p0 by (simp add: unat_eq_zero)
  then have a0: "p * PAGE_SIZE \<noteq> 0" by auto
  have "card (free_set s) \<noteq> 0" using ne by simp
  then have "free_pages s \<noteq> 0" using inv by (auto simp: pmm_inv_def pmm_count_def)
  then have e: "a = p * PAGE_SIZE" "s' = ?t\<lparr>memory := mem_fill a 0 PAGE_SIZE (memory ?t)\<rparr>"
    using r a0 p find_free [OF pmm_inv_count [OF inv] ne] by (auto simp: pmm_alloc_page_def Let_def memory_set_fill)
  have ti: "pmm_inv ?t" by (simp add: frame_simps mark_used_inv inv)
  have bm: "in_bitmap ?t = in_bitmap s" by (simp add: in_bitmap_def frame_simps)
  have "disjoint_regions (p * PAGE_SIZE) PAGE_SIZE (page_bitmap s) (bitmap_size s)"
    using safe pf by (simp add: pmm_safe_def)
  then have dj: "in_bitmap ?t x \<Longrightarrow> \<not> in_region a PAGE_SIZE x" for x
    unfolding e(1) bm by (metis disjoint_regionsD in_bitmap_def)
  then have fs: "free_set s' = free_set s - {p}"
    unfolding e(2) by (subst free_set_cong [OF pmm_inv_count [OF ti]]) (auto simp: mem_fill_def frame_simps mark_used_free_set)
  show "a = p * PAGE_SIZE" "a \<noteq> 0" "free_set s' = free_set s - {p}" using e a0 fs by auto
  show "pmm_inv s'" unfolding e(2) by (rule pmm_inv_cong [OF ti]) (simp add: mem_fill_def dj)
  show b: "page_bitmap s' = page_bitmap s" "bitmap_size s' = bitmap_size s" "total_pages s' = total_pages s"
    by (simp_all add: e(2) frame_simps)
  show "pmm_safe s'" using safe fs b by (simp add: pmm_safe_def)
  show "memory s' x = 0" if "in_region a PAGE_SIZE x" for x
    using that by (simp add: e(2) mem_fill_def)
  show "memory s' x = memory s x" if "\<not> in_region a PAGE_SIZE x" "\<not> in_bitmap s x" for x
    using that by (simp add: e(2) mem_fill_def frame_simps mark_used_memory pmm_inv_count inv)
qed

section \<open>Freeing\<close>

lemma free_page_eq:
  "pmm_free_page a s =
     (if a = 0 \<or> a mod PAGE_SIZE \<noteq> 0 then s else pmm_mark_page_free (a div PAGE_SIZE) s)"
  by (auto simp: pmm_free_page_def Let_def pmm_is_page_free_iff mark_free_cases)

lemma free_page_inv: "pmm_inv s \<Longrightarrow> pmm_inv (pmm_free_page a s)"
  by (simp add: free_page_eq mark_free_inv)

lemma page_div:
  assumes "pmm_count s" and "p < total_pages s"
  shows "p * PAGE_SIZE div PAGE_SIZE = p" "p * PAGE_SIZE mod PAGE_SIZE = 0"
proof -
  have u: "unat (p * PAGE_SIZE) = unat p * 4096" using page_address [OF assms] .
  show "p * PAGE_SIZE div PAGE_SIZE = p"
    by (simp add: word_unat_eq_iff unat_div u unat_PAGE_SIZE)
  show "p * PAGE_SIZE mod PAGE_SIZE = 0"
    by (simp add: word_unat_eq_iff unat_mod u unat_PAGE_SIZE)
qed

section \<open>Initialisation\<close>

lemma unat_div_page_size: "unat (x div PAGE_SIZE) = unat x div 4096"
  by (simp add: unat_div unat_PAGE_SIZE)

lemma bookkeeping_refl [simp]: "bookkeeping s s"
  by (simp add: bookkeeping_def)

lemma bookkeeping_bitmap: "bookkeeping s t \<Longrightarrow> in_bitmap t = in_bitmap s"
  by (simp add: bookkeeping_def in_bitmap_def)

lemma bookkeeping_trans: "bookkeeping s t \<Longrightarrow> bookkeeping t u \<Longrightarrow> bookkeeping s u"
  using bookkeeping_bitmap [of s t] by (simp add: bookkeeping_def)

lemma mark_used_bookkeeping: "pmm_count s \<Longrightarrow> bookkeeping s (pmm_mark_page_used p s)"
  by (simp add: bookkeeping_def frame_simps mark_used_memory)

lemma mark_free_bookkeeping: "pmm_count s \<Longrightarrow> bookkeeping s (pmm_mark_page_free p s)"
  by (simp add: bookkeeping_def frame_simps mark_free_memory)

lemma mark_free_loop:
  assumes "i \<le> n" and "pmm_count s"
  shows "pmm_count (for_range pmm_mark_page_free i n s) \<and>
    bookkeeping s (for_range pmm_mark_page_free i n s) \<and>
    free_set (for_range pmm_mark_page_free i n s) =
      free_set s \<union> {p. i \<le> p \<and> p < n \<and> p < total_pages s}"
proof (rule for_range_rule [where P = "\<lambda>k t. pmm_count t \<and> bookkeeping s t \<and>
    free_set t = free_set s \<union> {p. i \<le> p \<and> p < k \<and> p < total_pages s}"])
  fix k and t :: "'a pmm_scheme"
  assume k: "i \<le> k" "k < n" and t: "pmm_count t \<and> bookkeeping s t \<and>
    free_set t = free_set s \<union> {p. i \<le> p \<and> p < k \<and> p < total_pages s}"
  have "total_pages t = total_pages s"
    using t by (simp add: bookkeeping_def)
  then have "free_set (pmm_mark_page_free k t) =
      free_set s \<union> {p. i \<le> p \<and> p < k + 1 \<and> p < total_pages s}"
    using t k by (auto simp: mark_free_free_set less_Suc_word)
  then show "pmm_count (pmm_mark_page_free k t) \<and> bookkeeping s (pmm_mark_page_free k t) \<and>
    free_set (pmm_mark_page_free k t) = free_set s \<union> {p. i \<le> p \<and> p < k + 1 \<and> p < total_pages s}"
    using t by (blast intro: mark_free_count mark_free_bookkeeping bookkeeping_trans)
qed (use assms in auto)

lemma free_region_spec:
  assumes "pmm_count s"
  shows "pmm_count (free_region r s) \<and> bookkeeping s (free_region r s) \<and>
    free_set (free_region r s) = free_set s \<union> (region_pages r \<inter> {p. p < total_pages s})"
proof (cases "region_type r = MEMORY_TYPE_AVAILABLE")
  case True
  let ?i = "region_start r div PAGE_SIZE" and ?c = "region_size r div PAGE_SIZE"
  have "unat ?i + unat ?c < 2 ^ 64"
    using unat_less_2p64 [of "region_start r"] unat_less_2p64 [of "region_size r"]
    by (simp add: unat_div_page_size)
  then have "?i \<le> ?i + ?c"
    using unat_add_lem [of ?i ?c] by (simp add: word_le_nat_alt)
  from mark_free_loop [OF this assms] True show ?thesis
    by (auto simp: free_region_def region_pages_def Let_def)
qed (use assms in \<open>auto simp: free_region_def region_pages_def\<close>)

lemma free_regions_spec:
  assumes "pmm_count s"
  shows "pmm_count (fold free_region rs s) \<and> bookkeeping s (fold free_region rs s) \<and>
    free_set (fold free_region rs s) =
      free_set s \<union> ((\<Union>r\<in>set rs. region_pages r) \<inter> {p. p < total_pages s})"
  using assms
proof (induction rs arbitrary: s)
  case (Cons r rs)
  note r = free_region_spec [OF Cons.prems, of r]
  then have "total_pages (free_region r s) = total_pages s"
    by (simp add: bookkeeping_def)
  then show ?case
    using Cons.IH [of "free_region r s"] r by (auto intro: bookkeeping_trans)
qed simp

lemma set_bit_all_ones: "k < 8 \<Longrightarrow> bit (0xFF :: u8) k"
proof -
  have "(0xFF :: u8) = - 1" by simp
  then show "k < 8 \<Longrightarrow> bit (0xFF :: u8) k" by (simp only: bit_minus_1_iff) simp
qed

lemma bitmap_covers:
  assumes "unat (t :: u64) < 2 ^ 52" and "p < t"
  shows "p div 8 < (t + 7) div 8"
proof -
  have "unat (t + 7) = unat t + 7"
    using assms(1) unat_add_lem [of t 7] by simp
  then show ?thesis
    using assms(2) by (simp add: word_less_nat_alt unat_div)
qed

lemma all_used:
  assumes "page_bitmap s \<noteq> 0" and "unat (total_pages s) < 2 ^ 52"
    and "bitmap_size s = (total_pages s + 7) div 8" and "free_pages s = 0"
    and t: "t = s\<lparr>memory := memory_set (page_bitmap s) 0xFF (bitmap_size s) (memory s)\<rparr>"
  shows "pmm_count t \<and> free_set t = {} \<and> bookkeeping s t"
proof -
  have t': "t = s\<lparr>memory := mem_fill (page_bitmap s) 0xFF (bitmap_size s) (memory s)\<rparr>"
    using assms(1) unfolding t memory_set_fill by simp
  have "page_bit p t" if "p < total_pages t" for p
  proof -
    have "memory t (bitmap_byte p t) = 0xFF"
      using that bitmap_covers [OF assms(2), of p] assms(3)
      by (simp add: t' bitmap_byte_def mem_fill_def)
    then show ?thesis
      unfolding page_bit_def by (simp only: set_bit_all_ones unat_mod_8_less)
  qed
  then have "free_set t = {}" by (auto simp: free_set_def)
  with assms(2-4) show ?thesis
    by (simp add: pmm_count_def bookkeeping_def t' mem_fill_def in_bitmap_def)
qed

lemma pmm_init_ok:
  assumes rs: "rs \<noteq> []" and r: "pmm_init (Some rs) s = (r, s')"
  shows "r = 0" and "pmm_inv s'" and "page_bitmap s' = 0x100000"
    and "total_pages s' = available_memory (take 32 rs) div PAGE_SIZE"
    and "free_set s' = (\<Union>r\<in>set (take 32 rs). region_pages r) \<inter> {p. p < total_pages s'}"
    and "\<And>a. \<not> in_bitmap s' a \<Longrightarrow> memory s' a = memory s a"
proof -
  define n where "n = (if length rs > 32 then 32 else length rs)"
  have tk: "take n rs = take 32 rs" and len: "length (take n rs) = n"
    by (auto simp: n_def)
  define s0 where "s0 = s\<lparr>region_count := of_nat n,
    memory_regions := take n rs @ drop n (memory_regions s),
    total_pages := available_memory (take 32 rs) div PAGE_SIZE,
    bitmap_size := (available_memory (take 32 rs) div PAGE_SIZE + 7) div 8, free_pages := 0,
    page_bitmap := 0x100000\<rparr>"
  define s1 where "s1 = s0\<lparr>memory := memory_set (page_bitmap s0) 0xFF (bitmap_size s0) (memory s0)\<rparr>"
  define s2 where "s2 = fold free_region (take 32 rs) s1"
  have r': "r = 0" "s' = s2\<lparr>pmm_stats := (pmm_stats s2)\<lparr>
      total_physical := available_memory (take 32 rs),
      available_physical := free_pages s2 * PAGE_SIZE,
      used_physical := (total_pages s2 - free_pages s2) * PAGE_SIZE\<rparr>\<rparr>"
    using r rs tk len unfolding pmm_init_def s2_def s1_def s0_def
    by (simp_all add: Let_def n_def [symmetric])
  have "unat (total_pages s0) < 2 ^ 52"
    using unat_less_2p64 [of "available_memory (take 32 rs)"] by (simp add: s0_def unat_div_page_size)
  then have s1: "pmm_count s1 \<and> free_set s1 = {} \<and> bookkeeping s0 s1"
    by (intro all_used) (simp_all add: s0_def s1_def)
  then have s2: "pmm_count s2 \<and> bookkeeping s1 s2 \<and> free_set s2 =
      (\<Union>r\<in>set (take 32 rs). region_pages r) \<inter> {p. p < total_pages s1}"
    unfolding s2_def using free_regions_spec by auto
  then have bk: "bookkeeping s0 s2"
    using s1 bookkeeping_trans by blast
  have same: "free_set s' = free_set s2" "pmm_count s' = pmm_count s2" "in_bitmap s' = in_bitmap s2"
    by (simp_all add: r'(2) free_set_def page_bit_def bitmap_byte_def pmm_count_def in_bitmap_def)
  show "r = 0" by (fact r')
  show "pmm_inv s'" using s2 by (simp add: pmm_inv_def same) (simp add: r'(2))
  show "page_bitmap s' = 0x100000" "total_pages s' = available_memory (take 32 rs) div PAGE_SIZE"
    using bk by (simp_all add: r'(2) bookkeeping_def s0_def)
  show "free_set s' = (\<Union>r\<in>set (take 32 rs). region_pages r) \<inter> {p. p < total_pages s'}"
    using s1 s2 by (simp add: same) (simp add: r'(2) bookkeeping_def)
  show "memory s' a = memory s a" if "\<not> in_bitmap s' a" for a
    using bk that bookkeeping_bitmap [OF bk] by (simp add: same) (simp add: r'(2) bookkeeping_def s0_def)
qed

section \<open>Allocating contiguous pages\<close>

lemma scan_upto_find:
  assumes "n \<noteq> - 1" and "i \<le> n + 1"
  shows "scan_upto P i n = Some (find_range P i (n + 1))"
proof -
  have n: "unat (n + 1) = Suc (unat n)"
    using assms(1) unatSuc [of n] by (simp add: add.commute eq_neg_iff_add_eq_0)
  from assms(2) show ?thesis
  proof (induction P i "n + 1" rule: find_range.induct)
    case (1 P i)
    show ?case
    proof (cases "i \<le> n")
      case True
      then have "i < n + 1" by (simp add: word_less_nat_alt word_le_nat_alt n)
      moreover from this have "i + 1 \<le> n + 1" by (rule inc_le)
      ultimately show ?thesis
        using 1 True by (simp add: scan_upto.simps [of P i] find_range.simps [of P i])
    next
      case False
      then have "\<not> i < n + 1" by (simp add: word_less_nat_alt word_le_nat_alt n)
      with False show ?thesis by (simp add: scan_upto.simps find_range.simps)
    qed
  qed
qed

lemma block_free_iff: "block_free c s p \<longleftrightarrow> (\<forall>i<c. p + i \<in> free_set s)"
  by (auto simp: block_free_def find_range_None_iff pmm_is_page_free_iff)

lemma mark_used_loop:
  assumes "pmm_inv s"
  shows "pmm_inv (for_range (\<lambda>i. pmm_mark_page_used (p + i)) 0 n s) \<and>
    bookkeeping s (for_range (\<lambda>i. pmm_mark_page_used (p + i)) 0 n s) \<and>
    free_set (for_range (\<lambda>i. pmm_mark_page_used (p + i)) 0 n s) = free_set s - {p + i |i. i < n}"
proof (rule for_range_rule [where P = "\<lambda>k t. pmm_inv t \<and> bookkeeping s t \<and>
    free_set t = free_set s - {p + i |i. i < k}"])
  fix k and t :: "'a pmm_scheme"
  assume k: "k < n" and t: "pmm_inv t \<and> bookkeeping s t \<and> free_set t = free_set s - {p + i |i. i < k}"
  then have "free_set (pmm_mark_page_used (p + k) t) = free_set s - {p + i |i. i < k + 1}"
    by (auto simp: mark_used_free_set less_Suc_word)
  then show "pmm_inv (pmm_mark_page_used (p + k) t) \<and> bookkeeping s (pmm_mark_page_used (p + k) t) \<and>
      free_set (pmm_mark_page_used (p + k) t) = free_set s - {p + i |i. i < k + 1}"
    using t bookkeeping_trans [of s t] mark_used_bookkeeping [of t] by (simp add: mark_used_inv pmm_inv_count)
qed (use assms in auto)

lemma in_pages:
  assumes "in_region (p * PAGE_SIZE) (c * PAGE_SIZE) x" and "unat c * 4096 < 2 ^ 64"
  shows "\<exists>i<c. in_region ((p + i) * PAGE_SIZE) PAGE_SIZE x"
proof (intro exI conjI)
  let ?y = "x - p * PAGE_SIZE"
  let ?i = "?y div PAGE_SIZE"
  have "unat (c * PAGE_SIZE) = unat c * 4096"
    using assms(2) unat_mult_lem [of c PAGE_SIZE] by (simp add: unat_PAGE_SIZE)
  then have "unat ?y < unat c * 4096"
    using assms(1) by (simp add: in_region_def word_less_nat_alt)
  then show "?i < c"
    by (simp add: word_less_nat_alt unat_div_page_size less_mult_imp_div_less)
  have "x - (p + ?i) * PAGE_SIZE = ?y - ?i * PAGE_SIZE"
    by (simp only: distrib_right diff_diff_eq)
  also have "\<dots> = ?y mod PAGE_SIZE"
    by (simp add: minus_div_mult_eq_mod)
  also have "\<dots> < PAGE_SIZE"
    by (simp add: word_less_nat_alt unat_mod unat_PAGE_SIZE)
  finally show "in_region ((p + ?i) * PAGE_SIZE) PAGE_SIZE x"
    by (simp add: in_region_def)
qed


lemma alloc_pages_some:
  assumes inv: "pmm_inv s" and safe: "pmm_safe s" and c: "1 < c" "c \<le> free_pages s"
    and p: "\<forall>i<c. p + i \<in> free_set s"
    and s': "s' = (let t = count_allocation (for_range (\<lambda>i. pmm_mark_page_used (p + i)) 0 c s)
                   in t\<lparr>memory := memory_set (p * PAGE_SIZE) 0 (c * PAGE_SIZE) (memory t)\<rparr>)"
  shows "p * PAGE_SIZE \<noteq> 0" "free_set s' = free_set s - {p + i |i. i < c}" "pmm_inv s'" "pmm_safe s'"
    "\<And>x. in_region (p * PAGE_SIZE) (c * PAGE_SIZE) x \<Longrightarrow> memory s' x = 0"
    "\<And>x. \<not> in_region (p * PAGE_SIZE) (c * PAGE_SIZE) x \<Longrightarrow> \<not> in_bitmap s x \<Longrightarrow>
        memory s' x = memory s x"
proof -
  let ?t = "count_allocation (for_range (\<lambda>i. pmm_mark_page_used (p + i)) 0 c s)"
  note loop = mark_used_loop [OF inv, of p c]
  have c0: "0 < c" using c(1) by (simp add: word_less_nat_alt)
  then have pf: "p \<in> free_set s" using p by force
  then have pt: "p < total_pages s" and p0: "p \<noteq> 0"
    using safe by (auto simp: free_set_def pmm_safe_def)
  have "unat (p * PAGE_SIZE) \<noteq> 0"
    using page_address [OF pmm_inv_count [OF inv] pt] p0 by (simp add: unat_eq_zero)
  then show a0: "p * PAGE_SIZE \<noteq> 0" by auto
  have "unat c \<le> card (free_set s)" "unat (total_pages s) < 2 ^ 52"
    using c(2) inv by (simp_all add: pmm_inv_def pmm_count_def word_le_nat_alt)
  then have c52: "unat c * 4096 < 2 ^ 64"
    using card_free_set_le [of s] by simp
  have e: "s' = ?t\<lparr>memory := mem_fill (p * PAGE_SIZE) 0 (c * PAGE_SIZE) (memory ?t)\<rparr>"
    using a0 by (simp add: s' Let_def memory_set_fill)
  have ti: "pmm_inv ?t" using loop by (simp add: frame_simps)
  have bm: "in_bitmap ?t = in_bitmap s"
    using loop by (simp add: in_bitmap_def frame_simps bookkeeping_def)
  have dj: "\<not> in_region (p * PAGE_SIZE) (c * PAGE_SIZE) x" if x: "in_bitmap ?t x" for x
  proof
    assume "in_region (p * PAGE_SIZE) (c * PAGE_SIZE) x"
    then obtain i where i: "i < c" "in_region ((p + i) * PAGE_SIZE) PAGE_SIZE x"
      using in_pages c52 by blast
    then have "disjoint_regions ((p + i) * PAGE_SIZE) PAGE_SIZE (page_bitmap s) (bitmap_size s)"
      using p safe by (simp add: pmm_safe_def)
    with i x show False
      using disjoint_regionsD bm in_bitmap_def by metis
  qed
  have fs: "free_set s' = free_set s - {p + i |i. i < c}"
    unfolding e by (subst free_set_cong [OF pmm_inv_count [OF ti]])
      (auto simp: mem_fill_def dj frame_simps loop)
  then show "free_set s' = free_set s - {p + i |i. i < c}" .
  show "pmm_inv s'" unfolding e by (rule pmm_inv_cong [OF ti]) (simp add: mem_fill_def dj)
  show "pmm_safe s'"
    using safe fs loop by (simp add: pmm_safe_def e frame_simps bookkeeping_def)
  show "memory s' x = 0" if "in_region (p * PAGE_SIZE) (c * PAGE_SIZE) x" for x
    using that by (simp add: e mem_fill_def)
  show "memory s' x = memory s x"
    if "\<not> in_region (p * PAGE_SIZE) (c * PAGE_SIZE) x" "\<not> in_bitmap s x" for x
    using that loop by (simp add: e mem_fill_def frame_simps bookkeeping_def)
qed


lemma block_bound:
  assumes inv: "pmm_inv s" and c: "0 < c" and p: "\<forall>i<c. p + i \<in> free_set s"
  shows "c \<le> free_pages s" and "c \<le> total_pages s" and "p \<le> total_pages s - c"
proof -
  have "card ((\<lambda>i. p + i) ` {i. i < c}) \<le> card (free_set s)"
    using p by (intro card_mono) auto
  moreover have "inj_on (\<lambda>i. p + i) {i. i < c}" by (simp add: inj_on_def)
  ultimately have le: "unat c \<le> card (free_set s)" by (simp add: card_image card_word_less)
  then show "c \<le> free_pages s" using inv by (simp add: pmm_inv_def pmm_count_def word_le_nat_alt)
  have t: "unat c \<le> unat (total_pages s)" "unat (total_pages s) < 2 ^ 52"
    using le card_free_set_le [of s] inv by (simp_all add: pmm_inv_def pmm_count_def)
  then show ct: "c \<le> total_pages s" by (simp add: word_le_nat_alt)
  have c1: "unat (c - 1) = unat c - 1" "c - 1 < c"
    using c by (simp_all add: unat_minus_one word_gt_0 word_less_nat_alt unat_gt_0)
  have "p + 0 \<in> free_set s" "p + (c - 1) \<in> free_set s" using p c c1(2) by blast+
  then have "unat p < unat (total_pages s)" "unat (p + (c - 1)) < unat (total_pages s)"
    by (simp_all add: free_set_def word_less_nat_alt)
  moreover have "unat (p + (c - 1)) = unat p + (unat c - 1)"
    by (subst unat_add_lem [THEN iffD1]) (use t calculation(1) c1(1) in simp_all)
  moreover have "unat (total_pages s - c) = unat (total_pages s) - unat c"
    using ct by (rule unat_sub_le)
  moreover have "0 < unat c" using c by (simp add: word_less_nat_alt)
  ultimately show "p \<le> total_pages s - c"
    unfolding word_le_nat_alt by linarith
qed

lemma alloc_pages_scan:
  assumes inv: "pmm_inv s" and c: "1 < c"
  shows "pmm_alloc_pages c s =
     (if \<exists>p. \<forall>i<c. p + i \<in> free_set s then
        let p = (LEAST p. \<forall>i<c. p + i \<in> free_set s);
            t = count_allocation (for_range (\<lambda>i. pmm_mark_page_used (p + i)) 0 c s)
        in Some (p * PAGE_SIZE, t\<lparr>memory := memory_set (p * PAGE_SIZE) 0 (c * PAGE_SIZE) (memory t)\<rparr>)
      else Some (0, s))"
proof -
  have c0: "0 < c" "c \<noteq> 0" "c \<noteq> 1" using c by (auto simp add: word_less_nat_alt)
  let ?B = "\<lambda>p. \<forall>i<c. p + i \<in> free_set s"
  have B: "block_free c s = ?B" by (simp add: block_free_iff fun_eq_iff)
  show ?thesis
  proof (cases "free_pages s < c")
    case True
    then have "\<not> (\<exists>p. ?B p)" using block_bound(1) [OF inv c0(1)] by (auto simp: not_less [symmetric])
    with True c0 show ?thesis unfolding pmm_alloc_pages_def by (simp only: if_False if_True)
  next
    case False
    let ?n = "total_pages s - c"
    have "unat c \<le> unat (free_pages s)" using False by (simp add: word_less_nat_alt)
    then have ct: "c \<le> total_pages s"
      using inv card_free_set_le [of s] by (simp add: pmm_inv_def pmm_count_def word_le_nat_alt)
    then have n: "unat ?n < 2 ^ 52"
      using inv by (auto simp: unat_sub_le pmm_inv_def pmm_count_def)
    then have un: "unat (?n + 1) = Suc (unat ?n)"
      using unat_add_lem [of ?n 1] by simp
    then have n1: "?n \<noteq> - 1" by auto
    show ?thesis
    proof (cases "find_range ?B 0 (?n + 1)")
      case None
      have "\<not> ?B p" for p
      proof
        assume "?B p"
        then have "p \<le> ?n" by (rule block_bound(3) [OF inv c0(1)])
        then have "p < ?n + 1" by (simp add: word_less_nat_alt word_le_nat_alt un)
        with None \<open>?B p\<close> show False by (auto simp: find_range_None_iff)
      qed
      then have "\<not> (\<exists>p. ?B p)"
        by blast
      with None False c0 show ?thesis
        by (simp only: pmm_alloc_pages_def B scan_upto_find [OF n1] word_zero_le if_False option.case)
    next
      case (Some p)
      then have "?B p" "\<And>q. ?B q \<Longrightarrow> p \<le> q"
        using find_range_Some [OF Some] by (auto simp: not_le [symmetric])
      then have "(LEAST p. ?B p) = p" by (intro Least_equality) auto
      with Some False c0 \<open>?B p\<close> show ?thesis
        by (auto simp: pmm_alloc_pages_def B scan_upto_find [OF n1] Let_def)
    qed
  qed
qed

lemma free_pages_loop:
  assumes inv: "pmm_inv s" and p: "p \<noteq> 0" "unat p + unat c \<le> unat (total_pages s)" and c: "c \<noteq> 0"
  shows "free_set (pmm_free_pages (p * PAGE_SIZE) c s) = free_set s \<union> {p + i |i. i < c}"
    and "pmm_inv (pmm_free_pages (p * PAGE_SIZE) c s)"
proof -
  let ?f = "\<lambda>i. pmm_free_page (p * PAGE_SIZE + i * PAGE_SIZE)"
  have page: "p + i < total_pages s" "p + i \<noteq> 0" if "i < c" for i
  proof -
    have "unat (p + i) = unat p + unat i"
      using that p(2) unat_less_2p64 [of "total_pages s"]
      by (subst unat_add_lem [THEN iffD1]) (simp_all add: word_less_nat_alt)
    then show "p + i < total_pages s" "p + i \<noteq> 0"
      using that p by (auto simp: word_less_nat_alt unat_eq_zero)
  qed
  have step: "?f i t = pmm_mark_page_free (p + i) t"
    if "i < c" "pmm_count t" "total_pages t = total_pages s" for i and t :: "'a pmm_scheme"
  proof -
    have "(p + i) * PAGE_SIZE \<noteq> 0"
      using page [OF that(1)] page_address [OF that(2), of "p + i"] that(3)
      by (auto simp: unat_eq_zero)
    then show ?thesis
      using page [OF that(1)] page_div [OF that(2), of "p + i"] that(3)
      by (simp add: free_page_eq distrib_right [symmetric])
  qed
  have loop: "pmm_inv (for_range ?f 0 c s) \<and> bookkeeping s (for_range ?f 0 c s) \<and>
      free_set (for_range ?f 0 c s) = free_set s \<union> {p + i |i. i < c}"
  proof (rule for_range_rule [where P = "\<lambda>k t. pmm_inv t \<and> bookkeeping s t \<and>
      free_set t = free_set s \<union> {p + i |i. i < k}"])
    fix k and t :: "'a pmm_scheme"
    assume k: "k < c" and t: "pmm_inv t \<and> bookkeeping s t \<and> free_set t = free_set s \<union> {p + i |i. i < k}"
    then have "total_pages t = total_pages s" by (simp add: bookkeeping_def)
    then show "pmm_inv (?f k t) \<and> bookkeeping s (?f k t) \<and> free_set (?f k t) = free_set s \<union> {p + i |i. i < k + 1}"
      using t k page [OF k] bookkeeping_trans [of s t] mark_free_bookkeeping [of t]
      by (auto simp: step pmm_inv_count mark_free_inv mark_free_free_set less_Suc_word)
  qed (use inv in auto)
  have "p < total_pages s" using page [of 0] c by (simp add: word_gt_0)
  then have "p * PAGE_SIZE \<noteq> 0" "p * PAGE_SIZE mod PAGE_SIZE = 0"
    using page_address [OF pmm_inv_count [OF inv], of p] page_div [OF pmm_inv_count [OF inv], of p] p(1)
    by (auto simp: unat_eq_zero)
  with loop c show "free_set (pmm_free_pages (p * PAGE_SIZE) c s) = free_set s \<union> {p + i |i. i < c}"
    "pmm_inv (pmm_free_pages (p * PAGE_SIZE) c s)"
    by (simp_all add: pmm_free_pages_def)
qed

section \<open>Pages and addresses\<close>

lemma in_page_iff:
  assumes "unat p < 2 ^ 52"
  shows "in_region (p * PAGE_SIZE) PAGE_SIZE x \<longleftrightarrow> x div PAGE_SIZE = p"
proof -
  have "unat p * unat PAGE_SIZE < 2 ^ LENGTH(64)"
    using assms by (simp add: unat_PAGE_SIZE)
  then have "unat (p * PAGE_SIZE) = unat p * unat PAGE_SIZE"
    by (simp only: unat_mult_lem)
  then have u: "unat (p * PAGE_SIZE) = unat p * 4096"
    by (simp add: unat_PAGE_SIZE)
  have "unat (x - p * PAGE_SIZE) < 4096 \<longleftrightarrow> unat x div 4096 = unat p"
  proof (cases "unat p * 4096 \<le> unat x")
    case True
    then have "unat (x - p * PAGE_SIZE) = unat x - unat p * 4096"
      by (simp add: unat_sub_le word_le_nat_alt u)
    with True show ?thesis by auto
  next
    case False
    then have "unat (x - p * PAGE_SIZE) = 2 ^ 64 + unat x - unat p * 4096"
      by (simp add: unat_sub_if' u)
    with False assms show ?thesis by auto
  qed
  then show ?thesis
    by (simp add: in_region_def word_less_nat_alt unat_PAGE_SIZE word_unat_eq_iff [of "x div PAGE_SIZE"] unat_div_page_size)
qed

lemma page_number_bound: "unat (x div PAGE_SIZE) < 2 ^ 52"
  using unat_less_2p64 [of x] by (simp add: unat_div_page_size)

lemma aligned_eq: "a mod PAGE_SIZE = 0 \<Longrightarrow> a div PAGE_SIZE * PAGE_SIZE = a"
  by (metis add.right_neutral div_mult_mod_eq)

lemma in_aligned_page:
  "a mod PAGE_SIZE = 0 \<Longrightarrow> in_region a PAGE_SIZE x \<longleftrightarrow> x div PAGE_SIZE = a div PAGE_SIZE"
  using in_page_iff [OF page_number_bound [of a], of x] by (simp add: aligned_eq)

section \<open>The allocator as an interface\<close>

text \<open>
  What a client of the page allocator relies on. The parameters are the allocating
  operation, the memory, the set of free page numbers, the addresses the allocator keeps
  for itself, and its invariant.
\<close>

locale frame_allocator =
  fixes alloc :: "'s \<Rightarrow> u64 \<times> 's"
    and mem_of :: "'s \<Rightarrow> mem"
    and free :: "'s \<Rightarrow> u64 set"
    and reserved :: "'s \<Rightarrow> u64 \<Rightarrow> bool"
    and ok :: "'s \<Rightarrow> bool"
  assumes exhausted: "ok s \<Longrightarrow> free s = {} \<Longrightarrow> alloc s = (0, s)"
    and fresh: "ok s \<Longrightarrow> free s \<noteq> {} \<Longrightarrow> alloc s = (a, s') \<Longrightarrow>
      a \<noteq> 0 \<and> a mod PAGE_SIZE = 0 \<and> a div PAGE_SIZE \<in> free s \<and>
      free s' = free s - {a div PAGE_SIZE} \<and> reserved s' = reserved s \<and> ok s'"
    and zeroed: "ok s \<Longrightarrow> free s \<noteq> {} \<Longrightarrow> alloc s = (a, s') \<Longrightarrow>
      x div PAGE_SIZE = a div PAGE_SIZE \<Longrightarrow> mem_of s' x = 0"
    and untouched: "ok s \<Longrightarrow> free s \<noteq> {} \<Longrightarrow> alloc s = (a, s') \<Longrightarrow>
      x div PAGE_SIZE \<noteq> a div PAGE_SIZE \<Longrightarrow> \<not> reserved s x \<Longrightarrow> mem_of s' x = mem_of s x"
    and reserved_used: "ok s \<Longrightarrow> x div PAGE_SIZE \<in> free s \<Longrightarrow> \<not> reserved s x"
begin

lemma alloc_zero_iff: "ok s \<Longrightarrow> alloc s = (a, s') \<Longrightarrow> a = 0 \<longleftrightarrow> free s = {}"
  using exhausted [of s] fresh [of s a s'] by (cases "free s = {}") auto

lemma alloc_ok: "ok s \<Longrightarrow> alloc s = (a, s') \<Longrightarrow> ok s'"
  using exhausted [of s] fresh [of s a s'] by (cases "free s = {}") auto

text \<open>A frame that is in use keeps its contents and stays in use.\<close>

lemma alloc_keeps:
  assumes "ok s" and "alloc s = (a, s')" and "held (free s) (reserved s) p"
  shows "held (free s') (reserved s') p"
    and "x div PAGE_SIZE = p \<Longrightarrow> mem_of s' x = mem_of s x"
proof -
  show "held (free s') (reserved s') p"
    using assms exhausted [of s] fresh [of s a s'] by (cases "free s = {}") (auto simp: held_def)
  show "mem_of s' x = mem_of s x" if "x div PAGE_SIZE = p"
  proof (cases "free s = {}")
    case False
    then have "a div PAGE_SIZE \<noteq> p"
      using assms fresh [of s a s'] by (auto simp: held_def)
    then show ?thesis
      using assms that False untouched [of s a s' x] by (auto simp: held_def)
  qed (use assms exhausted in auto)
qed

text \<open>A frame just handed out was not in use before and is now.\<close>

lemma alloc_new:
  assumes "ok s" and "alloc s = (a, s')" and "a \<noteq> 0"
  shows "a mod PAGE_SIZE = 0" and "\<not> held (free s) (reserved s) (a div PAGE_SIZE)"
    and "held (free s') (reserved s') (a div PAGE_SIZE)"
    and "x div PAGE_SIZE = a div PAGE_SIZE \<Longrightarrow> mem_of s' x = 0"
proof -
  have ne: "free s \<noteq> {}" using assms exhausted [of s] by auto
  note f = fresh [OF assms(1) ne assms(2)]
  show "a mod PAGE_SIZE = 0" "\<not> held (free s) (reserved s) (a div PAGE_SIZE)"
    using f by (auto simp: held_def)
  show "held (free s') (reserved s') (a div PAGE_SIZE)"
    using f reserved_used [OF assms(1)] by (auto simp: held_def)
  show "x div PAGE_SIZE = a div PAGE_SIZE \<Longrightarrow> mem_of s' x = 0"
    using zeroed [OF assms(1) ne assms(2)] by simp
qed

end

lemma safe_not_in_bitmap:
  assumes "pmm_safe s" and "x div PAGE_SIZE \<in> free_set s"
  shows "\<not> in_bitmap s x"
proof -
  have "in_region (x div PAGE_SIZE * PAGE_SIZE) PAGE_SIZE x"
    by (simp only: in_page_iff [OF page_number_bound])
  then show ?thesis
    using assms disjoint_regionsD unfolding pmm_safe_def in_bitmap_def by blast
qed

lemma alloc_page_number:
  assumes "pmm_inv s" and "pmm_safe s" and "free_set s \<noteq> {}" and "pmm_alloc_page s = (a, s')"
  shows "a div PAGE_SIZE = Min (free_set s)" and "a mod PAGE_SIZE = 0"
    and "in_region a PAGE_SIZE x \<longleftrightarrow> x div PAGE_SIZE = a div PAGE_SIZE"
proof -
  have "Min (free_set s) < total_pages s"
    using assms(3) Min_in [of "free_set s"] by (auto simp: free_set_def)
  with assms show a: "a div PAGE_SIZE = Min (free_set s)" "a mod PAGE_SIZE = 0"
    using alloc_page_some(1) [OF assms(1-3) refl assms(4)] page_div [OF pmm_inv_count] by simp_all
  show "in_region a PAGE_SIZE x \<longleftrightarrow> x div PAGE_SIZE = a div PAGE_SIZE"
    using a(2) by (rule in_aligned_page)
qed

interpretation pmm_frames: frame_allocator pmm_alloc_page memory free_set in_bitmap
  "\<lambda>s. pmm_inv s \<and> pmm_safe s"
proof (unfold_locales, goal_cases)
  case (1 s)
  then show ?case by (simp add: alloc_page_none pmm_inv_count)
next
  case (2 s a s')
  then have i: "pmm_inv s" "pmm_safe s" by simp_all
  show ?case
    using alloc_page_some [OF i 2(2) refl 2(3)] alloc_page_number [OF i 2(2,3)] 2(2)
    by (simp add: in_bitmap_def [abs_def])
next
  case (3 s a s' x)
  then have i: "pmm_inv s" "pmm_safe s" by simp_all
  show ?case
    using alloc_page_some(6) [OF i 3(2) refl 3(3)] alloc_page_number(3) [OF i 3(2,3)] 3(4) by blast
next
  case (4 s a s' x)
  then have i: "pmm_inv s" "pmm_safe s" by simp_all
  show ?case
    using alloc_page_some(7) [OF i 4(2) refl 4(3)] alloc_page_number(3) [OF i 4(2,3)] 4(4,5) by blast
next
  case (5 s x)
  then show ?case by (simp add: safe_not_in_bitmap)
qed

lemma alloc_pages_layout:
  assumes "pmm_inv s"
  shows "total_pages (let t = count_allocation (for_range (\<lambda>i. pmm_mark_page_used (p + i)) 0 c s)
                   in t\<lparr>memory := memory_set (p * PAGE_SIZE) 0 (c * PAGE_SIZE) (memory t)\<rparr>) = total_pages s"
  using mark_used_loop [OF assms, of p c] by (simp add: Let_def frame_simps bookkeeping_def)

lemma alloc_pages_return:
  assumes inv: "pmm_inv s" and safe: "pmm_safe s" and c: "1 < c"
    and p: "\<forall>i<c. p + i \<in> free_set s"
    and s': "s' = (let t = count_allocation (for_range (\<lambda>i. pmm_mark_page_used (p + i)) 0 c s)
                   in t\<lparr>memory := memory_set (p * PAGE_SIZE) 0 (c * PAGE_SIZE) (memory t)\<rparr>)"
  shows "free_set (pmm_free_pages (p * PAGE_SIZE) c s') = free_set s"
proof -
  have c0: "0 < c" "c \<noteq> 0"
    using c by (auto simp: word_less_nat_alt)
  note b = block_bound [OF inv c0(1) p]
  note r = alloc_pages_some [OF inv safe c b(1) p s']
  have "unat (total_pages s - c) = unat (total_pages s) - unat c"
    using b(2) by (rule unat_sub_le)
  moreover have t: "total_pages s' = total_pages s"
    unfolding s' by (rule alloc_pages_layout [OF inv])
  ultimately have le: "unat p + unat c \<le> unat (total_pages s')"
    using b(2,3) by (simp add: word_le_nat_alt)
  have "p \<noteq> 0"
    using r(1) by auto
  then have "free_set (pmm_free_pages (p * PAGE_SIZE) c s') = free_set s' \<union> {p + i |i. i < c}"
    using free_pages_loop(1) [OF r(3) _ le c0(2)] by simp
  also have "\<dots> = free_set s"
    using r(2) p by auto
  finally show ?thesis .
qed

section \<open>A small machine\<close>

text \<open>The statics of \<^verbatim>\<open>pmm.c\<close> before initialisation, and a machine with one region of four pages.\<close>

definition pmm_boot :: pmm where
  "pmm_boot = \<lparr>memory = \<lambda>_. 0, page_bitmap = 0, total_pages = 0, free_pages = 0, bitmap_size = 0,
     memory_regions = [], region_count = 0,
     pmm_stats = \<lparr>total_physical = 0, available_physical = 0, used_physical = 0,
       total_virtual = 0, used_virtual = 0, page_faults = 0, allocations = 0\<rparr>\<rparr>"

definition low_region :: memory_region where
  "low_region = \<lparr>region_start = 0x1000, region_end = 0x5000, region_size = 0x4000,
     region_type = MEMORY_TYPE_AVAILABLE, region_flags = 0, region_name = 0\<rparr>"

definition pmm_small :: pmm where
  "pmm_small = snd (pmm_init (Some [low_region]) pmm_boot)"

lemma pmm_small_total: "total_pages pmm_small = 4" "page_bitmap pmm_small = 0x100000"
  using pmm_init_ok(3,4) [of "[low_region]" pmm_boot 0 pmm_small]
    pmm_init_ok(1) [of "[low_region]" pmm_boot]
  unfolding pmm_small_def
  by (cases "pmm_init (Some [low_region]) pmm_boot";
      simp add: available_memory_def low_region_def MEMORY_TYPE_AVAILABLE_def PAGE_SIZE_eq)+

lemma pmm_small_free: "free_set pmm_small = {1, 2, 3}"
proof -
  have "region_pages low_region = {p. 1 \<le> p \<and> p < 5}"
    by (simp add: region_pages_def low_region_def PAGE_SIZE_eq)
  moreover have "{p :: u64. 1 \<le> p \<and> p < 5} \<inter> {p. p < 4} = {1, 2, 3}"
    by (auto simp: word_less_nat_alt word_le_nat_alt word_unat_eq_iff)
  ultimately show ?thesis
    using pmm_init_ok(5) [of "[low_region]" pmm_boot] pmm_small_total(1)
    unfolding pmm_small_def by (cases "pmm_init (Some [low_region]) pmm_boot") simp
qed

lemma pmm_small_ok: "pmm_inv pmm_small" "pmm_safe pmm_small"
proof -
  show inv: "pmm_inv pmm_small"
    unfolding pmm_small_def by (metis list.distinct(1) pmm_init_ok(2) prod.collapse)
  then have "bitmap_size pmm_small = 1"
    using pmm_small_total by (simp add: pmm_inv_def pmm_count_def)
  then show "pmm_safe pmm_small"
    by (simp add: pmm_safe_def pmm_small_free disjoint_regions_def pmm_small_total PAGE_SIZE_eq
        word_le_def)
qed

section \<open>Properties\<close>



text \<open>
  C4: \<^verbatim>\<open>pmm_alloc_page\<close> refines the abstract allocator that removes the least element of the
  set of free pages. With no free page it returns 0 and changes nothing. Otherwise it returns
  the address of the lowest free page, which is not 0; that page alone stops being free, it is
  all zeros, every byte outside it and outside the bitmap keeps its value, and the invariant
  is kept.
\<close>

theorem pmm_alloc_page_correct:
  assumes "pmm_inv s" and "pmm_safe s" and "pmm_alloc_page s = (a, s')"
  shows "pmm_inv s' \<and> pmm_safe s' \<and>
    (if free_set s = {} then a = 0 \<and> s' = s
     else a = Min (free_set s) * PAGE_SIZE \<and> a \<noteq> 0 \<and> free_set s' = free_set s - {Min (free_set s)} \<and>
       (\<forall>x. in_region a PAGE_SIZE x \<longrightarrow> memory s' x = 0) \<and>
       (\<forall>x. \<not> in_region a PAGE_SIZE x \<longrightarrow> \<not> in_bitmap s x \<longrightarrow> memory s' x = memory s x))"
proof (cases "free_set s = {}")
  case True
  with assms show ?thesis
    by (simp add: alloc_page_none pmm_inv_count)
next
  case False
  with alloc_page_some [OF assms(1,2) False refl assms(3)] show ?thesis
    by simp
qed

lemma pmm_alloc_page_correct_witness:
  "fst (pmm_alloc_page pmm_small) = 0x1000 \<and> free_set (snd (pmm_alloc_page pmm_small)) = {2, 3}"
proof -
  have "Min {1, 2, 3 :: u64} = 1"
    by (simp add: min_def)
  moreover have "{1, 2, 3} - {1 :: u64} = {2, 3}"
    by auto
  ultimately show ?thesis
    using pmm_alloc_page_correct [OF pmm_small_ok, of "fst (pmm_alloc_page pmm_small)"
        "snd (pmm_alloc_page pmm_small)"]
    by (simp add: pmm_small_free PAGE_SIZE_eq)
qed

text \<open>
  C32: freeing the page just allocated gives back the former set of free pages and keeps the
  invariant; freeing it again changes nothing.
\<close>

theorem pmm_alloc_free_roundtrip:
  assumes "pmm_inv s" and "pmm_safe s" and "pmm_alloc_page s = (a, s')" and "a \<noteq> 0"
  shows "free_set (pmm_free_page a s') = free_set s \<and> pmm_inv (pmm_free_page a s') \<and>
    pmm_free_page a (pmm_free_page a s') = pmm_free_page a s'"
proof -
  have ne: "free_set s \<noteq> {}"
    using pmm_frames.alloc_zero_iff [of s a s'] assms by simp
  note r = alloc_page_some [OF assms(1,2) ne refl assms(3)]
  note n = alloc_page_number [OF assms(1,2) ne assms(3)]
  have m: "Min (free_set s) \<in> free_set s" "Min (free_set s) < total_pages s'"
    using ne Min_in [of "free_set s"] r(10) by (auto simp: free_set_def)
  then have "free_set (pmm_free_page a s') = free_set s"
    using r assms(4) n by (auto simp: free_page_eq mark_free_free_set)
  moreover from this have "pmm_free_page a (pmm_free_page a s') = pmm_free_page a s'"
    using n m by (auto simp: free_page_eq mark_free_cases [of _ "pmm_mark_page_free _ _"])
  ultimately show ?thesis
    using r(4) by (simp add: free_page_inv)
qed

lemma pmm_alloc_free_roundtrip_witness:
  "free_set (pmm_free_page (fst (pmm_alloc_page pmm_small)) (snd (pmm_alloc_page pmm_small))) = {1, 2, 3}"
  using pmm_alloc_free_roundtrip [OF pmm_small_ok, of "fst (pmm_alloc_page pmm_small)"
      "snd (pmm_alloc_page pmm_small)"]
    pmm_frames.alloc_zero_iff [of pmm_small "fst (pmm_alloc_page pmm_small)" "snd (pmm_alloc_page pmm_small)"]
    pmm_small_ok
  by (simp add: pmm_small_free)

text \<open>
  C34: \<^verbatim>\<open>pmm_alloc_pages\<close> always returns. For two pages or more it succeeds exactly when some run of
  \<open>count\<close> consecutive pages is free, and then takes the lowest such run: those pages alone stop
  being free, they are all zeros, other memory is unchanged, and \<^verbatim>\<open>pmm_free_pages\<close> on the
  result gives back the former set of free pages.
\<close>

theorem pmm_alloc_pages_correct:
  assumes "pmm_inv s" and "pmm_safe s" and "1 < count"
  shows "\<exists>a s'. pmm_alloc_pages count s = Some (a, s') \<and> pmm_inv s' \<and> pmm_safe s' \<and>
    (if \<exists>p. \<forall>i<count. p + i \<in> free_set s then
       a \<noteq> 0 \<and> a = (LEAST p. \<forall>i<count. p + i \<in> free_set s) * PAGE_SIZE \<and>
       free_set s' = free_set s - {a div PAGE_SIZE + i |i. i < count} \<and>
       (\<forall>x. in_region a (count * PAGE_SIZE) x \<longrightarrow> memory s' x = 0) \<and>
       (\<forall>x. \<not> in_region a (count * PAGE_SIZE) x \<longrightarrow> \<not> in_bitmap s x \<longrightarrow> memory s' x = memory s x) \<and>
       free_set (pmm_free_pages a count s') = free_set s
     else a = 0 \<and> s' = s)"
proof (cases "\<exists>p. \<forall>i<count. p + i \<in> free_set s")
  case False
  then have "pmm_alloc_pages count s = Some (0, s)"
    unfolding alloc_pages_scan [OF assms(1,3)] by (simp only: if_False)
  with False assms show ?thesis
    by (intro exI [of _ 0] exI [of _ s]) (simp only: if_False simp_thms)
next
  case True
  define p where "p = (LEAST p. \<forall>i<count. p + i \<in> free_set s)"
  define s' where "s' = (let t = count_allocation (for_range (\<lambda>i. pmm_mark_page_used (p + i)) 0 count s)
                   in t\<lparr>memory := memory_set (p * PAGE_SIZE) 0 (count * PAGE_SIZE) (memory t)\<rparr>)"
  have p: "\<forall>i<count. p + i \<in> free_set s"
    unfolding p_def using True by (rule LeastI_ex)
  have c: "0 < count"
    using assms(3) by (simp add: word_less_nat_alt)
  note b = block_bound [OF assms(1) c p]
  note r = alloc_pages_some [OF assms(1-3) b(1) p s'_def]
  have e: "pmm_alloc_pages count s = Some (p * PAGE_SIZE, s')"
    using True unfolding alloc_pages_scan [OF assms(1,3)] s'_def p_def by (simp add: Let_def)
  have "free_set (pmm_free_pages (p * PAGE_SIZE) count s') = free_set s"
    using alloc_pages_return [OF assms p s'_def] .
  moreover have "p * PAGE_SIZE div PAGE_SIZE = p"
    using p c page_div(1) [OF pmm_inv_count [OF assms(1)], of p] by (force simp: free_set_def)
  ultimately show ?thesis
    using True r e unfolding p_def [symmetric] by (intro exI [of _ "p * PAGE_SIZE"] exI [of _ s']) simp
qed

lemma pmm_alloc_pages_correct_witness:
  "\<exists>s'. pmm_alloc_pages 2 pmm_small = Some (0x1000, s') \<and> free_set s' = {3}"
proof -
  let ?B = "\<lambda>p. \<forall>i<2. p + i \<in> free_set pmm_small"
  have two: "i < 2 \<longleftrightarrow> i = 0 \<or> i = 1" for i :: u64
    by (auto simp: word_less_nat_alt word_unat_eq_iff)
  have B1: "?B 1"
    by (simp add: two pmm_small_free all_conj_distrib disj_imp)
  have "(LEAST p. ?B p) = 1"
    by (rule Least_equality) (use B1 in \<open>auto simp: two pmm_small_free dest: spec [of _ 0]\<close>)
  moreover have "\<exists>p. ?B p"
    using B1 by blast
  ultimately obtain a s' where "pmm_alloc_pages 2 pmm_small = Some (a, s')" "a = 1 * PAGE_SIZE"
    "free_set s' = free_set pmm_small - {a div PAGE_SIZE + i |i. i < 2}"
    using pmm_alloc_pages_correct [OF pmm_small_ok, of 2] by (simp only: if_True) force
  moreover have "{1, 2, 3} - {1 + i |i :: u64. i < 2} = {3}"
    by (auto simp: two)
  ultimately show ?thesis
    by (simp add: pmm_small_free PAGE_SIZE_eq)
qed

end
