(* ===== verification/Vmm.thy ===== *)
theory Vmm
  imports Pmm
begin

text \<open>
  The virtual memory manager, \<^verbatim>\<open>kernel/mm/vmm.c\<close>: the four-level page tables of x86-64, kept in
  memory and reached from \<^verbatim>\<open>kernel_pml4\<close>. A table is a page of 512 eight-byte entries, read and
  written here as \<open>load64\<close> and \<open>store64\<close> on the same memory the page allocator manages.

  \<open>walk\<close> follows a list of indices from a table; \<open>leaf\<close> is the entry a virtual address
  leads to, and the abstract view of the component is the map from page paths to leaf entries.
  The invariant \<open>vmm_inv\<close> says that every table reached from the root is a page frame
  held by the tables, and that no two paths reach the same table.
\<close>

unbundle bit_operations_syntax

section \<open>State\<close>

record vmm = pmm +
  kernel_pml4 :: u64
  kernel_cr3 :: u64
  vm_area_count :: u32

definition PTE_PRESENT :: u32 where
  "PTE_PRESENT = 1"

definition PTE_WRITABLE :: u32 where
  "PTE_WRITABLE = 2"

definition KERNEL_BASE :: u64 where
  "KERNEL_BASE = 0xFFFFFFFF80000000"

section \<open>Operations\<close>

definition pml4_index :: "u64 \<Rightarrow> u64" where
  "pml4_index virtual_addr = drop_bit 39 virtual_addr AND 0x1FF"

definition pdp_index :: "u64 \<Rightarrow> u64" where
  "pdp_index virtual_addr = drop_bit 30 virtual_addr AND 0x1FF"

definition pd_index :: "u64 \<Rightarrow> u64" where
  "pd_index virtual_addr = drop_bit 21 virtual_addr AND 0x1FF"

definition pt_index :: "u64 \<Rightarrow> u64" where
  "pt_index virtual_addr = drop_bit 12 virtual_addr AND 0x1FF"

text \<open>Entry \<open>i\<close> of the table at \<open>t\<close>; the table an entry points to.\<close>

definition entry :: "mem \<Rightarrow> u64 \<Rightarrow> u64 \<Rightarrow> u64" where
  "entry m t i = load64 m (t + i * 8)"

definition set_entry :: "u64 \<Rightarrow> u64 \<Rightarrow> u64 \<Rightarrow> mem \<Rightarrow> mem" where
  "set_entry t i v = store64 (t + i * 8) v"

definition present :: "u64 \<Rightarrow> bool" where
  "present e \<longleftrightarrow> e AND ucast PTE_PRESENT \<noteq> 0"

definition entry_addr :: "u64 \<Rightarrow> u64" where
  "entry_addr e = e AND NOT 0xFFF"

text \<open>The stub of \<^verbatim>\<open>arch_invlpg\<close> does nothing.\<close>

definition arch_invlpg :: "u64 \<Rightarrow> 'a vmm_scheme \<Rightarrow> 'a vmm_scheme" where
  "arch_invlpg addr s = s"

text \<open>
  One level of \<^verbatim>\<open>vmm_map_page\<close>: allocate the next table if entry \<open>i\<close> of \<open>t\<close> is not present, then
  follow the entry. \<open>None\<close> is the failed allocation.
\<close>

definition next_table :: "u64 \<Rightarrow> u64 \<Rightarrow> 'a vmm_scheme \<Rightarrow> u64 option \<times> 'a vmm_scheme" where
  "next_table t i s =
     (if \<not> present (entry (memory s) t i) then
        (case pmm_alloc_page s of
           (phys, s) \<Rightarrow>
             if phys = 0 then (None, s)
             else
               let s = s\<lparr>memory := set_entry t i (phys OR ucast PTE_PRESENT OR ucast PTE_WRITABLE) (memory s)\<rparr>;
                   s = s\<lparr>memory := memory_set phys 0 PAGE_SIZE (memory s)\<rparr>
               in (Some (entry_addr (entry (memory s) t i)), s))
      else (Some (entry_addr (entry (memory s) t i)), s))"

definition vmm_map_page :: "u64 \<Rightarrow> u64 \<Rightarrow> u32 \<Rightarrow> 'a vmm_scheme \<Rightarrow> int \<times> 'a vmm_scheme" where
  "vmm_map_page virtual_addr physical_addr flags s =
     (case next_table (kernel_pml4 s) (pml4_index virtual_addr) s of
        (None, s) \<Rightarrow> (-1, s)
      | (Some pdp, s) \<Rightarrow>
          (case next_table pdp (pdp_index virtual_addr) s of
             (None, s) \<Rightarrow> (-1, s)
           | (Some pd, s) \<Rightarrow>
               (case next_table pd (pd_index virtual_addr) s of
                  (None, s) \<Rightarrow> (-1, s)
                | (Some pt, s) \<Rightarrow>
                    let s = s\<lparr>memory := set_entry pt (pt_index virtual_addr)
                                (physical_addr AND NOT 0xFFF OR ucast flags) (memory s)\<rparr>
                    in (0, arch_invlpg virtual_addr s))))"

definition vmm_unmap_page :: "u64 \<Rightarrow> 'a vmm_scheme \<Rightarrow> 'a vmm_scheme" where
  "vmm_unmap_page virtual_addr s =
     (let m = memory s; e4 = entry m (kernel_pml4 s) (pml4_index virtual_addr) in
      if \<not> present e4 then s
      else let e3 = entry m (entry_addr e4) (pdp_index virtual_addr) in
      if \<not> present e3 then s
      else let e2 = entry m (entry_addr e3) (pd_index virtual_addr) in
      if \<not> present e2 then s
      else arch_invlpg virtual_addr
             (s\<lparr>memory := set_entry (entry_addr e2) (pt_index virtual_addr) 0 m\<rparr>))"

definition vmm_get_physical :: "u64 \<Rightarrow> 'a vmm_scheme \<Rightarrow> u64" where
  "vmm_get_physical virtual_addr s =
     (let m = memory s; e4 = entry m (kernel_pml4 s) (pml4_index virtual_addr) in
      if \<not> present e4 then 0
      else let e3 = entry m (entry_addr e4) (pdp_index virtual_addr) in
      if \<not> present e3 then 0
      else let e2 = entry m (entry_addr e3) (pd_index virtual_addr) in
      if \<not> present e2 then 0
      else let e1 = entry m (entry_addr e2) (pt_index virtual_addr) in
      if \<not> present e1 then 0
      else entry_addr e1 OR (virtual_addr AND 0xFFF))"

text \<open>
  The mapping loops step by \<^verbatim>\<open>PAGE_SIZE\<close> and leave at the first failure. \<open>map_range\<close> is
  \<^verbatim>\<open>for (a = start; a < stop; a += PAGE_SIZE)\<close> with \<open>k\<close> as the number of pages still to do,
  which is exact for the page-aligned bounds of \<^verbatim>\<open>vmm_init\<close>.
\<close>

fun map_range :: "nat \<Rightarrow> u64 \<Rightarrow> u64 \<Rightarrow> u32 \<Rightarrow> 'a vmm_scheme \<Rightarrow> int \<times> 'a vmm_scheme" where
  "map_range 0 virt phys flags s = (0, s)"
| "map_range (Suc k) virt phys flags s =
     (case vmm_map_page virt phys flags s of
        (r, s) \<Rightarrow>
          if r \<noteq> 0 then (-1, s) else map_range k (virt + PAGE_SIZE) (phys + PAGE_SIZE) flags s)"

definition vmm_init :: "'a vmm_scheme \<Rightarrow> int \<times> 'a vmm_scheme" where
  "vmm_init s =
     (case pmm_alloc_page s of
        (pml4_phys, s) \<Rightarrow>
          if pml4_phys = 0 then (-1, s)
          else
            let s = s\<lparr>kernel_pml4 := pml4_phys, kernel_cr3 := pml4_phys,
                      memory := memory_set pml4_phys 0 PAGE_SIZE (memory s)\<rparr>
            in (case map_range (unat (0x100000000 div PAGE_SIZE)) 0 0 (PTE_PRESENT OR PTE_WRITABLE) s of
                  (r, s) \<Rightarrow>
                    if r \<noteq> 0 then (-1, s)
                    else
                      (case map_range (unat (0x10000000 div PAGE_SIZE)) KERNEL_BASE 0
                              (PTE_PRESENT OR PTE_WRITABLE) s of
                         (r, s) \<Rightarrow> if r \<noteq> 0 then (-1, s) else (0, s))))"

text \<open>
  \<^verbatim>\<open>vmm_protect\<close>: the address advances by a page while it is below the rounded end. For
  unaligned bounds the step could wrap and the loop not end, so the loop is partial; that
  \<^verbatim>\<open>vmm_protect\<close>, which rounds its bounds, always returns is proved below.
\<close>

partial_function (option) protect_loop ::
  "u64 \<Rightarrow> u64 \<Rightarrow> u32 \<Rightarrow> 'a vmm_scheme \<Rightarrow> (int \<times> 'a vmm_scheme) option" where
  "protect_loop addr end_addr flags s =
     (if addr < end_addr then
        (let phys = vmm_get_physical addr s in
         if phys \<noteq> 0 then
           (case vmm_map_page addr phys flags (vmm_unmap_page addr s) of
              (r, s) \<Rightarrow>
                if r \<noteq> 0 then Some (-1, s) else protect_loop (addr + PAGE_SIZE) end_addr flags s)
         else protect_loop (addr + PAGE_SIZE) end_addr flags s)
      else Some (0, s))"

definition vmm_protect :: "u64 \<Rightarrow> u64 \<Rightarrow> u32 \<Rightarrow> 'a vmm_scheme \<Rightarrow> (int \<times> 'a vmm_scheme) option" where
  "vmm_protect start sz flags s =
     (let end_addr = start + sz;
          start = start AND NOT 0xFFF;
          end_addr = (end_addr + 0xFFF) AND NOT 0xFFF
      in protect_loop start end_addr flags s)"

text \<open>The area functions are placeholders: they change nothing and create no area.\<close>

definition vmm_create_area :: "u64 \<Rightarrow> u64 \<Rightarrow> u32 \<Rightarrow> u32 \<Rightarrow> 'a vmm_scheme \<Rightarrow> u64 \<times> 'a vmm_scheme" where
  "vmm_create_area start sz flags type s = (0, s)"

definition vmm_destroy_area :: "u64 \<Rightarrow> 'a vmm_scheme \<Rightarrow> 'a vmm_scheme" where
  "vmm_destroy_area area s = s"

section \<open>The abstract view\<close>

fun walk :: "mem \<Rightarrow> u64 \<Rightarrow> u64 list \<Rightarrow> u64 option" where
  "walk m t [] = Some t"
| "walk m t (i # is) =
     (if present (entry m t i) then walk m (entry_addr (entry m t i)) is else None)"

definition page_path :: "u64 \<Rightarrow> u64 list" where
  "page_path v = [pml4_index v, pdp_index v, pd_index v]"

definition leaf :: "'a vmm_scheme \<Rightarrow> u64 list \<Rightarrow> u64 \<Rightarrow> u64" where
  "leaf s path i =
     (case walk (memory s) (kernel_pml4 s) path of Some t \<Rightarrow> entry (memory s) t i | None \<Rightarrow> 0)"

text \<open>A path into the tables: at most three levels, each index below 512.\<close>

definition valid_path :: "u64 list \<Rightarrow> bool" where
  "valid_path p \<longleftrightarrow> length p \<le> 3 \<and> (\<forall>i\<in>set p. i < 512)"

definition tables_ok :: "mem \<Rightarrow> u64 \<Rightarrow> (u64 \<Rightarrow> bool) \<Rightarrow> bool" where
  "tables_ok m r frame \<longleftrightarrow>
     (\<forall>p t. valid_path p \<longrightarrow> walk m r p = Some t \<longrightarrow> t mod PAGE_SIZE = 0 \<and> frame (t div PAGE_SIZE)) \<and>
     (\<forall>p q t. valid_path p \<longrightarrow> valid_path q \<longrightarrow> walk m r p = Some t \<longrightarrow> walk m r q = Some t \<longrightarrow> p = q)"

definition vmm_inv :: "'a vmm_scheme \<Rightarrow> bool" where
  "vmm_inv s \<longleftrightarrow>
     pmm_inv s \<and> pmm_safe s \<and>
     tables_ok (memory s) (kernel_pml4 s) (held (free_set s) (in_bitmap s))"

text \<open>Addresses the tables cannot tell apart: bits 12 to 47 agree.\<close>

definition same_page :: "u64 \<Rightarrow> u64 \<Rightarrow> bool" where
  "same_page v w \<longleftrightarrow> unat v div 4096 mod 2 ^ 36 = unat w div 4096 mod 2 ^ 36"

text \<open>The entry a virtual address leads to.\<close>

definition pte_of :: "'a vmm_scheme \<Rightarrow> u64 \<Rightarrow> u64" where
  "pte_of s w = leaf s (page_path w) (pt_index w)"

text \<open>Entries either stay or keep their frame and take the new flags.\<close>

definition reflag :: "u32 \<Rightarrow> 'a vmm_scheme \<Rightarrow> 'a vmm_scheme \<Rightarrow> bool" where
  "reflag f s s' \<longleftrightarrow>
     (\<forall>w. pte_of s' w = pte_of s w \<or>
          present (pte_of s w) \<and> pte_of s' w = entry_addr (pte_of s w) OR ucast f)"

section \<open>Entries\<close>

lemma low_bits_mask: "(0xFFF :: u64) = 2 ^ 12 - 1"
  by simp

lemma entry_addr_aligned: "entry_addr e mod PAGE_SIZE = 0"
proof -
  have "unat (entry_addr e) = unat e div 2 ^ 12 * 2 ^ 12"
    unfolding entry_addr_def low_bits_mask by (rule unat_and_not_mask)
  then show ?thesis
    by (simp add: word_unat_eq_iff unat_mod unat_PAGE_SIZE)
qed

lemma aligned_addr:
  assumes "a mod PAGE_SIZE = 0"
  shows "a AND 0xFFF = 0"
proof -
  have "2 ^ 12 dvd unat a"
    using assms by (simp add: word_unat_eq_iff [of _ 0] unat_mod unat_PAGE_SIZE dvd_eq_mod_eq_0)
  then show ?thesis
    unfolding low_bits_mask by (simp only: and_mask_0_iff)
qed

lemma entry_addr_self:
  assumes "a mod PAGE_SIZE = 0"
  shows "a AND NOT 0xFFF = a"
proof -
  have "unat a mod 2 ^ 12 = 0"
    using assms by (simp add: word_unat_eq_iff [of _ 0] unat_mod unat_PAGE_SIZE)
  then have "unat a div 2 ^ 12 * 2 ^ 12 = unat a"
    using div_mult_mod_eq [of "unat a" "2 ^ 12"] by linarith
  then have "unat (a AND NOT (2 ^ 12 - 1)) = unat a"
    by (simp only: unat_and_not_mask)
  then show ?thesis
    unfolding low_bits_mask by (simp only: word_unat_eq_iff)
qed

lemma entry_addr_or:
  assumes "a mod PAGE_SIZE = 0" and "f AND NOT 0xFFF = 0"
  shows "entry_addr (a OR f) = a"
  unfolding entry_addr_def bit.conj_disj_distrib2 entry_addr_self [OF assms(1)] assms(2) by simp

lemma page_offset:
  assumes "t mod PAGE_SIZE = 0" and "x < PAGE_SIZE"
  shows "(t + x) div PAGE_SIZE = t div PAGE_SIZE"
  using in_aligned_page [OF assms(1), of "t + x"] assms(2) by simp

lemma entry_byte:
  assumes "t mod PAGE_SIZE = 0" and "i < 512" and "j < 8"
  shows "(t + i * 8 + of_nat j) div PAGE_SIZE = t div PAGE_SIZE"
proof -
  have "unat (i * 8) = unat i * 8"
    using assms(2) unat_mult_lem [of i 8] by (simp add: word_less_nat_alt)
  moreover have "unat (of_nat j :: u64) = j"
    using assms(3) by (simp add: unat_of_nat_small)
  ultimately have "unat (i * 8 + of_nat j) = unat i * 8 + j"
    using assms unat_add_lem [of "i * 8" "of_nat j"] by (simp add: word_less_nat_alt)
  then have "i * 8 + of_nat j < PAGE_SIZE"
    using assms by (simp add: word_less_nat_alt unat_PAGE_SIZE)
  then show ?thesis
    using page_offset [OF assms(1)] by (simp add: add.assoc)
qed

lemma entry_cong:
  assumes "t mod PAGE_SIZE = 0" and "i < 512"
    and "\<And>x. x div PAGE_SIZE = t div PAGE_SIZE \<Longrightarrow> m' x = m x"
  shows "entry m' t i = entry m t i"
  unfolding entry_def
  by (rule load_le_cong) (simp add: assms entry_byte)

lemma entry_zero: "entry (\<lambda>_. 0) t i = 0"
  by (rule bit_word_eqI) (simp add: entry_def bit_load_le)

lemma entry_set_same: "entry (set_entry t i v m) t i = v"
  unfolding entry_def set_entry_def by (rule load_store_same) simp_all

lemma set_entry_page:
  assumes "t mod PAGE_SIZE = 0" and "i < 512" and "x div PAGE_SIZE \<noteq> t div PAGE_SIZE"
  shows "set_entry t i v m x = m x"
proof -
  have "\<not> unat (x - (t + i * 8)) < 8"
  proof
    assume "unat (x - (t + i * 8)) < 8"
    moreover have "x = t + i * 8 + of_nat (unat (x - (t + i * 8)))" by simp
    ultimately show False
      using entry_byte [OF assms(1,2)] assms(3) by metis
  qed
  then show ?thesis
    by (simp add: set_entry_def store_le_def)
qed

lemma slots_disjoint:
  assumes "i < 512" and "j < 512" and "i \<noteq> (j :: u64)"
  shows "8 \<le> i * 8 - j * 8"
proof -
  have u: "unat (i * 8) = unat i * 8" "unat (j * 8) = unat j * 8"
    using assms unat_mult_lem [of i 8] unat_mult_lem [of j 8] by (simp_all add: word_less_nat_alt)
  have "unat i \<noteq> unat j" using assms(3) by (simp add: word_unat_eq_iff)
  then have "8 \<le> unat (i * 8 - j * 8)"
    using assms unfolding unat_sub_if' u by (auto simp: word_less_nat_alt)
  then show ?thesis by (simp add: word_le_nat_alt)
qed

lemma entry_set_other:
  assumes "t mod PAGE_SIZE = 0" and "u mod PAGE_SIZE = 0" and "i < 512" and "j < 512"
    and "u \<noteq> t \<or> j \<noteq> i"
  shows "entry (set_entry t i v m) u j = entry m u j"
proof (cases "u = t")
  case True
  then have "disjoint_regions (u + j * 8) (of_nat 8) (t + i * 8) (of_nat 8)"
    using slots_disjoint assms by (simp add: disjoint_regions_def)
  then show ?thesis
    unfolding entry_def set_entry_def by (rule load_store_other) simp_all
next
  case False
  then have "u div PAGE_SIZE \<noteq> t div PAGE_SIZE"
    using assms(1,2) by (metis aligned_eq)
  then show ?thesis
    using assms by (intro entry_cong set_entry_page) auto
qed


section \<open>Walking the tables\<close>

lemma walk_append:
  "walk m t (p @ q) = (case walk m t p of None \<Rightarrow> None | Some u \<Rightarrow> walk m u q)"
  by (induction p arbitrary: t) auto

lemma walk_snoc:
  "walk m t (p @ [i]) =
     (case walk m t p of
        None \<Rightarrow> None
      | Some u \<Rightarrow> if present (entry m u i) then Some (entry_addr (entry m u i)) else None)"
  by (simp add: walk_append split: option.splits)

lemma valid_path_snoc: "valid_path (p @ [i]) \<longleftrightarrow> valid_path p \<and> length p \<le> 2 \<and> i < 512"
  by (auto simp: valid_path_def)

lemma tables_okD:
  assumes "tables_ok m r frame" and "valid_path p" and "walk m r p = Some t"
  shows "t mod PAGE_SIZE = 0" and "frame (t div PAGE_SIZE)"
  using assms by (auto simp: tables_ok_def)

lemma tables_ok_inj:
  "tables_ok m r frame \<Longrightarrow> valid_path p \<Longrightarrow> valid_path q \<Longrightarrow> walk m r p = Some t \<Longrightarrow>
     walk m r q = Some t \<Longrightarrow> p = q"
  by (auto simp: tables_ok_def)

text \<open>Memory outside the tables does not matter.\<close>

lemma walk_cong:
  assumes ok: "tables_ok m r frame" and m: "\<And>x. frame (x div PAGE_SIZE) \<Longrightarrow> m' x = m x"
    and "valid_path p"
  shows "walk m' r p = walk m r p"
  using assms(3)
proof (induction p rule: rev_induct)
  case (snoc i p)
  then have IH: "walk m' r p = walk m r p" and v: "valid_path p" "i < 512"
    by (auto simp: valid_path_snoc)
  show ?case
  proof (cases "walk m r p")
    case (Some t)
    then have "entry m' t i = entry m t i"
      using tables_okD [OF ok v(1) Some] m v(2) by (intro entry_cong) auto
    with Some IH show ?thesis
      by (simp add: walk_snoc)
  qed (simp add: walk_snoc IH)
qed simp

lemma tables_ok_cong:
  assumes ok: "tables_ok m r frame" and m: "\<And>x. frame (x div PAGE_SIZE) \<Longrightarrow> m' x = m x"
    and f: "\<And>p. frame p \<Longrightarrow> frame' p"
  shows "tables_ok m' r frame'"
  using ok f unfolding tables_ok_def by (simp add: walk_cong [OF ok m])

text \<open>Writing an entry of a leaf table leaves all walks as they are.\<close>

lemma walk_set_leaf:
  assumes ok: "tables_ok m r frame" and p: "valid_path p" "length p = 3" "walk m r p = Some t"
    and i: "i < 512" and "valid_path q"
  shows "walk (set_entry t i v m) r q = walk m r q"
  using assms(6)
proof (induction q rule: rev_induct)
  case (snoc j q)
  then have IH: "walk (set_entry t i v m) r q = walk m r q" and q: "valid_path q" "length q \<le> 2" "j < 512"
    by (auto simp: valid_path_snoc)
  show ?case
  proof (cases "walk m r q")
    case (Some u)
    then have "u \<noteq> t"
      using tables_ok_inj [OF ok p(1) q(1)] p q by force
    then have "entry (set_entry t i v m) u j = entry m u j"
      using tables_okD [OF ok p(1,3)] tables_okD [OF ok q(1) Some] i q by (simp add: entry_set_other)
    with Some IH show ?thesis
      by (simp add: walk_snoc)
  qed (simp add: walk_snoc IH)
qed simp

text \<open>Hanging a zeroed frame under an entry that was not present.\<close>

lemma walk_new_table:
  assumes ok: "tables_ok m r frame" and p: "valid_path p" "walk m r p = Some t" and i: "i < 512"
    and np: "\<not> present (entry m t i)" and a: "a mod PAGE_SIZE = 0" "\<not> frame (a div PAGE_SIZE)"
    and z: "\<forall>x. x div PAGE_SIZE = a div PAGE_SIZE \<longrightarrow> m x = 0"
    and e: "present e" "entry_addr e = a"
    and "valid_path q"
  shows "walk (set_entry t i e m) r q =
    (if q = p @ [i] then Some a
     else if \<exists>j q'. q = p @ i # j # q' then None else walk m r q)"
  using \<open>valid_path q\<close>
proof (induction q rule: rev_induct)
  case Nil
  then show ?case by simp
next
  case (snoc j q)
  let ?m = "set_entry t i e m"
  have q: "valid_path q" "j < 512" using snoc.prems by (auto simp: valid_path_snoc)
  note IH = snoc.IH [OF q(1)]
  note t = tables_okD [OF ok p]
  consider "q = p" | "q = p @ [i]" | k q' where "q = p @ i # k # q'"
    | "q \<noteq> p" "q \<noteq> p @ [i]" "\<not> (\<exists>k q'. q = p @ i # k # q')" by blast
  then show ?case
  proof cases
    case 1
    then have "walk ?m r q = Some t" using IH p by simp
    with 1 show ?thesis
      using e t i q p(2) by (auto simp: walk_snoc entry_set_same entry_set_other)
  next
    case 2
    have "t div PAGE_SIZE \<noteq> a div PAGE_SIZE" using t a by auto
    then have "entry ?m a j = entry (\<lambda>_. 0) a j"
      using t i a z q by (intro entry_cong) (auto simp: set_entry_page)
    then have "\<not> present (entry ?m a j)"
      by (simp add: entry_zero present_def)
    moreover have "walk ?m r q = Some a"
      using 2 IH by simp
    ultimately have "walk ?m r (q @ [j]) = None"
      by (simp only: walk_snoc option.case if_False)
    with 2 show ?thesis by simp
  next
    case 3
    then have "walk ?m r q = None"
      using IH by auto
    then have "walk ?m r (q @ [j]) = None"
      by (simp only: walk_snoc option.case)
    with 3 show ?thesis by auto
  next
    case 4
    then have same: "walk ?m r q = walk m r q" using IH by auto
    have ne: "q @ [j] \<noteq> p @ [i]" "\<not> (\<exists>k q'. q @ [j] = p @ i # k # q')"
      using 4 by (auto simp: append_eq_append_conv2 append_eq_Cons_conv Cons_eq_append_conv)
    have "entry ?m u j = entry m u j" if "walk m r q = Some u" for u
      using that 4(1) tables_ok_inj [OF ok p(1) q(1) p(2)] tables_okD [OF ok q(1) that] t i q(2)
      by (intro entry_set_other) auto
    then have "walk ?m r (q @ [j]) = walk m r (q @ [j])"
      using same by (cases "walk m r q") (simp_all add: walk_snoc)
    with ne show ?thesis
      by (simp only: if_False)
  qed
qed

section \<open>One level of the walk\<close>

lemma vmm_inv_walk:
  assumes "vmm_inv s" and "valid_path p" and "walk (memory s) (kernel_pml4 s) p = Some t"
  shows "t mod PAGE_SIZE = 0" and "held (free_set s) (in_bitmap s) (t div PAGE_SIZE)"
  using assms tables_okD unfolding vmm_inv_def by blast+

text \<open>Writing into a held frame does not disturb the page allocator.\<close>

lemma pmm_set_entry:
  fixes s :: "'a vmm_scheme"
  assumes "pmm_inv s" and "pmm_safe s" and "held (free_set s) (in_bitmap s) (t div PAGE_SIZE)"
    and "t mod PAGE_SIZE = 0" and "i < 512"
  shows "pmm_inv (s\<lparr>memory := set_entry t i v (memory s)\<rparr>)"
    and "pmm_safe (s\<lparr>memory := set_entry t i v (memory s)\<rparr>)"
    and "free_set (s\<lparr>memory := set_entry t i v (memory s)\<rparr>) = free_set s"
proof -
  have m: "set_entry t i v (memory s) x = memory s x" if "in_bitmap s x" for x
    using assms(3-5) that by (intro set_entry_page) (auto simp: held_def)
  show "pmm_inv (s\<lparr>memory := set_entry t i v (memory s)\<rparr>)"
    by (rule pmm_inv_cong [OF assms(1) m])
  show f: "free_set (s\<lparr>memory := set_entry t i v (memory s)\<rparr>) = free_set s"
    by (rule free_set_cong [OF pmm_inv_count [OF assms(1)] m])
  show "pmm_safe (s\<lparr>memory := set_entry t i v (memory s)\<rparr>)"
    using assms(2) f by (simp add: pmm_safe_def)
qed

lemma alloc_page_pml4: "pmm_alloc_page s = (a, s') \<Longrightarrow> kernel_pml4 s' = kernel_pml4 s"
  by (auto simp: pmm_alloc_page_def Let_def count_allocation_def pmm_mark_page_used_def
      split: option.splits if_splits)

lemma alloc_page_walk:
  assumes "vmm_inv s" and "pmm_alloc_page s = (a, s')"
  shows "valid_path p \<Longrightarrow> walk (memory s') (kernel_pml4 s) p = walk (memory s) (kernel_pml4 s) p"
    and "vmm_inv s'"
proof -
  have ok: "tables_ok (memory s) (kernel_pml4 s) (held (free_set s) (in_bitmap s))"
    and i: "pmm_inv s \<and> pmm_safe s"
    using assms(1) by (simp_all add: vmm_inv_def)
  note k = pmm_frames.alloc_keeps [OF i assms(2)]
  show "walk (memory s') (kernel_pml4 s) p = walk (memory s) (kernel_pml4 s) p" if "valid_path p"
    by (rule walk_cong [OF ok _ that]) (rule k(2) [OF _ refl])
  have "tables_ok (memory s') (kernel_pml4 s) (held (free_set s') (in_bitmap s'))"
    by (rule tables_ok_cong [OF ok]) (fact k(2) [OF _ refl], fact k(1))
  then show "vmm_inv s'"
    using pmm_frames.alloc_ok [OF i assms(2)] alloc_page_pml4 [OF assms(2)] by (simp add: vmm_inv_def)
qed

text \<open>The state after \<^verbatim>\<open>next_table\<close> has allocated: one store on top of the allocation.\<close>

lemma next_table_new:
  assumes inv: "vmm_inv s" and p: "valid_path p" "walk (memory s) (kernel_pml4 s) p = Some t"
    and i: "i < 512" and np: "\<not> present (entry (memory s) t i)"
    and al: "pmm_alloc_page s = (a, s1)" "a \<noteq> 0"
    and e: "e = a OR ucast PTE_PRESENT OR ucast PTE_WRITABLE"
  shows "next_table t i s = (Some a, s1\<lparr>memory := set_entry t i e (memory s1)\<rparr>)"
    and "present e" and "entry_addr e = a" and "a mod PAGE_SIZE = 0"
proof -
  have ok: "pmm_inv s \<and> pmm_safe s" using inv by (simp add: vmm_inv_def)
  note new = pmm_frames.alloc_new [OF ok al]
  note t = vmm_inv_walk [OF inv p]
  show a: "a mod PAGE_SIZE = 0" by (fact new(1))
  have tl: "(ucast PTE_PRESENT OR ucast PTE_WRITABLE :: u64) = 3"
    by (simp add: PTE_PRESENT_def PTE_WRITABLE_def)
  have e3: "e = a OR 3" by (simp add: e tl or.assoc)
  show ea: "entry_addr e = a" unfolding e3 by (rule entry_addr_or [OF a]) simp
  have "bit e 0" by (simp add: e3 bit_or_iff)
  then show pe: "present e" by (simp add: present_def PTE_PRESENT_def and_one_eq odd_iff_mod_2_eq_one bit_0)
  let ?m = "set_entry t i e (memory s1)"
  have ne: "t div PAGE_SIZE \<noteq> a div PAGE_SIZE" using t(2) new(2) by auto
  have "mem_fill a 0 PAGE_SIZE ?m = ?m"
  proof
    fix x
    show "mem_fill a 0 PAGE_SIZE ?m x = ?m x"
      using ne new(4) [of x] set_entry_page [OF t(1) i, of x e] by (auto simp: mem_fill_def in_aligned_page a)
  qed
  then show "next_table t i s = (Some a, s1\<lparr>memory := ?m\<rparr>)"
    using np al ea by (simp add: next_table_def Let_def memory_set_fill entry_set_same flip: e)
qed


text \<open>What a level of \<^verbatim>\<open>vmm_map_page\<close> guarantees: the invariant, an unchanged abstract view, and the next table.\<close>

lemma leaf_new_table:
  assumes ok: "tables_ok m r frame" and p: "valid_path p" "walk m r p = Some t" and i: "i < 512"
    and np: "\<not> present (entry m t i)" and a: "a mod PAGE_SIZE = 0" "\<not> frame (a div PAGE_SIZE)"
    and z: "\<forall>x. x div PAGE_SIZE = a div PAGE_SIZE \<longrightarrow> m x = 0"
    and e: "present e" "entry_addr e = a" and q: "valid_path q" "length q = 3" "length p \<le> 2" and j: "j < 512"
  shows "(case walk (set_entry t i e m) r q of Some u \<Rightarrow> entry (set_entry t i e m) u j | None \<Rightarrow> 0) =
    (case walk m r q of Some u \<Rightarrow> entry m u j | None \<Rightarrow> 0)"
proof -
  let ?m = "set_entry t i e m"
  note w = walk_new_table [OF ok p i np a z e q(1)]
  note t = tables_okD [OF ok p]
  have none: "walk m r (p @ i # q') = None" for q'
    using p(2) np by (simp add: walk_append)
  consider "q = p @ [i]" | k q' where "q = p @ i # k # q'"
    | "q \<noteq> p @ [i]" "\<not> (\<exists>k q'. q = p @ i # k # q')" by blast
  then show ?thesis
  proof cases
    case 1
    have "t div PAGE_SIZE \<noteq> a div PAGE_SIZE" using t a by auto
    then have "entry ?m a j = entry (\<lambda>_. 0) a j"
      using t i a z j by (intro entry_cong) (auto simp: set_entry_page)
    with 1 w none [of "[]"] show ?thesis by (simp add: entry_zero)
  next
    case 2
    then show ?thesis using w none by auto
  next
    case 3
    have "entry ?m u j = entry m u j" if "walk m r q = Some u" for u
    proof -
      have "q \<noteq> p" using q by auto
      then have "u \<noteq> t" using tables_ok_inj [OF ok p(1) q(1) p(2)] that by auto
      then show ?thesis
        using tables_okD [OF ok q(1) that] t i j by (intro entry_set_other) auto
    qed
    with w 3 show ?thesis by (auto split: option.split)
  qed
qed

lemma tables_ok_new:
  assumes ok: "tables_ok m r frame" and p: "valid_path p" "walk m r p = Some t" and i: "i < 512"
    and np: "\<not> present (entry m t i)" and a: "a mod PAGE_SIZE = 0" "\<not> frame (a div PAGE_SIZE)"
    and z: "\<forall>x. x div PAGE_SIZE = a div PAGE_SIZE \<longrightarrow> m x = 0"
    and e: "present e" "entry_addr e = a" and f: "\<And>x. frame x \<Longrightarrow> frame' x" "frame' (a div PAGE_SIZE)"
  shows "tables_ok (set_entry t i e m) r frame'"
  unfolding tables_ok_def
proof (intro conjI allI impI)
  let ?m = "set_entry t i e m"
  note w = walk_new_table [OF ok p i np a z e]
  have cases: "q = p @ [i] \<and> u = a \<or> walk m r q = Some u" if "valid_path q" "walk ?m r q = Some u" for q u
    using that w [OF that(1)] by (auto split: if_splits)
  fix q u assume q: "valid_path q" "walk ?m r q = Some u"
  show "u mod PAGE_SIZE = 0" "frame' (u div PAGE_SIZE)"
    using cases [OF q] tables_okD [OF ok q(1)] a f by blast+
  fix q' assume q': "valid_path q'" "walk ?m r q' = Some u"
  show "q = q'"
    using cases [OF q] cases [OF q'] tables_ok_inj [OF ok q(1) q'(1)] tables_okD(2) [OF ok q(1)]
      tables_okD(2) [OF ok q'(1)] a(2) by blast
qed

lemma leaf_keep:
  assumes inv: "vmm_inv s" and al: "pmm_alloc_page s = (a, s1)" and q: "valid_path q" and j: "j < 512"
  shows "leaf s1 q j = leaf s q j"
proof (cases "walk (memory s) (kernel_pml4 s) q")
  case (Some u)
  have ok: "pmm_inv s \<and> pmm_safe s" using inv by (simp add: vmm_inv_def)
  note u = vmm_inv_walk [OF inv q Some]
  have "entry (memory s1) u j = entry (memory s) u j"
    by (rule entry_cong [OF u(1) j pmm_frames.alloc_keeps(2) [OF ok al u(2)]])
  with Some show ?thesis
    by (simp add: leaf_def alloc_page_pml4 [OF al] alloc_page_walk(1) [OF inv al q])
qed (simp add: leaf_def alloc_page_pml4 [OF al] alloc_page_walk(1) [OF inv al q])

lemma next_table_alloc:
  assumes inv: "vmm_inv s" and p: "valid_path p" "length p \<le> 2" "walk (memory s) (kernel_pml4 s) p = Some t"
    and i: "i < 512" and np: "\<not> present (entry (memory s) t i)"
    and al: "pmm_alloc_page s = (a, s1)" "a \<noteq> 0"
    and e: "e = a OR ucast PTE_PRESENT OR ucast PTE_WRITABLE"
    and s': "s' = s1\<lparr>memory := set_entry t i e (memory s1)\<rparr>"
  shows "vmm_inv s'" and "walk (memory s') (kernel_pml4 s) (p @ [i]) = Some a"
    and "valid_path q \<Longrightarrow> length q = 3 \<Longrightarrow> j < 512 \<Longrightarrow> leaf s' q j = leaf s q j"
    and "free_set s' = free_set s - {a div PAGE_SIZE}"
proof -
  have ok: "pmm_inv s \<and> pmm_safe s" and tok: "tables_ok (memory s) (kernel_pml4 s) (held (free_set s) (in_bitmap s))"
    using inv by (simp_all add: vmm_inv_def)
  note keep = pmm_frames.alloc_keeps [OF ok al(1)] and w = alloc_page_walk [OF inv al(1)]
  have r1: "kernel_pml4 s1 = kernel_pml4 s" by (rule alloc_page_pml4 [OF al(1)])
  note new = pmm_frames.alloc_new [OF ok al]
  note nt = next_table_new [OF inv p(1,3) i np al e]
  have inv1: "pmm_inv s1" "pmm_safe s1" using w(2) by (simp_all add: vmm_inv_def)
  note t = vmm_inv_walk [OF inv p(1,3)]
  note pm = pmm_set_entry [OF inv1 keep(1) [OF t(2)] t(1) i, of e]
  have ok1: "tables_ok (memory s1) (kernel_pml4 s) (held (free_set s) (in_bitmap s))"
    by (rule tables_ok_cong [OF tok keep(2) [OF _ refl]])
  have wt: "walk (memory s1) (kernel_pml4 s) p = Some t" using w(1) p by simp
  have np1: "\<not> present (entry (memory s1) t i)"
    using np entry_cong [OF t(1) i keep(2) [OF t(2)]] by simp
  have z: "\<forall>x. x div PAGE_SIZE = a div PAGE_SIZE \<longrightarrow> memory s1 x = 0"
    using new(4) by blast
  note prem = ok1 p(1) wt i np1 nt(4) new(2) z nt(2,3)
  have fs: "free_set s' = free_set s1" "in_bitmap s' = in_bitmap s1"
    using pm(3) by (simp_all add: s' in_bitmap_def)
  have "tables_ok (memory s') (kernel_pml4 s) (held (free_set s') (in_bitmap s'))"
    using tables_ok_new [OF prem, of "held (free_set s1) (in_bitmap s1)"] keep(1) new(3)
    unfolding fs by (simp add: s')
  then show "vmm_inv s'"
    using pm r1 by (simp add: vmm_inv_def s')
  show "free_set s' = free_set s - {a div PAGE_SIZE}"
    using pmm_frames.fresh [OF ok _ al(1)] pmm_frames.alloc_zero_iff [OF ok al(1)] al(2) fs by simp
  show "walk (memory s') (kernel_pml4 s) (p @ [i]) = Some a"
    using walk_new_table [OF prem, of "p @ [i]"] p i by (simp add: s' valid_path_snoc)
  show "leaf s' q j = leaf s q j" if q: "valid_path q" "length q = 3" "j < 512"
  proof -
    have "leaf s' q j = leaf s1 q j"
      using leaf_new_table [OF prem q(1,2) p(2) q(3)] by (simp add: leaf_def s' r1 cong: option.case_cong)
    with leaf_keep [OF inv al(1) q(1,3)] show ?thesis by simp
  qed
qed

lemma next_table_spec:
  assumes inv: "vmm_inv s" and p: "valid_path p" "length p \<le> 2" "walk (memory s) (kernel_pml4 s) p = Some t"
    and i: "i < 512" and r: "next_table t i s = (res, s')"
  shows "vmm_inv s' \<and> kernel_pml4 s' = kernel_pml4 s \<and>
    (\<forall>u. res = Some u \<longrightarrow> walk (memory s') (kernel_pml4 s) (p @ [i]) = Some u) \<and>
    (\<forall>q j. valid_path q \<longrightarrow> length q = 3 \<longrightarrow> j < 512 \<longrightarrow> leaf s' q j = leaf s q j) \<and>
    (res = None \<longrightarrow> free_set s' = {}) \<and> card (free_set s) \<le> Suc (card (free_set s'))"
proof (cases "present (entry (memory s) t i)")
  case True
  with r have "res = Some (entry_addr (entry (memory s) t i))" "s' = s"
    by (auto simp: next_table_def)
  with True inv p(3) show ?thesis by (simp add: walk_snoc)
next
  case np: False
  have ok: "pmm_inv s \<and> pmm_safe s" using inv by (simp add: vmm_inv_def)
  obtain a s1 where al: "pmm_alloc_page s = (a, s1)" by fastforce
  show ?thesis
  proof (cases "a = 0")
    case True
    then have "free_set s = {}" using pmm_frames.alloc_zero_iff [OF ok al] by simp
    moreover from this have "s1 = s" using pmm_frames.exhausted [OF ok] al by simp
    moreover have "res = None" "s' = s1" using r np al True by (auto simp: next_table_def)
    ultimately show ?thesis using inv by simp
  next
    case False
    define e where "e = a OR ucast PTE_PRESENT OR ucast PTE_WRITABLE"
    have s': "res = Some a" "s' = s1\<lparr>memory := set_entry t i e (memory s1)\<rparr>"
      using r next_table_new(1) [OF inv p(1,3) i np al False e_def] by auto
    note na = next_table_alloc [OF inv p i np al False e_def s'(2)]
    have "card (free_set s) \<le> Suc (card (free_set s'))"
      unfolding na(4) by (auto simp: card_Diff_singleton_if)
    with na(1-3) s'(1) alloc_page_pml4 [OF al] show ?thesis by (simp add: s'(2))
  qed
qed


lemma index_bounds:
  "pml4_index v < 512" "pdp_index v < 512" "pd_index v < 512" "pt_index v < 512"
proof -
  have "x AND 0x1FF < (512 :: u64)" for x
  proof -
    have "x AND 0x1FF = take_bit 9 x" by (simp add: take_bit_eq_mask mask_eq_exp_minus_1)
    then show ?thesis by (simp only: word_less_nat_alt unat_take_bit) simp
  qed
  then show "pml4_index v < 512" "pdp_index v < 512" "pd_index v < 512" "pt_index v < 512"
    by (simp_all add: pml4_index_def pdp_index_def pd_index_def pt_index_def)
qed

lemma valid_page_path: "valid_path (page_path v)" "length (page_path v) = 3"
  by (simp_all add: valid_path_def page_path_def index_bounds)

lemma present_0 [simp]: "\<not> present 0"
  by (simp add: present_def)

lemma get_physical_leaf:
  "vmm_get_physical v s =
     (let e = leaf s (page_path v) (pt_index v) in
      if present e then entry_addr e OR (v AND 0xFFF) else 0)"
  by (simp add: vmm_get_physical_def leaf_def page_path_def Let_def)

lemma unmap_page_walk:
  "vmm_unmap_page v s =
     (case walk (memory s) (kernel_pml4 s) (page_path v) of
        None \<Rightarrow> s
      | Some t \<Rightarrow> s\<lparr>memory := set_entry t (pt_index v) 0 (memory s)\<rparr>)"
  by (simp add: vmm_unmap_page_def page_path_def Let_def arch_invlpg_def)

text \<open>Writing a leaf entry: the effect on the abstract view.\<close>

lemma set_leaf:
  assumes inv: "vmm_inv s" and p: "valid_path p" "length p = 3" "walk (memory s) (kernel_pml4 s) p = Some t"
    and i: "i < 512" and s': "s' = s\<lparr>memory := set_entry t i v (memory s)\<rparr>"
  shows "vmm_inv s'" and "free_set s' = free_set s"
    and "valid_path q \<Longrightarrow> length q = 3 \<Longrightarrow> j < 512 \<Longrightarrow>
      leaf s' q j = (if q = p \<and> j = i then v else leaf s q j)"
proof -
  have ok: "pmm_inv s" "pmm_safe s" and tok: "tables_ok (memory s) (kernel_pml4 s) (held (free_set s) (in_bitmap s))"
    using inv by (simp_all add: vmm_inv_def)
  note t = vmm_inv_walk [OF inv p(1,3)]
  note pm = pmm_set_entry [OF ok t(2,1) i, of v]
  note w = walk_set_leaf [OF tok p i, of _ v]
  show fs: "free_set s' = free_set s" using pm(3) by (simp add: s')
  have "in_bitmap s' = in_bitmap s" by (simp add: s' in_bitmap_def)
  then have "tables_ok (memory s') (kernel_pml4 s) (held (free_set s') (in_bitmap s'))"
    using tok w by (simp add: tables_ok_def s' pm(3))
  then show "vmm_inv s'" using pm by (simp add: vmm_inv_def s')
  show "leaf s' q j = (if q = p \<and> j = i then v else leaf s q j)" if q: "valid_path q" "length q = 3" "j < 512"
  proof (cases "walk (memory s) (kernel_pml4 s) q")
    case None
    with p show ?thesis using w [OF q(1)] by (auto simp: leaf_def s')
  next
    case (Some u)
    have "u = t \<longleftrightarrow> q = p"
      using tables_ok_inj [OF tok p(1) q(1) p(3)] Some p(3) by auto
    then show ?thesis
      using Some w [OF q(1)] vmm_inv_walk(1) [OF inv q(1) Some] t(1) i q(3)
      by (auto simp: leaf_def s' entry_set_same entry_set_other)
  qed
qed

section \<open>Mapping\<close>

text \<open>A state change that keeps the invariant, the root and the abstract view, and takes at most \<open>n\<close> frames.\<close>

definition quiet :: "nat \<Rightarrow> 'a vmm_scheme \<Rightarrow> 'a vmm_scheme \<Rightarrow> bool" where
  "quiet n s s' \<longleftrightarrow>
     vmm_inv s' \<and> kernel_pml4 s' = kernel_pml4 s \<and>
     (\<forall>q j. valid_path q \<longrightarrow> length q = 3 \<longrightarrow> j < 512 \<longrightarrow> leaf s' q j = leaf s q j) \<and>
     card (free_set s) \<le> n + card (free_set s')"

lemma quiet_trans: "quiet n s s1 \<Longrightarrow> quiet k s1 s2 \<Longrightarrow> quiet (n + k) s s2"
  by (simp add: quiet_def)

lemma next_table_quiet:
  assumes "vmm_inv s" and "valid_path p" "length p \<le> 2" "walk (memory s) (kernel_pml4 s) p = Some t"
    and "i < 512" and "next_table t i s = (res, s')"
  shows "quiet 1 s s'" and "res = Some u \<Longrightarrow> walk (memory s') (kernel_pml4 s') (p @ [i]) = Some u"
    and "res = None \<Longrightarrow> free_set s' = {}"
  using next_table_spec [OF assms] by (simp_all add: quiet_def)

lemma quiet_inv: "quiet n s s' \<Longrightarrow> vmm_inv s'"
  by (simp add: quiet_def)

definition tables_for :: "u64 \<Rightarrow> 'a vmm_scheme \<Rightarrow> u64 option \<times> 'a vmm_scheme" where
  "tables_for v s =
     (case next_table (kernel_pml4 s) (pml4_index v) s of
        (None, s) \<Rightarrow> (None, s)
      | (Some pdp, s) \<Rightarrow>
          (case next_table pdp (pdp_index v) s of
             (None, s) \<Rightarrow> (None, s)
           | (Some pd, s) \<Rightarrow> next_table pd (pd_index v) s))"

lemma map_page_tables:
  "vmm_map_page v p f s =
     (case tables_for v s of
        (None, s) \<Rightarrow> (-1, s)
      | (Some pt, s) \<Rightarrow>
          (0, s\<lparr>memory := set_entry pt (pt_index v) (p AND NOT 0xFFF OR ucast f) (memory s)\<rparr>))"
  by (simp add: vmm_map_page_def tables_for_def arch_invlpg_def split: prod.split option.split)

lemma tables_for_spec:
  assumes inv: "vmm_inv s" and r: "tables_for v s = (res, s')"
  shows "quiet 3 s s'"
    and "res = Some t \<Longrightarrow> walk (memory s') (kernel_pml4 s') (page_path v) = Some t"
    and "res = None \<Longrightarrow> free_set s' = {}"
proof -
  obtain r1 s1 where n1: "next_table (kernel_pml4 s) (pml4_index v) s = (r1, s1)" by fastforce
  let ?p0 = "[] :: u64 list" and ?p1 = "[pml4_index v]" and ?p2 = "[pml4_index v, pdp_index v]"
  have len: "length ?p0 \<le> 2" "length ?p1 \<le> 2" "length ?p2 \<le> 2"
    and val: "valid_path ?p0" "valid_path ?p1" "valid_path ?p2"
    by (simp_all add: valid_path_def index_bounds)
  have w0: "walk (memory s) (kernel_pml4 s) [] = Some (kernel_pml4 s)"
    by simp
  note q1 = next_table_quiet [OF inv val(1) len(1) w0 index_bounds(1) n1, unfolded append_Nil append_Cons]
  have *: "quiet 3 s s' \<and> (\<forall>t. res = Some t \<longrightarrow> walk (memory s') (kernel_pml4 s') (page_path v) = Some t) \<and>
      (res = None \<longrightarrow> free_set s' = {})"
  proof (cases r1)
    case None
    then have "res = None" "s' = s1" using r n1 by (auto simp: tables_for_def)
    with None q1 show ?thesis by (auto simp: quiet_def)
  next
    case (Some pdp)
    obtain r2 s2 where n2: "next_table pdp (pdp_index v) s1 = (r2, s2)" by fastforce
    note q2 = next_table_quiet [OF quiet_inv [OF q1(1)] val(2) len(2) q1(2) [OF Some] index_bounds(2) n2,
        unfolded append_Nil append_Cons]
    show ?thesis
    proof (cases r2)
      case None
      then have "res = None" "s' = s2" using r n1 n2 Some by (auto simp: tables_for_def)
      with None q2 quiet_trans [OF q1(1) q2(1)] show ?thesis by (auto simp: quiet_def)
    next
      case (Some pd)
      have n3: "next_table pd (pd_index v) s2 = (res, s')"
        using r n1 n2 Some \<open>r1 = Some pdp\<close> by (simp add: tables_for_def)
      note q3 = next_table_quiet [OF quiet_inv [OF q2(1)] val(3) len(3) q2(2) [OF Some] index_bounds(3) n3,
          unfolded append_Nil append_Cons]
      have "quiet 3 s s'" using quiet_trans [OF quiet_trans [OF q1(1) q2(1)] q3(1)] by (simp add: numeral_eq_Suc)
      with q3(2,3) show ?thesis unfolding page_path_def by blast
    qed
  qed
  show "quiet 3 s s'" "res = Some t \<Longrightarrow> walk (memory s') (kernel_pml4 s') (page_path v) = Some t"
    "res = None \<Longrightarrow> free_set s' = {}" using * by blast+
qed


lemma map_page_spec:
  assumes inv: "vmm_inv s" and r: "vmm_map_page v p f s = (r, s')"
  shows "vmm_inv s'" and "r = 0 \<or> r = -1 \<and> free_set s' = {}"
    and "card (free_set s) \<le> 3 + card (free_set s')"
    and "valid_path q \<Longrightarrow> length q = 3 \<Longrightarrow> j < 512 \<Longrightarrow>
      leaf s' q j = (if r = 0 \<and> q = page_path v \<and> j = pt_index v
                     then p AND NOT 0xFFF OR ucast f else leaf s q j)"
proof -
  obtain res s1 where t: "tables_for v s = (res, s1)" by fastforce
  note q = tables_for_spec [OF inv t]
  have *: "vmm_inv s' \<and> (r = 0 \<or> r = -1 \<and> free_set s' = {}) \<and>
    card (free_set s) \<le> 3 + card (free_set s') \<and>
    (\<forall>q j. valid_path q \<longrightarrow> length q = 3 \<longrightarrow> j < 512 \<longrightarrow>
      leaf s' q j = (if r = 0 \<and> q = page_path v \<and> j = pt_index v
                     then p AND NOT 0xFFF OR ucast f else leaf s q j))"
  proof (cases res)
    case None
    then have "r = -1" "s' = s1" using r t by (auto simp: map_page_tables)
    with q(1) q(3) [OF None] show ?thesis by (auto simp: quiet_def)
  next
    case (Some pt)
    then have s': "r = 0" "s' = s1\<lparr>memory := set_entry pt (pt_index v) (p AND NOT 0xFFF OR ucast f) (memory s1)\<rparr>"
      using r t by (auto simp: map_page_tables)
    note l = set_leaf [OF quiet_inv [OF q(1)] valid_page_path q(2) [OF Some] index_bounds(4) s'(2)]
    show ?thesis using l q(1) s'(1) by (simp add: quiet_def)
  qed
  show "vmm_inv s'" "r = 0 \<or> r = -1 \<and> free_set s' = {}" "card (free_set s) \<le> 3 + card (free_set s')"
    "valid_path q \<Longrightarrow> length q = 3 \<Longrightarrow> j < 512 \<Longrightarrow>
      leaf s' q j = (if r = 0 \<and> q = page_path v \<and> j = pt_index v
                     then p AND NOT 0xFFF OR ucast f else leaf s q j)"
    using * by blast+
qed

lemma unmap_page_spec:
  assumes inv: "vmm_inv s"
  shows "vmm_inv (vmm_unmap_page v s)" and "free_set (vmm_unmap_page v s) = free_set s"
    and "valid_path q \<Longrightarrow> length q = 3 \<Longrightarrow> j < 512 \<Longrightarrow>
      leaf (vmm_unmap_page v s) q j = (if q = page_path v \<and> j = pt_index v then 0 else leaf s q j)"
proof -
  let ?s = "vmm_unmap_page v s"
  have *: "vmm_inv ?s \<and> free_set ?s = free_set s \<and>
    (\<forall>q j. valid_path q \<longrightarrow> length q = 3 \<longrightarrow> j < 512 \<longrightarrow>
      leaf ?s q j = (if q = page_path v \<and> j = pt_index v then 0 else leaf s q j))"
  proof (cases "walk (memory s) (kernel_pml4 s) (page_path v)")
    case None
    with inv show ?thesis
      by (auto simp: unmap_page_walk leaf_def)
  next
    case (Some t)
    then show ?thesis
      using set_leaf [OF inv valid_page_path Some index_bounds(4) refl] by (simp add: unmap_page_walk)
  qed
  show "vmm_inv ?s" "free_set ?s = free_set s"
    "valid_path q \<Longrightarrow> length q = 3 \<Longrightarrow> j < 512 \<Longrightarrow>
      leaf ?s q j = (if q = page_path v \<and> j = pt_index v then 0 else leaf s q j)"
    using * by blast+
qed

section \<open>Translations\<close>

lemma unat_index: "unat (drop_bit k v AND 0x1FF :: u64) = unat v div 2 ^ k mod 512"
proof -
  have "drop_bit k v AND 0x1FF = take_bit 9 (drop_bit k v)"
    by (simp add: take_bit_eq_mask mask_eq_exp_minus_1)
  then have "unat (drop_bit k v AND 0x1FF) = unat (drop_bit k v) mod 2 ^ 9"
    by (simp only: unat_take_bit)
  also have "unat (drop_bit k v) = unat v div 2 ^ k"
    by (subst unat_drop_bit_eq) (rule drop_bit_eq_div)
  finally show ?thesis
    by simp
qed

lemma same_page_path: "same_page v w \<longleftrightarrow> page_path v = page_path w \<and> pt_index v = pt_index w"
proof -
  have f: "(2 :: nat) ^ 36 = 512 * (512 * (512 * 512))"
    by simp
  have "unat v div 4096 div 512 = unat v div 2 ^ 21" "unat v div 4096 div 512 div 512 = unat v div 2 ^ 30"
    "unat v div 4096 div 512 div 512 div 512 = unat v div 2 ^ 39" for v :: u64
    by (simp_all add: div_mult2_eq [symmetric])
  then show ?thesis
    unfolding same_page_def f mod_mult_eq_iff
    by (auto simp: page_path_def pml4_index_def pdp_index_def pd_index_def pt_index_def
        word_unat_eq_iff unat_index)
qed

text \<open>Translation is a function of the leaf entry.\<close>

lemma get_physical_same:
  "leaf s' (page_path w) (pt_index w) = leaf s (page_path w) (pt_index w) \<Longrightarrow>
     vmm_get_physical w s' = vmm_get_physical w s"
  by (simp add: get_physical_leaf)

lemma flagged_entry:
  assumes f: "f AND PTE_PRESENT \<noteq> 0" "f AND NOT 0xFFF = 0"
  shows "present (entry_addr e OR ucast f)" and "entry_addr (entry_addr e OR ucast f) = entry_addr e"
proof -
  have "bit f 0"
    using f(1) by (simp add: PTE_PRESENT_def and_one_eq odd_iff_mod_2_eq_one bit_0)
  then have "bit (entry_addr e OR ucast f) 0"
    by (simp add: bit_or_iff bit_ucast_iff)
  then show "present (entry_addr e OR ucast f)"
    by (simp add: present_def PTE_PRESENT_def and_one_eq odd_iff_mod_2_eq_one bit_0)
  have "(ucast f :: u64) AND NOT 0xFFF = 0"
  proof (rule bit_word_eqI)
    fix n assume "n < LENGTH(64)"
    have "bit (f AND NOT 0xFFF) n = bit (0 :: u32) n"
      unfolding f(2) ..
    then show "bit ((ucast f :: u64) AND NOT 0xFFF) n = bit (0 :: u64) n"
      unfolding bit_and_iff bit_not_iff bit_ucast_iff by (auto dest: bit_imp_le_length)
  qed
  then show "entry_addr (entry_addr e OR ucast f) = entry_addr e"
    by (rule entry_addr_or [OF entry_addr_aligned])
qed


lemma get_physical_mapped:
  assumes "leaf s (page_path w) (pt_index w) = p AND NOT 0xFFF OR ucast f"
    and f: "f AND PTE_PRESENT \<noteq> 0" "f AND NOT 0xFFF = 0"
  shows "vmm_get_physical w s = p AND NOT 0xFFF OR (w AND 0xFFF)"
  using flagged_entry [OF f, of p] unfolding get_physical_leaf Let_def assms(1) entry_addr_def
  by (simp only: if_True)

text \<open>The loops of \<^verbatim>\<open>vmm_init\<close>.\<close>

lemma not_same_page:
  assumes "0 < i" and "i < 2 ^ 36"
  shows "\<not> same_page v (v + of_nat i * PAGE_SIZE)"
proof -
  let ?p = "unat v div 4096"
  have "(of_nat i * PAGE_SIZE :: u64) = of_nat (i * 4096)"
    by (simp add: PAGE_SIZE_eq)
  then have "unat (of_nat i * PAGE_SIZE :: u64) = i * 4096"
    using assms(2) by (simp only: unat_of_nat) simp
  then have "unat (v + of_nat i * PAGE_SIZE) = (unat v + i * 4096) mod 2 ^ 64"
    by (simp add: unat_word_ariths)
  then have "unat (v + of_nat i * PAGE_SIZE) div 4096 = (?p + i) mod 2 ^ 52"
    by (simp add: mod_mult2_eq [of _ 4096 "2 ^ 52", simplified] add.commute)
  then have "unat (v + of_nat i * PAGE_SIZE) div 4096 mod 2 ^ 36 = (?p + i) mod 2 ^ 36"
    by (simp add: mod_mod_cancel)
  moreover have "(?p + i) mod 2 ^ 36 \<noteq> ?p mod 2 ^ 36"
  proof
    assume "(?p + i) mod 2 ^ 36 = ?p mod 2 ^ 36"
    then have "2 ^ 36 dvd i"
      by (metis add_diff_cancel_left' mod_eq_dvd_iff_nat le_add1)
    with assms show False
      by (auto dest: dvd_imp_le)
  qed
  ultimately show ?thesis
    by (simp add: same_page_def)
qed


lemma pte_of_same: "same_page v w \<Longrightarrow> pte_of s v = pte_of s w"
  by (simp add: pte_of_def same_page_path)

lemma map_page_pte:
  assumes "vmm_inv s" and "vmm_map_page v p f s = (r, s')"
  shows "pte_of s' w = (if r = 0 \<and> same_page w v then p AND NOT 0xFFF OR ucast f else pte_of s w)"
  using map_page_spec(4) [OF assms valid_page_path index_bounds(4), of w w]
  unfolding pte_of_def same_page_path by presburger

lemma map_range_spec:
  assumes "vmm_inv s" and "k \<le> 2 ^ 36" and "map_range k virt phys f s = (r, s')"
  shows "vmm_inv s' \<and> (r = 0 \<or> r = -1 \<and> free_set s' = {}) \<and>
    (r = 0 \<longrightarrow>
      (\<forall>i<k. pte_of s' (virt + of_nat i * PAGE_SIZE) = (phys + of_nat i * PAGE_SIZE) AND NOT 0xFFF OR ucast f) \<and>
      (\<forall>w. (\<forall>i<k. \<not> same_page w (virt + of_nat i * PAGE_SIZE)) \<longrightarrow> pte_of s' w = pte_of s w))"
  using assms
proof (induction k arbitrary: virt phys s)
  case 0
  then show ?case by simp
next
  case (Suc k)
  obtain r1 s1 where m: "vmm_map_page virt phys f s = (r1, s1)" by fastforce
  note ms = map_page_spec(1,2) [OF Suc.prems(1) m] and pte = map_page_pte [OF Suc.prems(1) m]
  show ?case
  proof (cases "r1 = 0")
    case False
    with m ms Suc.prems(3) show ?thesis by auto
  next
    case True
    let ?v = "virt + PAGE_SIZE" and ?p = "phys + PAGE_SIZE"
    have shift: "x + PAGE_SIZE + of_nat i * PAGE_SIZE = x + of_nat (Suc i) * PAGE_SIZE" for x :: u64 and i
      by (simp add: algebra_simps)
    have "map_range k ?v ?p f s1 = (r, s')" using Suc.prems(3) m True by simp
    from Suc.IH [OF ms(1) _ this] Suc.prems(2)
    have IH: "vmm_inv s'" "r = 0 \<or> r = -1 \<and> free_set s' = {}"
      "r = 0 \<Longrightarrow> i < k \<Longrightarrow> pte_of s' (virt + of_nat (Suc i) * PAGE_SIZE) =
        (phys + of_nat (Suc i) * PAGE_SIZE) AND NOT 0xFFF OR ucast f"
      "r = 0 \<Longrightarrow> \<forall>i<k. \<not> same_page w (virt + of_nat (Suc i) * PAGE_SIZE) \<Longrightarrow> pte_of s' w = pte_of s1 w" for i w
      unfolding shift by (blast intro: Suc_leD)+
    have first: "pte_of s' virt = phys AND NOT 0xFFF OR ucast f" if "r = 0"
    proof -
      have "\<not> same_page virt (virt + of_nat (Suc i) * PAGE_SIZE)" if "i < k" for i
        using that Suc.prems(2) by (intro not_same_page) auto
      then have "pte_of s' virt = pte_of s1 virt" using IH(4) that by blast
      then show ?thesis using pte [of virt] True by (simp add: same_page_def)
    qed
    have "pte_of s' w = pte_of s w"
      if "r = 0" "\<forall>i<Suc k. \<not> same_page w (virt + of_nat i * PAGE_SIZE)" for w
    proof -
      have "\<not> same_page w virt" "\<forall>i<k. \<not> same_page w (virt + of_nat (Suc i) * PAGE_SIZE)"
        using that(2) by (auto dest: spec [of _ 0])
      then show ?thesis using IH(4) [OF that(1)] pte [of w] by simp
    qed
    moreover have "pte_of s' (virt + of_nat i * PAGE_SIZE) = (phys + of_nat i * PAGE_SIZE) AND NOT 0xFFF OR ucast f"
      if "r = 0" "i < Suc k" for i
      using that first IH(3) by (cases i) auto
    ultimately show ?thesis using IH(1,2) by blast
  qed
qed

section \<open>Initialisation\<close>

lemma root_frame [frame_simps]:
  "free_set (s\<lparr>kernel_pml4 := r, kernel_cr3 := c\<rparr>) = free_set s"
  "in_bitmap (s\<lparr>kernel_pml4 := r, kernel_cr3 := c\<rparr>) = in_bitmap s"
  "pmm_inv (s\<lparr>kernel_pml4 := r, kernel_cr3 := c\<rparr>) = pmm_inv s"
  "pmm_safe (s\<lparr>kernel_pml4 := r, kernel_cr3 := c\<rparr>) = pmm_safe s"
  by (simp_all add: free_set_def page_bit_def bitmap_byte_def in_bitmap_def pmm_inv_def pmm_count_def
      pmm_safe_def)

lemma walk_zero_page:
  assumes "a mod PAGE_SIZE = 0" and "\<forall>x. x div PAGE_SIZE = a div PAGE_SIZE \<longrightarrow> m x = 0"
    and "valid_path p" and "p \<noteq> []"
  shows "walk m a p = None"
proof (cases p)
  case (Cons i q)
  then have "i < 512" using assms(3) by (simp add: valid_path_def)
  then have "entry m a i = entry (\<lambda>_. 0) a i"
    using assms(1,2) by (intro entry_cong) auto
  with Cons show ?thesis by (simp add: entry_zero)
qed (use assms in simp)

lemma fresh_root:
  assumes ok: "pmm_inv s \<and> pmm_safe s" and al: "pmm_alloc_page s = (a, s1)" "a \<noteq> 0"
    and s2: "s2 = s1\<lparr>kernel_pml4 := a, kernel_cr3 := a, memory := memory_set a 0 PAGE_SIZE (memory s1)\<rparr>"
  shows "vmm_inv s2" and "pte_of s2 w = 0" and "free_set s2 = free_set s1"
proof -
  note new = pmm_frames.alloc_new [OF ok al]
  have "mem_fill a 0 PAGE_SIZE (memory s1) = memory s1"
    using new(1,4) by (auto simp: mem_fill_def in_aligned_page fun_eq_iff)
  then have e: "s2 = s1\<lparr>kernel_pml4 := a, kernel_cr3 := a\<rparr>"
    using al(2) by (simp add: s2 memory_set_fill)
  have z: "\<forall>x. x div PAGE_SIZE = a div PAGE_SIZE \<longrightarrow> memory s1 x = 0" using new(4) by blast
  note w = walk_zero_page [OF new(1) z]
  have "tables_ok (memory s1) a (held (free_set s1) (in_bitmap s1))"
    unfolding tables_ok_def using w new(1,3) by (metis option.distinct(1) option.inject walk.simps(1))
  then show "vmm_inv s2"
    using pmm_frames.alloc_ok [OF ok al(1)] by (simp add: e vmm_inv_def frame_simps)
  have "walk (memory s1) a (page_path w) = None"
    using w [OF valid_page_path(1) [of w]] by (simp add: page_path_def)
  then show "pte_of s2 w = 0" by (simp add: pte_of_def leaf_def e)
  show "free_set s2 = free_set s1" by (simp add: e frame_simps)
qed

lemma split_mask: "(v AND NOT m) OR (v AND m) = (v :: 'b::len word)"
  by (rule bit_word_eqI) (auto simp: bit_or_iff bit_and_iff bit_not_iff)

lemma unat_page_base: "unat (v div PAGE_SIZE * PAGE_SIZE :: u64) = unat v div 4096 * 4096"
proof -
  have "unat (v div PAGE_SIZE) * unat PAGE_SIZE < 2 ^ LENGTH(64)"
    using unat_less_2p64 [of v] by (simp add: unat_div_page_size unat_PAGE_SIZE)
  then have "unat (v div PAGE_SIZE * PAGE_SIZE) = unat (v div PAGE_SIZE) * unat PAGE_SIZE"
    by (simp only: unat_mult_lem)
  then show ?thesis
    by (simp add: unat_div_page_size unat_PAGE_SIZE)
qed

lemma page_base_addr: "v div PAGE_SIZE * PAGE_SIZE AND NOT 0xFFF = (v :: u64) AND NOT 0xFFF"
proof -
  have "unat (v div PAGE_SIZE * PAGE_SIZE AND NOT (2 ^ 12 - 1)) = unat (v AND NOT (2 ^ 12 - 1))"
    unfolding unat_and_not_mask unat_page_base by simp
  then show ?thesis
    unfolding low_bits_mask by (simp only: word_unat_eq_iff)
qed

lemma same_page_base: "same_page v (v div PAGE_SIZE * PAGE_SIZE)"
  by (simp add: same_page_def unat_page_base)

text \<open>A range mapped to consecutive frames translates linearly.\<close>

lemma translate_range:
  assumes b: "base mod PAGE_SIZE = 0" and n: "unat base + unat x < 2 ^ 64" and k: "unat x div 4096 < k"
    and pte: "\<forall>i<k. pte_of s (base + of_nat i * PAGE_SIZE) = of_nat i * PAGE_SIZE AND NOT 0xFFF OR ucast f"
    and f: "f AND PTE_PRESENT \<noteq> 0" "f AND NOT 0xFFF = 0"
  shows "vmm_get_physical (base + x) s = x"
proof -
  let ?i = "unat x div 4096"
  have i: "(of_nat ?i :: u64) = x div PAGE_SIZE"
    unfolding unat_div_page_size [symmetric] by simp
  have ux: "unat (base + x) = unat base + unat x"
    using n unat_add_lem [of base x] by simp
  have b4: "unat base mod 4096 = 0"
    using b by (simp add: word_unat_eq_iff [of _ 0] unat_mod unat_PAGE_SIZE)
  then obtain q where q: "unat base = 4096 * q"
    by (auto elim: dvdE)
  have "unat (base + x div PAGE_SIZE * PAGE_SIZE) = unat base + unat x div 4096 * 4096"
    using n unat_page_base [of x] by (subst unat_add_lem [THEN iffD1]) auto
  then have "unat (base + x) div 4096 = unat (base + x div PAGE_SIZE * PAGE_SIZE) div 4096"
    unfolding ux q by simp
  then have "same_page (base + x) (base + x div PAGE_SIZE * PAGE_SIZE)"
    by (simp add: same_page_def)
  then have "pte_of s (base + x) = pte_of s (base + x div PAGE_SIZE * PAGE_SIZE)"
    by (rule pte_of_same)
  also have "\<dots> = x div PAGE_SIZE * PAGE_SIZE AND NOT 0xFFF OR ucast f"
    using pte [rule_format, OF k] unfolding i .
  finally have "vmm_get_physical (base + x) s = x div PAGE_SIZE * PAGE_SIZE AND NOT 0xFFF OR ((base + x) AND 0xFFF)"
    unfolding pte_of_def by (rule get_physical_mapped [OF _ f])
  moreover have "(base + x) AND 0xFFF = x AND 0xFFF"
  proof -
    have "unat (take_bit 12 (base + x)) = unat (take_bit 12 x)"
      unfolding unat_take_bit ux using b4 by (simp add: mod_add_left_eq [symmetric])
    then have "take_bit 12 (base + x) = take_bit 12 x"
      by (simp only: word_unat_eq_iff)
    then show ?thesis
      by (simp add: take_bit_eq_mask mask_eq_exp_minus_1)
  qed
  ultimately show ?thesis
    unfolding page_base_addr by (simp only: split_mask)
qed

lemma kernel_pages_apart:
  assumes "x < 0x100000000" and "j < 65536"
  shows "\<not> same_page x (KERNEL_BASE + of_nat j * PAGE_SIZE)"
proof -
  have "(of_nat j * PAGE_SIZE :: u64) = of_nat (j * 4096)"
    by (simp add: PAGE_SIZE_eq)
  then have "unat (of_nat j * PAGE_SIZE :: u64) = j * 4096"
    using assms(2) by (simp only: unat_of_nat) simp
  moreover have "unat KERNEL_BASE = 0xFFFFFFFF80000000"
    by (simp add: KERNEL_BASE_def)
  ultimately have "unat (KERNEL_BASE + of_nat j * PAGE_SIZE) = 0xFFFFFFFF80000000 + j * 4096"
    using assms(2) unat_add_lem [of KERNEL_BASE "of_nat j * PAGE_SIZE"] by simp
  then have "unat (KERNEL_BASE + of_nat j * PAGE_SIZE) div 4096 = (0xFFFF80000 + j) + 0xFFFF * 2 ^ 36"
    by simp
  then have "unat (KERNEL_BASE + of_nat j * PAGE_SIZE) div 4096 mod 2 ^ 36 = 0xFFFF80000 + j"
    using assms(2) by (simp only: mod_mult_self1) simp
  moreover have "unat x div 4096 mod 2 ^ 36 < 2 ^ 20"
    using assms(1) by (simp add: word_less_nat_alt)
  ultimately show ?thesis
    by (simp add: same_page_def)
qed

lemma vmm_init_cases:
  assumes al: "pmm_alloc_page s = (a, s1)" "a \<noteq> 0"
    and s2: "s2 = s1\<lparr>kernel_pml4 := a, kernel_cr3 := a, memory := memory_set a 0 PAGE_SIZE (memory s1)\<rparr>"
    and m3: "map_range (2 ^ 20) 0 0 (PTE_PRESENT OR PTE_WRITABLE) s2 = (r3, s3)"
    and m4: "map_range (2 ^ 16) KERNEL_BASE 0 (PTE_PRESENT OR PTE_WRITABLE) s3 = (r4, s4)"
  shows "vmm_init s = (if r3 \<noteq> 0 then (-1, s3) else if r4 \<noteq> 0 then (-1, s4) else (0, s4))"
proof -
  have n: "unat (0x100000000 div PAGE_SIZE :: u64) = 2 ^ 20" "unat (0x10000000 div PAGE_SIZE :: u64) = 2 ^ 16"
    by (simp_all add: unat_div_page_size)
  show ?thesis
    unfolding vmm_init_def n al(1) prod.case Let_def if_not_P [OF al(2)] s2 [symmetric] m3
    by (simp only: prod.case m4 if_True if_False split: if_split)
qed

lemma identity_pages:
  assumes i2: "vmm_inv s2" and f: "f AND PTE_PRESENT \<noteq> 0" "f AND NOT 0xFFF = 0"
    and m3: "map_range (2 ^ 20) 0 0 f s2 = (0, s3)" and m4: "map_range (2 ^ 16) KERNEL_BASE 0 f s3 = (0, s4)"
  shows "v < 0x100000000 \<Longrightarrow> vmm_get_physical v s4 = v"
    and "x < 0x10000000 \<Longrightarrow> vmm_get_physical (KERNEL_BASE + x) s4 = x"
proof -
  have k: "(2 :: nat) ^ 20 \<le> 2 ^ 36" "(2 :: nat) ^ 16 \<le> 2 ^ 36" by simp_all
  note p3 = map_range_spec [OF i2 k(1) m3, unfolded add_0]
  then have i3: "vmm_inv s3" by blast
  note p4 = map_range_spec [OF i3 k(2) m4, unfolded add_0]
  have "pte_of s4 (of_nat i * PAGE_SIZE) = pte_of s3 (of_nat i * PAGE_SIZE)" if "i < 2 ^ 20" for i
  proof -
    have "(of_nat i * PAGE_SIZE :: u64) = of_nat (i * 4096)"
      by (simp add: PAGE_SIZE_eq)
    then have "unat (of_nat i * PAGE_SIZE :: u64) = i * 4096"
      using that by (simp only: unat_of_nat) simp
    then have "(of_nat i * PAGE_SIZE :: u64) < 0x100000000"
      using that by (simp add: word_less_nat_alt)
    then show ?thesis
      using p4 kernel_pages_apart by simp
  qed
  then have p: "\<forall>i<2 ^ 20. pte_of s4 (0 + of_nat i * PAGE_SIZE) = of_nat i * PAGE_SIZE AND NOT 0xFFF OR ucast f"
    using p3 by simp
  show "vmm_get_physical v s4 = v" if "v < 0x100000000"
    using translate_range [OF _ _ _ p f, of v] that unat_less_2p64 [of v] by (simp add: word_less_nat_alt)
  show "vmm_get_physical (KERNEL_BASE + x) s4 = x" if "x < 0x10000000"
    using translate_range [OF _ _ _ _ f, of KERNEL_BASE x "2 ^ 16" s4] p4 that
    by (simp add: word_less_nat_alt KERNEL_BASE_def PAGE_SIZE_eq)
qed

lemma vmm_init_spec:
  assumes ok: "pmm_inv s \<and> pmm_safe s" and r: "vmm_init s = (r, s')"
  shows "(r = 0 \<or> r = -1 \<and> free_set s' = {}) \<and> (r = 0 \<longrightarrow> vmm_inv s' \<and>
      (\<forall>v<0x100000000. vmm_get_physical v s' = v) \<and>
      (\<forall>x<0x10000000. vmm_get_physical (KERNEL_BASE + x) s' = x))"
proof -
  obtain a s1 where al: "pmm_alloc_page s = (a, s1)" by fastforce
  let ?f = "PTE_PRESENT OR PTE_WRITABLE"
  have f: "?f AND PTE_PRESENT \<noteq> 0" "?f AND NOT 0xFFF = 0"
    by (simp_all add: PTE_PRESENT_def PTE_WRITABLE_def)
  have k: "(2 :: nat) ^ 20 \<le> 2 ^ 36" "(2 :: nat) ^ 16 \<le> 2 ^ 36" by simp_all
  show ?thesis
  proof (cases "a = 0")
    case True
    then have "free_set s = {}" "s1 = s"
      using pmm_frames.alloc_zero_iff [OF ok al] pmm_frames.exhausted [OF ok] al by auto
    then show ?thesis using r al True by (simp add: vmm_init_def)
  next
    case False
    define s2 where "s2 = s1\<lparr>kernel_pml4 := a, kernel_cr3 := a, memory := memory_set a 0 PAGE_SIZE (memory s1)\<rparr>"
    have i2: "vmm_inv s2" by (rule fresh_root [OF ok al False s2_def])
    obtain r3 s3 where m3: "map_range (2 ^ 20) 0 0 ?f s2 = (r3, s3)" by fastforce
    obtain r4 s4 where m4: "map_range (2 ^ 16) KERNEL_BASE 0 ?f s3 = (r4, s4)" by fastforce
    note res = vmm_init_cases [OF al False s2_def m3 m4]
    note p3 = map_range_spec [OF i2 k(1) m3]
    then have i3: "vmm_inv s3" by blast
    note p4 = map_range_spec [OF i3 k(2) m4]
    show ?thesis
    proof (cases "r3 = 0 \<and> r4 = 0")
      case False
      then have "r = -1 \<and> free_set s' = {}"
        using res r p3 p4 by (simp split: if_splits)
      then show ?thesis by simp
    next
      case True
      then have "r = 0" "s' = s4" using res r by simp_all
      moreover note identity_pages [OF i2 f] m3 m4 True
      ultimately show ?thesis using p4 by simp
    qed
  qed
qed

section \<open>Changing protection\<close>

lemma pte_of_walk:
  "present (pte_of s v) \<Longrightarrow> \<exists>t. walk (memory s) (kernel_pml4 s) (page_path v) = Some t"
  by (auto simp: pte_of_def leaf_def split: option.splits)

lemma get_physical_pte:
  "vmm_get_physical v s = (if present (pte_of s v) then entry_addr (pte_of s v) OR (v AND 0xFFF) else 0)"
  by (simp add: get_physical_leaf pte_of_def Let_def)

lemma map_existing:
  assumes "walk (memory s) (kernel_pml4 s) (page_path v) = Some t"
  shows "vmm_map_page v p f s =
    (0, s\<lparr>memory := set_entry t (pt_index v) (p AND NOT 0xFFF OR ucast f) (memory s)\<rparr>)"
proof -
  have "tables_for v s = (Some t, s)"
    using assms by (simp add: tables_for_def page_path_def next_table_def split: if_splits)
  then show ?thesis by (simp add: map_page_tables)
qed

lemma unmap_page_pte:
  assumes "vmm_inv s"
  shows "pte_of (vmm_unmap_page v s) w = (if same_page w v then 0 else pte_of s w)"
  unfolding pte_of_def same_page_path
  by (rule unmap_page_spec(3) [OF assms valid_page_path index_bounds(4)])

lemma unmap_keeps_walk:
  assumes "vmm_inv s" and "valid_path q"
  shows "walk (memory (vmm_unmap_page v s)) (kernel_pml4 (vmm_unmap_page v s)) q =
    walk (memory s) (kernel_pml4 s) q"
  using assms walk_set_leaf [OF _ valid_page_path _ index_bounds(4) assms(2)]
  by (auto simp: unmap_page_walk vmm_inv_def split: option.split)

lemma page_parts:
  "(entry_addr e OR (v AND 0xFFF)) AND NOT 0xFFF = entry_addr e"
proof -
  have "(v AND m) AND NOT m = 0" "(e AND NOT m) AND NOT m = e AND NOT m" for m
    by (rule bit_word_eqI; auto simp: bit_and_iff bit_not_iff)+
  then show ?thesis
    unfolding entry_addr_def bit.conj_disj_distrib2 by (simp only: or.right_neutral)
qed

text \<open>One round of the loop, on a page that is mapped.\<close>

lemma protect_page:
  assumes inv: "vmm_inv s" and p: "vmm_get_physical v s \<noteq> 0"
    and r: "vmm_map_page v (vmm_get_physical v s) f (vmm_unmap_page v s) = (r, s')"
  shows "r = 0" and "vmm_inv s'"
    and "pte_of s' w = (if same_page w v then entry_addr (pte_of s w) OR ucast f else pte_of s w)"
proof -
  have pr: "present (pte_of s v)" using p by (auto simp: get_physical_pte split: if_splits)
  then obtain t where "walk (memory s) (kernel_pml4 s) (page_path v) = Some t" using pte_of_walk by blast
  then have "walk (memory (vmm_unmap_page v s)) (kernel_pml4 (vmm_unmap_page v s)) (page_path v) = Some t"
    using unmap_keeps_walk [OF inv valid_page_path(1)] by simp
  from map_existing [OF this] r show "r = 0" by simp
  note iu = unmap_page_spec(1) [OF inv, of v]
  show "vmm_inv s'" by (rule map_page_spec(1) [OF iu r])
  have "vmm_get_physical v s AND NOT 0xFFF = entry_addr (pte_of s v)"
    using pr by (simp only: get_physical_pte if_True page_parts)
  then show "pte_of s' w = (if same_page w v then entry_addr (pte_of s w) OR ucast f else pte_of s w)"
    using map_page_pte [OF iu r, of w] unmap_page_pte [OF inv, of v w] \<open>r = 0\<close> pte_of_same [of w v s] by simp
qed


lemma reflag_get_physical:
  assumes "reflag f s s'" and f: "f AND PTE_PRESENT \<noteq> 0" "f AND NOT 0xFFF = 0"
  shows "vmm_get_physical w s' = vmm_get_physical w s" and "entry_addr (pte_of s' w) = entry_addr (pte_of s w)"
  using assms(1) flagged_entry [OF f, of "pte_of s w"] unfolding reflag_def get_physical_pte
  by (metis (no_types))+

lemma reflag_trans:
  assumes "reflag f s s1" and "reflag f s1 s2" and f: "f AND PTE_PRESENT \<noteq> 0" "f AND NOT 0xFFF = 0"
  shows "reflag f s s2"
  using assms(1,2) flagged_entry [OF f] unfolding reflag_def by (metis (no_types))

lemma protect_round:
  assumes inv: "vmm_inv s" and lt: "addr < e"
  shows "\<exists>s1. vmm_inv s1 \<and> reflag f s s1 \<and>
    (vmm_get_physical addr s \<noteq> 0 \<longrightarrow> pte_of s1 addr = entry_addr (pte_of s addr) OR ucast f) \<and>
    protect_loop addr e f s = protect_loop (addr + PAGE_SIZE) e f s1"
proof (cases "vmm_get_physical addr s = 0")
  case True
  with inv lt show ?thesis
    by (intro exI [of _ s]) (simp add: protect_loop.simps [of addr] reflag_def)
next
  case False
  obtain r s1 where m: "vmm_map_page addr (vmm_get_physical addr s) f (vmm_unmap_page addr s) = (r, s1)"
    by fastforce
  note pp = protect_page [OF inv False m]
  have "present (pte_of s addr)"
    using False by (auto simp: get_physical_pte split: if_splits)
  then have "reflag f s s1"
    using pp(3) pte_of_same [of _ addr s] by (auto simp: reflag_def)
  moreover have "pte_of s1 addr = entry_addr (pte_of s addr) OR ucast f"
    using pp(3) [of addr] by (simp add: same_page_def)
  ultimately show ?thesis
    using pp(1,2) m False lt by (intro exI [of _ s1]) (simp add: protect_loop.simps [of addr])
qed

text \<open>
  The loop over \<open>k\<close> pages: it returns, never fails, and leaves every translation as it was; the
  mapped pages of the range carry the new flags.
\<close>

lemma protect_loop_spec:
  assumes "vmm_inv s" and "unat addr + k * 4096 < 2 ^ 64" and f: "f AND PTE_PRESENT \<noteq> 0" "f AND NOT 0xFFF = 0"
  shows "\<exists>s'. protect_loop addr (addr + of_nat k * PAGE_SIZE) f s = Some (0, s') \<and> vmm_inv s' \<and> reflag f s s' \<and>
    (\<forall>i<k. vmm_get_physical (addr + of_nat i * PAGE_SIZE) s \<noteq> 0 \<longrightarrow>
       pte_of s' (addr + of_nat i * PAGE_SIZE) = entry_addr (pte_of s (addr + of_nat i * PAGE_SIZE)) OR ucast f)"
  using assms(1,2)
proof (induction k arbitrary: addr s)
  case 0
  then show ?case by (auto simp: protect_loop.simps reflag_def)
next
  case (Suc k)
  let ?n = "addr + PAGE_SIZE" and ?e = "addr + of_nat (Suc k) * PAGE_SIZE"
  have "(of_nat (Suc k) * PAGE_SIZE :: u64) = of_nat (Suc k * 4096)"
    by (simp add: PAGE_SIZE_eq)
  then have "unat (of_nat (Suc k) * PAGE_SIZE :: u64) = Suc k * 4096"
    using Suc.prems(2) by (simp only: unat_of_nat) simp
  then have "unat ?e = unat addr + Suc k * 4096"
    using Suc.prems(2) unat_add_lem [of addr "of_nat (Suc k) * PAGE_SIZE"] by simp
  then have lt: "addr < ?e" by (simp add: word_less_nat_alt)
  have "unat ?n = unat addr + 4096"
    using Suc.prems(2) unat_add_lem [of addr PAGE_SIZE] by (simp add: unat_PAGE_SIZE)
  then have un: "unat ?n + k * 4096 < 2 ^ 64" using Suc.prems(2) by simp
  have shift: "?n + of_nat i * PAGE_SIZE = addr + of_nat (Suc i) * PAGE_SIZE" for i by (simp add: algebra_simps)
  obtain s1 where s1: "vmm_inv s1" "reflag f s s1"
      "vmm_get_physical addr s \<noteq> 0 \<Longrightarrow> pte_of s1 addr = entry_addr (pte_of s addr) OR ucast f"
      "protect_loop addr ?e f s = protect_loop ?n ?e f s1"
    using protect_round [OF Suc.prems(1) lt] by blast
  from Suc.IH [OF s1(1) un] obtain s' where s': "protect_loop ?n ?e f s1 = Some (0, s')" "vmm_inv s'" "reflag f s1 s'"
    "\<And>i. i < k \<Longrightarrow> vmm_get_physical (addr + of_nat (Suc i) * PAGE_SIZE) s1 \<noteq> 0 \<Longrightarrow>
       pte_of s' (addr + of_nat (Suc i) * PAGE_SIZE) = entry_addr (pte_of s1 (addr + of_nat (Suc i) * PAGE_SIZE)) OR ucast f"
    unfolding shift by blast
  note g1 = reflag_get_physical [OF s1(2) f]
  have "pte_of s' (addr + of_nat i * PAGE_SIZE) = entry_addr (pte_of s (addr + of_nat i * PAGE_SIZE)) OR ucast f"
    if i: "i < Suc k" "vmm_get_physical (addr + of_nat i * PAGE_SIZE) s \<noteq> 0" for i
  proof (cases i)
    case 0
    then have "pte_of s1 addr = entry_addr (pte_of s addr) OR ucast f" using i s1(3) by simp
    moreover have "pte_of s' addr = pte_of s1 addr \<or> pte_of s' addr = entry_addr (pte_of s1 addr) OR ucast f"
      using s'(3) unfolding reflag_def by blast
    ultimately show ?thesis using 0 g1(2) [of addr] by auto
  next
    case (Suc j)
    then show ?thesis using s'(4) [of j] i g1 by simp
  qed
  then show ?case
    using s1(4) s'(1,2) reflag_trans [OF s1(2) s'(3) f] by auto
qed


lemma vmm_protect_spec:
  assumes inv: "vmm_inv s" and f: "f AND PTE_PRESENT \<noteq> 0" "f AND NOT 0xFFF = 0"
  shows "\<exists>s'. vmm_protect start sz f s = Some (0, s') \<and> vmm_inv s' \<and> reflag f s s' \<and>
    (unat start + unat sz + 4095 < 2 ^ 64 \<longrightarrow>
      (\<forall>w. start \<le> w \<longrightarrow> w < start + sz \<longrightarrow> vmm_get_physical (w div PAGE_SIZE * PAGE_SIZE) s \<noteq> 0 \<longrightarrow>
        pte_of s' w = entry_addr (pte_of s w) OR ucast f))"
proof -
  define a where "a = start AND NOT 0xFFF"
  define e where "e = (start + sz + 0xFFF) AND NOT 0xFFF"
  have ua: "unat a = unat start div 4096 * 4096" and ue: "unat e = unat (start + sz + 0xFFF) div 4096 * 4096"
    unfolding a_def e_def low_bits_mask unat_and_not_mask by simp_all
  have p: "vmm_protect start sz f s = protect_loop a e f s"
    by (simp add: vmm_protect_def Let_def a_def e_def)
  have cover: "unat a \<le> unat w \<and> unat w < unat e"
    if "unat start + unat sz + 4095 < 2 ^ 64" "start \<le> w" "w < start + sz" for w
  proof -
    have "unat (start + sz) = unat start + unat sz"
      using that(1) unat_add_lem [of start sz] by simp
    moreover from this have "unat (start + sz + 0xFFF) = unat start + unat sz + 4095"
      using that(1) unat_add_lem [of "start + sz" "0xFFF"] by simp
    moreover have "n \<le> (n + 4095) div 4096 * 4096" "n div 4096 * 4096 \<le> n" for n :: nat
      using round_up_bounds(1) [of 4096 n] by simp_all
    ultimately show ?thesis
      using that(2,3) unfolding ua ue word_le_nat_alt word_less_nat_alt
      by (simp only:) (meson le_trans less_le_trans)
  qed
  show ?thesis
  proof (cases "a < e")
    case False
    then have "vmm_protect start sz f s = Some (0, s)"
      by (simp add: p protect_loop.simps)
    then show ?thesis
      using inv cover False by (intro exI [of _ s]) (force simp: reflag_def word_less_nat_alt)
  next
    case True
    define k where "k = (unat e - unat a) div 4096"
    have k: "unat e = unat a + k * 4096"
      using True unfolding k_def ua ue word_less_nat_alt by (simp add: diff_mult_distrib [symmetric])
    then have ek: "e = a + of_nat k * PAGE_SIZE"
      using unat_less_2p64 [of e]
      by (simp add: word_unat_eq_iff unat_word_ariths unat_of_nat unat_PAGE_SIZE mod_simps)
    from protect_loop_spec [OF inv _ f, of a k] k unat_less_2p64 [of e]
    obtain s' where s': "protect_loop a e f s = Some (0, s')" "vmm_inv s'" "reflag f s s'"
      "\<And>i. i < k \<Longrightarrow> vmm_get_physical (a + of_nat i * PAGE_SIZE) s \<noteq> 0 \<Longrightarrow>
         pte_of s' (a + of_nat i * PAGE_SIZE) = entry_addr (pte_of s (a + of_nat i * PAGE_SIZE)) OR ucast f"
      unfolding ek by auto
    have "pte_of s' w = entry_addr (pte_of s w) OR ucast f"
      if nw: "unat start + unat sz + 4095 < 2 ^ 64" and w: "start \<le> w" "w < start + sz"
        "vmm_get_physical (w div PAGE_SIZE * PAGE_SIZE) s \<noteq> 0" for w
    proof -
      define i where "i = unat w div 4096 - unat a div 4096"
      have "unat a div 4096 \<le> unat w div 4096" "unat w div 4096 < unat a div 4096 + k"
        using cover [OF nw w(1,2)] k ua by (auto simp: div_le_mono)
      then have i: "i < k" "unat a + i * 4096 = unat w div 4096 * 4096"
        using ua by (auto simp: i_def diff_mult_distrib)
      then have "a + of_nat i * PAGE_SIZE = w div PAGE_SIZE * PAGE_SIZE"
        using unat_less_2p64 [of w]
        by (simp add: word_unat_eq_iff unat_page_base) (simp add: unat_word_ariths unat_of_nat unat_PAGE_SIZE mod_simps)
      then show ?thesis
        using s'(4) [OF i(1)] w(3) pte_of_same [OF same_page_base, of s w] pte_of_same [OF same_page_base, of s' w] by simp
    qed
    with s' show ?thesis unfolding p by blast
  qed
qed

section \<open>A small address space\<close>

text \<open>A machine with sixteen pages whose root table has just been set up.\<close>

definition vmm_boot :: vmm where
  "vmm_boot = pmm.extend pmm_boot \<lparr>kernel_pml4 = 0, kernel_cr3 = 0, vm_area_count = 0\<rparr>"

definition sixteen_pages :: memory_region where
  "sixteen_pages = low_region\<lparr>region_end := 0x11000, region_size := 0x10000\<rparr>"

definition vmm_small0 :: vmm where
  "vmm_small0 = snd (pmm_init (Some [sixteen_pages]) vmm_boot)"

definition vmm_small :: vmm where
  "vmm_small =
     (case pmm_alloc_page vmm_small0 of
        (a, s) \<Rightarrow> s\<lparr>kernel_pml4 := a, kernel_cr3 := a, memory := memory_set a 0 PAGE_SIZE (memory s)\<rparr>)"

lemma vmm_small0_ok: "pmm_inv vmm_small0" "pmm_safe vmm_small0" "{1, 2, 3, 4, 5} \<subseteq> free_set vmm_small0"
proof -
  obtain r where r: "pmm_init (Some [sixteen_pages]) vmm_boot = (r, vmm_small0)"
    unfolding vmm_small0_def by (metis prod.collapse)
  note ok = pmm_init_ok [OF _ r]
  have t: "total_pages vmm_small0 = 16"
    using ok(4) by (simp add: available_memory_def sixteen_pages_def low_region_def MEMORY_TYPE_AVAILABLE_def PAGE_SIZE_eq)
  have "region_pages sixteen_pages = {p. 1 \<le> p \<and> p < 17}"
    by (simp add: region_pages_def sixteen_pages_def low_region_def PAGE_SIZE_eq)
  then have fs: "free_set vmm_small0 = {p. 1 \<le> p \<and> p < 16}"
    using ok(5) t by (auto simp: word_less_nat_alt)
  show inv: "pmm_inv vmm_small0" using ok(2) by simp
  show "{1, 2, 3, 4, 5} \<subseteq> free_set vmm_small0" by (simp add: fs)
  have b: "bitmap_size vmm_small0 = 2" "page_bitmap vmm_small0 = 0x100000"
    using inv t ok(3) by (simp_all add: pmm_inv_def pmm_count_def)
  have "disjoint_regions (p * PAGE_SIZE) PAGE_SIZE 0x100000 2" if "p < 16" for p
  proof -
    have "unat (p * PAGE_SIZE) = unat p * 4096"
      using that unat_mult_lem [of p PAGE_SIZE] by (simp add: word_less_nat_alt unat_PAGE_SIZE)
    then show ?thesis
      using that unfolding disjoint_regions_def word_le_nat_alt word_less_nat_alt unat_sub_if'
      by (simp add: unat_PAGE_SIZE)
  qed
  then show "pmm_safe vmm_small0" by (simp add: pmm_safe_def fs b)
qed

lemma vmm_small_ok: "vmm_inv vmm_small" "pte_of vmm_small w = 0" "4 \<le> card (free_set vmm_small)"
proof -
  obtain a s1 where al: "pmm_alloc_page vmm_small0 = (a, s1)" by fastforce
  have ok: "pmm_inv vmm_small0 \<and> pmm_safe vmm_small0" using vmm_small0_ok by simp
  have ne: "free_set vmm_small0 \<noteq> {}" using vmm_small0_ok(3) by auto
  then have a: "a \<noteq> 0" using pmm_frames.alloc_zero_iff [OF ok al] by simp
  have s: "vmm_small = s1\<lparr>kernel_pml4 := a, kernel_cr3 := a, memory := memory_set a 0 PAGE_SIZE (memory s1)\<rparr>"
    by (simp add: vmm_small_def al)
  note root = fresh_root [OF ok al a s]
  show "vmm_inv vmm_small" "pte_of vmm_small w = 0" by (fact root)+
  have "free_set vmm_small = free_set vmm_small0 - {a div PAGE_SIZE}"
    using root(3) pmm_frames.fresh [OF ok ne al] by simp
  then have "{1, 2, 3, 4, 5} - {a div PAGE_SIZE} \<subseteq> free_set vmm_small"
    using vmm_small0_ok(3) by auto
  then have "card ({1, 2, 3, 4, 5} - {a div PAGE_SIZE}) \<le> card (free_set vmm_small)"
    by (rule card_mono [OF finite_free_set])
  then show "4 \<le> card (free_set vmm_small)"
    by (simp add: card_Diff_singleton_if split: if_splits)
qed


lemma vmm_small_map: "fst (vmm_map_page v p f vmm_small) = 0"
proof -
  obtain r s' where m: "vmm_map_page v p f vmm_small = (r, s')" by fastforce
  show ?thesis
    using map_page_spec(2,3) [OF vmm_small_ok(1) m] vmm_small_ok(3) m by auto
qed

section \<open>Properties\<close>

text \<open>
  C3: after \<^verbatim>\<open>vmm_map_page\<close> succeeds with a present flag and no bits beyond the low twelve in
  the flags, every address of that page translates to the same offset in the physical page, and
  every other address translates as before. Pages are the same when bits 12 to 47 agree. The
  page tables stay a tree of distinct frames that the page allocator will not hand out.
\<close>

theorem vmm_map_page_translates:
  assumes "vmm_inv s" and "vmm_map_page v p f s = (0, s')"
    and "f AND PTE_PRESENT \<noteq> 0" and "f AND NOT 0xFFF = 0"
  shows "vmm_inv s' \<and>
    (\<forall>w. vmm_get_physical w s' =
         (if same_page w v then p AND NOT 0xFFF OR (w AND 0xFFF) else vmm_get_physical w s))"
proof -
  have "vmm_get_physical w s' =
      (if same_page w v then p AND NOT 0xFFF OR (w AND 0xFFF) else vmm_get_physical w s)" for w
  proof (cases "same_page w v")
    case True
    then have "leaf s' (page_path w) (pt_index w) = p AND NOT 0xFFF OR ucast f"
      using map_page_pte [OF assms(1,2), of w] by (simp add: pte_of_def)
    with True show ?thesis
      using get_physical_mapped [OF _ assms(3,4)] by simp
  next
    case False
    with map_page_pte [OF assms(1,2), of w] show ?thesis
      by (simp add: get_physical_pte)
  qed
  with map_page_spec(1) [OF assms(1,2)] show ?thesis
    by blast
qed

lemma vmm_map_page_translates_witness:
  "vmm_get_physical 0x12345678 (snd (vmm_map_page 0x12345000 0x7000 3 vmm_small)) = 0x7678"
proof -
  have "vmm_map_page 0x12345000 0x7000 3 vmm_small = (0, snd (vmm_map_page 0x12345000 0x7000 3 vmm_small))"
    using vmm_small_map by (metis prod.collapse)
  from vmm_map_page_translates [OF vmm_small_ok(1) this] show ?thesis
    by (simp add: PTE_PRESENT_def same_page_def)
qed



text \<open>
  C36: after \<^verbatim>\<open>vmm_unmap_page\<close> the page has no translation, every other address translates as
  before, no page becomes free, and the invariant is kept.
\<close>

theorem vmm_unmap_page_correct:
  assumes "vmm_inv s"
  shows "vmm_inv (vmm_unmap_page v s) \<and> free_set (vmm_unmap_page v s) = free_set s \<and>
    (\<forall>w. vmm_get_physical w (vmm_unmap_page v s) =
         (if same_page w v then 0 else vmm_get_physical w s))"
  using unmap_page_spec(1,2) [OF assms] unmap_page_pte [OF assms] by (simp add: get_physical_pte)

lemma vmm_unmap_page_correct_witness:
  "vmm_get_physical 0x5678 (vmm_unmap_page 0x5000 vmm_small) = 0"
  using vmm_unmap_page_correct [OF vmm_small_ok(1), where v = "0x5000"] by (simp add: same_page_def)





end
