(* ===== verification/Heap.thy ===== *)
theory Heap
  imports Vmm
begin

text \<open>
  The kernel heap, \<^verbatim>\<open>kernel/mm/heap.c\<close>: a doubly linked list of blocks, each with a 40-byte header
  in memory, that tiles the heap region. Header fields are read and written at the offsets the
  compiler gives \<^verbatim>\<open>struct heap_block\<close>: the size at 0, the flag (a 32-bit enumeration) at 8, the links at
  16 and 24, the magic number at 32.

  The loops over the list follow pointers found in memory, so they are partial functions
  whose result \<open>None\<close> means that the loop does not end. The invariant \<open>heap_inv\<close> relates the state to
  a list of block sizes and flags; under it every operation returns.

  The abstract view is \<open>live_objects\<close>, the set of objects handed out with their capacities:
  \<^verbatim>\<open>kmalloc\<close> adds one object that overlaps no other, \<^verbatim>\<open>kfree\<close> removes one, and neither touches the
  bytes of the others. The locale \<open>object_allocator\<close> states this contract for the components above.
\<close>

unbundle bit_operations_syntax

section \<open>State\<close>

record heap = vmm +
  heap_start :: u64
  heap_end :: u64
  heap_size :: u64
  heap_used :: u64
  heap_free :: u64
  heap_first :: u64
  heap_allocations :: u32
  heap_frees :: u32

definition HEAP_MAGIC :: u32 where
  "HEAP_MAGIC = 0xDEADBEEF"

definition HEAP_BLOCK_HEADER_SIZE :: u64 where
  "HEAP_BLOCK_HEADER_SIZE = 40"

definition HEAP_MIN_BLOCK_SIZE :: u64 where
  "HEAP_MIN_BLOCK_SIZE = 64"

definition HEAP_ALIGNMENT :: u64 where
  "HEAP_ALIGNMENT = 16"

text \<open>The fields of the block header at \<open>b\<close>.\<close>

definition blk_size :: "mem \<Rightarrow> u64 \<Rightarrow> u64" where
  "blk_size m b = load64 m b"

definition blk_allocated :: "mem \<Rightarrow> u64 \<Rightarrow> bool" where
  "blk_allocated m b \<longleftrightarrow> load32 m (b + 8) \<noteq> 0"

definition blk_next :: "mem \<Rightarrow> u64 \<Rightarrow> u64" where
  "blk_next m b = load64 m (b + 16)"

definition blk_prev :: "mem \<Rightarrow> u64 \<Rightarrow> u64" where
  "blk_prev m b = load64 m (b + 24)"

definition blk_magic :: "mem \<Rightarrow> u64 \<Rightarrow> u32" where
  "blk_magic m b = load32 m (b + 32)"

definition set_size :: "u64 \<Rightarrow> u64 \<Rightarrow> mem \<Rightarrow> mem" where
  "set_size b v = store64 b v"

definition set_allocated :: "u64 \<Rightarrow> bool \<Rightarrow> mem \<Rightarrow> mem" where
  "set_allocated b v = store32 (b + 8) (if v then 1 else 0)"

definition set_next :: "u64 \<Rightarrow> u64 \<Rightarrow> mem \<Rightarrow> mem" where
  "set_next b v = store64 (b + 16) v"

definition set_prev :: "u64 \<Rightarrow> u64 \<Rightarrow> mem \<Rightarrow> mem" where
  "set_prev b v = store64 (b + 24) v"

definition set_magic :: "u64 \<Rightarrow> u32 \<Rightarrow> mem \<Rightarrow> mem" where
  "set_magic b v = store32 (b + 32) v"

section \<open>Operations\<close>

definition heap_init :: "u64 \<Rightarrow> u64 \<Rightarrow> 'a heap_scheme \<Rightarrow> int \<times> 'a heap_scheme" where
  "heap_init start initial_size s =
     (let initial_size = (if initial_size < PAGE_SIZE then PAGE_SIZE else initial_size);
          initial_size = (initial_size + PAGE_SIZE - 1) AND NOT (PAGE_SIZE - 1);
          s = s\<lparr>heap_start := start, heap_end := start + initial_size, heap_size := initial_size,
                heap_used := 0, heap_free := initial_size, heap_allocations := 0, heap_frees := 0,
                heap_first := start\<rparr>;
          m = set_size start initial_size (memory s);
          m = set_allocated start False m;
          m = set_next start 0 m;
          m = set_prev start 0 m;
          m = set_magic start HEAP_MAGIC m
      in (0, s\<lparr>memory := m\<rparr>))"

partial_function (option) find_free_from :: "u64 \<Rightarrow> u64 \<Rightarrow> mem \<Rightarrow> u64 option" where
  "find_free_from block sz m =
     (if block = 0 then Some 0
      else if \<not> blk_allocated m block \<and> sz \<le> blk_size m block then Some block
      else find_free_from (blk_next m block) sz m)"

definition find_free_block :: "u64 \<Rightarrow> 'a heap_scheme \<Rightarrow> u64 option" where
  "find_free_block sz s = find_free_from (heap_first s) sz (memory s)"

definition split_block :: "u64 \<Rightarrow> u64 \<Rightarrow> mem \<Rightarrow> mem" where
  "split_block block sz m =
     (if blk_size m block \<le> sz + HEAP_MIN_BLOCK_SIZE then m
      else
        let new_block = block + sz;
            m = set_size new_block (blk_size m block - sz) m;
            m = set_allocated new_block False m;
            m = set_next new_block (blk_next m block) m;
            m = set_prev new_block block m;
            m = set_magic new_block HEAP_MAGIC m;
            m = (if blk_next m block \<noteq> 0 then set_prev (blk_next m block) new_block m else m);
            m = set_next block new_block m
        in set_size block sz m)"

partial_function (option) merge_next :: "u64 \<Rightarrow> mem \<Rightarrow> mem option" where
  "merge_next block m =
     (if blk_next m block \<noteq> 0 \<and> \<not> blk_allocated m (blk_next m block) then
        let next = blk_next m block;
            m = set_size block (blk_size m block + blk_size m next) m;
            m = set_next block (blk_next m next) m;
            m = (if blk_next m next \<noteq> 0 then set_prev (blk_next m next) block m else m)
        in merge_next block m
      else Some m)"

partial_function (option) merge_prev :: "u64 \<Rightarrow> mem \<Rightarrow> mem option" where
  "merge_prev block m =
     (if blk_prev m block \<noteq> 0 \<and> \<not> blk_allocated m (blk_prev m block) then
        let prev = blk_prev m block;
            m = set_size prev (blk_size m prev + blk_size m block) m;
            m = set_next prev (blk_next m block) m;
            m = (if blk_next m block \<noteq> 0 then set_prev (blk_next m block) prev m else m)
        in merge_prev prev m
      else Some m)"

definition merge_blocks :: "u64 \<Rightarrow> mem \<Rightarrow> mem option" where
  "merge_blocks block m = (case merge_next block m of None \<Rightarrow> None | Some m \<Rightarrow> merge_prev block m)"

definition is_valid_block :: "u64 \<Rightarrow> 'a heap_scheme \<Rightarrow> bool" where
  "is_valid_block block s =
     (if block = 0 then False
      else if blk_magic (memory s) block \<noteq> HEAP_MAGIC then False
      else if block < heap_start s \<or> heap_end s \<le> block then False
      else True)"

definition kmalloc :: "u64 \<Rightarrow> 'a heap_scheme \<Rightarrow> (u64 \<times> 'a heap_scheme) option" where
  "kmalloc sz s =
     (if sz = 0 then Some (0, s)
      else
        let sz = (sz + HEAP_ALIGNMENT - 1) AND NOT (HEAP_ALIGNMENT - 1);
            total_size = sz + HEAP_BLOCK_HEADER_SIZE
        in (case find_free_block total_size s of
              None \<Rightarrow> None
            | Some block \<Rightarrow>
                if block = 0 then Some (0, s)
                else
                  let m = memory s;
                      m = (if total_size + HEAP_MIN_BLOCK_SIZE < blk_size m block
                           then split_block block total_size m else m);
                      m = set_allocated block True m;
                      s = s\<lparr>memory := m,
                            heap_used := heap_used s + blk_size m block,
                            heap_free := heap_free s - blk_size m block,
                            heap_allocations := heap_allocations s + 1\<rparr>
                  in Some (block + HEAP_BLOCK_HEADER_SIZE, s)))"

definition kcalloc :: "u64 \<Rightarrow> u64 \<Rightarrow> 'a heap_scheme \<Rightarrow> (u64 \<times> 'a heap_scheme) option" where
  "kcalloc count sz s =
     (let total_size = count * sz in
      case kmalloc total_size s of
        None \<Rightarrow> None
      | Some (ptr, s) \<Rightarrow>
          if ptr \<noteq> 0 then Some (ptr, s\<lparr>memory := memory_set ptr 0 total_size (memory s)\<rparr>)
          else Some (ptr, s))"

definition kfree :: "u64 \<Rightarrow> 'a heap_scheme \<Rightarrow> 'a heap_scheme option" where
  "kfree ptr s =
     (if ptr = 0 then Some s
      else
        let block = ptr - HEAP_BLOCK_HEADER_SIZE in
        if \<not> is_valid_block block s then Some s
        else if \<not> blk_allocated (memory s) block then Some s
        else
          let m = set_allocated block False (memory s);
              s = s\<lparr>memory := m,
                    heap_used := heap_used s - blk_size m block,
                    heap_free := heap_free s + blk_size m block,
                    heap_frees := heap_frees s + 1\<rparr>
          in (case merge_blocks block (memory s) of
                None \<Rightarrow> None
              | Some m \<Rightarrow> Some (s\<lparr>memory := m\<rparr>)))"

definition krealloc :: "u64 \<Rightarrow> u64 \<Rightarrow> 'a heap_scheme \<Rightarrow> (u64 \<times> 'a heap_scheme) option" where
  "krealloc ptr sz s =
     (if ptr = 0 then kmalloc sz s
      else if sz = 0 then (case kfree ptr s of None \<Rightarrow> None | Some s \<Rightarrow> Some (0, s))
      else
        let block = ptr - HEAP_BLOCK_HEADER_SIZE in
        if \<not> is_valid_block block s then Some (0, s)
        else
          let old_size = blk_size (memory s) block - HEAP_BLOCK_HEADER_SIZE in
          if sz \<le> old_size then Some (ptr, s)
          else
            (case kmalloc sz s of
               None \<Rightarrow> None
             | Some (new_ptr, s) \<Rightarrow>
                 if new_ptr = 0 then Some (0, s)
                 else
                   let s = s\<lparr>memory := memory_copy new_ptr ptr old_size (memory s)\<rparr> in
                   (case kfree ptr s of None \<Rightarrow> None | Some s \<Rightarrow> Some (new_ptr, s))))"

section \<open>The abstract heap\<close>

text \<open>
  The shape of the heap: sizes and flags of the blocks in address order. \<open>blocks m a p bs z\<close> says
  that headers describing \<open>bs\<close> start at \<open>a\<close>, the first one links back to \<open>p\<close> and the last one
  forward to \<open>z\<close>.
\<close>

type_synonym blk = "nat \<times> bool"

definition header :: "mem \<Rightarrow> u64 \<Rightarrow> nat \<Rightarrow> bool \<Rightarrow> u64 \<Rightarrow> u64 \<Rightarrow> bool" where
  "header m b n al nx pv \<longleftrightarrow>
     blk_size m b = of_nat n \<and> blk_allocated m b = al \<and> blk_next m b = nx \<and> blk_prev m b = pv \<and>
     blk_magic m b = HEAP_MAGIC"

fun blocks :: "mem \<Rightarrow> nat \<Rightarrow> u64 \<Rightarrow> blk list \<Rightarrow> u64 \<Rightarrow> bool" where
  "blocks m a p [] z \<longleftrightarrow> True"
| "blocks m a p ((n, al) # bs) z \<longleftrightarrow>
     40 \<le> n \<and> header m (of_nat a) n al (if bs = [] then z else of_nat (a + n)) p \<and>
     blocks m (a + n) (of_nat a) bs z"

definition extent :: "blk list \<Rightarrow> nat" where
  "extent bs = sum_list (map fst bs)"

definition in_use :: "blk list \<Rightarrow> nat" where
  "in_use bs = sum_list (map fst (filter snd bs))"

fun last_block :: "nat \<Rightarrow> u64 \<Rightarrow> blk list \<Rightarrow> u64" where
  "last_block a p [] = p"
| "last_block a p ((n, al) # bs) = last_block (a + n) (of_nat a) bs"

text \<open>The address of the first free block of at least \<open>sz\<close> bytes, or 0.\<close>

fun first_fit :: "u64 \<Rightarrow> nat \<Rightarrow> blk list \<Rightarrow> u64" where
  "first_fit sz a [] = 0"
| "first_fit sz a ((n, al) # bs) = (if \<not> al \<and> sz \<le> of_nat n then of_nat a else first_fit sz (a + n) bs)"

text \<open>The blocks in use, as address and size of the whole block.\<close>

fun alloc_blocks :: "nat \<Rightarrow> blk list \<Rightarrow> (nat \<times> nat) set" where
  "alloc_blocks a [] = {}"
| "alloc_blocks a ((n, al) # bs) = (if al then {(a, n)} else {}) \<union> alloc_blocks (a + n) bs"

definition heap_shape :: "'a heap_scheme \<Rightarrow> blk list \<Rightarrow> bool" where
  "heap_shape s bs \<longleftrightarrow>
     bs \<noteq> [] \<and> blocks (memory s) (unat (heap_start s)) 0 bs 0 \<and> heap_first s = heap_start s \<and>
     64 \<le> unat (heap_start s) \<and> unat (heap_start s) + extent bs < 2 ^ 64 \<and>
     heap_size s = of_nat (extent bs) \<and> heap_end s = heap_start s + heap_size s \<and>
     heap_used s = of_nat (in_use bs) \<and> heap_free s = heap_size s - heap_used s"

definition heap_inv :: "'a heap_scheme \<Rightarrow> bool" where
  "heap_inv s \<longleftrightarrow> (\<exists>bs. heap_shape s bs)"

text \<open>The bytes of the blocks in \<open>A\<close> that belong to clients are the same in both memories.\<close>

definition keeps :: "(nat \<times> nat) set \<Rightarrow> mem \<Rightarrow> mem \<Rightarrow> bool" where
  "keeps A m m' \<longleftrightarrow> (\<forall>d n x. (d, n) \<in> A \<longrightarrow> d + 40 \<le> unat x \<longrightarrow> unat x < d + n \<longrightarrow> m' x = m x)"

text \<open>The block size \<^verbatim>\<open>kmalloc\<close> needs for a request: rounded up to 16 bytes, plus the header.\<close>

definition block_need :: "u64 \<Rightarrow> nat" where
  "block_need sz = (unat sz + 15) div 16 * 16 + 40"

text \<open>Two header addresses whose headers do not overlap.\<close>

definition apart :: "u64 \<Rightarrow> u64 \<Rightarrow> bool" where
  "apart b c \<longleftrightarrow> disjoint_regions b 40 c 40"

section \<open>Header fields\<close>

lemmas field_defs = blk_size_def blk_allocated_def blk_next_def blk_prev_def blk_magic_def
  set_size_def set_allocated_def set_next_def set_prev_def set_magic_def

lemma load_store_64: "load64 (store64 a v m) a = v" and load_store_32: "load32 (store32 a w m) a = w"
  by (simp_all add: load_store_same)

lemma fields_same [simp]:
  "blk_size (set_size b v m) b = v"
  "blk_allocated (set_allocated b al m) b = al"
  "blk_next (set_next b v m) b = v"
  "blk_prev (set_prev b v m) b = v"
  "blk_magic (set_magic b w m) b = w"
  by (simp_all add: field_defs load_store_64 load_store_32)

lemma fields_other [simp]:
  "blk_size (set_allocated b al m) b = blk_size m b" "blk_size (set_next b v m) b = blk_size m b"
  "blk_size (set_prev b v m) b = blk_size m b" "blk_size (set_magic b w m) b = blk_size m b"
  "blk_allocated (set_size b v m) b = blk_allocated m b" "blk_allocated (set_next b v m) b = blk_allocated m b"
  "blk_allocated (set_prev b v m) b = blk_allocated m b" "blk_allocated (set_magic b w m) b = blk_allocated m b"
  "blk_next (set_size b v m) b = blk_next m b" "blk_next (set_allocated b al m) b = blk_next m b"
  "blk_next (set_prev b v m) b = blk_next m b" "blk_next (set_magic b w m) b = blk_next m b"
  "blk_prev (set_size b v m) b = blk_prev m b" "blk_prev (set_allocated b al m) b = blk_prev m b"
  "blk_prev (set_next b v m) b = blk_prev m b" "blk_prev (set_magic b w m) b = blk_prev m b"
  "blk_magic (set_size b v m) b = blk_magic m b" "blk_magic (set_allocated b al m) b = blk_magic m b"
  "blk_magic (set_next b v m) b = blk_magic m b" "blk_magic (set_prev b v m) b = blk_magic m b"
  by (simp_all add: field_defs load_store_other disjoint_regions_def word_le_def)

text \<open>A header occupies 40 bytes.\<close>

lemma load_in_region:
  assumes "\<forall>x. in_region b 40 x \<longrightarrow> m' x = m x" and "k + n \<le> 40"
  shows "load_le m' (b + of_nat k) n = load_le m (b + of_nat k) n"
proof (rule load_le_cong)
  fix i assume "i < n"
  then have "unat (of_nat k + of_nat i :: u64) < 40"
    using assms(2) by (simp add: unat_word_ariths unat_of_nat)
  then have "in_region b 40 (b + (of_nat k + of_nat i))"
    by (simp add: word_less_nat_alt)
  then show "m' (b + of_nat k + of_nat i) = m (b + of_nat k + of_nat i)"
    using assms(1) by (simp add: add.assoc)
qed

lemma fields_cong:
  assumes "\<forall>x. in_region b 40 x \<longrightarrow> m' x = m x"
  shows "blk_size m' b = blk_size m b" "blk_allocated m' b = blk_allocated m b" "blk_next m' b = blk_next m b"
    "blk_prev m' b = blk_prev m b" "blk_magic m' b = blk_magic m b"
proof -
  note l = load_in_region [OF assms]
  show "blk_size m' b = blk_size m b" "blk_allocated m' b = blk_allocated m b" "blk_next m' b = blk_next m b"
    "blk_prev m' b = blk_prev m b" "blk_magic m' b = blk_magic m b"
    using l [of 0 8, where ?'a = 64] l [of 8 4, where ?'a = 32] l [of 16 8, where ?'a = 64]
      l [of 24 8, where ?'a = 64] l [of 32 4, where ?'a = 32]
    by (simp_all add: field_defs)
qed

lemma store_in_region:
  assumes "\<not> in_region b 40 x" and "k + n \<le> 40"
  shows "store_le (b + of_nat k) n v m x = m x"
proof -
  have "\<not> unat (x - (b + of_nat k)) < n"
  proof
    assume lt: "unat (x - (b + of_nat k)) < n"
    have "x - b = (x - (b + of_nat k)) + of_nat k" by simp
    then have "unat (x - b) < 40"
      using lt assms(2) by (simp only: unat_word_ariths) (simp add: unat_of_nat)
    then show False using assms(1) by (simp add: in_region_def word_less_nat_alt)
  qed
  then show ?thesis by (simp add: store_le_def)
qed

lemma set_out:
  assumes "\<not> in_region b 40 x"
  shows "set_size b v m x = m x" "set_allocated b al m x = m x" "set_next b v m x = m x" "set_prev b v m x = m x"
    "set_magic b w m x = m x"
  using store_in_region [OF assms, of 0 8 v m] store_in_region [OF assms, of 8 4 "if al then 1 else 0 :: u32" m]
    store_in_region [OF assms, of 16 8 v m] store_in_region [OF assms, of 24 8 v m]
    store_in_region [OF assms, of 32 4 w m]
  by (simp_all add: field_defs)

text \<open>Headers that do not overlap do not affect each other.\<close>

lemma apart_sym: "apart b c \<Longrightarrow> apart c b"
  by (simp add: apart_def disjoint_regions_sym)

lemma apart_region: "apart b c \<Longrightarrow> in_region c 40 x \<Longrightarrow> \<not> in_region b 40 x"
  using disjoint_regionsD apart_def by blast

lemma fields_apart [simp]:
  assumes "apart b c"
  shows "blk_size (set_size b v m) c = blk_size m c" "blk_allocated (set_size b v m) c = blk_allocated m c"
    "blk_next (set_size b v m) c = blk_next m c" "blk_prev (set_size b v m) c = blk_prev m c"
    "blk_magic (set_size b v m) c = blk_magic m c"
    "blk_size (set_allocated b al m) c = blk_size m c" "blk_allocated (set_allocated b al m) c = blk_allocated m c"
    "blk_next (set_allocated b al m) c = blk_next m c" "blk_prev (set_allocated b al m) c = blk_prev m c"
    "blk_magic (set_allocated b al m) c = blk_magic m c"
    "blk_size (set_next b v m) c = blk_size m c" "blk_allocated (set_next b v m) c = blk_allocated m c"
    "blk_next (set_next b v m) c = blk_next m c" "blk_prev (set_next b v m) c = blk_prev m c"
    "blk_magic (set_next b v m) c = blk_magic m c"
    "blk_size (set_prev b v m) c = blk_size m c" "blk_allocated (set_prev b v m) c = blk_allocated m c"
    "blk_next (set_prev b v m) c = blk_next m c" "blk_prev (set_prev b v m) c = blk_prev m c"
    "blk_magic (set_prev b v m) c = blk_magic m c"
    "blk_size (set_magic b w m) c = blk_size m c" "blk_allocated (set_magic b w m) c = blk_allocated m c"
    "blk_next (set_magic b w m) c = blk_next m c" "blk_prev (set_magic b w m) c = blk_prev m c"
    "blk_magic (set_magic b w m) c = blk_magic m c"
  by (rule fields_cong, simp add: set_out apart_region [OF assms])+

section \<open>Block lists\<close>

lemma extent_simps [simp]:
  "extent [] = 0" "extent ((n, al) # bs) = n + extent bs" "extent (xs @ ys) = extent xs + extent ys"
  by (simp_all add: extent_def)

lemma in_use_simps [simp]:
  "in_use [] = 0" "in_use ((n, al) # bs) = (if al then n else 0) + in_use bs"
  "in_use (xs @ ys) = in_use xs + in_use ys"
  by (simp_all add: in_use_def)

lemma in_use_le: "in_use bs \<le> extent bs"
  by (induction bs) auto

lemma alloc_blocks_append [simp]:
  "alloc_blocks a (xs @ ys) = alloc_blocks a xs \<union> alloc_blocks (a + extent xs) ys"
  by (induction xs arbitrary: a) (auto simp: add.assoc)

lemma last_block_append [simp]:
  "last_block a p (xs @ ys) = last_block (a + extent xs) (last_block a p xs) ys"
  by (induction a p xs rule: last_block.induct) (auto simp: add.assoc)

lemma blocks_append:
  "blocks m a p (xs @ ys) z \<longleftrightarrow>
     blocks m a p xs (if ys = [] then z else of_nat (a + extent xs)) \<and>
     blocks m (a + extent xs) (last_block a p xs) ys z"
  by (induction m a p xs z rule: blocks.induct) (auto simp: add.assoc)

lemma header_region:
  assumes "in_region (of_nat a) 40 x" and "a + 40 \<le> 2 ^ 64"
  shows "a \<le> unat x" "unat x < a + 40"
proof -
  have "unat (of_nat a :: u64) = a" using assms(2) by (simp add: unat_of_nat_small)
  moreover have "unat (x - of_nat a) < 40" using assms(1) by (simp add: in_region_def word_less_nat_alt)
  moreover have "unat x = (unat (x - of_nat a) + unat (of_nat a :: u64)) mod 2 ^ 64"
    using unat_word_ariths(1) [of "x - of_nat a" "of_nat a"] by simp
  ultimately show "a \<le> unat x" "unat x < a + 40" using assms(2) by simp_all
qed

lemma header_cong:
  "\<forall>x. in_region b 40 x \<longrightarrow> m' x = m x \<Longrightarrow> header m' b n al nx pv = header m b n al nx pv"
  unfolding header_def using fields_cong [of b m' m] by metis

lemma blocks_cong:
  assumes "\<And>x. a \<le> unat x \<Longrightarrow> unat x < a + extent bs \<Longrightarrow> m' x = m x" and "a + extent bs \<le> 2 ^ 64"
  shows "blocks m' a p bs z = blocks m a p bs z"
  using assms
proof (induction bs arbitrary: a p)
  case (Cons b bs)
  obtain n al where b: "b = (n, al)" by fastforce
  have "blocks m' (a + n) (of_nat a) bs z = blocks m (a + n) (of_nat a) bs z"
    using Cons.prems b by (intro Cons.IH) auto
  moreover have "header m' (of_nat a) n al nx p = header m (of_nat a) n al nx p" if "40 \<le> n" for nx
    using Cons.prems b that header_region [of a] by (intro header_cong) force
  ultimately show ?case by (auto simp: b)
qed simp

lemma apart_nat:
  assumes "a + 40 \<le> c" and "c + 40 \<le> 2 ^ 64"
  shows "apart (of_nat a) (of_nat c)" "apart (of_nat c) (of_nat a)"
proof -
  have u: "unat (of_nat a :: u64) = a" "unat (of_nat c :: u64) = c"
    using assms by (simp_all add: unat_of_nat_small)
  show "apart (of_nat a) (of_nat c)"
    using assms unfolding apart_def disjoint_regions_def word_le_nat_alt unat_sub_if' u by auto
  then show "apart (of_nat c) (of_nat a)" by (rule apart_sym)
qed

text \<open>A block in the middle of the list.\<close>

lemma blocks_middle:
  "blocks m a p (xs @ (n, al) # ys) z \<longleftrightarrow>
     blocks m a p xs (of_nat (a + extent xs)) \<and> 40 \<le> n \<and>
     header m (of_nat (a + extent xs)) n al (if ys = [] then z else of_nat (a + extent xs + n)) (last_block a p xs) \<and>
     blocks m (a + extent xs + n) (of_nat (a + extent xs)) ys z"
  by (simp add: blocks_append)

lemma blocks_size_le: "blocks m a p bs z \<Longrightarrow> bs \<noteq> [] \<Longrightarrow> 40 \<le> extent bs"
  by (cases bs) auto

text \<open>Searching for a free block.\<close>

lemma of_nat_nonzero: "0 < a \<Longrightarrow> a < 2 ^ 64 \<Longrightarrow> (of_nat a :: u64) \<noteq> 0"
  by (simp add: word_unat_eq_iff unat_of_nat_small)

lemma find_free_from_blocks:
  assumes "blocks m a p bs 0" and "0 < a" and "a + extent bs < 2 ^ 64"
  shows "find_free_from (if bs = [] then 0 else of_nat a) sz m = Some (first_fit sz a bs)"
  using assms
proof (induction bs arbitrary: a p)
  case Nil
  then show ?case by (simp add: find_free_from.simps)
next
  case (Cons b bs)
  obtain n al where b: "b = (n, al)" by fastforce
  have nz: "(of_nat a :: u64) \<noteq> 0"
    using Cons.prems by (intro of_nat_nonzero) (auto simp: b)
  have h: "header m (of_nat a) n al (if bs = [] then 0 else of_nat (a + n)) p"
    using Cons.prems(1) by (simp add: b)
  have IH: "find_free_from (if bs = [] then 0 else of_nat (a + n)) sz m = Some (first_fit sz (a + n) bs)"
    using Cons.prems by (intro Cons.IH) (auto simp: b)
  show ?case
  proof (cases "\<not> al \<and> sz \<le> of_nat n")
    case True
    then have "find_free_from (of_nat a) sz m = Some (of_nat a)"
      using nz h by (subst find_free_from.simps) (auto simp: header_def)
    with True show ?thesis by (simp add: b)
  next
    case False
    then have "find_free_from (of_nat a) sz m = find_free_from (if bs = [] then 0 else of_nat (a + n)) sz m"
      using nz h by (subst find_free_from.simps) (auto simp: header_def)
    with IH False show ?thesis by (auto simp: b)
  qed
qed

lemma first_fit_cases:
  "first_fit sz a bs = 0 \<and> (\<forall>b\<in>set bs. snd b \<or> of_nat (fst b) < sz) \<or>
   (\<exists>xs n ys. bs = xs @ (n, False) # ys \<and> first_fit sz a bs = of_nat (a + extent xs) \<and> sz \<le> of_nat n \<and>
      (\<forall>b\<in>set xs. snd b \<or> of_nat (fst b) < sz))"
proof (induction bs arbitrary: a)
  case (Cons b bs)
  obtain n al where b: "b = (n, al)" by fastforce
  show ?case
  proof (cases "\<not> al \<and> sz \<le> of_nat n")
    case True
    then show ?thesis
      by (intro disjI2 exI [of _ "[]"] exI [of _ n] exI [of _ bs]) (simp add: b)
  next
    case False
    then have e: "first_fit sz a (b # bs) = first_fit sz (a + n) bs"
      by (auto simp: b)
    from Cons [of "a + n"] show ?thesis
    proof
      assume "first_fit sz (a + n) bs = 0 \<and> (\<forall>b\<in>set bs. snd b \<or> of_nat (fst b) < sz)"
      with False show ?thesis unfolding e by (auto simp: b not_le)
    next
      assume "\<exists>xs k ys. bs = xs @ (k, False) # ys \<and> first_fit sz (a + n) bs = of_nat (a + n + extent xs) \<and>
        sz \<le> of_nat k \<and> (\<forall>b\<in>set xs. snd b \<or> of_nat (fst b) < sz)"
      then obtain xs k ys where "bs = xs @ (k, False) # ys" "first_fit sz (a + n) bs = of_nat (a + n + extent xs)"
        "sz \<le> of_nat k" "\<forall>b\<in>set xs. snd b \<or> of_nat (fst b) < sz" by blast
      with False show ?thesis
        unfolding e by (intro disjI2 exI [of _ "b # xs"] exI [of _ k] exI [of _ ys]) (auto simp: b add.assoc not_le)
    qed
  qed
qed simp

section \<open>Allocating\<close>

text \<open>Changing the flag of one block.\<close>

lemma blocks_set_flag:
  assumes "blocks m a p (xs @ (n, al) # ys) z" and "a + extent (xs @ (n, al) # ys) < 2 ^ 64"
    and b: "b = of_nat (a + extent xs)"
  shows "blocks (set_allocated b al' m) a p (xs @ (n, al') # ys) z"
proof -
  let ?c = "a + extent xs"
  have n: "40 \<le> n" using assms(1) by (simp add: blocks_middle)
  have out: "set_allocated b al' m x = m x" if "unat x < ?c \<or> ?c + n \<le> unat x" for x
    using that header_region [of ?c x] n assms(2) unfolding b by (intro set_out) force
  have "blocks (set_allocated b al' m) a p xs (of_nat ?c) = blocks m a p xs (of_nat ?c)"
    using assms(2) by (intro blocks_cong out) auto
  moreover have "blocks (set_allocated b al' m) (?c + n) (of_nat ?c) ys z = blocks m (?c + n) (of_nat ?c) ys z"
    using assms(2) by (intro blocks_cong out) auto
  ultimately show ?thesis
    using assms(1) unfolding blocks_middle by (simp add: header_def b)
qed

text \<open>Splitting a free block.\<close>

definition split_header :: "u64 \<Rightarrow> u64 \<Rightarrow> u64 \<Rightarrow> u64 \<Rightarrow> mem \<Rightarrow> mem" where
  "split_header b N rest nx m =
     set_magic N HEAP_MAGIC (set_prev N b (set_next N nx (set_allocated N False (set_size N rest m))))"

lemma split_header_out: "\<not> in_region N 40 x \<Longrightarrow> split_header b N rest nx m x = m x"
  by (simp add: split_header_def set_out)

lemma split_block_eq:
  assumes n: "blk_size m b = of_nat n" and k: "k + 64 < n" "n < 2 ^ 64" and N: "N = b + of_nat k" and ap: "apart N b"
  shows "split_block b (of_nat k) m =
    (let m1 = split_header b N (of_nat (n - k)) (blk_next m b) m
     in set_size b (of_nat k) (set_next b N
          (if blk_next m b \<noteq> 0 then set_prev (blk_next m b) N m1 else m1)))"
proof -
  have "unat (of_nat k + 64 :: u64) = k + 64" "unat (of_nat n :: u64) = n"
    using k by (simp_all add: unat_word_ariths unat_of_nat)
  then have "\<not> (of_nat n :: u64) \<le> of_nat k + 64"
    using k by (simp add: word_le_nat_alt)
  moreover have "(of_nat n - of_nat k :: u64) = of_nat (n - k)"
    using k by (simp add: of_nat_diff)
  ultimately show ?thesis
    using ap by (simp add: split_block_def split_header_def Let_def HEAP_MIN_BLOCK_SIZE_def n flip: N)
qed

lemma blocks_split:
  assumes bl: "blocks m a p (xs @ (n, False) # ys) 0" and tot: "a + extent (xs @ (n, False) # ys) < 2 ^ 64"
    and a: "0 < a" and k: "40 \<le> k" "k + 64 < n" and b: "b = of_nat (a + extent xs)" and m': "m' = split_block b (of_nat k) m"
  shows "blocks m' a p (xs @ (k, False) # (n - k, False) # ys) 0"
    and "unat x < a + extent xs \<or> a + extent xs + n + 40 \<le> unat x \<or> ys = [] \<and> a + extent xs + n \<le> unat x \<Longrightarrow> m' x = m x"
proof -
  define c where "c = a + extent xs"
  define N where "N = (of_nat (c + k) :: u64)"
  define Y where "Y = (of_nat (c + n) :: u64)"
  have bc: "b = of_nat c" by (simp add: b c_def)
  have cn: "c + n < 2 ^ 64" "c + n + extent ys < 2 ^ 64" using tot by (auto simp: c_def)
  note mid = bl [unfolded blocks_middle, folded c_def, folded Y_def, folded bc]
  then have h: "header m b n False (if ys = [] then 0 else Y) (last_block a p xs)" by blast
  have ap: "apart b N" "apart N b"
    unfolding bc N_def using k cn by (intro apart_nat; simp)+
  have Y0: "ys \<noteq> [] \<Longrightarrow> Y \<noteq> 0"
    unfolding Y_def c_def using a tot by (intro of_nat_nonzero) auto
  have ys40: "40 \<le> extent ys" if "ys \<noteq> []"
    using mid that blocks_size_le by blast
  have apY: "apart b Y" "apart Y b" "apart N Y" "apart Y N" if "ys \<noteq> []"
    unfolding bc N_def Y_def using k cn ys40 [OF that] by (intro apart_nat; simp)+
  let ?m1 = "split_header b N (of_nat (n - k)) (if ys = [] then 0 else Y) m"
  have Nb: "N = b + of_nat k" by (simp add: N_def bc)
  have m1: "m' = set_size b (of_nat k) (set_next b N (if ys \<noteq> [] then set_prev Y N ?m1 else ?m1))"
    using split_block_eq [OF _ k(2) _ Nb ap(2), of m] h cn Y0 unfolding m'
    by (auto simp: header_def Let_def)
  have out: "m' x = m x" if "unat x < c \<or> c + n + 40 \<le> unat x \<or> ys = [] \<and> c + n \<le> unat x" for x
  proof -
    have "\<not> in_region b 40 x" "\<not> in_region N 40 x"
      unfolding bc N_def using that header_region [of c x] header_region [of "c + k" x] k cn by force+
    moreover have "\<not> in_region Y 40 x" if "ys \<noteq> []"
      unfolding Y_def using \<open>unat x < c \<or> _\<close> that header_region [of "c + n" x] ys40 [OF that] cn by force
    ultimately show ?thesis by (simp add: m1 set_out split_header_out)
  qed
  then show "unat x < a + extent xs \<or> a + extent xs + n + 40 \<le> unat x \<or> ys = [] \<and> a + extent xs + n \<le> unat x \<Longrightarrow> m' x = m x"
    by (simp add: c_def)
  have "blocks m' a p xs b = blocks m a p xs b"
    using cn by (intro blocks_cong out) (auto simp: c_def)
  moreover have "header m' b k False N (last_block a p xs)"
    using h ap apY by (simp add: m1 header_def split_header_def)
  moreover have "header m' N (n - k) False (if ys = [] then 0 else Y) b"
    using h ap apY by (simp add: m1 header_def split_header_def)
  moreover have "blocks m' (c + n) N ys 0"
  proof (cases ys)
    case (Cons y ys')
    obtain j al where y: "y = (j, al)" by fastforce
    have hY: "header m Y j al (if ys' = [] then 0 else of_nat (c + n + j)) b" "blocks m (c + n + j) Y ys' 0" "40 \<le> j"
      using mid by (simp_all add: Cons y Y_def del: of_nat_add)
    then have "header m' Y j al (if ys' = [] then 0 else of_nat (c + n + j)) N"
      using ap apY by (simp add: Cons m1 header_def split_header_def del: of_nat_add)
    moreover have "blocks m' (c + n + j) Y ys' 0 = blocks m (c + n + j) Y ys' 0"
      using cn hY(3) by (intro blocks_cong out) (auto simp: Cons y)
    ultimately show ?thesis using hY by (simp add: Cons y Y_def del: of_nat_add)
  qed simp
  ultimately show "blocks m' a p (xs @ (k, False) # (n - k, False) # ys) 0"
    using mid k unfolding blocks_middle
    by (auto simp: c_def [symmetric] bc [symmetric] N_def [symmetric] Y_def [symmetric] add.assoc simp del: of_nat_add)
qed

section \<open>What clients see\<close>

lemma keeps_refl [simp]: "keeps A m m"
  by (simp add: keeps_def)

lemma keeps_trans: "keeps A m m1 \<Longrightarrow> keeps A m1 m2 \<Longrightarrow> keeps A m m2"
  by (simp add: keeps_def)

lemma keeps_mono: "keeps A m m' \<Longrightarrow> B \<subseteq> A \<Longrightarrow> keeps B m m'"
  by (auto simp: keeps_def)

lemma alloc_blocks_bounds:
  "(d, n) \<in> alloc_blocks a bs \<Longrightarrow> a \<le> d \<and> d + n \<le> a + extent bs"
  by (induction a bs rule: alloc_blocks.induct) (auto split: if_splits)

lemma alloc_blocks_middle:
  "(d, n) \<in> alloc_blocks a bs \<Longrightarrow> \<exists>xs ys. bs = xs @ (n, True) # ys \<and> d = a + extent xs"
proof (induction a bs rule: alloc_blocks.induct)
  case (2 a k al bs)
  show ?case
  proof (cases "al \<and> (d, n) = (a, k)")
    case True
    then show ?thesis by (intro exI [of _ "[]"] exI [of _ bs]) auto
  next
    case False
    then have "(d, n) \<in> alloc_blocks (a + k) bs" using "2.prems" by (auto split: if_splits)
    from "2.IH" [OF this] obtain xs ys where "bs = xs @ (n, True) # ys" "d = a + k + extent xs" by blast
    then show ?thesis by (intro exI [of _ "(k, al) # xs"] exI [of _ ys]) simp
  qed
qed simp

lemma keeps_outside:
  assumes "\<And>x. unat x < a + extent xs \<or> a + extent xs + n + 40 \<le> unat x \<or> ys = [] \<and> a + extent xs + n \<le> unat x \<Longrightarrow> m' x = m x"
  shows "keeps (alloc_blocks a (xs @ (n, False) # ys)) m m'"
  unfolding keeps_def
proof (intro allI impI)
  fix d j and x :: u64
  assume d: "(d, j) \<in> alloc_blocks a (xs @ (n, False) # ys)" and x: "d + 40 \<le> unat x" "unat x < d + j"
  then have "(d, j) \<in> alloc_blocks a xs \<or> (d, j) \<in> alloc_blocks (a + extent xs + n) ys" by simp
  then show "m' x = m x"
    using alloc_blocks_bounds [of d j a xs] alloc_blocks_bounds [of d j "a + extent xs + n" ys] x by (intro assms) auto
qed

section \<open>kmalloc\<close>

lemma kmalloc_total_size:
  assumes "unat sz + 55 < 2 ^ 64"
  shows "(sz + HEAP_ALIGNMENT - 1 AND NOT (HEAP_ALIGNMENT - 1)) + HEAP_BLOCK_HEADER_SIZE = of_nat (block_need sz)"
    and "block_need sz < 2 ^ 64" and "40 \<le> block_need sz" and "unat sz + 40 \<le> block_need sz"
proof -
  show bn: "block_need sz < 2 ^ 64" "40 \<le> block_need sz" and "unat sz + 40 \<le> block_need sz"
    using assms round_up_bounds [of 16 "unat sz"] by (simp_all add: block_need_def)
  define A where "A = (sz + 15 AND NOT (2 ^ 4 - 1))"
  have "unat A = (unat sz + 15) div 16 * 16"
    using assms unat_add_lem [of sz 15] unfolding A_def unat_and_not_mask by simp
  then have "unat (A + 40) = block_need sz"
    using bn unat_add_lem [of A 40] by (simp add: block_need_def)
  then have "A + 40 = of_nat (block_need sz)"
    using bn(1) by (simp add: word_unat_eq_iff unat_of_nat_small)
  then show "(sz + HEAP_ALIGNMENT - 1 AND NOT (HEAP_ALIGNMENT - 1)) + HEAP_BLOCK_HEADER_SIZE = of_nat (block_need sz)"
    by (simp add: HEAP_ALIGNMENT_def HEAP_BLOCK_HEADER_SIZE_def A_def add.commute [of sz])
qed

lemma heap_shapeD:
  assumes "heap_shape s bs"
  shows "blocks (memory s) (unat (heap_start s)) 0 bs 0" "bs \<noteq> []" "64 \<le> unat (heap_start s)"
    "unat (heap_start s) + extent bs < 2 ^ 64" "of_nat (unat (heap_start s)) = heap_first s"
  using assms by (auto simp: heap_shape_def)

lemma kmalloc_found:
  assumes sh: "heap_shape s bs" and sz: "sz \<noteq> 0" "unat sz + 55 < 2 ^ 64" and bs: "bs = xs @ (n, False) # ys"
    and ff: "first_fit (of_nat (block_need sz)) (unat (heap_start s)) bs = of_nat c"
    and c: "c = unat (heap_start s) + extent xs" and n: "block_need sz \<le> n"
  shows "\<exists>s' j. kmalloc sz s = Some (of_nat (c + 40), s') \<and> block_need sz \<le> j \<and> j \<le> n \<and>
    j = (if block_need sz + 64 < n then block_need sz else n) \<and>
    heap_shape s' (xs @ (j, True) # (if j = n then [] else [(n - j, False)]) @ ys) \<and> heap_start s' = heap_start s \<and>
    keeps (alloc_blocks (unat (heap_start s)) bs) (memory s) (memory s')"
proof -
  note hs = heap_shapeD [OF sh]
  let ?a = "unat (heap_start s)" and ?k = "block_need sz" and ?b = "of_nat c :: u64"
  have bl: "blocks (memory s) ?a 0 (xs @ (n, False) # ys) 0" using hs(1) bs by simp
  have cn: "c + n < 2 ^ 64" using hs(4) by (simp add: bs c)
  have b0: "?b \<noteq> 0" using hs(3) cn by (intro of_nat_nonzero) (auto simp: c)
  have sb: "blk_size (memory s) ?b = of_nat n" using bl by (simp add: blocks_middle header_def c)
  note k = kmalloc_total_size [OF sz(2)]
  have split: "(of_nat ?k + HEAP_MIN_BLOCK_SIZE < (of_nat n :: u64)) \<longleftrightarrow> ?k + 64 < n"
    using hs(3) cn n by (simp add: HEAP_MIN_BLOCK_SIZE_def word_less_nat_alt unat_word_ariths unat_of_nat c)
  have ffb: "find_free_block (of_nat ?k) s = Some ?b"
    using find_free_from_blocks [OF hs(1) _ hs(4), of "of_nat ?k"] hs ff by (simp add: find_free_block_def)
  define m1 where "m1 = (if ?k + 64 < n then split_block ?b (of_nat ?k) (memory s) else memory s)"
  define j where "j = (if ?k + 64 < n then ?k else n)"
  let ?rest = "if j = n then [] else [(n - j, False)]"
  have j: "?k \<le> j" "j \<le> n" using n by (auto simp: j_def)
  have tot: "?a + extent (xs @ (n, False) # ys) < 2 ^ 64" using hs(4) by (simp add: bs)
  have bl1: "blocks m1 ?a 0 (xs @ (j, False) # ?rest @ ys) 0" and kp1: "keeps (alloc_blocks ?a bs) (memory s) m1"
  proof (atomize (full), cases "?k + 64 < n")
    case True
    have a0: "0 < ?a" "?b = of_nat (?a + extent xs)" using hs(3) by (simp_all add: c)
    have m1: "m1 = split_block ?b (of_nat ?k) (memory s)" using True by (simp add: m1_def)
    note sp = blocks_split [OF bl tot a0(1) k(3) True a0(2) m1]
    have "keeps (alloc_blocks ?a bs) (memory s) m1"
      unfolding bs by (rule keeps_outside) (rule sp(2))
    then show "blocks m1 ?a 0 (xs @ (j, False) # ?rest @ ys) 0 \<and> keeps (alloc_blocks ?a bs) (memory s) m1"
      using sp(1) True by (simp add: j_def)
  next
    case False
    then show "blocks m1 ?a 0 (xs @ (j, False) # ?rest @ ys) 0 \<and> keeps (alloc_blocks ?a bs) (memory s) m1"
      using bl by (simp add: m1_def j_def)
  qed
  define m2 where "m2 = set_allocated ?b True m1"
  have ext: "extent (xs @ (j, al) # ?rest @ ys) = extent bs" for al using j by (simp add: bs)
  have bl2: "blocks m2 ?a 0 (xs @ (j, True) # ?rest @ ys) 0"
    unfolding m2_def using hs(4) ext by (intro blocks_set_flag [OF bl1]) (simp_all add: c)
  have "m2 x = m1 x" if "unat x < c \<or> c + n \<le> unat x" for x
    unfolding m2_def using that header_region [of c x] k(3) n cn by (intro set_out) force
  then have kp2: "keeps (alloc_blocks ?a bs) m1 m2"
    unfolding bs by (intro keeps_outside) (auto simp: c)
  have sj: "blk_size m2 ?b = of_nat j" using bl2 by (simp add: blocks_middle header_def c)
  define s' where "s' = s\<lparr>memory := m2, heap_used := heap_used s + of_nat j, heap_free := heap_free s - of_nat j,
    heap_allocations := heap_allocations s + 1\<rparr>"
  have "kmalloc sz s = Some (of_nat (c + 40), s')"
    using sz(1) ffb b0 sb sj unfolding kmalloc_def Let_def k(1) s'_def
    by (simp add: split m1_def [symmetric] m2_def [symmetric]) (simp add: HEAP_BLOCK_HEADER_SIZE_def)
  moreover have "heap_shape s' (xs @ (j, True) # ?rest @ ys)"
    using sh bl2 ext [of True] unfolding heap_shape_def by (simp add: s'_def bs)
  ultimately show ?thesis
    using j keeps_trans [OF kp1 kp2] by (intro exI [of _ s'] exI [of _ j]) (simp add: s'_def j_def)
qed

lemma kmalloc_spec:
  assumes sh: "heap_shape s bs" and sz: "sz \<noteq> 0" "unat sz + 55 < 2 ^ 64"
  shows "kmalloc sz s = Some (0, s) \<and> (\<forall>b\<in>set bs. snd b \<or> fst b < block_need sz) \<or>
    (\<exists>c n s' bs'. kmalloc sz s = Some (of_nat (c + 40), s') \<and> of_nat (c + 40) \<noteq> (0 :: u64) \<and> heap_shape s' bs' \<and>
       heap_start s' = heap_start s \<and> block_need sz \<le> n \<and> (c, n) \<notin> alloc_blocks (unat (heap_start s)) bs \<and>
       alloc_blocks (unat (heap_start s)) bs' = insert (c, n) (alloc_blocks (unat (heap_start s)) bs) \<and>
       in_use bs' = in_use bs + n \<and> extent bs' = extent bs \<and>
       keeps (alloc_blocks (unat (heap_start s)) bs) (memory s) (memory s'))"
proof -
  let ?a = "unat (heap_start s)" and ?k = "block_need sz"
  note hs = heap_shapeD [OF sh]
  note k = kmalloc_total_size [OF sz(2)]
  have small: "fst b < 2 ^ 64" if "b \<in> set bs" for b
    using that hs(4) member_le_sum_list [of "fst b" "map fst bs"] by (auto simp: extent_def)
  from first_fit_cases [of "of_nat ?k" ?a bs] show ?thesis
  proof (elim disjE exE conjE)
    assume f: "first_fit (of_nat ?k) ?a bs = 0" and no: "\<forall>b\<in>set bs. snd b \<or> of_nat (fst b) < (of_nat ?k :: u64)"
    have "find_free_block (of_nat ?k) s = Some 0"
      using find_free_from_blocks [OF hs(1) _ hs(4), of "of_nat ?k"] hs f by (simp add: find_free_block_def)
    then have "kmalloc sz s = Some (0, s)"
      using sz(1) unfolding kmalloc_def Let_def k(1) by simp
    moreover have "fst b < ?k" if "b \<in> set bs" "\<not> snd b" for b
      using no that small [OF that(1)] k(2) by (auto simp: word_less_nat_alt unat_of_nat_small)
    ultimately show ?thesis by blast
  next
    fix xs n ys
    assume bs: "bs = xs @ (n, False) # ys" and f: "first_fit (of_nat ?k) ?a bs = of_nat (?a + extent xs)"
      and n: "(of_nat ?k :: u64) \<le> of_nat n"
    have n': "?k \<le> n"
      using n small [of "(n, False)"] k(2) by (simp add: bs word_le_nat_alt unat_of_nat_small)
    obtain s' j where r: "kmalloc sz s = Some (of_nat (?a + extent xs + 40), s')" "?k \<le> j" "j \<le> n"
      "heap_shape s' (xs @ (j, True) # (if j = n then [] else [(n - j, False)]) @ ys)" "heap_start s' = heap_start s"
      "keeps (alloc_blocks ?a bs) (memory s) (memory s')"
      using kmalloc_found [OF sh sz bs f refl n'] by blast
    let ?bs' = "xs @ (j, True) # (if j = n then [] else [(n - j, False)]) @ ys"
    have "alloc_blocks ?a ?bs' = insert (?a + extent xs, j) (alloc_blocks ?a bs)"
      using r(3) by (auto simp: bs add.assoc)
    moreover have "in_use ?bs' = in_use bs + j" "extent ?bs' = extent bs" using r(3) by (auto simp: bs)
    moreover have "(?a + extent xs, j) \<notin> alloc_blocks ?a bs"
      using alloc_blocks_bounds [of "?a + extent xs" j ?a xs]
        alloc_blocks_bounds [of "?a + extent xs" j "?a + extent xs + n" ys] r(2) k(3) n' by (auto simp: bs)
    moreover have "of_nat (?a + extent xs + 40) \<noteq> (0 :: u64)"
      using hs(3,4) k(3) n' by (intro of_nat_nonzero) (auto simp: bs)
    ultimately show ?thesis using r by blast
  qed
qed

section \<open>Merging\<close>

text \<open>Joining a block with its successor.\<close>

definition join :: "u64 \<Rightarrow> u64 \<Rightarrow> mem \<Rightarrow> mem" where
  "join b c m =
     (let m = set_size b (blk_size m b + blk_size m c) m;
          m = set_next b (blk_next m c) m
      in if blk_next m c \<noteq> 0 then set_prev (blk_next m c) b m else m)"

lemma merge_next_join:
  "merge_next b m =
     (if blk_next m b \<noteq> 0 \<and> \<not> blk_allocated m (blk_next m b)
      then merge_next b (join b (blk_next m b) m) else Some m)"
  by (subst merge_next.simps) (simp add: join_def Let_def)

lemma merge_prev_join:
  "merge_prev b m =
     (if blk_prev m b \<noteq> 0 \<and> \<not> blk_allocated m (blk_prev m b)
      then merge_prev (blk_prev m b) (join (blk_prev m b) b m) else Some m)"
  by (subst merge_prev.simps) (simp add: join_def Let_def)

lemma blocks_join:
  assumes bl: "blocks m a p (xs @ (n, al) # (k, al2) # ys) 0" and tot: "a + extent (xs @ (n, al) # (k, al2) # ys) < 2 ^ 64"
    and a: "0 < a" and b: "b = of_nat (a + extent xs)" and c: "c = of_nat (a + extent xs + n)" and m': "m' = join b c m"
  shows "blocks m' a p (xs @ (n + k, al) # ys) 0"
    and "unat x < a + extent xs \<or> a + extent xs + 40 \<le> unat x \<and> unat x < a + extent xs + n + k \<or> a + extent xs + n + k + 40 \<le> unat x
      \<or> ys = [] \<and> a + extent xs + n + k \<le> unat x \<Longrightarrow> m' x = m x"
proof -
  define d where "d = a + extent xs"
  define Z where "Z = (of_nat (d + n + k) :: u64)"
  have bd: "b = of_nat d" and cd: "c = of_nat (d + n)" by (simp_all add: b c d_def)
  have dn: "d + n + k < 2 ^ 64" "d + n + k + extent ys < 2 ^ 64" using tot by (auto simp: d_def)
  have mid: "blocks m a p xs b" "40 \<le> n" "header m b n al c (last_block a p xs)"
     "40 \<le> k" "header m c k al2 (if ys = [] then 0 else Z) b" "blocks m (d + n + k) c ys 0"
    using bl unfolding blocks_middle by (auto simp: d_def [symmetric] bd [symmetric] cd [symmetric] Z_def simp del: of_nat_add)
  have ys40: "40 \<le> extent ys" if "ys \<noteq> []"
    using mid(6) that blocks_size_le by blast
  have ap: "apart b c" "apart c b"
    unfolding bd cd using mid dn by (intro apart_nat; simp)+
  have apZ: "apart b Z" "apart Z b" "apart c Z" "apart Z c" if "ys \<noteq> []"
    unfolding bd cd Z_def using mid dn ys40 [OF that] by (intro apart_nat; simp)+
  have Z0: "ys \<noteq> [] \<Longrightarrow> Z \<noteq> 0"
    unfolding Z_def d_def using a tot by (intro of_nat_nonzero) auto
  let ?m1 = "set_next b (if ys = [] then 0 else Z) (set_size b (of_nat (n + k)) m)"
  have m1: "m' = (if ys \<noteq> [] then set_prev Z b ?m1 else ?m1)"
    using mid ap Z0 by (auto simp: m' join_def Let_def header_def)
  have out: "m' x = m x" if "unat x < d \<or> d + 40 \<le> unat x \<and> unat x < d + n + k \<or> d + n + k + 40 \<le> unat x \<or> ys = [] \<and> d + n + k \<le> unat x" for x
  proof -
    have "\<not> in_region b 40 x" unfolding bd using that header_region [of d x] mid dn by force
    moreover have "\<not> in_region Z 40 x" if "ys \<noteq> []"
      unfolding Z_def using \<open>unat x < d \<or> _\<close> that header_region [of "d + n + k" x] ys40 [OF that] dn by force
    ultimately show ?thesis by (simp add: m1 set_out)
  qed
  then show "unat x < a + extent xs \<or> a + extent xs + 40 \<le> unat x \<and> unat x < a + extent xs + n + k \<or> a + extent xs + n + k + 40 \<le> unat x
      \<or> ys = [] \<and> a + extent xs + n + k \<le> unat x \<Longrightarrow> m' x = m x" by (simp add: d_def)
  have "blocks m' a p xs b = blocks m a p xs b"
    using dn by (intro blocks_cong out) (auto simp: d_def)
  moreover have "header m' b (n + k) al (if ys = [] then 0 else Z) (last_block a p xs)"
    using mid(3) ap apZ by (simp add: m1 header_def)
  moreover have "blocks m' (d + n + k) b ys 0"
  proof (cases ys)
    case (Cons y ys')
    obtain j al where y: "y = (j, al)" by fastforce
    have hY: "header m Z j al (if ys' = [] then 0 else of_nat (d + n + k + j)) c" "blocks m (d + n + k + j) Z ys' 0" "40 \<le> j"
      using mid(6) by (simp_all add: Cons y Z_def del: of_nat_add)
    then have "header m' Z j al (if ys' = [] then 0 else of_nat (d + n + k + j)) b"
      using ap apZ by (simp add: Cons m1 header_def del: of_nat_add)
    moreover have "blocks m' (d + n + k + j) Z ys' 0 = blocks m (d + n + k + j) Z ys' 0"
      using dn hY(3) by (intro blocks_cong out) (auto simp: Cons y)
    ultimately show ?thesis using hY by (simp add: Cons y Z_def del: of_nat_add)
  qed simp
  ultimately show "blocks m' a p (xs @ (n + k, al) # ys) 0"
    using mid unfolding blocks_middle
    by (auto simp: d_def [symmetric] bd [symmetric] Z_def [symmetric] add.assoc [symmetric] simp del: of_nat_add)
qed

lemma keeps_join:
  assumes "\<And>x. unat x < a + extent xs \<or> a + extent xs + 40 \<le> unat x \<and> unat x < a + extent xs + n + k \<or>
      a + extent xs + n + k + 40 \<le> unat x \<or> ys = [] \<and> a + extent xs + n + k \<le> unat x \<Longrightarrow> m' x = m x"
  shows "keeps (alloc_blocks a (xs @ (n, False) # (k, False) # ys)) m m'"
  unfolding keeps_def
proof (intro allI impI)
  fix d j and x :: u64
  assume d: "(d, j) \<in> alloc_blocks a (xs @ (n, False) # (k, False) # ys)" and x: "d + 40 \<le> unat x" "unat x < d + j"
  then have "(d, j) \<in> alloc_blocks a xs \<or> (d, j) \<in> alloc_blocks (a + extent xs + n + k) ys" by simp
  then show "m' x = m x"
    using alloc_blocks_bounds [of d j a xs] alloc_blocks_bounds [of d j "a + extent xs + n + k" ys] x by (intro assms) auto
qed

lemma merge_next_spec:
  assumes "blocks m a p (xs @ (n, False) # ys) 0" and "a + extent (xs @ (n, False) # ys) < 2 ^ 64" and "0 < a"
    and "b = of_nat (a + extent xs)"
  shows "\<exists>m' n' ys'. merge_next b m = Some m' \<and> blocks m' a p (xs @ (n', False) # ys') 0 \<and>
    n + extent ys = n' + extent ys' \<and> in_use ys' = in_use ys \<and>
    alloc_blocks (a + extent xs + n') ys' = alloc_blocks (a + extent xs + n) ys \<and>
    keeps (alloc_blocks a (xs @ (n, False) # ys)) m m'"
  using assms
proof (induction ys arbitrary: n m)
  case Nil
  then have "blk_next m b = 0" by (simp add: blocks_middle header_def)
  then have "merge_next b m = Some m" by (subst merge_next_join) simp
  with Nil show ?case by (intro exI [of _ m] exI [of _ n] exI [of _ "[]"]) simp
next
  case (Cons y ys)
  obtain k al where y: "y = (k, al)" by fastforce
  define c where "c = (of_nat (a + extent xs + n) :: u64)"
  have nx: "blk_next m b = c" "blk_allocated m c = al"
    using Cons.prems(1,4) unfolding blocks_middle by (auto simp: header_def c_def y simp del: of_nat_add)
  have c0: "c \<noteq> 0" unfolding c_def using Cons.prems(2,3) by (intro of_nat_nonzero) auto
  show ?case
  proof (cases al)
    case True
    then have "merge_next b m = Some m" by (subst merge_next_join) (simp add: nx)
    with Cons.prems(1) show ?thesis by (intro exI [of _ m] exI [of _ n] exI [of _ "y # ys"]) simp
  next
    case False
    then have al: "al = False" by simp
    note pr = Cons.prems [unfolded y]
    note j = blocks_join [OF pr(1-4) c_def refl]
    have step: "merge_next b m = merge_next b (join b c m)"
      using False nx c0 by (subst merge_next_join) simp
    have kj: "keeps (alloc_blocks a (xs @ (n, False) # (k, al) # ys)) m (join b c m)"
      unfolding al by (rule keeps_join) (rule j(2))
    have "a + extent (xs @ (n + k, False) # ys) < 2 ^ 64" using pr(2) by (simp add: ac_simps)
    from Cons.IH [OF j(1) this pr(3,4)] obtain m' n' ys' where
      r: "merge_next b (join b c m) = Some m'" "blocks m' a p (xs @ (n', False) # ys') 0"
        "n + k + extent ys = n' + extent ys'" "in_use ys' = in_use ys"
        "alloc_blocks (a + extent xs + n') ys' = alloc_blocks (a + extent xs + (n + k)) ys"
        "keeps (alloc_blocks a (xs @ (n + k, False) # ys)) (join b c m) m'" by auto
    have "alloc_blocks a (xs @ (n + k, False) # ys) = alloc_blocks a (xs @ (n, False) # (k, al) # ys)"
      using False by (simp add: add.assoc)
    with r(6) kj have "keeps (alloc_blocks a (xs @ (n, False) # (k, al) # ys)) m m'"
      using keeps_trans by metis
    with r step False show ?thesis
      unfolding y by (intro exI [of _ m'] exI [of _ n'] exI [of _ ys']) (simp add: add.assoc)
  qed
qed

lemma merge_prev_spec:
  assumes "blocks m a 0 (xs @ (n, False) # ys) 0" and "a + extent (xs @ (n, False) # ys) < 2 ^ 64" and "0 < a"
    and "b = of_nat (a + extent xs)"
  shows "\<exists>m' xs' n'. merge_prev b m = Some m' \<and> blocks m' a 0 (xs' @ (n', False) # ys) 0 \<and>
    extent xs + n = extent xs' + n' \<and> in_use xs' = in_use xs \<and> alloc_blocks a xs' = alloc_blocks a xs \<and>
    keeps (alloc_blocks a (xs @ (n, False) # ys)) m m'"
  using assms
proof (induction xs arbitrary: n m b rule: rev_induct)
  case Nil
  then have "blk_prev m b = 0" by (simp add: header_def)
  then have "merge_prev b m = Some m" by (subst merge_prev_join) simp
  with Nil show ?case by (intro exI [of _ m] exI [of _ "[]"] exI [of _ n]) simp
next
  case (snoc y xs)
  obtain k al where y: "y = (k, al)" by fastforce
  define c where "c = (of_nat (a + extent xs) :: u64)"
  have bl: "blocks m a 0 (xs @ (k, al) # (n, False) # ys) 0" using snoc.prems(1) by (simp add: y)
  have pv: "blk_prev m b = c" "blk_allocated m c = al"
    using bl snoc.prems(4) unfolding blocks_middle by (auto simp: header_def c_def y add.assoc)
  have c0: "c \<noteq> 0" unfolding c_def using snoc.prems(2,3) by (intro of_nat_nonzero) auto
  show ?case
  proof (cases al)
    case True
    then have "merge_prev b m = Some m" by (subst merge_prev_join) (simp add: pv)
    with snoc.prems(1) show ?thesis by (intro exI [of _ m] exI [of _ "xs @ [y]"] exI [of _ n]) simp
  next
    case False
    then have al: "al = False" by simp
    have tot: "a + extent (xs @ (k, al) # (n, False) # ys) < 2 ^ 64" using snoc.prems(2) by (simp add: y)
    have b: "b = of_nat (a + extent xs + k)" using snoc.prems(4) by (simp add: y add.assoc)
    note j = blocks_join [OF bl tot snoc.prems(3) c_def b refl]
    have step: "merge_prev b m = merge_prev c (join c b m)"
      using False pv c0 by (subst merge_prev_join) simp
    have kj: "keeps (alloc_blocks a (xs @ (k, al) # (n, False) # ys)) m (join c b m)"
      unfolding al by (rule keeps_join) (rule j(2))
    have "a + extent (xs @ (k + n, False) # ys) < 2 ^ 64" using tot by simp
    from snoc.IH [OF j(1) [unfolded al] this snoc.prems(3) c_def] obtain m' xs' n' where
      r: "merge_prev c (join c b m) = Some m'" "blocks m' a 0 (xs' @ (n', False) # ys) 0"
        "extent xs + (k + n) = extent xs' + n'" "in_use xs' = in_use xs" "alloc_blocks a xs' = alloc_blocks a xs"
        "keeps (alloc_blocks a (xs @ (k + n, False) # ys)) (join c b m) m'"
      using False by auto
    have "alloc_blocks a (xs @ (k + n, False) # ys) = alloc_blocks a (xs @ (k, al) # (n, False) # ys)"
      using False by (simp add: add.assoc)
    with r(6) kj have "keeps (alloc_blocks a (xs @ (k, al) # (n, False) # ys)) m m'"
      using keeps_trans by metis
    with r step False show ?thesis
      unfolding y by (intro exI [of _ m'] exI [of _ xs'] exI [of _ n']) (simp add: add.assoc)
  qed
qed

lemma merge_blocks_spec:
  assumes "blocks m a 0 (xs @ (n, False) # ys) 0" and "a + extent (xs @ (n, False) # ys) < 2 ^ 64" and "0 < a"
    and "b = of_nat (a + extent xs)"
  shows "\<exists>m' bs'. merge_blocks b m = Some m' \<and> bs' \<noteq> [] \<and> blocks m' a 0 bs' 0 \<and>
    extent bs' = extent (xs @ (n, False) # ys) \<and> in_use bs' = in_use (xs @ (n, False) # ys) \<and>
    alloc_blocks a bs' = alloc_blocks a (xs @ (n, False) # ys) \<and>
    keeps (alloc_blocks a (xs @ (n, False) # ys)) m m'"
proof -
  obtain m1 n1 ys1 where n: "merge_next b m = Some m1" "blocks m1 a 0 (xs @ (n1, False) # ys1) 0"
    "n + extent ys = n1 + extent ys1" "in_use ys1 = in_use ys"
    "alloc_blocks (a + extent xs + n1) ys1 = alloc_blocks (a + extent xs + n) ys"
    "keeps (alloc_blocks a (xs @ (n, False) # ys)) m m1"
    using merge_next_spec [OF assms] by blast
  have "a + extent (xs @ (n1, False) # ys1) < 2 ^ 64" using assms(2) n(3) by simp
  from merge_prev_spec [OF n(2) this assms(3,4)] obtain m2 xs2 n2 where
    p: "merge_prev b m1 = Some m2" "blocks m2 a 0 (xs2 @ (n2, False) # ys1) 0" "extent xs + n1 = extent xs2 + n2"
      "in_use xs2 = in_use xs" "alloc_blocks a xs2 = alloc_blocks a xs"
      "keeps (alloc_blocks a (xs @ (n1, False) # ys1)) m1 m2" by blast
  have "alloc_blocks a (xs @ (n1, False) # ys1) = alloc_blocks a (xs @ (n, False) # ys)" using n(5) by simp
  then have "keeps (alloc_blocks a (xs @ (n, False) # ys)) m m2" using n(6) p(6) keeps_trans by metis
  moreover have "alloc_blocks a (xs2 @ (n2, False) # ys1) = alloc_blocks a (xs @ (n, False) # ys)"
    using p(3,5) n(5) by (simp add: add.assoc)
  moreover have "merge_blocks b m = Some m2" using n(1) p(1) by (simp add: merge_blocks_def)
  ultimately show ?thesis
    using p n by (intro exI [of _ m2] exI [of _ "xs2 @ (n2, False) # ys1"]) simp
qed

section \<open>kfree\<close>

lemma valid_block:
  assumes sh: "heap_shape s bs" and bs: "bs = xs @ (n, al) # ys" and c: "c = unat (heap_start s) + extent xs"
  shows "is_valid_block (of_nat c) s" "blk_allocated (memory s) (of_nat c) = al"
    "blk_size (memory s) (of_nat c) = of_nat n"
proof -
  note hs = heap_shapeD [OF sh]
  have h: "header (memory s) (of_nat c) n al (if ys = [] then 0 else of_nat (c + n)) (last_block (unat (heap_start s)) 0 xs)" "40 \<le> n"
    using hs(1) unfolding bs blocks_middle by (auto simp: c)
  then show "blk_allocated (memory s) (of_nat c) = al" "blk_size (memory s) (of_nat c) = of_nat n"
    by (simp_all add: header_def)
  have cn: "c + n \<le> unat (heap_start s) + extent bs" by (simp add: bs c)
  have "(of_nat c :: u64) \<noteq> 0" using hs(3,4) cn h(2) by (intro of_nat_nonzero) (auto simp: c)
  moreover have uc: "unat (of_nat c :: u64) = c" using hs(4) cn h(2) by (intro unat_of_nat_small) simp
  moreover have "unat (heap_end s) = unat (heap_start s) + extent bs"
    using sh hs(4) unat_add_lem [of "heap_start s" "of_nat (extent bs)"]
    by (simp add: heap_shape_def unat_of_nat_small)
  ultimately show "is_valid_block (of_nat c) s"
    using h cn by (auto simp: is_valid_block_def header_def word_less_nat_alt word_le_nat_alt not_le c)
qed

lemma kfree_spec:
  assumes sh: "heap_shape s bs" and cn: "(c, n) \<in> alloc_blocks (unat (heap_start s)) bs"
  shows "\<exists>s' bs'. kfree (of_nat (c + 40)) s = Some s' \<and> heap_shape s' bs' \<and> heap_start s' = heap_start s \<and>
    alloc_blocks (unat (heap_start s)) bs' = alloc_blocks (unat (heap_start s)) bs - {(c, n)} \<and>
    in_use bs' + n = in_use bs \<and> extent bs' = extent bs \<and>
    keeps (alloc_blocks (unat (heap_start s)) bs - {(c, n)}) (memory s) (memory s')"
proof -
  let ?a = "unat (heap_start s)" and ?b = "of_nat c :: u64"
  note hs = heap_shapeD [OF sh]
  obtain xs ys where bs: "bs = xs @ (n, True) # ys" and c: "c = ?a + extent xs"
    using alloc_blocks_middle [OF cn] by blast
  note v = valid_block [OF sh bs c]
  let ?m1 = "set_allocated ?b False (memory s)" and ?bs1 = "xs @ (n, False) # ys"
  have bl1: "blocks ?m1 ?a 0 ?bs1 0"
    using hs(1,4) bs by (intro blocks_set_flag [where al = True]) (simp_all add: c)
  have n40: "40 \<le> n" using hs(1) by (simp add: bs blocks_middle)
  have tot: "?a + extent ?bs1 < 2 ^ 64" using hs(4) by (simp add: bs)
  have ab: "alloc_blocks ?a ?bs1 = alloc_blocks ?a bs - {(c, n)}"
    using alloc_blocks_bounds [of c n ?a xs] alloc_blocks_bounds [of c n "c + n" ys] n40 by (auto simp: bs c)
  obtain m' bs' where mg: "merge_blocks ?b ?m1 = Some m'" "bs' \<noteq> []" "blocks m' ?a 0 bs' 0"
    "extent bs' = extent ?bs1" "in_use bs' = in_use ?bs1" "alloc_blocks ?a bs' = alloc_blocks ?a ?bs1"
    "keeps (alloc_blocks ?a ?bs1) ?m1 m'"
    using merge_blocks_spec [OF bl1 tot] hs(3) c by auto
  have "?m1 x = memory s x" if "unat x < c \<or> c + n \<le> unat x" for x
    using that header_region [of c x] n40 tot by (intro set_out) (force simp: c)
  then have "keeps (alloc_blocks ?a ?bs1) (memory s) ?m1"
    by (intro keeps_outside) (auto simp: c)
  then have kp: "keeps (alloc_blocks ?a bs - {(c, n)}) (memory s) m'"
    using mg(7) keeps_trans unfolding ab by blast
  define s' where "s' = s\<lparr>memory := m', heap_used := heap_used s - of_nat n, heap_free := heap_free s + of_nat n,
    heap_frees := heap_frees s + 1\<rparr>"
  have "of_nat (c + 40) - HEAP_BLOCK_HEADER_SIZE = ?b" by (simp add: HEAP_BLOCK_HEADER_SIZE_def)
  moreover have "of_nat (c + 40) \<noteq> (0 :: u64)"
    using hs(3) n40 tot by (intro of_nat_nonzero) (auto simp: c)
  ultimately have "kfree (of_nat (c + 40)) s = Some s'"
    using v mg(1) by (simp add: kfree_def Let_def s'_def del: of_nat_add)
  moreover have "heap_shape s' bs'"
    using sh mg(2-5) unfolding heap_shape_def by (simp add: s'_def bs)
  ultimately show ?thesis
    using mg(4-6) ab kp by (intro exI [of _ s'] exI [of _ bs']) (simp add: s'_def bs)
qed

section \<open>Clients writing their blocks\<close>

lemma blocks_payload:
  assumes bl: "blocks m a p (xs @ (n, al) # ys) z" and tot: "a + extent (xs @ (n, al) # ys) < 2 ^ 64"
    and m': "\<And>x. unat x < a + extent xs + 40 \<or> a + extent xs + n \<le> unat x \<Longrightarrow> m' x = m x"
  shows "blocks m' a p (xs @ (n, al) # ys) z"
proof -
  let ?c = "a + extent xs"
  have n: "40 \<le> n" using bl by (simp add: blocks_middle)
  have "blocks m' a p xs (of_nat ?c) = blocks m a p xs (of_nat ?c)"
    using tot by (intro blocks_cong m') auto
  moreover have "blocks m' (?c + n) (of_nat ?c) ys z = blocks m (?c + n) (of_nat ?c) ys z"
    using tot by (intro blocks_cong m') auto
  moreover have "header m' (of_nat ?c) n al nx pv = header m (of_nat ?c) n al nx pv" for nx pv
    using header_region [of ?c] n tot by (intro header_cong) (auto intro!: m')
  ultimately show ?thesis
    using bl unfolding blocks_middle by simp
qed

lemma client_write:
  assumes sh: "heap_shape s bs" and cn: "(c, n) \<in> alloc_blocks (unat (heap_start s)) bs"
    and m': "\<And>x. unat x < c + 40 \<or> c + n \<le> unat x \<Longrightarrow> m' x = memory s x"
  shows "heap_shape (s\<lparr>memory := m'\<rparr>) bs"
    and "keeps (alloc_blocks (unat (heap_start s)) bs - {(c, n)}) (memory s) m'"
proof -
  let ?a = "unat (heap_start s)"
  note hs = heap_shapeD [OF sh]
  obtain xs ys where bs: "bs = xs @ (n, True) # ys" and c: "c = ?a + extent xs"
    using alloc_blocks_middle [OF cn] by blast
  have "blocks m' ?a 0 bs 0"
    unfolding bs by (rule blocks_payload [OF hs(1) [unfolded bs] hs(4) [unfolded bs]]) (rule m', simp add: c)
  then show "heap_shape (s\<lparr>memory := m'\<rparr>) bs"
    using sh by (simp add: heap_shape_def)
  show "keeps (alloc_blocks ?a bs - {(c, n)}) (memory s) m'"
    unfolding keeps_def
  proof (intro allI impI)
    fix d j and x :: u64
    assume d: "(d, j) \<in> alloc_blocks ?a bs - {(c, n)}" and x: "d + 40 \<le> unat x" "unat x < d + j"
    then have "(d, j) \<in> alloc_blocks ?a xs \<or> (d, j) \<in> alloc_blocks (c + n) ys" by (auto simp: bs c)
    then show "m' x = memory s x"
      using alloc_blocks_bounds [of d j ?a xs] alloc_blocks_bounds [of d j "c + n" ys] x by (intro m') (auto simp: c)
  qed
qed

text \<open>Blocks in use do not overlap.\<close>

lemma alloc_blocks_disjoint:
  assumes "(c, n) \<in> alloc_blocks a bs" and "(d, k) \<in> alloc_blocks a bs"
  shows "(c, n) = (d, k) \<or> c + n \<le> d \<or> d + k \<le> c"
  using assms
proof (induction a bs rule: alloc_blocks.induct)
  case (2 a j al bs)
  then show ?case
    using alloc_blocks_bounds [of c n "a + j" bs] alloc_blocks_bounds [of d k "a + j" bs] by (auto split: if_splits)
qed simp

lemma region_nat:
  assumes "in_region (of_nat c) sz x" and "c + unat sz < 2 ^ 64"
  shows "c \<le> unat x" "unat x < c + unat sz"
proof -
  have "unat (of_nat c :: u64) = c" using assms(2) by (simp add: unat_of_nat_small)
  moreover have "unat (x - of_nat c) < unat sz" using assms(1) by (simp add: in_region_def word_less_nat_alt)
  moreover have "unat x = (unat (x - of_nat c) + unat (of_nat c :: u64)) mod 2 ^ 64"
    using unat_word_ariths(1) [of "x - of_nat c" "of_nat c"] by simp
  ultimately show "c \<le> unat x" "unat x < c + unat sz" using assms(2) by simp_all
qed

lemma kcalloc_spec:
  assumes sh: "heap_shape s bs" and sz: "0 < unat count * unat sz" "unat count * unat sz + 55 < 2 ^ 64"
  shows "kcalloc count sz s = Some (0, s) \<or>
    (\<exists>c n s' bs'. kcalloc count sz s = Some (of_nat (c + 40), s') \<and> heap_shape s' bs' \<and>
       heap_start s' = heap_start s \<and> unat count * unat sz + 40 \<le> n \<and>
       alloc_blocks (unat (heap_start s)) bs' = insert (c, n) (alloc_blocks (unat (heap_start s)) bs) \<and>
       (\<forall>x. in_region (of_nat (c + 40)) (count * sz) x \<longrightarrow> memory s' x = 0) \<and>
       keeps (alloc_blocks (unat (heap_start s)) bs) (memory s) (memory s'))"
proof -
  let ?a = "unat (heap_start s)" and ?t = "count * sz"
  have ut: "unat ?t = unat count * unat sz" using sz(2) unat_mult_lem [of count sz] by simp
  then have t: "?t \<noteq> 0" "unat ?t + 55 < 2 ^ 64" using sz by (auto simp: unat_eq_zero [symmetric] simp del: unat_eq_zero)
  from kmalloc_spec [OF sh t] show ?thesis
  proof (elim disjE exE conjE)
    assume "kmalloc ?t s = Some (0, s)"
    then show ?thesis by (simp add: kcalloc_def)
  next
    fix c n s1 bs'
    assume r: "kmalloc ?t s = Some (of_nat (c + 40), s1)" "of_nat (c + 40) \<noteq> (0 :: u64)" "heap_shape s1 bs'"
      "heap_start s1 = heap_start s" "block_need ?t \<le> n" "(c, n) \<notin> alloc_blocks ?a bs"
      "alloc_blocks ?a bs' = insert (c, n) (alloc_blocks ?a bs)" "keeps (alloc_blocks ?a bs) (memory s) (memory s1)"
    let ?m = "mem_fill (of_nat (c + 40)) 0 ?t (memory s1)"
    define s2 where "s2 = s1\<lparr>memory := ?m\<rparr>"
    have n: "unat ?t + 40 \<le> n" using kmalloc_total_size(4) [OF t(2)] r(5) by simp
    have b: "c + n \<le> ?a + extent bs'" "?a + extent bs' < 2 ^ 64" using alloc_blocks_bounds [of c n ?a bs'] r(7) heap_shapeD(4) [OF r(3)] r(4) by auto
    have m': "?m x = memory s1 x" if "unat x < c + 40 \<or> c + n \<le> unat x" for x
      using region_nat [of "c + 40" ?t x] that n b by (auto simp: mem_fill_def simp del: of_nat_add)
    have "(c, n) \<in> alloc_blocks (unat (heap_start s1)) bs'" using r(4,7) by simp
    note cw = client_write [OF r(3) this m']
    have "keeps (alloc_blocks ?a bs) (memory s1) ?m"
      using cw(2) r(4,6,7) by (simp add: insert_Diff_if)
    then have "keeps (alloc_blocks ?a bs) (memory s) (memory s2)"
      using r(8) keeps_trans by (auto simp: s2_def)
    moreover have "kcalloc count sz s = Some (of_nat (c + 40), s2)"
      using r(1,2) by (simp add: kcalloc_def Let_def memory_set_fill s2_def del: of_nat_add)
    moreover have "\<forall>x. in_region (of_nat (c + 40)) ?t x \<longrightarrow> memory s2 x = 0"
      by (simp add: s2_def mem_fill_def del: of_nat_add)
    moreover have "heap_start s2 = heap_start s" "heap_shape s2 bs'" using r(4) cw(1) by (simp_all add: s2_def)
    moreover note r(7) n [unfolded ut]
    ultimately show ?thesis by blast
  qed
qed


text \<open>The payload of a block in use as an address range.\<close>

lemma payload_bounds:
  assumes "heap_shape s bs" and "(c, n) \<in> alloc_blocks (unat (heap_start s)) bs"
  shows "c + n < 2 ^ 64" "40 \<le> n" "unat (of_nat (c + 40) :: u64) \<le> c + n" "of_nat (c + 40) \<noteq> (0 :: u64)"
    "64 \<le> c"
proof -
  note hs = heap_shapeD [OF assms(1)]
  obtain xs ys where bs: "bs = xs @ (n, True) # ys" and c: "c = unat (heap_start s) + extent xs"
    using alloc_blocks_middle [OF assms(2)] by blast
  show n: "40 \<le> n" using hs(1) by (simp add: bs blocks_middle)
  show cn: "c + n < 2 ^ 64" and "64 \<le> c" using hs(3,4) by (simp_all add: bs c)
  show "of_nat (c + 40) \<noteq> (0 :: u64)" using hs(3) n cn by (intro of_nat_nonzero) auto
  show "unat (of_nat (c + 40) :: u64) \<le> c + n" using n cn by (subst unat_of_nat_small) auto
qed

lemma krealloc_unfold:
  assumes sh: "heap_shape s bs" and cn: "(c, n) \<in> alloc_blocks (unat (heap_start s)) bs" and sz: "sz \<noteq> 0"
  shows "krealloc (of_nat (c + 40)) sz s =
    (if unat sz \<le> n - 40 then Some (of_nat (c + 40), s)
     else case kmalloc sz s of None \<Rightarrow> None
       | Some (new_ptr, s1) \<Rightarrow> if new_ptr = 0 then Some (0, s1)
         else case kfree (of_nat (c + 40)) (s1\<lparr>memory := memory_copy new_ptr (of_nat (c + 40)) (of_nat (n - 40)) (memory s1)\<rparr>) of
           None \<Rightarrow> None | Some s2 \<Rightarrow> Some (new_ptr, s2))"
proof -
  note pb = payload_bounds [OF sh cn]
  obtain xs ys where bs: "bs = xs @ (n, True) # ys" and c: "c = unat (heap_start s) + extent xs"
    using alloc_blocks_middle [OF cn] by blast
  note v = valid_block [OF sh bs c]
  have b: "(of_nat (c + 40) :: u64) - HEAP_BLOCK_HEADER_SIZE = of_nat c" by (simp add: HEAP_BLOCK_HEADER_SIZE_def)
  have n: "(of_nat n :: u64) - HEAP_BLOCK_HEADER_SIZE = of_nat (n - 40)"
    using pb(2) by (simp add: HEAP_BLOCK_HEADER_SIZE_def of_nat_diff)
  have "sz \<le> of_nat (n - 40) \<longleftrightarrow> unat sz \<le> n - 40"
    using pb(1) by (subst word_le_nat_alt, subst unat_of_nat_small) auto
  then show ?thesis
    using sz pb(4) v unfolding krealloc_def Let_def b v(3) n by simp
qed

lemma krealloc_grow:
  assumes sh: "heap_shape s bs" and cn: "(c, n) \<in> alloc_blocks (unat (heap_start s)) bs"
    and sz: "n - 40 < unat sz" "unat sz + 55 < 2 ^ 64"
    and km: "kmalloc sz s = Some (of_nat (d + 40), s1)" "of_nat (d + 40) \<noteq> (0 :: u64)" "heap_shape s1 bs1"
      "heap_start s1 = heap_start s" "block_need sz \<le> k" "(d, k) \<notin> alloc_blocks (unat (heap_start s)) bs"
      "alloc_blocks (unat (heap_start s)) bs1 = insert (d, k) (alloc_blocks (unat (heap_start s)) bs)"
      "keeps (alloc_blocks (unat (heap_start s)) bs) (memory s) (memory s1)"
  shows "\<exists>s' bs'. krealloc (of_nat (c + 40)) sz s = Some (of_nat (d + 40), s') \<and> heap_shape s' bs' \<and>
    heap_start s' = heap_start s \<and>
    alloc_blocks (unat (heap_start s)) bs' = insert (d, k) (alloc_blocks (unat (heap_start s)) bs - {(c, n)}) \<and>
    (\<forall>i<n - 40. memory s' (of_nat (d + 40) + of_nat i) = memory s (of_nat (c + 40) + of_nat i)) \<and>
    keeps (alloc_blocks (unat (heap_start s)) bs - {(c, n)}) (memory s) (memory s')"
proof -
  let ?a = "unat (heap_start s)" and ?old = "of_nat (c + 40) :: u64" and ?new = "of_nat (d + 40) :: u64"
  let ?A = "alloc_blocks ?a bs"
  note pb = payload_bounds [OF sh cn]
  have dk: "(d, k) \<in> alloc_blocks (unat (heap_start s1)) bs1" "(c, n) \<in> alloc_blocks (unat (heap_start s1)) bs1"
    using km(4,7) cn by simp_all
  note pd = payload_bounds [OF km(3) dk(1)]
  have kn: "n \<le> k" using kmalloc_total_size(4) [OF sz(2)] km(5) sz(1) by simp
  have un: "unat (of_nat (n - 40) :: u64) = n - 40" using pb(1) by (intro unat_of_nat_small) simp
  have uo: "unat ?old = c + 40" "unat ?new = d + 40" using pb pd by (intro unat_of_nat_small; simp)+
  let ?m = "mem_move ?new ?old (of_nat (n - 40)) (memory s1)"
  have cp: "memory_copy ?new ?old (of_nat (n - 40)) (memory s1) = ?m"
    using memory_copy_move [of ?old "of_nat (n - 40)" ?new "memory s1"] pb pd kn un uo by simp
  have m': "?m x = memory s1 x" if "unat x < d + 40 \<or> d + k \<le> unat x" for x
  proof -
    have "d + 40 + unat (of_nat (n - 40) :: u64) \<le> d + k" using un kn pb(2) by simp
    then have "\<not> in_region ?new (of_nat (n - 40)) x"
      using region_nat [of "d + 40" "of_nat (n - 40)" x] that pd(1) by linarith
    then show ?thesis by (simp add: mem_move_def)
  qed
  note cw = client_write [OF km(3) dk(1) m']
  define s2 where "s2 = s1\<lparr>memory := ?m\<rparr>"
  have sh2: "heap_shape s2 bs1" "heap_start s2 = heap_start s" using cw(1) km(4) by (simp_all add: s2_def)
  have c2: "(c, n) \<in> alloc_blocks (unat (heap_start s2)) bs1" using km(7) cn sh2(2) by simp
  obtain s' bs' where kf: "kfree ?old s2 = Some s'" "heap_shape s' bs'" "heap_start s' = heap_start s2"
    "alloc_blocks ?a bs' = insert (d, k) ?A - {(c, n)}" "keeps (insert (d, k) ?A - {(c, n)}) ?m (memory s')"
    using kfree_spec [OF sh2(1) c2] sh2(2) km(7) by (auto simp: s2_def)
  have ne: "(d, k) \<noteq> (c, n)" using km(6) cn by auto
  have at: "unat (of_nat (e + 40) + of_nat i :: u64) = e + 40 + i" if "i < n - 40" "e + n < 2 ^ 64" for e i
    using that by (simp add: unat_of_nat_small flip: of_nat_add)
  have "memory s' (?new + of_nat i) = memory s (?old + of_nat i)" if i: "i < n - 40" for i
  proof -
    have "memory s' (?new + of_nat i) = ?m (?new + of_nat i)"
      using kf(5) ne at [OF i, of d] i kn pd(1) unfolding keeps_def by fastforce
    also have "\<dots> = memory s1 (?old + of_nat i)"
    proof -
      have "unat (of_nat i :: u64) = i" using i pb(1) by (intro unat_of_nat_small) simp
      then have "in_region ?new (of_nat (n - 40)) (?new + of_nat i)"
        using i un by (simp add: in_region_def word_less_nat_alt)
      then show ?thesis by (simp add: mem_move_def)
    qed
    also have "\<dots> = memory s (?old + of_nat i)"
      using km(8) cn at [OF i pb(1)] i unfolding keeps_def by fastforce
    finally show ?thesis .
  qed
  moreover have nz: "sz \<noteq> 0" using sz(1) by auto
  moreover have "krealloc ?old sz s = Some (?new, s')"
    using krealloc_unfold [OF sh cn nz] sz km(1,2) kf(1) by (simp add: cp s2_def del: of_nat_add)
  moreover have "keeps (?A - {(c, n)}) (memory s) (memory s')"
  proof (rule keeps_trans [OF keeps_trans])
    show "keeps (?A - {(c, n)}) (memory s) (memory s1)" using km(8) by (rule keeps_mono) blast
    show "keeps (?A - {(c, n)}) ?m (memory s')" using kf(5) by (rule keeps_mono) blast
    show "keeps (?A - {(c, n)}) (memory s1) ?m" using cw(2) by (rule keeps_mono) (use km(4,6,7) in auto)
  qed
  moreover have "insert (d, k) ?A - {(c, n)} = insert (d, k) (?A - {(c, n)})" using ne by blast
  ultimately show ?thesis using kf sh2(2) by auto
qed

lemma krealloc_spec:
  assumes sh: "heap_shape s bs" and cn: "(c, n) \<in> alloc_blocks (unat (heap_start s)) bs"
    and sz: "sz \<noteq> 0" "unat sz + 55 < 2 ^ 64"
  shows "krealloc (of_nat (c + 40)) sz s = Some (of_nat (c + 40), s) \<and> unat sz \<le> n - 40 \<or>
    krealloc (of_nat (c + 40)) sz s = Some (0, s) \<and> (\<forall>b\<in>set bs. snd b \<or> fst b < block_need sz) \<or>
    (\<exists>d k s' bs'. krealloc (of_nat (c + 40)) sz s = Some (of_nat (d + 40), s') \<and> of_nat (d + 40) \<noteq> (0 :: u64) \<and>
      heap_shape s' bs' \<and> heap_start s' = heap_start s \<and> block_need sz \<le> k \<and>
      alloc_blocks (unat (heap_start s)) bs' = insert (d, k) (alloc_blocks (unat (heap_start s)) bs - {(c, n)}) \<and>
      (\<forall>i<n - 40. memory s' (of_nat (d + 40) + of_nat i) = memory s (of_nat (c + 40) + of_nat i)) \<and>
      keeps (alloc_blocks (unat (heap_start s)) bs - {(c, n)}) (memory s) (memory s'))"
proof (cases "unat sz \<le> n - 40")
  case True
  then show ?thesis using krealloc_unfold [OF sh cn sz(1)] by simp
next
  case False
  from kmalloc_spec [OF sh sz] show ?thesis
  proof (elim disjE exE conjE)
    assume "kmalloc sz s = Some (0, s)" "\<forall>b\<in>set bs. snd b \<or> fst b < block_need sz"
    then show ?thesis using krealloc_unfold [OF sh cn sz(1)] False by simp
  next
    fix d k s1 bs1
    assume km: "kmalloc sz s = Some (of_nat (d + 40), s1)" "of_nat (d + 40) \<noteq> (0 :: u64)" "heap_shape s1 bs1"
      "heap_start s1 = heap_start s" "block_need sz \<le> k" "(d, k) \<notin> alloc_blocks (unat (heap_start s)) bs"
      "alloc_blocks (unat (heap_start s)) bs1 = insert (d, k) (alloc_blocks (unat (heap_start s)) bs)"
      "keeps (alloc_blocks (unat (heap_start s)) bs) (memory s) (memory s1)"
    from False have "n - 40 < unat sz" by simp
    from krealloc_grow [OF sh cn this sz(2) km] km(2,5) show ?thesis by blast
  qed
qed

section \<open>Initialisation\<close>

text \<open>The heap region: at least a page, rounded up to whole pages.\<close>

definition heap_extent :: "u64 \<Rightarrow> nat" where
  "heap_extent initial_size = (max (unat initial_size) 4096 + 4095) div 4096 * 4096"

lemma heap_extent_bounds:
  "unat initial_size \<le> heap_extent initial_size" "4096 \<le> heap_extent initial_size"
  "heap_extent initial_size < max (unat initial_size) 4096 + 4096"
  using round_up_bounds [of 4096 "max (unat initial_size) 4096"] by (simp_all add: heap_extent_def)

lemma heap_init_spec:
  assumes "64 \<le> unat start" and "unat start + heap_extent initial_size < 2 ^ 64"
  shows "fst (heap_init start initial_size s) = 0"
    and "heap_shape (snd (heap_init start initial_size s)) [(heap_extent initial_size, False)]"
    and "heap_start (snd (heap_init start initial_size s)) = start"
proof -
  define k :: u64 where "k = (if initial_size < PAGE_SIZE then PAGE_SIZE else initial_size)"
  define A where "A = (k + 4095 AND NOT (2 ^ 12 - 1))"
  have uk: "unat k = max (unat initial_size) 4096" by (auto simp: k_def PAGE_SIZE_def PAGE_SHIFT_def word_less_nat_alt max_def)
  obtain q where q: "heap_extent initial_size = 4096 * q" by (simp add: heap_extent_def)
  have "unat k \<le> 4096 * q" using heap_extent_bounds(1,2) [of initial_size] by (simp add: uk q)
  moreover have "4096 * q < 4096 * 2 ^ 52" using assms(2) by (simp add: q)
  ultimately have "unat k + 4095 < 2 ^ 64" by simp
  then have "unat A = heap_extent initial_size"
    using unat_add_lem [of k 4095] unfolding A_def unat_and_not_mask heap_extent_def uk by simp
  then have A: "A = of_nat (heap_extent initial_size)" using assms(2) by (simp add: word_unat_eq_iff unat_of_nat_small)
  have k': "k + PAGE_SIZE - 1 AND NOT (PAGE_SIZE - 1) = A"
    by (simp add: A_def PAGE_SIZE_def PAGE_SHIFT_def add.commute [of k])
  have e: "heap_init start initial_size s = (0, snd (heap_init start initial_size s))" 
     "snd (heap_init start initial_size s) = s\<lparr>heap_start := start, heap_end := start + A, heap_size := A,
       heap_used := 0, heap_free := A, heap_allocations := 0, heap_frees := 0, heap_first := start,
       memory := set_magic start HEAP_MAGIC (set_prev start 0 (set_next start 0 (set_allocated start False (set_size start A (memory s)))))\<rparr>"
    unfolding heap_init_def Let_def k_def [symmetric] k' by simp_all
  show "fst (heap_init start initial_size s) = 0" by (simp add: heap_init_def Let_def)
  show "heap_start (snd (heap_init start initial_size s)) = start" by (simp add: e(2))
  show "heap_shape (snd (heap_init start initial_size s)) [(heap_extent initial_size, False)]"
    unfolding e(2) heap_shape_def using assms heap_extent_bounds(2) [of initial_size]
    by (simp add: header_def A extent_def in_use_def)
qed

text \<open>The memory determines the shape.\<close>

lemma blocks_unique:
  assumes "blocks m a p bs 0" and "blocks m a p bs' 0" and "bs \<noteq> []" and "bs' \<noteq> []"
    and "a + extent bs < 2 ^ 64" and "a + extent bs' < 2 ^ 64"
  shows "bs = bs'"
  using assms
proof (induction bs arbitrary: a p bs')
  case (Cons b bs)
  obtain n al n' al' bs2 where b: "b = (n, al)" "bs' = (n', al') # bs2"
    using Cons.prems(4) by (metis list.exhaust prod.exhaust)
  have h: "header m (of_nat a) n al (if bs = [] then 0 else of_nat (a + n)) p"
    "header m (of_nat a) n' al' (if bs2 = [] then 0 else of_nat (a + n')) p" "40 \<le> n"
    using Cons.prems(1,2) by (auto simp: b)
  have lt: "a + n < 2 ^ 64" "a + n' < 2 ^ 64" using Cons.prems(5,6) by (auto simp: b)
  have "unat (of_nat n :: u64) = unat (of_nat n' :: u64)" using h by (simp add: header_def)
  then have n: "n = n'" using lt by (simp add: unat_of_nat_small)
  have "of_nat (a + n) \<noteq> (0 :: u64)" using lt h(3) by (intro of_nat_nonzero) auto
  then have "bs = [] \<longleftrightarrow> bs2 = []" using h by (auto simp: header_def n split: if_splits)
  moreover have "bs = bs2" if "bs \<noteq> []" "bs2 \<noteq> []"
    using Cons.prems(1,2,5,6) that by (intro Cons.IH [of "a + n" "of_nat a"]) (auto simp: b n)
  moreover have "al = al'" using h by (simp add: header_def)
  ultimately show ?case by (auto simp: b n)
qed simp

lemma heap_shape_unique: "heap_shape s bs \<Longrightarrow> heap_shape s bs' \<Longrightarrow> bs = bs'"
  unfolding heap_shape_def using blocks_unique by blast

section \<open>The heap as an object allocator\<close>

text \<open>
  What an operation of the heap changes: the memory and the counters. Everything a component layered
  above the heap keeps in its own fields stays the same.
\<close>

definition heap_frame :: "'a heap_scheme \<Rightarrow> 'a heap_scheme \<Rightarrow> bool" where
  "heap_frame s s' \<longleftrightarrow>
     s' = s\<lparr>memory := memory s', heap_used := heap_used s', heap_free := heap_free s',
            heap_allocations := heap_allocations s', heap_frees := heap_frees s'\<rparr>"

lemma heap_frame_refl [simp]: "heap_frame s s"
  by (simp add: heap_frame_def)

lemma heap_frame_trans [trans]: "heap_frame s s1 \<Longrightarrow> heap_frame s1 s2 \<Longrightarrow> heap_frame s s2"
  by (cases s, cases s1, cases s2) (simp add: heap_frame_def)

lemma heap_frame_memory [simp]: "heap_frame s (s1\<lparr>memory := m\<rparr>) \<longleftrightarrow> heap_frame s s1"
  by (cases s, cases s1) (simp add: heap_frame_def)

lemma heap_frameE:
  assumes "heap_frame s s'"
  obtains m u f a r where "s' = s\<lparr>memory := m, heap_used := u, heap_free := f, heap_allocations := a, heap_frees := r\<rparr>"
  using assms unfolding heap_frame_def by blast

lemma kmalloc_frame: "kmalloc sz s = Some (p, s') \<Longrightarrow> heap_frame s s'"
  by (auto simp: kmalloc_def Let_def heap_frame_def split: option.splits if_splits)

lemma kfree_frame: "kfree p s = Some s' \<Longrightarrow> heap_frame s s'"
  by (auto simp: kfree_def Let_def heap_frame_def split: option.splits if_splits)

lemma kcalloc_frame: "kcalloc count sz s = Some (p, s') \<Longrightarrow> heap_frame s s'"
  by (auto simp: kcalloc_def Let_def split: option.splits if_splits dest!: kmalloc_frame)

text \<open>
  The contract of an allocator of byte objects, the interface the process and thread managers rely on.
  \<open>live\<close> is the set of objects handed out, as address and capacity; \<open>frame s s'\<close> says that nothing but the
  allocator's own state and the memory differs.
\<close>

definition inside :: "u64 \<Rightarrow> nat \<Rightarrow> u64 \<Rightarrow> bool" where
  "inside p n x \<longleftrightarrow> unat p \<le> unat x \<and> unat x < unat p + n"

locale object_allocator =
  fixes alloc :: "u64 \<Rightarrow> 's \<Rightarrow> (u64 \<times> 's) option"
    and release :: "u64 \<Rightarrow> 's \<Rightarrow> 's option"
    and live :: "'s \<Rightarrow> (u64 \<times> nat) set"
    and ok :: "'s \<Rightarrow> bool"
    and frame :: "'s \<Rightarrow> 's \<Rightarrow> bool"
    and contents :: "'s \<Rightarrow> mem"
    and update :: "mem \<Rightarrow> 's \<Rightarrow> 's"
  assumes alloc_law: "ok s \<Longrightarrow> sz \<noteq> 0 \<Longrightarrow> unat sz + 55 < 2 ^ 64 \<Longrightarrow>
      alloc sz s = Some (0, s) \<or>
      (\<exists>p n s'. alloc sz s = Some (p, s') \<and> p \<noteq> 0 \<and> unat sz \<le> n \<and> p \<notin> fst ` live s \<and>
         live s' = insert (p, n) (live s) \<and> ok s' \<and> frame s s' \<and>
         (\<forall>(q, k)\<in>live s. \<forall>x. inside q k x \<longrightarrow> contents s' x = contents s x))"
    and release_law: "ok s \<Longrightarrow> (p, n) \<in> live s \<Longrightarrow>
      \<exists>s'. release p s = Some s' \<and> live s' = live s - {(p, n)} \<and> ok s' \<and> frame s s' \<and>
         (\<forall>(q, k)\<in>live s - {(p, n)}. \<forall>x. inside q k x \<longrightarrow> contents s' x = contents s x)"
    and write_law: "ok s \<Longrightarrow> (p, n) \<in> live s \<Longrightarrow> (\<And>x. \<not> inside p n x \<Longrightarrow> m x = contents s x) \<Longrightarrow>
      ok (update m s) \<and> live (update m s) = live s \<and> frame s (update m s) \<and> contents (update m s) = m"
    and live_law: "ok s \<Longrightarrow> (p, n) \<in> live s \<Longrightarrow> p \<noteq> 0 \<and> unat p + n < 2 ^ 64"
    and apart_law: "ok s \<Longrightarrow> (p, n) \<in> live s \<Longrightarrow> (q, k) \<in> live s \<Longrightarrow> p \<noteq> q \<Longrightarrow> inside p n x \<Longrightarrow> \<not> inside q k x"
    and live_fun: "ok s \<Longrightarrow> (p, n) \<in> live s \<Longrightarrow> (p, k) \<in> live s \<Longrightarrow> n = k"
    and frame_trans: "frame s s1 \<Longrightarrow> frame s1 s2 \<Longrightarrow> frame s s2"
begin

text \<open>A successful allocation adds one new object.\<close>

lemma alloc_fresh:
  assumes "ok s" and "sz \<noteq> 0" and "unat sz + 55 < 2 ^ 64" and "alloc sz s = Some (p, s')" and "p \<noteq> 0"
  shows "\<exists>n. unat sz \<le> n \<and> p \<notin> fst ` live s \<and> live s' = insert (p, n) (live s) \<and> ok s' \<and> frame s s'"
  using alloc_law [OF assms(1-3)] assms(4,5) by auto

text \<open>An allocation on a well-formed state returns.\<close>

lemma alloc_returns:
  assumes "ok s" and "sz \<noteq> 0" and "unat sz + 55 < 2 ^ 64" and "alloc sz s \<noteq> Some (0, s)"
  shows "\<exists>p s'. alloc sz s = Some (p, s') \<and> p \<noteq> 0"
  using alloc_law [OF assms(1-3)] assms(4) by auto

text \<open>
  An object that a client took and has to give back, because a later step failed: afterwards the
  objects are the ones there were before.
\<close>

lemma give_back:
  assumes "p \<notin> fst ` live s" and "live s1 = insert (p, n) (live s)" and "ok s1"
  shows "\<exists>s2. release p s1 = Some s2 \<and> live s2 = live s \<and> ok s2 \<and> frame s1 s2"
proof -
  obtain s2 where s2: "release p s1 = Some s2" "live s2 = live s1 - {(p, n)}" "ok s2" "frame s1 s2"
    using release_law [OF assms(3), of p n] assms(2) by auto
  have "(p, n) \<notin> live s" using assms(1) by force
  then have "live s2 = live s" using s2(2) assms(2) by auto
  then show ?thesis using s2 by blast
qed

end

definition live_objects :: "'a heap_scheme \<Rightarrow> (u64 \<times> nat) set" where
  "live_objects s =
     (\<Union>bs\<in>{bs. heap_shape s bs}. (\<lambda>(c, n). (of_nat (c + 40), n - 40)) ` alloc_blocks (unat (heap_start s)) bs)"

lemma live_objects_shape:
  assumes "heap_shape s bs"
  shows "live_objects s = (\<lambda>(c, n). (of_nat (c + 40), n - 40)) ` alloc_blocks (unat (heap_start s)) bs"
proof -
  have "{bs. heap_shape s bs} = {bs}" using heap_shape_unique [OF assms] assms by blast
  then show ?thesis by (simp add: live_objects_def)
qed

lemma payload_inside:
  assumes sh: "heap_shape s bs" and cn: "(c, n) \<in> alloc_blocks (unat (heap_start s)) bs"
  shows "unat (of_nat (c + 40) :: u64) = c + 40"
    and "inside (of_nat (c + 40)) (n - 40) x \<longleftrightarrow> c + 40 \<le> unat x \<and> unat x < c + n"
proof -
  note pb = payload_bounds [OF sh cn]
  show u: "unat (of_nat (c + 40) :: u64) = c + 40" using pb by (intro unat_of_nat_small) simp
  show "inside (of_nat (c + 40)) (n - 40) x \<longleftrightarrow> c + 40 \<le> unat x \<and> unat x < c + n"
    using pb(2) unfolding inside_def u by auto
qed

lemma keeps_inside:
  assumes sh: "heap_shape s bs" and A: "A \<subseteq> alloc_blocks (unat (heap_start s)) bs" and k: "keeps A (memory s) m"
    and q: "(q, k) \<in> (\<lambda>(c, n). (of_nat (c + 40), n - 40)) ` A" and x: "inside q k x"
  shows "m x = memory s x"
proof -
  obtain c n where cn: "(c, n) \<in> A" "q = of_nat (c + 40)" "k = n - 40" using q by (auto simp del: of_nat_add)
  have "c + 40 \<le> unat x" "unat x < c + n"
    using payload_inside(2) [OF sh subsetD [OF A cn(1)], of x] x unfolding cn(2,3) by auto
  then show ?thesis using k cn(1) unfolding keeps_def by blast
qed

lemma payload_inj:
  assumes sh: "heap_shape s bs" and cn: "(c, n) \<in> alloc_blocks (unat (heap_start s)) bs" "(d, k) \<in> alloc_blocks (unat (heap_start s)) bs"
    and eq: "of_nat (c + 40) = (of_nat (d + 40) :: u64)"
  shows "(c, n) = (d, k)"
proof -
  have "c = d" using payload_inside(1) [OF sh cn(1)] payload_inside(1) [OF sh cn(2)] unfolding eq by linarith
  then show ?thesis
    using alloc_blocks_disjoint [OF cn] payload_bounds(2) [OF sh cn(1)] payload_bounds(2) [OF sh cn(2)] by auto
qed

lemma kmalloc_alloc_law:
  assumes inv: "heap_inv s" and sz: "sz \<noteq> 0" "unat sz + 55 < 2 ^ 64"
  shows "kmalloc sz s = Some (0, s) \<or>
    (\<exists>p n s'. kmalloc sz s = Some (p, s') \<and> p \<noteq> 0 \<and> unat sz \<le> n \<and> p \<notin> fst ` live_objects s \<and>
       live_objects s' = insert (p, n) (live_objects s) \<and> heap_inv s' \<and> heap_frame s s' \<and>
       (\<forall>(q, k)\<in>live_objects s. \<forall>x. inside q k x \<longrightarrow> memory s' x = memory s x))"
proof -
  obtain bs where sh: "heap_shape s bs" using inv by (auto simp: heap_inv_def)
  from kmalloc_spec [OF sh sz] show ?thesis
  proof (elim disjE exE conjE)
    fix c n s' bs'
    assume k: "kmalloc sz s = Some (of_nat (c + 40), s')" "of_nat (c + 40) \<noteq> (0 :: u64)" "heap_shape s' bs'"
      "heap_start s' = heap_start s" "block_need sz \<le> n" "(c, n) \<notin> alloc_blocks (unat (heap_start s)) bs"
      "alloc_blocks (unat (heap_start s)) bs' = insert (c, n) (alloc_blocks (unat (heap_start s)) bs)"
      "keeps (alloc_blocks (unat (heap_start s)) bs) (memory s) (memory s')"
    note ls = live_objects_shape [OF sh] and ls' = live_objects_shape [OF k(3)]
    have "unat sz \<le> n - 40" using kmalloc_total_size(4) [OF sz(2)] k(5) by simp
    moreover have "of_nat (c + 40) \<notin> fst ` live_objects s"
    proof
      assume "of_nat (c + 40) \<in> fst ` live_objects s"
      then obtain d j where "(d, j) \<in> alloc_blocks (unat (heap_start s)) bs" "of_nat (c + 40) = (of_nat (d + 40) :: u64)"
        unfolding ls by (auto simp del: of_nat_add)
      then show False using payload_inj [OF k(3), of c n d j] k(4,6,7) by auto
    qed
    moreover have "live_objects s' = insert (of_nat (c + 40), n - 40) (live_objects s)"
      unfolding ls ls' k(4,7) by simp
    moreover have "heap_inv s'" "heap_frame s s'" using k(1,3) kmalloc_frame by (auto simp: heap_inv_def)
    moreover have "\<forall>(q, j)\<in>live_objects s. \<forall>x. inside q j x \<longrightarrow> memory s' x = memory s x"
      using keeps_inside [OF sh subset_refl k(8)] unfolding ls by blast
    ultimately show ?thesis using k(1,2) by blast
  qed simp
qed

lemma live_objects_minus:
  assumes sh: "heap_shape s bs" and cj: "(c, j) \<in> alloc_blocks (unat (heap_start s)) bs" "p = of_nat (c + 40)" "n = j - 40"
  shows "(\<lambda>(c, n). (of_nat (c + 40) :: u64, n - 40)) ` (alloc_blocks (unat (heap_start s)) bs - {(c, j)}) = live_objects s - {(p, n)}"
proof -
  let ?A = "alloc_blocks (unat (heap_start s)) bs" and ?f = "\<lambda>(c, n). (of_nat (c + 40) :: u64, n - 40)"
  have "inj_on ?f ?A"
    using payload_inj [OF sh] by (auto simp: inj_on_def simp del: of_nat_add)
  then show ?thesis
    using inj_on_image_set_diff [of ?f ?A ?A "{(c, j)}"] cj by (simp add: live_objects_shape [OF sh] del: of_nat_add)
qed

lemma kfree_release_law:
  assumes inv: "heap_inv s" and live: "(p, n) \<in> live_objects s"
  shows "\<exists>s'. kfree p s = Some s' \<and> live_objects s' = live_objects s - {(p, n)} \<and> heap_inv s' \<and> heap_frame s s' \<and>
    (\<forall>(q, k)\<in>live_objects s - {(p, n)}. \<forall>x. inside q k x \<longrightarrow> memory s' x = memory s x)"
proof -
  obtain bs where sh: "heap_shape s bs" using inv by (auto simp: heap_inv_def)
  let ?A = "alloc_blocks (unat (heap_start s)) bs"
  note ls = live_objects_shape [OF sh]
  obtain c j where cj: "(c, j) \<in> ?A" "p = of_nat (c + 40)" "n = j - 40"
    using live unfolding ls by (auto simp del: of_nat_add)
  obtain s' bs' where k: "kfree p s = Some s'" "heap_shape s' bs'" "heap_start s' = heap_start s"
    "alloc_blocks (unat (heap_start s)) bs' = ?A - {(c, j)}" "keeps (?A - {(c, j)}) (memory s) (memory s')"
    using kfree_spec [OF sh cj(1)] cj(2) by blast
  note img = live_objects_minus [OF sh cj]
  have "live_objects s' = live_objects s - {(p, n)}"
    using live_objects_shape [OF k(2)] unfolding k(3,4) img .
  moreover have "\<forall>(q, k)\<in>live_objects s - {(p, n)}. \<forall>x. inside q k x \<longrightarrow> memory s' x = memory s x"
    using keeps_inside [OF sh Diff_subset k(5)] unfolding img by blast
  ultimately show ?thesis using k(1,2) kfree_frame [OF k(1)] by (auto simp: heap_inv_def)
qed

lemma heap_shape_write:
  assumes sh: "heap_shape s bs" and live: "(p, n) \<in> live_objects s" and m: "\<And>x. \<not> inside p n x \<Longrightarrow> m x = memory s x"
  shows "heap_shape (s\<lparr>memory := m\<rparr>) bs"
proof -
  note ls = live_objects_shape [OF sh]
  obtain c j where cj: "(c, j) \<in> alloc_blocks (unat (heap_start s)) bs" "p = of_nat (c + 40)" "n = j - 40"
    using live unfolding ls by (auto simp del: of_nat_add)
  have m': "m x = memory s x" if "unat x < c + 40 \<or> c + j \<le> unat x" for x
    using payload_inside(2) [OF sh cj(1), of x] that by (intro m) (auto simp: cj(2,3) simp del: of_nat_add)
  show ?thesis by (rule client_write(1) [OF sh cj(1) m'])
qed

lemma heap_write_law:
  assumes inv: "heap_inv s" and live: "(p, n) \<in> live_objects s" and m: "\<And>x. \<not> inside p n x \<Longrightarrow> m x = memory s x"
  shows "heap_inv (s\<lparr>memory := m\<rparr>) \<and> live_objects (s\<lparr>memory := m\<rparr>) = live_objects s"
proof -
  obtain bs where sh: "heap_shape s bs" using inv by (auto simp: heap_inv_def)
  have sh': "heap_shape (s\<lparr>memory := m\<rparr>) bs" by (rule heap_shape_write [OF sh live m])
  then show ?thesis using live_objects_shape [OF sh'] live_objects_shape [OF sh] by (auto simp: heap_inv_def)
qed

lemma live_objects_bounds:
  assumes inv: "heap_inv s" and live: "(p, n) \<in> live_objects s"
  shows "p \<noteq> 0" "unat p + n < 2 ^ 64"
proof -
  obtain bs where sh: "heap_shape s bs" using inv by (auto simp: heap_inv_def)
  obtain c j where cj: "(c, j) \<in> alloc_blocks (unat (heap_start s)) bs" "p = of_nat (c + 40)" "n = j - 40"
    using live unfolding live_objects_shape [OF sh] by (auto simp del: of_nat_add)
  note pb = payload_bounds [OF sh cj(1)]
  show "p \<noteq> 0" unfolding cj(2) by (rule pb(4))
  show "unat p + n < 2 ^ 64" using pb(1,2) payload_inside(1) [OF sh cj(1)] unfolding cj(2,3) by simp
qed

lemma live_objects_apart:
  assumes inv: "heap_inv s" and p: "(p, n) \<in> live_objects s" and q: "(q, k) \<in> live_objects s"
  shows "p = q \<Longrightarrow> n = k" and "p \<noteq> q \<Longrightarrow> inside p n x \<Longrightarrow> \<not> inside q k x"
proof -
  obtain bs where sh: "heap_shape s bs" using inv by (auto simp: heap_inv_def)
  obtain c i where c: "(c, i) \<in> alloc_blocks (unat (heap_start s)) bs" "p = of_nat (c + 40)" "n = i - 40"
    using p unfolding live_objects_shape [OF sh] by (auto simp del: of_nat_add)
  obtain d j where d: "(d, j) \<in> alloc_blocks (unat (heap_start s)) bs" "q = of_nat (d + 40)" "k = j - 40"
    using q unfolding live_objects_shape [OF sh] by (auto simp del: of_nat_add)
  show "n = k" if "p = q" using payload_inj [OF sh c(1) d(1)] that unfolding c(2,3) d(2,3) by simp
  show "\<not> inside q k x" if "p \<noteq> q" "inside p n x"
    using that alloc_blocks_disjoint [OF c(1) d(1)] payload_inside(2) [OF sh c(1), of x] payload_inside(2) [OF sh d(1), of x]
    unfolding c(2,3) d(2,3) by auto
qed

interpretation kheap: object_allocator
  "kmalloc :: u64 \<Rightarrow> 'a heap_scheme \<Rightarrow> (u64 \<times> 'a heap_scheme) option" kfree live_objects heap_inv heap_frame memory
  "\<lambda>m s. s\<lparr>memory := m\<rparr>"
proof unfold_locales
  fix s :: "'a heap_scheme" and p n m
  assume a: "heap_inv s" "(p, n) \<in> live_objects s" "\<And>x. \<not> inside p n x \<Longrightarrow> m x = memory s x"
  show "heap_inv (s\<lparr>memory := m\<rparr>) \<and> live_objects (s\<lparr>memory := m\<rparr>) = live_objects s \<and>
    heap_frame s (s\<lparr>memory := m\<rparr>) \<and> memory (s\<lparr>memory := m\<rparr>) = m"
    using heap_write_law [OF a] by simp
qed (erule (2) kmalloc_alloc_law, erule (1) kfree_release_law, use live_objects_bounds in blast,
    erule (4) live_objects_apart(2), erule (2) live_objects_apart(1) [OF _ _ _ refl], erule (1) heap_frame_trans)

text \<open>The heap's invariant depends on the heap's own fields only.\<close>

lemma heap_view_cong:
  fixes s :: "'a heap_scheme" and t :: "'b heap_scheme"
  assumes "memory t = memory s" "heap_start t = heap_start s" "heap_end t = heap_end s" "heap_size t = heap_size s"
    "heap_used t = heap_used s" "heap_free t = heap_free s" "heap_first t = heap_first s"
  shows "heap_inv t = heap_inv s" "live_objects t = live_objects s" "heap_shape t bs = heap_shape s bs"
proof -
  have sh: "heap_shape t bs = heap_shape s bs" for bs using assms by (simp add: heap_shape_def)
  show "heap_shape t bs = heap_shape s bs" by (rule sh)
  show "heap_inv t = heap_inv s" "live_objects t = live_objects s"
    using assms sh by (simp_all add: heap_inv_def live_objects_def)
qed

lemma region_inside:
  assumes "in_region (p + k) l x" and "unat k + unat l \<le> n" and "unat p + n < 2 ^ 64"
  shows "inside p n x"
proof -
  have "p + k = of_nat (unat p + unat k)" by simp
  then show ?thesis
    using region_nat [of "unat p + unat k" l x] assms by (simp add: inside_def)
qed

section \<open>An example heap\<close>

definition heap_boot :: heap where
  "heap_boot = vmm.extend vmm_boot
     \<lparr>heap_start = 0, heap_end = 0, heap_size = 0, heap_used = 0, heap_free = 0, heap_first = 0,
      heap_allocations = 0, heap_frees = 0\<rparr>"

definition heap_small :: heap where
  "heap_small = snd (heap_init 0x1000000 0x10000 heap_boot)"

lemma heap_small_ok: "heap_shape heap_small [(65536, False)]" "heap_inv heap_small" "live_objects heap_small = {}"
proof -
  have "heap_extent 0x10000 = 65536" by (simp add: heap_extent_def)
  then show sh: "heap_shape heap_small [(65536, False)]"
    using heap_init_spec(2) [of "0x1000000" "0x10000" heap_boot] by (simp add: heap_small_def)
  then show "heap_inv heap_small" by (auto simp: heap_inv_def)
  show "live_objects heap_small = {}" by (simp add: live_objects_shape [OF sh])
qed

text \<open>A heap of one free block serves any request that fits.\<close>

lemma one_block_alloc:
  assumes sh: "heap_shape s [(k, False)]" and sz: "sz \<noteq> 0" "unat sz + 55 < 2 ^ 64" "block_need sz \<le> k"
  shows "\<exists>p n s'. kmalloc sz s = Some (p, s') \<and> p \<noteq> 0 \<and> unat sz \<le> n \<and> heap_inv s' \<and> live_objects s' = {(p, n)}"
proof -
  have inv: "heap_inv s" using sh by (auto simp: heap_inv_def)
  have "kmalloc sz s \<noteq> Some (0, s)" using kmalloc_spec [OF sh sz(1,2)] sz(3) by auto
  moreover have "live_objects s = {}" by (simp add: live_objects_shape [OF sh])
  ultimately show ?thesis using kmalloc_alloc_law [OF inv sz(1,2)] by auto
qed

text \<open>Room: the last block is free and has \<^term>\<open>k\<close> bytes. An allocation that fits there never fails.\<close>

definition heap_room :: "'a heap_scheme \<Rightarrow> nat \<Rightarrow> bool" where
  "heap_room s k \<longleftrightarrow> (\<exists>xs. heap_shape s (xs @ [(k, False)]))"

lemma heap_room_inv: "heap_room s k \<Longrightarrow> heap_inv s"
  by (auto simp: heap_room_def heap_inv_def)

lemma heap_room_alloc:
  assumes r: "heap_room s k" and sz: "sz \<noteq> 0" "unat sz + 55 < 2 ^ 64" and k: "block_need sz + 64 < k"
  shows "\<exists>p s' k'. kmalloc sz s = Some (p, s') \<and> p \<noteq> 0 \<and> heap_room s' k' \<and> k - block_need sz \<le> k'"
proof -
  obtain zs where sh: "heap_shape s (zs @ [(k, False)])" (is "heap_shape s ?bs") using r by (auto simp: heap_room_def)
  let ?a = "unat (heap_start s)"
  note hs = heap_shapeD [OF sh]
  have small: "fst b < 2 ^ 64" if "b \<in> set ?bs" for b
    using that hs(4) member_le_sum_list [of "fst b" "map fst ?bs"] by (force simp: extent_def)
  note bn = kmalloc_total_size [OF sz(2)]
  obtain xs n ys where bs: "?bs = xs @ (n, False) # ys" "first_fit (of_nat (block_need sz)) ?a ?bs = of_nat (?a + extent xs)"
    "(of_nat (block_need sz) :: u64) \<le> of_nat n"
    using first_fit_cases [of "of_nat (block_need sz)" ?a ?bs] k small [of "(k, False)"] bn(2)
    by (force simp: word_less_nat_alt unat_of_nat_small)
  have n: "block_need sz \<le> n"
    using bs small [of "(n, False)"] bn(2) by (simp add: word_le_nat_alt unat_of_nat_small)
  obtain s' j where r: "kmalloc sz s = Some (of_nat (?a + extent xs + 40), s')"
    "j = (if block_need sz + 64 < n then block_need sz else n)"
    "heap_shape s' (xs @ (j, True) # (if j = n then [] else [(n - j, False)]) @ ys)"
    using kmalloc_found [OF sh sz bs(1,2) refl n] by blast
  have nz: "of_nat (?a + extent xs + 40) \<noteq> (0 :: u64)"
    using hs(3,4) bn(3) n by (intro of_nat_nonzero) (auto simp: bs(1))
  have "\<exists>k'. heap_room s' k' \<and> k - block_need sz \<le> k'"
  proof (cases ys rule: rev_cases)
    case Nil
    then have "n = k" using bs(1) by auto
    then have "heap_shape s' ((xs @ [(j, True)]) @ [(k - block_need sz, False)])" using r(2,3) k Nil bn(3) by simp
    then show ?thesis unfolding heap_room_def by blast
  next
    case (snoc ys' y)
    then have "y = (k, False)" using bs(1) by auto
    then have "heap_shape s' ((xs @ (j, True) # (if j = n then [] else [(n - j, False)]) @ ys') @ [(k, False)])"
      using r(3) snoc by simp
    then have "heap_room s' k" unfolding heap_room_def by blast
    then show ?thesis by (intro exI [of _ k]) simp
  qed
  with r(1) nz show ?thesis by blast
qed

lemma heap_room_write:
  assumes room: "heap_room s k" and live: "(p, n) \<in> live_objects s" and m: "\<And>x. \<not> inside p n x \<Longrightarrow> m x = memory s x"
  shows "heap_room (s\<lparr>memory := m\<rparr>) k"
  using room heap_shape_write [OF _ live m] unfolding heap_room_def by blast

lemma heap_room_cong:
  fixes s :: "'a heap_scheme" and t :: "'b heap_scheme"
  assumes "memory t = memory s" "heap_start t = heap_start s" "heap_end t = heap_end s" "heap_size t = heap_size s"
    "heap_used t = heap_used s" "heap_free t = heap_free s" "heap_first t = heap_first s"
  shows "heap_room t k = heap_room s k"
  using heap_view_cong(3) [OF assms] by (simp add: heap_room_def)

lemma heap_small_alloc:
  assumes "sz \<noteq> 0" and "unat sz \<le> 60000"
  shows "\<exists>p n s. kmalloc sz heap_small = Some (p, s) \<and> p \<noteq> 0 \<and> unat sz \<le> n \<and> heap_inv s \<and> live_objects s = {(p, n)}"
proof -
  have "block_need sz \<le> 65536" using assms(2) round_up_bounds(2) [of 16 "unat sz"] by (simp add: block_need_def)
  then show ?thesis using one_block_alloc [OF heap_small_ok(1) assms(1)] assms(2) by simp
qed

section \<open>Properties\<close>

text \<open>
  \<^verbatim>\<open>heap_init\<close> on a region that does not wrap around succeeds and leaves a well-formed heap: one free block
  that spans the region, whose size is the requested one, at least a page, rounded up to whole pages. No object is live.
\<close>

theorem heap_init_correct:
  assumes "64 \<le> unat start" and "unat start + heap_extent initial_size < 2 ^ 64"
  shows "fst (heap_init start initial_size s) = 0 \<and>
    heap_shape (snd (heap_init start initial_size s)) [(heap_extent initial_size, False)] \<and>
    live_objects (snd (heap_init start initial_size s)) = {} \<and>
    heap_size (snd (heap_init start initial_size s)) = of_nat (heap_extent initial_size) \<and>
    heap_free (snd (heap_init start initial_size s)) = of_nat (heap_extent initial_size)"
proof -
  note sh = heap_init_spec(2) [OF assms, of s]
  have "live_objects (snd (heap_init start initial_size s)) = {}"
    by (simp add: live_objects_shape [OF sh])
  with sh heap_init_spec(1) [OF assms] show ?thesis
    by (auto simp: heap_shape_def extent_def in_use_def)
qed

theorem heap_init_correct_witness:
  "heap_shape (snd (heap_init 0x400000 0x100000 heap_boot)) [(0x100000, False)]"
  using heap_init_correct [of "0x400000" "0x100000" heap_boot] by (simp add: heap_extent_def)

text \<open>
  C1: \<^verbatim>\<open>kmalloc\<close> always returns on a well-formed heap. It returns a null pointer only when no free block is large enough,
  and then changes nothing. Otherwise it hands out an object of at least the requested size that overlaps no live
  object, keeps the heap well-formed, and changes no byte of any other object.
\<close>

theorem kmalloc_correct:
  assumes sh: "heap_shape s bs" and sz: "sz \<noteq> 0" "unat sz + 55 < 2 ^ 64"
  shows "kmalloc sz s = Some (0, s) \<and> (\<forall>b\<in>set bs. snd b \<or> fst b < block_need sz) \<or>
    (\<exists>p n s'. kmalloc sz s = Some (p, s') \<and> p \<noteq> 0 \<and> unat sz \<le> n \<and> heap_inv s' \<and>
       live_objects s' = insert (p, n) (live_objects s) \<and>
       (\<forall>(q, k)\<in>live_objects s. \<forall>x. inside q k x \<longrightarrow> \<not> inside p n x \<and> memory s' x = memory s x))"
proof -
  have inv: "heap_inv s" using sh by (auto simp: heap_inv_def)
  from kmalloc_alloc_law [OF inv sz] show ?thesis
  proof (elim disjE exE conjE)
    assume "kmalloc sz s = Some (0, s)"
    then show ?thesis using kmalloc_spec [OF sh sz] by auto
  next
    fix p n s'
    assume k: "kmalloc sz s = Some (p, s')" "p \<noteq> 0" "unat sz \<le> n" "p \<notin> fst ` live_objects s"
      "live_objects s' = insert (p, n) (live_objects s)" "heap_inv s'"
      "\<forall>(q, k)\<in>live_objects s. \<forall>x. inside q k x \<longrightarrow> memory s' x = memory s x"
    have "\<not> inside p n x" if "(q, j) \<in> live_objects s" "inside q j x" for q j x
    proof -
      have "q \<noteq> p" using that(1) k(4) by force
      then show ?thesis using live_objects_apart(2) [OF k(6), of q j p n x] that k(5) by simp
    qed
    then have "\<forall>(q, k)\<in>live_objects s. \<forall>x. inside q k x \<longrightarrow> \<not> inside p n x \<and> memory s' x = memory s x"
      using k(7) by fastforce
    with k(1-3,5,6) show ?thesis by (intro disjI2 exI conjI)
  qed
qed

theorem kmalloc_correct_witness:
  "\<exists>p n s'. kmalloc 100 heap_small = Some (p, s') \<and> p \<noteq> 0 \<and> 100 \<le> n \<and> heap_inv s' \<and> live_objects s' = {(p, n)}"
  using kmalloc_correct [OF heap_small_ok(1), of 100] by (auto simp: block_need_def heap_small_ok(3))

text \<open>
  C2: \<^verbatim>\<open>kfree\<close> of a live object always returns, removes exactly that object, keeps the heap well-formed and changes no byte
  of the other objects; the merging loops terminate.
\<close>

theorem kfree_correct:
  assumes "heap_inv s" and "(p, n) \<in> live_objects s"
  shows "\<exists>s'. kfree p s = Some s' \<and> heap_inv s' \<and> live_objects s' = live_objects s - {(p, n)} \<and>
    (\<forall>(q, k)\<in>live_objects s - {(p, n)}. \<forall>x. inside q k x \<longrightarrow> memory s' x = memory s x)"
  using kheap.release_law [OF assms] by blast

theorem kfree_correct_witness:
  "\<exists>p s s'. kmalloc 100 heap_small = Some (p, s) \<and> kfree p s = Some s' \<and> heap_inv s' \<and> live_objects s' = {}"
proof -
  obtain p n s where a: "kmalloc 100 heap_small = Some (p, s)" "heap_inv s" "live_objects s = {(p, n)}"
    using heap_small_alloc [of 100] by auto
  with kfree_correct [of s p n] show ?thesis by auto
qed

text \<open>
  \<^verbatim>\<open>kcalloc\<close>, when the product of its arguments does not overflow, returns either a null pointer with the state
  unchanged or a new object all of whose requested bytes are zero.
\<close>

theorem kcalloc_correct:
  assumes inv: "heap_inv s" and sz: "0 < unat count * unat sz" "unat count * unat sz + 55 < 2 ^ 64"
  shows "kcalloc count sz s = Some (0, s) \<or>
    (\<exists>p n s'. kcalloc count sz s = Some (p, s') \<and> p \<noteq> 0 \<and> unat count * unat sz \<le> n \<and> heap_inv s' \<and>
       live_objects s' = insert (p, n) (live_objects s) \<and>
       (\<forall>i<unat count * unat sz. memory s' (p + of_nat i) = 0))"
proof -
  obtain bs where sh: "heap_shape s bs" using inv by (auto simp: heap_inv_def)
  have ut: "unat (count * sz) = unat count * unat sz" using sz(2) unat_mult_lem [of count sz] by simp
  from kcalloc_spec [OF sh sz] show ?thesis
  proof (elim disjE exE conjE)
    fix c n s' bs'
    assume k: "kcalloc count sz s = Some (of_nat (c + 40), s')" "heap_shape s' bs'" "heap_start s' = heap_start s"
      "unat count * unat sz + 40 \<le> n"
      "alloc_blocks (unat (heap_start s)) bs' = insert (c, n) (alloc_blocks (unat (heap_start s)) bs)"
      "\<forall>x. in_region (of_nat (c + 40)) (count * sz) x \<longrightarrow> memory s' x = 0"
    have cn: "(c, n) \<in> alloc_blocks (unat (heap_start s')) bs'" by (simp add: k(3,5))
    have "\<forall>i<unat count * unat sz. memory s' (of_nat (c + 40) + of_nat i) = 0"
    proof (intro allI impI)
      fix i assume that: "i < unat count * unat sz"
      have "unat (of_nat i :: u64) = i" using that sz(2) by (intro unat_of_nat_small) simp
      then have "in_region (of_nat (c + 40)) (count * sz) (of_nat (c + 40) + of_nat i)"
        using that ut by (simp add: in_region_def word_less_nat_alt)
      then show "memory s' (of_nat (c + 40) + of_nat i) = 0" using k(6) by blast
    qed
    moreover have "live_objects s' = insert (of_nat (c + 40), n - 40) (live_objects s)"
      unfolding live_objects_shape [OF sh] live_objects_shape [OF k(2)] k(3,5) by simp
    moreover have "unat count * unat sz \<le> n - 40" "heap_inv s'" using k(2,4) by (auto simp: heap_inv_def)
    moreover note k(1) payload_bounds(4) [OF k(2) cn]
    ultimately show ?thesis by (intro disjI2 exI conjI)
  qed simp
qed

theorem kcalloc_correct_witness:
  "kcalloc 10 8 heap_small = Some (0, heap_small) \<or>
    (\<exists>p s'. kcalloc 10 8 heap_small = Some (p, s') \<and> p \<noteq> 0 \<and> (\<forall>i<80. memory s' (p + of_nat i) = 0))"
  using kcalloc_correct [OF heap_small_ok(2), of 10 8] by auto



end
