(* ===== verification/Chain.thy ===== *)
theory Chain
  imports Prelude "HOL-Library.Monad_Syntax"
begin

text \<open>
  Linked lists threaded through kernel objects. The kernel keeps processes, threads, drivers, devices
  and mounts on lists whose links are fields of the objects themselves. Objects of one type live in a
  store, a map from addresses to records; following a pointer that the store does not hold is a fault.

  A walk along such a list returns \<open>None\<close> when it faults or never ends. \<open>chain\<close> relates a list head
  to the sequence of addresses on the list; on a well-formed chain every walk returns.

  The locale \<open>intrusive_list\<close> is the contract of a link field: reading gives what was written. It is interpreted
  once per link field of the model.
\<close>

section \<open>Walks\<close>

type_synonym 'n store = "u64 \<rightharpoonup> 'n"

text \<open>The loop that searches a list: the first node with the property, or null.\<close>

partial_function (option) chain_find ::
    "('n \<Rightarrow> u64) \<Rightarrow> (u64 \<Rightarrow> 'n \<Rightarrow> bool) \<Rightarrow> 'n store \<Rightarrow> u64 \<Rightarrow> u64 option" where
  "chain_find nxt P h a =
     (if a = 0 then Some 0
      else (case h a of
              None \<Rightarrow> None
            | Some n \<Rightarrow> if P a n then Some a else chain_find nxt P h (nxt n)))"

text \<open>The loop that visits every node with an accumulator.\<close>

partial_function (option) chain_fold ::
    "('n \<Rightarrow> u64) \<Rightarrow> ('n \<Rightarrow> 'b \<Rightarrow> 'b) \<Rightarrow> 'n store \<Rightarrow> u64 \<Rightarrow> 'b \<Rightarrow> 'b option" where
  "chain_fold nxt f h a acc =
     (if a = 0 then Some acc
      else (case h a of
              None \<Rightarrow> None
            | Some n \<Rightarrow> chain_fold nxt f h (nxt n) (f n acc)))"

text \<open>
  The removal idiom: the head moves on when it is the node, otherwise the predecessor, if there is
  one, is linked to the successor. The result is the new head and the new store.
\<close>

definition unlink :: "('n \<Rightarrow> u64) \<Rightarrow> (u64 \<Rightarrow> 'n \<Rightarrow> 'n) \<Rightarrow> u64 \<Rightarrow> 'n store \<Rightarrow> u64 \<Rightarrow> (u64 \<times> 'n store) option" where
  "unlink nxt set_nxt p h a =
     (if a = p then do { n \<leftarrow> h p; Some (nxt n, h) }
      else do {
        q \<leftarrow> chain_find nxt (\<lambda>_ n. nxt n = p) h a;
        if q = 0 then Some (a, h)
        else do { n \<leftarrow> h p; m \<leftarrow> h q; Some (a, h(q \<mapsto> set_nxt (nxt n) m)) } })"

text \<open>
  The removal idiom of a doubly linked list: the predecessor, or the head, takes over the
  forward link and the successor the backward link.
\<close>

definition dunlink ::
    "('n \<Rightarrow> u64) \<Rightarrow> (u64 \<Rightarrow> 'n \<Rightarrow> 'n) \<Rightarrow> ('n \<Rightarrow> u64) \<Rightarrow> (u64 \<Rightarrow> 'n \<Rightarrow> 'n) \<Rightarrow> u64 \<Rightarrow> 'n store \<Rightarrow> u64 \<Rightarrow> (u64 \<times> 'n store) option" where
  "dunlink nxt set_nxt prv set_prv p h a = do {
     n \<leftarrow> h p;
     (a, h) \<leftarrow> (if prv n \<noteq> 0 then do { q \<leftarrow> h (prv n); Some (a, h(prv n \<mapsto> set_nxt (nxt n) q)) }
               else Some (nxt n, h));
     n \<leftarrow> h p;
     h \<leftarrow> (if nxt n \<noteq> 0 then do { q \<leftarrow> h (nxt n); Some (h(nxt n \<mapsto> set_prv (prv n) q)) }
          else Some h);
     Some (a, h) }"

text \<open>The insertion idiom: the node goes in front of the old head, if there is one.\<close>

definition dpush :: "(u64 \<Rightarrow> 'n \<Rightarrow> 'n) \<Rightarrow> (u64 \<Rightarrow> 'n \<Rightarrow> 'n) \<Rightarrow> u64 \<Rightarrow> 'n store \<Rightarrow> u64 \<Rightarrow> (u64 \<times> 'n store) option" where
  "dpush set_nxt set_prv p h a =
     (if a = 0 then Some (p, h)
      else do {
        n \<leftarrow> h p;
        let h = h(p \<mapsto> set_nxt a n);
        m \<leftarrow> h a;
        Some (p, h(a \<mapsto> set_prv p m)) })"

section \<open>Chains\<close>

fun chain :: "('n \<Rightarrow> u64) \<Rightarrow> 'n store \<Rightarrow> u64 \<Rightarrow> u64 list \<Rightarrow> u64 \<Rightarrow> bool" where
  "chain nxt h a [] z \<longleftrightarrow> a = z"
| "chain nxt h a (p # ps) z \<longleftrightarrow> a = p \<and> p \<noteq> 0 \<and> (\<exists>n. h p = Some n \<and> chain nxt h (nxt n) ps z)"

lemma chain_null [simp]: "chain nxt h 0 ps 0 \<longleftrightarrow> ps = []"
  by (cases ps) auto

lemma chain_append: "chain nxt h a (ps @ qs) z \<longleftrightarrow> (\<exists>b. chain nxt h a ps b \<and> chain nxt h b qs z)"
  by (induction ps arbitrary: a) auto

lemma chain_upd [simp]: "p \<notin> set ps \<Longrightarrow> chain nxt (h(p := v)) a ps z = chain nxt h a ps z"
  by (induction ps arbitrary: a) auto

lemma chain_unique: "chain nxt h a ps 0 \<Longrightarrow> chain nxt h a qs 0 \<Longrightarrow> ps = qs"
proof (induction ps arbitrary: a qs)
  case (Cons p ps)
  then show ?case by (cases qs) auto
qed simp

lemma chain_mem: "chain nxt h a ps z \<Longrightarrow> p \<in> set ps \<Longrightarrow> p \<noteq> 0 \<and> h p \<noteq> None"
  by (induction ps arbitrary: a) auto

lemma chain_distinct: "chain nxt h a ps 0 \<Longrightarrow> distinct ps"
proof (induction ps arbitrary: a)
  case (Cons p ps)
  then obtain n where n: "h p = Some n" "chain nxt h (nxt n) ps 0" by auto
  have "p \<notin> set ps"
  proof
    assume "p \<in> set ps"
    then obtain xs ys where ps: "ps = xs @ p # ys" by (auto simp: in_set_conv_decomp)
    then have "chain nxt h (nxt n) ys 0" using n by (auto simp: chain_append)
    then have "ys = ps" using chain_unique n(2) by metis
    then show False using ps by (metis append_Cons append_assoc append_self_conv2 list.distinct(1) self_append_conv)
  qed
  with Cons.IH [OF n(2)] show ?case by simp
qed simp

lemma chain_hd: "chain nxt h a ps 0 \<Longrightarrow> a = (if ps = [] then 0 else hd ps)"
  by (cases ps) auto

text \<open>A chain depends on the links of its nodes only.\<close>

lemma chain_cong:
  assumes "\<And>p n. p \<in> set ps \<Longrightarrow> h p = Some n \<Longrightarrow> \<exists>n'. h' p = Some n' \<and> nxt n' = nxt n"
  shows "chain nxt h a ps z \<Longrightarrow> chain nxt h' a ps z"
  using assms
proof (induction ps arbitrary: a)
  case (Cons p ps)
  obtain n where n: "h p = Some n" "chain nxt h (nxt n) ps z" "a = p" "p \<noteq> 0" using Cons.prems(1) by auto
  obtain n' where n': "h' p = Some n'" "nxt n' = nxt n" using Cons.prems(2) [of p n] n(1) by auto
  have "chain nxt h' (nxt n) ps z" using n(2) Cons.prems(2) by (intro Cons.IH) auto
  then show ?case using n n' by simp
qed simp

lemma chain_upd_same:
  assumes "chain nxt h a ps z" and "h p = Some n" and "nxt n' = nxt n"
  shows "chain nxt (h(p \<mapsto> n')) a ps z"
  using assms(1) by (rule chain_cong [rotated]) (use assms(2,3) in auto)

section \<open>Walks on chains\<close>

definition first_of :: "(u64 \<Rightarrow> bool) \<Rightarrow> u64 list \<Rightarrow> u64" where
  "first_of P ps = (case find P ps of None \<Rightarrow> 0 | Some p \<Rightarrow> p)"

lemma first_of_simps [simp]:
  "first_of P [] = 0" "first_of P (p # ps) = (if P p then p else first_of P ps)"
  by (simp_all add: first_of_def)

lemma first_of_0_iff: "0 \<notin> set ps \<Longrightarrow> first_of P ps = 0 \<longleftrightarrow> (\<forall>p\<in>set ps. \<not> P p)"
  by (induction ps) auto

lemma first_of_mem: "first_of P ps \<noteq> 0 \<Longrightarrow> first_of P ps \<in> set ps \<and> P (first_of P ps)"
  by (induction ps) (auto split: if_splits)

lemma first_of_cong: "(\<And>p. p \<in> set ps \<Longrightarrow> P p = Q p) \<Longrightarrow> first_of P ps = first_of Q ps"
  by (induction ps) auto

lemma first_of_unique:
  assumes "p \<in> set ps" and "P p" and "\<forall>q\<in>set ps. P q \<longrightarrow> q = p"
  shows "first_of P ps = p"
  using assms
proof (induction ps)
  case (Cons a ps)
  show ?case
  proof (cases "P a")
    case True
    then show ?thesis using Cons.prems(3) by simp
  next
    case False
    then show ?thesis using Cons by (metis first_of_simps(2) set_ConsD list.set_intros(2))
  qed
qed simp

lemma chain_find_chain:
  "chain nxt h a ps 0 \<Longrightarrow> chain_find nxt P h a = Some (first_of (\<lambda>p. P p (the (h p))) ps)"
proof (induction ps arbitrary: a)
  case Nil
  then show ?case by (subst chain_find.simps) simp
next
  case (Cons p ps)
  then obtain n where "a = p" "p \<noteq> 0" "h p = Some n" "chain nxt h (nxt n) ps 0" by auto
  with Cons.IH show ?case by (subst chain_find.simps) simp
qed

lemma chain_fold_chain:
  "chain nxt h a ps 0 \<Longrightarrow> chain_fold nxt f h a acc = Some (fold (\<lambda>p. f (the (h p))) ps acc)"
proof (induction ps arbitrary: a acc)
  case Nil
  then show ?case by (subst chain_fold.simps) simp
next
  case (Cons p ps)
  then obtain n where "a = p" "p \<noteq> 0" "h p = Some n" "chain nxt h (nxt n) ps 0" by auto
  with Cons.IH show ?case by (subst chain_fold.simps) simp
qed

section \<open>Link fields\<close>

locale intrusive_list =
  fixes nxt :: "'n \<Rightarrow> u64" and set_nxt :: "u64 \<Rightarrow> 'n \<Rightarrow> 'n"
  assumes nxt_set [simp]: "nxt (set_nxt v n) = v"
begin

lemma push:
  assumes "chain nxt h a ps 0" and "p \<noteq> 0" and "p \<notin> set ps"
  shows "chain nxt (h(p \<mapsto> set_nxt a n)) p (p # ps) 0"
  using assms by simp

lemma relink:
  assumes ch: "chain nxt h a (xs @ q # p # ys) 0" and n: "h p = Some n" and m: "h q = Some m"
  shows "chain nxt (h(q \<mapsto> set_nxt (nxt n) m)) a (xs @ q # ys) 0"
proof -
  have "distinct (xs @ q # p # ys)" using ch by (rule chain_distinct)
  then show ?thesis using ch n m by (auto simp: chain_append)
qed

text \<open>Unlinking removes exactly the node, and does nothing to a list that does not have it.\<close>

lemma unlink_absent:
  assumes ch: "chain nxt h a ps 0" and p: "p \<noteq> 0" "p \<notin> set ps"
  shows "unlink nxt set_nxt p h a = Some (a, h)"
proof -
  have "a \<noteq> p" using chain_hd [OF ch] p by (auto simp: hd_in_set split: if_splits)
  moreover have "chain nxt h b qs 0 \<Longrightarrow> set qs \<subseteq> set ps \<Longrightarrow> first_of (\<lambda>q. nxt (the (h q)) = p) qs = 0" for b qs
  proof (induction qs arbitrary: b)
    case (Cons q qs)
    then obtain n where n: "h q = Some n" "chain nxt h (nxt n) qs 0" by auto
    then have "nxt n \<noteq> p" using n(2) Cons.prems(2) p by (cases qs) auto
    then show ?case using Cons n by auto
  qed simp
  ultimately show ?thesis using chain_find_chain [OF ch] ch by (simp add: unlink_def)
qed

lemma predecessor:
  assumes "chain nxt h a (xs @ q # p # ys) 0" and "p \<noteq> 0"
  shows "first_of (\<lambda>r. nxt (the (h r)) = p) (xs @ q # p # ys) = q"
  using assms
proof (induction xs arbitrary: a)
  case (Cons x xs)
  then obtain n where n: "h x = Some n" "chain nxt h (nxt n) (xs @ q # p # ys) 0" "x \<noteq> 0" by auto
  have "distinct (xs @ q # p # ys)" using n(2) by (rule chain_distinct)
  then have "nxt n \<noteq> p" using chain_hd [OF n(2)] by (cases xs) auto
  then show ?case using Cons n by simp
qed auto

lemma unlink_member:
  assumes ch: "chain nxt h a ps 0" and p: "p \<in> set ps"
  shows "\<exists>a' h'. unlink nxt set_nxt p h a = Some (a', h') \<and> chain nxt h' a' (remove1 p ps) 0 \<and>
    (h' = h \<or> (\<exists>q m v. q \<in> set ps \<and> q \<noteq> p \<and> h q = Some m \<and> h' = h(q \<mapsto> set_nxt v m)))"
proof -
  have d: "distinct ps" using ch by (rule chain_distinct)
  obtain n where n: "h p = Some n" "p \<noteq> 0" using chain_mem [OF ch p] by auto
  obtain xs ys where ps: "ps = xs @ p # ys" using p by (auto simp: in_set_conv_decomp)
  show ?thesis
  proof (cases xs rule: rev_cases)
    case Nil
    then show ?thesis using ch n ps by (auto simp: unlink_def)
  next
    case (snoc zs q)
    then have ps': "ps = zs @ q # p # ys" using ps by simp
    have q: "q \<noteq> p" "p \<notin> set zs" using d ps' by auto
    obtain m where m: "h q = Some m" "q \<noteq> 0" using chain_mem [OF ch, of q] ps' by auto
    have "a \<noteq> p" using chain_hd [OF ch] ps' q by (cases zs) auto
    moreover have "chain_find nxt (\<lambda>_ r. nxt r = p) h a = Some q"
      using chain_find_chain [OF ch, of "\<lambda>_ r. nxt r = p"] predecessor [of h a zs q p ys] ch n(2) ps' by simp
    ultimately have "unlink nxt set_nxt p h a = Some (a, h(q \<mapsto> set_nxt (nxt n) m))"
      using n m by (simp add: unlink_def)
    moreover have "remove1 p ps = zs @ q # ys" using ps' q by (simp add: remove1_append)
    moreover have "chain nxt (h(q \<mapsto> set_nxt (nxt n) m)) a (zs @ q # ys) 0"
      by (rule relink [OF ch [unfolded ps'] n(1) m(1)])
    ultimately show ?thesis using m q ps' by auto
  qed
qed

end

section \<open>Doubly linked lists\<close>

text \<open>
  \<open>dseg nxt prv h b a ps z e\<close>: the nodes \<open>ps\<close> are linked in both directions, from \<open>a\<close>, whose predecessor
  is \<open>b\<close>, up to \<open>z\<close>, whose predecessor is \<open>e\<close>.
\<close>

fun dseg :: "('n \<Rightarrow> u64) \<Rightarrow> ('n \<Rightarrow> u64) \<Rightarrow> 'n store \<Rightarrow> u64 \<Rightarrow> u64 \<Rightarrow> u64 list \<Rightarrow> u64 \<Rightarrow> u64 \<Rightarrow> bool" where
  "dseg nxt prv h b a [] z e \<longleftrightarrow> a = z \<and> b = e"
| "dseg nxt prv h b a (p # ps) z e \<longleftrightarrow>
     a = p \<and> p \<noteq> 0 \<and> (\<exists>n. h p = Some n \<and> prv n = b \<and> dseg nxt prv h p (nxt n) ps z e)"

lemma dseg_chain: "dseg nxt prv h b a ps z e \<Longrightarrow> chain nxt h a ps z"
  by (induction ps arbitrary: a b) auto

lemma dseg_append:
  "dseg nxt prv h b a (ps @ qs) z e \<longleftrightarrow> (\<exists>a' b'. dseg nxt prv h b a ps a' b' \<and> dseg nxt prv h b' a' qs z e)"
  by (induction ps arbitrary: a b) auto

lemma dseg_upd [simp]: "p \<notin> set ps \<Longrightarrow> dseg nxt prv (h(p := v)) b a ps z e = dseg nxt prv h b a ps z e"
  by (induction ps arbitrary: a b) auto

lemma dseg_cong:
  assumes "dseg nxt prv h b a ps z e"
    and "\<And>p n. p \<in> set ps \<Longrightarrow> h p = Some n \<Longrightarrow> \<exists>n'. h' p = Some n' \<and> nxt n' = nxt n \<and> prv n' = prv n"
  shows "dseg nxt prv h' b a ps z e"
  using assms
proof (induction ps arbitrary: a b)
  case (Cons p ps)
  obtain n where n: "h p = Some n" "dseg nxt prv h p (nxt n) ps z e" "a = p" "p \<noteq> 0" "prv n = b"
    using Cons.prems(1) by auto
  obtain n' where n': "h' p = Some n'" "nxt n' = nxt n" "prv n' = prv n" using Cons.prems(2) [of p n] n(1) by auto
  have "dseg nxt prv h' p (nxt n) ps z e" using n(2) Cons.prems(2) by (intro Cons.IH) auto
  then show ?case using n n' by simp
qed simp

lemma dseg_upd_same:
  assumes "dseg nxt prv h b a ps z e" and "h p = Some n" and "nxt n' = nxt n" and "prv n' = prv n"
  shows "dseg nxt prv (h(p \<mapsto> n')) b a ps z e"
  using assms(1) by (rule dseg_cong) (use assms(2-) in auto)

locale doubly_linked = intrusive_list nxt set_nxt
  for nxt :: "'n \<Rightarrow> u64" and set_nxt :: "u64 \<Rightarrow> 'n \<Rightarrow> 'n" +
  fixes prv :: "'n \<Rightarrow> u64" and set_prv :: "u64 \<Rightarrow> 'n \<Rightarrow> 'n"
  assumes prv_set [simp]: "prv (set_prv v n) = v"
    and nxt_set_prv [simp]: "nxt (set_prv v n) = nxt n"
    and prv_set_nxt [simp]: "prv (set_nxt v n) = prv n"
begin

lemma relink_last:
  assumes "dseg nxt prv h b a (xs @ [q]) z q" and "distinct (xs @ [q])" and "h q = Some m"
  shows "dseg nxt prv (h(q \<mapsto> set_nxt v m)) b a (xs @ [q]) v q"
  using assms by (auto simp: dseg_append)

lemma relink_first:
  assumes "dseg nxt prv h b a (q # ys) z e" and "q \<notin> set ys" and "h q = Some m"
  shows "dseg nxt prv (h(q \<mapsto> set_prv v m)) v a (q # ys) z e"
  using assms by auto

text \<open>A new node in front, linked both ways.\<close>

lemma dpush_dseg:
  assumes ds: "dseg nxt prv h 0 a ps 0 e" and p: "p \<noteq> 0" "p \<notin> set ps" and n: "h p = Some n" "nxt n = 0" "prv n = 0"
  shows "\<exists>h' e'. dpush set_nxt set_prv p h a = Some (p, h') \<and> dseg nxt prv h' 0 p (p # ps) 0 e' \<and>
    (\<forall>q. q \<notin> set (p # ps) \<longrightarrow> h' q = h q) \<and>
    (\<forall>q n. h q = Some n \<longrightarrow> (\<exists>u v. h' q = Some n \<or> h' q = Some (set_nxt u n) \<or> h' q = Some (set_prv v n)))"
proof (cases ps)
  case Nil
  then show ?thesis using ds p n by (intro exI [of _ h] exI [of _ p]) (auto simp: dpush_def)
next
  case (Cons q zs)
  then obtain m where m: "a = q" "q \<noteq> 0" "h q = Some m" using ds by auto
  have d: "distinct ps" using dseg_chain [OF ds] by (rule chain_distinct)
  have "dpush set_nxt set_prv p h a = Some (p, h(p \<mapsto> set_nxt q n, q \<mapsto> set_prv p m))"
    using m n p Cons by (auto simp: dpush_def)
  then show ?thesis
    using ds m n p d Cons
    by (intro exI [of _ "h(p \<mapsto> set_nxt q n, q \<mapsto> set_prv p m)"] exI [of _ e]) auto
qed

text \<open>Removing a node leaves the other nodes linked in the same order.\<close>

lemma dunlink_dseg:
  assumes ds: "dseg nxt prv h 0 a (xs @ p # ys) 0 e"
  shows "\<exists>a' h' e'. dunlink nxt set_nxt prv set_prv p h a = Some (a', h') \<and> dseg nxt prv h' 0 a' (xs @ ys) 0 e' \<and>
    h' p = h p \<and> (\<forall>q. q \<notin> set (xs @ ys) \<longrightarrow> h' q = h q) \<and>
    (\<forall>q n. h q = Some n \<longrightarrow> (\<exists>u v. h' q = Some n \<or> h' q = Some (set_nxt u n) \<or> h' q = Some (set_prv v n)))"
proof -
  have d: "distinct (xs @ p # ys)" using dseg_chain [OF ds] by (rule chain_distinct)
  obtain n b where n: "h p = Some n" "p \<noteq> 0" "prv n = b" "dseg nxt prv h 0 a xs p b" "dseg nxt prv h p (nxt n) ys 0 e"
    using ds by (auto simp: dseg_append)
  obtain a1 h1 where 1: "(if b \<noteq> 0 then do { q \<leftarrow> h b; Some (a, h(b \<mapsto> set_nxt (nxt n) q)) } else Some (nxt n, h)) = Some (a1, h1)"
    "dseg nxt prv h1 0 a1 xs (nxt n) b" "b \<noteq> p" "h1 p = h p" "h1 = h \<or> b \<in> set xs \<and> (\<exists>m. h b = Some m \<and> h1 = h(b \<mapsto> set_nxt (nxt n) m))"
  proof (cases xs rule: rev_cases)
    case Nil
    then show ?thesis using n that [of "nxt n" h] by auto
  next
    case (snoc zs q)
    then have b: "b = q" using n(4) by (auto simp: dseg_append)
    obtain m where m: "h q = Some m" "q \<noteq> 0" using n(4) snoc by (auto simp: dseg_append)
    have "dseg nxt prv (h(q \<mapsto> set_nxt (nxt n) m)) 0 a (zs @ [q]) (nxt n) q"
      using relink_last [of h 0 a zs q p m "nxt n"] n(4) d m(1) b snoc by simp
    then show ?thesis using b m d snoc that [of a "h(q \<mapsto> set_nxt (nxt n) m)"] by auto
  qed
  have b1: "h1 q = h q" if "q \<notin> set xs" for q using 1(5) that by auto
  have bys: "h1 q = h q" if "q \<in> set ys" for q using b1 [of q] d that by auto
  have ys1: "dseg nxt prv h1 p (nxt n) ys 0 e"
    using n(5) by (rule dseg_cong) (auto simp: bys)
  have du: "dunlink nxt set_nxt prv set_prv p h a =
    do { h2 \<leftarrow> (if nxt n \<noteq> 0 then do { q \<leftarrow> h1 (nxt n); Some (h1(nxt n \<mapsto> set_prv b q)) } else Some h1); Some (a1, h2) }"
    unfolding dunlink_def n(1,3) Option.bind.bind_lunit 1(1) prod.case 1(4) ..
  show ?thesis
  proof (cases ys)
    case Nil
    then have "dunlink nxt set_nxt prv set_prv p h a = Some (a1, h1)"
      using ys1 unfolding du by simp
    moreover have "dseg nxt prv h1 0 a1 (xs @ ys) 0 b" using 1(2) ys1 Nil by simp
    moreover have "\<forall>q. q \<notin> set (xs @ ys) \<longrightarrow> h1 q = h q" using b1 by simp
    moreover have "\<forall>q n. h q = Some n \<longrightarrow> (\<exists>u v. h1 q = Some n \<or> h1 q = Some (set_nxt u n) \<or> h1 q = Some (set_prv v n))"
      using 1(5) by (auto, blast)
    moreover note 1(4)
    ultimately show ?thesis by (intro exI conjI)
  next
    case (Cons q zs)
    obtain m where m: "h1 q = Some m" "q \<noteq> 0" "nxt n = q" using ys1 Cons by auto
    define h2 where "h2 = h1(q \<mapsto> set_prv b m)"
    have q: "q \<notin> set xs" "q \<noteq> p" "q \<notin> set zs" using d Cons by auto
    have "dunlink nxt set_nxt prv set_prv p h a = Some (a1, h2)"
      using m by (simp add: du h2_def)
    moreover have "dseg nxt prv h2 0 a1 (xs @ ys) 0 e"
    proof -
      have "dseg nxt prv h2 b q (q # zs) 0 e"
        unfolding h2_def by (rule relink_first [of h1 p]) (use ys1 Cons m q in auto)
      moreover have "dseg nxt prv h2 0 a1 xs q b" using 1(2) m(3) q by (simp add: h2_def)
      ultimately show ?thesis unfolding Cons dseg_append by blast
    qed
    moreover have "\<forall>r. r \<notin> set (xs @ ys) \<longrightarrow> h2 r = h r" using b1 Cons by (simp add: h2_def)
    moreover have "\<forall>r n. h r = Some n \<longrightarrow> (\<exists>u v. h2 r = Some n \<or> h2 r = Some (set_nxt u n) \<or> h2 r = Some (set_prv v n))"
      using 1(5) q m b1 [of q] by (auto simp: h2_def, blast+)
    moreover have "h2 p = h p" using 1(4) q by (simp add: h2_def)
    ultimately show ?thesis by (intro exI conjI)
  qed
qed

end

end
