(* ===== verification/Process.thy ===== *)
theory Process
  imports Heap Chain
begin

text \<open>
  Process management, \<^verbatim>\<open>kernel/sched/process.c\<close>. A \<^verbatim>\<open>struct process\<close> is a record in the store \<open>procs\<close>, indexed by
  the address \<^verbatim>\<open>kmalloc\<close> returned; its \<^verbatim>\<open>name\<close> array, which is written with \<^verbatim>\<open>strncpy\<close>, stays in the byte
  memory at offset 8 of the object. An entry disappears when the object is given back with \<^verbatim>\<open>kfree\<close>, so
  following a stale pointer is a fault, and the result of an operation that faults or does not
  return is \<open>None\<close>.

  The invariant \<open>proc_inv\<close> says that the store holds exactly the processes on the global doubly linked
  list, that their identifiers are distinct and below \<open>next_pid\<close>, and that each of them is a live object
  of the heap. Under it creation, destruction and lookup are proved correct.
\<close>

unbundle bit_operations_syntax

section \<open>Data\<close>

datatype process_state =
    PROCESS_STATE_NEW | PROCESS_STATE_READY | PROCESS_STATE_RUNNING | PROCESS_STATE_WAITING
  | PROCESS_STATE_STOPPED | PROCESS_STATE_ZOMBIE | PROCESS_STATE_TERMINATED

definition PRIORITY_NORMAL :: u8 where
  "PRIORITY_NORMAL = 10"

definition PRIORITY_LEVELS :: u8 where
  "PRIORITY_LEVELS = 31"

definition TIME_SLICE_DEFAULT :: u32 where
  "TIME_SLICE_DEFAULT = 20"

definition USER_BASE :: u64 where
  "USER_BASE = 0x400000"

record process =
  pid :: u32
  ppid :: u32
  p_state :: process_state
  page_directory :: u64
  p_heap_start :: u64
  p_heap_end :: u64
  stack_start :: u64
  stack_end :: u64
  creation_time :: u64
  cpu_time :: u64
  last_scheduled :: u64
  p_priority :: u8
  nice :: u8
  p_time_slice :: u32
  p_remaining_time :: u32
  main_thread :: u64
  p_threads :: u64
  p_thread_count :: u32
  file_table :: u64
  signal_handlers :: u64
  parent :: u64
  children :: u64
  p_next :: u64
  p_prev :: u64

text \<open>The object after \<^verbatim>\<open>memset\<close> to zero.\<close>

definition zero_process :: process where
  "zero_process =
     \<lparr>pid = 0, ppid = 0, p_state = PROCESS_STATE_NEW, page_directory = 0, p_heap_start = 0, p_heap_end = 0,
      stack_start = 0, stack_end = 0, creation_time = 0, cpu_time = 0, last_scheduled = 0, p_priority = 0,
      nice = 0, p_time_slice = 0, p_remaining_time = 0, main_thread = 0, p_threads = 0, p_thread_count = 0,
      file_table = 0, signal_handlers = 0, parent = 0, children = 0, p_next = 0, p_prev = 0\<rparr>"

text \<open>Size of \<^verbatim>\<open>struct process\<close> and the place of its \<^verbatim>\<open>name\<close> array.\<close>

definition sizeof_process :: u64 where
  "sizeof_process = 232"

definition name_offset :: u64 where
  "name_offset = 8"

definition sizeof_name :: u64 where
  "sizeof_name = 64"

record process_stats =
  processes_created :: u64
  processes_destroyed :: u64
  p_context_switches :: u64
  p_total_cpu_time :: u64

record process_mgr = heap +
  procs :: "process store"
  process_list :: u64
  current_process :: u64
  next_pid :: u32
  process_count :: u32
  process_lock :: u32
  proc_stats :: process_stats
  fake_time :: u64

section \<open>Operations\<close>

definition process_init :: "'a process_mgr_scheme \<Rightarrow> int \<times> 'a process_mgr_scheme" where
  "process_init s =
     (kern_code KERN_SUCCESS,
      s\<lparr>process_list := 0, current_process := 0, next_pid := 1, process_count := 0, process_lock := 0,
        proc_stats := \<lparr>processes_created = 0, processes_destroyed = 0, p_context_switches = 0, p_total_cpu_time = 0\<rparr>\<rparr>)"

definition get_system_time :: "'a process_mgr_scheme \<Rightarrow> u64 \<times> 'a process_mgr_scheme" where
  "get_system_time s = (let t = fake_time s + 1 in (t, s\<lparr>fake_time := t\<rparr>))"

text \<open>Writing fields of the process at an address.\<close>

definition upd_proc :: "u64 \<Rightarrow> (process \<Rightarrow> process) \<Rightarrow> 'a process_mgr_scheme \<Rightarrow> 'a process_mgr_scheme option" where
  "upd_proc p f s = do { pr \<leftarrow> procs s p; Some (s\<lparr>procs := (procs s)(p \<mapsto> f pr)\<rparr>) }"

definition get_process :: "u32 \<Rightarrow> 'a process_mgr_scheme \<Rightarrow> u64 option" where
  "get_process i s = chain_find p_next (\<lambda>_ pr. pid pr = i) (procs s) (process_list s)"

definition allocate_process_memory :: "process \<Rightarrow> int \<times> process" where
  "allocate_process_memory pr =
     (let pr = pr\<lparr>p_heap_start := USER_BASE + 0x400000\<rparr>;
          pr = pr\<lparr>p_heap_end := p_heap_start pr\<rparr>;
          pr = pr\<lparr>stack_start := USER_BASE + 0x40000000\<rparr>;
          pr = pr\<lparr>stack_end := stack_start pr + 0x100000\<rparr>;
          pr = pr\<lparr>page_directory := 0\<rparr>
      in (kern_code KERN_SUCCESS, pr))"

definition cleanup_process_memory :: "process \<Rightarrow> process" where
  "cleanup_process_memory pr =
     (let pr = (if page_directory pr \<noteq> 0 then pr\<lparr>page_directory := 0\<rparr> else pr)
      in pr\<lparr>p_heap_start := 0, p_heap_end := 0, stack_start := 0, stack_end := 0\<rparr>)"

definition init_process_context :: "process \<Rightarrow> process" where
  "init_process_context pr = pr"

text \<open>Linking a new process to its parent, and putting it at the front of the global list.\<close>

definition link_parent :: "u64 \<Rightarrow> u32 \<Rightarrow> 'a process_mgr_scheme \<Rightarrow> 'a process_mgr_scheme option" where
  "link_parent proc parent_pid s =
     (if parent_pid \<noteq> 0 then do {
        par \<leftarrow> get_process parent_pid s;
        if par \<noteq> 0 then do {
          s \<leftarrow> upd_proc proc (\<lambda>pr. pr\<lparr>parent := par\<rparr>) s;
          upd_proc par (\<lambda>pr. if children pr = 0 then pr\<lparr>children := proc\<rparr> else pr) s
        } else Some s
      } else Some s)"

definition set_p_next :: "u64 \<Rightarrow> process \<Rightarrow> process" where
  "set_p_next v pr = pr\<lparr>p_next := v\<rparr>"

definition set_p_prev :: "u64 \<Rightarrow> process \<Rightarrow> process" where
  "set_p_prev v pr = pr\<lparr>p_prev := v\<rparr>"

definition link_process :: "u64 \<Rightarrow> 'a process_mgr_scheme \<Rightarrow> 'a process_mgr_scheme option" where
  "link_process proc s = do {
     (l, h) \<leftarrow> dpush set_p_next set_p_prev proc (procs s) (process_list s);
     Some (s\<lparr>process_list := l, procs := h\<rparr>) }"

definition create_process :: "u64 \<Rightarrow> u32 \<Rightarrow> 'a process_mgr_scheme \<Rightarrow> (u64 \<times> 'a process_mgr_scheme) option" where
  "create_process name parent_pid s =
     (if name = 0 then Some (0, s)
      else do {
        (proc, s) \<leftarrow> kmalloc sizeof_process s;
        if proc = 0 then Some (0, s)
        else do {
          let m = memset proc 0 sizeof_process (memory s);
          let pr = zero_process\<lparr>pid := next_pid s\<rparr>;
          let s = s\<lparr>next_pid := next_pid s + 1\<rparr>;
          let pr = pr\<lparr>ppid := parent_pid\<rparr>;
          let m = strncpy (proc + name_offset) name (sizeof_name - 1) m;
          let m = m(proc + name_offset + (sizeof_name - 1) := 0);
          let pr = pr\<lparr>p_state := PROCESS_STATE_NEW, p_priority := PRIORITY_NORMAL, nice := 0,
                      p_time_slice := TIME_SLICE_DEFAULT\<rparr>;
          let pr = pr\<lparr>p_remaining_time := p_time_slice pr\<rparr>;
          let (now, s) = get_system_time s;
          let pr = pr\<lparr>creation_time := now, cpu_time := 0, last_scheduled := 0\<rparr>;
          let (r, pr) = allocate_process_memory pr;
          let s = s\<lparr>memory := m\<rparr>;
          if r \<noteq> kern_code KERN_SUCCESS then do { s \<leftarrow> kfree proc s; Some (0, s) }
          else do {
            let pr = init_process_context pr;
            let pr = pr\<lparr>main_thread := 0, p_threads := 0, p_thread_count := 0, file_table := 0, signal_handlers := 0,
                        parent := 0, children := 0, p_next := 0, p_prev := 0\<rparr>;
            let s = s\<lparr>procs := (procs s)(proc \<mapsto> pr)\<rparr>;
            s \<leftarrow> link_parent proc parent_pid s;
            s \<leftarrow> link_process proc s;
            let st = proc_stats s;
            Some (proc, s\<lparr>process_count := process_count s + 1,
                          proc_stats := st\<lparr>processes_created := processes_created st + 1\<rparr>\<rparr>)
          } } })"

text \<open>Taking a process off the global list and off its parent.\<close>

definition unlink_process :: "u64 \<Rightarrow> 'a process_mgr_scheme \<Rightarrow> 'a process_mgr_scheme option" where
  "unlink_process proc s = do {
     (l, h) \<leftarrow> dunlink p_next set_p_next p_prev set_p_prev proc (procs s) (process_list s);
     Some (s\<lparr>process_list := l, procs := h\<rparr>) }"

definition unlink_parent :: "u64 \<Rightarrow> 'a process_mgr_scheme \<Rightarrow> 'a process_mgr_scheme option" where
  "unlink_parent proc s = do {
     pr \<leftarrow> procs s proc;
     if parent pr \<noteq> 0
     then upd_proc (parent pr) (\<lambda>q. if children q = proc then q\<lparr>children := 0\<rparr> else q) s
     else Some s }"

definition destroy_process :: "u32 \<Rightarrow> 'a process_mgr_scheme \<Rightarrow> (int \<times> 'a process_mgr_scheme) option" where
  "destroy_process i s = do {
     proc \<leftarrow> get_process i s;
     if proc = 0 then Some (kern_code KERN_NOTFOUND, s)
     else if proc = current_process s then Some (kern_code KERN_BUSY, s)
     else do {
       s \<leftarrow> upd_proc proc (\<lambda>pr. cleanup_process_memory
              (pr\<lparr>p_state := PROCESS_STATE_TERMINATED, p_thread_count := 0, p_threads := 0, main_thread := 0\<rparr>)) s;
       s \<leftarrow> unlink_process proc s;
       s \<leftarrow> unlink_parent proc s;
       s \<leftarrow> kfree proc s;
       let s = s\<lparr>procs := (procs s)(proc := None)\<rparr>;
       let st = proc_stats s;
       Some (kern_code KERN_SUCCESS,
             s\<lparr>process_count := process_count s - 1,
               proc_stats := st\<lparr>processes_destroyed := processes_destroyed st + 1\<rparr>\<rparr>) } }"

definition get_current_process :: "'a process_mgr_scheme \<Rightarrow> u64" where
  "get_current_process s = current_process s"

definition set_current_process :: "u64 \<Rightarrow> 'a process_mgr_scheme \<Rightarrow> 'a process_mgr_scheme option" where
  "set_current_process proc s =
     (let s = s\<lparr>current_process := proc\<rparr> in
      if proc \<noteq> 0 then do {
        s \<leftarrow> upd_proc proc (\<lambda>pr. pr\<lparr>p_state := PROCESS_STATE_RUNNING\<rparr>) s;
        let (now, s) = get_system_time s;
        upd_proc proc (\<lambda>pr. pr\<lparr>last_scheduled := now\<rparr>) s
      } else Some s)"

definition set_process_priority :: "u32 \<Rightarrow> u8 \<Rightarrow> 'a process_mgr_scheme \<Rightarrow> (int \<times> 'a process_mgr_scheme) option" where
  "set_process_priority i prio s =
     (if PRIORITY_LEVELS \<le> prio then Some (kern_code KERN_INVALID, s)
      else do {
        proc \<leftarrow> get_process i s;
        if proc = 0 then Some (kern_code KERN_NOTFOUND, s)
        else do {
          s \<leftarrow> upd_proc proc (\<lambda>pr. pr\<lparr>p_priority := prio\<rparr>) s;
          Some (kern_code KERN_SUCCESS, s) } })"

definition get_process_priority :: "u32 \<Rightarrow> 'a process_mgr_scheme \<Rightarrow> u8 option" where
  "get_process_priority i s = do {
     proc \<leftarrow> get_process i s;
     if proc = 0 then Some PRIORITY_LEVELS else do { pr \<leftarrow> procs s proc; Some (p_priority pr) } }"

definition suspend_process :: "u32 \<Rightarrow> 'a process_mgr_scheme \<Rightarrow> (int \<times> 'a process_mgr_scheme) option" where
  "suspend_process i s = do {
     proc \<leftarrow> get_process i s;
     if proc = 0 then Some (kern_code KERN_NOTFOUND, s)
     else do {
       pr \<leftarrow> procs s proc;
       if p_state pr = PROCESS_STATE_RUNNING \<or> p_state pr = PROCESS_STATE_READY then do {
         s \<leftarrow> upd_proc proc (\<lambda>pr. pr\<lparr>p_state := PROCESS_STATE_STOPPED\<rparr>) s;
         Some (kern_code KERN_SUCCESS, s)
       } else Some (kern_code KERN_ERROR, s) } }"

definition resume_process :: "u32 \<Rightarrow> 'a process_mgr_scheme \<Rightarrow> (int \<times> 'a process_mgr_scheme) option" where
  "resume_process i s = do {
     proc \<leftarrow> get_process i s;
     if proc = 0 then Some (kern_code KERN_NOTFOUND, s)
     else do {
       pr \<leftarrow> procs s proc;
       if p_state pr = PROCESS_STATE_STOPPED then do {
         s \<leftarrow> upd_proc proc (\<lambda>pr. pr\<lparr>p_state := PROCESS_STATE_READY\<rparr>) s;
         Some (kern_code KERN_SUCCESS, s)
       } else Some (kern_code KERN_ERROR, s) } }"

definition kill_process :: "u32 \<Rightarrow> int \<Rightarrow> 'a process_mgr_scheme \<Rightarrow> (int \<times> 'a process_mgr_scheme) option" where
  "kill_process i sig s = do {
     proc \<leftarrow> get_process i s;
     if proc = 0 then Some (kern_code KERN_NOTFOUND, s)
     else if sig = 9 then destroy_process i s
     else Some (kern_code KERN_SUCCESS, s) }"

text \<open>\<^verbatim>\<open>status\<close> is the address of the caller's 32-bit integer, or null.\<close>

definition wait_process :: "u32 \<Rightarrow> u64 \<Rightarrow> 'a process_mgr_scheme \<Rightarrow> (int \<times> 'a process_mgr_scheme) option" where
  "wait_process i status s = do {
     proc \<leftarrow> get_process i s;
     if proc = 0 then Some (kern_code KERN_NOTFOUND, s)
     else do {
       pr \<leftarrow> procs s proc;
       if p_state pr = PROCESS_STATE_TERMINATED \<or> p_state pr = PROCESS_STATE_ZOMBIE then
         Some (kern_code KERN_SUCCESS,
               if status \<noteq> 0 then s\<lparr>memory := store32 status 0 (memory s)\<rparr> else s)
       else Some (kern_code KERN_BUSY, s) } }"

text \<open>\<^verbatim>\<open>get_process_stats\<close>: total, active, created, destroyed, context switches.\<close>

definition get_process_stats :: "'a process_mgr_scheme \<Rightarrow> u32 \<times> u32 \<times> u64 \<times> u64 \<times> u64" where
  "get_process_stats s =
     (process_count s, process_count s, processes_created (proc_stats s), processes_destroyed (proc_stats s),
      p_context_switches (proc_stats s))"

section \<open>The invariant\<close>

interpretation proc_links: doubly_linked p_next set_p_next p_prev set_p_prev
  by unfold_locales (simp_all add: set_p_next_def set_p_prev_def)

definition pid_of :: "'a process_mgr_scheme \<Rightarrow> u64 \<Rightarrow> u32" where
  "pid_of s p = pid (the (procs s p))"

definition proc_inv :: "'a process_mgr_scheme \<Rightarrow> u64 list \<Rightarrow> bool" where
  "proc_inv s ps \<longleftrightarrow>
     heap_inv s \<and> (\<exists>e. dseg p_next p_prev (procs s) 0 (process_list s) ps 0 e) \<and> dom (procs s) = set ps \<and>
     (\<forall>p\<in>set ps. \<exists>n. unat sizeof_process \<le> n \<and> (p, n) \<in> live_objects s) \<and>
     distinct (map (pid_of s) ps) \<and> (\<forall>p\<in>set ps. 0 < pid_of s p \<and> pid_of s p < next_pid s) \<and>
     process_count s = of_nat (length ps) \<and> 0 < next_pid s"

text \<open>A process without its links: what list operations leave alone.\<close>

definition ident :: "process \<Rightarrow> process" where
  "ident pr = pr\<lparr>parent := 0, children := 0, p_next := 0, p_prev := 0\<rparr>"

definition same_ident :: "process store \<Rightarrow> process store \<Rightarrow> bool" where
  "same_ident h h' \<longleftrightarrow> (\<forall>q. map_option ident (h' q) = map_option ident (h q))"

lemma same_ident_refl [simp]: "same_ident h h"
  by (simp add: same_ident_def)

lemma same_ident_trans: "same_ident h h1 \<Longrightarrow> same_ident h1 h2 \<Longrightarrow> same_ident h h2"
  by (simp add: same_ident_def)

lemma same_ident_dom: "same_ident h h' \<Longrightarrow> dom h' = dom h"
  unfolding same_ident_def dom_def by (metis map_option_is_None)

lemma same_ident_the:
  assumes "same_ident h h'" and "h q = Some pr"
  shows "\<exists>pr'. h' q = Some pr' \<and> ident pr' = ident pr"
  using assms unfolding same_ident_def by (metis option.map(2) map_option_eq_Some)

lemma ident_pid: "ident pr' = ident pr \<Longrightarrow> pid pr' = pid pr \<and> p_state pr' = p_state pr \<and> ppid pr' = ppid pr"
  unfolding ident_def by (metis process.select_convs process.surjective process.update_convs)

text \<open>Initialising the object and its name writes inside the object.\<close>

definition init_bytes :: "u64 \<Rightarrow> u64 \<Rightarrow> mem \<Rightarrow> mem" where
  "init_bytes proc name m =
     (strncpy (proc + name_offset) name (sizeof_name - 1) (memset proc 0 sizeof_process m))
       (proc + name_offset + (sizeof_name - 1) := 0)"

lemma init_bytes_outside:
  assumes "unat sizeof_process \<le> n" and "unat proc + n < 2 ^ 64" and "\<not> inside proc n x"
  shows "init_bytes proc name m x = m x"
proof -
  have n: "232 \<le> n" using assms(1) by (simp add: sizeof_process_def)
  have "\<not> in_region (proc + name_offset) (sizeof_name - 1) x"
    using region_inside [of proc name_offset "sizeof_name - 1" x n] n assms(2,3)
    by (auto simp: name_offset_def sizeof_name_def)
  moreover have "\<not> in_region (proc + 0) sizeof_process x"
    using region_inside [of proc 0 sizeof_process x n] n assms(2,3) by (auto simp: sizeof_process_def)
  moreover have "x \<noteq> proc + name_offset + (sizeof_name - 1)"
  proof
    assume "x = proc + name_offset + (sizeof_name - 1)"
    then have "in_region (proc + 71) 1 x" by (simp add: name_offset_def sizeof_name_def in_region_def)
    then show False using region_inside [of proc 71 1 x n] n assms(2,3) by simp
  qed
  ultimately show ?thesis
    by (simp add: init_bytes_def strncpy_outside memset_fill mem_fill_def)
qed

lemma get_process_chain:
  assumes "chain p_next (procs s) (process_list s) ps 0"
  shows "get_process i s = Some (first_of (\<lambda>p. pid_of s p = i) ps)"
  using chain_find_chain [OF assms] by (simp add: get_process_def pid_of_def)

lemma proc_inv_chain: "proc_inv s ps \<Longrightarrow> chain p_next (procs s) (process_list s) ps 0"
  by (auto simp: proc_inv_def intro: dseg_chain)

lemma proc_inv_mem: "proc_inv s ps \<Longrightarrow> p \<in> set ps \<Longrightarrow> p \<noteq> 0 \<and> (\<exists>pr. procs s p = Some pr)"
  using chain_mem [OF proc_inv_chain] by blast

lemma get_process_found:
  assumes inv: "proc_inv s ps" and p: "p \<in> set ps" "pid_of s p = i"
  shows "get_process i s = Some p"
proof -
  have "distinct (map (pid_of s) ps)" using inv by (simp add: proc_inv_def)
  then have "first_of (\<lambda>q. pid_of s q = i) ps = p"
    using p by (intro first_of_unique) (auto simp: distinct_map inj_on_def)
  then show ?thesis using get_process_chain [OF proc_inv_chain [OF inv]] by simp
qed

lemma get_process_absent:
  assumes inv: "proc_inv s ps" and "\<forall>p\<in>set ps. pid_of s p \<noteq> i"
  shows "get_process i s = Some 0"
proof -
  have "0 \<notin> set ps" using proc_inv_mem [OF inv] by blast
  then show ?thesis
    using get_process_chain [OF proc_inv_chain [OF inv]] first_of_0_iff [of ps "\<lambda>p. pid_of s p = i"] assms(2) by auto
qed

text \<open>Two stores that differ in the family links only.\<close>

definition reparent :: "process store \<Rightarrow> process store \<Rightarrow> bool" where
  "reparent h h' \<longleftrightarrow> (\<forall>q. rel_option (\<lambda>pr pr'. \<exists>u v. pr' = pr\<lparr>parent := u, children := v\<rparr>) (h q) (h' q))"

lemma reparent_refl [simp]: "reparent h h"
  unfolding reparent_def by (intro allI option.rel_refl) (metis process.surjective process.update_convs(21,22))

lemma reparent_upd:
  assumes "reparent h h'" and "h' p = Some pr" and "pr' = pr\<lparr>parent := u, children := v\<rparr>"
  shows "reparent h (h'(p \<mapsto> pr'))"
  unfolding reparent_def
proof
  fix q
  show "rel_option (\<lambda>pr pr'. \<exists>u v. pr' = pr\<lparr>parent := u, children := v\<rparr>) (h q) ((h'(p \<mapsto> pr')) q)"
  proof (cases "q = p")
    case True
    obtain x a b where "h p = Some x" "pr = x\<lparr>parent := a, children := b\<rparr>"
      using assms(1) [unfolded reparent_def, rule_format, of p] assms(2) by (auto simp: option_rel_Some2)
    then show ?thesis using True assms(3) by auto
  next
    case False
    then show ?thesis using assms(1) by (simp add: reparent_def)
  qed
qed

lemma reparent_Some:
  assumes "reparent h h'" and "h q = Some pr"
  shows "\<exists>u v. h' q = Some (pr\<lparr>parent := u, children := v\<rparr>)"
  using assms(1) [unfolded reparent_def, rule_format, of q] assms(2) by (auto simp: option_rel_Some1)

lemma reparent_same_ident: "reparent h h' \<Longrightarrow> same_ident h h'"
  unfolding same_ident_def reparent_def
  by (rule allI, erule_tac x = q in allE) (auto simp: ident_def elim!: option.rel_cases)

lemma reparent_dseg: "reparent h h' \<Longrightarrow> dseg p_next p_prev h b a ps z e \<Longrightarrow> dseg p_next p_prev h' b a ps z e"
  by (erule dseg_cong) (auto dest: reparent_Some)

lemma link_parent_spec:
  assumes ch: "chain p_next (procs s) (process_list s) ps 0" and p: "procs s p = Some pr" "p \<notin> set ps" "parent pr = 0"
  shows "\<exists>h'. link_parent p i s = Some (s\<lparr>procs := h'\<rparr>) \<and> reparent (procs s) h' \<and>
    (\<exists>pr'. h' p = Some pr' \<and> parent pr' = (if i = 0 then 0 else first_of (\<lambda>q. pid_of s q = i) ps))"
proof -
  let ?q = "first_of (\<lambda>q. pid_of s q = i) ps"
  note g = get_process_chain [OF ch, of i]
  show ?thesis
  proof (cases "i = 0 \<or> ?q = 0")
    case True
    then have "link_parent p i s = Some (s\<lparr>procs := procs s\<rparr>)" by (auto simp: link_parent_def g)
    then show ?thesis using p True by (intro exI [of _ "procs s"]) auto
  next
    case False
    then have q: "?q \<in> set ps" "?q \<noteq> p" using first_of_mem [of "\<lambda>q. pid_of s q = i" ps] p(2) by auto
    then obtain qr where qr: "procs s ?q = Some qr" using chain_mem [OF ch] by blast
    let ?pr = "pr\<lparr>parent := ?q\<rparr>" and ?qr = "if children qr = 0 then qr\<lparr>children := p\<rparr> else qr"
    let ?h = "(procs s)(p \<mapsto> ?pr, ?q \<mapsto> ?qr)"
    have "link_parent p i s = Some (s\<lparr>procs := ?h\<rparr>)"
      using False p q qr by (simp add: link_parent_def g upd_proc_def)
    moreover have "reparent (procs s) ((procs s)(p \<mapsto> ?pr))"
      by (rule reparent_upd [where pr = pr and u = ?q and v = "children pr"]) (use p in auto)
    then have "reparent (procs s) ?h"
      by (rule reparent_upd [where pr = qr and u = "parent qr" and v = "children ?qr"]) (use q qr in auto)
    ultimately show ?thesis using q False by (intro exI [of _ ?h]) auto
  qed
qed

lemma links_same_ident:
  assumes "\<forall>q. q \<notin> S \<longrightarrow> h' q = h q" and "S \<subseteq> dom h"
    and "\<forall>q n. h q = Some n \<longrightarrow> (\<exists>u v. h' q = Some n \<or> h' q = Some (set_p_next u n) \<or> h' q = Some (set_p_prev v n))"
  shows "same_ident h h'"
  unfolding same_ident_def
proof
  fix q
  show "map_option ident (h' q) = map_option ident (h q)"
  proof (cases "h q")
    case None
    then have "q \<notin> S" using assms(2) by auto
    then show ?thesis using assms(1) None by simp
  next
    case (Some n)
    then show ?thesis using assms(3) by (fastforce simp: ident_def set_p_next_def set_p_prev_def)
  qed
qed

lemma link_process_spec:
  assumes ds: "dseg p_next p_prev (procs s) 0 (process_list s) ps 0 e" and dom: "dom (procs s) = insert p (set ps)"
    and p: "p \<noteq> 0" "p \<notin> set ps" "procs s p = Some pr" "p_next pr = 0" "p_prev pr = 0"
  shows "\<exists>h' e'. link_process p s = Some (s\<lparr>process_list := p, procs := h'\<rparr>) \<and>
    dseg p_next p_prev h' 0 p (p # ps) 0 e' \<and> same_ident (procs s) h' \<and> (\<exists>pr'. h' p = Some pr' \<and> parent pr' = parent pr)"
proof -
  obtain h' e' where h': "dpush set_p_next set_p_prev p (procs s) (process_list s) = Some (p, h')"
    "dseg p_next p_prev h' 0 p (p # ps) 0 e'" "\<forall>q. q \<notin> set (p # ps) \<longrightarrow> h' q = procs s q"
    "\<forall>q n. procs s q = Some n \<longrightarrow> (\<exists>u v. h' q = Some n \<or> h' q = Some (set_p_next u n) \<or> h' q = Some (set_p_prev v n))"
    using proc_links.dpush_dseg [OF ds p] by blast
  have "same_ident (procs s) h'" by (rule links_same_ident [OF h'(3) _ h'(4)]) (simp add: dom)
  moreover have "\<exists>pr'. h' p = Some pr' \<and> parent pr' = parent pr"
    using h'(4) [rule_format, OF p(3)] by (auto simp: set_p_next_def set_p_prev_def)
  ultimately show ?thesis using h'(1,2) by (auto simp: link_process_def)
qed

text \<open>The process \<^verbatim>\<open>create_process\<close> builds, before it is linked.\<close>

definition new_process :: "u32 \<Rightarrow> u32 \<Rightarrow> u64 \<Rightarrow> process" where
  "new_process i parent_pid now = zero_process\<lparr>pid := i, ppid := parent_pid, p_priority := PRIORITY_NORMAL,
     p_time_slice := TIME_SLICE_DEFAULT, p_remaining_time := TIME_SLICE_DEFAULT, creation_time := now,
     p_heap_start := USER_BASE + 0x400000, p_heap_end := USER_BASE + 0x400000,
     stack_start := USER_BASE + 0x40000000, stack_end := USER_BASE + 0x40000000 + 0x100000\<rparr>"

lemma new_process_fields [simp]:
  "ident (new_process i j t) = new_process i j t" "pid (new_process i j t) = i" "parent (new_process i j t) = 0"
  "p_next (new_process i j t) = 0" "p_prev (new_process i j t) = 0"
  by (simp_all add: new_process_def zero_process_def ident_def)

definition prepared :: "u64 \<Rightarrow> u64 \<Rightarrow> u32 \<Rightarrow> 'a process_mgr_scheme \<Rightarrow> 'a process_mgr_scheme" where
  "prepared p name i s =
     s\<lparr>next_pid := next_pid s + 1, fake_time := fake_time s + 1, memory := init_bytes p name (memory s),
       procs := (procs s)(p \<mapsto> new_process (next_pid s) i (fake_time s + 1))\<rparr>"

definition count_created :: "'a process_mgr_scheme \<Rightarrow> 'a process_mgr_scheme" where
  "count_created s = s\<lparr>process_count := process_count s + 1,
     proc_stats := (proc_stats s)\<lparr>processes_created := processes_created (proc_stats s) + 1\<rparr>\<rparr>"

lemma create_process_unfold:
  assumes "name \<noteq> 0" and "kmalloc sizeof_process s = Some (p, s1)" and "p \<noteq> 0"
  shows "create_process name i s = do {
    s2 \<leftarrow> link_parent p i (prepared p name i s1);
    s3 \<leftarrow> link_process p s2;
    Some (p, count_created s3) }"
  using assms
  by (simp add: create_process_def Let_def get_system_time_def allocate_process_memory_def init_process_context_def
      prepared_def new_process_def zero_process_def init_bytes_def count_created_def add.assoc)

lemma create_process_fail:
  assumes "name = 0 \<or> kmalloc sizeof_process s = Some (0, s)"
  shows "create_process name i s = Some (0, s)"
  using assms by (auto simp: create_process_def)

lemma proc_frame:
  assumes "heap_frame s s'"
  shows "procs s' = procs s" "process_list s' = process_list s" "next_pid s' = next_pid s"
    "process_count s' = process_count s" "fake_time s' = fake_time s" "current_process s' = current_process s"
    "pid_of s' = pid_of s"
  by (rule heap_frameE [OF assms], simp add: pid_of_def [abs_def])+

lemma pid_of_same_ident:
  assumes "same_ident (procs s) (procs s')" and "q \<in> dom (procs s)"
  shows "pid_of s' q = pid_of s q"
proof -
  obtain pr where pr: "procs s q = Some pr" using assms(2) by auto
  obtain pr' where pr': "procs s' q = Some pr'" "ident pr' = ident pr" using same_ident_the [OF assms(1) pr] by blast
  then show ?thesis using pr ident_pid [OF pr'(2)] by (simp add: pid_of_def)
qed

lemma create_process_spec:
  assumes inv: "proc_inv s ps" and name: "name \<noteq> 0" and np: "next_pid s + 1 \<noteq> 0"
    and km: "kmalloc sizeof_process s = Some (p, s1)" "p \<noteq> 0"
  shows "\<exists>s'. create_process name i s = Some (p, s') \<and> p \<notin> set ps \<and> proc_inv s' (p # ps) \<and> next_pid s' = next_pid s + 1 \<and>
    same_ident ((procs s)(p \<mapsto> new_process (next_pid s) i (fake_time s + 1))) (procs s') \<and>
    current_process s' = current_process s \<and> heap_frame s (s1 :: 'a process_mgr_scheme) \<and>
    memory s' = init_bytes p name (memory s1) \<and>
    (\<exists>pr. procs s' p = Some pr \<and> parent pr = (if i = 0 then 0 else first_of (\<lambda>q. pid_of s q = i) ps))"
proof -
  have I: "heap_inv s" "dom (procs s) = set ps" "\<forall>p\<in>set ps. \<exists>n. unat sizeof_process \<le> n \<and> (p, n) \<in> live_objects s"
    "distinct (map (pid_of s) ps)" "\<forall>p\<in>set ps. 0 < pid_of s p \<and> pid_of s p < next_pid s" "process_count s = of_nat (length ps)" "0 < next_pid s"
    using inv by (auto simp: proc_inv_def)
  obtain e where ds: "dseg p_next p_prev (procs s) 0 (process_list s) ps 0 e" using inv by (auto simp: proc_inv_def)
  obtain n where n: "unat sizeof_process \<le> n" "p \<notin> fst ` live_objects s" "live_objects s1 = insert (p, n) (live_objects s)"
    "heap_inv s1" "heap_frame s s1"
    using kheap.alloc_fresh [OF I(1) _ _ km] by (auto simp: sizeof_process_def)
  note fr = proc_frame [OF n(5)]
  have pn: "p \<notin> set ps" using I(3) n(2) by force
  define s2 where "s2 = prepared p name i s1"
  have pb: "unat p + n < 2 ^ 64" using live_objects_bounds(2) [OF n(4), of p n] n(3) by simp
  have hw: "heap_inv s2" "live_objects s2 = insert (p, n) (live_objects s)"
  proof -
    have "heap_inv (s1\<lparr>memory := init_bytes p name (memory s1)\<rparr>) \<and>
      live_objects (s1\<lparr>memory := init_bytes p name (memory s1)\<rparr>) = live_objects s1"
      by (rule heap_write_law [OF n(4), of p n]) (use n pb init_bytes_outside in auto)
    then show "heap_inv s2" "live_objects s2 = insert (p, n) (live_objects s)"
      using heap_view_cong [of "s1\<lparr>memory := init_bytes p name (memory s1)\<rparr>" s2] n(3) by (simp_all add: s2_def prepared_def)
  qed
  let ?new = "new_process (next_pid s) i (fake_time s + 1)"
  have p2: "procs s2 = (procs s)(p \<mapsto> ?new)" "process_list s2 = process_list s" "next_pid s2 = next_pid s + 1"
    "process_count s2 = process_count s" "current_process s2 = current_process s" "memory s2 = init_bytes p name (memory s1)"
    by (simp_all add: s2_def prepared_def fr)
  have ds2: "dseg p_next p_prev (procs s2) 0 (process_list s2) ps 0 e" using ds pn by (simp add: p2)
  have po: "first_of (\<lambda>q. pid_of s2 q = i) ps = first_of (\<lambda>q. pid_of s q = i) ps"
    using pn by (intro first_of_cong) (auto simp: pid_of_def p2(1))
  obtain h3 where h3: "link_parent p i s2 = Some (s2\<lparr>procs := h3\<rparr>)" "reparent (procs s2) h3"
    and par: "\<exists>pr'. h3 p = Some pr' \<and> parent pr' = (if i = 0 then 0 else first_of (\<lambda>q. pid_of s q = i) ps)"
    using link_parent_spec [OF dseg_chain [OF ds2], of p ?new i] pn unfolding po by (auto simp: p2(1))
  obtain u v where pr3: "h3 p = Some (?new\<lparr>parent := u, children := v\<rparr>)"
    using reparent_Some [OF h3(2), of p ?new] by (auto simp: p2(1))
  have dom3: "dom h3 = insert p (set ps)" using same_ident_dom [OF reparent_same_ident [OF h3(2)]] I(2) by (simp add: p2(1))
  obtain h4 e4 where h4: "link_process p (s2\<lparr>procs := h3\<rparr>) = Some (s2\<lparr>process_list := p, procs := h4\<rparr>)"
    "dseg p_next p_prev h4 0 p (p # ps) 0 e4" "same_ident h3 h4"
    "\<exists>pr'. h4 p = Some pr' \<and> parent pr' = (if i = 0 then 0 else first_of (\<lambda>q. pid_of s q = i) ps)"
    using link_process_spec [of "s2\<lparr>procs := h3\<rparr>" ps e p "?new\<lparr>parent := u, children := v\<rparr>"]
      reparent_dseg [OF h3(2) ds2] dom3 km(2) pn pr3 par by auto
  define s' where "s' = count_created (s2\<lparr>process_list := p, procs := h4\<rparr>)"
  have cr: "create_process name i s = Some (p, s')"
    using create_process_unfold [OF name km] h3(1) h4(1) by (simp add: s'_def s2_def)
  have p': "procs s' = h4" "process_list s' = p" "next_pid s' = next_pid s + 1" "process_count s' = of_nat (Suc (length ps))"
    "current_process s' = current_process s" "memory s' = init_bytes p name (memory s1)"
    by (simp_all add: s'_def count_created_def p2 I(6))
  have si: "same_ident (procs s2) (procs s')"
    using same_ident_trans [OF reparent_same_ident [OF h3(2)] h4(3)] by (simp add: p'(1))
  have d': "dom (procs s') = insert p (set ps)" using same_ident_dom [OF h4(3)] dom3 by (simp add: p'(1))
  have pid': "pid_of s' p = next_pid s" "\<And>q. q \<in> set ps \<Longrightarrow> pid_of s' q = pid_of s q"
  proof -
    show "pid_of s' p = next_pid s" using pid_of_same_ident [OF si, of p] by (simp add: p2(1) pid_of_def)
    show "pid_of s' q = pid_of s q" if "q \<in> set ps" for q
      using pid_of_same_ident [OF si, of q] that pn I(2) by (auto simp: p2(1) pid_of_def)
  qed
  have live': "heap_inv s'" "live_objects s' = insert (p, n) (live_objects s)"
    using heap_view_cong [of s' s2] hw by (simp_all add: s'_def count_created_def)
  have np': "next_pid s < next_pid s + 1"
    using np by (rule word_less_Suc)
  have pids: "0 < pid_of s' q" "pid_of s' q < next_pid s'" if "q \<in> set (p # ps)" for q
  proof -
    show "0 < pid_of s' q" "pid_of s' q < next_pid s'"
      using that pid' I(5,7) np' p'(3) by auto
  qed
  have "distinct (map (pid_of s') (p # ps))"
    using I(4,5) pid' by (auto simp: distinct_map inj_on_def)
  moreover have "\<exists>n. unat sizeof_process \<le> n \<and> (q, n) \<in> live_objects s'" if "q \<in> set (p # ps)" for q
    using that I(3) n(1) live'(2) by auto
  ultimately have "proc_inv s' (p # ps)"
    unfolding proc_inv_def using live'(1) h4(2) d' pids p' I(7) np' by auto
  then show ?thesis using cr pn p' si n(5) h4(4) by (auto simp: p2(1))
qed

lemma same_ident_upd: "same_ident h h' \<Longrightarrow> same_ident (h(p := x)) (h'(p := x))"
  by (simp add: same_ident_def)

definition retired :: "process \<Rightarrow> process" where
  "retired pr = cleanup_process_memory
     (pr\<lparr>p_state := PROCESS_STATE_TERMINATED, p_thread_count := 0, p_threads := 0, main_thread := 0\<rparr>)"

lemma retired_links [simp]:
  "p_next (retired pr) = p_next pr" "p_prev (retired pr) = p_prev pr" "parent (retired pr) = parent pr"
  by (simp_all add: retired_def cleanup_process_memory_def Let_def)

lemma unlink_process_spec:
  assumes ds: "dseg p_next p_prev (procs s) 0 (process_list s) ps 0 e" and dom: "dom (procs s) = set ps" and p: "p \<in> set ps"
  shows "\<exists>l h' e'. unlink_process p s = Some (s\<lparr>process_list := l, procs := h'\<rparr>) \<and>
    dseg p_next p_prev h' 0 l (remove1 p ps) 0 e' \<and> h' p = procs s p \<and> same_ident (procs s) h'"
proof -
  have d: "distinct ps" using dseg_chain [OF ds] by (rule chain_distinct)
  obtain xs ys where ps: "ps = xs @ p # ys" using p by (auto simp: in_set_conv_decomp)
  obtain l h' e' where h': "dunlink p_next set_p_next p_prev set_p_prev p (procs s) (process_list s) = Some (l, h')"
    "dseg p_next p_prev h' 0 l (xs @ ys) 0 e'" "h' p = procs s p" "\<forall>q. q \<notin> set (xs @ ys) \<longrightarrow> h' q = procs s q"
    "\<forall>q n. procs s q = Some n \<longrightarrow> (\<exists>u v. h' q = Some n \<or> h' q = Some (set_p_next u n) \<or> h' q = Some (set_p_prev v n))"
    using proc_links.dunlink_dseg [OF ds [unfolded ps]] by blast
  have "same_ident (procs s) h'" by (rule links_same_ident [OF h'(4) _ h'(5)]) (auto simp: dom ps)
  moreover have "remove1 p ps = xs @ ys" using d ps by (simp add: remove1_append)
  ultimately show ?thesis using h'(1-3) by (auto simp: unlink_process_def)
qed

lemma unlink_parent_spec:
  assumes p: "procs s p = Some pr" and q: "parent pr = 0 \<or> procs s (parent pr) \<noteq> None"
  shows "\<exists>h'. unlink_parent p s = Some (s\<lparr>procs := h'\<rparr>) \<and> reparent (procs s) h'"
proof (cases "parent pr = 0")
  case True
  then show ?thesis using p by (intro exI [of _ "procs s"]) (simp add: unlink_parent_def)
next
  case False
  then obtain qr where qr: "procs s (parent pr) = Some qr" using q by auto
  let ?h = "(procs s)(parent pr \<mapsto> (if children qr = p then qr\<lparr>children := 0\<rparr> else qr))"
  have "unlink_parent p s = Some (s\<lparr>procs := ?h\<rparr>)" using False p qr by (simp add: unlink_parent_def upd_proc_def)
  moreover have "reparent (procs s) ?h"
    by (rule reparent_upd [where pr = qr and u = "parent qr" and v = "if children qr = p then 0 else children qr"]) (use qr in auto)
  ultimately show ?thesis by blast
qed

lemma destroy_process_spec:
  assumes inv: "proc_inv s ps" and p: "p \<in> set ps" "pid_of s p = i" "p \<noteq> current_process s" "procs s p = Some pr"
    and q: "parent pr = 0 \<or> parent pr \<in> set ps"
  shows "\<exists>s'. destroy_process i s = Some (0, s') \<and> proc_inv s' (remove1 p ps) \<and>
    same_ident ((procs s)(p := None)) (procs s')"
proof -
  have I: "heap_inv s" "dom (procs s) = set ps" "\<forall>p\<in>set ps. \<exists>n. unat sizeof_process \<le> n \<and> (p, n) \<in> live_objects s"
    "distinct (map (pid_of s) ps)" "\<forall>p\<in>set ps. 0 < pid_of s p \<and> pid_of s p < next_pid s" "process_count s = of_nat (length ps)" "0 < next_pid s"
    using inv by (auto simp: proc_inv_def)
  obtain e where ds: "dseg p_next p_prev (procs s) 0 (process_list s) ps 0 e" using inv by (auto simp: proc_inv_def)
  have p0: "p \<noteq> 0" and d: "distinct ps" using proc_inv_mem [OF inv p(1)] chain_distinct [OF proc_inv_chain [OF inv]] by auto
  obtain n where n: "(p, n) \<in> live_objects s" using I(3) p(1) by auto
  define s1 where "s1 = s\<lparr>procs := (procs s)(p \<mapsto> retired pr)\<rparr>"
  have ds1: "dseg p_next p_prev (procs s1) 0 (process_list s1) ps 0 e"
    unfolding s1_def using dseg_upd_same [OF ds p(4), of "retired pr"] by simp
  have dom1: "dom (procs s1) = set ps" using I(2) p(1) by (auto simp: s1_def)
  obtain l h2 e2 where h2: "unlink_process p s1 = Some (s1\<lparr>process_list := l, procs := h2\<rparr>)"
    "dseg p_next p_prev h2 0 l (remove1 p ps) 0 e2" "h2 p = procs s1 p" "same_ident (procs s1) h2"
    using unlink_process_spec [OF ds1 dom1 p(1)] by blast
  define s2 where "s2 = s1\<lparr>process_list := l, procs := h2\<rparr>"
  have dom2: "dom h2 = set ps" using same_ident_dom [OF h2(4)] dom1 by simp
  obtain h3 where h3: "unlink_parent p s2 = Some (s2\<lparr>procs := h3\<rparr>)" "reparent h2 h3"
    using unlink_parent_spec [of s2 p "retired pr"] h2(3) q dom2 by (auto simp: s2_def s1_def)
  define s3 where "s3 = s2\<lparr>procs := h3\<rparr>"
  have hv: "heap_inv s3" "live_objects s3 = live_objects s"
    using heap_view_cong [of s3 s] I(1) by (simp_all add: s3_def s2_def s1_def)
  obtain s4 where s4: "kfree p s3 = Some s4" "live_objects s4 = live_objects s - {(p, n)}" "heap_inv s4" "heap_frame s3 s4"
    using kheap.release_law [OF hv(1), of p n] n hv(2) by auto
  note fr = proc_frame [OF s4(4)]
  define s' where "s' = s4\<lparr>procs := (procs s4)(p := None), process_count := process_count s4 - 1,
    proc_stats := (proc_stats s4)\<lparr>processes_destroyed := processes_destroyed (proc_stats s4) + 1\<rparr>\<rparr>"
  have "destroy_process i s = Some (0, s')"
    using get_process_found [OF inv p(1,2)] p0 p(3,4) h2(1) h3(1) s4(1)
    by (simp add: destroy_process_def upd_proc_def Let_def retired_def [symmetric] s1_def [symmetric] s2_def [symmetric] s3_def [symmetric] s'_def)
  moreover have p': "procs s' = h3(p := None)" "process_list s' = l" "next_pid s' = next_pid s" "process_count s' = process_count s - 1"
    by (simp_all add: s'_def fr s3_def s2_def s1_def)
  moreover have si: "same_ident ((procs s)(p := None)) (procs s')"
    using same_ident_upd [OF same_ident_trans [OF h2(4) reparent_same_ident [OF h3(2)]], of p None] by (simp add: p' s1_def)
  moreover have "proc_inv s' (remove1 p ps)"
  proof -
    have "dseg p_next p_prev (procs s') 0 (process_list s') (remove1 p ps) 0 e2"
      using reparent_dseg [OF h3(2) h2(2)] d by (simp add: p')
    moreover have dom': "dom (procs s') = set (remove1 p ps)"
      using same_ident_dom [OF si] I(2) d by (simp add: set_remove1_eq)
    moreover have pid': "pid_of s' r = pid_of s r" if "r \<in> set (remove1 p ps)" for r
      using pid_of_same_ident [of "s\<lparr>procs := (procs s)(p := None)\<rparr>" s' r] si that d I(2) by (auto simp: set_remove1_eq pid_of_def)
    moreover have "heap_inv s'" "live_objects s' = live_objects s - {(p, n)}"
      using heap_view_cong [of s' s4] s4 by (simp_all add: s'_def)
    moreover have "distinct (map (pid_of s') (remove1 p ps))"
      using I(4) pid' by (auto simp: distinct_map inj_on_def set_remove1_eq d)
    moreover have "process_count s' = of_nat (length (remove1 p ps))"
    proof -
      obtain k where "length ps = Suc k" using p(1) by (cases ps) auto
      then show ?thesis using I(6) p(1) by (simp add: p' length_remove1)
    qed
    ultimately show ?thesis
      unfolding proc_inv_def using I(3,5,7) d by (auto simp: p' set_remove1_eq)
  qed
  ultimately show ?thesis by blast
qed

section \<open>Reachable states\<close>

text \<open>Writing fields other than the identifier and the list links keeps the invariant.\<close>

lemma proc_inv_upd:
  assumes inv: "proc_inv s ps" and p: "procs s p = Some pr"
    and f: "pid pr' = pid pr" "p_next pr' = p_next pr" "p_prev pr' = p_prev pr"
  shows "proc_inv (s\<lparr>procs := (procs s)(p \<mapsto> pr')\<rparr>) ps"
proof -
  let ?t = "s\<lparr>procs := (procs s)(p \<mapsto> pr')\<rparr>"
  obtain e where ds: "dseg p_next p_prev (procs s) 0 (process_list s) ps 0 e" using inv by (auto simp: proc_inv_def)
  have "dseg p_next p_prev (procs ?t) 0 (process_list ?t) ps 0 e"
    using dseg_upd_same [OF ds p f(2,3)] by simp
  moreover have "pid_of ?t = pid_of s" using p f(1) by (auto simp: pid_of_def)
  moreover have "dom (procs ?t) = dom (procs s)" using p by auto
  moreover have "heap_inv ?t = heap_inv s" "live_objects ?t = live_objects s"
    using heap_view_cong [of ?t s] by simp_all
  ultimately show ?thesis using inv unfolding proc_inv_def by auto
qed

lemma proc_inv_fields:
  assumes "proc_inv s ps"
  shows "proc_inv (s\<lparr>current_process := c\<rparr>) ps" "proc_inv (s\<lparr>fake_time := t\<rparr>) ps"
  using assms heap_view_cong [of "s\<lparr>current_process := c\<rparr>" s] heap_view_cong [of "s\<lparr>fake_time := t\<rparr>" s]
  by (simp_all add: proc_inv_def pid_of_def [abs_def])

lemma proc_inv_write:
  assumes inv: "proc_inv s ps" and w: "(p, n) \<in> live_objects s" "\<And>x. \<not> inside p n x \<Longrightarrow> m x = memory s x"
  shows "proc_inv (s\<lparr>memory := m\<rparr>) ps"
proof -
  have "heap_inv s" using inv by (simp add: proc_inv_def)
  from heap_write_law [OF this w] inv show ?thesis by (simp add: proc_inv_def pid_of_def [abs_def])
qed

lemma get_process_cases:
  assumes inv: "proc_inv s ps"
  shows "get_process i s = Some 0 \<and> (\<forall>p\<in>set ps. pid_of s p \<noteq> i) \<or>
    (\<exists>p pr. get_process i s = Some p \<and> p \<in> set ps \<and> p \<noteq> 0 \<and> pid_of s p = i \<and> procs s p = Some pr)"
  using get_process_found [OF inv] get_process_absent [OF inv] proc_inv_mem [OF inv] by metis

text \<open>
  One step of the process manager: a completed call of one of its operations. Identifiers
  must not be exhausted, and a status word must lie in an object of the caller.
\<close>

inductive proc_step :: "'a process_mgr_scheme \<Rightarrow> 'a process_mgr_scheme \<Rightarrow> bool" where
  create: "next_pid s + 1 \<noteq> 0 \<Longrightarrow> create_process name i s = Some (p, s') \<Longrightarrow> proc_step s s'"
| destroy: "destroy_process i s = Some (r, s') \<Longrightarrow> proc_step s s'"
| kill: "kill_process i sig s = Some (r, s') \<Longrightarrow> proc_step s s'"
| prio: "set_process_priority i k s = Some (r, s') \<Longrightarrow> proc_step s s'"
| suspend: "suspend_process i s = Some (r, s') \<Longrightarrow> proc_step s s'"
| resume: "resume_process i s = Some (r, s') \<Longrightarrow> proc_step s s'"
| current: "p = 0 \<or> procs s p \<noteq> None \<Longrightarrow> set_current_process p s = Some s' \<Longrightarrow> proc_step s s'"
| wait: "status = 0 \<or> (q, n) \<in> live_objects s \<and> (\<forall>x. in_region status 4 x \<longrightarrow> inside q n x) \<Longrightarrow>
    wait_process i status s = Some (r, s') \<Longrightarrow> proc_step s s'"

inductive proc_reachable :: "'a process_mgr_scheme \<Rightarrow> bool" where
  init: "heap_inv s \<Longrightarrow> procs s = Map.empty \<Longrightarrow> proc_reachable (snd (process_init s))"
| step: "proc_reachable s \<Longrightarrow> proc_step s s' \<Longrightarrow> proc_reachable s'"

lemma process_init_inv: "heap_inv s \<Longrightarrow> procs s = Map.empty \<Longrightarrow> proc_inv (snd (process_init s)) []"
  using heap_view_cong(1) [of "snd (process_init s)" s] by (simp add: proc_inv_def process_init_def)

lemma create_process_inv:
  assumes inv: "proc_inv s ps" and np: "next_pid s + 1 \<noteq> 0" and c: "create_process name i s = Some (p, s')"
  shows "\<exists>ps'. proc_inv s' ps'"
proof (cases "name = 0 \<or> kmalloc sizeof_process s = Some (0, s)")
  case True
  then show ?thesis using create_process_fail [OF True] c inv by auto
next
  case False
  have "heap_inv s" using inv by (simp add: proc_inv_def)
  then obtain q s1 where q: "kmalloc sizeof_process s = Some (q, s1)" "q \<noteq> 0"
    using kheap.alloc_returns [of s sizeof_process] False by (auto simp: sizeof_process_def)
  have "name \<noteq> 0" using False by simp
  from create_process_spec [OF inv this np q, of i] c show ?thesis by auto
qed

text \<open>A destroyed process whose parent is gone makes the operation follow a stale pointer.\<close>

lemma destroy_process_orphan:
  assumes inv: "proc_inv s ps" and p: "p \<in> set ps" "pid_of s p = i" "p \<noteq> current_process s" "procs s p = Some pr"
    and q: "parent pr \<noteq> 0" "parent pr \<notin> set ps"
  shows "destroy_process i s = None"
proof -
  obtain e where ds: "dseg p_next p_prev (procs s) 0 (process_list s) ps 0 e" and dom: "dom (procs s) = set ps"
    using inv by (auto simp: proc_inv_def)
  have p0: "p \<noteq> 0" using proc_inv_mem [OF inv p(1)] by auto
  define s1 where "s1 = s\<lparr>procs := (procs s)(p \<mapsto> retired pr)\<rparr>"
  have ds1: "dseg p_next p_prev (procs s1) 0 (process_list s1) ps 0 e"
    unfolding s1_def using dseg_upd_same [OF ds p(4), of "retired pr"] by simp
  have dom1: "dom (procs s1) = set ps" using dom p(1) by (auto simp: s1_def)
  obtain l h2 where h2: "unlink_process p s1 = Some (s1\<lparr>process_list := l, procs := h2\<rparr>)"
    "h2 p = procs s1 p" "same_ident (procs s1) h2"
    using unlink_process_spec [OF ds1 dom1 p(1)] by blast
  have "h2 (parent pr) = None" using same_ident_dom [OF h2(3)] dom1 q(2) by (auto simp: dom_def)
  then have "unlink_parent p (s1\<lparr>process_list := l, procs := h2\<rparr>) = None"
    using h2(2) q(1) by (simp add: unlink_parent_def upd_proc_def s1_def)
  then show ?thesis
    using get_process_found [OF inv p(1,2)] p0 p(3,4) h2(1)
    by (simp add: destroy_process_def upd_proc_def Let_def retired_def [symmetric] s1_def [symmetric])
qed

lemma destroy_process_inv:
  assumes inv: "proc_inv s ps" and d: "destroy_process i s = Some (r, s')"
  shows "\<exists>ps'. proc_inv s' ps'"
  using get_process_cases [OF inv, of i]
proof (elim disjE exE conjE)
  assume "get_process i s = Some 0"
  then show ?thesis using d inv by (auto simp: destroy_process_def)
next
  fix p pr
  assume p: "get_process i s = Some p" "p \<in> set ps" "p \<noteq> 0" "pid_of s p = i" "procs s p = Some pr"
  show ?thesis
  proof (cases "p = current_process s")
    case True
    then show ?thesis using d inv p by (auto simp: destroy_process_def)
  next
    case False
    then have "parent pr = 0 \<or> parent pr \<in> set ps"
      using destroy_process_orphan [OF inv p(2,4) _ p(5)] d by fastforce
    then show ?thesis using destroy_process_spec [OF inv p(2,4) False p(5)] d by auto
  qed
qed

lemma proc_step_inv:
  assumes "proc_step s s'" and "proc_inv s ps"
  shows "\<exists>ps'. proc_inv s' ps'"
  using assms
proof (induction rule: proc_step.induct)
  case (create s name i p s')
  then show ?case using create_process_inv by blast
next
  case (destroy i s r s')
  then show ?case using destroy_process_inv by blast
next
  case (kill i sig s r s')
  then show ?case using destroy_process_inv [OF kill.prems, of i r s']
    by (auto simp: kill_process_def split: Option.bind_splits if_splits)
next
  case (prio i k s r s')
  then show ?case using proc_inv_upd [OF prio.prems]
    by (auto simp: set_process_priority_def upd_proc_def split: Option.bind_splits if_splits intro!: exI [of _ ps])
next
  case (suspend i s r s')
  then show ?case using proc_inv_upd [OF suspend.prems]
    by (auto simp: suspend_process_def upd_proc_def split: Option.bind_splits if_splits intro!: exI [of _ ps])
next
  case (resume i s r s')
  then show ?case using proc_inv_upd [OF resume.prems]
    by (auto simp: resume_process_def upd_proc_def split: Option.bind_splits if_splits intro!: exI [of _ ps])
next
  case (current p s s')
  show ?case
  proof (cases "p = 0")
    case True
    then show ?thesis using current proc_inv_fields(1) [OF current.prems, of 0] by (auto simp: set_current_process_def)
  next
    case False
    then obtain pr where pr: "procs s p = Some pr" using current.hyps by auto
    let ?s1 = "s\<lparr>current_process := p, procs := (procs s)(p \<mapsto> pr\<lparr>p_state := PROCESS_STATE_RUNNING\<rparr>)\<rparr>"
    have "proc_inv ?s1 ps"
      using proc_inv_upd [OF proc_inv_fields(1) [OF current.prems, of p], of p pr] pr by simp
    from proc_inv_upd [OF proc_inv_fields(2) [OF this, of "fake_time s + 1"], of p]
    show ?thesis using current False pr
      by (auto simp: set_current_process_def upd_proc_def get_system_time_def Let_def intro!: exI [of _ ps])
  qed
next
  case (wait status q n s i r s')
  have "proc_inv (s\<lparr>memory := store32 status 0 (memory s)\<rparr>) ps" if "status \<noteq> 0"
  proof (rule proc_inv_write [OF wait.prems, of q n])
    show "(q, n) \<in> live_objects s" using wait.hyps that by simp
    fix x assume "\<not> inside q n x"
    then have "\<not> in_region status 4 x" using wait.hyps that by blast
    then show "store32 status 0 (memory s) x = memory s x" by (simp add: store_le_def in_region_def word_less_nat_alt)
  qed
  then show ?case using wait
    by (auto simp: wait_process_def split: Option.bind_splits if_splits)
qed

lemma proc_reachable_inv: "proc_reachable s \<Longrightarrow> \<exists>ps. proc_inv s ps"
proof (induction rule: proc_reachable.induct)
  case (init s)
  then show ?case using process_init_inv by blast
next
  case (step s s')
  then show ?case using proc_step_inv by blast
qed

section \<open>An example\<close>

definition proc_boot :: process_mgr where
  "proc_boot = heap.extend heap_small
     \<lparr>procs = Map.empty, process_list = 0, current_process = 0, next_pid = 0, process_count = 0, process_lock = 0,
      proc_stats = \<lparr>processes_created = 0, processes_destroyed = 0, p_context_switches = 0, p_total_cpu_time = 0\<rparr>,
      fake_time = 0\<rparr>"

definition proc_small :: process_mgr where
  "proc_small = snd (process_init proc_boot)"

lemma proc_small_ok:
  "proc_inv proc_small []" "heap_shape proc_small [(65536, False)]" "proc_reachable proc_small" "next_pid proc_small = 1"
  "current_process proc_small = 0" "procs proc_small = Map.empty"
proof -
  have v: "heap_shape proc_boot bs = heap_shape heap_small bs" "heap_inv proc_boot = heap_inv heap_small"
    "heap_shape proc_small bs = heap_shape heap_small bs" for bs
    using heap_view_cong [of proc_boot heap_small] heap_view_cong [of proc_small heap_small]
    by (simp_all add: proc_boot_def heap.defs proc_small_def process_init_def)
  have e: "procs proc_boot = Map.empty" by (simp add: proc_boot_def heap.defs)
  have h: "heap_inv proc_boot" using v(2) heap_small_ok(2) by simp
  show "proc_inv proc_small []" unfolding proc_small_def by (rule process_init_inv [OF h e])
  show "heap_shape proc_small [(65536, False)]" using v(3) heap_small_ok(1) by simp
  show "proc_reachable proc_small" unfolding proc_small_def by (rule proc_reachable.init [OF h e])
  show "next_pid proc_small = 1" "current_process proc_small = 0" "procs proc_small = Map.empty"
    by (simp_all add: proc_small_def process_init_def e)
qed

lemma proc_small_create:
  "\<exists>p s. create_process 0x5000 0 proc_small = Some (p, s) \<and> p \<noteq> 0 \<and> proc_inv s [p] \<and> pid_of s p = 1 \<and>
    current_process s = 0 \<and> (\<exists>pr. procs s p = Some pr \<and> parent pr = 0)"
proof -
  obtain p s1 where km: "kmalloc sizeof_process proc_small = Some (p, s1)" "p \<noteq> 0"
    using one_block_alloc [OF proc_small_ok(2), of sizeof_process] by (auto simp: sizeof_process_def block_need_def)
  obtain s where s: "create_process 0x5000 0 proc_small = Some (p, s)" "proc_inv s [p]" "current_process s = 0"
    "same_ident ((procs proc_small)(p \<mapsto> new_process 1 0 (fake_time proc_small + 1))) (procs s)"
    "\<exists>pr. procs s p = Some pr \<and> parent pr = 0"
    using create_process_spec [OF proc_small_ok(1) _ _ km, of "0x5000" 0] proc_small_ok(4,5) by auto
  obtain pr where pr: "procs s p = Some pr" "ident pr = ident (new_process 1 0 (fake_time proc_small + 1))"
    using same_ident_the [OF s(4), of p] by auto
  have "pid pr = 1" using ident_pid [OF pr(2)] by simp
  with pr(1) s(5) show ?thesis using s km(2) by (auto simp: pid_of_def)
qed

section \<open>Properties\<close>





text \<open>
  C7: in every state reachable from an initialised manager by completed calls of its operations, in any order, the
  process list, the store and the heap agree: the list is well linked in both directions and free of cycles, identifiers are
  distinct, the count is the length of the list, and every lookup terminates with the process of that
  identifier if there is one.
\<close>

theorem process_reachable_ok:
  assumes "proc_reachable s"
  shows "\<exists>ps. proc_inv s ps \<and> (\<forall>i. get_process i s = Some (first_of (\<lambda>p. pid_of s p = i) ps)) \<and>
    get_process_stats s = (of_nat (length ps), of_nat (length ps), processes_created (proc_stats s),
      processes_destroyed (proc_stats s), p_context_switches (proc_stats s))"
proof -
  obtain ps where inv: "proc_inv s ps" using proc_reachable_inv [OF assms] by blast
  moreover have "process_count s = of_nat (length ps)" using inv by (simp add: proc_inv_def)
  ultimately show ?thesis using get_process_chain [OF proc_inv_chain [OF inv]] by (auto simp: get_process_stats_def)
qed

theorem process_reachable_ok_witness:
  "\<exists>p s ps. create_process 0x5000 0 proc_small = Some (p, s) \<and> proc_inv s ps"
proof -
  obtain p s where c: "create_process 0x5000 0 proc_small = Some (p, s)" using proc_small_create by blast
  then have "proc_step proc_small s" by (intro proc_step.create [of proc_small "0x5000" 0]) (simp_all add: proc_small_ok(4))
  then have "proc_reachable s" by (rule proc_reachable.step [OF proc_small_ok(3)])
  from process_reachable_ok [OF this] c show ?thesis by blast
qed

end
