(* ===== verification/Thread.thy ===== *)
theory Thread
  imports Process
begin

text \<open>
  Thread management, \<^verbatim>\<open>kernel/sched/thread.c\<close>. A \<^verbatim>\<open>struct thread\<close> is a record in the store \<open>thrds\<close>; its stack is
  a second object of the heap, filled with a canary pattern in the byte memory. A thread is on two
  lists: the list of its process, through \<^verbatim>\<open>next\<close>, and the global thread list, through \<^verbatim>\<open>sched_next\<close>.

  The invariant \<open>thr_inv\<close> relates both lists, the store and the heap. Creation and destruction
  are proved to keep it; a creation that runs out of memory gives back what it took.
\<close>

unbundle bit_operations_syntax

section \<open>Data\<close>

datatype thread_state =
    THREAD_STATE_NEW | THREAD_STATE_READY | THREAD_STATE_RUNNING | THREAD_STATE_BLOCKED
  | THREAD_STATE_SLEEPING | THREAD_STATE_TERMINATED

record cpu_state =
  rax :: u64
  rbx :: u64
  rcx :: u64
  rdx :: u64
  rsi :: u64
  rdi :: u64
  rbp :: u64
  rsp :: u64
  r8 :: u64
  r9 :: u64
  r10 :: u64
  r11 :: u64
  r12 :: u64
  r13 :: u64
  r14 :: u64
  r15 :: u64
  rip :: u64
  rflags :: u64
  reg_cs :: u16
  reg_ds :: u16
  reg_es :: u16
  reg_fs :: u16
  reg_gs :: u16
  reg_ss :: u16

definition zero_cpu :: cpu_state where
  "zero_cpu = \<lparr>rax = 0, rbx = 0, rcx = 0, rdx = 0, rsi = 0, rdi = 0, rbp = 0, rsp = 0, r8 = 0, r9 = 0, r10 = 0, r11 = 0,
     r12 = 0, r13 = 0, r14 = 0, r15 = 0, rip = 0, rflags = 0, reg_cs = 0, reg_ds = 0, reg_es = 0, reg_fs = 0, reg_gs = 0, reg_ss = 0\<rparr>"

record thread =
  tid :: u32
  t_pid :: u32
  t_state :: thread_state
  context_of :: cpu_state
  stack_pointer :: u64
  stack_base :: u64
  stack_size :: u64
  t_priority :: u8
  t_time_slice :: u32
  t_remaining_time :: u32
  sleep_until :: u64
  wait_queue :: u64
  mutex_list :: u64
  t_process :: u64
  t_next :: u64
  sched_next :: u64

definition zero_thread :: thread where
  "zero_thread = \<lparr>tid = 0, t_pid = 0, t_state = THREAD_STATE_NEW, context_of = zero_cpu, stack_pointer = 0, stack_base = 0,
     stack_size = 0, t_priority = 0, t_time_slice = 0, t_remaining_time = 0, sleep_until = 0, wait_queue = 0,
     mutex_list = 0, t_process = 0, t_next = 0, sched_next = 0\<rparr>"

definition sizeof_thread :: u64 where
  "sizeof_thread = 256"

definition stack_bytes :: u64 where
  "stack_bytes = 64 * 1024"

definition stack_canary :: u64 where
  "stack_canary = 0xDEADBEEFCAFEBABE"

record thread_stats =
  threads_created :: u64
  threads_destroyed :: u64
  t_context_switches :: u64
  t_total_cpu_time :: u64

record thread_mgr = process_mgr +
  thrds :: "thread store"
  thread_list :: u64
  current_thread :: u64
  next_tid :: u32
  thread_count :: u32
  thread_lock :: u32
  thr_stats :: thread_stats

section \<open>Operations\<close>

definition thread_init :: "'a thread_mgr_scheme \<Rightarrow> int \<times> 'a thread_mgr_scheme" where
  "thread_init s =
     (kern_code KERN_SUCCESS,
      s\<lparr>thread_list := 0, current_thread := 0, next_tid := 1, thread_count := 0, thread_lock := 0,
        thr_stats := \<lparr>threads_created = 0, threads_destroyed = 0, t_context_switches = 0, t_total_cpu_time = 0\<rparr>\<rparr>)"

definition upd_thread :: "u64 \<Rightarrow> (thread \<Rightarrow> thread) \<Rightarrow> 'a thread_mgr_scheme \<Rightarrow> 'a thread_mgr_scheme option" where
  "upd_thread t f s = do { th \<leftarrow> thrds s t; Some (s\<lparr>thrds := (thrds s)(t \<mapsto> f th)\<rparr>) }"

definition get_thread :: "u32 \<Rightarrow> 'a thread_mgr_scheme \<Rightarrow> u64 option" where
  "get_thread i s = chain_find sched_next (\<lambda>_ th. tid th = i) (thrds s) (thread_list s)"

text \<open>The stack: allocated, described in the thread, filled with the canary word by word.\<close>

definition fill_canary :: "u64 \<Rightarrow> mem \<Rightarrow> mem" where
  "fill_canary stack m = for_range (\<lambda>i. store64 (stack + 8 * i) stack_canary) 0 (stack_bytes div 8) m"

definition allocate_thread_stack :: "u64 \<Rightarrow> 'a thread_mgr_scheme \<Rightarrow> (int \<times> 'a thread_mgr_scheme) option" where
  "allocate_thread_stack t s = do {
     (stack, s) \<leftarrow> kmalloc stack_bytes s;
     if stack = 0 then Some (kern_code KERN_NOMEM, s)
     else do {
       s \<leftarrow> upd_thread t (\<lambda>th. th\<lparr>stack_base := stack, stack_size := stack_bytes,
              stack_pointer := stack + stack_bytes - 8\<rparr>) s;
       Some (kern_code KERN_SUCCESS, s\<lparr>memory := fill_canary stack (memory s)\<rparr>) } }"

definition cleanup_thread_stack :: "u64 \<Rightarrow> 'a thread_mgr_scheme \<Rightarrow> 'a thread_mgr_scheme option" where
  "cleanup_thread_stack t s = do {
     th \<leftarrow> thrds s t;
     if stack_base th \<noteq> 0 then do {
       let s = s\<lparr>memory := memset (stack_base th) 0 (stack_size th) (memory s)\<rparr>;
       s \<leftarrow> kfree (stack_base th) s;
       upd_thread t (\<lambda>th. th\<lparr>stack_base := 0, stack_size := 0, stack_pointer := 0\<rparr>) s
     } else Some s }"

definition init_thread_context :: "u64 \<Rightarrow> u64 \<Rightarrow> thread \<Rightarrow> thread" where
  "init_thread_context entry_point arg th =
     th\<lparr>context_of := zero_cpu\<lparr>rip := entry_point, rsp := stack_pointer th, rbp := stack_pointer th, rdi := arg,
          reg_cs := 0x08, reg_ds := 0x10, reg_es := 0x10, reg_fs := 0x10, reg_gs := 0x10, reg_ss := 0x10, rflags := 0x202\<rparr>\<rparr>"

text \<open>Putting a thread on the list of its process and on the global list.\<close>

definition link_to_process :: "u64 \<Rightarrow> u64 \<Rightarrow> 'a thread_mgr_scheme \<Rightarrow> 'a thread_mgr_scheme option" where
  "link_to_process t proc s = do {
     pr \<leftarrow> procs s proc;
     s \<leftarrow> (if p_threads pr = 0
          then upd_proc proc (\<lambda>pr. pr\<lparr>p_threads := t, main_thread := t\<rparr>) s
          else do {
            s \<leftarrow> upd_thread t (\<lambda>th. th\<lparr>t_next := p_threads pr\<rparr>) s;
            upd_proc proc (\<lambda>pr. pr\<lparr>p_threads := t\<rparr>) s });
     upd_proc proc (\<lambda>pr. pr\<lparr>p_thread_count := p_thread_count pr + 1\<rparr>) s }"

definition link_to_threads :: "u64 \<Rightarrow> 'a thread_mgr_scheme \<Rightarrow> 'a thread_mgr_scheme option" where
  "link_to_threads t s =
     (if thread_list s = 0 then Some (s\<lparr>thread_list := t\<rparr>)
      else do {
        s \<leftarrow> upd_thread t (\<lambda>th. th\<lparr>sched_next := thread_list s\<rparr>) s;
        Some (s\<lparr>thread_list := t\<rparr>) })"

definition create_thread :: "u32 \<Rightarrow> u64 \<Rightarrow> u64 \<Rightarrow> 'a thread_mgr_scheme \<Rightarrow> (u64 \<times> 'a thread_mgr_scheme) option" where
  "create_thread i entry_point arg s =
     (if entry_point = 0 then Some (0, s)
      else do {
        parent_proc \<leftarrow> get_process i s;
        if parent_proc = 0 then Some (0, s)
        else do {
          (t, s) \<leftarrow> kmalloc sizeof_thread s;
          if t = 0 then Some (0, s)
          else do {
            let s = s\<lparr>memory := memset t 0 sizeof_thread (memory s)\<rparr>;
            pr \<leftarrow> procs s parent_proc;
            let th = zero_thread\<lparr>tid := next_tid s, t_pid := i, t_state := THREAD_STATE_NEW, t_process := parent_proc,
                       t_priority := p_priority pr, t_time_slice := TIME_SLICE_DEFAULT\<rparr>;
            let th = th\<lparr>t_remaining_time := t_time_slice th, sleep_until := 0\<rparr>;
            let s = s\<lparr>next_tid := next_tid s + 1, thrds := (thrds s)(t \<mapsto> th)\<rparr>;
            (r, s) \<leftarrow> allocate_thread_stack t s;
            if r \<noteq> kern_code KERN_SUCCESS then do {
              s \<leftarrow> kfree t s;
              Some (0, s\<lparr>thrds := (thrds s)(t := None)\<rparr>)
            } else do {
              s \<leftarrow> upd_thread t (init_thread_context entry_point arg) s;
              s \<leftarrow> upd_thread t (\<lambda>th. th\<lparr>wait_queue := 0, mutex_list := 0, t_next := 0, sched_next := 0\<rparr>) s;
              s \<leftarrow> link_to_process t parent_proc s;
              s \<leftarrow> link_to_threads t s;
              let st = thr_stats s;
              let s = s\<lparr>thread_count := thread_count s + 1, thr_stats := st\<lparr>threads_created := threads_created st + 1\<rparr>\<rparr>;
              s \<leftarrow> upd_thread t (\<lambda>th. th\<lparr>t_state := THREAD_STATE_READY\<rparr>) s;
              Some (t, s)
            } } } })"

definition set_t_next :: "u64 \<Rightarrow> thread \<Rightarrow> thread" where
  "set_t_next v th = th\<lparr>t_next := v\<rparr>"

definition set_sched_next :: "u64 \<Rightarrow> thread \<Rightarrow> thread" where
  "set_sched_next v th = th\<lparr>sched_next := v\<rparr>"

definition unlink_from_process :: "u64 \<Rightarrow> 'a thread_mgr_scheme \<Rightarrow> 'a thread_mgr_scheme option" where
  "unlink_from_process t s = do {
     th \<leftarrow> thrds s t;
     let proc = t_process th;
     if proc \<noteq> 0 then do {
       pr \<leftarrow> procs s proc;
       (l, h) \<leftarrow> unlink t_next set_t_next t (thrds s) (p_threads pr);
       s \<leftarrow> upd_proc proc (\<lambda>pr. pr\<lparr>p_threads := l\<rparr>) (s\<lparr>thrds := h\<rparr>);
       s \<leftarrow> upd_proc proc (\<lambda>pr. if main_thread pr = t then pr\<lparr>main_thread := p_threads pr\<rparr> else pr) s;
       upd_proc proc (\<lambda>pr. pr\<lparr>p_thread_count := p_thread_count pr - 1\<rparr>) s
     } else Some s }"

definition unlink_from_threads :: "u64 \<Rightarrow> 'a thread_mgr_scheme \<Rightarrow> 'a thread_mgr_scheme option" where
  "unlink_from_threads t s = do {
     (l, h) \<leftarrow> unlink sched_next set_sched_next t (thrds s) (thread_list s);
     Some (s\<lparr>thread_list := l, thrds := h\<rparr>) }"

definition destroy_thread :: "u32 \<Rightarrow> 'a thread_mgr_scheme \<Rightarrow> (int \<times> 'a thread_mgr_scheme) option" where
  "destroy_thread i s = do {
     t \<leftarrow> get_thread i s;
     if t = 0 then Some (kern_code KERN_NOTFOUND, s)
     else if t = current_thread s then Some (kern_code KERN_BUSY, s)
     else do {
       s \<leftarrow> upd_thread t (\<lambda>th. th\<lparr>t_state := THREAD_STATE_TERMINATED\<rparr>) s;
       s \<leftarrow> cleanup_thread_stack t s;
       s \<leftarrow> unlink_from_process t s;
       s \<leftarrow> unlink_from_threads t s;
       s \<leftarrow> kfree t s;
       let s = s\<lparr>thrds := (thrds s)(t := None)\<rparr>;
       let st = thr_stats s;
       Some (kern_code KERN_SUCCESS,
             s\<lparr>thread_count := thread_count s - 1, thr_stats := st\<lparr>threads_destroyed := threads_destroyed st + 1\<rparr>\<rparr>) } }"

definition get_current_thread :: "'a thread_mgr_scheme \<Rightarrow> u64" where
  "get_current_thread s = current_thread s"

definition set_current_thread :: "u64 \<Rightarrow> 'a thread_mgr_scheme \<Rightarrow> 'a thread_mgr_scheme option" where
  "set_current_thread t s =
     (let s = s\<lparr>current_thread := t\<rparr> in
      if t \<noteq> 0 then upd_thread t (\<lambda>th. th\<lparr>t_state := THREAD_STATE_RUNNING\<rparr>) s else Some s)"

definition set_thread_priority :: "u32 \<Rightarrow> u8 \<Rightarrow> 'a thread_mgr_scheme \<Rightarrow> (int \<times> 'a thread_mgr_scheme) option" where
  "set_thread_priority i prio s =
     (if PRIORITY_LEVELS \<le> prio then Some (kern_code KERN_INVALID, s)
      else do {
        t \<leftarrow> get_thread i s;
        if t = 0 then Some (kern_code KERN_NOTFOUND, s)
        else do {
          s \<leftarrow> upd_thread t (\<lambda>th. th\<lparr>t_priority := prio\<rparr>) s;
          Some (kern_code KERN_SUCCESS, s) } })"

definition get_thread_priority :: "u32 \<Rightarrow> 'a thread_mgr_scheme \<Rightarrow> u8 option" where
  "get_thread_priority i s = do {
     t \<leftarrow> get_thread i s;
     if t = 0 then Some PRIORITY_LEVELS else do { th \<leftarrow> thrds s t; Some (t_priority th) } }"

definition wakeup :: "u64 \<Rightarrow> 'a thread_mgr_scheme \<Rightarrow> 'a thread_mgr_scheme option" where
  "wakeup t s =
     (if t = 0 then Some s
      else upd_thread t (\<lambda>th. if t_state th = THREAD_STATE_SLEEPING
                              then th\<lparr>t_state := THREAD_STATE_READY, sleep_until := 0\<rparr> else th) s)"

text \<open>\<^verbatim>\<open>get_thread_stats\<close>: total, active, runnable, created, destroyed, context switches.\<close>

definition get_thread_stats :: "'a thread_mgr_scheme \<Rightarrow> (u32 \<times> u32 \<times> u32 \<times> u64 \<times> u64 \<times> u64) option" where
  "get_thread_stats s = do {
     runnable \<leftarrow> chain_fold sched_next
       (\<lambda>th k. if t_state th = THREAD_STATE_READY \<or> t_state th = THREAD_STATE_RUNNING then k + 1 else k)
       (thrds s) (thread_list s) 0;
     Some (thread_count s, thread_count s, runnable, threads_created (thr_stats s), threads_destroyed (thr_stats s),
           t_context_switches (thr_stats s)) }"

section \<open>The invariant\<close>

interpretation thread_links: intrusive_list t_next set_t_next
  by unfold_locales (simp add: set_t_next_def)

interpretation sched_links: intrusive_list sched_next set_sched_next
  by unfold_locales (simp add: set_sched_next_def)

definition tid_of :: "'a thread_mgr_scheme \<Rightarrow> u64 \<Rightarrow> u32" where
  "tid_of s t = tid (the (thrds s t))"

definition stack_of :: "'a thread_mgr_scheme \<Rightarrow> u64 \<Rightarrow> u64" where
  "stack_of s t = stack_base (the (thrds s t))"

text \<open>The threads of a process, in the order of the global list.\<close>

definition threads_of :: "'a thread_mgr_scheme \<Rightarrow> u64 list \<Rightarrow> u64 \<Rightarrow> u64 list" where
  "threads_of s ts p = filter (\<lambda>t. t_process (the (thrds s t)) = p) ts"

text \<open>An object of at least the given size is live at the address.\<close>

definition live_at :: "'a heap_scheme \<Rightarrow> u64 \<Rightarrow> u64 \<Rightarrow> bool" where
  "live_at s a sz \<longleftrightarrow> (\<exists>n. unat sz \<le> n \<and> (a, n) \<in> live_objects s)"

definition thr_inv :: "'a thread_mgr_scheme \<Rightarrow> u64 list \<Rightarrow> u64 list \<Rightarrow> bool" where
  "thr_inv s ps ts \<longleftrightarrow>
     chain sched_next (thrds s) (thread_list s) ts 0 \<and> dom (thrds s) = set ts \<and>
     distinct (map (tid_of s) ts) \<and> (\<forall>t\<in>set ts. 0 < tid_of s t \<and> tid_of s t < next_tid s) \<and> 0 < next_tid s \<and>
     thread_count s = of_nat (length ts) \<and> distinct (ps @ ts @ map (stack_of s) ts) \<and>
     (\<forall>t\<in>set ts. live_at s t sizeof_thread \<and> live_at s (stack_of s t) stack_bytes \<and>
        stack_size (the (thrds s t)) = stack_bytes \<and> t_process (the (thrds s t)) \<in> set ps) \<and>
     (\<forall>p\<in>set ps. chain t_next (thrds s) (p_threads (the (procs s p))) (threads_of s ts p) 0 \<and>
        p_thread_count (the (procs s p)) = of_nat (length (threads_of s ts p)))"

text \<open>The thread \<^verbatim>\<open>create_thread\<close> builds.\<close>

definition new_thread :: "u32 \<Rightarrow> u32 \<Rightarrow> u64 \<Rightarrow> u8 \<Rightarrow> u64 \<Rightarrow> u64 \<Rightarrow> u64 \<Rightarrow> u64 \<Rightarrow> u64 \<Rightarrow> thread" where
  "new_thread i j proc prio stack entry_point arg nxt snxt =
     zero_thread\<lparr>tid := i, t_pid := j, t_state := THREAD_STATE_READY, t_process := proc, t_priority := prio,
       t_time_slice := TIME_SLICE_DEFAULT, t_remaining_time := TIME_SLICE_DEFAULT,
       stack_base := stack, stack_size := stack_bytes, stack_pointer := stack + stack_bytes - 8,
       context_of := zero_cpu\<lparr>rip := entry_point, rsp := stack + stack_bytes - 8, rbp := stack + stack_bytes - 8, rdi := arg,
          reg_cs := 0x08, reg_ds := 0x10, reg_es := 0x10, reg_fs := 0x10, reg_gs := 0x10, reg_ss := 0x10, rflags := 0x202\<rparr>,
       t_next := nxt, sched_next := snxt\<rparr>"

definition with_thread :: "u64 \<Rightarrow> process \<Rightarrow> process" where
  "with_thread t pr = pr\<lparr>p_threads := t, main_thread := (if p_threads pr = 0 then t else main_thread pr),
     p_thread_count := p_thread_count pr + 1\<rparr>"

definition raw_thread :: "u32 \<Rightarrow> u32 \<Rightarrow> u64 \<Rightarrow> u8 \<Rightarrow> thread" where
  "raw_thread i j proc prio = zero_thread\<lparr>tid := i, t_pid := j, t_process := proc, t_priority := prio,
     t_time_slice := TIME_SLICE_DEFAULT, t_remaining_time := TIME_SLICE_DEFAULT\<rparr>"

definition with_raw :: "u64 \<Rightarrow> u32 \<Rightarrow> u64 \<Rightarrow> u8 \<Rightarrow> 'a thread_mgr_scheme \<Rightarrow> 'a thread_mgr_scheme" where
  "with_raw t j proc prio s =
     s\<lparr>memory := memset t 0 sizeof_thread (memory s), next_tid := next_tid s + 1,
       thrds := (thrds s)(t \<mapsto> raw_thread (next_tid s) j proc prio)\<rparr>"

lemma create_thread_nostack:
  assumes "entry_point \<noteq> 0" and "get_process i s = Some p" and "p \<noteq> 0"
    and "kmalloc sizeof_thread s = Some (t, s1)" and "t \<noteq> 0" and "procs s1 p = Some pr"
    and "kmalloc stack_bytes (with_raw t i p (p_priority pr) s1) = Some (0, s2)" and "kfree t s2 = Some s3"
  shows "create_thread i entry_point arg s = Some (0, s3\<lparr>thrds := (thrds s3)(t := None)\<rparr>)"
  using assms
  by (simp add: create_thread_def Let_def allocate_thread_stack_def with_raw_def raw_thread_def zero_thread_def)

lemma create_thread_ok:
  assumes "entry_point \<noteq> 0" and "get_process i s = Some p" and "p \<noteq> 0"
    and "kmalloc sizeof_thread s = Some (t, s1)" and "t \<noteq> 0" and "procs s1 p = Some pr"
    and "kmalloc stack_bytes (with_raw t i p (p_priority pr) s1) = Some (stack, s2)" and "stack \<noteq> 0"
    and "thrds s2 t = Some (raw_thread k i p (p_priority pr))" and "procs s2 p = Some pr"
  shows "create_thread i entry_point arg s =
    Some (t, s2\<lparr>memory := fill_canary stack (memory s2),
          thrds := (thrds s2)(t \<mapsto> new_thread k i p (p_priority pr) stack entry_point arg (p_threads pr) (thread_list s2)),
          procs := (procs s2)(p \<mapsto> with_thread t pr), thread_list := t, thread_count := thread_count s2 + 1,
          thr_stats := (thr_stats s2)\<lparr>threads_created := threads_created (thr_stats s2) + 1\<rparr>\<rparr>)"
  using assms
  by (cases "p_threads pr = 0"; cases "thread_list s2 = 0")
    (simp_all add: create_thread_def Let_def allocate_thread_stack_def with_raw_def raw_thread_def zero_thread_def
      upd_thread_def upd_proc_def link_to_process_def link_to_threads_def init_thread_context_def new_thread_def with_thread_def)

text \<open>The canary fills the stack and nothing else.\<close>

lemma canary_offset:
  assumes "k < (stack_bytes div 8 :: u64)"
  shows "unat (8 * k) = 8 * unat k" "8 * unat k + 8 \<le> unat stack_bytes"
proof -
  have "unat k < 8192" using assms by (simp add: stack_bytes_def word_less_nat_alt)
  then show "unat (8 * k) = 8 * unat k" "8 * unat k + 8 \<le> unat stack_bytes"
    using unat_mult_lem [of 8 k] by (simp_all add: stack_bytes_def)
qed

lemma fill_canary_outside:
  assumes "unat stack_bytes \<le> n" and "unat stack + n < 2 ^ 64" and "\<not> inside stack n x"
  shows "fill_canary stack m x = m x"
  unfolding fill_canary_def
proof (rule for_range_rule [where P = "\<lambda>_ m'. m' x = m x"])
  fix k m' assume k: "k < (stack_bytes div 8 :: u64)" "m' x = m x"
  have "\<not> in_region (stack + 8 * k) 8 x"
    using region_inside [of stack "8 * k" 8 x n] canary_offset [OF k(1)] assms by auto
  then show "store64 (stack + 8 * k) stack_canary m' x = m x" using k(2) by (simp add: store_le_out)
qed simp_all

lemma canary_words_apart:
  assumes "i < k" and "k < (stack_bytes div 8 :: u64)"
  shows "disjoint_regions (stack + 8 * i) 8 (stack + 8 * k) 8"
proof -
  have i: "i < stack_bytes div 8" using assms by (rule less_trans)
  have ik: "unat i < unat k" using assms(1) by (simp add: word_less_nat_alt)
  have "8 \<le> 8 * k - 8 * i" "8 \<le> 8 * i - 8 * k"
    using canary_offset [OF i] canary_offset [OF assms(2)] ik
    by (simp_all add: word_le_nat_alt unat_sub_if' stack_bytes_def)
  then show ?thesis by (simp add: disjoint_regions_def)
qed

lemma fill_canary_word:
  assumes "i < (stack_bytes div 8 :: u64)"
  shows "load64 (fill_canary stack m) (stack + 8 * i) = stack_canary"
proof -
  have "\<forall>i<(stack_bytes div 8). load64 (for_range (\<lambda>i. store64 (stack + 8 * i) stack_canary) 0 (stack_bytes div 8) m) (stack + 8 * i) = stack_canary"
  proof (rule for_range_rule [where P = "\<lambda>k m'. \<forall>i<k. load64 m' (stack + 8 * i) = stack_canary"])
    fix k m' assume k: "k < (stack_bytes div 8 :: u64)" "\<forall>i<k. load64 m' (stack + 8 * i) = stack_canary"
    show "\<forall>i<k + 1. load64 (store64 (stack + 8 * k) stack_canary m') (stack + 8 * i) = stack_canary"
    proof (intro allI impI)
      fix i assume "i < k + 1"
      then consider "i = k" | "i < k" using less_Suc_word [OF k(1), of i] by auto
      then show "load64 (store64 (stack + 8 * k) stack_canary m') (stack + 8 * i) = stack_canary"
      proof cases
        case 1
        then show ?thesis by (simp add: load_store_same)
      next
        case 2
        have "load64 (store64 (stack + 8 * k) stack_canary m') (stack + 8 * i) = load64 m' (stack + 8 * i)"
          by (rule load_store_other) (use canary_words_apart [OF 2 k(1)] in auto)
        then show ?thesis using k(2) 2 by simp
      qed
    qed
  qed simp_all
  then show ?thesis using assms by (simp add: fill_canary_def)
qed

lemma live_at_mono: "live_objects s \<subseteq> live_objects t \<Longrightarrow> live_at s a k \<Longrightarrow> live_at t a k"
  by (auto simp: live_at_def)

lemma live_at_fst: "live_at s a k \<Longrightarrow> a \<in> fst ` live_objects s"
  by (force simp: live_at_def)

lemma proc_inv_heap:
  assumes "proc_inv s ps" and "procs t = procs s" "process_list t = process_list s" "next_pid t = next_pid s" "process_count t = process_count s"
    and "heap_inv t" "\<And>q n. q \<in> set ps \<Longrightarrow> (q, n) \<in> live_objects s \<Longrightarrow> (q, n) \<in> live_objects t"
  shows "proc_inv t ps"
  using assms unfolding proc_inv_def pid_of_def [abs_def] by (simp; blast)

lemma thr_inv_heap:
  assumes "thr_inv s ps ts" and "thrds t = thrds s" "thread_list t = thread_list s" "next_tid s \<le> next_tid t" "thread_count t = thread_count s"
    and "procs t = procs s" and "live_objects s \<subseteq> live_objects t"
  shows "thr_inv t ps ts"
proof -
  have "tid_of t = tid_of s" "stack_of t = stack_of s" "threads_of t = threads_of s"
    using assms(2) by (auto simp: tid_of_def stack_of_def threads_of_def fun_eq_iff)
  moreover have "\<forall>q\<in>set ts. 0 < tid_of s q \<and> tid_of s q < next_tid t" "0 < next_tid t"
    using assms(1) less_le_trans [OF _ assms(4)] unfolding thr_inv_def by blast+
  moreover have "\<forall>q\<in>set ts. live_at t q sizeof_thread \<and> live_at t (stack_of s q) stack_bytes \<and>
        stack_size (the (thrds s q)) = stack_bytes \<and> t_process (the (thrds s q)) \<in> set ps"
    using assms(1) live_at_mono [OF assms(7)] unfolding thr_inv_def by blast
  ultimately show ?thesis
    using assms(1-3,5,6) unfolding thr_inv_def by simp
qed

lemma thr_inv_live:
  assumes "thr_inv s ps ts" and "proc_inv s ps" and "a \<in> set (ps @ ts @ map (stack_of s) ts)"
  shows "a \<in> fst ` live_objects s"
proof -
  consider "a \<in> set ps" | "a \<in> set ts" | t where "t \<in> set ts" "a = stack_of s t" using assms(3) by auto
  then show ?thesis
  proof cases
    case 1
    then obtain n where "(a, n) \<in> live_objects s" using assms(2) unfolding proc_inv_def by blast
    then show ?thesis by force
  next
    case 2
    then have "live_at s a sizeof_thread" using assms(1) unfolding thr_inv_def by blast
    then show ?thesis by (rule live_at_fst)
  next
    case 3
    then have "live_at s a stack_bytes" using assms(1) unfolding thr_inv_def by blast
    then show ?thesis by (rule live_at_fst)
  qed
qed

lemma thr_frame:
  assumes "heap_frame s s'"
  shows "thrds s' = thrds s" "thread_list s' = thread_list s" "next_tid s' = next_tid s" "thread_count s' = thread_count s"
    "current_thread s' = current_thread s"
  by (rule heap_frameE [OF assms], simp)+

text \<open>A new thread in front of both lists keeps the invariant.\<close>

lemma thr_inv_new:
  assumes inv: "thr_inv s ps ts" and pi: "proc_inv s ps" and p: "p \<in> set ps" "procs s p = Some pr" and np: "next_tid s + 1 \<noteq> 0"
    and new: "t \<notin> fst ` live_objects s" "stk \<notin> fst ` live_objects s" "t \<noteq> stk" "t \<noteq> 0"
    and th: "tid th = next_tid s" "t_process th = p" "stack_base th = stk" "stack_size th = stack_bytes" "t_next th = p_threads pr"
      "sched_next th = thread_list s"
    and s': "thrds s' = (thrds s)(t \<mapsto> th)" "procs s' = (procs s)(p \<mapsto> with_thread t pr)" "thread_list s' = t"
      "next_tid s' = next_tid s + 1" "thread_count s' = thread_count s + 1"
      "live_objects s' = insert (stk, k) (insert (t, n) (live_objects s))" "unat sizeof_thread \<le> n" "unat stack_bytes \<le> k"
  shows "thr_inv s' ps (t # ts)"
proof -
  note fresh = thr_inv_live [OF inv pi]
  have tn: "t \<notin> set ts" "t \<notin> set ps" "t \<notin> stack_of s ` set ts" using fresh [of t] new(1) by auto
  have sn: "stk \<notin> set ts" "stk \<notin> set ps" "stk \<notin> stack_of s ` set ts" using fresh [of stk] new(2) by auto
  have I: "chain sched_next (thrds s) (thread_list s) ts 0" "dom (thrds s) = set ts" "distinct (map (tid_of s) ts)"
    "\<forall>t\<in>set ts. 0 < tid_of s t \<and> tid_of s t < next_tid s" "0 < next_tid s" "thread_count s = of_nat (length ts)"
    "distinct (ps @ ts @ map (stack_of s) ts)"
    using inv by (auto simp: thr_inv_def)
  have np': "next_tid s < next_tid s + 1" using np by (rule word_less_Suc)
  have of': "tid_of s' t = next_tid s" "stack_of s' t = stk" "\<And>q. q \<in> set ts \<Longrightarrow> tid_of s' q = tid_of s q"
    "\<And>q. q \<in> set ts \<Longrightarrow> stack_of s' q = stack_of s q"
    using tn th by (auto simp: tid_of_def stack_of_def s'(1))
  have m': "map (tid_of s') ts = map (tid_of s) ts" "map (stack_of s') ts = map (stack_of s) ts" using of' by auto
  have to': "threads_of s' (t # ts) q = (if q = p then t # threads_of s ts q else threads_of s ts q)" for q
    using tn th(2) by (auto simp: threads_of_def s'(1) intro!: filter_cong)
  have "chain sched_next (thrds s') (thread_list s') (t # ts) 0"
    using I(1) tn new(4) th(6) by (simp add: s')
  moreover have "dom (thrds s') = set (t # ts)" using I(2) by (simp add: s'(1))
  moreover have "distinct (map (tid_of s') (t # ts))"
    using I(3,4) of'(1) by (auto simp: m')
  moreover have "\<forall>q\<in>set (t # ts). 0 < tid_of s' q \<and> tid_of s' q < next_tid s'"
    using I(4,5) of' np' by (auto simp: s'(4))
  moreover have "distinct (ps @ (t # ts) @ map (stack_of s') (t # ts))"
    using I(7) tn sn new(3) by (auto simp: of'(2) m')
  moreover have "live_at s' q sizeof_thread \<and> live_at s' (stack_of s' q) stack_bytes \<and>
        stack_size (the (thrds s' q)) = stack_bytes \<and> t_process (the (thrds s' q)) \<in> set ps" if q: "q \<in> set (t # ts)" for q
  proof (cases "q = t")
    case True
    then show ?thesis using s'(7,8) of'(2) th p(1) by (auto simp: live_at_def s'(1,6))
  next
    case False
    have "live_objects s \<subseteq> live_objects s'" by (auto simp: s'(6))
    then show ?thesis using False q inv live_at_mono [of s s'] of'(4) [of q] by (auto simp: thr_inv_def s'(1))
  qed
  moreover have "chain t_next (thrds s') (p_threads (the (procs s' q))) (threads_of s' (t # ts) q) 0 \<and>
        p_thread_count (the (procs s' q)) = of_nat (length (threads_of s' (t # ts) q))" if q: "q \<in> set ps" for q
  proof -
    have c: "chain t_next (thrds s) (p_threads (the (procs s q))) (threads_of s ts q) 0"
      "p_thread_count (the (procs s q)) = of_nat (length (threads_of s ts q))"
      using inv q by (auto simp: thr_inv_def)
    have "t \<notin> set (threads_of s ts q)" using tn by (simp add: threads_of_def)
    then show ?thesis
      using c p(2) th(5) new(4) by (auto simp: to' s'(1,2) with_thread_def)
  qed
  ultimately show ?thesis
    unfolding thr_inv_def using I(5,6) np' by (auto simp: s'(4,5))
qed

lemma with_raw_heap:
  assumes "heap_inv s" and "(t, n) \<in> live_objects s" and "unat sizeof_thread \<le> n"
  shows "heap_inv (with_raw t i p k s)" "live_objects (with_raw t i p k s) = live_objects s"
proof -
  have b: "unat t + n < 2 ^ 64" using live_objects_bounds(2) [OF assms(1,2)] .
  have "memset t 0 sizeof_thread (memory s) x = memory s x" if "\<not> inside t n x" for x
    using region_inside [of t 0 sizeof_thread x n] that b assms(3) by (auto simp: memset_fill mem_fill_def)
  from heap_write_law [OF assms(1,2) this]
  show "heap_inv (with_raw t i p k s)" "live_objects (with_raw t i p k s) = live_objects s"
    using heap_view_cong [of "s\<lparr>memory := memset t 0 sizeof_thread (memory s)\<rparr>" "with_raw t i p k s"] by (simp_all add: with_raw_def)
qed

lemma create_thread_fails:
  assumes inv: "thr_inv s ps ts" and pi: "proc_inv s ps" and p: "p \<in> set ps" "pid_of s p = i" "procs s p = Some pr"
    and e: "entry_point \<noteq> 0" and km: "kmalloc sizeof_thread s = Some (t, s1)" "t \<noteq> 0" and np: "next_tid s + 1 \<noteq> 0"
    and ks: "kmalloc stack_bytes (with_raw t i p (p_priority pr) s1) = Some (0, with_raw t i p (p_priority pr) s1)"
  shows "\<exists>s'. create_thread i entry_point arg s = Some (0, s') \<and> proc_inv s' ps \<and> thr_inv s' ps ts \<and>
    live_objects s' = live_objects s \<and> procs s' = procs s \<and> thrds s' = thrds s"
proof -
  have hi: "heap_inv s" using pi by (simp add: proc_inv_def)
  obtain n where n: "unat sizeof_thread \<le> n" "t \<notin> fst ` live_objects s" "live_objects s1 = insert (t, n) (live_objects s)"
    "heap_inv s1" "heap_frame s s1"
    using kheap.alloc_fresh [OF hi _ _ km] by (auto simp: sizeof_thread_def)
  note fp = proc_frame [OF n(5)] and ft = thr_frame [OF n(5)]
  let ?r = "with_raw t i p (p_priority pr) s1"
  have r: "heap_inv ?r" "live_objects ?r = insert (t, n) (live_objects s)"
    using with_raw_heap [OF n(4) _ n(1), of t i p "p_priority pr"] n(3) by auto
  obtain s3 where s3: "kfree t ?r = Some s3" "live_objects s3 = live_objects s" "heap_inv s3" "heap_frame ?r s3"
    using kheap.give_back [OF n(2) r(2,1)] by blast
  note gp = proc_frame [OF s3(4)] and gt = thr_frame [OF s3(4)]
  define s' where "s' = s3\<lparr>thrds := (thrds s3)(t := None)\<rparr>"
  have "t \<notin> set ts" using thr_inv_live [OF inv pi, of t] n(2) by auto
  then have "thrds s t = None" using inv by (auto simp: thr_inv_def)
  then have th: "thrds s' = thrds s" by (simp add: s'_def gt with_raw_def ft fun_upd_idem)
  have hv: "heap_inv s'" "live_objects s' = live_objects s" using heap_view_cong [of s' s3] s3 by (simp_all add: s'_def)
  have pr': "procs s' = procs s" "process_list s' = process_list s" "next_pid s' = next_pid s" "process_count s' = process_count s"
    "thread_list s' = thread_list s" "next_tid s' = next_tid s + 1" "thread_count s' = thread_count s"
    by (simp_all add: s'_def gp gt with_raw_def fp ft)
  have "proc_inv s' ps" by (rule proc_inv_heap [OF pi]) (simp_all add: pr' hv)
  moreover have "thr_inv s' ps ts"
    by (rule thr_inv_heap [OF inv]) (use word_less_Suc [OF np] in \<open>simp_all add: pr' hv th\<close>)
  moreover have "create_thread i entry_point arg s = Some (0, s')"
    unfolding s'_def using get_process_found [OF pi p(1,2)] proc_inv_mem [OF pi p(1)] p(3) km ks s3(1) e
    by (intro create_thread_nostack [where p = p and t = t and pr = pr]) (simp_all add: fp)
  ultimately show ?thesis using hv pr' th by blast
qed

lemma create_thread_succeeds:
  assumes inv: "thr_inv s ps ts" and pi: "proc_inv s ps" and p: "p \<in> set ps" "pid_of s p = i" "procs s p = Some pr"
    and e: "entry_point \<noteq> 0" and km: "kmalloc sizeof_thread s = Some (t, s1)" "t \<noteq> 0" and np: "next_tid s + 1 \<noteq> 0"
    and ks: "kmalloc stack_bytes (with_raw t i p (p_priority pr) s1) = Some (stk, s2)" "stk \<noteq> 0"
  shows "\<exists>s' n k. create_thread i entry_point arg s = Some (t, s') \<and> t \<notin> set ts \<and> proc_inv s' ps \<and> thr_inv s' ps (t # ts) \<and>
    thrds s' = (thrds s)(t \<mapsto> new_thread (next_tid s) i p (p_priority pr) stk entry_point arg (p_threads pr) (thread_list s)) \<and>
    live_objects s' = insert (stk, k) (insert (t, n) (live_objects s)) \<and>
    stk \<notin> fst ` live_objects s \<and> t \<notin> fst ` live_objects s \<and> t \<noteq> stk \<and>
    (\<forall>j<(stack_bytes div 8). load64 (memory s') (stk + 8 * j) = stack_canary) \<and> current_thread s' = current_thread s"
proof -
  have hi: "heap_inv s" using pi by (simp add: proc_inv_def)
  obtain n where n: "unat sizeof_thread \<le> n" "t \<notin> fst ` live_objects s" "live_objects s1 = insert (t, n) (live_objects s)"
    "heap_inv s1" "heap_frame s s1"
    using kheap.alloc_fresh [OF hi _ _ km] by (auto simp: sizeof_thread_def)
  note fp = proc_frame [OF n(5)] and ft = thr_frame [OF n(5)]
  let ?r = "with_raw t i p (p_priority pr) s1"
  have r: "heap_inv ?r" "live_objects ?r = insert (t, n) (live_objects s)"
    using with_raw_heap [OF n(4) _ n(1), of t i p "p_priority pr"] n(3) by auto
  obtain k where k: "unat stack_bytes \<le> k" "stk \<notin> fst ` live_objects ?r" "live_objects s2 = insert (stk, k) (live_objects ?r)"
    "heap_inv s2" "heap_frame ?r s2"
    using kheap.alloc_fresh [OF r(1) _ _ ks] by (auto simp: stack_bytes_def)
  note gp = proc_frame [OF k(5)] and gt = thr_frame [OF k(5)]
  have s2: "thrds s2 = (thrds s)(t \<mapsto> raw_thread (next_tid s) i p (p_priority pr))" "thread_list s2 = thread_list s"
    "next_tid s2 = next_tid s + 1" "thread_count s2 = thread_count s" "procs s2 = procs s" "process_list s2 = process_list s"
    "next_pid s2 = next_pid s" "process_count s2 = process_count s" "current_thread s2 = current_thread s"
    by (simp_all add: gp gt with_raw_def fp ft)
  let ?th = "new_thread (next_tid s) i p (p_priority pr) stk entry_point arg (p_threads pr) (thread_list s)"
  define s' where "s' = s2\<lparr>memory := fill_canary stk (memory s2), thrds := (thrds s2)(t \<mapsto> ?th),
    procs := (procs s2)(p \<mapsto> with_thread t pr), thread_list := t, thread_count := thread_count s2 + 1,
    thr_stats := (thr_stats s2)\<lparr>threads_created := threads_created (thr_stats s2) + 1\<rparr>\<rparr>"
  have "create_thread i entry_point arg s = Some (t, s')"
    using create_thread_ok [OF e get_process_found [OF pi p(1,2)] _ km, of pr stk s2 "next_tid s" arg]
      proc_inv_mem [OF pi p(1)] p(3) ks by (simp add: fp s2 s'_def)
  moreover have "t \<notin> set ts" "p \<noteq> t" using thr_inv_live [OF inv pi, of t] n(2) p(1) by auto
  moreover have hv: "heap_inv s'" "live_objects s' = insert (stk, k) (insert (t, n) (live_objects s))"
  proof -
    have lk: "(stk, k) \<in> live_objects s2" using k(3) by simp
    have "fill_canary stk (memory s2) x = memory s2 x" if "\<not> inside stk k x" for x
      using fill_canary_outside [OF k(1) live_objects_bounds(2) [OF k(4) lk] that] .
    from heap_write_law [OF k(4) lk this]
    show "heap_inv s'" "live_objects s' = insert (stk, k) (insert (t, n) (live_objects s))"
      using heap_view_cong [of s' "s2\<lparr>memory := fill_canary stk (memory s2)\<rparr>"] k(3) r(2) by (simp_all add: s'_def)
  qed
  moreover have s': "thrds s' = (thrds s)(t \<mapsto> ?th)" "procs s' = (procs s)(p \<mapsto> with_thread t pr)" "thread_list s' = t"
      "next_tid s' = next_tid s + 1" "thread_count s' = thread_count s + 1" "process_list s' = process_list s"
      "next_pid s' = next_pid s" "process_count s' = process_count s" "current_thread s' = current_thread s"
      "memory s' = fill_canary stk (memory s2)"
    by (simp_all add: s'_def s2)
  moreover have "proc_inv s' ps"
  proof -
    have "proc_inv (s\<lparr>procs := (procs s)(p \<mapsto> with_thread t pr)\<rparr>) ps"
      by (rule proc_inv_upd [OF pi p(3)]) (simp_all add: with_thread_def)
    then show ?thesis
      by (rule proc_inv_heap) (use hv heap_view_cong [of "s\<lparr>procs := (procs s)(p \<mapsto> with_thread t pr)\<rparr>" s] in \<open>auto simp: s'\<close>)
  qed
  moreover have fresh: "stk \<notin> fst ` live_objects s" "t \<noteq> stk" using k(2) r(2) by auto
  moreover note n(2)
  moreover have "thr_inv s' ps (t # ts)"
  proof -
    from thr_inv_new [OF inv pi p(1,3) np n(2) fresh km(2) _ _ _ _ _ _ s'(1-5) hv(2) n(1) k(1)]
    show ?thesis by (simp add: new_thread_def)
  qed
  moreover have "\<forall>j<(stack_bytes div 8). load64 (memory s') (stk + 8 * j) = stack_canary"
    by (simp add: s'(10) fill_canary_word)
  ultimately show ?thesis by (intro exI conjI)
qed

text \<open>A thread without its links.\<close>

definition t_core :: "thread \<Rightarrow> thread" where
  "t_core th = th\<lparr>t_next := 0, sched_next := 0\<rparr>"

lemma t_core_fields:
  assumes "t_core th' = t_core th"
  shows "tid th' = tid th" "t_process th' = t_process th" "stack_base th' = stack_base th" "stack_size th' = stack_size th"
    "t_state th' = t_state th"
proof -
  have "f (t_core th') = f (t_core th)" for f :: "thread \<Rightarrow> 'b" using assms by simp
  from this [of tid] this [of t_process] this [of stack_base] this [of stack_size] this [of t_state]
  show "tid th' = tid th" "t_process th' = t_process th" "stack_base th' = stack_base th" "stack_size th' = stack_size th"
    "t_state th' = t_state th"
    by (simp_all add: t_core_def)
qed

lemma filter_remove1_distinct: "distinct xs \<Longrightarrow> filter P (remove1 x xs) = remove1 x (filter P xs)"
  by (induction xs) (auto simp: remove1_idem)

text \<open>Taking a thread off both lists, the store and the heap keeps the invariant for the others.\<close>

lemma thr_inv_remove:
  assumes inv: "thr_inv s ps ts" and t: "t \<in> set ts"
    and dom: "dom (thrds s') = set ts - {t}"
    and core: "\<And>q. q \<in> set ts \<Longrightarrow> q \<noteq> t \<Longrightarrow> t_core (the (thrds s' q)) = t_core (the (thrds s q))"
    and sch: "chain sched_next (thrds s') (thread_list s') (remove1 t ts) 0"
    and pch: "\<And>q. q \<in> set ps \<Longrightarrow> chain t_next (thrds s') (p_threads (the (procs s' q))) (remove1 t (threads_of s ts q)) 0 \<and>
        p_thread_count (the (procs s' q)) = of_nat (length (remove1 t (threads_of s ts q)))"
    and s': "next_tid s' = next_tid s" "thread_count s' = thread_count s - 1"
      "live_objects s' = live_objects s - {(stack_of s t, k)} - {(t, n)}"
  shows "thr_inv s' ps (remove1 t ts)"
proof -
  have I: "distinct (map (tid_of s) ts)" "\<forall>t\<in>set ts. 0 < tid_of s t \<and> tid_of s t < next_tid s" "0 < next_tid s"
    "thread_count s = of_nat (length ts)" "distinct (ps @ ts @ map (stack_of s) ts)"
    and J: "\<forall>t\<in>set ts. live_at s t sizeof_thread \<and> live_at s (stack_of s t) stack_bytes \<and>
        stack_size (the (thrds s t)) = stack_bytes \<and> t_process (the (thrds s t)) \<in> set ps"
    using inv unfolding thr_inv_def by blast+
  have d: "distinct ts" using I(5) by simp
  have mem: "q \<in> set (remove1 t ts) \<longleftrightarrow> q \<in> set ts \<and> q \<noteq> t" for q using d by (auto simp: set_remove1_eq)
  have f: "tid_of s' q = tid_of s q" "stack_of s' q = stack_of s q" "t_process (the (thrds s' q)) = t_process (the (thrds s q))"
    "stack_size (the (thrds s' q)) = stack_size (the (thrds s q))" if "q \<in> set (remove1 t ts)" for q
    using t_core_fields [OF core, of q] that unfolding mem by (auto simp: tid_of_def stack_of_def)
  have to': "threads_of s' (remove1 t ts) q = remove1 t (threads_of s ts q)" for q
  proof -
    have "threads_of s' (remove1 t ts) q = threads_of s (remove1 t ts) q"
      unfolding threads_of_def using f(3) by (intro filter_cong) auto
    then show ?thesis using d by (simp add: threads_of_def filter_remove1_distinct)
  qed
  have dm: "dom (thrds s') = set (remove1 t ts)" using dom d by (simp add: set_remove1_eq)
  have dt: "distinct (map (tid_of s') (remove1 t ts))"
    using I(1) f(1) mem by (auto simp: distinct_map inj_on_def)
  have tb: "\<forall>q\<in>set (remove1 t ts). 0 < tid_of s' q \<and> tid_of s' q < next_tid s'" using I(2) f(1) mem s'(1) by auto
  have ms: "map (stack_of s') (remove1 t ts) = map (stack_of s) (remove1 t ts)" using f(2) by auto
  have dd: "distinct (ps @ remove1 t ts @ map (stack_of s') (remove1 t ts))"
    using I(5) unfolding ms by (auto simp: distinct_map inj_on_def mem dest: notin_set_remove1)
  have lv: "live_at s' q sizeof_thread \<and> live_at s' (stack_of s' q) stack_bytes \<and>
        stack_size (the (thrds s' q)) = stack_bytes \<and> t_process (the (thrds s' q)) \<in> set ps" if q: "q \<in> set (remove1 t ts)" for q
  proof -
    have q': "q \<in> set ts" "q \<noteq> t" using q mem by auto
    have "q \<noteq> stack_of s t" "stack_of s q \<noteq> t" "stack_of s q \<noteq> stack_of s t"
      using I(5) q' t by (auto simp: distinct_map inj_on_def)
    then show ?thesis
      using J q' t f [OF q] by (auto simp: live_at_def s'(3))
  qed
  have ln: "thread_count s' = of_nat (length (remove1 t ts))"
  proof -
    obtain k where "length ts = Suc k" using t by (cases ts) auto
    then show ?thesis using I(4) t by (simp add: s'(2) length_remove1)
  qed
  show ?thesis
    unfolding thr_inv_def to' using sch dm dt tb ln dd lv pch I(3) s'(1) by auto
qed

definition finished :: "thread \<Rightarrow> thread" where
  "finished th = th\<lparr>t_state := THREAD_STATE_TERMINATED, stack_base := 0, stack_size := 0, stack_pointer := 0\<rparr>"

lemma finished_links [simp]:
  "t_next (finished th) = t_next th" "sched_next (finished th) = sched_next th" "t_process (finished th) = t_process th"
  by (simp_all add: finished_def)

definition without_thread :: "u64 \<Rightarrow> u64 \<Rightarrow> process \<Rightarrow> process" where
  "without_thread l t pr = pr\<lparr>p_threads := l, main_thread := (if main_thread pr = t then l else main_thread pr),
     p_thread_count := p_thread_count pr - 1\<rparr>"

text \<open>Unlinking through one field leaves the other one alone.\<close>

lemma unlink_t_next:
  assumes ch: "chain t_next h a us 0" and t: "t \<in> set us"
  shows "\<exists>a' h'. unlink t_next set_t_next t h a = Some (a', h') \<and> chain t_next h' a' (remove1 t us) 0 \<and> h' t = h t \<and> dom h' = dom h \<and>
    (\<forall>q. q \<notin> set us \<longrightarrow> h' q = h q) \<and>
    (\<forall>q th. h q = Some th \<longrightarrow> (\<exists>th'. h' q = Some th' \<and> t_core th' = t_core th \<and> sched_next th' = sched_next th))"
  using thread_links.unlink_member [OF ch t] by (auto simp: set_t_next_def t_core_def)

lemma unlink_sched_next:
  assumes ch: "chain sched_next h a us 0" and t: "t \<in> set us"
  shows "\<exists>a' h'. unlink sched_next set_sched_next t h a = Some (a', h') \<and> chain sched_next h' a' (remove1 t us) 0 \<and> h' t = h t \<and> dom h' = dom h \<and>
    (\<forall>q th. h q = Some th \<longrightarrow> (\<exists>th'. h' q = Some th' \<and> t_core th' = t_core th \<and> t_next th' = t_next th))"
  using sched_links.unlink_member [OF ch t] by (auto simp: set_sched_next_def t_core_def)

lemma cleanup_stack_spec:
  assumes hi: "heap_inv s" and th: "thrds s t = Some th" "stack_size th = stack_bytes"
    and st: "(stack_base th, k) \<in> live_objects s" "unat stack_bytes \<le> k"
  shows "\<exists>s2. cleanup_thread_stack t s = Some (s2\<lparr>thrds := (thrds s2)(t \<mapsto> th\<lparr>stack_base := 0, stack_size := 0, stack_pointer := 0\<rparr>)\<rparr>) \<and>
    heap_frame s s2 \<and> heap_inv s2 \<and> live_objects s2 = live_objects s - {(stack_base th, k)}"
proof -
  let ?b = "stack_base th"
  let ?s1 = "s\<lparr>memory := memset ?b 0 stack_bytes (memory s)\<rparr>"
  note b = live_objects_bounds [OF hi st(1)]
  have "memset ?b 0 stack_bytes (memory s) x = memory s x" if "\<not> inside ?b k x" for x
    using region_inside [of ?b 0 stack_bytes x k] that b(2) st(2) by (auto simp: memset_fill mem_fill_def)
  from heap_write_law [OF hi st(1) this] have w: "heap_inv ?s1" "live_objects ?s1 = live_objects s" by auto
  obtain s2 where s2: "kfree ?b ?s1 = Some s2" "live_objects s2 = live_objects s - {(?b, k)}" "heap_inv s2" "heap_frame ?s1 s2"
    using kheap.release_law [OF w(1), of ?b k] st(1) w(2) by auto
  have "heap_frame s ?s1" by simp
  then have fr: "heap_frame s s2" using s2(4) by (rule heap_frame_trans)
  then show ?thesis
    using s2 b(1) th thr_frame(1) [OF fr] by (intro exI [of _ s2]) (simp add: cleanup_thread_stack_def upd_thread_def Let_def)
qed

lemma unlink_from_process_spec:
  assumes th: "thrds s t = Some th" "t_process th = p" "p \<noteq> 0" and pr: "procs s p = Some pr"
    and un: "unlink t_next set_t_next t (thrds s) (p_threads pr) = Some (l, h)"
  shows "unlink_from_process t s = Some (s\<lparr>thrds := h, procs := (procs s)(p \<mapsto> without_thread l t pr)\<rparr>)"
  using assms by (simp add: unlink_from_process_def upd_proc_def Let_def without_thread_def)

lemma destroy_thread_unfold:
  assumes "get_thread i s = Some t" "t \<noteq> 0" "t \<noteq> current_thread s" "thrds s t = Some th"
    and "cleanup_thread_stack t (s\<lparr>thrds := (thrds s)(t \<mapsto> th\<lparr>t_state := THREAD_STATE_TERMINATED\<rparr>)\<rparr>) = Some s2"
    and "unlink_from_process t s2 = Some s3" "unlink_from_threads t s3 = Some s4" "kfree t s4 = Some s5"
  shows "destroy_thread i s = Some (0, s5\<lparr>thrds := (thrds s5)(t := None), thread_count := thread_count s5 - 1,
    thr_stats := (thr_stats s5)\<lparr>threads_destroyed := threads_destroyed (thr_stats s5) + 1\<rparr>\<rparr>)"
  using assms by (simp add: destroy_thread_def upd_thread_def Let_def)

lemma get_thread_found:
  assumes inv: "thr_inv s ps ts" and t: "t \<in> set ts" "tid_of s t = i"
  shows "get_thread i s = Some t"
proof -
  have I: "chain sched_next (thrds s) (thread_list s) ts 0" "distinct (map (tid_of s) ts)"
    using inv unfolding thr_inv_def by blast+
  have "first_of (\<lambda>q. tid_of s q = i) ts = t"
    using t I(2) by (intro first_of_unique) (auto simp: distinct_map inj_on_def)
  then show ?thesis using chain_find_chain [OF I(1), of "\<lambda>_ th. tid th = i"] by (simp add: get_thread_def tid_of_def)
qed

lemma destroy_thread_spec:
  assumes inv: "thr_inv s ps ts" and pi: "proc_inv s ps" and t: "t \<in> set ts" "tid_of s t = i" "t \<noteq> current_thread s"
  shows "\<exists>s' k n. destroy_thread i s = Some (0, s') \<and> proc_inv s' ps \<and> thr_inv s' ps (remove1 t ts) \<and>
    (stack_of s t, k) \<in> live_objects s \<and> (t, n) \<in> live_objects s \<and>
    live_objects s' = live_objects s - {(stack_of s t, k)} - {(t, n)}"
proof -
  have hi: "heap_inv s" and I: "chain sched_next (thrds s) (thread_list s) ts 0" "dom (thrds s) = set ts"
    and J: "live_at s t sizeof_thread" "live_at s (stack_of s t) stack_bytes" "stack_size (the (thrds s t)) = stack_bytes"
      "t_process (the (thrds s t)) \<in> set ps" and D: "distinct (ps @ ts @ map (stack_of s) ts)"
    using inv pi t(1) unfolding thr_inv_def proc_inv_def by blast+
  obtain th where th: "thrds s t = Some th" "t \<noteq> 0" using chain_mem [OF I(1) t(1)] by auto
  define p where "p = t_process th"
  have p: "p \<in> set ps" "p \<noteq> 0" using J(4) th proc_inv_mem [OF pi] by (auto simp: p_def)
  obtain pr where pr: "procs s p = Some pr" using proc_inv_mem [OF pi p(1)] by auto
  obtain k where k: "unat stack_bytes \<le> k" "(stack_base th, k) \<in> live_objects s" using J(2) th by (auto simp: live_at_def stack_of_def)
  obtain n where n: "(t, n) \<in> live_objects s" using J(1) by (auto simp: live_at_def)
  define s1 where "s1 = s\<lparr>thrds := (thrds s)(t \<mapsto> th\<lparr>t_state := THREAD_STATE_TERMINATED\<rparr>)\<rparr>"
  have h1: "heap_inv s1" "live_objects s1 = live_objects s" using heap_view_cong [of s1 s] hi by (simp_all add: s1_def)
  obtain s2' where c: "cleanup_thread_stack t s1 = Some (s2'\<lparr>thrds := (thrds s2')(t \<mapsto> finished th)\<rparr>)"
    "heap_frame s1 s2'" "heap_inv s2'" "live_objects s2' = live_objects s - {(stack_base th, k)}"
    using cleanup_stack_spec [OF h1(1), of t "th\<lparr>t_state := THREAD_STATE_TERMINATED\<rparr>" k] k J(3) th h1(2)
    by (auto simp: s1_def finished_def)
  define s2 where "s2 = s2'\<lparr>thrds := (thrds s2')(t \<mapsto> finished th)\<rparr>"
  note fp = proc_frame [OF c(2)] and ft = thr_frame [OF c(2)]
  have s2: "thrds s2 = (thrds s)(t \<mapsto> finished th)" "thread_list s2 = thread_list s" "next_tid s2 = next_tid s"
    "thread_count s2 = thread_count s" "procs s2 = procs s" "process_list s2 = process_list s" "next_pid s2 = next_pid s"
    "process_count s2 = process_count s"
    by (simp_all add: s2_def fp ft s1_def)
  let ?us = "threads_of s ts p"
  have us: "chain t_next (thrds s) (p_threads pr) ?us 0" "t \<in> set ?us"
    using inv p(1) pr t(1) th(1) unfolding thr_inv_def by (auto simp: threads_of_def p_def)
  have "chain t_next (thrds s2) (p_threads pr) ?us 0"
    unfolding s2(1) by (rule chain_upd_same [OF us(1) th(1)]) simp
  then obtain l h3 where h3: "unlink t_next set_t_next t (thrds s2) (p_threads pr) = Some (l, h3)" "chain t_next h3 l (remove1 t ?us) 0"
    "h3 t = thrds s2 t" "dom h3 = dom (thrds s2)" "\<forall>q. q \<notin> set ?us \<longrightarrow> h3 q = thrds s2 q"
    "\<forall>q th. thrds s2 q = Some th \<longrightarrow> (\<exists>th'. h3 q = Some th' \<and> t_core th' = t_core th \<and> sched_next th' = sched_next th)"
    using unlink_t_next [OF _ us(2)] by blast
  have "chain sched_next (thrds s2) (thread_list s) ts 0"
    unfolding s2(1) by (rule chain_upd_same [OF I(1) th(1)]) simp
  then have "chain sched_next h3 (thread_list s) ts 0"
    by (rule chain_cong [rotated]) (use h3(6) in blast)
  then obtain l4 h4 where h4: "unlink sched_next set_sched_next t h3 (thread_list s) = Some (l4, h4)" "chain sched_next h4 l4 (remove1 t ts) 0"
    "h4 t = h3 t" "dom h4 = dom h3"
    "\<forall>q th. h3 q = Some th \<longrightarrow> (\<exists>th'. h4 q = Some th' \<and> t_core th' = t_core th \<and> t_next th' = t_next th)"
    using unlink_sched_next [OF _ t(1)] by blast
  define s4 where "s4 = s2\<lparr>thrds := h4, procs := (procs s)(p \<mapsto> without_thread l t pr), thread_list := l4\<rparr>"
  have u3: "unlink_from_process t s2 = Some (s2\<lparr>thrds := h3, procs := (procs s2)(p \<mapsto> without_thread l t pr)\<rparr>)"
    by (rule unlink_from_process_spec [where th = "finished th", OF _ _ p(2) _ h3(1)]) (use pr in \<open>simp_all add: s2 p_def\<close>)
  have u4: "unlink_from_threads t (s2\<lparr>thrds := h3, procs := (procs s2)(p \<mapsto> without_thread l t pr)\<rparr>) = Some s4"
    using h4(1) by (simp add: unlink_from_threads_def s4_def s2)
  have h4v: "heap_inv s4" "live_objects s4 = live_objects s - {(stack_base th, k)}"
    using heap_view_cong [of s4 s2'] c(3,4) by (simp_all add: s4_def s2_def)
  have "stack_of s t \<notin> set ts" using D t(1) by auto
  then have ne: "t \<noteq> stack_base th" using t(1) th(1) by (auto simp: stack_of_def)
  obtain s5 where s5: "kfree t s4 = Some s5" "live_objects s5 = live_objects s - {(stack_base th, k)} - {(t, n)}" "heap_inv s5" "heap_frame s4 s5"
    using kheap.release_law [OF h4v(1), of t n] n h4v(2) ne by auto
  note gp = proc_frame [OF s5(4)] and gt = thr_frame [OF s5(4)]
  define s' where "s' = s5\<lparr>thrds := (thrds s5)(t := None), thread_count := thread_count s5 - 1,
    thr_stats := (thr_stats s5)\<lparr>threads_destroyed := threads_destroyed (thr_stats s5) + 1\<rparr>\<rparr>"
  have "destroy_thread i s = Some (0, s')"
    unfolding s'_def
    by (rule destroy_thread_unfold [OF get_thread_found [OF inv t(1,2)] th(2) t(3) th(1) _ u3 u4 s5(1)])
      (use c(1) in \<open>simp add: s1_def s2_def\<close>)
  moreover have s': "thrds s' = h4(t := None)" "thread_list s' = l4" "procs s' = (procs s)(p \<mapsto> without_thread l t pr)"
    "next_tid s' = next_tid s" "thread_count s' = thread_count s - 1" "process_list s' = process_list s" "next_pid s' = next_pid s"
    "process_count s' = process_count s"
    by (simp_all add: s'_def gp gt s4_def s2)
  moreover have hv: "heap_inv s'" "live_objects s' = live_objects s - {(stack_of s t, k)} - {(t, n)}"
    using heap_view_cong [of s' s5] s5 th(1) by (simp_all add: s'_def stack_of_def)
  moreover have "proc_inv s' ps"
  proof -
    let ?u = "s\<lparr>procs := (procs s)(p \<mapsto> without_thread l t pr)\<rparr>"
    have "proc_inv ?u ps" by (rule proc_inv_upd [OF pi pr]) (simp_all add: without_thread_def)
    then show ?thesis
    proof (rule proc_inv_heap)
      fix q m assume q: "q \<in> set ps" "(q, m) \<in> live_objects ?u"
      have "q \<noteq> t" "q \<noteq> stack_of s t" using D q(1) t(1) by auto
      then show "(q, m) \<in> live_objects s'" using q(2) heap_view_cong(2) [of ?u s] by (simp add: hv(2))
    qed (simp_all add: s' hv(1))
  qed
  moreover have "thr_inv s' ps (remove1 t ts)"
  proof (rule thr_inv_remove [OF inv t(1) _ _ _ _ s'(4,5) hv(2)])
    have d: "distinct ts" using D by simp
    show "dom (thrds s') = set ts - {t}" using h4(4) h3(4) I(2) t(1) by (auto simp: s'(1) s2(1))
    have core4: "\<exists>th'. h4 q = Some th' \<and> t_core th' = t_core qh" if "thrds s q = Some qh" "q \<noteq> t" for q qh
      using h3(6) [rule_format, of q qh] h4(5) that by (fastforce simp: s2(1))
    show "t_core (the (thrds s' q)) = t_core (the (thrds s q))" if q: "q \<in> set ts" "q \<noteq> t" for q
    proof -
      obtain qh where "thrds s q = Some qh" using I(2) q(1) by auto
      then show ?thesis using core4 [OF _ q(2)] q(2) by (auto simp: s'(1))
    qed
    show "chain sched_next (thrds s') (thread_list s') (remove1 t ts) 0" using h4(2) d by (simp add: s'(1,2))
    have ch4: "chain t_next h4 a zs 0" if "chain t_next h3 a zs 0" for a zs
      using that by (rule chain_cong [rotated]) (use h4(5) in blast)
    show "chain t_next (thrds s') (p_threads (the (procs s' q))) (remove1 t (threads_of s ts q)) 0 \<and>
        p_thread_count (the (procs s' q)) = of_nat (length (remove1 t (threads_of s ts q)))" if q: "q \<in> set ps" for q
    proof (cases "q = p")
      case True
      have "p_thread_count pr = of_nat (length ?us)" using inv p(1) pr unfolding thr_inv_def by auto
      moreover obtain j where "length ?us = Suc j" using us(2) by (cases ?us) auto
      moreover have "t \<notin> set (remove1 t ?us)" using d by (simp add: threads_of_def)
      ultimately show ?thesis
        using True ch4 [OF h3(2)] us(2) by (simp add: s'(1,3) without_thread_def length_remove1)
    next
      case False
      have nt: "t \<notin> set (threads_of s ts q)" using False th(1) by (auto simp: threads_of_def p_def)
      have c0: "chain t_next (thrds s) (p_threads (the (procs s q))) (threads_of s ts q) 0"
        "p_thread_count (the (procs s q)) = of_nat (length (threads_of s ts q))"
        using inv q unfolding thr_inv_def by blast+
      have "h3 r = thrds s r" if "r \<in> set (threads_of s ts q)" for r
        using h3(5) that False nt by (auto simp: threads_of_def s2(1))
      then have "chain t_next h3 (p_threads (the (procs s q))) (threads_of s ts q) 0"
        using c0(1) by (elim chain_cong [rotated]) auto
      then show ?thesis using ch4 c0(2) nt False by (simp add: s'(1,3) remove1_idem)
    qed
  qed
  moreover have "(stack_of s t, k) \<in> live_objects s" using k(2) th(1) by (simp add: stack_of_def)
  moreover note n
  ultimately show ?thesis by blast
qed

section \<open>An example\<close>

definition thr_boot :: thread_mgr where
  "thr_boot = process_mgr.extend proc_boot
     \<lparr>thrds = Map.empty, thread_list = 0, current_thread = 0, next_tid = 0, thread_count = 0, thread_lock = 0,
      thr_stats = \<lparr>threads_created = 0, threads_destroyed = 0, t_context_switches = 0, t_total_cpu_time = 0\<rparr>\<rparr>"

definition thr_small :: thread_mgr where
  "thr_small = snd (thread_init (snd (process_init (snd (heap_init 0x1000000 0x100000 thr_boot)))))"

lemma thr_small_ok:
  "proc_inv thr_small []" "thr_inv thr_small [] []" "heap_shape thr_small [(0x100000, False)]"
  "next_pid thr_small = 1" "next_tid thr_small = 1" "current_thread thr_small = 0" "thrds thr_small = Map.empty" "thread_list thr_small = 0"
  "thread_count thr_small = 0"
proof -
  let ?h = "snd (heap_init 0x1000000 0x100000 thr_boot)"
  have "heap_extent 0x100000 = 0x100000" by (simp add: heap_extent_def)
  then have sh: "heap_shape ?h [(0x100000, False)]"
    using heap_init_spec(2) [of "0x1000000" "0x100000" thr_boot] by simp
  have e: "procs ?h = Map.empty" "thrds ?h = Map.empty"
    by (simp_all add: heap_init_def Let_def thr_boot_def process_mgr.defs proc_boot_def heap.defs)
  have v: "heap_shape thr_small bs = heap_shape ?h bs" for bs
    using heap_view_cong(3) [of thr_small ?h] by (simp add: thr_small_def thread_init_def process_init_def)
  show "heap_shape thr_small [(0x100000, False)]" using sh v by simp
  then have "heap_inv thr_small" by (auto simp: heap_inv_def)
  then show "proc_inv thr_small []" by (simp add: proc_inv_def thr_small_def thread_init_def process_init_def e)
  show "thr_inv thr_small [] []" by (simp add: thr_inv_def thr_small_def thread_init_def process_init_def e)
  show "next_pid thr_small = 1" "next_tid thr_small = 1" "current_thread thr_small = 0" "thrds thr_small = Map.empty" "thread_list thr_small = 0"
    "thread_count thr_small = 0"
    by (simp_all add: thr_small_def thread_init_def process_init_def e)
qed

text \<open>Creating a process leaves the threads alone.\<close>

lemma create_process_threads:
  assumes "create_process name i s = Some (p, s')"
  shows "thrds s' = thrds s" "thread_list s' = thread_list s" "next_tid s' = next_tid s" "thread_count s' = thread_count s"
    "current_thread s' = current_thread s"
  using assms
  by (auto simp: create_process_def Let_def get_system_time_def allocate_process_memory_def link_parent_def link_process_def upd_proc_def
      thr_frame [OF kmalloc_frame] thr_frame [OF kfree_frame] split: if_splits Option.bind_splits)

text \<open>The bytes of a new process are inside its structure, so the room of the heap stays.\<close>

lemma create_process_room:
  assumes hi: "heap_inv s" and km: "kmalloc sizeof_process s = Some (p, s1)" "p \<noteq> 0" and c: "create_process name i s = Some (p, s')"
    and room: "heap_room s1 k"
  shows "heap_room s' k"
proof -
  obtain n where n: "unat sizeof_process \<le> n" "live_objects s1 = insert (p, n) (live_objects s)" "heap_inv s1"
    using kheap.alloc_fresh [OF hi _ _ km] by (auto simp: sizeof_process_def)
  have b: "unat p + n < 2 ^ 64" using live_objects_bounds(2) [OF n(3), of p n] n(2) by simp
  have "heap_room (s1\<lparr>memory := init_bytes p name (memory s1)\<rparr>) k"
    by (rule heap_room_write [OF room, of p n]) (use n(2) init_bytes_outside [OF n(1) b] in auto)
  moreover have "memory s' = init_bytes p name (memory s1) \<and> heap_start s' = heap_start s1 \<and> heap_end s' = heap_end s1 \<and>
    heap_size s' = heap_size s1 \<and> heap_used s' = heap_used s1 \<and> heap_free s' = heap_free s1 \<and> heap_first s' = heap_first s1"
    using c km
    by (auto simp: create_process_def Let_def get_system_time_def allocate_process_memory_def link_parent_def link_process_def
        upd_proc_def init_bytes_def split: if_splits Option.bind_splits)
  ultimately show ?thesis using heap_room_cong [of s' "s1\<lparr>memory := init_bytes p name (memory s1)\<rparr>"] by simp
qed

lemma create_thread_room:
  assumes inv: "thr_inv s ps ts" and pi: "proc_inv s ps" and p: "p \<in> set ps" "pid_of s p = i"
    and e: "entry_point \<noteq> 0" and np: "next_tid s + 1 \<noteq> 0" and room: "heap_room s k" "70000 \<le> k"
  shows "\<exists>t s'. create_thread i entry_point arg s = Some (t, s') \<and> t \<noteq> 0 \<and> t \<notin> fst ` live_objects s"
proof -
  obtain pr where pr: "procs s p = Some pr" using proc_inv_mem [OF pi p(1)] by auto
  have hi: "heap_inv s" using pi by (simp add: proc_inv_def)
  obtain t s1 k1 where km: "kmalloc sizeof_thread s = Some (t, s1)" "t \<noteq> 0" and k1: "heap_room s1 k1" "69000 \<le> k1"
    using heap_room_alloc [OF room(1), of sizeof_thread] room(2) by (auto simp: sizeof_thread_def block_need_def)
  obtain n where n: "unat sizeof_thread \<le> n" "live_objects s1 = insert (t, n) (live_objects s)" "heap_inv s1"
    using kheap.alloc_fresh [OF hi _ _ km] by (auto simp: sizeof_thread_def)
  have b: "unat t + n < 2 ^ 64" using live_objects_bounds(2) [OF n(3), of t n] n(2) by simp
  have "heap_room (s1\<lparr>memory := memset t 0 sizeof_thread (memory s1)\<rparr>) k1"
    by (rule heap_room_write [OF k1(1), of t n])
      (use n(1,2) b region_inside [of t 0 sizeof_thread _ n] in \<open>auto simp: memset_fill mem_fill_def\<close>)
  then have "heap_room (with_raw t i p (p_priority pr) s1) k1"
    using heap_room_cong [of "with_raw t i p (p_priority pr) s1" "s1\<lparr>memory := memset t 0 sizeof_thread (memory s1)\<rparr>"]
    by (simp add: with_raw_def)
  from heap_room_alloc [OF this, of stack_bytes] k1(2)
  obtain stk s2 where ks: "kmalloc stack_bytes (with_raw t i p (p_priority pr) s1) = Some (stk, s2)" "stk \<noteq> 0"
    by (auto simp: stack_bytes_def block_need_def)
  show ?thesis using create_thread_succeeds [OF inv pi p pr e km np ks, of arg] km(2) by blast
qed

text \<open>One process created on the example state, ready for a thread.\<close>

lemma thr_small_process:
  "\<exists>p s. create_process 0x5000 0 thr_small = Some (p, s) \<and> proc_inv s [p] \<and> thr_inv s [p] [] \<and> pid_of s p = 1 \<and>
    next_tid s = 1 \<and> current_thread s = 0 \<and> (\<exists>k. heap_room s k \<and> 900000 \<le> k)"
proof -
  have room: "heap_room thr_small 0x100000" using thr_small_ok(3) unfolding heap_room_def by (intro exI [of _ "[]"]) simp
  obtain p s1 k where km: "kmalloc sizeof_process thr_small = Some (p, s1)" "p \<noteq> 0" and k: "heap_room s1 k" "900000 \<le> k"
    using heap_room_alloc [OF room, of sizeof_process] by (auto simp: sizeof_process_def block_need_def)
  obtain s where s: "create_process 0x5000 0 thr_small = Some (p, s)" "proc_inv s [p]"
    "same_ident ((procs thr_small)(p \<mapsto> new_process 1 0 (fake_time thr_small + 1))) (procs s)"
    using create_process_spec [OF thr_small_ok(1) _ _ km, of "0x5000" 0] thr_small_ok(4) by auto
  obtain pr where pr: "procs s p = Some pr" "ident pr = ident (new_process 1 0 (fake_time thr_small + 1))"
    using same_ident_the [OF s(3), of p] by auto
  have "p_threads pr = p_threads (ident pr)" "p_thread_count pr = p_thread_count (ident pr)" "pid pr = pid (ident pr)"
    by (simp_all add: ident_def)
  then have "p_threads pr = 0" "p_thread_count pr = 0" "pid pr = 1"
    unfolding pr(2) by (simp_all add: ident_def new_process_def zero_process_def)
  moreover note create_process_threads [OF s(1)]
  moreover have "heap_room s k"
    by (rule create_process_room [OF heap_room_inv [OF room] km s(1) k(1)])
  ultimately show ?thesis
    using s pr(1) thr_small_ok(5-9) k(2)
    by (intro exI [of _ p] exI [of _ s]) (auto simp add: thr_inv_def threads_of_def pid_of_def)
qed

text \<open>The ways a creation can go, by what the two allocations return.\<close>

lemma create_thread_cases:
  assumes pi: "proc_inv s ps" and p: "p \<in> set ps" "pid_of s p = i" and e: "entry_point \<noteq> 0"
  shows "create_thread i entry_point arg s = Some (0, s) \<or>
    (\<exists>pr t s1. procs s p = Some pr \<and> kmalloc sizeof_thread s = Some (t, s1) \<and> t \<noteq> 0 \<and>
       kmalloc stack_bytes (with_raw t i p (p_priority pr) s1) = Some (0, with_raw t i p (p_priority pr) s1)) \<or>
    (\<exists>pr t s1 stk s2. procs s p = Some pr \<and> kmalloc sizeof_thread s = Some (t, s1) \<and> t \<noteq> 0 \<and>
       kmalloc stack_bytes (with_raw t i p (p_priority pr) s1) = Some (stk, s2) \<and> stk \<noteq> 0)"
proof (cases "kmalloc sizeof_thread s = Some (0, s)")
  case True
  then have "create_thread i entry_point arg s = Some (0, s)"
    using get_process_found [OF pi p] proc_inv_mem [OF pi p(1)] e by (simp add: create_thread_def)
  then show ?thesis by simp
next
  case False
  obtain pr where pr: "procs s p = Some pr" using proc_inv_mem [OF pi p(1)] by auto
  have hi: "heap_inv s" using pi by (simp add: proc_inv_def)
  then obtain t s1 where km: "kmalloc sizeof_thread s = Some (t, s1)" "t \<noteq> 0"
    using kheap.alloc_returns [of s sizeof_thread] False by (auto simp: sizeof_thread_def)
  let ?r = "with_raw t i p (p_priority pr) s1"
  obtain n where n: "unat sizeof_thread \<le> n" "live_objects s1 = insert (t, n) (live_objects s)" "heap_inv s1"
    using kheap.alloc_fresh [OF hi _ _ km] by (auto simp: sizeof_thread_def)
  have hr: "heap_inv ?r" using with_raw_heap [OF n(3) _ n(1), of t i p "p_priority pr"] n(2) by auto
  have "kmalloc stack_bytes ?r \<noteq> Some (0, ?r) \<Longrightarrow> \<exists>stk s2. kmalloc stack_bytes ?r = Some (stk, s2) \<and> stk \<noteq> 0"
    using kheap.alloc_returns [OF hr, of stack_bytes] by (auto simp: stack_bytes_def)
  then show ?thesis using pr km by blast
qed

section \<open>What the thread manager promises\<close>

text \<open>
  C8: \<^verbatim>\<open>create_thread\<close> for an existing process and a non-null entry point always returns.  Either it returns NULL
  and then the heap's objects, the threads and the processes are what they were (the thread structure is given back when
  the stack cannot be had), or it returns a new thread that is registered: it heads the global list and its process's
  list, \<^verbatim>\<open>get_thread\<close> of its identifier finds it, its structure and stack are new live heap objects,
  its saved context starts at the entry point with the argument in \<^verbatim>\<open>rdi\<close> and interrupts on, and every word of its stack
  is the canary.
\<close>

theorem create_thread_correct:
  assumes inv: "thr_inv s ps ts" and pi: "proc_inv s ps" and p: "p \<in> set ps" "pid_of s p = i"
    and e: "entry_point \<noteq> 0" and np: "next_tid s + 1 \<noteq> 0"
  shows "\<exists>t s'. create_thread i entry_point arg s = Some (t, s') \<and> proc_inv s' ps \<and>
    (if t = 0 then thr_inv s' ps ts \<and> live_objects s' = live_objects s \<and> procs s' = procs s \<and> thrds s' = thrds s
     else thr_inv s' ps (t # ts) \<and> get_thread (next_tid s) s' = Some t \<and> t \<notin> fst ` live_objects s \<and>
       (\<exists>th. thrds s' = (thrds s)(t \<mapsto> th) \<and> tid th = next_tid s \<and> t_process th = p \<and> t_state th = THREAD_STATE_READY \<and>
          stack_base th \<notin> fst ` live_objects s \<and> stack_pointer th = stack_base th + stack_bytes - 8 \<and>
          rip (context_of th) = entry_point \<and> rdi (context_of th) = arg \<and> rsp (context_of th) = stack_pointer th \<and>
          rflags (context_of th) = 0x202 \<and>
          (\<forall>j<(stack_bytes div 8). load64 (memory s') (stack_base th + 8 * j) = stack_canary)))"
  using create_thread_cases [OF pi p e, of arg]
proof (elim disjE exE conjE)
  assume "create_thread i entry_point arg s = Some (0, s)"
  then show ?thesis using inv pi by simp
next
  fix pr t s1
  assume "procs s p = Some pr" "kmalloc sizeof_thread s = Some (t, s1)" "t \<noteq> 0"
    "kmalloc stack_bytes (with_raw t i p (p_priority pr) s1) = Some (0, with_raw t i p (p_priority pr) s1)"
  then show ?thesis using create_thread_fails [OF inv pi p, of pr entry_point t s1 arg] e np by auto
next
  fix pr t s1 stk s2
  assume a: "procs s p = Some pr" "kmalloc sizeof_thread s = Some (t, s1)" "t \<noteq> 0"
    "kmalloc stack_bytes (with_raw t i p (p_priority pr) s1) = Some (stk, s2)" "stk \<noteq> 0"
  let ?th = "new_thread (next_tid s) i p (p_priority pr) stk entry_point arg (p_threads pr) (thread_list s)"
  obtain s' where s': "create_thread i entry_point arg s = Some (t, s')" "proc_inv s' ps" "thr_inv s' ps (t # ts)"
    "thrds s' = (thrds s)(t \<mapsto> ?th)" "stk \<notin> fst ` live_objects s" "t \<notin> fst ` live_objects s"
    "\<forall>j<(stack_bytes div 8). load64 (memory s') (stk + 8 * j) = stack_canary"
    using create_thread_succeeds [OF inv pi p a(1) e a(2,3) np a(4,5), of arg] by blast
  have "get_thread (next_tid s) s' = Some t"
    by (intro get_thread_found [OF s'(3)]) (auto simp: tid_of_def s'(4) new_thread_def)
  moreover have "tid ?th = next_tid s \<and> t_process ?th = p \<and> t_state ?th = THREAD_STATE_READY \<and> stack_base ?th = stk \<and>
    stack_pointer ?th = stack_base ?th + stack_bytes - 8 \<and> rip (context_of ?th) = entry_point \<and> rdi (context_of ?th) = arg \<and>
    rsp (context_of ?th) = stack_pointer ?th \<and> rflags (context_of ?th) = 0x202" by (simp add: new_thread_def)
  ultimately show ?thesis
    using s' a(3) by (intro exI [of _ t] exI [of _ s']) (simp, intro exI [of _ ?th] conjI, simp_all)
qed

theorem create_thread_correct_witness:
  "\<exists>p s t s'. create_process 0x5000 0 thr_small = Some (p, s) \<and> create_thread 1 0x400000 7 s = Some (t, s') \<and>
    proc_inv s' [p] \<and> (t \<noteq> 0 \<longrightarrow> thr_inv s' [p] [t])"
proof -
  obtain p s where s: "create_process 0x5000 0 thr_small = Some (p, s)" "proc_inv s [p]" "thr_inv s [p] []" "pid_of s p = 1"
    "next_tid s = 1" using thr_small_process by blast
  obtain t s' where "create_thread 1 0x400000 7 s = Some (t, s')" "proc_inv s' [p]" "t \<noteq> 0 \<longrightarrow> thr_inv s' [p] [t]"
    using create_thread_correct [OF s(3,2), of p 1 "0x400000" 7] s(4,5) by (auto split: if_splits)
  with s(1) show ?thesis by blast
qed

text \<open>
  C9: a thread that was created and is then destroyed leaves nothing behind: \<^verbatim>\<open>destroy_thread\<close> of the new thread's
  identifier, when it is not the running thread, returns success, both invariants hold for the lists there were before
  the creation, and the live heap objects are exactly the ones there were before it (structure and stack are freed).
\<close>

theorem create_destroy_thread:
  assumes inv: "thr_inv s ps ts" and pi: "proc_inv s ps" and p: "p \<in> set ps" "pid_of s p = i"
    and e: "entry_point \<noteq> 0" and np: "next_tid s + 1 \<noteq> 0"
    and c: "create_thread i entry_point arg s = Some (t, s')" "t \<noteq> 0" "t \<noteq> current_thread s"
  shows "\<exists>s''. destroy_thread (next_tid s) s' = Some (kern_code KERN_SUCCESS, s'') \<and> proc_inv s'' ps \<and> thr_inv s'' ps ts \<and>
    live_objects s'' = live_objects s"
  using create_thread_cases [OF pi p e, of arg]
proof (elim disjE exE conjE)
  assume "create_thread i entry_point arg s = Some (0, s)"
  then show ?thesis using c by simp
next
  fix pr u s1
  assume "procs s p = Some pr" "kmalloc sizeof_thread s = Some (u, s1)" "u \<noteq> 0"
    "kmalloc stack_bytes (with_raw u i p (p_priority pr) s1) = Some (0, with_raw u i p (p_priority pr) s1)"
  then show ?thesis using create_thread_fails [OF inv pi p, of pr entry_point u s1 arg] e np c by auto
next
  fix pr u s1 stk s2
  assume a: "procs s p = Some pr" "kmalloc sizeof_thread s = Some (u, s1)" "u \<noteq> 0"
    "kmalloc stack_bytes (with_raw u i p (p_priority pr) s1) = Some (stk, s2)" "stk \<noteq> 0"
  let ?th = "new_thread (next_tid s) i p (p_priority pr) stk entry_point arg (p_threads pr) (thread_list s)"
  obtain n k where n: "proc_inv s' ps" "thr_inv s' ps (t # ts)" "thrds s' = (thrds s)(t \<mapsto> ?th)" "current_thread s' = current_thread s"
    "live_objects s' = insert (stk, k) (insert (t, n) (live_objects s))"
    "stk \<notin> fst ` live_objects s" "t \<notin> fst ` live_objects s" "t \<noteq> stk"
    using create_thread_succeeds [OF inv pi p a(1) e a(2,3) np a(4,5), of arg] c(1) by (elim exE conjE) simp
  have i: "tid_of s' t = next_tid s" "stack_of s' t = stk" by (simp_all add: tid_of_def stack_of_def n(3) new_thread_def)
  have "t \<in> set (t # ts)" "t \<noteq> current_thread s'" using c(3) n(4) by simp_all
  from destroy_thread_spec [OF n(2,1) this(1) i(1) this(2)] obtain s'' k' n' where
    d: "destroy_thread (next_tid s) s' = Some (0, s'')" "proc_inv s'' ps" "thr_inv s'' ps ts"
      "(stk, k') \<in> live_objects s'" "(t, n') \<in> live_objects s'" "live_objects s'' = live_objects s' - {(stk, k')} - {(t, n')}"
    unfolding i(2) by auto
  have "k' = k" "n' = n" using d(4,5) n(5-8) by (auto simp: image_iff)
  then have "live_objects s'' = live_objects s" using d(6) n(5-8) by (auto simp: image_iff)
  with d(1-3) show ?thesis by (intro exI [of _ s'']) simp
qed

theorem create_destroy_thread_witness:
  "\<exists>p s t s'. create_process 0x5000 0 thr_small = Some (p, s) \<and> create_thread 1 0x400000 7 s = Some (t, s') \<and> t \<noteq> 0 \<and>
    (\<exists>s''. destroy_thread 1 s' = Some (kern_code KERN_SUCCESS, s'') \<and> thr_inv s'' [p] [] \<and> live_objects s'' = live_objects s)"
proof -
  obtain p s k where s: "create_process 0x5000 0 thr_small = Some (p, s)" "proc_inv s [p]" "thr_inv s [p] []" "pid_of s p = 1"
    "next_tid s = 1" "current_thread s = 0" "heap_room s k" "900000 \<le> k" using thr_small_process by blast
  obtain t s' where t: "create_thread 1 0x400000 7 s = Some (t, s')" "t \<noteq> 0"
    using create_thread_room [OF s(3,2), of p 1 "0x400000" k 7] s(4,5,7,8) by auto
  then show ?thesis
    using create_destroy_thread [OF s(3,2), of p 1 "0x400000" 7 t s'] s by auto
qed

end
