(* ===== verification/Scheduler.thy ===== *)
theory Scheduler
  imports Thread
begin

text \<open>
  The scheduler, \<^verbatim>\<open>kernel/sched/scheduler.c\<close>, and \<^verbatim>\<open>sleep\<close> of \<^verbatim>\<open>thread.c\<close>, which calls it. The ready and the sleeping
  queue are chains through \<^verbatim>\<open>sched_next\<close>, the same field the global thread list uses.

  The queue operations are proved to keep the queues and to compute what the lists say: selection takes the head,
  removal unlinks, the sleep queue hands exactly the due threads to the ready queue, the statistics count the
  ready threads. Because threads enter the ready queue at its head and are taken from its head, a tick
  never replaces the running thread; and because the queues share a link with the thread list, adding a thread
  cuts that list. Both are proved.
\<close>

unbundle bit_operations_syntax

section \<open>Data\<close>

definition SCHED_POLICY_ROUND_ROBIN :: u8 where
  "SCHED_POLICY_ROUND_ROBIN = 1"

definition SCHED_POLICY_PRIORITY :: u8 where
  "SCHED_POLICY_PRIORITY = 2"

definition SCHED_POLICY_CFS :: u8 where
  "SCHED_POLICY_CFS = 3"

definition SCHED_POLICY_REALTIME :: u8 where
  "SCHED_POLICY_REALTIME = 4"

record scheduler_stats =
  context_switches :: u64
  ss_processes_created :: u64
  ss_threads_created :: u64
  ss_total_cpu_time :: u64
  active_processes :: u32
  active_threads :: u32
  runnable_threads :: u32

definition zero_stats :: scheduler_stats where
  "zero_stats = \<lparr>context_switches = 0, ss_processes_created = 0, ss_threads_created = 0, ss_total_cpu_time = 0,
     active_processes = 0, active_threads = 0, runnable_threads = 0\<rparr>"

record sched = thread_mgr +
  current_policy :: u8
  time_quantum :: u32
  scheduler_enabled :: bool
  preemption_enabled :: bool
  ready_queue :: u64
  sleeping_queue :: u64
  sched_lock :: u32
  sched_stats :: scheduler_stats
  tick_counter :: u64
  last_schedule_time :: u64

section \<open>Operations\<close>

definition scheduler_init :: "'a sched_scheme \<Rightarrow> int \<times> 'a sched_scheme" where
  "scheduler_init s =
     (let s = s\<lparr>current_policy := SCHED_POLICY_ROUND_ROBIN, time_quantum := TIME_SLICE_DEFAULT, scheduler_enabled := False,
                preemption_enabled := False, ready_queue := 0, sleeping_queue := 0, sched_lock := 0,
                sched_stats := zero_stats, tick_counter := 0\<rparr>;
          (now, s) = get_system_time s
      in (kern_code KERN_SUCCESS, s\<lparr>last_schedule_time := now\<rparr>))"

definition scheduler_enable :: "bool \<Rightarrow> 'a sched_scheme \<Rightarrow> 'a sched_scheme" where
  "scheduler_enable enable_preemption s = s\<lparr>scheduler_enabled := True, preemption_enabled := enable_preemption\<rparr>"

definition scheduler_disable :: "'a sched_scheme \<Rightarrow> 'a sched_scheme" where
  "scheduler_disable s = s\<lparr>scheduler_enabled := False, preemption_enabled := False\<rparr>"

definition add_to_ready_queue :: "u64 \<Rightarrow> 'a sched_scheme \<Rightarrow> 'a sched_scheme option" where
  "add_to_ready_queue t s =
     (if t = 0 then Some s
      else do {
        s \<leftarrow> upd_thread t (set_sched_next (ready_queue s)) s;
        let s = s\<lparr>ready_queue := t\<rparr>;
        upd_thread t (\<lambda>th. th\<lparr>t_state := THREAD_STATE_READY\<rparr>) s })"

definition remove_from_ready_queue :: "'a sched_scheme \<Rightarrow> (u64 \<times> 'a sched_scheme) option" where
  "remove_from_ready_queue s =
     (if ready_queue s = 0 then Some (0, s)
      else do {
        let t = ready_queue s;
        th \<leftarrow> thrds s t;
        s \<leftarrow> upd_thread t (set_sched_next 0) (s\<lparr>ready_queue := sched_next th\<rparr>);
        Some (t, s) })"

text \<open>Every policy takes the head of the ready queue.\<close>

definition select_next_thread :: "'a sched_scheme \<Rightarrow> (u64 \<times> 'a sched_scheme) option" where
  "select_next_thread s =
     (if current_policy s = SCHED_POLICY_PRIORITY then remove_from_ready_queue s
      else if current_policy s = SCHED_POLICY_CFS then remove_from_ready_queue s
      else if current_policy s = SCHED_POLICY_REALTIME then remove_from_ready_queue s
      else remove_from_ready_queue s)"

definition update_thread_statistics :: "u64 \<Rightarrow> u64 \<Rightarrow> 'a sched_scheme \<Rightarrow> 'a sched_scheme option" where
  "update_thread_statistics t time_used s =
     (if t = 0 then Some s
      else do {
        th \<leftarrow> thrds s t;
        if t_process th = 0 then Some s
        else do {
          s \<leftarrow> upd_proc (t_process th) (\<lambda>pr. pr\<lparr>cpu_time := cpu_time pr + time_used\<rparr>) s;
          let st = sched_stats s;
          Some (s\<lparr>sched_stats := st\<lparr>ss_total_cpu_time := ss_total_cpu_time st + time_used\<rparr>\<rparr>) } })"

definition context_switch :: "u64 \<Rightarrow> u64 \<Rightarrow> 'a sched_scheme \<Rightarrow> 'a sched_scheme option" where
  "context_switch prev nxt s =
     (if nxt = 0 then Some s
      else do {
        s \<leftarrow> (if prev \<noteq> 0
             then upd_thread prev (\<lambda>th. if t_state th = THREAD_STATE_RUNNING then th\<lparr>t_state := THREAD_STATE_READY\<rparr> else th) s
             else Some s);
        s \<leftarrow> set_current_thread nxt s;
        s \<leftarrow> upd_thread nxt (\<lambda>th. th\<lparr>t_state := THREAD_STATE_RUNNING\<rparr>) s;
        s \<leftarrow> upd_thread nxt (\<lambda>th. th\<lparr>t_remaining_time := t_time_slice th\<rparr>) s;
        new \<leftarrow> thrds s nxt;
        switch \<leftarrow> (if prev = 0 then Some True else do { old \<leftarrow> thrds s prev; Some (t_process old \<noteq> t_process new) });
        if switch then set_current_process (t_process new) s else Some s })"

text \<open>\<^verbatim>\<open>arch_halt\<close> never returns.\<close>

definition arch_halt :: "'a sched_scheme \<Rightarrow> 'a sched_scheme option" where
  "arch_halt s = None"

definition schedule :: "'a sched_scheme \<Rightarrow> 'a sched_scheme option" where
  "schedule s =
     (if \<not> scheduler_enabled s then Some s
      else do {
        let cur = get_current_thread s;
        (nxt, s) \<leftarrow> select_next_thread s;
        if nxt = 0 then (if cur = 0 then arch_halt s else Some s)
        else if cur = nxt then
          (if cur \<noteq> 0 then upd_thread cur (\<lambda>th. th\<lparr>t_remaining_time := t_time_slice th\<rparr>) s else Some s)
        else do {
          let st = sched_stats s;
          let s = s\<lparr>sched_stats := st\<lparr>context_switches := context_switches st + 1\<rparr>\<rparr>;
          let (current_time, s) = get_system_time s;
          s \<leftarrow> (if cur \<noteq> 0 \<and> 0 < last_schedule_time s
               then update_thread_statistics cur (current_time - last_schedule_time s) s else Some s);
          s \<leftarrow> context_switch cur nxt s;
          Some (s\<lparr>last_schedule_time := current_time\<rparr>) } })"

definition yield :: "'a sched_scheme \<Rightarrow> 'a sched_scheme option" where
  "yield s =
     (if \<not> scheduler_enabled s then Some s
      else do {
        let cur = get_current_thread s;
        s \<leftarrow> (if cur \<noteq> 0 then do {
               s \<leftarrow> upd_thread cur (\<lambda>th. th\<lparr>t_remaining_time := t_time_slice th\<rparr>) s;
               th \<leftarrow> thrds s cur;
               if t_state th = THREAD_STATE_RUNNING then do {
                 s \<leftarrow> upd_thread cur (\<lambda>th. th\<lparr>t_state := THREAD_STATE_READY\<rparr>) s;
                 add_to_ready_queue cur s
               } else Some s
             } else Some s);
        schedule s })"

definition sleep :: "u64 \<Rightarrow> 'a sched_scheme \<Rightarrow> 'a sched_scheme option" where
  "sleep milliseconds s =
     (if current_thread s = 0 then Some s
      else do {
        let (now, s) = get_system_time s;
        s \<leftarrow> upd_thread (current_thread s) (\<lambda>th. th\<lparr>sleep_until := now + milliseconds\<rparr>) s;
        s \<leftarrow> upd_thread (current_thread s) (\<lambda>th. th\<lparr>t_state := THREAD_STATE_SLEEPING\<rparr>) s;
        yield s })"

text \<open>
  The loop of \<^verbatim>\<open>update_sleep_queue\<close>: \<open>prev\<close> is the last thread that stays asleep, 0 while there is none.
\<close>

partial_function (option) wake_due :: "u64 \<Rightarrow> u64 \<Rightarrow> u64 \<Rightarrow> 'a sched_scheme \<Rightarrow> 'a sched_scheme option" where
  "wake_due now prev t s =
     (if t = 0 then Some s
      else do {
        th \<leftarrow> thrds s t;
        let nxt = sched_next th;
        if sleep_until th \<le> now then do {
          s \<leftarrow> (if prev \<noteq> 0 then upd_thread prev (set_sched_next nxt) s else Some (s\<lparr>sleeping_queue := nxt\<rparr>));
          s \<leftarrow> wakeup t s;
          s \<leftarrow> add_to_ready_queue t s;
          wake_due now prev nxt s
        } else wake_due now t nxt s })"

definition update_sleep_queue :: "'a sched_scheme \<Rightarrow> 'a sched_scheme option" where
  "update_sleep_queue s =
     (let (now, s) = get_system_time s in wake_due now 0 (sleeping_queue s) s)"

definition scheduler_tick :: "'a sched_scheme \<Rightarrow> 'a sched_scheme option" where
  "scheduler_tick s =
     (if \<not> scheduler_enabled s then Some s
      else do {
        s \<leftarrow> update_sleep_queue (s\<lparr>tick_counter := tick_counter s + 1\<rparr>);
        if preemption_enabled s then do {
          let cur = get_current_thread s;
          if cur \<noteq> 0 then do {
            th \<leftarrow> thrds s cur;
            if 0 < t_remaining_time th then do {
              s \<leftarrow> upd_thread cur (\<lambda>th. th\<lparr>t_remaining_time := t_remaining_time th - 1\<rparr>) s;
              th \<leftarrow> thrds s cur;
              if t_remaining_time th = 0 then do {
                s \<leftarrow> upd_thread cur (\<lambda>th. th\<lparr>t_state := THREAD_STATE_READY\<rparr>) s;
                s \<leftarrow> add_to_ready_queue cur s;
                schedule s
              } else Some s
            } else Some s
          } else Some s
        } else Some s })"

definition scheduler_add_thread :: "u64 \<Rightarrow> 'a sched_scheme \<Rightarrow> 'a sched_scheme option" where
  "scheduler_add_thread t s =
     (if t = 0 then Some s
      else do {
        s \<leftarrow> upd_thread t (\<lambda>th. th\<lparr>t_state := THREAD_STATE_READY\<rparr>) s;
        s \<leftarrow> upd_thread t (\<lambda>th. th\<lparr>t_remaining_time := t_time_slice th\<rparr>) s;
        add_to_ready_queue t s })"

definition scheduler_remove_thread :: "u64 \<Rightarrow> 'a sched_scheme \<Rightarrow> 'a sched_scheme option" where
  "scheduler_remove_thread t s =
     (if t = 0 then Some s
      else do {
        (q, h) \<leftarrow> unlink sched_next set_sched_next t (thrds s) (ready_queue s);
        let s = s\<lparr>ready_queue := q, thrds := h\<rparr>;
        (q, h) \<leftarrow> unlink sched_next set_sched_next t (thrds s) (sleeping_queue s);
        let s = s\<lparr>sleeping_queue := q, thrds := h\<rparr>;
        upd_thread t (set_sched_next 0) s })"

definition scheduler_set_policy :: "u8 \<Rightarrow> 'a sched_scheme \<Rightarrow> int \<times> 'a sched_scheme" where
  "scheduler_set_policy policy s =
     (if policy \<in> {SCHED_POLICY_ROUND_ROBIN, SCHED_POLICY_PRIORITY, SCHED_POLICY_CFS, SCHED_POLICY_REALTIME}
      then (kern_code KERN_SUCCESS, s\<lparr>current_policy := policy\<rparr>)
      else (kern_code KERN_INVALID, s))"

definition scheduler_get_policy :: "'a sched_scheme \<Rightarrow> u8" where
  "scheduler_get_policy s = current_policy s"

definition get_scheduler_stats :: "'a sched_scheme \<Rightarrow> (scheduler_stats \<times> 'a sched_scheme) option" where
  "get_scheduler_stats s = do {
     let st = (sched_stats s)\<lparr>active_processes := 0, active_threads := 0, runnable_threads := 0\<rparr>;
     st \<leftarrow> chain_fold sched_next (\<lambda>_ st. st\<lparr>runnable_threads := runnable_threads st + 1\<rparr>) (thrds s) (ready_queue s) st;
     Some (st, s\<lparr>sched_stats := st\<rparr>) }"

section \<open>The queues\<close>

text \<open>Every thread's process exists, if it has one.\<close>

definition have_process :: "thread store \<Rightarrow> process store \<Rightarrow> bool" where
  "have_process h ps \<longleftrightarrow> (\<forall>t th. h t = Some th \<longrightarrow> t_process th = 0 \<or> t_process th \<in> dom ps)"

lemma have_process_cong:
  assumes "have_process h ps" and "dom ps' = dom ps" and "\<And>q. map_option t_process (h' q) = map_option t_process (h q)"
  shows "have_process h' ps'"
  unfolding have_process_def
proof (intro allI impI)
  fix t th assume "h' t = Some th"
  then obtain th' where "h t = Some th'" "t_process th = t_process th'" using assms(3) [of t] by (cases "h t") auto
  then show "t_process th = 0 \<or> t_process th \<in> dom ps'" using assms(1,2) unfolding have_process_def by auto
qed

lemma have_process_upd:
  "have_process h ps \<Longrightarrow> h t = Some th \<Longrightarrow> t_process th' = t_process th \<Longrightarrow> have_process (h(t \<mapsto> th')) ps"
  by (erule have_process_cong) auto

text \<open>
  The invariant of the scheduler, for the threads \<open>rs\<close> that are ready and \<open>zs\<close> that sleep: both queues are chains with no
  thread in common, the running thread is in neither, and a thread's process exists.
\<close>

definition sched_inv :: "'a sched_scheme \<Rightarrow> u64 list \<Rightarrow> u64 list \<Rightarrow> bool" where
  "sched_inv s rs zs \<longleftrightarrow>
     chain sched_next (thrds s) (ready_queue s) rs 0 \<and> chain sched_next (thrds s) (sleeping_queue s) zs 0 \<and>
     set rs \<inter> set zs = {} \<and>
     (current_thread s \<noteq> 0 \<longrightarrow> thrds s (current_thread s) \<noteq> None \<and> current_thread s \<notin> set rs \<union> set zs) \<and>
     have_process (thrds s) (procs s)"

lemma sched_invD:
  assumes "sched_inv s rs zs"
  shows "chain sched_next (thrds s) (ready_queue s) rs 0" "chain sched_next (thrds s) (sleeping_queue s) zs 0"
    "set rs \<inter> set zs = {}" "current_thread s \<noteq> 0 \<Longrightarrow> \<exists>th. thrds s (current_thread s) = Some th"
    "current_thread s \<noteq> 0 \<Longrightarrow> current_thread s \<notin> set rs \<union> set zs"
    "have_process (thrds s) (procs s)"
  using assms unfolding sched_inv_def by blast+

lemma set_sched_next_simps [simp]:
  "tid (set_sched_next v th) = tid th" "t_pid (set_sched_next v th) = t_pid th" "t_state (set_sched_next v th) = t_state th"
  "t_process (set_sched_next v th) = t_process th" "sched_next (set_sched_next v th) = v"
  "t_time_slice (set_sched_next v th) = t_time_slice th" "t_remaining_time (set_sched_next v th) = t_remaining_time th"
  "sleep_until (set_sched_next v th) = sleep_until th" "set_sched_next v (set_sched_next w th) = set_sched_next v th"
  "t_next (set_sched_next v th) = t_next th"
  by (simp_all add: set_sched_next_def)

text \<open>A thread of a queue is at an address other than 0.\<close>

lemma sched_inv_nonzero: "sched_inv s rs zs \<Longrightarrow> 0 \<notin> set rs \<union> set zs"
  using chain_mem by (fastforce simp: sched_inv_def)

lemma select_head: "select_next_thread s = remove_from_ready_queue s"
  by (simp add: select_next_thread_def)

lemma remove_from_ready_queue_spec:
  "chain sched_next (thrds s) (ready_queue s) [] 0 \<Longrightarrow> remove_from_ready_queue s = Some (0, s)"
  "chain sched_next (thrds s) (ready_queue s) (t # rs) 0 \<Longrightarrow> thrds s t = Some th \<Longrightarrow>
     remove_from_ready_queue s = Some (t, s\<lparr>ready_queue := sched_next th, thrds := (thrds s)(t \<mapsto> set_sched_next 0 th)\<rparr>)"
  by (auto simp: remove_from_ready_queue_def upd_thread_def)

text \<open>Changing fields of a thread other than its link and its process keeps the invariant.\<close>

lemma sched_inv_upd:
  assumes inv: "sched_inv s rs zs" and t: "thrds s t = Some th" "sched_next th' = sched_next th" "t_process th' = t_process th"
  shows "sched_inv (s\<lparr>thrds := (thrds s)(t \<mapsto> th')\<rparr>) rs zs"
proof -
  note I = sched_invD [OF inv]
  have "chain sched_next ((thrds s)(t \<mapsto> th')) (ready_queue s) rs 0" "chain sched_next ((thrds s)(t \<mapsto> th')) (sleeping_queue s) zs 0"
    using chain_upd_same [OF I(1) t(1,2)] chain_upd_same [OF I(2) t(1,2)] by auto
  then show ?thesis using I(3-5) have_process_upd [OF I(6) t(1,3)] by (auto simp: sched_inv_def)
qed

text \<open>Putting a thread at the head of the ready queue.\<close>

lemma add_to_ready_queue_spec:
  assumes "t \<noteq> 0" and "thrds s t = Some th"
  shows "add_to_ready_queue t s =
    Some (s\<lparr>thrds := (thrds s)(t \<mapsto> (set_sched_next (ready_queue s) th)\<lparr>t_state := THREAD_STATE_READY\<rparr>), ready_queue := t\<rparr>)"
  using assms by (simp add: add_to_ready_queue_def upd_thread_def Let_def)

lemma sched_inv_add:
  assumes inv: "sched_inv s rs zs" and t: "t \<noteq> 0" "thrds s t = Some th" "t \<notin> set rs \<union> set zs" "t \<noteq> current_thread s"
    and s': "add_to_ready_queue t s = Some s'"
  shows "sched_inv s' (t # rs) zs"
proof -
  note I = sched_invD [OF inv]
  let ?h = "(thrds s)(t \<mapsto> (set_sched_next (ready_queue s) th)\<lparr>t_state := THREAD_STATE_READY\<rparr>)"
  have "chain sched_next ?h t (t # rs) 0" "chain sched_next ?h (sleeping_queue s) zs 0"
    using I(1,2) t by simp_all
  moreover have "have_process ?h (procs s)" by (rule have_process_upd [OF I(6) t(2)]) simp
  ultimately show ?thesis
    using I(3-5) t s' by (auto simp: add_to_ready_queue_spec sched_inv_def)
qed

section \<open>The sleep queue\<close>

definition ready_again :: "thread \<Rightarrow> thread" where
  "ready_again th = (if t_state th = THREAD_STATE_SLEEPING then th\<lparr>sleep_until := 0\<rparr> else th)\<lparr>t_state := THREAD_STATE_READY\<rparr>"

text \<open>Two stores agree up to the links of the queues.\<close>

definition same_threads :: "thread store \<Rightarrow> thread store \<Rightarrow> bool" where
  "same_threads h h' \<longleftrightarrow> (\<forall>q. map_option (set_sched_next 0) (h' q) = map_option (set_sched_next 0) (h q))"

lemma same_threads_refl [simp]: "same_threads h h"
  by (simp add: same_threads_def)

lemma same_threads_trans: "same_threads h h1 \<Longrightarrow> same_threads h1 h2 \<Longrightarrow> same_threads h h2"
  by (simp add: same_threads_def)

lemma same_threads_upd: "h q = Some th \<Longrightarrow> same_threads h (h(q \<mapsto> set_sched_next v th))"
  by (simp add: same_threads_def)

lemma same_threads_dom: "same_threads h h' \<Longrightarrow> h' q = None \<longleftrightarrow> h q = None"
  unfolding same_threads_def by (metis map_option_is_None)

definition due :: "u64 \<Rightarrow> 'a sched_scheme \<Rightarrow> u64 \<Rightarrow> bool" where
  "due now s t \<longleftrightarrow> sleep_until (the (thrds s t)) \<le> now"

text \<open>The store after the due threads of \<open>us\<close> were woken, up to links.\<close>

definition wake_all :: "(u64 \<Rightarrow> bool) \<Rightarrow> u64 list \<Rightarrow> thread store \<Rightarrow> thread store" where
  "wake_all P us h = (\<lambda>q. if q \<in> set us \<and> P q then map_option ready_again (h q) else h q)"

lemma sched_next_ready_again [simp]:
  "sched_next (ready_again th) = sched_next th" "t_process (ready_again th) = t_process th"
  "set_sched_next v (ready_again th) = ready_again (set_sched_next v th)"
  by (simp_all add: ready_again_def set_sched_next_def)

text \<open>One woken thread: unlinked behind \<open>prev\<close>, marked ready and put on the ready queue.\<close>

lemma wake_due_keep:
  assumes "t \<noteq> 0" and "thrds s t = Some th" and "\<not> sleep_until th \<le> now"
  shows "wake_due now prev t s = wake_due now t (sched_next th) s"
  using assms by (subst wake_due.simps) simp

lemma ready_step:
  "(set_sched_next v (if t_state th = THREAD_STATE_SLEEPING then th\<lparr>t_state := THREAD_STATE_READY, sleep_until := 0\<rparr> else th))
     \<lparr>t_state := THREAD_STATE_READY\<rparr> = ready_again (set_sched_next v th)"
  by (cases th) (simp add: ready_again_def set_sched_next_def)

lemma wake_due_wake:
  assumes t: "t \<noteq> 0" "thrds s t = Some th" "sleep_until th \<le> now"
    and p: "prev \<noteq> 0 \<Longrightarrow> thrds s prev = Some pth" "prev \<noteq> t"
    and h1: "h1 = (if prev = 0 then thrds s else (thrds s)(prev \<mapsto> set_sched_next (sched_next th) pth))"
    and z: "z = (if prev = 0 then sched_next th else sleeping_queue s)"
  shows "wake_due now prev t s = wake_due now prev (sched_next th)
    (s\<lparr>sleeping_queue := z, ready_queue := t, thrds := h1(t \<mapsto> ready_again (set_sched_next (ready_queue s) th))\<rparr>)"
  using t p unfolding h1 z
  by (subst wake_due.simps)
    (simp add: wakeup_def upd_thread_def add_to_ready_queue_def Let_def ready_step)

text \<open>The whole loop. The threads \<open>ws\<close> before the current one stay asleep; the last of them is \<open>prev\<close>.\<close>

definition queue_frame :: "'a sched_scheme \<Rightarrow> 'a sched_scheme \<Rightarrow> bool" where
  "queue_frame s s' \<longleftrightarrow> s' = s\<lparr>thrds := thrds s', ready_queue := ready_queue s', sleeping_queue := sleeping_queue s'\<rparr>"

lemma wake_all_step:
  assumes d: "distinct (t # us)" and t: "thrds s t = Some th" "P t" and q: "q \<noteq> t" "q \<noteq> 0 \<Longrightarrow> thrds s q = Some m" "q \<notin> set us"
    and h: "g = (if q = 0 then thrds s else (thrds s)(q \<mapsto> set_sched_next u m))"
    and w: "same_threads (wake_all P us (g(t \<mapsto> ready_again (set_sched_next v th)))) h'"
  shows "same_threads (wake_all P (t # us) (thrds s)) h'"
  using w d t q unfolding same_threads_def wake_all_def h
  by (auto simp: split: if_splits)

lemma wake_due_chain:
  assumes "chain sched_next (thrds s) t us 0" and "chain sched_next (thrds s) (sleeping_queue s) (ws @ us) 0"
    and "chain sched_next (thrds s) (ready_queue s) rs 0" and "set (ws @ us) \<inter> set rs = {}"
    and "prev = (if ws = [] then 0 else last ws)"
  shows "\<exists>s'. wake_due now prev t s = Some s' \<and>
    chain sched_next (thrds s') (sleeping_queue s') (ws @ filter (\<lambda>q. \<not> due now s q) us) 0 \<and>
    chain sched_next (thrds s') (ready_queue s') (rev (filter (due now s) us) @ rs) 0 \<and>
    same_threads (wake_all (due now s) us (thrds s)) (thrds s') \<and> queue_frame s s'"
  using assms
proof (induction us arbitrary: ws rs prev t s)
  case Nil
  then show ?case by (subst wake_due.simps) (auto simp: queue_frame_def wake_all_def)
next
  case (Cons u us)
  then obtain th where th: "t = u" "u \<noteq> 0" "thrds s u = Some th" "chain sched_next (thrds s) (sched_next th) us 0" by auto
  have dis: "distinct (ws @ u # us)" using Cons.prems(2) by (rule chain_distinct)
  show ?case
  proof (cases "sleep_until th \<le> now")
    case False
    have e: "wake_all (due now s) (u # us) (thrds s) = wake_all (due now s) us (thrds s)"
      using False th(3) dis by (auto simp: wake_all_def fun_eq_iff due_def)
    have "\<not> due now s u" using False th(3) by (simp add: due_def)
    with Cons.IH [OF th(4), of "ws @ [u]" rs u] Cons.prems(2-4)
    show ?thesis unfolding th(1) wake_due_keep [OF th(2,3) False] e by auto
  next
    case True
    define q where "q = (if ws = [] then 0 else last ws)"
    have in_ws: "ws \<noteq> [] \<Longrightarrow> q \<in> set ws" by (simp add: q_def)
    then have "ws \<noteq> [] \<Longrightarrow> q \<noteq> 0" using chain_mem [OF Cons.prems(2), of q] by simp
    with in_ws have qw: "q \<noteq> 0 \<longleftrightarrow> ws \<noteq> []" "ws \<noteq> [] \<Longrightarrow> q \<in> set ws" by (cases "ws = []"; simp add: q_def)+
    obtain m where m: "q \<noteq> 0 \<Longrightarrow> thrds s q = Some m"
      using chain_mem [OF Cons.prems(2), of q] qw by auto
    have q: "q \<noteq> u" "q \<notin> set us" "q \<notin> set rs" using qw dis Cons.prems(4) th(2) chain_mem [OF th(4)] chain_mem [OF Cons.prems(3)] by auto
    define h1 where "h1 = (if q = 0 then thrds s else (thrds s)(q \<mapsto> set_sched_next (sched_next th) m))"
    define z where "z = (if q = 0 then sched_next th else sleeping_queue s)"
    define s1 where "s1 = s\<lparr>sleeping_queue := z, ready_queue := u, thrds := h1(u \<mapsto> ready_again (set_sched_next (ready_queue s) th))\<rparr>"
    have step: "wake_due now q u s = wake_due now q (sched_next th) s1"
      unfolding s1_def by (rule wake_due_wake [OF th(2,3) True m q(1) h1_def z_def])
    have c1: "chain sched_next (thrds s1) (sched_next th) us 0"
      using th(4) q dis by (auto simp: s1_def h1_def)
    have c2: "chain sched_next (thrds s1) (sleeping_queue s1) (ws @ us) 0"
    proof (cases "ws = []")
      case True
      then show ?thesis using c1 qw by (simp add: s1_def z_def)
    next
      case False
      then have w: "ws = butlast ws @ [q]" by (simp add: q_def)
      have "chain sched_next (thrds s) (sleeping_queue s) (butlast ws @ q # u # us) 0" using Cons.prems(2) w by (metis append.assoc append_Cons append_Nil)
      from sched_links.relink [OF this th(3) m] False qw
      have "chain sched_next h1 (sleeping_queue s) (butlast ws @ q # us) 0" by (simp add: h1_def)
      then have "chain sched_next h1 (sleeping_queue s) (ws @ us) 0" using w by (metis append.assoc append_Cons append_Nil)
      then show ?thesis using dis False qw by (simp add: s1_def z_def)
    qed
    have c3: "chain sched_next (thrds s1) (ready_queue s1) (u # rs) 0"
      using Cons.prems(3,4) th(2) q by (auto simp: s1_def h1_def)
    have e: "due now s1 x = due now s x" if "x \<in> set us" for x
      using that dis q m by (auto simp: due_def s1_def h1_def)
    have f: "filter (due now s1) us = filter (due now s) us" "filter (\<lambda>x. \<not> due now s1 x) us = filter (\<lambda>x. \<not> due now s x) us"
      "wake_all (due now s1) us = wake_all (due now s) us"
      using e by (auto intro!: filter_cong simp: wake_all_def fun_eq_iff)
    have du: "due now s u" using True th(3) by (simp add: due_def)
    have "set (ws @ us) \<inter> set (u # rs) = {}" using Cons.prems(4) dis by auto
    from Cons.IH [OF c1 c2 c3 this q_def] obtain s' where s': "wake_due now q (sched_next th) s1 = Some s'"
      "chain sched_next (thrds s') (sleeping_queue s') (ws @ filter (\<lambda>q. \<not> due now s q) us) 0"
      "chain sched_next (thrds s') (ready_queue s') (rev (filter (due now s) us) @ u # rs) 0"
      "same_threads (wake_all (due now s) us (thrds s1)) (thrds s')" "queue_frame s1 s'"
      unfolding f by blast
    have "same_threads (wake_all (due now s) (u # us) (thrds s)) (thrds s')"
      by (rule wake_all_step [where P = "due now s" and us = us and q = q and m = m and g = h1, OF _ th(3) du q(1) m q(2) h1_def])
        (use s'(4) dis in \<open>auto simp: s1_def\<close>)
    moreover have "queue_frame s s'" using s'(5) by (simp add: queue_frame_def s1_def)
    ultimately show ?thesis
      using s'(1-3) step du Cons.prems(5) by (intro exI [of _ s']) (simp add: th(1) q_def [symmetric])
  qed
qed

lemma same_threads_field:
  assumes "same_threads h h'" and "\<And>th. f (set_sched_next 0 th) = f th"
  shows "map_option f (h' q) = map_option f (h q)"
proof -
  have "map_option f (map_option (set_sched_next 0) (h' q)) = map_option f (map_option (set_sched_next 0) (h q))"
    using assms(1) by (simp add: same_threads_def)
  then show ?thesis by (simp add: option.map_comp o_def assms(2))
qed

lemma same_threads_the:
  assumes "same_threads h h'" and "h q = Some th"
  shows "\<exists>v. h' q = Some (set_sched_next v th)"
proof -
  have "map_option (set_sched_next 0) (h' q) = Some (set_sched_next 0 th)" using assms by (simp add: same_threads_def)
  then obtain th' where th': "h' q = Some th'" "set_sched_next 0 th' = set_sched_next 0 th" by auto
  have "th' = set_sched_next (sched_next th') (set_sched_next 0 th')" by (cases th') (simp add: set_sched_next_def)
  then have "th' = set_sched_next (sched_next th') th" using th'(2) by simp
  then show ?thesis using th'(1) by (intro exI [of _ "sched_next th'"]) simp
qed

lemma wake_all_process [simp]: "map_option t_process (wake_all P us h q) = map_option t_process (h q)"
  by (simp add: wake_all_def option.map_comp o_def)

lemma wake_all_dom [simp]: "wake_all P us h q = None \<longleftrightarrow> h q = None"
  by (simp add: wake_all_def)

text \<open>Writing a thread that is in no queue.\<close>

lemma sched_inv_current:
  assumes inv: "sched_inv s rs zs" and t: "thrds s t = Some th" "t \<notin> set rs \<union> set zs" "t_process th' = t_process th"
  shows "sched_inv (s\<lparr>thrds := (thrds s)(t \<mapsto> th')\<rparr>) rs zs"
  using sched_invD [OF inv] have_process_upd [OF sched_invD(6) [OF inv] t(1,3)] t(2) by (auto simp: sched_inv_def)

text \<open>What the sleep queue does on queues that satisfy the invariant.\<close>

lemma update_sleep_queue_spec:
  assumes inv: "sched_inv s rs zs" and now: "now = fake_time s + 1"
  shows "\<exists>s'. update_sleep_queue s = Some s' \<and>
    sched_inv s' (rev (filter (due now s) zs) @ rs) (filter (\<lambda>q. \<not> due now s q) zs) \<and>
    same_threads (wake_all (due now s) zs (thrds s)) (thrds s') \<and> queue_frame (s\<lparr>fake_time := now\<rparr>) s'"
proof -
  note I = sched_invD [OF inv]
  let ?s = "s\<lparr>fake_time := now\<rparr>"
  have e: "due now ?s = due now s" by (simp add: due_def fun_eq_iff)
  obtain s' where s': "wake_due now 0 (sleeping_queue s) ?s = Some s'"
    "chain sched_next (thrds s') (sleeping_queue s') (filter (\<lambda>q. \<not> due now s q) zs) 0"
    "chain sched_next (thrds s') (ready_queue s') (rev (filter (due now s) zs) @ rs) 0"
    "same_threads (wake_all (due now s) zs (thrds s)) (thrds s')" "queue_frame ?s s'"
    using wake_due_chain [of ?s "sleeping_queue s" zs "[]" rs 0 now] I(1-3) unfolding e by (auto simp: Int_commute)
  have f: "current_thread s' = current_thread s" "procs s' = procs s"
    using arg_cong [OF s'(5) [unfolded queue_frame_def], of current_thread] arg_cong [OF s'(5) [unfolded queue_frame_def], of procs] by simp_all
  have "map_option t_process (thrds s' q) = map_option t_process (thrds s q)" for q
    using same_threads_field [OF s'(4), of t_process q] by simp
  then have "have_process (thrds s') (procs s')" by (intro have_process_cong [OF I(6)]) (simp_all add: f)
  moreover have "thrds s' q = None \<longleftrightarrow> thrds s q = None" for q using same_threads_dom [OF s'(4)] by simp
  ultimately have "sched_inv s' (rev (filter (due now s) zs) @ rs) (filter (\<lambda>q. \<not> due now s q) zs)"
    using s'(2,3) I(3-5) unfolding sched_inv_def f by auto
  then show ?thesis using s' by (auto simp: update_sleep_queue_def get_system_time_def Let_def now)
qed

section \<open>Scheduling\<close>

text \<open>
  The running thread, put on the ready queue and selected from it: the queue is as before and the same thread goes on,
  with a new slice, but marked ready.
\<close>

lemma reselect:
  assumes en: "scheduler_enabled s" and c: "current_thread s = c" "c \<noteq> 0" "thrds s c = Some th"
  shows "\<exists>s1. add_to_ready_queue c s = Some s1 \<and>
    schedule s1 = Some (s\<lparr>thrds := (thrds s)(c \<mapsto> th\<lparr>t_state := THREAD_STATE_READY, sched_next := 0, t_remaining_time := t_time_slice th\<rparr>)\<rparr>)"
  using c en
  by (simp add: add_to_ready_queue_spec schedule_def get_current_thread_def select_head remove_from_ready_queue_def upd_thread_def
      Let_def set_sched_next_def)

text \<open>Steps of a switch that leave the threads, the queues and the set of processes alone.\<close>

definition same_queues :: "'a sched_scheme \<Rightarrow> 'a sched_scheme \<Rightarrow> bool" where
  "same_queues s s' \<longleftrightarrow>
     thrds s' = thrds s \<and> dom (procs s') = dom (procs s) \<and> current_thread s' = current_thread s \<and>
     ready_queue s' = ready_queue s \<and> sleeping_queue s' = sleeping_queue s \<and>
     context_switches (sched_stats s') = context_switches (sched_stats s)"

lemma same_queues_inv: "same_queues s s' \<Longrightarrow> sched_inv s rs zs \<Longrightarrow> sched_inv s' rs zs"
  by (auto simp: same_queues_def sched_inv_def have_process_def)

lemma update_thread_statistics_spec:
  assumes "have_process (thrds s) (procs s)" and "thrds s t = Some th"
  shows "\<exists>s'. update_thread_statistics t d s = Some s' \<and> same_queues s s'"
proof (cases "t = 0 \<or> t_process th = 0")
  case False
  then obtain pr where "procs s (t_process th) = Some pr" using assms unfolding have_process_def by blast
  then show ?thesis using False assms(2)
    by (simp add: update_thread_statistics_def upd_proc_def same_queues_def Let_def insert_absorb domI)
qed (use assms(2) in \<open>auto simp: update_thread_statistics_def same_queues_def\<close>)

lemma set_current_process_spec:
  assumes "p = 0 \<or> p \<in> dom (procs s)"
  shows "\<exists>s'. set_current_process p s = Some s' \<and> same_queues s s'"
  using assms
  by (auto simp: set_current_process_def upd_proc_def same_queues_def Let_def get_system_time_def insert_absorb domI)

definition preempted :: "thread \<Rightarrow> thread" where
  "preempted th = (if t_state th = THREAD_STATE_RUNNING then th\<lparr>t_state := THREAD_STATE_READY\<rparr> else th)"

definition running :: "thread \<Rightarrow> thread" where
  "running th = th\<lparr>t_state := THREAD_STATE_RUNNING, t_remaining_time := t_time_slice th\<rparr>"

lemma preempted_running_simps [simp]:
  "t_process (preempted th) = t_process th" "sched_next (preempted th) = sched_next th"
  "t_process (running th) = t_process th" "sched_next (running th) = sched_next th"
  by (simp_all add: preempted_def running_def)

definition switch_threads :: "u64 \<Rightarrow> u64 \<Rightarrow> thread store \<Rightarrow> thread store" where
  "switch_threads c t h = (if c = 0 then h else h(c \<mapsto> preempted (the (h c))))(t \<mapsto> running (the (h t)))"

lemma context_switch_spec:
  assumes hp: "have_process (thrds s) (procs s)" and t: "t \<noteq> 0" "thrds s t = Some th" "t \<noteq> c" and c: "c = 0 \<or> thrds s c = Some cth"
  shows "\<exists>s'. context_switch c t s = Some s' \<and> same_queues (s\<lparr>current_thread := t, thrds := switch_threads c t (thrds s)\<rparr>) s'"
proof -
  let ?s = "s\<lparr>current_thread := t, thrds := switch_threads c t (thrds s)\<rparr>"
  obtain s' where s': "set_current_process (t_process th) ?s = Some s'" "same_queues ?s s'"
    using set_current_process_spec [of "t_process th" ?s] hp t(2) by (auto simp: have_process_def)
  have "context_switch c t s = (if c = 0 \<or> t_process cth \<noteq> t_process th then set_current_process (t_process th) ?s else Some ?s)"
    using t c
    by (auto simp: context_switch_def set_current_thread_def upd_thread_def Let_def switch_threads_def preempted_def running_def)
  then show ?thesis using s' by (auto simp: same_queues_def)
qed

text \<open>A switch takes the head of the ready queue; the thread that ran before is in no queue afterwards.\<close>

lemma schedule_switch:
  assumes inv: "sched_inv s (t # rs) zs" and en: "scheduler_enabled s"
  shows "\<exists>s'. schedule s = Some s' \<and> sched_inv s' rs zs \<and> current_thread s' = t \<and>
    thrds s' = switch_threads (current_thread s) t ((thrds s)(t \<mapsto> set_sched_next 0 (the (thrds s t)))) \<and>
    context_switches (sched_stats s') = context_switches (sched_stats s) + 1"
proof -
  note I = sched_invD [OF inv]
  obtain th where th: "t \<noteq> 0" "thrds s t = Some th" "chain sched_next (thrds s) (sched_next th) rs 0" using I(1) by auto
  define c where "c = current_thread s"
  have tc: "t \<noteq> c" "t \<notin> set rs \<union> set zs" "c \<noteq> 0 \<Longrightarrow> c \<notin> set rs \<union> set zs"
    using I(3,5) th(1) chain_distinct [OF I(1)] by (auto simp: c_def)
  obtain cth where cth: "c = 0 \<or> thrds s c = Some cth" using I(4) by (auto simp: c_def)
  let ?h = "(thrds s)(t \<mapsto> set_sched_next 0 th)"
  define s1 where "s1 = s\<lparr>ready_queue := sched_next th, thrds := ?h,
    sched_stats := (sched_stats s)\<lparr>context_switches := context_switches (sched_stats s) + 1\<rparr>, fake_time := fake_time s + 1\<rparr>"
  have l: "last_schedule_time s1 = last_schedule_time s" by (simp add: s1_def)
  have hp: "have_process ?h (procs s)" by (rule have_process_upd [OF I(6) th(2)]) simp
  have "\<exists>s2. (if c \<noteq> 0 \<and> 0 < last_schedule_time s1
       then update_thread_statistics c (fake_time s + 1 - last_schedule_time s1) s1 else Some s1) = Some s2 \<and> same_queues s1 s2"
    using update_thread_statistics_spec [of s1 c cth "fake_time s + 1 - last_schedule_time s1"] hp cth tc(1)
    by (auto simp: s1_def same_queues_def)
  then obtain s2 where s2: "(if c \<noteq> 0 \<and> 0 < last_schedule_time s1
       then update_thread_statistics c (fake_time s + 1 - last_schedule_time s1) s1 else Some s1) = Some s2" "same_queues s1 s2"
    by blast
  have h2: "thrds s2 = ?h" "have_process (thrds s2) (procs s2)" using s2(2) hp by (auto simp: same_queues_def s1_def have_process_def)
  have c2: "c = 0 \<or> thrds s2 c = Some cth" using cth tc(1) by (auto simp: h2)
  obtain s3 where s3: "context_switch c t s2 = Some s3" "same_queues (s2\<lparr>current_thread := t, thrds := switch_threads c t ?h\<rparr>) s3"
    using context_switch_spec [OF h2(2) th(1) _ tc(1) c2, of "set_sched_next 0 th"] by (auto simp: h2)
  define s' where "s' = s3\<lparr>last_schedule_time := fake_time s + 1\<rparr>"
  note unf = schedule_def select_head remove_from_ready_queue_spec(2) [OF I(1) th(2)] get_current_thread_def c_def [symmetric]
    get_system_time_def Let_def
  have "schedule s = Some s'"
  proof (cases "c \<noteq> 0 \<and> 0 < last_schedule_time s")
    case True
    then have "update_thread_statistics c (fake_time s + 1 - last_schedule_time s) s1 = Some s2" using s2(1) l by simp
    then show ?thesis using True en th(1) s3(1) not_sym [OF tc(1)] unfolding s1_def by (simp add: unf s'_def)
  next
    case False
    then have "context_switch c t s1 = Some s3" using s2(1) s3(1) l by (auto split: if_splits)
    then show ?thesis using False en th(1) not_sym [OF tc(1)] unfolding s1_def by (auto simp add: unf s'_def)
  qed
  moreover have f: "thrds s' = switch_threads c t ?h" "dom (procs s') = dom (procs s)" "current_thread s' = t" "ready_queue s' = sched_next th"
     "sleeping_queue s' = sleeping_queue s" "context_switches (sched_stats s') = context_switches (sched_stats s) + 1"
    using s3(2) s2(2) by (simp_all add: s'_def same_queues_def s1_def)
  moreover have "sched_inv s' rs zs"
  proof -
    have "chain sched_next (thrds s') (ready_queue s') rs 0" "chain sched_next (thrds s') (sleeping_queue s') zs 0"
      unfolding f using th(3) I(2) tc by (auto simp: switch_threads_def)
    moreover have "have_process (thrds s') (procs s')"
      by (rule have_process_cong [OF hp f(2)]) (use cth tc(1) in \<open>auto simp: f switch_threads_def\<close>)
    moreover have "thrds s' t \<noteq> None" by (simp add: f switch_threads_def)
    ultimately show ?thesis using I(3) tc(2) f(3) by (simp add: sched_inv_def)
  qed
  ultimately show ?thesis using th(2) by (intro exI [of _ s']) (simp add: c_def)
qed

text \<open>
  A tick hands the due sleepers to the ready queue and never replaces the running thread: when its slice ends, it is put on
  the head of the ready queue and selected from there.
\<close>

lemma scheduler_tick_spec:
  assumes inv: "sched_inv s rs zs" and en: "scheduler_enabled s" and now: "now = fake_time s + 1"
  shows "\<exists>s'. scheduler_tick s = Some s' \<and> current_thread s' = current_thread s \<and> scheduler_enabled s' \<and>
    sched_inv s' (rev (filter (due now s) zs) @ rs) (filter (\<lambda>q. \<not> due now s q) zs)"
proof -
  let ?s = "s\<lparr>tick_counter := tick_counter s + 1\<rparr>"
  have i: "sched_inv ?s rs zs" using inv by (simp add: sched_inv_def)
  have e: "due now ?s = due now s" by (simp add: due_def fun_eq_iff)
  let ?R = "rev (filter (due now s) zs) @ rs" and ?Z = "filter (\<lambda>q. \<not> due now s q) zs"
  obtain s1 where s1: "update_sleep_queue ?s = Some s1" "sched_inv s1 ?R ?Z" "queue_frame (?s\<lparr>fake_time := now\<rparr>) s1"
    using update_sleep_queue_spec [OF i, of now] now unfolding e by auto
  note fr = s1(3) [unfolded queue_frame_def]
  have f: "current_thread s1 = current_thread s" "scheduler_enabled s1"
    using arg_cong [OF fr, of current_thread] arg_cong [OF fr, of scheduler_enabled] en by simp_all
  define c where "c = current_thread s1"
  show ?thesis
  proof (cases "preemption_enabled s1 \<and> c \<noteq> 0 \<and> 0 < t_remaining_time (the (thrds s1 c))")
    case False
    then have "scheduler_tick s = Some s1"
      using en s1(1) sched_invD(4) [OF s1(2)]
      by (cases "thrds s1 c") (auto simp: scheduler_tick_def get_current_thread_def c_def Let_def)
    then show ?thesis using s1(2) f by blast
  next
    case True
    obtain th where th: "thrds s1 c = Some th" using sched_invD(4) [OF s1(2)] True by (auto simp: c_def)
    have nq: "c \<notin> set ?R \<union> set ?Z" using sched_invD(5) [OF s1(2)] True unfolding c_def by blast
    let ?th = "th\<lparr>t_remaining_time := t_remaining_time th - 1\<rparr>"
    let ?s2 = "s1\<lparr>thrds := (thrds s1)(c \<mapsto> ?th)\<rparr>"
    have tick: "scheduler_tick s = (if t_remaining_time th - 1 = 0
        then do { s \<leftarrow> add_to_ready_queue c (s1\<lparr>thrds := (thrds s1)(c \<mapsto> ?th\<lparr>t_state := THREAD_STATE_READY\<rparr>)\<rparr>); schedule s }
        else Some ?s2)"
      using en s1(1) True th by (simp add: scheduler_tick_def get_current_thread_def c_def [symmetric] upd_thread_def Let_def)
    show ?thesis
    proof (cases "t_remaining_time th - 1 = 0")
      case False
      then show ?thesis
        using tick sched_inv_current [OF s1(2) th nq, of ?th] f by (intro exI [of _ ?s2]) simp
    next
      case e: True
      let ?s3 = "s1\<lparr>thrds := (thrds s1)(c \<mapsto> ?th\<lparr>t_state := THREAD_STATE_READY\<rparr>)\<rparr>"
      obtain s4 where "add_to_ready_queue c ?s3 = Some s4"
        "schedule s4 = Some (s1\<lparr>thrds := (thrds s1)(c \<mapsto> th\<lparr>t_state := THREAD_STATE_READY, sched_next := 0, t_remaining_time := t_time_slice th\<rparr>)\<rparr>)"
        using reselect [of ?s3 c "?th\<lparr>t_state := THREAD_STATE_READY\<rparr>"] f True by (auto simp: c_def)
      then show ?thesis
        using tick e f sched_inv_current [OF s1(2) th nq, of "th\<lparr>t_state := THREAD_STATE_READY, sched_next := 0, t_remaining_time := t_time_slice th\<rparr>"]
        by simp
    qed
  qed
qed

text \<open>\<open>n\<close> timer ticks in a row.\<close>

fun ticks :: "nat \<Rightarrow> 'a sched_scheme \<Rightarrow> 'a sched_scheme option" where
  "ticks 0 s = Some s"
| "ticks (Suc n) s = do { s \<leftarrow> scheduler_tick s; ticks n s }"

text \<open>
  \<^verbatim>\<open>yield\<close> of the running thread selects that thread again and leaves it marked ready. Its next \<^verbatim>\<open>yield\<close> therefore does not put it
  on the ready queue: another thread runs and the one that yielded is in no queue.
\<close>

lemma yield_running:
  assumes inv: "sched_inv s rs zs" and en: "scheduler_enabled s" and c: "current_thread s = c" "c \<noteq> 0" "thrds s c = Some th"
    and r: "t_state th = THREAD_STATE_RUNNING"
  shows "\<exists>s' th'. yield s = Some s' \<and> current_thread s' = c \<and> sched_inv s' rs zs \<and> scheduler_enabled s' \<and> thrds s' c = Some th' \<and>
    t_state th' = THREAD_STATE_READY"
proof -
  have nq: "c \<notin> set rs \<union> set zs" using sched_invD(5) [OF inv] c by simp
  let ?th = "th\<lparr>t_remaining_time := t_time_slice th, t_state := THREAD_STATE_READY\<rparr>"
  let ?s = "s\<lparr>thrds := (thrds s)(c \<mapsto> ?th)\<rparr>"
  let ?th' = "?th\<lparr>t_state := THREAD_STATE_READY, sched_next := 0, t_remaining_time := t_time_slice th\<rparr>"
  obtain s1 where "add_to_ready_queue c ?s = Some s1" "schedule s1 = Some (s\<lparr>thrds := (thrds s)(c \<mapsto> ?th')\<rparr>)"
    using reselect [of ?s c ?th] en c by auto
  then have "yield s = Some (s\<lparr>thrds := (thrds s)(c \<mapsto> ?th')\<rparr>)"
    using en c r by (simp add: yield_def get_current_thread_def upd_thread_def)
  then show ?thesis using sched_inv_current [OF inv c(3) nq, of ?th'] c en by (intro exI [of _ "s\<lparr>thrds := (thrds s)(c \<mapsto> ?th')\<rparr>"] exI [of _ ?th']) simp
qed

text \<open>A thread that is not marked running and yields, or goes to sleep, leaves the CPU to the head of the ready queue.\<close>

lemma yield_not_running:
  assumes inv: "sched_inv s (t # rs) zs" and en: "scheduler_enabled s" and c: "current_thread s = c" "c \<noteq> 0" "thrds s c = Some th"
    and r: "t_state th \<noteq> THREAD_STATE_RUNNING"
  shows "\<exists>s' th'. yield s = Some s' \<and> current_thread s' = t \<and> sched_inv s' rs zs \<and> c \<notin> set rs \<union> set zs \<and>
    thrds s' c = Some th' \<and> t_state th' = t_state th \<and> sleep_until th' = sleep_until th"
proof -
  have nq: "c \<notin> set (t # rs) \<union> set zs" using sched_invD(5) [OF inv] c by simp
  let ?th = "th\<lparr>t_remaining_time := t_time_slice th\<rparr>"
  let ?s = "s\<lparr>thrds := (thrds s)(c \<mapsto> ?th)\<rparr>"
  have "sched_inv ?s (t # rs) zs" by (rule sched_inv_current [OF inv c(3) nq]) simp
  from schedule_switch [OF this] obtain s' where s': "schedule ?s = Some s'" "sched_inv s' rs zs" "current_thread s' = t"
    "thrds s' = switch_threads c t ((thrds ?s)(t \<mapsto> set_sched_next 0 (the (thrds ?s t))))"
    using en c by auto
  have "yield s = Some s'" using s'(1) en c r by (simp add: yield_def get_current_thread_def upd_thread_def)
  moreover have "thrds s' c = Some ?th" using nq c r by (auto simp: s'(4) switch_threads_def preempted_def)
  ultimately show ?thesis using s'(2,3) nq by (intro exI [of _ s'] exI [of _ ?th]) auto
qed

lemma yield_drops_running:
  assumes inv: "sched_inv s (t # rs) zs" and en: "scheduler_enabled s" and c: "current_thread s = c" "c \<noteq> 0" "thrds s c = Some th"
    and r: "t_state th = THREAD_STATE_RUNNING"
  shows "\<exists>s1 s2 th'. yield s = Some s1 \<and> current_thread s1 = c \<and> yield s1 = Some s2 \<and> current_thread s2 = t \<and>
    sched_inv s2 rs zs \<and> c \<notin> set rs \<union> set zs \<and> thrds s2 c = Some th' \<and> t_state th' = THREAD_STATE_READY"
proof -
  obtain s1 th1 where s1: "yield s = Some s1" "current_thread s1 = c" "sched_inv s1 (t # rs) zs" "scheduler_enabled s1"
    "thrds s1 c = Some th1" "t_state th1 = THREAD_STATE_READY"
    using yield_running [OF assms] by blast
  obtain s2 th2 where "yield s1 = Some s2" "current_thread s2 = t" "sched_inv s2 rs zs" "c \<notin> set rs \<union> set zs"
    "thrds s2 c = Some th2" "t_state th2 = THREAD_STATE_READY"
    using yield_not_running [OF s1(3,4,2) c(2) s1(5)] s1(6) by auto
  with s1(1,2) show ?thesis by blast
qed

lemma sleep_unqueued:
  assumes inv: "sched_inv s (t # rs) zs" and en: "scheduler_enabled s" and c: "current_thread s = c" "c \<noteq> 0" "thrds s c = Some th"
  shows "\<exists>s' th'. sleep ms s = Some s' \<and> current_thread s' = t \<and> sched_inv s' rs zs \<and> c \<notin> set rs \<union> set zs \<and>
    thrds s' c = Some th' \<and> t_state th' = THREAD_STATE_SLEEPING \<and> sleep_until th' = fake_time s + 1 + ms"
proof -
  have nq: "c \<notin> set (t # rs) \<union> set zs" using sched_invD(5) [OF inv] c by simp
  let ?th = "th\<lparr>sleep_until := fake_time s + 1 + ms, t_state := THREAD_STATE_SLEEPING\<rparr>"
  let ?s = "s\<lparr>fake_time := fake_time s + 1, thrds := (thrds s)(c \<mapsto> ?th)\<rparr>"
  have "sched_inv (s\<lparr>thrds := (thrds s)(c \<mapsto> ?th)\<rparr>) (t # rs) zs" by (rule sched_inv_current [OF inv c(3) nq]) simp
  then have i: "sched_inv ?s (t # rs) zs" by (simp add: sched_inv_def)
  have "sleep ms s = yield ?s" using c by (simp add: sleep_def get_system_time_def Let_def upd_thread_def)
  then show ?thesis using yield_not_running [OF i, of c ?th] en c by auto
qed

section \<open>Adding, removing, counting\<close>

lemma scheduler_add_thread_spec:
  assumes inv: "sched_inv s rs zs" and t: "t \<noteq> 0" "thrds s t = Some th" "t \<notin> set rs \<union> set zs" "t \<noteq> current_thread s"
  shows "\<exists>s'. scheduler_add_thread t s = Some s' \<and> sched_inv s' (t # rs) zs \<and> current_thread s' = current_thread s"
proof -
  let ?th = "th\<lparr>t_state := THREAD_STATE_READY, t_remaining_time := t_time_slice th\<rparr>"
  let ?s = "s\<lparr>thrds := (thrds s)(t \<mapsto> ?th)\<rparr>"
  have i: "sched_inv ?s rs zs" by (rule sched_inv_current [OF inv t(2,3)]) simp
  have e: "scheduler_add_thread t s = add_to_ready_queue t ?s"
    using t by (simp add: scheduler_add_thread_def upd_thread_def)
  obtain s' where s': "add_to_ready_queue t ?s = Some s'" "current_thread s' = current_thread s"
    using add_to_ready_queue_spec [of t ?s ?th] t by auto
  then show ?thesis using e sched_inv_add [OF i t(1) _ _ _ s'(1), of ?th] t by auto
qed

lemma same_threads_unlink:
  assumes "h' = h \<or> (\<exists>q m v. q \<in> A \<and> q \<noteq> p \<and> h q = Some m \<and> h' = h(q \<mapsto> set_sched_next v m))"
  shows "same_threads h h'" "h' p = h p" "set xs \<inter> A = {} \<Longrightarrow> chain sched_next h' a xs 0 = chain sched_next h a xs 0"
proof -
  show "same_threads h h'" "h' p = h p" using assms by (auto intro: same_threads_upd)
  assume d: "set xs \<inter> A = {}"
  then have "q \<notin> set xs" if "q \<in> A" for q using that by blast
  then show "chain sched_next h' a xs 0 = chain sched_next h a xs 0" using assms by (elim disjE exE conjE) simp_all
qed

lemma fold_runnable:
  "fold (\<lambda>_ st. st\<lparr>runnable_threads := runnable_threads st + 1\<rparr>) ps st = st\<lparr>runnable_threads := runnable_threads st + of_nat (length ps)\<rparr>"
  by (induction ps arbitrary: st) simp_all

lemma get_scheduler_stats_spec:
  assumes "sched_inv s rs zs"
  shows "\<exists>st s'. get_scheduler_stats s = Some (st, s') \<and> runnable_threads st = of_nat (length rs) \<and>
    context_switches st = context_switches (sched_stats s) \<and> s' = s\<lparr>sched_stats := st\<rparr>"
  by (simp add: get_scheduler_stats_def chain_fold_chain [OF sched_invD(1) [OF assms]] fold_runnable)

text \<open>
  The ready queue uses the link of the global thread list. Adding the newest thread to an empty ready queue
  cuts the thread list behind it, and no other thread is found any more.
\<close>

lemma scheduler_add_thread_cuts_list:
  assumes inv: "thr_inv s ps (t # ts)" and rq: "ready_queue s = 0" and i: "i \<noteq> tid_of s t"
  shows "\<exists>s'. scheduler_add_thread t s = Some s' \<and> get_thread i s' = Some 0"
proof -
  have "chain sched_next (thrds s) (thread_list s) (t # ts) 0" using inv unfolding thr_inv_def by blast
  then obtain th where th: "thread_list s = t" "t \<noteq> 0" "thrds s t = Some th" by auto
  let ?th = "(set_sched_next 0 (th\<lparr>t_state := THREAD_STATE_READY, t_remaining_time := t_time_slice th\<rparr>))\<lparr>t_state := THREAD_STATE_READY\<rparr>"
  let ?s = "s\<lparr>thrds := (thrds s)(t \<mapsto> ?th), ready_queue := t\<rparr>"
  have "scheduler_add_thread t s = Some ?s"
    using th rq by (simp add: scheduler_add_thread_def upd_thread_def add_to_ready_queue_spec)
  moreover have ch: "chain sched_next (thrds ?s) (thread_list ?s) [t] 0" using th by simp
  have "get_thread i ?s = Some 0"
    unfolding get_thread_def chain_find_chain [OF ch] using th i by (simp add: tid_of_def)
  ultimately show ?thesis by blast
qed

text \<open>
  Adding a thread that heads the ready queue once more makes it its own successor; counting the
  ready threads then never ends.
\<close>

lemma chain_fold_loop:
  assumes "h a = Some n" and "nxt n = a" and "a \<noteq> 0"
  shows "chain_fold nxt f h a acc = None"
proof (rule ccontr)
  assume "chain_fold nxt f h a acc \<noteq> None"
  then obtain y where "chain_fold nxt f h a acc = Some y" by blast
  then have "\<not> (a \<noteq> 0 \<and> (\<exists>n. h a = Some n \<and> nxt n = a))"
    by (rule chain_fold.raw_induct [rotated]) (auto split: if_splits option.splits, blast)
  then show False using assms by blast
qed

lemma scheduler_add_thread_twice:
  assumes t: "t \<noteq> 0" "thrds s t = Some th" "ready_queue s = t"
  shows "\<exists>s'. scheduler_add_thread t s = Some s' \<and> get_scheduler_stats s' = None"
proof -
  let ?th = "(set_sched_next t (th\<lparr>t_state := THREAD_STATE_READY, t_remaining_time := t_time_slice th\<rparr>))\<lparr>t_state := THREAD_STATE_READY\<rparr>"
  let ?s = "s\<lparr>thrds := (thrds s)(t \<mapsto> ?th), ready_queue := t\<rparr>"
  have "scheduler_add_thread t s = Some ?s"
    using t by (simp add: scheduler_add_thread_def upd_thread_def add_to_ready_queue_spec)
  moreover have l: "((thrds s)(t \<mapsto> ?th)) t = Some ?th" "sched_next ?th = t" by simp_all
  have "get_scheduler_stats ?s = None"
    by (simp add: get_scheduler_stats_def chain_fold_loop [of "(thrds s)(t \<mapsto> ?th)" t ?th sched_next, OF l t(1)])
  ultimately show ?thesis by blast
qed

section \<open>An example\<close>

definition sched_boot :: sched where
  "sched_boot = thread_mgr.extend thr_boot
     \<lparr>current_policy = SCHED_POLICY_ROUND_ROBIN, time_quantum = TIME_SLICE_DEFAULT, scheduler_enabled = True, preemption_enabled = True,
      ready_queue = 0, sleeping_queue = 0, sched_lock = 0, sched_stats = zero_stats, tick_counter = 0, last_schedule_time = 1\<rparr>"

text \<open>One thread runs, one is ready, two sleep: the first of them is due.\<close>

definition sched_small :: sched where
  "sched_small = sched_boot\<lparr>current_thread := 0x1000, ready_queue := 0x2000, sleeping_queue := 0x3000,
     thrds := [0x1000 \<mapsto> zero_thread\<lparr>tid := 1, t_state := THREAD_STATE_RUNNING, t_time_slice := 20, t_remaining_time := 1\<rparr>,
       0x2000 \<mapsto> zero_thread\<lparr>tid := 2, t_state := THREAD_STATE_READY, t_time_slice := 20\<rparr>,
       0x3000 \<mapsto> zero_thread\<lparr>tid := 3, t_state := THREAD_STATE_SLEEPING, sched_next := 0x4000\<rparr>,
       0x4000 \<mapsto> zero_thread\<lparr>tid := 4, t_state := THREAD_STATE_SLEEPING, sleep_until := 100\<rparr>]\<rparr>"

lemma have_process_alone [simp]:
  "have_process Map.empty ps" "t_process th = 0 \<Longrightarrow> have_process h ps \<Longrightarrow> have_process (h(t \<mapsto> th)) ps"
  by (simp_all add: have_process_def)

lemma sched_small_ok:
  "sched_inv sched_small [0x2000] [0x3000, 0x4000]" "scheduler_enabled sched_small" "current_thread sched_small = 0x1000"
  "fake_time sched_small = 0"
  by (simp_all add: sched_inv_def sched_small_def sched_boot_def thread_mgr.defs thr_boot_def process_mgr.defs
      proc_boot_def heap.defs zero_thread_def)

section \<open>What the scheduler promises\<close>

text \<open>
  C10: \<^verbatim>\<open>schedule\<close> with a non-empty ready queue always returns and switches to the thread at its head: that thread leaves the queue,
  becomes the current one, is marked running and gets a full time slice; the other queues are unchanged and stay well
  formed, one more context switch is counted, and no thread other than the old and the new one is written.
\<close>

theorem schedule_correct:
  assumes inv: "sched_inv s (t # rs) zs" and en: "scheduler_enabled s"
  shows "\<exists>s' th. schedule s = Some s' \<and> sched_inv s' rs zs \<and> current_thread s' = t \<and> thrds s' t = Some th \<and>
    t_state th = THREAD_STATE_RUNNING \<and> t_remaining_time th = t_time_slice th \<and>
    context_switches (sched_stats s') = context_switches (sched_stats s) + 1 \<and>
    (\<forall>q. q \<noteq> t \<and> q \<noteq> current_thread s \<longrightarrow> thrds s' q = thrds s q)"
proof -
  obtain s' where s': "schedule s = Some s'" "sched_inv s' rs zs" "current_thread s' = t"
    "thrds s' = switch_threads (current_thread s) t ((thrds s)(t \<mapsto> set_sched_next 0 (the (thrds s t))))"
    "context_switches (sched_stats s') = context_switches (sched_stats s) + 1"
    using schedule_switch [OF inv en] by blast
  let ?th = "running (set_sched_next 0 (the (thrds s t)))"
  have "thrds s' t = Some ?th" "t_state ?th = THREAD_STATE_RUNNING" "t_remaining_time ?th = t_time_slice ?th"
    by (simp_all add: s'(4) switch_threads_def running_def)
  moreover have "\<forall>q. q \<noteq> t \<and> q \<noteq> current_thread s \<longrightarrow> thrds s' q = thrds s q" by (simp add: s'(4) switch_threads_def)
  ultimately show ?thesis using s' by blast
qed

theorem schedule_correct_witness:
  "\<exists>s'. schedule sched_small = Some s' \<and> sched_inv s' [] [0x3000, 0x4000] \<and> current_thread s' = 0x2000"
  using schedule_correct [OF sched_small_ok(1,2)] by blast

text \<open>
  C11: \<^verbatim>\<open>update_sleep_queue\<close> ends on every well-formed pair of queues. Exactly the sleepers whose time has come move to the front
  of the ready queue, in reverse order, and are marked ready; the others keep their place and their order in the sleeping
  queue; apart from queue links no other thread changes, and the running thread is the same.
\<close>

theorem update_sleep_queue_correct:
  assumes inv: "sched_inv s rs zs" and now: "now = fake_time s + 1"
  shows "\<exists>s'. update_sleep_queue s = Some s' \<and>
    sched_inv s' (rev (filter (due now s) zs) @ rs) (filter (\<lambda>q. \<not> due now s q) zs) \<and>
    (\<forall>q th. thrds s q = Some th \<longrightarrow>
       (\<exists>v. thrds s' q = Some (set_sched_next v (if q \<in> set zs \<and> due now s q then ready_again th else th)))) \<and>
    current_thread s' = current_thread s"
proof -
  obtain s' where s': "update_sleep_queue s = Some s'"
    "sched_inv s' (rev (filter (due now s) zs) @ rs) (filter (\<lambda>q. \<not> due now s q) zs)"
    "same_threads (wake_all (due now s) zs (thrds s)) (thrds s')" "queue_frame (s\<lparr>fake_time := now\<rparr>) s'"
    using update_sleep_queue_spec [OF assms] by blast
  have "\<exists>v. thrds s' q = Some (set_sched_next v (if q \<in> set zs \<and> due now s q then ready_again th else th))"
    if "thrds s q = Some th" for q th
    by (rule same_threads_the [OF s'(3)]) (simp add: wake_all_def that)
  moreover have "current_thread s' = current_thread s"
    using arg_cong [OF s'(4) [unfolded queue_frame_def], of current_thread] by simp
  ultimately show ?thesis using s'(1,2) by blast
qed

theorem update_sleep_queue_correct_witness:
  "\<exists>s'. update_sleep_queue sched_small = Some s' \<and> sched_inv s' [0x3000, 0x2000] [0x4000]"
proof -
  have "due 1 sched_small 0x3000" "\<not> due 1 sched_small 0x4000"
    by (simp_all add: due_def sched_small_def zero_thread_def word_le_nat_alt)
  then show ?thesis using update_sleep_queue_correct [OF sched_small_ok(1), of 1] by (auto simp: sched_small_ok(4))
qed

text \<open>
  C12: any number of timer ticks returns and the running thread stays the running one: a tick wakes sleepers,
  but a thread whose slice has ended goes to the head of the ready queue and is selected again, so the threads
  that were ready stay in the queue and preemption never gives them the CPU.
\<close>

theorem ticks_keep_running:
  assumes "sched_inv s rs zs" and "scheduler_enabled s"
  shows "\<exists>s' rs' zs'. ticks n s = Some s' \<and> current_thread s' = current_thread s \<and> sched_inv s' rs' zs' \<and>
    set rs \<subseteq> set rs' \<and> set rs' \<union> set zs' = set rs \<union> set zs"
  using assms
proof (induction n arbitrary: s rs zs)
  case (Suc n)
  define now where "now = fake_time s + 1"
  let ?R = "rev (filter (due now s) zs) @ rs" and ?Z = "filter (\<lambda>q. \<not> due now s q) zs"
  obtain s1 where s1: "scheduler_tick s = Some s1" "current_thread s1 = current_thread s" "scheduler_enabled s1" "sched_inv s1 ?R ?Z"
    using scheduler_tick_spec [OF Suc.prems now_def] by blast
  obtain s' rs' zs' where s': "ticks n s1 = Some s'" "current_thread s' = current_thread s1" "sched_inv s' rs' zs'"
    "set ?R \<subseteq> set rs'" "set rs' \<union> set zs' = set ?R \<union> set ?Z"
    using Suc.IH [OF s1(4,3)] by blast
  have "set ?R \<union> set ?Z = set rs \<union> set zs" by auto
  then show ?case using s1(1,2) s' by (intro exI [of _ s'] exI [of _ rs'] exI [of _ zs']) auto
qed auto

theorem ticks_keep_running_witness:
  "\<exists>s' rs' zs'. ticks 1000 sched_small = Some s' \<and> current_thread s' = 0x1000 \<and> sched_inv s' rs' zs' \<and> 0x2000 \<in> set rs'"
  using ticks_keep_running [OF sched_small_ok(1,2), of 1000] by (auto simp: sched_small_ok(3))

text \<open>
  C13: \<^verbatim>\<open>scheduler_remove_thread\<close> of an existing thread always returns; the thread is then in neither queue, both queues keep their
  other threads in order, its own link is cleared, and no thread changes apart from queue links.
\<close>

theorem scheduler_remove_thread_correct:
  assumes inv: "sched_inv s rs zs" and t: "t \<noteq> 0" "thrds s t = Some th"
  shows "\<exists>s'. scheduler_remove_thread t s = Some s' \<and> sched_inv s' (remove1 t rs) (remove1 t zs) \<and>
    same_threads (thrds s) (thrds s') \<and> current_thread s' = current_thread s \<and> sched_next (the (thrds s' t)) = 0"
proof -
  note I = sched_invD [OF inv]
  have "\<exists>q1 h1 q2 h2. unlink sched_next set_sched_next t (thrds s) (ready_queue s) = Some (q1, h1) \<and>
     unlink sched_next set_sched_next t h1 (sleeping_queue s) = Some (q2, h2) \<and>
     chain sched_next h2 q1 (remove1 t rs) 0 \<and> chain sched_next h2 q2 (remove1 t zs) 0 \<and>
     same_threads (thrds s) h2 \<and> h2 t = Some th"
  proof (cases "t \<in> set rs")
    case True
    obtain q1 h1 where u: "unlink sched_next set_sched_next t (thrds s) (ready_queue s) = Some (q1, h1)"
      "chain sched_next h1 q1 (remove1 t rs) 0"
      "h1 = thrds s \<or> (\<exists>q m v. q \<in> set rs \<and> q \<noteq> t \<and> thrds s q = Some m \<and> h1 = (thrds s)(q \<mapsto> set_sched_next v m))"
      using sched_links.unlink_member [OF I(1) True] by blast
    note k = same_threads_unlink [OF u(3)]
    have nz: "t \<notin> set zs" using True I(3) by auto
    have z: "chain sched_next h1 (sleeping_queue s) zs 0" using k(3) [of zs] I(2,3) by (simp add: Int_commute)
    from sched_links.unlink_absent [OF z t(1) nz] show ?thesis using u k z nz t by (simp add: remove1_idem)
  next
    case False
    note a = sched_links.unlink_absent [OF I(1) t(1) False]
    show ?thesis
    proof (cases "t \<in> set zs")
      case True
      obtain q2 h2 where u: "unlink sched_next set_sched_next t (thrds s) (sleeping_queue s) = Some (q2, h2)"
        "chain sched_next h2 q2 (remove1 t zs) 0"
        "h2 = thrds s \<or> (\<exists>q m v. q \<in> set zs \<and> q \<noteq> t \<and> thrds s q = Some m \<and> h2 = (thrds s)(q \<mapsto> set_sched_next v m))"
        using sched_links.unlink_member [OF I(2) True] by blast
      note k = same_threads_unlink [OF u(3)]
      have "chain sched_next h2 (ready_queue s) rs 0" using k(3) [of rs] I(1,3) by simp
      then show ?thesis using a u k False t by (simp add: remove1_idem)
    next
      case nz: False
      show ?thesis using a sched_links.unlink_absent [OF I(2) t(1) nz] I(1,2) False nz t by (simp add: remove1_idem)
    qed
  qed
  then obtain q1 h1 q2 h2 where u: "unlink sched_next set_sched_next t (thrds s) (ready_queue s) = Some (q1, h1)"
    "unlink sched_next set_sched_next t h1 (sleeping_queue s) = Some (q2, h2)"
    "chain sched_next h2 q1 (remove1 t rs) 0" "chain sched_next h2 q2 (remove1 t zs) 0" "same_threads (thrds s) h2" "h2 t = Some th"
    by blast
  let ?h = "h2(t \<mapsto> set_sched_next 0 th)"
  define s' where "s' = s\<lparr>ready_queue := q1, sleeping_queue := q2, thrds := ?h\<rparr>"
  have "scheduler_remove_thread t s = Some s'"
    using t(1) u(1,2,6) by (simp add: scheduler_remove_thread_def upd_thread_def s'_def)
  moreover have sm: "same_threads (thrds s) (thrds s')"
    using same_threads_trans [OF u(5) same_threads_upd [of h2 t, OF u(6)]] by (simp add: s'_def)
  moreover have "sched_inv s' (remove1 t rs) (remove1 t zs)"
  proof -
    have "t \<notin> set (remove1 t rs)" "t \<notin> set (remove1 t zs)" using chain_distinct [OF I(1)] chain_distinct [OF I(2)] by auto
    then have "chain sched_next (thrds s') (ready_queue s') (remove1 t rs) 0" "chain sched_next (thrds s') (sleeping_queue s') (remove1 t zs) 0"
      using u(3,4) by (simp_all add: s'_def)
    moreover have "have_process (thrds s') (procs s')"
      by (rule have_process_cong [OF I(6)]) (use same_threads_field [OF sm, of t_process] in \<open>simp_all add: s'_def\<close>)
    moreover have "thrds s' q = None \<longleftrightarrow> thrds s q = None" for q by (rule same_threads_dom [OF sm])
    moreover have "set (remove1 t rs) \<inter> set (remove1 t zs) = {}"
      using I(3) set_remove1_subset [of t rs] set_remove1_subset [of t zs] by blast
    moreover have "current_thread s' = current_thread s" by (simp add: s'_def)
    moreover have "current_thread s \<notin> set (remove1 t rs) \<union> set (remove1 t zs)" if "current_thread s \<noteq> 0"
      using I(5) [OF that] set_remove1_subset [of t rs] set_remove1_subset [of t zs] by blast
    ultimately show ?thesis using I(4) by (simp add: sched_inv_def)
  qed
  ultimately show ?thesis by (intro exI [of _ s']) (simp add: s'_def)
qed

theorem scheduler_remove_thread_correct_witness:
  "\<exists>s'. scheduler_remove_thread 0x4000 sched_small = Some s' \<and> sched_inv s' [0x2000] [0x3000]"
proof -
  have "thrds sched_small 0x4000 = Some (zero_thread\<lparr>tid := 4, t_state := THREAD_STATE_SLEEPING, sleep_until := 100\<rparr>)"
    by (simp add: sched_small_def)
  from scheduler_remove_thread_correct [OF sched_small_ok(1) _ this] show ?thesis by auto
qed

end
