(* ===== verification/Idt.thy ===== *)
theory Idt
  imports Scheduler
begin

text \<open>
  The interrupt descriptor table, \<^verbatim>\<open>kernel/interrupt/idt.c\<close>: the gates, the table of handlers, the statistics and the
  switch that turns interrupts on and off.

  The processor is part of the state: its flags register, of which bit 9 lets interrupts in, and the register
  that \<^verbatim>\<open>lidt\<close> loads. Addresses that the linker chooses are collected in an \<open>image\<close>, an argument of the operations that
  store them. A handler is one of the functions of the kernel or a registered function at some address.
\<close>

unbundle bit_operations_syntax

section \<open>Data\<close>

definition IDT_ENTRIES :: nat where
  "IDT_ENTRIES = 256"

definition IDT_GATE_INTERRUPT :: u8 where
  "IDT_GATE_INTERRUPT = 0x8E"

definition IDT_DPL_KERNEL :: u8 where
  "IDT_DPL_KERNEL = 0x00"

definition IDT_DPL_USER :: u8 where
  "IDT_DPL_USER = 0x60"

definition IRQ_TIMER :: u8 where
  "IRQ_TIMER = 0x20"

definition IRQ_KEYBOARD :: u8 where
  "IRQ_KEYBOARD = 0x21"

definition IRQ_RTC :: u8 where
  "IRQ_RTC = 0x28"

definition IRQ_SECONDARY_ATA :: u8 where
  "IRQ_SECONDARY_ATA = 0x2F"

definition INT_SYSCALL :: u8 where
  "INT_SYSCALL = 0x80"

definition EXCEPTION_DOUBLE_FAULT :: u8 where
  "EXCEPTION_DOUBLE_FAULT = 8"

text \<open>The code says \<^verbatim>\<open>EXCEPTION_GENERAL_PROTECTION\<close>; the header names the vector \<^verbatim>\<open>EXCEPTION_GENERAL_PROTECT\<close>.\<close>

definition EXCEPTION_GENERAL_PROTECT :: u8 where
  "EXCEPTION_GENERAL_PROTECT = 13"

definition EXCEPTION_PAGE_FAULT :: u8 where
  "EXCEPTION_PAGE_FAULT = 14"

definition EXCEPTION_MACHINE_CHECK :: u8 where
  "EXCEPTION_MACHINE_CHECK = 18"

record idt_entry =
  offset_low :: u16
  selector :: u16
  ist :: u8
  type_attr :: u8
  offset_mid :: u16
  offset_high :: u32
  idt_reserved :: u32

definition zero_idt_entry :: idt_entry where
  "zero_idt_entry = \<lparr>offset_low = 0, selector = 0, ist = 0, type_attr = 0, offset_mid = 0, offset_high = 0, idt_reserved = 0\<rparr>"

record idt_ptr =
  limit :: u16
  base :: u64

datatype handler =
    NULL_HANDLER | DEFAULT_EXCEPTION | DEFAULT_INTERRUPT | TIMER_HANDLER | KEYBOARD_HANDLER | PAGE_FAULT_HANDLER | GPF_HANDLER
  | OTHER_HANDLER u64

record interrupt_stats =
  total_interrupts :: u64
  exceptions :: u64
  hardware_interrupts :: u64
  software_interrupts :: u64
  spurious_interrupts :: u64
  nested_interrupts :: u64
  interrupt_overruns :: u64
  max_interrupt_latency :: u64
  avg_interrupt_latency :: u64
  interrupt_frequency :: "u32 list"

definition zero_interrupt_stats :: interrupt_stats where
  "zero_interrupt_stats = \<lparr>total_interrupts = 0, exceptions = 0, hardware_interrupts = 0, software_interrupts = 0,
     spurious_interrupts = 0, nested_interrupts = 0, interrupt_overruns = 0, max_interrupt_latency = 0,
     avg_interrupt_latency = 0, interrupt_frequency = replicate IDT_ENTRIES 0\<rparr>"

datatype interrupt_system_state =
    INTERRUPT_SYSTEM_DISABLED | INTERRUPT_SYSTEM_INITIALIZING | INTERRUPT_SYSTEM_ENABLED
  | INTERRUPT_SYSTEM_SUSPENDED | INTERRUPT_SYSTEM_ERROR

record interrupt_manager =
  idt :: "idt_entry list"
  im_idt_ptr :: idt_ptr
  handlers :: "handler list"
  im_stats :: interrupt_stats
  im_state :: interrupt_system_state
  nested_level :: u32
  disabled_count :: u64
  pic_initialized :: bool
  apic_available :: bool
  apic_enabled :: bool

definition zero_interrupt_manager :: interrupt_manager where
  "zero_interrupt_manager = \<lparr>idt = replicate IDT_ENTRIES zero_idt_entry, im_idt_ptr = \<lparr>limit = 0, base = 0\<rparr>,
     handlers = replicate IDT_ENTRIES NULL_HANDLER, im_stats = zero_interrupt_stats, im_state = INTERRUPT_SYSTEM_DISABLED,
     nested_level = 0, disabled_count = 0, pic_initialized = False, apic_available = False, apic_enabled = False\<rparr>"

record image =
  addr_idt :: u64
  addr_default_exception :: u64
  addr_default_interrupt :: u64

record idt_sys = sched +
  interrupt_mgr :: interrupt_manager
  cpu_flags :: u64
  idtr :: idt_ptr

abbreviation upd_mgr :: "(interrupt_manager \<Rightarrow> interrupt_manager) \<Rightarrow> 'a idt_sys_scheme \<Rightarrow> 'a idt_sys_scheme" where
  "upd_mgr f s \<equiv> s\<lparr>interrupt_mgr := f (interrupt_mgr s)\<rparr>"

section \<open>The interrupt switch\<close>

definition flag_IF :: u64 where
  "flag_IF = 0x200"

definition interrupts_enable :: "'a idt_sys_scheme \<Rightarrow> 'a idt_sys_scheme" where
  "interrupts_enable s =
     (let m = interrupt_mgr s;
          s = (if 0 < disabled_count m then upd_mgr (\<lambda>m. m\<lparr>disabled_count := disabled_count m - 1\<rparr>) s else s)
      in if disabled_count (interrupt_mgr s) = 0 then s\<lparr>cpu_flags := cpu_flags s OR flag_IF\<rparr> else s)"

definition interrupts_disable :: "'a idt_sys_scheme \<Rightarrow> u64 \<times> 'a idt_sys_scheme" where
  "interrupts_disable s =
     (let flags = cpu_flags s;
          s = s\<lparr>cpu_flags := cpu_flags s AND NOT flag_IF\<rparr>
      in (flags, upd_mgr (\<lambda>m. m\<lparr>disabled_count := disabled_count m + 1\<rparr>) s))"

definition interrupts_restore :: "u64 \<Rightarrow> 'a idt_sys_scheme \<Rightarrow> 'a idt_sys_scheme" where
  "interrupts_restore state s = (if state AND 0x200 \<noteq> 0 then interrupts_enable s else s)"

definition interrupts_enabled :: "'a idt_sys_scheme \<Rightarrow> bool" where
  "interrupts_enabled s \<longleftrightarrow> cpu_flags s AND 0x200 \<noteq> 0"

section \<open>Gates and handlers\<close>

definition idt_set_entry :: "u8 \<Rightarrow> u64 \<Rightarrow> u16 \<Rightarrow> u8 \<Rightarrow> 'a idt_sys_scheme \<Rightarrow> int \<times> 'a idt_sys_scheme" where
  "idt_set_entry vector handler sel attr s =
     (if im_state (interrupt_mgr s) = INTERRUPT_SYSTEM_DISABLED then (-1, s)
      else
        let entry = idt (interrupt_mgr s) ! unat vector;
            entry = entry\<lparr>offset_low := ucast (handler AND 0xFFFF), offset_mid := ucast (drop_bit 16 handler AND 0xFFFF),
                          offset_high := ucast (drop_bit 32 handler AND 0xFFFFFFFF)\<rparr>;
            entry = entry\<lparr>selector := sel, ist := 0, type_attr := attr, idt_reserved := 0\<rparr>
        in (0, upd_mgr (\<lambda>m. m\<lparr>idt := (idt m)[unat vector := entry]\<rparr>) s))"

definition idt_register_handler :: "u8 \<Rightarrow> handler \<Rightarrow> 'a idt_sys_scheme \<Rightarrow> int \<times> 'a idt_sys_scheme" where
  "idt_register_handler vector h s =
     (if im_state (interrupt_mgr s) = INTERRUPT_SYSTEM_DISABLED then (-1, s)
      else if h = NULL_HANDLER then (-2, s)
      else
        let (flags, s) = interrupts_disable s;
            s = upd_mgr (\<lambda>m. m\<lparr>handlers := (handlers m)[unat vector := h]\<rparr>) s
        in (0, interrupts_restore flags s))"

definition default_handler :: "u8 \<Rightarrow> handler" where
  "default_handler vector = (if vector < 32 then DEFAULT_EXCEPTION else DEFAULT_INTERRUPT)"

definition idt_unregister_handler :: "u8 \<Rightarrow> 'a idt_sys_scheme \<Rightarrow> int \<times> 'a idt_sys_scheme" where
  "idt_unregister_handler vector s =
     (if im_state (interrupt_mgr s) = INTERRUPT_SYSTEM_DISABLED then (-1, s)
      else
        let (flags, s) = interrupts_disable s;
            s = upd_mgr (\<lambda>m. m\<lparr>handlers := (handlers m)[unat vector := default_handler vector]\<rparr>) s
        in (0, interrupts_restore flags s))"

definition idt_load :: "'a idt_sys_scheme \<Rightarrow> 'a idt_sys_scheme" where
  "idt_load s = s\<lparr>idtr := im_idt_ptr (interrupt_mgr s)\<rparr>"

definition idt_init :: "image \<Rightarrow> 'a idt_sys_scheme \<Rightarrow> int \<times> 'a idt_sys_scheme" where
  "idt_init img s =
     (let s = s\<lparr>interrupt_mgr := zero_interrupt_manager\<lparr>im_state := INTERRUPT_SYSTEM_INITIALIZING\<rparr>\<rparr>;
          s = upd_mgr (\<lambda>m. m\<lparr>im_idt_ptr := \<lparr>limit = of_nat (IDT_ENTRIES * 16) - 1, base = addr_idt img\<rparr>\<rparr>) s;
          s = fold (\<lambda>i. upd_mgr (\<lambda>m. m\<lparr>handlers := (handlers m)[i := if i < 32 then DEFAULT_EXCEPTION else DEFAULT_INTERRUPT]\<rparr>))
                [0..<IDT_ENTRIES] s;
          s = fold (\<lambda>i s. snd (idt_set_entry (of_nat i) (addr_default_exception img) 0x08 (IDT_GATE_INTERRUPT OR IDT_DPL_KERNEL) s))
                [0..<32] s;
          s = fold (\<lambda>i s. snd (idt_set_entry (of_nat i) (addr_default_interrupt img) 0x08 (IDT_GATE_INTERRUPT OR IDT_DPL_KERNEL) s))
                [32..<48] s;
          s = fold (\<lambda>i s. snd (idt_set_entry (of_nat i) (addr_default_interrupt img) 0x08 (IDT_GATE_INTERRUPT OR IDT_DPL_USER) s))
                [48..<IDT_ENTRIES] s;
          s = idt_load s
      in (0, upd_mgr (\<lambda>m. m\<lparr>im_state := INTERRUPT_SYSTEM_ENABLED\<rparr>) s))"

definition idt_get_stats :: "'a idt_sys_scheme \<Rightarrow> interrupt_stats" where
  "idt_get_stats s = im_stats (interrupt_mgr s)"

definition idt_reset_stats :: "'a idt_sys_scheme \<Rightarrow> 'a idt_sys_scheme" where
  "idt_reset_stats s = upd_mgr (\<lambda>m. m\<lparr>im_stats := zero_interrupt_stats\<rparr>) s"

definition idt_get_state :: "'a idt_sys_scheme \<Rightarrow> interrupt_system_state" where
  "idt_get_state s = im_state (interrupt_mgr s)"

text \<open>The address a gate holds, as \<^verbatim>\<open>idt_dump\<close> puts it together.\<close>

definition gate_address :: "idt_entry \<Rightarrow> u64" where
  "gate_address g = ucast (offset_low g) OR push_bit 16 (ucast (offset_mid g)) OR push_bit 32 (ucast (offset_high g))"

section \<open>Default handlers\<close>

text \<open>A panic does not return.\<close>

definition count_vector :: "u8 \<Rightarrow> interrupt_stats \<Rightarrow> interrupt_stats" where
  "count_vector vector st =
     st\<lparr>interrupt_frequency := (interrupt_frequency st)[unat vector := interrupt_frequency st ! unat vector + 1]\<rparr>"

definition default_exception_handler :: "u8 \<Rightarrow> 'a idt_sys_scheme \<Rightarrow> 'a idt_sys_scheme option" where
  "default_exception_handler vector s =
     (let s = upd_mgr (\<lambda>m. m\<lparr>im_stats := count_vector vector
                ((im_stats m)\<lparr>exceptions := exceptions (im_stats m) + 1, total_interrupts := total_interrupts (im_stats m) + 1\<rparr>)\<rparr>) s
      in if vector = EXCEPTION_DOUBLE_FAULT \<or> vector = EXCEPTION_MACHINE_CHECK \<or> vector = EXCEPTION_GENERAL_PROTECT
         then None else Some s)"

text \<open>Port output and input of \<^verbatim>\<open>interrupt.c\<close>: as written, output goes nowhere and input is always 0.\<close>

definition outb :: "u16 \<Rightarrow> u8 \<Rightarrow> 'a idt_sys_scheme \<Rightarrow> 'a idt_sys_scheme" where
  "outb port v s = s"

definition inb :: "u16 \<Rightarrow> 'a idt_sys_scheme \<Rightarrow> u8" where
  "inb port s = 0"

definition PIC1_COMMAND :: u16 where
  "PIC1_COMMAND = 0x20"

definition PIC2_COMMAND :: u16 where
  "PIC2_COMMAND = 0xA0"

definition PIC_EOI :: u8 where
  "PIC_EOI = 0x20"

definition pic_send_eoi :: "u8 \<Rightarrow> 'a idt_sys_scheme \<Rightarrow> 'a idt_sys_scheme" where
  "pic_send_eoi irq s =
     (let s = (if 8 \<le> irq then outb PIC2_COMMAND PIC_EOI s else s) in outb PIC1_COMMAND PIC_EOI s)"

definition default_interrupt_handler :: "u8 \<Rightarrow> 'a idt_sys_scheme \<Rightarrow> 'a idt_sys_scheme" where
  "default_interrupt_handler vector s =
     (let s = upd_mgr (\<lambda>m. m\<lparr>im_stats := count_vector vector ((im_stats m)\<lparr>total_interrupts := total_interrupts (im_stats m) + 1\<rparr>)\<rparr>) s
      in if IRQ_TIMER \<le> vector \<and> vector \<le> IRQ_SECONDARY_ATA then
           pic_send_eoi (vector - IRQ_TIMER)
             (upd_mgr (\<lambda>m. m\<lparr>im_stats := (im_stats m)\<lparr>hardware_interrupts := hardware_interrupts (im_stats m) + 1\<rparr>\<rparr>) s)
         else if INT_SYSCALL \<le> vector then
           upd_mgr (\<lambda>m. m\<lparr>im_stats := (im_stats m)\<lparr>software_interrupts := software_interrupts (im_stats m) + 1\<rparr>\<rparr>) s
         else
           upd_mgr (\<lambda>m. m\<lparr>im_stats := (im_stats m)\<lparr>spurious_interrupts := spurious_interrupts (im_stats m) + 1\<rparr>\<rparr>) s)"

section \<open>The switch\<close>

text \<open>
  One critical section, entered with interrupts on and nothing disabled, ends with interrupts on. Entered with
  interrupts off, it leaves the count one higher than it was.
\<close>

lemma flag_IF_bit: "(x AND 0x200 \<noteq> 0) = bit (x :: u64) 9"
proof -
  have "(0x200 :: u64) = push_bit 9 1" by (simp add: push_bit_eq_mult)
  then show ?thesis by (metis and_exp_eq_0_iff_not_bit mult_1 push_bit_eq_mult)
qed

lemma interrupts_enabled_bit: "interrupts_enabled s = bit (cpu_flags s) 9"
  by (simp add: interrupts_enabled_def flag_IF_bit)

lemma flag_IF_set [simp]: "bit (x OR flag_IF) 9"
  by (simp add: bit_or_iff bit_and_iff bit_not_iff flag_IF_def)

lemma flag_IF_clear [simp]: "\<not> bit (x AND NOT flag_IF) 9"
  by (simp add: bit_or_iff bit_and_iff bit_not_iff flag_IF_def)

lemma disable_restore_on:
  assumes "interrupts_enabled s" and "disabled_count (interrupt_mgr s) = 0" and "interrupts_disable s = (flags, s1)"
  shows "\<not> interrupts_enabled s1" "interrupts_enabled (interrupts_restore flags s1)"
    "interrupt_mgr (interrupts_restore flags s1) = interrupt_mgr s"
  using assms
  by (auto simp: interrupts_disable_def interrupts_restore_def interrupts_enable_def Let_def interrupts_enabled_bit flag_IF_bit)

text \<open>
  With interrupts off, disabling and restoring raises the count. So a critical section inside
  another one leaves interrupts off for good: the outer one's restore no longer brings the count to zero.
\<close>

lemma disable_restore_off:
  assumes "\<not> interrupts_enabled s" and "interrupts_disable s = (flags, s1)"
  shows "interrupts_restore flags s1 = s1" "\<not> interrupts_enabled s1"
    "disabled_count (interrupt_mgr s1) = disabled_count (interrupt_mgr s) + 1"
  using assms
  by (auto simp: interrupts_disable_def interrupts_restore_def Let_def interrupts_enabled_bit flag_IF_bit)

lemma nested_critical_section_stuck:
  assumes on: "interrupts_enabled s" "disabled_count (interrupt_mgr s) = 0"
    and outer: "interrupts_disable s = (flags, s1)" and inner: "interrupts_disable s1 = (flags', s2)"
  shows "\<not> interrupts_enabled (interrupts_restore flags (interrupts_restore flags' s2))"
proof -
  have s1: "\<not> interrupts_enabled s1" "disabled_count (interrupt_mgr s1) = 1" "bit flags 9"
    using on outer by (auto simp: interrupts_disable_def Let_def interrupts_enabled_bit)
  note i = disable_restore_off [OF s1(1) inner]
  then have "disabled_count (interrupt_mgr s2) = 2" using s1(2) by simp
  then show ?thesis
    using i(1,2) s1(3) by (simp add: interrupts_restore_def flag_IF_bit interrupts_enable_def Let_def interrupts_enabled_bit)
qed

section \<open>Gates\<close>

definition gate :: "u64 \<Rightarrow> u16 \<Rightarrow> u8 \<Rightarrow> idt_entry" where
  "gate a sel attr = \<lparr>offset_low = ucast (a AND 0xFFFF), selector = sel, ist = 0, type_attr = attr,
     offset_mid = ucast (drop_bit 16 a AND 0xFFFF), offset_high = ucast (drop_bit 32 a AND 0xFFFFFFFF), idt_reserved = 0\<rparr>"

text \<open>Splitting the address over three fields loses nothing.\<close>

lemma split_address:
  "ucast (ucast (a AND mask 16) :: u16) OR push_bit 16 (ucast (ucast (drop_bit 16 a AND mask 16) :: u16)) OR
     push_bit 32 (ucast (ucast (drop_bit 32 a AND mask 32) :: u32)) = (a :: u64)" (is "?l = a")
proof (rule bit_word_eqI)
  fix n assume "n < LENGTH(64)"
  then consider "n < 16" | "16 \<le> n" "n < 32" | "32 \<le> n" "n < 64" by fastforce
  then show "bit ?l n = bit a n"
    by cases (auto simp: bit_simps)
qed

lemma gate_address_gate [simp]: "gate_address (gate a sel attr) = a"
proof -
  have "(0xFFFF :: u64) = mask 16" "(0xFFFFFFFF :: u64) = mask 32" by (simp_all add: mask_eq_exp_minus_1)
  then show ?thesis by (simp only: gate_address_def gate_def idt_entry.simps split_address)
qed

lemma idt_set_entry_gate:
  assumes "im_state (interrupt_mgr s) \<noteq> INTERRUPT_SYSTEM_DISABLED"
  shows "idt_set_entry v a sel attr s = (0, upd_mgr (\<lambda>m. m\<lparr>idt := (idt m)[unat v := gate a sel attr]\<rparr>) s)"
proof -
  have "(e :: idt_entry)\<lparr>offset_low := ucast (a AND 0xFFFF), offset_mid := ucast (drop_bit 16 a AND 0xFFFF),
      offset_high := ucast (drop_bit 32 a AND 0xFFFFFFFF)\<rparr>\<lparr>selector := sel, ist := 0, type_attr := attr, idt_reserved := 0\<rparr> = gate a sel attr" for e
    by (cases e) (simp add: gate_def)
  then show ?thesis using assms by (simp add: idt_set_entry_def Let_def)
qed

section \<open>Initialisation\<close>

text \<open>Writing an array in a counting loop.\<close>

definition fill_range :: "(nat \<Rightarrow> 'b) \<Rightarrow> nat list \<Rightarrow> 'b list \<Rightarrow> 'b list" where
  "fill_range f is xs = fold (\<lambda>i xs. xs[i := f i]) is xs"

lemma fill_range_simps [simp]:
  "fill_range f [] xs = xs" "fill_range f (i # is) xs = fill_range f is (xs[i := f i])"
  by (simp_all add: fill_range_def)

lemma length_fill_range [simp]: "length (fill_range f is xs) = length xs"
  by (induction "is" arbitrary: xs) simp_all

lemma nth_fill_range: "j < length xs \<Longrightarrow> fill_range f is xs ! j = (if j \<in> set is then f j else xs ! j)"
  by (induction "is" arbitrary: xs) (auto simp: nth_list_update)

lemma fold_handlers:
  "fold (\<lambda>i. upd_mgr (\<lambda>m. m\<lparr>handlers := (handlers m)[i := f i]\<rparr>)) is s = upd_mgr (\<lambda>m. m\<lparr>handlers := fill_range f is (handlers m)\<rparr>) s"
  by (induction "is" arbitrary: s) simp_all

lemma fold_set_entry:
  assumes "im_state (interrupt_mgr s) \<noteq> INTERRUPT_SYSTEM_DISABLED" and "\<forall>i\<in>set is. i < 256"
  shows "fold (\<lambda>i s. snd (idt_set_entry (of_nat i) a sel attr s)) is s =
    upd_mgr (\<lambda>m. m\<lparr>idt := fill_range (\<lambda>_. gate a sel attr) is (idt m)\<rparr>) s"
  using assms
proof (induction "is" arbitrary: s)
  case (Cons i "is")
  have "unat (of_nat i :: u8) = i" using Cons.prems(2) by (intro unat_of_nat_small) simp
  then show ?case using Cons by (simp add: idt_set_entry_gate)
qed simp

definition gate_of :: "image \<Rightarrow> nat \<Rightarrow> idt_entry" where
  "gate_of img v =
     (if v < 32 then gate (addr_default_exception img) 0x08 (IDT_GATE_INTERRUPT OR IDT_DPL_KERNEL)
      else if v < 48 then gate (addr_default_interrupt img) 0x08 (IDT_GATE_INTERRUPT OR IDT_DPL_KERNEL)
      else gate (addr_default_interrupt img) 0x08 (IDT_GATE_INTERRUPT OR IDT_DPL_USER))"

lemma idt_init_spec:
  "idt_init img s =
     (0, s\<lparr>interrupt_mgr := zero_interrupt_manager\<lparr>im_state := INTERRUPT_SYSTEM_ENABLED,
              im_idt_ptr := \<lparr>limit = 0xFFF, base = addr_idt img\<rparr>,
              handlers := map (\<lambda>i. default_handler (of_nat i)) [0..<256], idt := map (gate_of img) [0..<256]\<rparr>,
           idtr := \<lparr>limit = 0xFFF, base = addr_idt img\<rparr>\<rparr>)"
proof -
  have h: "fill_range (\<lambda>i. if i < 32 then DEFAULT_EXCEPTION else DEFAULT_INTERRUPT) [0..<256] (replicate 256 NULL_HANDLER)
    = map (\<lambda>i. default_handler (of_nat i)) [0..<256]"
    by (rule nth_equalityI) (simp_all add: nth_fill_range default_handler_def word_less_nat_alt unat_of_nat_small del: upt_rec_numeral)
  have e: "fill_range (\<lambda>_. gate (addr_default_interrupt img) 8 (IDT_GATE_INTERRUPT OR IDT_DPL_USER)) [48..<256]
     (fill_range (\<lambda>_. gate (addr_default_interrupt img) 8 (IDT_GATE_INTERRUPT OR IDT_DPL_KERNEL)) [32..<48]
       (fill_range (\<lambda>_. gate (addr_default_exception img) 8 (IDT_GATE_INTERRUPT OR IDT_DPL_KERNEL)) [0..<32]
         (replicate 256 zero_idt_entry))) = map (gate_of img) [0..<256]"
    by (rule nth_equalityI) (simp_all add: nth_fill_range gate_of_def del: upt_rec_numeral)
  show ?thesis
    unfolding idt_init_def Let_def IDT_ENTRIES_def fold_handlers zero_interrupt_manager_def
    by (subst fold_set_entry, simp, simp)+ (simp add: idt_load_def h e del: upt_rec_numeral fill_range_simps)
qed

end
