(* ===== verification/Interrupt.thy ===== *)
theory Interrupt
  imports Idt
begin

text \<open>
  Interrupt handling, \<^verbatim>\<open>kernel/interrupt/interrupt.c\<close>, and the dispatcher \<^verbatim>\<open>interrupt_common_handler\<close> of \<^verbatim>\<open>idt.c\<close>: the tables
  of exceptions and of hardware interrupts, the interrupt controller, the timer, the handlers and critical sections.

  Two things are arguments. \<open>is_enabled\<close> stands for \<^verbatim>\<open>scheduler_is_enabled\<close>, which the timer handler calls and no file defines;
  \<open>ext\<close> is what registered handlers outside these files do. A handler that panics does not return: its result is None.
\<close>

unbundle bit_operations_syntax

section \<open>Data\<close>

definition PIC1_DATA :: u16 where
  "PIC1_DATA = 0x21"

definition PIC2_DATA :: u16 where
  "PIC2_DATA = 0xA1"

definition PIC_ICW1_INIT :: u8 where
  "PIC_ICW1_INIT = 0x11"

definition PIC_ICW1_EDGE :: u8 where
  "PIC_ICW1_EDGE = 0x00"

definition TIMER_FREQUENCY :: u32 where
  "TIMER_FREQUENCY = 1000"

definition TIMER_DIVISOR :: u32 where
  "TIMER_DIVISOR = 1193180"

record exception_info =
  ei_name :: "string option"
  ei_description :: "string option"
  has_error_code :: bool
  ei_vector :: u8
  ei_count :: u32

definition zero_exception_info :: exception_info where
  "zero_exception_info = \<lparr>ei_name = None, ei_description = None, has_error_code = False, ei_vector = 0, ei_count = 0\<rparr>"

record hardware_interrupt_info =
  hi_name :: "string option"
  hi_description :: "string option"
  hi_irq :: u8
  hi_vector :: u8
  hi_count :: u32
  hi_enabled :: bool
  last_time :: u64
  total_time :: u64

definition zero_hardware_info :: hardware_interrupt_info where
  "zero_hardware_info = \<lparr>hi_name = None, hi_description = None, hi_irq = 0, hi_vector = 0, hi_count = 0, hi_enabled = False,
     last_time = 0, total_time = 0\<rparr>"

record timer_manager =
  tm_ticks :: u64
  milliseconds :: u64
  seconds :: u64
  frequency :: u32
  tm_initialized :: bool
  last_tick_time :: u64
  tick_overruns :: u32

datatype interrupt_priority =
    INTERRUPT_PRIORITY_LOW | INTERRUPT_PRIORITY_NORMAL | INTERRUPT_PRIORITY_HIGH | INTERRUPT_PRIORITY_CRITICAL | INTERRUPT_PRIORITY_NMI

record intr = idt_sys +
  g_timer_manager :: timer_manager
  g_exceptions :: "exception_info list"
  g_hardware_interrupts :: "hardware_interrupt_info list"
  g_current_priority :: interrupt_priority

section \<open>Tables\<close>

definition exception_data :: "(u8 \<times> string \<times> string \<times> bool) list" where
  "exception_data = [
     (0x00, ''Divide Error'', ''Division by zero or overflow'', False),
     (0x01, ''Debug'', ''Debug exception'', False),
     (0x02, ''NMI'', ''Non-maskable interrupt'', False),
     (0x03, ''Breakpoint'', ''Breakpoint instruction'', False),
     (0x04, ''Overflow'', ''Overflow instruction'', False),
     (0x05, ''Bound Range'', ''BOUND range exceeded'', False),
     (0x06, ''Invalid Opcode'', ''Invalid or undefined opcode'', False),
     (0x07, ''Device Not Available'', ''FPU not available'', False),
     (0x08, ''Double Fault'', ''Double fault'', True),
     (0x09, ''Coprocessor Overrun'', ''Coprocessor segment overrun'', False),
     (0x0A, ''Invalid TSS'', ''Invalid Task State Segment'', True),
     (0x0B, ''Segment Not Present'', ''Segment not present'', True),
     (0x0C, ''Stack Fault'', ''Stack segment fault'', True),
     (0x0D, ''General Protection'', ''General protection fault'', True),
     (0x0E, ''Page Fault'', ''Page fault'', True),
     (0x0F, ''Reserved'', ''Intel reserved'', False),
     (0x10, ''FPU Error'', ''x87 FPU floating-point error'', False),
     (0x11, ''Alignment Check'', ''Alignment check'', True),
     (0x12, ''Machine Check'', ''Machine check'', False),
     (0x13, ''SIMD Exception'', ''SIMD floating-point exception'', False)]"

definition init_exception_table :: "'a intr_scheme \<Rightarrow> 'a intr_scheme" where
  "init_exception_table s =
     (let s = s\<lparr>g_exceptions := replicate 32 zero_exception_info\<rparr>
      in fold (\<lambda>(v, nm, descr, ec) s.
           s\<lparr>g_exceptions := (g_exceptions s)[unat v :=
               \<lparr>ei_name = Some nm, ei_description = Some descr, has_error_code = ec, ei_vector = v, ei_count = 0\<rparr>]\<rparr>)
           exception_data s)"

definition irq_data :: "(u8 \<times> string \<times> string) list" where
  "irq_data = [
     (0, ''Timer'', ''System timer (PIT)''),
     (1, ''Keyboard'', ''PS/2 Keyboard''),
     (2, ''Cascade'', ''PIC cascade (never raised)''),
     (3, ''COM2'', ''Serial port COM2''),
     (4, ''COM1'', ''Serial port COM1''),
     (5, ''LPT2'', ''Parallel port LPT2''),
     (6, ''Floppy'', ''Floppy disk controller''),
     (7, ''LPT1'', ''Parallel port LPT1''),
     (8, ''RTC'', ''Real-time clock''),
     (9, ''Free'', ''Free IRQ (ACPI/SCSI/NIC)''),
     (10, ''Free'', ''Free IRQ (SCSI/NIC)''),
     (11, ''Free'', ''Free IRQ (SCSI/NIC)''),
     (12, ''Mouse'', ''PS/2 Mouse''),
     (13, ''Coprocessor'', ''Math coprocessor''),
     (14, ''Primary ATA'', ''Primary ATA hard disk''),
     (15, ''Secondary ATA'', ''Secondary ATA hard disk'')]"

definition init_hardware_interrupt_table :: "'a intr_scheme \<Rightarrow> 'a intr_scheme" where
  "init_hardware_interrupt_table s =
     (let s = s\<lparr>g_hardware_interrupts := replicate 16 zero_hardware_info\<rparr>
      in fold (\<lambda>i s. case irq_data ! i of (irq, nm, descr) \<Rightarrow>
           s\<lparr>g_hardware_interrupts := (g_hardware_interrupts s)[i :=
               \<lparr>hi_name = Some nm, hi_description = Some descr, hi_irq = irq, hi_vector = IRQ_TIMER + of_nat i, hi_count = 0,
                hi_enabled = False, last_time = 0, total_time = 0\<rparr>]\<rparr>) [0..<16] s)"

section \<open>The interrupt controller\<close>

definition upd_irq :: "nat \<Rightarrow> (hardware_interrupt_info \<Rightarrow> hardware_interrupt_info) \<Rightarrow> 'a intr_scheme \<Rightarrow> 'a intr_scheme" where
  "upd_irq i f s = s\<lparr>g_hardware_interrupts := (g_hardware_interrupts s)[i := f (g_hardware_interrupts s ! i)]\<rparr>"

definition pic_init :: "'a intr_scheme \<Rightarrow> int \<times> 'a intr_scheme" where
  "pic_init s =
     (let master_mask = inb PIC1_DATA s;
          slave_mask = inb PIC2_DATA s;
          s = outb PIC1_COMMAND (PIC_ICW1_INIT OR PIC_ICW1_EDGE) s;
          s = outb PIC1_DATA IRQ_TIMER s;
          s = outb PIC1_DATA 0x04 s;
          s = outb PIC1_DATA 0x01 s;
          s = outb PIC2_COMMAND (PIC_ICW1_INIT OR PIC_ICW1_EDGE) s;
          s = outb PIC2_DATA IRQ_RTC s;
          s = outb PIC2_DATA 0x02 s;
          s = outb PIC2_DATA 0x01 s;
          s = outb PIC1_DATA 0xFF s;
          s = outb PIC2_DATA 0xFF s
      in (0, s))"

definition pic_enable_irq :: "u8 \<Rightarrow> 'a intr_scheme \<Rightarrow> 'a intr_scheme" where
  "pic_enable_irq irq s =
     (if 16 \<le> irq then s
      else
        let (port, irq) = (if irq < 8 then (PIC1_DATA, irq) else (PIC2_DATA, irq - 8));
            mask = inb port s AND NOT (push_bit (unat irq) 1);
            s = outb port mask s
        in upd_irq (unat irq) (\<lambda>h. h\<lparr>hi_enabled := True\<rparr>) s)"

definition pic_disable_irq :: "u8 \<Rightarrow> 'a intr_scheme \<Rightarrow> 'a intr_scheme" where
  "pic_disable_irq irq s =
     (if 16 \<le> irq then s
      else
        let (port, irq) = (if irq < 8 then (PIC1_DATA, irq) else (PIC2_DATA, irq - 8));
            mask = inb port s OR push_bit (unat irq) 1;
            s = outb port mask s
        in upd_irq (unat irq) (\<lambda>h. h\<lparr>hi_enabled := False\<rparr>) s)"

definition pic_get_irq_mask :: "'a intr_scheme \<Rightarrow> u16" where
  "pic_get_irq_mask s = push_bit 8 (ucast (inb PIC2_DATA s)) OR ucast (inb PIC1_DATA s)"

definition pic_set_irq_mask :: "u16 \<Rightarrow> 'a intr_scheme \<Rightarrow> 'a intr_scheme" where
  "pic_set_irq_mask msk s =
     outb PIC2_DATA (ucast (drop_bit 8 msk AND 0xFF)) (outb PIC1_DATA (ucast (msk AND 0xFF)) s)"

section \<open>Handlers\<close>

text \<open>A frequency of 0 divides by zero: the processor faults instead of returning.\<close>

definition timer_interrupt_handler :: "('a intr_scheme \<Rightarrow> bool) \<Rightarrow> 'a intr_scheme \<Rightarrow> 'a intr_scheme option" where
  "timer_interrupt_handler is_enabled s =
     (let tm = g_timer_manager s;
          tm = tm\<lparr>tm_ticks := tm_ticks tm + 1\<rparr>
      in if frequency tm = 0 then None
         else
           let tm = tm\<lparr>milliseconds := tm_ticks tm * ucast (1000 div frequency tm)\<rparr>;
               tm = tm\<lparr>seconds := milliseconds tm div 1000\<rparr>;
               s = s\<lparr>g_timer_manager := tm\<rparr>;
               s = upd_irq 0 (\<lambda>h. h\<lparr>hi_count := hi_count h + 1, last_time := tm_ticks tm\<rparr>) s;
               s = pic_send_eoi 0 s
           in if is_enabled s then scheduler_tick s else Some s)"

definition keyboard_interrupt_handler :: "'a intr_scheme \<Rightarrow> 'a intr_scheme" where
  "keyboard_interrupt_handler s =
     (let scancode = inb 0x60 s;
          s = upd_irq 1 (\<lambda>h. h\<lparr>hi_count := hi_count h + 1, last_time := tm_ticks (g_timer_manager s)\<rparr>) s
      in pic_send_eoi 1 s)"

definition count_exception :: "u8 \<Rightarrow> 'a intr_scheme \<Rightarrow> 'a intr_scheme" where
  "count_exception v s =
     s\<lparr>g_exceptions := (g_exceptions s)[unat v := (g_exceptions s ! unat v)\<lparr>ei_count := ei_count (g_exceptions s ! unat v) + 1\<rparr>]\<rparr>"

definition page_fault_handler :: "'a intr_scheme \<Rightarrow> 'a intr_scheme" where
  "page_fault_handler s = count_exception EXCEPTION_PAGE_FAULT s"

definition gpf_handler :: "'a intr_scheme \<Rightarrow> 'a intr_scheme option" where
  "gpf_handler s = (let s = count_exception EXCEPTION_GENERAL_PROTECT s in None)"

type_synonym 'a external = "u64 \<Rightarrow> u8 \<Rightarrow> u64 \<Rightarrow> cpu_state \<Rightarrow> 'a intr_scheme \<Rightarrow> 'a intr_scheme option"

definition call_handler ::
    "('a intr_scheme \<Rightarrow> bool) \<Rightarrow> 'a external \<Rightarrow> handler \<Rightarrow> u8 \<Rightarrow> u64 \<Rightarrow> cpu_state \<Rightarrow> 'a intr_scheme \<Rightarrow> 'a intr_scheme option" where
  "call_handler is_enabled ext h vector error_code ctxt s =
     (case h of
        NULL_HANDLER \<Rightarrow> Some s
      | DEFAULT_EXCEPTION \<Rightarrow> default_exception_handler vector s
      | DEFAULT_INTERRUPT \<Rightarrow> Some (default_interrupt_handler vector s)
      | TIMER_HANDLER \<Rightarrow> timer_interrupt_handler is_enabled s
      | KEYBOARD_HANDLER \<Rightarrow> Some (keyboard_interrupt_handler s)
      | PAGE_FAULT_HANDLER \<Rightarrow> Some (page_fault_handler s)
      | GPF_HANDLER \<Rightarrow> gpf_handler s
      | OTHER_HANDLER a \<Rightarrow> ext a vector error_code ctxt s)"

definition interrupt_common_handler ::
    "('a intr_scheme \<Rightarrow> bool) \<Rightarrow> 'a external \<Rightarrow> u8 \<Rightarrow> u64 \<Rightarrow> cpu_state \<Rightarrow> 'a intr_scheme \<Rightarrow> 'a intr_scheme option" where
  "interrupt_common_handler is_enabled ext vector error_code ctxt s = do {
     let s = upd_mgr (\<lambda>m. m\<lparr>nested_level := nested_level m + 1\<rparr>) s;
     s \<leftarrow> call_handler is_enabled ext (handlers (interrupt_mgr s) ! unat vector) vector error_code ctxt s;
     Some (upd_mgr (\<lambda>m. m\<lparr>nested_level := nested_level m - 1\<rparr>) s) }"

section \<open>Timer and start-up\<close>

definition timer_init :: "u32 \<Rightarrow> 'a intr_scheme \<Rightarrow> (int \<times> 'a intr_scheme) option" where
  "timer_init freq s =
     (let s = s\<lparr>g_timer_manager := (g_timer_manager s)\<lparr>frequency := freq, tm_ticks := 0, milliseconds := 0, seconds := 0,
                  last_tick_time := 0, tick_overruns := 0, tm_initialized := True\<rparr>\<rparr>
      in if freq = 0 then None
         else
           let divisor = TIMER_DIVISOR div freq;
               s = outb 0x43 0x36 s;
               s = outb 0x40 (ucast (divisor AND 0xFF)) s;
               s = outb 0x40 (ucast (drop_bit 8 divisor AND 0xFF)) s;
               (r, s) = idt_register_handler IRQ_TIMER TIMER_HANDLER s;
               s = pic_enable_irq 0 s
           in Some (0, s))"

definition interrupt_init :: "image \<Rightarrow> 'a intr_scheme \<Rightarrow> (int \<times> 'a intr_scheme) option" where
  "interrupt_init img s =
     (let (result, s) = idt_init img s
      in if result \<noteq> 0 then Some (result, s)
         else
           let s = init_exception_table s;
               s = init_hardware_interrupt_table s;
               (result, s) = pic_init s
           in if result \<noteq> 0 then Some (result, s)
              else
                let (_, s) = idt_register_handler EXCEPTION_PAGE_FAULT PAGE_FAULT_HANDLER s;
                    (_, s) = idt_register_handler EXCEPTION_GENERAL_PROTECT GPF_HANDLER s;
                    (_, s) = idt_register_handler IRQ_KEYBOARD KEYBOARD_HANDLER s
                in do {
                  (result, s) \<leftarrow> timer_init TIMER_FREQUENCY s;
                  if result \<noteq> 0 then Some (result, s) else Some (0, s) })"

definition interrupt_shutdown :: "'a intr_scheme \<Rightarrow> 'a intr_scheme" where
  "interrupt_shutdown s =
     (let (_, s) = interrupts_disable s;
          s = pic_set_irq_mask 0xFFFF s
      in s\<lparr>g_timer_manager := (g_timer_manager s)\<lparr>tm_initialized := False\<rparr>\<rparr>)"

definition timer_get_ticks :: "'a intr_scheme \<Rightarrow> u64" where
  "timer_get_ticks s = tm_ticks (g_timer_manager s)"

definition timer_get_uptime_ms :: "'a intr_scheme \<Rightarrow> u64" where
  "timer_get_uptime_ms s = milliseconds (g_timer_manager s)"

definition timer_get_uptime_sec :: "'a intr_scheme \<Rightarrow> u64" where
  "timer_get_uptime_sec s = seconds (g_timer_manager s)"

text \<open>
  \<^verbatim>\<open>timer_sleep_ms\<close> spins until the clock has moved. What happens between two readings of the clock is the argument \<open>env\<close>:
  the interrupts that arrive, which may not return.
\<close>

partial_function (option) sleep_spin :: "('a intr_scheme \<Rightarrow> 'a intr_scheme option) \<Rightarrow> u64 \<Rightarrow> u64 \<Rightarrow> 'a intr_scheme \<Rightarrow> 'a intr_scheme option" where
  "sleep_spin env start ms s =
     (if timer_get_uptime_ms s - start < ms then do { s \<leftarrow> env s; sleep_spin env start ms s } else Some s)"

definition timer_sleep_ms :: "('a intr_scheme \<Rightarrow> 'a intr_scheme option) \<Rightarrow> u32 \<Rightarrow> 'a intr_scheme \<Rightarrow> 'a intr_scheme option" where
  "timer_sleep_ms env ms s = (let start = timer_get_uptime_ms s in sleep_spin env start (ucast ms) s)"

section \<open>Queries and critical sections\<close>

definition exception_get_info :: "u8 \<Rightarrow> 'a intr_scheme \<Rightarrow> exception_info option" where
  "exception_get_info v s = (if 32 \<le> v then None else Some (g_exceptions s ! unat v))"

definition irq_get_info :: "u8 \<Rightarrow> 'a intr_scheme \<Rightarrow> hardware_interrupt_info option" where
  "irq_get_info irq s = (if 16 \<le> irq then None else Some (g_hardware_interrupts s ! unat irq))"

definition timer_get_manager :: "'a intr_scheme \<Rightarrow> timer_manager" where
  "timer_get_manager s = g_timer_manager s"

definition critical_section_enter :: "'a intr_scheme \<Rightarrow> u64 \<times> 'a intr_scheme" where
  "critical_section_enter s = interrupts_disable s"

definition critical_section_exit :: "u64 \<Rightarrow> 'a intr_scheme \<Rightarrow> 'a intr_scheme" where
  "critical_section_exit state s = interrupts_restore state s"

definition in_interrupt :: "'a intr_scheme \<Rightarrow> bool" where
  "in_interrupt s \<longleftrightarrow> 0 < nested_interrupts (idt_get_stats s)"

definition interrupt_get_nesting_level :: "'a intr_scheme \<Rightarrow> u32" where
  "interrupt_get_nesting_level s = ucast (nested_interrupts (idt_get_stats s))"

definition exception_register_handler :: "u8 \<Rightarrow> handler \<Rightarrow> 'a intr_scheme \<Rightarrow> int \<times> 'a intr_scheme" where
  "exception_register_handler v h s = (if 32 \<le> v then (-1, s) else idt_register_handler v h s)"

definition irq_register_handler :: "u8 \<Rightarrow> handler \<Rightarrow> 'a intr_scheme \<Rightarrow> int \<times> 'a intr_scheme" where
  "irq_register_handler irq h s = (if 16 \<le> irq then (-1, s) else idt_register_handler (IRQ_TIMER + irq) h s)"

definition irq_unregister_handler :: "u8 \<Rightarrow> 'a intr_scheme \<Rightarrow> int \<times> 'a intr_scheme" where
  "irq_unregister_handler irq s = (if 16 \<le> irq then (-1, s) else idt_unregister_handler (IRQ_TIMER + irq) s)"

section \<open>Start-up\<close>

text \<open>The switch after a registration: back on, or off with one more disable counted.\<close>

definition pulse :: "'a idt_sys_scheme \<Rightarrow> 'a idt_sys_scheme" where
  "pulse s = (case interrupts_disable s of (flags, s) \<Rightarrow> interrupts_restore flags s)"

lemma register_handler_spec:
  assumes "im_state (interrupt_mgr s) \<noteq> INTERRUPT_SYSTEM_DISABLED" and "h \<noteq> NULL_HANDLER"
  shows "idt_register_handler v h s = (0, upd_mgr (\<lambda>m. m\<lparr>handlers := (handlers m)[unat v := h]\<rparr>) (pulse s))"
  using assms
  by (simp add: idt_register_handler_def pulse_def interrupts_disable_def interrupts_restore_def interrupts_enable_def Let_def)

lemma register_handler_fields:
  assumes "im_state (interrupt_mgr s) \<noteq> INTERRUPT_SYSTEM_DISABLED" and "h \<noteq> NULL_HANDLER"
    and c: "disabled_count (interrupt_mgr s) + 1 \<noteq> 0" and s': "s' = snd (idt_register_handler v h s)"
  shows "handlers (interrupt_mgr s') = (handlers (interrupt_mgr s))[unat v := h]"
    "im_state (interrupt_mgr s') = im_state (interrupt_mgr s)" "idt (interrupt_mgr s') = idt (interrupt_mgr s)"
    "im_stats (interrupt_mgr s') = im_stats (interrupt_mgr s)" "nested_level (interrupt_mgr s') = nested_level (interrupt_mgr s)"
    "idtr s' = idtr s"
    "interrupts_enabled s' = (interrupts_enabled s \<and> disabled_count (interrupt_mgr s) = 0)"
    "disabled_count (interrupt_mgr s') =
       (if interrupts_enabled s then disabled_count (interrupt_mgr s) else disabled_count (interrupt_mgr s) + 1)"
  unfolding s' register_handler_spec [OF assms(1,2)] using c
  by (auto simp: word_gt_0 pulse_def interrupts_disable_def interrupts_restore_def interrupts_enable_def Let_def interrupts_enabled_bit flag_IF_bit)

text \<open>The tables, row by row.\<close>

definition exception_row :: "u8 \<times> string \<times> string \<times> bool \<Rightarrow> exception_info" where
  "exception_row d = (case d of (v, nm, descr, ec) \<Rightarrow>
     \<lparr>ei_name = Some nm, ei_description = Some descr, has_error_code = ec, ei_vector = v, ei_count = 0\<rparr>)"

definition irq_row :: "nat \<Rightarrow> hardware_interrupt_info" where
  "irq_row i = (case irq_data ! i of (irq, nm, descr) \<Rightarrow>
     \<lparr>hi_name = Some nm, hi_description = Some descr, hi_irq = irq, hi_vector = IRQ_TIMER + of_nat i, hi_count = 0,
      hi_enabled = False, last_time = 0, total_time = 0\<rparr>)"

lemma fold_exception_rows:
  "fold (\<lambda>(v, nm, descr, ec) s. s\<lparr>g_exceptions := (g_exceptions s)[unat v :=
       \<lparr>ei_name = Some nm, ei_description = Some descr, has_error_code = ec, ei_vector = v, ei_count = 0\<rparr>]\<rparr>) ds s =
   s\<lparr>g_exceptions := fold (\<lambda>d xs. xs[unat (fst d) := exception_row d]) ds (g_exceptions s)\<rparr>"
  by (induction ds arbitrary: s) (auto simp: exception_row_def)

lemma init_exception_table_spec:
  "init_exception_table s = s\<lparr>g_exceptions := fold (\<lambda>d xs. xs[unat (fst d) := exception_row d]) exception_data (replicate 32 zero_exception_info)\<rparr>"
  by (simp add: init_exception_table_def fold_exception_rows)

lemma fold_irq_rows:
  "fold (\<lambda>i s. case irq_data ! i of (irq, nm, descr) \<Rightarrow>
      s\<lparr>g_hardware_interrupts := (g_hardware_interrupts s)[i :=
         \<lparr>hi_name = Some nm, hi_description = Some descr, hi_irq = irq, hi_vector = IRQ_TIMER + of_nat i, hi_count = 0,
          hi_enabled = False, last_time = 0, total_time = 0\<rparr>]\<rparr>) is s =
   s\<lparr>g_hardware_interrupts := fill_range irq_row is (g_hardware_interrupts s)\<rparr>"
  by (induction "is" arbitrary: s) (simp_all add: irq_row_def split: prod.splits)

lemma init_hardware_interrupt_table_spec:
  "init_hardware_interrupt_table s = s\<lparr>g_hardware_interrupts := map irq_row [0..<16]\<rparr>"
proof -
  have "fill_range irq_row [0..<16] (replicate 16 zero_hardware_info) = map irq_row [0..<16]"
    by (rule nth_equalityI) (simp_all add: nth_fill_range del: upt_rec_numeral fill_range_simps)
  then show ?thesis by (simp add: init_hardware_interrupt_table_def fold_irq_rows del: upt_rec_numeral fill_range_simps)
qed

lemma exception_table_rows:
  "fold (\<lambda>d xs. xs[unat (fst d) := exception_row d]) exception_data xs =
   fill_range (\<lambda>i. exception_row (exception_data ! i)) [0..<20] xs"
proof -
  have len: "length exception_data = 20" by (simp add: exception_data_def)
  have "map (unat \<circ> fst) exception_data = [0..<20]" by (simp add: exception_data_def upt_rec)
  then have v: "unat (fst (exception_data ! i)) = i" if "i < 20" for i
    using that len nth_map [of i exception_data "unat \<circ> fst"] by simp
  have "fold (\<lambda>d xs. xs[unat (fst d) := exception_row d]) exception_data xs =
    fold (\<lambda>d xs. xs[unat (fst d) := exception_row d]) (map ((!) exception_data) [0..<20]) xs"
    using map_nth [of exception_data] unfolding len by simp
  also have "\<dots> = fill_range (\<lambda>i. exception_row (exception_data ! i)) [0..<20] xs"
    unfolding fill_range_def fold_map o_def using v by (intro fold_cong refl) (simp del: upt_rec_numeral)
  finally show ?thesis .
qed

lemma pic_init_id [simp]: "pic_init s = (0, s)"
  by (simp add: pic_init_def outb_def Let_def)

lemma pic_enable_irq_low:
  "irq < 8 \<Longrightarrow> pic_enable_irq irq s = upd_irq (unat irq) (\<lambda>h. h\<lparr>hi_enabled := True\<rparr>) s"
  by (simp add: pic_enable_irq_def outb_def Let_def word_le_nat_alt word_less_nat_alt)

text \<open>An interrupt of the second controller is recorded at the wrong entry, eight lower.\<close>

lemma pic_enable_irq_high:
  assumes "8 \<le> irq" and "irq < 16"
  shows "pic_enable_irq irq s = upd_irq (unat irq - 8) (\<lambda>h. h\<lparr>hi_enabled := True\<rparr>) s"
  using assms by (simp add: pic_enable_irq_def outb_def Let_def word_le_nat_alt word_less_nat_alt unat_sub_le)

lemma upd_irq_fields [simp]:
  "interrupt_mgr (upd_irq i f s) = interrupt_mgr s" "cpu_flags (upd_irq i f s) = cpu_flags s" "idtr (upd_irq i f s) = idtr s"
  "g_timer_manager (upd_irq i f s) = g_timer_manager s" "g_exceptions (upd_irq i f s) = g_exceptions s"
  "sched.truncate (upd_irq i f s) = sched.truncate s"
  by (simp_all add: upd_irq_def sched.defs)

lemma pulse_base: "g_exceptions (pulse s) = g_exceptions s" "g_hardware_interrupts (pulse s) = g_hardware_interrupts s"
  "g_timer_manager (pulse s) = g_timer_manager s" "sched.truncate (pulse t) = sched.truncate t"
  by (simp_all add: pulse_def interrupts_disable_def interrupts_restore_def interrupts_enable_def Let_def sched.defs)

lemma register_handler_base:
  assumes "im_state (interrupt_mgr s) \<noteq> INTERRUPT_SYSTEM_DISABLED" and "h \<noteq> NULL_HANDLER"
    and "s' = snd (idt_register_handler v h s)"
  shows "g_exceptions s' = g_exceptions s" "g_hardware_interrupts s' = g_hardware_interrupts s" "g_timer_manager s' = g_timer_manager s"
    "sched.truncate s' = sched.truncate s"
  unfolding assms(3) register_handler_spec [OF assms(1,2)] using pulse_base [of s] by (simp_all add: pulse_base sched.defs)

text \<open>The handlers after start-up.\<close>

definition boot_handler :: "u8 \<Rightarrow> handler" where
  "boot_handler v =
     (if v = IRQ_TIMER then TIMER_HANDLER else if v = IRQ_KEYBOARD then KEYBOARD_HANDLER
      else if v = EXCEPTION_GENERAL_PROTECT then GPF_HANDLER else if v = EXCEPTION_PAGE_FAULT then PAGE_FAULT_HANDLER
      else default_handler v)"

lemma boot_handlers:
  "(map (\<lambda>i. default_handler (of_nat i)) [0..<256])[unat EXCEPTION_PAGE_FAULT := PAGE_FAULT_HANDLER,
      unat EXCEPTION_GENERAL_PROTECT := GPF_HANDLER, unat IRQ_KEYBOARD := KEYBOARD_HANDLER, unat IRQ_TIMER := TIMER_HANDLER] ! unat v
   = boot_handler v"
proof -
  have "unat v < 256" using unat_less_2p [of v] by simp
  then show ?thesis
    by (simp add: nth_list_update boot_handler_def word_unat_eq_iff del: upt_rec_numeral)
qed

lemma timer_init_spec:
  assumes "freq \<noteq> 0" and "im_state (interrupt_mgr s) \<noteq> INTERRUPT_SYSTEM_DISABLED"
  shows "timer_init freq s = Some (0, upd_irq 0 (\<lambda>h. h\<lparr>hi_enabled := True\<rparr>) (snd (idt_register_handler IRQ_TIMER TIMER_HANDLER
    (s\<lparr>g_timer_manager := \<lparr>tm_ticks = 0, milliseconds = 0, seconds = 0, frequency = freq, tm_initialized = True,
         last_tick_time = 0, tick_overruns = 0\<rparr>\<rparr>))))"
proof -
  have e: "(tm :: timer_manager)\<lparr>frequency := freq, tm_ticks := 0, milliseconds := 0, seconds := 0, last_tick_time := 0, tick_overruns := 0,
    tm_initialized := True\<rparr> = \<lparr>tm_ticks = 0, milliseconds = 0, seconds = 0, frequency = freq, tm_initialized = True,
         last_tick_time = 0, tick_overruns = 0\<rparr>" for tm by (cases tm) simp
  show ?thesis
    using assms by (simp add: timer_init_def outb_def Let_def pic_enable_irq_low split_beta e)
qed

text \<open>Four registrations in a row, as start-up does them.\<close>

definition registered :: "u8 \<Rightarrow> handler \<Rightarrow> 'a idt_sys_scheme \<Rightarrow> 'a idt_sys_scheme" where
  "registered v h s = snd (idt_register_handler v h s)"

definition switch_ok :: "'a idt_sys_scheme \<Rightarrow> bool \<Rightarrow> u64 \<Rightarrow> bool" where
  "switch_ok s b n \<longleftrightarrow> im_state (interrupt_mgr s) \<noteq> INTERRUPT_SYSTEM_DISABLED \<and> interrupts_enabled s = b \<and>
     disabled_count (interrupt_mgr s) = (if b then 0 else n)"

lemma registered_switch:
  assumes "switch_ok s b n" and "h \<noteq> NULL_HANDLER" and "n + 1 \<noteq> 0"
  shows "switch_ok (registered v h s) b (n + 1)"
  using register_handler_fields [of s h "registered v h s" v] assms
  by (auto simp: switch_ok_def registered_def split: if_splits)

lemma registered_fields:
  assumes "switch_ok s b n" and "h \<noteq> NULL_HANDLER" and "n + 1 \<noteq> 0"
  shows "handlers (interrupt_mgr (registered v h s)) = (handlers (interrupt_mgr s))[unat v := h]"
    "im_state (interrupt_mgr (registered v h s)) = im_state (interrupt_mgr s)"
    "idt (interrupt_mgr (registered v h s)) = idt (interrupt_mgr s)"
    "im_stats (interrupt_mgr (registered v h s)) = im_stats (interrupt_mgr s)"
    "nested_level (interrupt_mgr (registered v h s)) = nested_level (interrupt_mgr s)" "idtr (registered v h s) = idtr s"
  using register_handler_fields [of s h "registered v h s" v] assms by (auto simp: switch_ok_def registered_def split: if_splits)

lemma registered_base:
  assumes "switch_ok s b n" and "h \<noteq> NULL_HANDLER"
  shows "g_exceptions (registered v h s) = g_exceptions s" "g_hardware_interrupts (registered v h s) = g_hardware_interrupts s"
    "g_timer_manager (registered v h s) = g_timer_manager s" "sched.truncate (registered v h s) = sched.truncate s"
  using register_handler_base [of s h "registered v h s" v] assms by (auto simp: switch_ok_def registered_def)

lemma interrupt_init_spec:
  defines "tm \<equiv> \<lparr>tm_ticks = 0, milliseconds = 0, seconds = 0, frequency = 1000, tm_initialized = True, last_tick_time = 0, tick_overruns = 0\<rparr>"
  shows "\<exists>s'. interrupt_init img s = Some (0, s') \<and> switch_ok s' (interrupts_enabled s) 4 \<and>
    im_state (interrupt_mgr s') = INTERRUPT_SYSTEM_ENABLED \<and> idt (interrupt_mgr s') = map (gate_of img) [0..<256] \<and>
    (\<forall>v. handlers (interrupt_mgr s') ! unat v = boot_handler v) \<and> length (handlers (interrupt_mgr s')) = 256 \<and>
    nested_level (interrupt_mgr s') = 0 \<and> im_stats (interrupt_mgr s') = zero_interrupt_stats \<and>
    idtr s' = \<lparr>limit = 0xFFF, base = addr_idt img\<rparr> \<and> g_timer_manager s' = tm \<and>
    g_exceptions s' = fill_range (\<lambda>i. exception_row (exception_data ! i)) [0..<20] (replicate 32 zero_exception_info) \<and>
    g_hardware_interrupts s' = (map irq_row [0..<16])[0 := (irq_row 0)\<lparr>hi_enabled := True\<rparr>] \<and>
    sched.truncate s' = sched.truncate s"
proof -
  let ?s1 = "init_hardware_interrupt_table (init_exception_table (snd (idt_init img s)))"
  let ?b = "interrupts_enabled s"
  have s1: "switch_ok ?s1 ?b 0" "handlers (interrupt_mgr ?s1) = map (\<lambda>i. default_handler (of_nat i)) [0..<256]"
    "im_state (interrupt_mgr ?s1) = INTERRUPT_SYSTEM_ENABLED" "idt (interrupt_mgr ?s1) = map (gate_of img) [0..<256]"
    "im_stats (interrupt_mgr ?s1) = zero_interrupt_stats" "nested_level (interrupt_mgr ?s1) = 0"
    "idtr ?s1 = \<lparr>limit = 0xFFF, base = addr_idt img\<rparr>"
    "g_exceptions ?s1 = fill_range (\<lambda>i. exception_row (exception_data ! i)) [0..<20] (replicate 32 zero_exception_info)"
    "g_hardware_interrupts ?s1 = map irq_row [0..<16]" "sched.truncate ?s1 = sched.truncate s"
    by (simp_all add: idt_init_spec init_hardware_interrupt_table_spec init_exception_table_spec exception_table_rows
        switch_ok_def interrupts_enabled_def zero_interrupt_manager_def sched.defs del: upt_rec_numeral fill_range_simps)
  let ?s2 = "registered EXCEPTION_PAGE_FAULT PAGE_FAULT_HANDLER ?s1"
  let ?s3 = "registered EXCEPTION_GENERAL_PROTECT GPF_HANDLER ?s2"
  let ?s4 = "registered IRQ_KEYBOARD KEYBOARD_HANDLER ?s3"
  have k2: "switch_ok ?s2 ?b 1" using registered_switch [OF s1(1)] by simp
  have k3: "switch_ok ?s3 ?b 2" using registered_switch [OF k2] by simp
  have k4: "switch_ok ?s4 ?b 3" using registered_switch [OF k3] by simp
  let ?t = "?s4\<lparr>g_timer_manager := tm\<rparr>"
  have kt: "switch_ok ?t ?b 3" using k4 by (simp add: switch_ok_def interrupts_enabled_def)
  let ?s5 = "registered IRQ_TIMER TIMER_HANDLER ?t"
  have k5: "switch_ok ?s5 ?b 4" using registered_switch [OF kt] by simp
  let ?s' = "upd_irq 0 (\<lambda>h. h\<lparr>hi_enabled := True\<rparr>) ?s5"
  have n: "im_state (interrupt_mgr ?s4) \<noteq> INTERRUPT_SYSTEM_DISABLED" using k4 by (simp add: switch_ok_def)
  have i0: "fst (idt_init img s) = 0" by (simp add: idt_init_spec)
  have run: "interrupt_init img s = Some (0, ?s')"
    using timer_init_spec [OF _ n, of 1000]
    by (simp add: interrupt_init_def Let_def split_beta i0 registered_def tm_def TIMER_FREQUENCY_def)
  note f2 = registered_fields [OF s1(1)] registered_base [OF s1(1)]
  note f3 = registered_fields [OF k2] registered_base [OF k2]
  note f4 = registered_fields [OF k3] registered_base [OF k3]
  note f5 = registered_fields [OF kt] registered_base [OF kt]
  have tr: "sched.truncate (x\<lparr>g_timer_manager := y\<rparr>) = sched.truncate x" for x :: "'a intr_scheme" and y by (simp add: sched.defs)
  have m: "interrupt_mgr ?s' = interrupt_mgr ?s5" "cpu_flags ?s' = cpu_flags ?s5" by simp_all
  have h: "handlers (interrupt_mgr ?s') = (map (\<lambda>i. default_handler (of_nat i)) [0..<256])[unat EXCEPTION_PAGE_FAULT := PAGE_FAULT_HANDLER,
      unat EXCEPTION_GENERAL_PROTECT := GPF_HANDLER, unat IRQ_KEYBOARD := KEYBOARD_HANDLER, unat IRQ_TIMER := TIMER_HANDLER]"
    unfolding m by (simp add: f5 f4 f3 f2 s1 del: upt_rec_numeral)
  show ?thesis
  proof (intro exI [of _ ?s'] conjI)
    show "interrupt_init img s = Some (0, ?s')" by (rule run)
    show "switch_ok ?s' ?b 4" using k5 by (simp add: switch_ok_def interrupts_enabled_def)
    show "\<forall>v. handlers (interrupt_mgr ?s') ! unat v = boot_handler v" unfolding h boot_handlers by simp
    show "length (handlers (interrupt_mgr ?s')) = 256" unfolding h by simp
    show "sched.truncate ?s' = sched.truncate s" by (simp add: f5 f4 f3 f2 s1 tr)
  qed (simp_all add: f5 f4 f3 f2 s1 m upd_irq_def del: upt_rec_numeral fill_range_simps)
qed

section \<open>The timer\<close>

text \<open>The scheduler leaves alone what later components add to the state: every result has the same \<open>more\<close> part.\<close>

definition keeps_more :: "'a \<Rightarrow> 'a sched_scheme option \<Rightarrow> bool" where
  "keeps_more m r \<longleftrightarrow> (\<forall>s. r = Some s \<longrightarrow> sched.more s = m)"

named_theorems more_intros \<open>results with the same more part\<close>

lemma keeps_more_basic [more_intros]:
  "sched.more s = m \<Longrightarrow> keeps_more m (Some s)" "keeps_more m None"
  "(c \<Longrightarrow> keeps_more m r) \<Longrightarrow> (\<not> c \<Longrightarrow> keeps_more m r') \<Longrightarrow> keeps_more m (if c then r else r')"
  "sched.more s = m \<Longrightarrow> keeps_more m (upd_thread t f s)" "sched.more s = m \<Longrightarrow> keeps_more m (upd_proc p g s)"
  by (auto simp: keeps_more_def upd_thread_def upd_proc_def bind_eq_Some_conv)

lemma keeps_more_bind [more_intros]:
  fixes r :: "'a sched_scheme option" and r1 :: "thread option" and r2 :: "bool option" and r3 :: "(u64 \<times> 'a sched_scheme) option"
  shows "keeps_more m r \<Longrightarrow> (\<And>s. sched.more s = m \<Longrightarrow> keeps_more m (f s)) \<Longrightarrow> keeps_more m (r \<bind> f)"
    "(\<And>th. keeps_more m (f1 th)) \<Longrightarrow> keeps_more m (r1 \<bind> f1)" "(\<And>b. keeps_more m (f2 b)) \<Longrightarrow> keeps_more m (r2 \<bind> f2)"
    "keeps_more m (map_option snd r3) \<Longrightarrow> (\<And>a s. sched.more s = m \<Longrightarrow> keeps_more m (f3 (a, s))) \<Longrightarrow> keeps_more m (r3 \<bind> f3)"
  by (auto simp: keeps_more_def bind_eq_Some_conv)

lemma keeps_more_add [more_intros]: "sched.more s = m \<Longrightarrow> keeps_more m (add_to_ready_queue t s)"
  unfolding add_to_ready_queue_def Let_def by (intro more_intros) simp_all

lemma keeps_more_wakeup [more_intros]: "sched.more s = m \<Longrightarrow> keeps_more m (wakeup t s)"
  unfolding wakeup_def by (intro more_intros) simp_all

lemma keeps_more_wake [more_intros]: "sched.more s = m \<Longrightarrow> keeps_more m (wake_due now prev t s)"
proof -
  have "sched.more s' = sched.more s" if "wake_due now prev t s = Some s'" for s'
    using that
    by (rule wake_due.raw_induct [of "\<lambda>now prev t s s'. sched.more s' = sched.more s", rotated])
      (auto simp: bind_eq_Some_conv Let_def wakeup_def upd_thread_def add_to_ready_queue_def split: if_splits)
  then show "sched.more s = m \<Longrightarrow> keeps_more m (wake_due now prev t s)" by (simp add: keeps_more_def)
qed

lemma keeps_more_process [more_intros]: "sched.more s = m \<Longrightarrow> keeps_more m (set_current_process p s)"
  unfolding set_current_process_def Let_def get_system_time_def split_beta by (intro more_intros) simp_all

lemma keeps_more_switch [more_intros]: "sched.more s = m \<Longrightarrow> keeps_more m (context_switch c t s)"
  unfolding context_switch_def set_current_thread_def Let_def by (intro more_intros) simp_all

lemma keeps_more_statistics [more_intros]: "sched.more s = m \<Longrightarrow> keeps_more m (update_thread_statistics t d s)"
  unfolding update_thread_statistics_def Let_def by (intro more_intros) simp_all

lemma keeps_more_select [more_intros]: "sched.more s = m \<Longrightarrow> keeps_more m (map_option snd (select_next_thread s))"
  by (auto simp: select_head remove_from_ready_queue_def keeps_more_def upd_thread_def bind_eq_Some_conv Let_def split: if_splits)

lemma keeps_more_schedule [more_intros]: "sched.more s = m \<Longrightarrow> keeps_more m (schedule s)"
  unfolding schedule_def arch_halt_def Let_def get_system_time_def split_beta by (intro more_intros) simp_all

lemma keeps_more_tick: "keeps_more (sched.more s) (scheduler_tick s)"
  unfolding scheduler_tick_def update_sleep_queue_def Let_def get_system_time_def split_beta by (intro more_intros) simp_all

lemma tick_interrupt_state:
  assumes "scheduler_tick s = Some s'"
  shows "interrupt_mgr s' = interrupt_mgr s" "cpu_flags s' = cpu_flags s" "g_timer_manager s' = g_timer_manager s"
    "g_exceptions s' = g_exceptions s" "g_hardware_interrupts s' = g_hardware_interrupts s"
  using keeps_more_tick [of s] assms by (cases s; cases s'; simp add: keeps_more_def)+

lemma scheduler_tick_returns:
  assumes inv: "sched_inv s rs zs"
  shows "\<exists>s' rs' zs'. scheduler_tick s = Some s' \<and> sched_inv s' rs' zs' \<and> current_thread s' = current_thread s"
proof (cases "scheduler_enabled s")
  case True
  from scheduler_tick_spec [OF inv True refl] show ?thesis by blast
next
  case False
  then show ?thesis using inv by (intro exI [of _ s] exI [of _ rs] exI [of _ zs]) (simp add: scheduler_tick_def)
qed

text \<open>The clock after a tick.\<close>

definition next_tick :: "timer_manager \<Rightarrow> timer_manager" where
  "next_tick tm = tm\<lparr>tm_ticks := tm_ticks tm + 1, milliseconds := (tm_ticks tm + 1) * ucast (1000 div frequency tm),
     seconds := (tm_ticks tm + 1) * ucast (1000 div frequency tm) div 1000\<rparr>"

lemma sched_inv_irrelevant:
  "sched_inv (upd_irq i f s) rs zs = sched_inv s rs zs" "sched_inv (s\<lparr>g_timer_manager := tm\<rparr>) rs zs = sched_inv s rs zs"
  "sched_inv (s\<lparr>interrupt_mgr := m\<rparr>) rs zs = sched_inv s rs zs"
  by (simp_all add: sched_inv_def upd_irq_def)

lemma timer_handler_spec:
  assumes inv: "sched_inv s rs zs" and f: "frequency (g_timer_manager s) \<noteq> 0"
  shows "\<exists>s' rs' zs'. timer_interrupt_handler is_enabled s = Some s' \<and> sched_inv s' rs' zs' \<and> current_thread s' = current_thread s \<and>
    interrupt_mgr s' = interrupt_mgr s \<and> cpu_flags s' = cpu_flags s \<and> g_timer_manager s' = next_tick (g_timer_manager s) \<and>
    g_hardware_interrupts s' = (g_hardware_interrupts s)[0 := (g_hardware_interrupts s ! 0)
       \<lparr>hi_count := hi_count (g_hardware_interrupts s ! 0) + 1, last_time := tm_ticks (g_timer_manager s) + 1\<rparr>]"
proof -
  let ?tm = "next_tick (g_timer_manager s)"
  let ?s = "upd_irq 0 (\<lambda>h. h\<lparr>hi_count := hi_count h + 1, last_time := tm_ticks ?tm\<rparr>) (s\<lparr>g_timer_manager := ?tm\<rparr>)"
  have run: "timer_interrupt_handler is_enabled s = (if is_enabled ?s then scheduler_tick ?s else Some ?s)"
    using f by (simp add: timer_interrupt_handler_def Let_def pic_send_eoi_def outb_def next_tick_def)
  have i: "sched_inv ?s rs zs" using inv by (simp add: sched_inv_irrelevant)
  obtain s' rs' zs' where t: "scheduler_tick ?s = Some s'" "sched_inv s' rs' zs'" "current_thread s' = current_thread ?s"
    using scheduler_tick_returns [OF i] by blast
  have q: "interrupt_mgr ?s = interrupt_mgr s" "cpu_flags ?s = cpu_flags s" "g_timer_manager ?s = ?tm" "current_thread ?s = current_thread s"
    "g_hardware_interrupts ?s = (g_hardware_interrupts s)[0 := (g_hardware_interrupts s ! 0)
       \<lparr>hi_count := hi_count (g_hardware_interrupts s ! 0) + 1, last_time := tm_ticks (g_timer_manager s) + 1\<rparr>]"
    by (simp_all add: upd_irq_def next_tick_def)
  show ?thesis
  proof (cases "is_enabled ?s")
    case True
    then show ?thesis using run t q tick_interrupt_state [OF t(1)] by (intro exI [of _ s'] exI [of _ rs'] exI [of _ zs']) simp
  next
    case False
    then show ?thesis using run i q by (intro exI [of _ ?s] exI [of _ rs] exI [of _ zs]) simp
  qed
qed

lemma timer_dispatch:
  assumes inv: "sched_inv s rs zs" and f: "frequency (g_timer_manager s) \<noteq> 0"
    and h: "handlers (interrupt_mgr s) ! unat IRQ_TIMER = TIMER_HANDLER"
  shows "\<exists>s' rs' zs'. interrupt_common_handler is_enabled ext IRQ_TIMER ec ctxt s = Some s' \<and> sched_inv s' rs' zs' \<and>
    current_thread s' = current_thread s \<and> interrupt_mgr s' = interrupt_mgr s \<and> g_timer_manager s' = next_tick (g_timer_manager s) \<and>
    g_hardware_interrupts s' = (g_hardware_interrupts s)[0 := (g_hardware_interrupts s ! 0)
       \<lparr>hi_count := hi_count (g_hardware_interrupts s ! 0) + 1, last_time := tm_ticks (g_timer_manager s) + 1\<rparr>]"
proof -
  let ?s = "upd_mgr (\<lambda>m. m\<lparr>nested_level := nested_level m + 1\<rparr>) s"
  have "sched_inv ?s rs zs" "frequency (g_timer_manager ?s) \<noteq> 0" using inv f by (simp_all add: sched_inv_irrelevant)
  from timer_handler_spec [OF this, of is_enabled] obtain s' rs' zs' where
    t: "timer_interrupt_handler is_enabled ?s = Some s'" "sched_inv s' rs' zs'" "current_thread s' = current_thread s"
      "interrupt_mgr s' = interrupt_mgr ?s" "g_timer_manager s' = next_tick (g_timer_manager s)"
      "g_hardware_interrupts s' = (g_hardware_interrupts s)[0 := (g_hardware_interrupts s ! 0)
       \<lparr>hi_count := hi_count (g_hardware_interrupts s ! 0) + 1, last_time := tm_ticks (g_timer_manager s) + 1\<rparr>]" by auto
  let ?s' = "upd_mgr (\<lambda>m. m\<lparr>nested_level := nested_level m - 1\<rparr>) s'"
  have "interrupt_common_handler is_enabled ext IRQ_TIMER ec ctxt s = Some ?s'"
    using t(1) h by (simp add: interrupt_common_handler_def call_handler_def)
  moreover have "interrupt_mgr ?s' = interrupt_mgr s" using t(4) by simp
  ultimately show ?thesis using t by (intro exI [of _ ?s'] exI [of _ rs'] exI [of _ zs']) (simp add: sched_inv_irrelevant)
qed

text \<open>\<open>n\<close> timer interrupts, one after the other.\<close>

fun timer_interrupts :: "('a intr_scheme \<Rightarrow> bool) \<Rightarrow> 'a external \<Rightarrow> nat \<Rightarrow> 'a intr_scheme \<Rightarrow> 'a intr_scheme option" where
  "timer_interrupts is_enabled ext 0 s = Some s"
| "timer_interrupts is_enabled ext (Suc n) s = do {
     s \<leftarrow> interrupt_common_handler is_enabled ext IRQ_TIMER 0 zero_cpu s;
     timer_interrupts is_enabled ext n s }"

lemma next_tick_fields [simp]: "frequency (next_tick tm) = frequency tm" "tm_ticks (next_tick tm) = tm_ticks tm + 1"
  by (simp_all add: next_tick_def)

lemma timer_interrupts_spec:
  assumes "sched_inv s rs zs" and "frequency (g_timer_manager s) = f" and "f \<noteq> 0"
    and "handlers (interrupt_mgr s) ! unat IRQ_TIMER = TIMER_HANDLER"
    and "milliseconds (g_timer_manager s) = tm_ticks (g_timer_manager s) * ucast (1000 div f)"
    and "seconds (g_timer_manager s) = milliseconds (g_timer_manager s) div 1000"
    and "g_hardware_interrupts s \<noteq> []"
  shows "\<exists>s' rs' zs'. timer_interrupts is_enabled ext n s = Some s' \<and> sched_inv s' rs' zs' \<and> current_thread s' = current_thread s \<and>
    interrupt_mgr s' = interrupt_mgr s \<and> tm_ticks (g_timer_manager s') = tm_ticks (g_timer_manager s) + of_nat n \<and>
    milliseconds (g_timer_manager s') = tm_ticks (g_timer_manager s') * ucast (1000 div f) \<and>
    seconds (g_timer_manager s') = milliseconds (g_timer_manager s') div 1000 \<and>
    hi_count (g_hardware_interrupts s' ! 0) = hi_count (g_hardware_interrupts s ! 0) + of_nat n"
  using assms
proof (induction n arbitrary: s rs zs)
  case (Suc n)
  have f0: "frequency (g_timer_manager s) \<noteq> 0" using Suc.prems(2,3) by simp
  obtain s1 rs1 zs1 where s1: "interrupt_common_handler is_enabled ext IRQ_TIMER 0 zero_cpu s = Some s1" "sched_inv s1 rs1 zs1"
    "current_thread s1 = current_thread s" "interrupt_mgr s1 = interrupt_mgr s" "g_timer_manager s1 = next_tick (g_timer_manager s)"
    "g_hardware_interrupts s1 = (g_hardware_interrupts s)[0 := (g_hardware_interrupts s ! 0)
       \<lparr>hi_count := hi_count (g_hardware_interrupts s ! 0) + 1, last_time := tm_ticks (g_timer_manager s) + 1\<rparr>]"
    using timer_dispatch [OF Suc.prems(1) f0 Suc.prems(4)] by blast
  have p: "frequency (g_timer_manager s1) = f" "handlers (interrupt_mgr s1) ! unat IRQ_TIMER = TIMER_HANDLER"
    "milliseconds (g_timer_manager s1) = tm_ticks (g_timer_manager s1) * ucast (1000 div f)"
    "seconds (g_timer_manager s1) = milliseconds (g_timer_manager s1) div 1000" "g_hardware_interrupts s1 \<noteq> []"
    "hi_count (g_hardware_interrupts s1 ! 0) = hi_count (g_hardware_interrupts s ! 0) + 1"
    using Suc.prems by (simp_all add: s1 next_tick_def)
  from Suc.IH [OF s1(2) p(1) Suc.prems(3) p(2-5)] show ?case
    using s1(1,3,4,5) p(6) by (auto simp: algebra_simps)
qed auto

lemma sched_inv_truncate:
  assumes "sched.truncate s' = sched.truncate s"
  shows "sched_inv s' rs zs = sched_inv s rs zs" "current_thread s' = current_thread s"
  using assms by (simp_all add: sched_inv_def sched.defs)

lemma div_1000: "(1000 :: u32) div 1000 = 1"
  by (simp add: word_unat_eq_iff unat_div)

lemma next_tick_1000: "frequency tm = 1000 \<Longrightarrow> milliseconds (next_tick tm) = tm_ticks tm + 1"
  by (simp only: next_tick_def div_1000 timer_manager.simps) simp

text \<open>
  Busy waiting while timer interrupts arrive at 1000 Hz: the loop ends after as many interrupts as milliseconds were
  asked for.
\<close>

lemma sleep_spin_interrupts:
  assumes "sched_inv s rs zs" and "frequency (g_timer_manager s) = 1000" and "handlers (interrupt_mgr s) ! unat IRQ_TIMER = TIMER_HANDLER"
    and "milliseconds (g_timer_manager s) = tm_ticks (g_timer_manager s)"
    and "tm_ticks (g_timer_manager s) - start = of_nat k" and "unat ms = k + d"
  shows "sleep_spin (interrupt_common_handler is_enabled ext IRQ_TIMER 0 zero_cpu) start ms s = timer_interrupts is_enabled ext d s"
  using assms
proof (induction d arbitrary: k s rs zs)
  case 0
  then have "k < 2 ^ 64" using unat_less_2p [of ms] by simp
  then have "\<not> timer_get_uptime_ms s - start < ms" using 0 by (simp add: timer_get_uptime_ms_def word_less_nat_alt unat_of_nat_small)
  then show ?case by (subst sleep_spin.simps) simp
next
  case (Suc d)
  have "k < 2 ^ 64" using Suc.prems(6) unat_less_2p [of ms] by simp
  then have "timer_get_uptime_ms s - start < ms"
    using Suc.prems(4-6) by (simp add: timer_get_uptime_ms_def word_less_nat_alt unat_of_nat_small)
  moreover have f0: "frequency (g_timer_manager s) \<noteq> 0" using Suc.prems(2) by simp
  obtain s1 rs1 zs1 where s1: "interrupt_common_handler is_enabled ext IRQ_TIMER 0 zero_cpu s = Some s1" "sched_inv s1 rs1 zs1"
    "interrupt_mgr s1 = interrupt_mgr s" "g_timer_manager s1 = next_tick (g_timer_manager s)"
    using timer_dispatch [OF Suc.prems(1) f0 Suc.prems(3)] by blast
  have "frequency (g_timer_manager s1) = 1000" "handlers (interrupt_mgr s1) ! unat IRQ_TIMER = TIMER_HANDLER"
    "milliseconds (g_timer_manager s1) = tm_ticks (g_timer_manager s1)" "tm_ticks (g_timer_manager s1) - start = of_nat (Suc k)"
    "unat ms = Suc k + d"
    using Suc.prems by (simp_all add: s1 next_tick_1000 algebra_simps)
  from Suc.IH [OF s1(2) this]
  have "sleep_spin (interrupt_common_handler is_enabled ext IRQ_TIMER 0 zero_cpu) start ms s1 = timer_interrupts is_enabled ext d s1" .
  ultimately show ?case using s1(1) by (subst sleep_spin.simps) simp
qed

text \<open>
  Started with interrupts off, as a boot loader hands over, the kernel turns them on once after start-up. The four
  registrations have left the count at four, so they stay off.
\<close>

lemma boot_leaves_interrupts_off:
  assumes "\<not> interrupts_enabled s"
  shows "\<exists>s'. interrupt_init img s = Some (0, s') \<and> \<not> interrupts_enabled (interrupts_enable s')"
proof -
  obtain s' where s': "interrupt_init img s = Some (0, s')" "switch_ok s' (interrupts_enabled s) 4"
    using interrupt_init_spec [of img s] by blast
  then have "\<not> interrupts_enabled s'" "disabled_count (interrupt_mgr s') = 4" using assms by (simp_all add: switch_ok_def)
  then have "\<not> interrupts_enabled (interrupts_enable s')" by (simp add: interrupts_enable_def Let_def interrupts_enabled_def)
  with s'(1) show ?thesis by blast
qed

section \<open>An example\<close>

definition img_small :: image where
  "img_small = \<lparr>addr_idt = 0xFFFF800000200000, addr_default_exception = 0xFFFF800000101000, addr_default_interrupt = 0xFFFF800000102000\<rparr>"

definition intr_small :: intr where
  "intr_small = idt_sys.extend (sched.extend sched_small
       \<lparr>interrupt_mgr = zero_interrupt_manager, cpu_flags = 0x202, idtr = \<lparr>limit = 0, base = 0\<rparr>\<rparr>)
     \<lparr>g_timer_manager = \<lparr>tm_ticks = 0, milliseconds = 0, seconds = 0, frequency = 0, tm_initialized = False, last_tick_time = 0,
        tick_overruns = 0\<rparr>, g_exceptions = [], g_hardware_interrupts = [], g_current_priority = INTERRUPT_PRIORITY_NORMAL\<rparr>"

lemma intr_small_ok:
  "sched_inv intr_small [0x2000] [0x3000, 0x4000]" "interrupts_enabled intr_small" "disabled_count (interrupt_mgr intr_small) = 0"
  "current_thread intr_small = 0x1000"
proof -
  have "sched.truncate intr_small = sched_small" by (simp add: intr_small_def sched.defs idt_sys.defs)
  then have "sched.truncate intr_small = sched.truncate sched_small" by (simp add: sched.defs)
  from sched_inv_truncate [OF this]
  show "sched_inv intr_small [0x2000] [0x3000, 0x4000]" "current_thread intr_small = 0x1000" using sched_small_ok by simp_all
  show "interrupts_enabled intr_small" "disabled_count (interrupt_mgr intr_small) = 0"
    by (simp_all add: intr_small_def interrupts_enabled_def idt_sys.defs sched.defs zero_interrupt_manager_def)
qed

section \<open>What interrupt handling promises\<close>

text \<open>
  C14: \<^verbatim>\<open>interrupt_init\<close> always succeeds. Every gate then holds the address of the right stub, split over its three fields without loss,
  and lets user code in exactly from vector 48 on; the table of handlers has the timer, keyboard, page-fault and protection
  handlers at their vectors and the defaults elsewhere; interrupts that were on are on again with nothing left disabled; the
  descriptor register points at the table; and the rest of the kernel's state is untouched.
\<close>

theorem interrupt_init_correct:
  "\<exists>s'. interrupt_init img s = Some (0, s') \<and>
    (\<forall>v. gate_address (idt (interrupt_mgr s') ! unat v) = (if v < 32 then addr_default_exception img else addr_default_interrupt img) \<and>
         type_attr (idt (interrupt_mgr s') ! unat v) = (if v < 48 then 0x8E else 0xEE) \<and>
         handlers (interrupt_mgr s') ! unat v = boot_handler v) \<and>
    interrupts_enabled s' = interrupts_enabled s \<and> disabled_count (interrupt_mgr s') = (if interrupts_enabled s then 0 else 4) \<and>
    nested_level (interrupt_mgr s') = 0 \<and> base (idtr s') = addr_idt img \<and> frequency (g_timer_manager s') = 1000 \<and>
    sched.truncate s' = sched.truncate s"
proof -
  obtain s' where s': "interrupt_init img s = Some (0, s')" "switch_ok s' (interrupts_enabled s) 4"
    "idt (interrupt_mgr s') = map (gate_of img) [0..<256]" "\<forall>v. handlers (interrupt_mgr s') ! unat v = boot_handler v"
    "nested_level (interrupt_mgr s') = 0" "idtr s' = \<lparr>limit = 0xFFF, base = addr_idt img\<rparr>"
    "frequency (g_timer_manager s') = 1000" "sched.truncate s' = sched.truncate s"
    using interrupt_init_spec [of img s] by auto
  have g: "idt (interrupt_mgr s') ! unat v = gate_of img (unat v)" for v :: u8
    using unat_less_2p [of v] by (simp add: s'(3) del: upt_rec_numeral)
  have "gate_address (idt (interrupt_mgr s') ! unat v) = (if v < 32 then addr_default_exception img else addr_default_interrupt img) \<and>
      type_attr (idt (interrupt_mgr s') ! unat v) = (if v < 48 then 0x8E else 0xEE)" for v :: u8
    unfolding g gate_of_def word_less_nat_alt
    by (simp add: gate_def [THEN arg_cong, of type_attr] IDT_GATE_INTERRUPT_def IDT_DPL_KERNEL_def IDT_DPL_USER_def)
  then show ?thesis using s' by (intro exI [of _ s']) (auto simp: switch_ok_def)
qed

text \<open>
  C15: the interrupt dispatcher, the timer and the scheduler together: after start-up on a state with well-formed scheduler queues,
  any number \<open>n\<close> of timer interrupts returns, whatever \<^verbatim>\<open>scheduler_is_enabled\<close> answers. The clock then shows \<open>n\<close> ticks and \<open>n\<close>
  milliseconds and the whole seconds in them, \<open>n\<close> interrupts are counted for line 0, the nesting level and the handlers
  are as before, the queues are well formed and the running thread is the same.
\<close>

theorem timer_interrupts_correct:
  assumes inv: "sched_inv s rs zs" and start: "interrupt_init img s = Some (r, s1)"
  shows "\<exists>s2 rs' zs'. timer_interrupts is_enabled ext n s1 = Some s2 \<and> sched_inv s2 rs' zs' \<and>
    timer_get_ticks s2 = of_nat n \<and> timer_get_uptime_ms s2 = of_nat n \<and> timer_get_uptime_sec s2 = of_nat n div 1000 \<and>
    hi_count (g_hardware_interrupts s2 ! 0) = of_nat n \<and> interrupt_mgr s2 = interrupt_mgr s1 \<and> current_thread s2 = current_thread s"
proof -
  have s1: "\<forall>v. handlers (interrupt_mgr s1) ! unat v = boot_handler v" "sched.truncate s1 = sched.truncate s"
    "g_timer_manager s1 = \<lparr>tm_ticks = 0, milliseconds = 0, seconds = 0, frequency = 1000, tm_initialized = True, last_tick_time = 0,
       tick_overruns = 0\<rparr>"
    "g_hardware_interrupts s1 = (map irq_row [0..<16])[0 := (irq_row 0)\<lparr>hi_enabled := True\<rparr>]"
    using interrupt_init_spec [of img s] start by auto
  have i: "sched_inv s1 rs zs" using inv sched_inv_truncate(1) [OF s1(2)] by simp
  have h: "handlers (interrupt_mgr s1) ! unat IRQ_TIMER = TIMER_HANDLER" using s1(1) by (simp add: boot_handler_def)
  have c: "hi_count (g_hardware_interrupts s1 ! 0) = 0" "g_hardware_interrupts s1 \<noteq> []"
    by (simp_all add: s1(4) irq_row_def irq_data_def del: upt_rec_numeral)
  have u: "ucast ((1000 :: u32) div 1000) = (1 :: u64)" unfolding div_1000 by simp
  obtain s2 rs' zs' where "timer_interrupts is_enabled ext n s1 = Some s2" "sched_inv s2 rs' zs'" "current_thread s2 = current_thread s1"
    "interrupt_mgr s2 = interrupt_mgr s1" "tm_ticks (g_timer_manager s2) = of_nat n"
    "milliseconds (g_timer_manager s2) = tm_ticks (g_timer_manager s2)"
    "seconds (g_timer_manager s2) = milliseconds (g_timer_manager s2) div 1000" "hi_count (g_hardware_interrupts s2 ! 0) = of_nat n"
    using timer_interrupts_spec [OF i _ _ h _ _ c(2), of 1000 is_enabled ext n] c(1) unfolding u by (auto simp: s1(3))
  then show ?thesis using sched_inv_truncate(2) [OF s1(2)]
    by (intro exI [of _ s2] exI [of _ rs'] exI [of _ zs'])
      (simp add: timer_get_ticks_def timer_get_uptime_ms_def timer_get_uptime_sec_def)
qed

text \<open>For the example \<^verbatim>\<open>scheduler_is_enabled\<close> answers the scheduler's own flag, and no other handler is registered.\<close>

theorem timer_interrupts_correct_witness:
  "\<exists>s1 s2. interrupt_init img_small intr_small = Some (0, s1) \<and>
    timer_interrupts scheduler_enabled (\<lambda>_ _ _ _. Some) 2500 s1 = Some s2 \<and> timer_get_uptime_ms s2 = 2500 \<and>
    timer_get_uptime_sec s2 = 2500 div 1000 \<and> current_thread s2 = 0x1000"
proof -
  obtain s1 where s1: "interrupt_init img_small intr_small = Some (0, s1)"
    using interrupt_init_spec [of img_small intr_small] by blast
  from timer_interrupts_correct [OF intr_small_ok(1) s1, of scheduler_enabled "\<lambda>_ _ _ _. Some" 2500] s1
  show ?thesis by (auto simp: intr_small_ok(4))
qed

text \<open>
  C16: \<^verbatim>\<open>timer_sleep_ms\<close>, with one timer interrupt arriving per turn of its waiting loop, returns: it lasts exactly as many timer
  interrupts as milliseconds were asked for, and the uptime has then grown by that many, also when
  the clock wraps around.
\<close>

theorem timer_sleep_ms_correct:
  assumes inv: "sched_inv s rs zs" and f: "frequency (g_timer_manager s) = 1000"
    and h: "handlers (interrupt_mgr s) ! unat IRQ_TIMER = TIMER_HANDLER"
    and ms: "milliseconds (g_timer_manager s) = tm_ticks (g_timer_manager s)"
    and hw: "seconds (g_timer_manager s) = milliseconds (g_timer_manager s) div 1000" "g_hardware_interrupts s \<noteq> []"
  shows "\<exists>s'. timer_sleep_ms (interrupt_common_handler is_enabled ext IRQ_TIMER 0 zero_cpu) n s = Some s' \<and>
    timer_interrupts is_enabled ext (unat n) s = Some s' \<and> timer_get_uptime_ms s' = timer_get_uptime_ms s + ucast n"
proof -
  have "unat (ucast n :: u64) = 0 + unat n" using unat_less_2p [of n] by (simp add: unsigned_ucast_eq take_bit_nat_eq_self)
  then have e: "timer_sleep_ms (interrupt_common_handler is_enabled ext IRQ_TIMER 0 zero_cpu) n s = timer_interrupts is_enabled ext (unat n) s"
    unfolding timer_sleep_ms_def Let_def
    by (intro sleep_spin_interrupts [OF inv f h ms, where k = 0]) (simp_all add: timer_get_uptime_ms_def ms)
  have u: "ucast ((1000 :: u32) div 1000) = (1 :: u64)" unfolding div_1000 by simp
  have n: "of_nat (unat n) = (ucast n :: u64)" by simp
  obtain s' where "timer_interrupts is_enabled ext (unat n) s = Some s'"
    "tm_ticks (g_timer_manager s') = tm_ticks (g_timer_manager s) + ucast n"
    "milliseconds (g_timer_manager s') = tm_ticks (g_timer_manager s')"
    using timer_interrupts_spec [OF inv f _ h _ hw, of is_enabled ext "unat n"] ms unfolding u n by auto
  then show ?thesis using e ms by (intro exI [of _ s']) (simp add: timer_get_uptime_ms_def)
qed

theorem timer_sleep_ms_correct_witness:
  "\<exists>s1 s2. interrupt_init img_small intr_small = Some (0, s1) \<and>
    timer_sleep_ms (interrupt_common_handler scheduler_enabled (\<lambda>_ _ _ _. Some) IRQ_TIMER 0 zero_cpu) 250 s1 = Some s2 \<and>
    timer_get_uptime_ms s2 = 250"
proof -
  obtain s1 where s1: "interrupt_init img_small intr_small = Some (0, s1)" "\<forall>v. handlers (interrupt_mgr s1) ! unat v = boot_handler v"
    "g_timer_manager s1 = \<lparr>tm_ticks = 0, milliseconds = 0, seconds = 0, frequency = 1000, tm_initialized = True, last_tick_time = 0,
       tick_overruns = 0\<rparr>"
    "g_hardware_interrupts s1 = (map irq_row [0..<16])[0 := (irq_row 0)\<lparr>hi_enabled := True\<rparr>]"
    "sched.truncate s1 = sched.truncate intr_small"
    using interrupt_init_spec [of img_small intr_small] by blast
  have i: "sched_inv s1 [0x2000] [0x3000, 0x4000]" using intr_small_ok(1) sched_inv_truncate(1) [OF s1(5)] by simp
  have h: "handlers (interrupt_mgr s1) ! unat IRQ_TIMER = TIMER_HANDLER" using s1(2) by (simp add: boot_handler_def)
  have "g_hardware_interrupts s1 \<noteq> []" by (simp add: s1(4) del: upt_rec_numeral)
  from timer_sleep_ms_correct [OF i _ h _ _ this, of scheduler_enabled "\<lambda>_ _ _ _. Some" 250] s1(1)
  show ?thesis by (auto simp: s1(3) timer_get_uptime_ms_def)
qed

text \<open>
  C17: a critical section entered with interrupts on and nothing disabled runs with interrupts off, and leaving it turns them on
  again with the interrupt manager exactly as before; entered with interrupts off, it leaves them off. (Sections inside one
  another are not balanced: \<open>nested_critical_section_stuck\<close>.)
\<close>

theorem critical_section_correct:
  assumes c: "disabled_count (interrupt_mgr s) = 0" and enter: "critical_section_enter s = (state, s1)"
  shows "\<not> interrupts_enabled s1 \<and> interrupts_enabled (critical_section_exit state s1) = interrupts_enabled s \<and>
    (interrupts_enabled s \<longrightarrow> interrupt_mgr (critical_section_exit state s1) = interrupt_mgr s)"
  using disable_restore_on [of s state s1] disable_restore_off [of s state s1] c enter
  unfolding critical_section_enter_def critical_section_exit_def by (cases "interrupts_enabled s") auto

theorem critical_section_correct_witness:
  "\<exists>state s1. critical_section_enter intr_small = (state, s1) \<and> \<not> interrupts_enabled s1 \<and>
    interrupts_enabled (critical_section_exit state s1)"
proof -
  obtain state s1 where e: "critical_section_enter intr_small = (state, s1)" by (cases "critical_section_enter intr_small")
  then show ?thesis using critical_section_correct [OF intr_small_ok(3) e] intr_small_ok(2) by auto
qed

end
