(* ===== verification/Device.thy ===== *)
theory Device
  imports Interrupt
begin

text \<open>
  The device framework, \<^verbatim>\<open>kernel/drivers/device.c\<close>: devices and drivers on two global lists, the life cycle of a device, its
  queue of requests and the counters of the manager.

  Devices, drivers and requests are records in typed stores. Names are the strings before the terminating
  zero. What the framework calls and the sources do not define is collected in an environment, the
  argument \<open>e\<close>: the functions of a driver and the completion callbacks, by address, the clock \<^verbatim>\<open>get_system_time_ms\<close> and the
  values of the error codes. A driver function may do anything to the state and need not return.
\<close>

unbundle bit_operations_syntax

section \<open>Data\<close>

datatype device_type =
    DEVICE_TYPE_UNKNOWN | DEVICE_TYPE_STORAGE | DEVICE_TYPE_NETWORK | DEVICE_TYPE_INPUT | DEVICE_TYPE_OUTPUT | DEVICE_TYPE_AUDIO
  | DEVICE_TYPE_USB | DEVICE_TYPE_PCI | DEVICE_TYPE_SERIAL | DEVICE_TYPE_PARALLEL | DEVICE_TYPE_GRAPHICS | DEVICE_TYPE_SENSOR
  | DEVICE_TYPE_POWER | DEVICE_TYPE_THERMAL | DEVICE_TYPE_VIRTUAL | DEVICE_TYPE_MAX

fun type_index :: "device_type \<Rightarrow> nat" where
  "type_index DEVICE_TYPE_UNKNOWN = 0"
| "type_index DEVICE_TYPE_STORAGE = 1"
| "type_index DEVICE_TYPE_NETWORK = 2"
| "type_index DEVICE_TYPE_INPUT = 3"
| "type_index DEVICE_TYPE_OUTPUT = 4"
| "type_index DEVICE_TYPE_AUDIO = 5"
| "type_index DEVICE_TYPE_USB = 6"
| "type_index DEVICE_TYPE_PCI = 7"
| "type_index DEVICE_TYPE_SERIAL = 8"
| "type_index DEVICE_TYPE_PARALLEL = 9"
| "type_index DEVICE_TYPE_GRAPHICS = 10"
| "type_index DEVICE_TYPE_SENSOR = 11"
| "type_index DEVICE_TYPE_POWER = 12"
| "type_index DEVICE_TYPE_THERMAL = 13"
| "type_index DEVICE_TYPE_VIRTUAL = 14"
| "type_index DEVICE_TYPE_MAX = 15"

datatype device_state =
    DEVICE_STATE_UNKNOWN | DEVICE_STATE_INITIALIZING | DEVICE_STATE_READY | DEVICE_STATE_BUSY | DEVICE_STATE_ERROR
  | DEVICE_STATE_SUSPENDED | DEVICE_STATE_REMOVED | DEVICE_STATE_MAX

definition DEVICE_CAP_SUSPEND :: u32 where
  "DEVICE_CAP_SUSPEND = push_bit 6 1"

datatype device_io_type =
    DEVICE_IO_READ | DEVICE_IO_WRITE | DEVICE_IO_CONTROL | DEVICE_IO_CONFIG | DEVICE_IO_RESET | DEVICE_IO_DIAGNOSTIC | DEVICE_IO_MAX

datatype device_io_status =
    DEVICE_IO_PENDING | DEVICE_IO_SUCCESS | DEVICE_IO_ERROR | DEVICE_IO_TIMEOUT | DEVICE_IO_CANCELLED

record device_io_request =
  request_id :: u32
  io_type :: device_io_type
  io_status :: device_io_status
  io_device :: u64
  io_offset :: u64
  io_buffer :: u64
  io_size :: u64
  io_flags :: u32
  io_timestamp :: u64
  io_private_data :: u64
  io_callback :: u64
  io_next :: u64

definition zero_request :: device_io_request where
  "zero_request = \<lparr>request_id = 0, io_type = DEVICE_IO_READ, io_status = DEVICE_IO_PENDING, io_device = 0, io_offset = 0,
     io_buffer = 0, io_size = 0, io_flags = 0, io_timestamp = 0, io_private_data = 0, io_callback = 0, io_next = 0\<rparr>"

definition sizeof_request :: u64 where
  "sizeof_request = 88"

record device_stats =
  requests_total :: u64
  requests_read :: u64
  requests_write :: u64
  requests_control :: u64
  requests_successful :: u64
  requests_failed :: u64
  requests_timeout :: u64
  bytes_read :: u64
  bytes_written :: u64
  interrupts_received :: u64
  errors_total :: u64
  uptime_ms :: u64
  avg_request_time_us :: u32
  max_request_time_us :: u32

definition zero_device_stats :: device_stats where
  "zero_device_stats = \<lparr>requests_total = 0, requests_read = 0, requests_write = 0, requests_control = 0, requests_successful = 0,
     requests_failed = 0, requests_timeout = 0, bytes_read = 0, bytes_written = 0, interrupts_received = 0, errors_total = 0,
     uptime_ms = 0, avg_request_time_us = 0, max_request_time_us = 0\<rparr>"

record device_info =
  di_name :: string
  di_description :: string
  manufacturer :: string
  model :: string
  serial_number :: string
  firmware_version :: string
  di_vendor_id :: u32
  di_device_id :: u32
  di_revision :: u32
  di_class_code :: u32
  di_subclass_code :: u32

record device_config =
  base_address :: u32
  memory_mapped_base :: u32
  memory_size :: u64
  irq_line :: u8
  dma_channel :: u8
  clock_frequency :: u32
  max_transfer_size :: u32
  alignment_requirement :: u32
  timeout_ms :: u32
  retry_count :: u32

record device_driver_ops =
  op_probe :: u64
  op_init :: u64
  op_start :: u64
  op_stop :: u64
  op_reset :: u64
  op_suspend :: u64
  op_resume :: u64
  op_remove :: u64
  op_read :: u64
  op_write :: u64
  op_ioctl :: u64
  op_interrupt :: u64

record device_driver =
  drv_name :: string
  drv_version :: string
  drv_author :: string
  supported_types :: "device_type list"
  drv_flags :: u32
  drv_ops :: device_driver_ops
  drv_next :: u64
  drv_private :: u64
  reference_count :: u32
  loaded :: bool

record device =
  device_id :: u32
  dev_type :: device_type
  dev_state :: device_state
  capabilities :: u32
  dev_info :: device_info
  dev_config :: device_config
  dev_stats :: device_stats
  driver :: u64
  dev_parent :: u64
  dev_children :: u64
  next_sibling :: u64
  dev_next :: u64
  request_queue :: u64
  driver_data :: u64
  created_time :: u64
  last_access_time :: u64
  registered :: bool

record device_manager_stats =
  total_devices :: u32
  active_devices :: u32
  failed_devices :: u32
  suspended_devices :: u32
  total_drivers :: u32
  active_drivers :: u32
  total_requests :: u64
  pending_requests :: u64
  completed_requests :: u64
  failed_requests :: u64
  devices_by_type :: "u32 list"

definition zero_manager_stats :: device_manager_stats where
  "zero_manager_stats = \<lparr>total_devices = 0, active_devices = 0, failed_devices = 0, suspended_devices = 0, total_drivers = 0,
     active_drivers = 0, total_requests = 0, pending_requests = 0, completed_requests = 0, failed_requests = 0,
     devices_by_type = replicate 15 0\<rparr>"

record dev_sys = intr +
  devs :: "device store"
  drvs :: "device_driver store"
  reqs :: "device_io_request store"
  device_list :: u64
  driver_list :: u64
  dm_stats :: device_manager_stats
  next_device_id :: u32
  next_request_id :: u32
  dm_initialized :: bool

section \<open>The environment\<close>

datatype errno = ENOTINIT | EINVAL | EEXIST | EBUSY | ENOENT | ENODEV | ENOSYS | ENOMEM | EIO

datatype drv_arg = No_Arg | Request_Arg u64 | Ioctl_Arg u32 u64 | Vector_Arg u32

record 's dev_env =
  errno_code :: "errno \<Rightarrow> int"
  read_clock :: "'s \<Rightarrow> u64 \<times> 's"
  call_driver :: "u64 \<Rightarrow> u64 \<Rightarrow> drv_arg \<Rightarrow> 's \<Rightarrow> (int \<times> 's) option"
  call_back :: "u64 \<Rightarrow> u64 \<Rightarrow> 's \<Rightarrow> 's option"
  meanwhile :: "'s \<Rightarrow> 's option"

abbreviation err :: "'s dev_env \<Rightarrow> errno \<Rightarrow> int" where
  "err e n \<equiv> - errno_code e n"

section \<open>Access\<close>

definition upd_dev :: "u64 \<Rightarrow> (device \<Rightarrow> device) \<Rightarrow> 'a dev_sys_scheme \<Rightarrow> 'a dev_sys_scheme option" where
  "upd_dev d f s = do { dv \<leftarrow> devs s d; Some (s\<lparr>devs := (devs s)(d \<mapsto> f dv)\<rparr>) }"

definition upd_drv :: "u64 \<Rightarrow> (device_driver \<Rightarrow> device_driver) \<Rightarrow> 'a dev_sys_scheme \<Rightarrow> 'a dev_sys_scheme option" where
  "upd_drv d f s = do { dr \<leftarrow> drvs s d; Some (s\<lparr>drvs := (drvs s)(d \<mapsto> f dr)\<rparr>) }"

definition upd_req :: "u64 \<Rightarrow> (device_io_request \<Rightarrow> device_io_request) \<Rightarrow> 'a dev_sys_scheme \<Rightarrow> 'a dev_sys_scheme option" where
  "upd_req q f s = do { r \<leftarrow> reqs s q; Some (s\<lparr>reqs := (reqs s)(q \<mapsto> f r)\<rparr>) }"

abbreviation upd_stats :: "(device_manager_stats \<Rightarrow> device_manager_stats) \<Rightarrow> 'a dev_sys_scheme \<Rightarrow> 'a dev_sys_scheme" where
  "upd_stats f s \<equiv> s\<lparr>dm_stats := f (dm_stats s)\<rparr>"

text \<open>The test \<^verbatim>\<open>device->driver && device->driver->ops.op\<close>: the function's address, or 0.\<close>

definition driver_op :: "(device_driver_ops \<Rightarrow> u64) \<Rightarrow> u64 \<Rightarrow> 'a dev_sys_scheme \<Rightarrow> u64 option" where
  "driver_op sel d s = do {
     dv \<leftarrow> devs s d;
     if driver dv = 0 then Some 0 else do { dr \<leftarrow> drvs s (driver dv); Some (sel (drv_ops dr)) } }"

definition set_dev_next :: "u64 \<Rightarrow> device \<Rightarrow> device" where
  "set_dev_next v dv = dv\<lparr>dev_next := v\<rparr>"

definition set_drv_next :: "u64 \<Rightarrow> device_driver \<Rightarrow> device_driver" where
  "set_drv_next v dr = dr\<lparr>drv_next := v\<rparr>"

definition set_io_next :: "u64 \<Rightarrow> device_io_request \<Rightarrow> device_io_request" where
  "set_io_next v r = r\<lparr>io_next := v\<rparr>"

text \<open>The counter of a device type; an index past the array is a fault.\<close>

definition count_type :: "device_type \<Rightarrow> (u32 \<Rightarrow> u32) \<Rightarrow> 'a dev_sys_scheme \<Rightarrow> 'a dev_sys_scheme option" where
  "count_type t f s =
     (let st = dm_stats s; xs = devices_by_type st; i = type_index t in
      if i < length xs then Some (s\<lparr>dm_stats := st\<lparr>devices_by_type := xs[i := f (xs ! i)]\<rparr>\<rparr>) else None)"

section \<open>Validation and names\<close>

definition validate_device :: "'s dev_env \<Rightarrow> u64 \<Rightarrow> 'a dev_sys_scheme \<Rightarrow> int option" where
  "validate_device e d s =
     (if d = 0 then Some (err e EINVAL)
      else do {
        dv \<leftarrow> devs s d;
        if type_index (dev_type dv) \<ge> type_index DEVICE_TYPE_MAX then Some (err e EINVAL)
        else if length (di_name (dev_info dv)) = 0 then Some (err e EINVAL)
        else Some 0 })"

definition validate_driver :: "'s dev_env \<Rightarrow> u64 \<Rightarrow> 'a dev_sys_scheme \<Rightarrow> int option" where
  "validate_driver e d s =
     (if d = 0 then Some (err e EINVAL)
      else do {
        dr \<leftarrow> drvs s d;
        if length (drv_name dr) = 0 then Some (err e EINVAL)
        else if length (drv_version dr) = 0 then Some (err e EINVAL)
        else if op_probe (drv_ops dr) = 0 \<and> op_init (drv_ops dr) = 0 \<and> op_read (drv_ops dr) = 0 \<and>
                op_write (drv_ops dr) = 0 \<and> op_ioctl (drv_ops dr) = 0
        then Some (err e EINVAL)
        else Some 0 })"

definition device_type_names :: "string list" where
  "device_type_names = [''Unknown'', ''Storage'', ''Network'', ''Input'', ''Output'', ''Audio'', ''USB'', ''PCI'', ''Serial'',
     ''Parallel'', ''Graphics'', ''Sensor'', ''Power'', ''Thermal'', ''Virtual'']"

definition device_type_to_string :: "device_type \<Rightarrow> string" where
  "device_type_to_string t =
     (if type_index t \<ge> type_index DEVICE_TYPE_MAX then ''Invalid'' else device_type_names ! type_index t)"

fun device_state_to_string :: "device_state \<Rightarrow> string" where
  "device_state_to_string DEVICE_STATE_UNKNOWN = ''Unknown''"
| "device_state_to_string DEVICE_STATE_INITIALIZING = ''Initializing''"
| "device_state_to_string DEVICE_STATE_READY = ''Ready''"
| "device_state_to_string DEVICE_STATE_BUSY = ''Busy''"
| "device_state_to_string DEVICE_STATE_ERROR = ''Error''"
| "device_state_to_string DEVICE_STATE_SUSPENDED = ''Suspended''"
| "device_state_to_string DEVICE_STATE_REMOVED = ''Removed''"
| "device_state_to_string DEVICE_STATE_MAX = ''Invalid''"

section \<open>Drivers\<close>

definition device_init :: "'a dev_sys_scheme \<Rightarrow> int \<times> 'a dev_sys_scheme" where
  "device_init s =
     (if dm_initialized s then (0, s)
      else (0, s\<lparr>device_list := 0, driver_list := 0, dm_stats := zero_manager_stats, next_device_id := 1, next_request_id := 1,
                 dm_initialized := True\<rparr>))"

definition device_driver_find :: "string option \<Rightarrow> 'a dev_sys_scheme \<Rightarrow> u64 option" where
  "device_driver_find name s =
     (case name of
        None \<Rightarrow> Some 0
      | Some nm \<Rightarrow> if \<not> dm_initialized s then Some 0
                  else chain_find drv_next (\<lambda>_ dr. drv_name dr = nm) (drvs s) (driver_list s))"

definition device_driver_register :: "'s dev_env \<Rightarrow> u64 \<Rightarrow> 'a dev_sys_scheme \<Rightarrow> (int \<times> 'a dev_sys_scheme) option" where
  "device_driver_register e d s =
     (if \<not> dm_initialized s then Some (err e ENOTINIT, s)
      else do {
        v \<leftarrow> validate_driver e d s;
        if d = 0 \<or> v \<noteq> 0 then Some (err e EINVAL, s)
        else do {
          dr \<leftarrow> drvs s d;
          old \<leftarrow> device_driver_find (Some (drv_name dr)) s;
          if old \<noteq> 0 then Some (err e EEXIST, s)
          else do {
            s \<leftarrow> upd_drv d (set_drv_next (driver_list s)) s;
            let s = s\<lparr>driver_list := d\<rparr>;
            s \<leftarrow> upd_drv d (\<lambda>dr. dr\<lparr>loaded := True, reference_count := 0\<rparr>) s;
            let s = upd_stats (\<lambda>st. st\<lparr>total_drivers := total_drivers st + 1, active_drivers := active_drivers st + 1\<rparr>) s;
            Some (0, s) } } })"

definition device_driver_unregister :: "'s dev_env \<Rightarrow> u64 \<Rightarrow> 'a dev_sys_scheme \<Rightarrow> (int \<times> 'a dev_sys_scheme) option" where
  "device_driver_unregister e d s =
     (if \<not> dm_initialized s \<or> d = 0 then Some (err e EINVAL, s)
      else do {
        dr \<leftarrow> drvs s d;
        if reference_count dr > 0 then Some (err e EBUSY, s)
        else do {
          found \<leftarrow> chain_find drv_next (\<lambda>a _. a = d) (drvs s) (driver_list s);
          if found = 0 then Some (err e ENOENT, s)
          else do {
            (l, h) \<leftarrow> unlink drv_next set_drv_next d (drvs s) (driver_list s);
            let s = s\<lparr>driver_list := l, drvs := h\<rparr>;
            s \<leftarrow> upd_drv d (\<lambda>dr. dr\<lparr>loaded := False\<rparr>) s;
            let s = upd_stats (\<lambda>st. st\<lparr>active_drivers := active_drivers st - 1\<rparr>) s;
            Some (0, s) } } })"

section \<open>The life cycle of a device\<close>

definition device_start :: "'a dev_sys_scheme dev_env \<Rightarrow> u64 \<Rightarrow> 'a dev_sys_scheme \<Rightarrow> (int \<times> 'a dev_sys_scheme) option" where
  "device_start e d s =
     (if d = 0 then Some (err e EINVAL, s)
      else do {
        dv \<leftarrow> devs s d;
        if \<not> registered dv then Some (err e EINVAL, s)
        else if dev_state dv = DEVICE_STATE_READY then Some (0, s)
        else if dev_state dv \<noteq> DEVICE_STATE_READY \<and> dev_state dv \<noteq> DEVICE_STATE_SUSPENDED then Some (err e EINVAL, s)
        else do {
          f \<leftarrow> driver_op op_start d s;
          if f = 0 then Some (err e ENOSYS, s)
          else do {
            (r, s) \<leftarrow> call_driver e f d No_Arg s;
            if r = 0 then do {
              s \<leftarrow> upd_dev d (\<lambda>dv. dv\<lparr>dev_state := DEVICE_STATE_READY\<rparr>) s;
              Some (r, upd_stats (\<lambda>st. st\<lparr>active_devices := active_devices st + 1\<rparr>) s) }
            else do {
              s \<leftarrow> upd_dev d (\<lambda>dv. dv\<lparr>dev_state := DEVICE_STATE_ERROR\<rparr>) s;
              Some (r, upd_stats (\<lambda>st. st\<lparr>failed_devices := failed_devices st + 1\<rparr>) s) } } } })"

text \<open>The guarded decrement of a counter of the manager.\<close>

definition dec :: "('w::len) word \<Rightarrow> 'w word" where
  "dec n = (if n > 0 then n - 1 else n)"

definition device_stop :: "'a dev_sys_scheme dev_env \<Rightarrow> u64 \<Rightarrow> 'a dev_sys_scheme \<Rightarrow> (int \<times> 'a dev_sys_scheme) option" where
  "device_stop e d s =
     (if d = 0 then Some (err e EINVAL, s)
      else do {
        dv \<leftarrow> devs s d;
        if \<not> registered dv then Some (err e EINVAL, s)
        else if dev_state dv \<noteq> DEVICE_STATE_READY \<and> dev_state dv \<noteq> DEVICE_STATE_BUSY then Some (0, s)
        else do {
          f \<leftarrow> driver_op op_stop d s;
          if f = 0 then Some (err e ENOSYS, s)
          else do {
            (r, s) \<leftarrow> call_driver e f d No_Arg s;
            if r = 0 then do {
              s \<leftarrow> upd_dev d (\<lambda>dv. dv\<lparr>dev_state := DEVICE_STATE_SUSPENDED\<rparr>) s;
              let s = upd_stats (\<lambda>st. st\<lparr>active_devices := dec (active_devices st)\<rparr>) s;
              Some (r, upd_stats (\<lambda>st. st\<lparr>suspended_devices := suspended_devices st + 1\<rparr>) s) }
            else Some (r, s) } } })"

definition device_reset :: "'a dev_sys_scheme dev_env \<Rightarrow> u64 \<Rightarrow> 'a dev_sys_scheme \<Rightarrow> (int \<times> 'a dev_sys_scheme) option" where
  "device_reset e d s =
     (if d = 0 then Some (err e EINVAL, s)
      else do {
        dv \<leftarrow> devs s d;
        if \<not> registered dv then Some (err e EINVAL, s)
        else do {
          f \<leftarrow> driver_op op_reset d s;
          if f = 0 then Some (err e ENOSYS, s)
          else do {
            (r, s) \<leftarrow> call_driver e f d No_Arg s;
            s \<leftarrow> upd_dev d (\<lambda>dv. dv\<lparr>dev_state := (if r = 0 then DEVICE_STATE_READY else DEVICE_STATE_ERROR)\<rparr>) s;
            Some (r, s) } } })"

definition device_suspend :: "'a dev_sys_scheme dev_env \<Rightarrow> u64 \<Rightarrow> 'a dev_sys_scheme \<Rightarrow> (int \<times> 'a dev_sys_scheme) option" where
  "device_suspend e d s =
     (if d = 0 then Some (err e EINVAL, s)
      else do {
        dv \<leftarrow> devs s d;
        if \<not> registered dv then Some (err e EINVAL, s)
        else if dev_state dv = DEVICE_STATE_SUSPENDED then Some (0, s)
        else if capabilities dv AND DEVICE_CAP_SUSPEND = 0 then Some (err e ENOSYS, s)
        else do {
          f \<leftarrow> driver_op op_suspend d s;
          if f = 0 then Some (err e ENOSYS, s)
          else do {
            (r, s) \<leftarrow> call_driver e f d No_Arg s;
            if r = 0 then do {
              s \<leftarrow> upd_dev d (\<lambda>dv. dv\<lparr>dev_state := DEVICE_STATE_SUSPENDED\<rparr>) s;
              let s = upd_stats (\<lambda>st. st\<lparr>active_devices := dec (active_devices st)\<rparr>) s;
              Some (r, upd_stats (\<lambda>st. st\<lparr>suspended_devices := suspended_devices st + 1\<rparr>) s) }
            else Some (r, s) } } })"

definition device_resume :: "'a dev_sys_scheme dev_env \<Rightarrow> u64 \<Rightarrow> 'a dev_sys_scheme \<Rightarrow> (int \<times> 'a dev_sys_scheme) option" where
  "device_resume e d s =
     (if d = 0 then Some (err e EINVAL, s)
      else do {
        dv \<leftarrow> devs s d;
        if \<not> registered dv then Some (err e EINVAL, s)
        else if dev_state dv \<noteq> DEVICE_STATE_SUSPENDED then Some (err e EINVAL, s)
        else do {
          f \<leftarrow> driver_op op_resume d s;
          if f = 0 then Some (err e ENOSYS, s)
          else do {
            (r, s) \<leftarrow> call_driver e f d No_Arg s;
            if r = 0 then do {
              s \<leftarrow> upd_dev d (\<lambda>dv. dv\<lparr>dev_state := DEVICE_STATE_READY\<rparr>) s;
              let s = upd_stats (\<lambda>st. st\<lparr>active_devices := active_devices st + 1\<rparr>) s;
              Some (r, upd_stats (\<lambda>st. st\<lparr>suspended_devices := dec (suspended_devices st)\<rparr>) s) }
            else Some (r, s) } } })"

section \<open>Registration\<close>

definition device_register :: "'a dev_sys_scheme dev_env \<Rightarrow> u64 \<Rightarrow> 'a dev_sys_scheme \<Rightarrow> (int \<times> 'a dev_sys_scheme) option" where
  "device_register e d s =
     (if \<not> dm_initialized s then Some (err e ENOTINIT, s)
      else do {
        v \<leftarrow> validate_device e d s;
        if d = 0 \<or> v \<noteq> 0 then Some (err e EINVAL, s)
        else do {
          dv \<leftarrow> devs s d;
          if registered dv then Some (err e EEXIST, s)
          else do {
            s \<leftarrow> upd_dev d (\<lambda>dv. dv\<lparr>device_id := next_device_id s\<rparr>) s;
            let s = s\<lparr>next_device_id := next_device_id s + 1\<rparr>;
            let (now, s) = read_clock e s;
            s \<leftarrow> upd_dev d (\<lambda>dv. dv\<lparr>created_time := now, last_access_time := now, dev_state := DEVICE_STATE_INITIALIZING,
                                   dev_stats := zero_device_stats\<rparr>) s;
            s \<leftarrow> upd_dev d (set_dev_next (device_list s)) s;
            let s = s\<lparr>device_list := d\<rparr>;
            s \<leftarrow> upd_dev d (\<lambda>dv. dv\<lparr>registered := True\<rparr>) s;
            let s = upd_stats (\<lambda>st. st\<lparr>total_devices := total_devices st + 1\<rparr>) s;
            dv \<leftarrow> devs s d;
            s \<leftarrow> count_type (dev_type dv) (\<lambda>n. n + 1) s;
            f \<leftarrow> driver_op op_init d s;
            if f = 0 then Some (0, s)
            else do {
              (r, s) \<leftarrow> call_driver e f d No_Arg s;
              if r = 0 then do {
                s \<leftarrow> upd_dev d (\<lambda>dv. dv\<lparr>dev_state := DEVICE_STATE_READY\<rparr>) s;
                Some (0, upd_stats (\<lambda>st. st\<lparr>active_devices := active_devices st + 1\<rparr>) s) }
              else do {
                s \<leftarrow> upd_dev d (\<lambda>dv. dv\<lparr>dev_state := DEVICE_STATE_ERROR\<rparr>) s;
                Some (0, upd_stats (\<lambda>st. st\<lparr>failed_devices := failed_devices st + 1\<rparr>) s) } } } } })"

text \<open>The call of the driver's \<^verbatim>\<open>remove\<close>, with the reference count.\<close>

definition driver_remove :: "'a dev_sys_scheme dev_env \<Rightarrow> u64 \<Rightarrow> 'a dev_sys_scheme \<Rightarrow> 'a dev_sys_scheme option" where
  "driver_remove e d s = do {
     f \<leftarrow> driver_op op_remove d s;
     if f = 0 then Some s
     else do {
       (r, s) \<leftarrow> call_driver e f d No_Arg s;
       dv \<leftarrow> devs s d;
       upd_drv (driver dv) (\<lambda>dr. dr\<lparr>reference_count := reference_count dr - 1\<rparr>) s } }"

definition device_unregister :: "'a dev_sys_scheme dev_env \<Rightarrow> u64 \<Rightarrow> 'a dev_sys_scheme \<Rightarrow> (int \<times> 'a dev_sys_scheme) option" where
  "device_unregister e d s =
     (if \<not> dm_initialized s \<or> d = 0 then Some (err e EINVAL, s)
      else do {
        dv \<leftarrow> devs s d;
        if \<not> registered dv then Some (err e EINVAL, s)
        else do {
          s \<leftarrow> (if dev_state dv = DEVICE_STATE_READY \<or> dev_state dv = DEVICE_STATE_BUSY
               then do { (r, s) \<leftarrow> device_stop e d s; Some s } else Some s);
          s \<leftarrow> driver_remove e d s;
          found \<leftarrow> chain_find dev_next (\<lambda>a _. a = d) (devs s) (device_list s);
          if found = 0 then Some (err e ENOENT, s)
          else do {
            (l, h) \<leftarrow> unlink dev_next set_dev_next d (devs s) (device_list s);
            let s = s\<lparr>device_list := l, devs := h\<rparr>;
            s \<leftarrow> upd_dev d (\<lambda>dv. dv\<lparr>registered := False, dev_state := DEVICE_STATE_REMOVED\<rparr>) s;
            let s = upd_stats (\<lambda>st. st\<lparr>total_devices := total_devices st - 1\<rparr>) s;
            dv \<leftarrow> devs s d;
            s \<leftarrow> count_type (dev_type dv) (\<lambda>n. n - 1) s;
            let s = (if dev_state dv = DEVICE_STATE_READY then upd_stats (\<lambda>st. st\<lparr>active_devices := active_devices st - 1\<rparr>) s
                     else if dev_state dv = DEVICE_STATE_ERROR then upd_stats (\<lambda>st. st\<lparr>failed_devices := failed_devices st - 1\<rparr>) s
                     else s);
            Some (0, s) } } })"

text \<open>The two loops of \<^verbatim>\<open>device_shutdown\<close>; each reads the successor before it removes the node.\<close>

partial_function (option) shutdown_devices :: "'a dev_sys_scheme dev_env \<Rightarrow> u64 \<Rightarrow> 'a dev_sys_scheme \<Rightarrow> 'a dev_sys_scheme option" where
  "shutdown_devices e d s =
     (if d = 0 then Some s
      else do {
        dv \<leftarrow> devs s d;
        (_, s) \<leftarrow> device_stop e d s;
        (_, s) \<leftarrow> device_unregister e d s;
        shutdown_devices e (dev_next dv) s })"

partial_function (option) shutdown_drivers :: "'s dev_env \<Rightarrow> u64 \<Rightarrow> 'a dev_sys_scheme \<Rightarrow> 'a dev_sys_scheme option" where
  "shutdown_drivers e d s =
     (if d = 0 then Some s
      else do {
        dr \<leftarrow> drvs s d;
        (_, s) \<leftarrow> device_driver_unregister e d s;
        shutdown_drivers e (drv_next dr) s })"

definition device_shutdown :: "'a dev_sys_scheme dev_env \<Rightarrow> 'a dev_sys_scheme \<Rightarrow> 'a dev_sys_scheme option" where
  "device_shutdown e s =
     (if \<not> dm_initialized s then Some s
      else do {
        s \<leftarrow> shutdown_devices e (device_list s) s;
        s \<leftarrow> shutdown_drivers e (driver_list s) s;
        Some (s\<lparr>dm_initialized := False\<rparr>) })"

section \<open>Queries\<close>

definition device_find_by_id :: "u32 \<Rightarrow> 'a dev_sys_scheme \<Rightarrow> u64 option" where
  "device_find_by_id i s =
     (if \<not> dm_initialized s then Some 0
      else chain_find dev_next (\<lambda>_ dv. device_id dv = i) (devs s) (device_list s))"

partial_function (option) find_by_type_loop ::
    "device_type \<Rightarrow> u64 \<Rightarrow> u32 \<Rightarrow> u64 \<Rightarrow> u32 \<Rightarrow> 'a dev_sys_scheme \<Rightarrow> (u32 \<times> 'a dev_sys_scheme) option" where
  "find_by_type_loop t devices max_devices d count s =
     (if d = 0 \<or> \<not> count < max_devices then Some (count, s)
      else do {
        dv \<leftarrow> devs s d;
        let (count, s) = (if dev_type dv = t
          then (count + 1, s\<lparr>memory := store64 (devices + 8 * ucast count) d (memory s)\<rparr>) else (count, s));
        find_by_type_loop t devices max_devices (dev_next dv) count s })"

definition device_find_by_type :: "device_type \<Rightarrow> u64 \<Rightarrow> u32 \<Rightarrow> 'a dev_sys_scheme \<Rightarrow> (u32 \<times> 'a dev_sys_scheme) option" where
  "device_find_by_type t devices max_devices s =
     (if \<not> dm_initialized s \<or> devices = 0 \<or> max_devices = 0 then Some (0, s)
      else find_by_type_loop t devices max_devices (device_list s) 0 s)"

text \<open>The pointers into a device that the next two return are read as the structures they point to.\<close>

definition device_get_info :: "'a dev_sys_scheme dev_env \<Rightarrow> u64 \<Rightarrow> 'a dev_sys_scheme \<Rightarrow> (device_info option \<times> 'a dev_sys_scheme) option" where
  "device_get_info e d s =
     (if d = 0 then Some (None, s)
      else do {
        let (now, s) = read_clock e s;
        s \<leftarrow> upd_dev d (\<lambda>dv. dv\<lparr>last_access_time := now\<rparr>) s;
        dv \<leftarrow> devs s d;
        Some (Some (dev_info dv), s) })"

definition device_get_stats :: "'a dev_sys_scheme dev_env \<Rightarrow> u64 \<Rightarrow> 'a dev_sys_scheme \<Rightarrow> (device_stats option \<times> 'a dev_sys_scheme) option" where
  "device_get_stats e d s =
     (if d = 0 then Some (None, s)
      else do {
        let (now, s) = read_clock e s;
        s \<leftarrow> upd_dev d (\<lambda>dv. dv\<lparr>dev_stats := (dev_stats dv)\<lparr>uptime_ms := now - created_time dv\<rparr>\<rparr>) s;
        let (now, s) = read_clock e s;
        s \<leftarrow> upd_dev d (\<lambda>dv. dv\<lparr>last_access_time := now\<rparr>) s;
        dv \<leftarrow> devs s d;
        Some (Some (dev_stats dv), s) })"

definition device_get_manager_stats :: "'a dev_sys_scheme \<Rightarrow> device_manager_stats option" where
  "device_get_manager_stats s = (if \<not> dm_initialized s then None else Some (dm_stats s))"

definition device_reset_stats :: "u64 \<Rightarrow> 'a dev_sys_scheme \<Rightarrow> 'a dev_sys_scheme option" where
  "device_reset_stats d s = (if d = 0 then Some s else upd_dev d (\<lambda>dv. dv\<lparr>dev_stats := zero_device_stats\<rparr>) s)"

definition device_get_state :: "'a dev_sys_scheme dev_env \<Rightarrow> u64 \<Rightarrow> 'a dev_sys_scheme \<Rightarrow> (device_state \<times> 'a dev_sys_scheme) option" where
  "device_get_state e d s =
     (if d = 0 then Some (DEVICE_STATE_UNKNOWN, s)
      else do {
        let (now, s) = read_clock e s;
        s \<leftarrow> upd_dev d (\<lambda>dv. dv\<lparr>last_access_time := now\<rparr>) s;
        dv \<leftarrow> devs s d;
        Some (dev_state dv, s) })"

definition device_has_capability :: "u64 \<Rightarrow> u32 \<Rightarrow> 'a dev_sys_scheme \<Rightarrow> bool option" where
  "device_has_capability d c s = (if d = 0 then Some False else do { dv \<leftarrow> devs s d; Some (capabilities dv AND c \<noteq> 0) })"

text \<open>The counters of the manager when a device goes from one state to another.\<close>

definition count_states :: "device_state \<Rightarrow> device_state \<Rightarrow> device_manager_stats \<Rightarrow> device_manager_stats" where
  "count_states old new st =
     (let st = (if old = DEVICE_STATE_READY \<and> new \<noteq> DEVICE_STATE_READY then st\<lparr>active_devices := dec (active_devices st)\<rparr>
                else if old \<noteq> DEVICE_STATE_READY \<and> new = DEVICE_STATE_READY then st\<lparr>active_devices := active_devices st + 1\<rparr>
                else st);
          st = (if new = DEVICE_STATE_ERROR then st\<lparr>failed_devices := failed_devices st + 1\<rparr>
                else if old = DEVICE_STATE_ERROR \<and> new \<noteq> DEVICE_STATE_ERROR then st\<lparr>failed_devices := dec (failed_devices st)\<rparr>
                else st)
      in (if new = DEVICE_STATE_SUSPENDED then st\<lparr>suspended_devices := suspended_devices st + 1\<rparr>
          else if old = DEVICE_STATE_SUSPENDED \<and> new \<noteq> DEVICE_STATE_SUSPENDED
          then st\<lparr>suspended_devices := dec (suspended_devices st)\<rparr>
          else st))"

definition device_set_state :: "'a dev_sys_scheme dev_env \<Rightarrow> u64 \<Rightarrow> device_state \<Rightarrow> 'a dev_sys_scheme \<Rightarrow> 'a dev_sys_scheme option" where
  "device_set_state e d new s =
     (if d = 0 \<or> new = DEVICE_STATE_MAX then Some s
      else do {
        dv \<leftarrow> devs s d;
        s \<leftarrow> upd_dev d (\<lambda>dv. dv\<lparr>dev_state := new\<rparr>) s;
        let (now, s) = read_clock e s;
        s \<leftarrow> upd_dev d (\<lambda>dv. dv\<lparr>last_access_time := now\<rparr>) s;
        Some (upd_stats (count_states (dev_state dv) new) s) })"

text \<open>\<^verbatim>\<open>device_enumerate\<close> with a callback of the caller; the successor is read after the callback.\<close>

partial_function (option) enumerate_loop ::
    "(u64 \<Rightarrow> 'a dev_sys_scheme \<Rightarrow> 'a dev_sys_scheme option) \<Rightarrow> u64 \<Rightarrow> 'a dev_sys_scheme \<Rightarrow> 'a dev_sys_scheme option" where
  "enumerate_loop f d s =
     (if d = 0 then Some s
      else do { s \<leftarrow> f d s; dv \<leftarrow> devs s d; enumerate_loop f (dev_next dv) s })"

definition device_enumerate ::
    "(u64 \<Rightarrow> 'a dev_sys_scheme \<Rightarrow> 'a dev_sys_scheme option) option \<Rightarrow> 'a dev_sys_scheme \<Rightarrow> 'a dev_sys_scheme option" where
  "device_enumerate cb s =
     (case cb of None \<Rightarrow> Some s | Some f \<Rightarrow> if \<not> dm_initialized s then Some s else enumerate_loop f (device_list s) s)"

section \<open>Requests\<close>

definition device_create_request :: "device_io_type \<Rightarrow> u64 \<Rightarrow> u64 \<Rightarrow> u64 \<Rightarrow> u64 \<Rightarrow> 'a dev_sys_scheme \<Rightarrow> (u64 \<times> 'a dev_sys_scheme) option" where
  "device_create_request ty off buf sz cb s = do {
     (q, s) \<leftarrow> kmalloc sizeof_request s;
     if q = 0 then Some (0, s)
     else do {
       let s = s\<lparr>memory := memset q 0 sizeof_request (memory s)\<rparr>;
       let r = zero_request\<lparr>io_type := ty, io_offset := off, io_buffer := buf, io_size := sz, io_callback := cb,
                           io_status := DEVICE_IO_PENDING\<rparr>;
       Some (q, s\<lparr>reqs := (reqs s)(q \<mapsto> r)\<rparr>) } }"

definition device_free_request :: "u64 \<Rightarrow> 'a dev_sys_scheme \<Rightarrow> 'a dev_sys_scheme option" where
  "device_free_request q s =
     (if q \<noteq> 0 then do { s \<leftarrow> kfree q s; Some (s\<lparr>reqs := (reqs s)(q := None)\<rparr>) } else Some s)"

text \<open>The statistics of a device after a request; the time is read after the counters are updated.\<close>

definition count_request :: "device_io_request \<Rightarrow> device_stats \<Rightarrow> device_stats" where
  "count_request r st =
     (let st = st\<lparr>requests_total := requests_total st + 1\<rparr>;
          st = (case io_type r of
                  DEVICE_IO_READ \<Rightarrow>
                    (let st = st\<lparr>requests_read := requests_read st + 1\<rparr> in
                     if io_status r = DEVICE_IO_SUCCESS then st\<lparr>bytes_read := bytes_read st + io_size r\<rparr> else st)
                | DEVICE_IO_WRITE \<Rightarrow>
                    (let st = st\<lparr>requests_write := requests_write st + 1\<rparr> in
                     if io_status r = DEVICE_IO_SUCCESS then st\<lparr>bytes_written := bytes_written st + io_size r\<rparr> else st)
                | DEVICE_IO_CONTROL \<Rightarrow> st\<lparr>requests_control := requests_control st + 1\<rparr>
                | _ \<Rightarrow> st);
          st = (if io_status r = DEVICE_IO_SUCCESS then st\<lparr>requests_successful := requests_successful st + 1\<rparr>
                else st\<lparr>requests_failed := requests_failed st + 1, errors_total := errors_total st + 1\<rparr>)
      in (if io_status r = DEVICE_IO_TIMEOUT then st\<lparr>requests_timeout := requests_timeout st + 1\<rparr> else st))"

definition time_request :: "u64 \<Rightarrow> device_io_request \<Rightarrow> device_stats \<Rightarrow> device_stats" where
  "time_request now r st =
     (let request_time = now - io_timestamp r;
          us = ucast (request_time * 1000) :: u32;
          st = (if us > max_request_time_us st then st\<lparr>max_request_time_us := us\<rparr> else st)
      in (if requests_total st = 1 then st\<lparr>avg_request_time_us := us\<rparr>
          else st\<lparr>avg_request_time_us := (avg_request_time_us st + us) div 2\<rparr>))"

definition update_device_stats :: "'a dev_sys_scheme dev_env \<Rightarrow> u64 \<Rightarrow> u64 \<Rightarrow> 'a dev_sys_scheme \<Rightarrow> 'a dev_sys_scheme option" where
  "update_device_stats e d q s =
     (if d = 0 \<or> q = 0 then Some s
      else do {
        r \<leftarrow> reqs s q;
        s \<leftarrow> upd_dev d (\<lambda>dv. dv\<lparr>dev_stats := count_request r (dev_stats dv)\<rparr>) s;
        let (now, s) = read_clock e s;
        r \<leftarrow> reqs s q;
        upd_dev d (\<lambda>dv. dv\<lparr>dev_stats := time_request now r (dev_stats dv)\<rparr>) s })"

definition complete_request :: "'a dev_sys_scheme dev_env \<Rightarrow> u64 \<Rightarrow> device_io_status \<Rightarrow> 'a dev_sys_scheme \<Rightarrow> 'a dev_sys_scheme option" where
  "complete_request e q status s =
     (if q = 0 then Some s
      else do {
        s \<leftarrow> upd_req q (\<lambda>r. r\<lparr>io_status := status\<rparr>) s;
        r \<leftarrow> reqs s q;
        s \<leftarrow> (if io_device r \<noteq> 0 then update_device_stats e (io_device r) q s else Some s);
        let s = upd_stats (\<lambda>st. st\<lparr>pending_requests := dec (pending_requests st)\<rparr>) s;
        let s = upd_stats (\<lambda>st. st\<lparr>completed_requests := completed_requests st + 1\<rparr>) s;
        let s = (if status \<noteq> DEVICE_IO_SUCCESS then upd_stats (\<lambda>st. st\<lparr>failed_requests := failed_requests st + 1\<rparr>) s else s);
        r \<leftarrow> reqs s q;
        if io_callback r \<noteq> 0 then call_back e (io_callback r) q s else Some s })"

definition dispatch_request :: "'a dev_sys_scheme dev_env \<Rightarrow> u64 \<Rightarrow> u64 \<Rightarrow> 'a dev_sys_scheme \<Rightarrow> (int \<times> 'a dev_sys_scheme) option" where
  "dispatch_request e d q s = do {
     r \<leftarrow> reqs s q;
     (case io_type r of
        DEVICE_IO_READ \<Rightarrow> do {
          f \<leftarrow> driver_op op_read d s;
          if f \<noteq> 0 then call_driver e f d (Request_Arg q) s else Some (err e ENOSYS, s) }
      | DEVICE_IO_WRITE \<Rightarrow> do {
          f \<leftarrow> driver_op op_write d s;
          if f \<noteq> 0 then call_driver e f d (Request_Arg q) s else Some (err e ENOSYS, s) }
      | DEVICE_IO_CONTROL \<Rightarrow> do {
          f \<leftarrow> driver_op op_ioctl d s;
          if f \<noteq> 0 then call_driver e f d (Ioctl_Arg (ucast (io_buffer r)) (io_private_data r)) s
          else Some (err e ENOSYS, s) }
      | _ \<Rightarrow> Some (err e EINVAL, s)) }"

definition device_submit_request :: "'a dev_sys_scheme dev_env \<Rightarrow> u64 \<Rightarrow> u64 \<Rightarrow> 'a dev_sys_scheme \<Rightarrow> (int \<times> 'a dev_sys_scheme) option" where
  "device_submit_request e d q s =
     (if d = 0 \<or> q = 0 then Some (err e EINVAL, s)
      else do {
        dv \<leftarrow> devs s d;
        if \<not> registered dv then Some (err e EINVAL, s)
        else if dev_state dv \<noteq> DEVICE_STATE_READY then Some (err e ENODEV, s)
        else do {
          s \<leftarrow> upd_req q (\<lambda>r. r\<lparr>request_id := next_request_id s\<rparr>) s;
          let s = s\<lparr>next_request_id := next_request_id s + 1\<rparr>;
          s \<leftarrow> upd_req q (\<lambda>r. r\<lparr>io_device := d, io_status := DEVICE_IO_PENDING\<rparr>) s;
          let (now, s) = read_clock e s;
          s \<leftarrow> upd_req q (\<lambda>r. r\<lparr>io_timestamp := now\<rparr>) s;
          dv \<leftarrow> devs s d;
          s \<leftarrow> upd_req q (set_io_next (request_queue dv)) s;
          s \<leftarrow> upd_dev d (\<lambda>dv. dv\<lparr>request_queue := q\<rparr>) s;
          let s = upd_stats (\<lambda>st. st\<lparr>total_requests := total_requests st + 1, pending_requests := pending_requests st + 1\<rparr>) s;
          (r, s) \<leftarrow> dispatch_request e d q s;
          s \<leftarrow> (if r \<noteq> 0 then complete_request e q DEVICE_IO_ERROR s else Some s);
          Some (r, s) } })"

text \<open>The busy wait: what happens between two readings of the status is the environment's \<open>meanwhile\<close>.\<close>

partial_function (option) wait_completion :: "'a dev_sys_scheme dev_env \<Rightarrow> u64 \<Rightarrow> 'a dev_sys_scheme \<Rightarrow> 'a dev_sys_scheme option" where
  "wait_completion e q s = do {
     r \<leftarrow> reqs s q;
     if io_status r = DEVICE_IO_PENDING then do { s \<leftarrow> meanwhile e s; wait_completion e q s } else Some s }"

definition device_read :: "'a dev_sys_scheme dev_env \<Rightarrow> u64 \<Rightarrow> u64 \<Rightarrow> u64 \<Rightarrow> u64 \<Rightarrow> 'a dev_sys_scheme \<Rightarrow> (int \<times> 'a dev_sys_scheme) option" where
  "device_read e d off buf sz s =
     (if d = 0 \<or> buf = 0 \<or> sz = 0 then Some (err e EINVAL, s)
      else do {
        (q, s) \<leftarrow> device_create_request DEVICE_IO_READ off buf sz 0 s;
        if q = 0 then Some (err e ENOMEM, s)
        else do {
          (res, s) \<leftarrow> device_submit_request e d q s;
          if res \<noteq> 0 then do { s \<leftarrow> device_free_request q s; Some (res, s) }
          else do {
            s \<leftarrow> wait_completion e q s;
            r \<leftarrow> reqs s q;
            let n = (if io_status r = DEVICE_IO_SUCCESS then sint sz else err e EIO);
            s \<leftarrow> device_free_request q s;
            Some (n, s) } } })"

definition device_write :: "'a dev_sys_scheme dev_env \<Rightarrow> u64 \<Rightarrow> u64 \<Rightarrow> u64 \<Rightarrow> u64 \<Rightarrow> 'a dev_sys_scheme \<Rightarrow> (int \<times> 'a dev_sys_scheme) option" where
  "device_write e d off buf sz s =
     (if d = 0 \<or> buf = 0 \<or> sz = 0 then Some (err e EINVAL, s)
      else do {
        (q, s) \<leftarrow> device_create_request DEVICE_IO_WRITE off buf sz 0 s;
        if q = 0 then Some (err e ENOMEM, s)
        else do {
          (res, s) \<leftarrow> device_submit_request e d q s;
          if res \<noteq> 0 then do { s \<leftarrow> device_free_request q s; Some (res, s) }
          else do {
            s \<leftarrow> wait_completion e q s;
            r \<leftarrow> reqs s q;
            let n = (if io_status r = DEVICE_IO_SUCCESS then sint sz else err e EIO);
            s \<leftarrow> device_free_request q s;
            Some (n, s) } } })"

definition device_ioctl :: "'a dev_sys_scheme dev_env \<Rightarrow> u64 \<Rightarrow> u32 \<Rightarrow> u64 \<Rightarrow> 'a dev_sys_scheme \<Rightarrow> (int \<times> 'a dev_sys_scheme) option" where
  "device_ioctl e d cmd arg s =
     (if d = 0 then Some (err e EINVAL, s)
      else do {
        dv \<leftarrow> devs s d;
        if \<not> registered dv then Some (err e EINVAL, s)
        else if dev_state dv \<noteq> DEVICE_STATE_READY then Some (err e ENODEV, s)
        else do {
          f \<leftarrow> driver_op op_ioctl d s;
          if f \<noteq> 0 then call_driver e f d (Ioctl_Arg cmd arg) s else Some (err e ENOSYS, s) } })"

text \<open>
  The scan for requests that timed out. \<^verbatim>\<open>current\<close>, a pointer to a link, is the request whose \<^verbatim>\<open>next\<close> it is, or 0 for the
  device's \<^verbatim>\<open>request_queue\<close>.
\<close>

definition read_link :: "u64 \<Rightarrow> u64 \<Rightarrow> 'a dev_sys_scheme \<Rightarrow> u64 option" where
  "read_link d p s = (if p = 0 then map_option request_queue (devs s d) else map_option io_next (reqs s p))"

definition write_link :: "u64 \<Rightarrow> u64 \<Rightarrow> u64 \<Rightarrow> 'a dev_sys_scheme \<Rightarrow> 'a dev_sys_scheme option" where
  "write_link d p v s = (if p = 0 then upd_dev d (\<lambda>dv. dv\<lparr>request_queue := v\<rparr>) s else upd_req p (set_io_next v) s)"

partial_function (option) process_queue :: "'a dev_sys_scheme dev_env \<Rightarrow> u64 \<Rightarrow> u64 \<Rightarrow> 'a dev_sys_scheme \<Rightarrow> 'a dev_sys_scheme option" where
  "process_queue e d p s = do {
     q \<leftarrow> read_link d p s;
     if q = 0 then Some s
     else do {
       let (now, s) = read_clock e s;
       r \<leftarrow> reqs s q;
       dv \<leftarrow> devs s d;
       if now - io_timestamp r > ucast (timeout_ms (dev_config dv)) then do {
         s \<leftarrow> complete_request e q DEVICE_IO_TIMEOUT s;
         r \<leftarrow> reqs s q;
         s \<leftarrow> write_link d p (io_next r) s;
         process_queue e d p s }
       else process_queue e d q s } }"

partial_function (option) process_devices :: "'a dev_sys_scheme dev_env \<Rightarrow> u64 \<Rightarrow> 'a dev_sys_scheme \<Rightarrow> 'a dev_sys_scheme option" where
  "process_devices e d s =
     (if d = 0 then Some s
      else do {
        s \<leftarrow> process_queue e d 0 s;
        dv \<leftarrow> devs s d;
        process_devices e (dev_next dv) s })"

definition device_process_requests :: "'a dev_sys_scheme dev_env \<Rightarrow> 'a dev_sys_scheme \<Rightarrow> 'a dev_sys_scheme option" where
  "device_process_requests e s = process_devices e (device_list s) s"

definition device_handle_interrupt :: "'a dev_sys_scheme dev_env \<Rightarrow> u64 \<Rightarrow> u32 \<Rightarrow> 'a dev_sys_scheme \<Rightarrow> 'a dev_sys_scheme option" where
  "device_handle_interrupt e d v s =
     (if d = 0 then Some s
      else do {
        dv \<leftarrow> devs s d;
        if \<not> registered dv then Some s
        else do {
          s \<leftarrow> upd_dev d (\<lambda>dv. dv\<lparr>dev_stats := (dev_stats dv)\<lparr>interrupts_received := interrupts_received (dev_stats dv) + 1\<rparr>\<rparr>) s;
          let (now, s) = read_clock e s;
          s \<leftarrow> upd_dev d (\<lambda>dv. dv\<lparr>last_access_time := now\<rparr>) s;
          f \<leftarrow> driver_op op_interrupt d s;
          if f \<noteq> 0 then do { (_, s) \<leftarrow> call_driver e f d (Vector_Arg v) s; Some s } else Some s } })"

section \<open>The lists of the manager\<close>

interpretation dev_links: intrusive_list dev_next set_dev_next
  by unfold_locales (simp add: set_dev_next_def)

interpretation drv_links: intrusive_list drv_next set_drv_next
  by unfold_locales (simp add: set_drv_next_def)

interpretation io_links: intrusive_list io_next set_io_next
  by unfold_locales (simp add: set_io_next_def)

abbreviation dev_at :: "'a dev_sys_scheme \<Rightarrow> u64 \<Rightarrow> device" where
  "dev_at s d \<equiv> the (devs s d)"

text \<open>The devices of a list with a property.\<close>

definition how_many :: "(device \<Rightarrow> bool) \<Rightarrow> device store \<Rightarrow> u64 list \<Rightarrow> nat" where
  "how_many P h ds = length (filter (\<lambda>d. P (the (h d))) ds)"

lemma how_many_Cons: "how_many P h (d # ds) = (if P (the (h d)) then 1 else 0) + how_many P h ds"
  by (simp add: how_many_def)

lemma how_many_Nil [simp]: "how_many P h [] = 0"
  by (simp add: how_many_def)

lemma how_many_other [simp]: "d \<notin> set ds \<Longrightarrow> how_many P (h(d := v)) ds = how_many P h ds"
  unfolding how_many_def by (intro arg_cong [where f = length] filter_cong) auto

lemma how_many_cong: "(\<And>d. d \<in> set ds \<Longrightarrow> P (the (h' d)) = P (the (h d))) \<Longrightarrow> how_many P h' ds = how_many P h ds"
  unfolding how_many_def by (intro arg_cong [where f = length] filter_cong) auto

lemma how_many_remove: "d \<in> set ds \<Longrightarrow> how_many P h ds = (if P (the (h d)) then 1 else 0) + how_many P h (remove1 d ds)"
  by (induction ds) (auto simp: how_many_Cons)

lemma how_many_le: "how_many P h ds \<le> length ds"
  by (simp add: how_many_def)

text \<open>One device of the list changes.\<close>

lemma how_many_upd:
  assumes "d \<in> set ds" and "distinct ds"
  shows "how_many P (h(d \<mapsto> v)) ds + (if P (the (h d)) then 1 else 0) = how_many P h ds + (if P v then 1 else 0)"
proof -
  have "how_many P (h(d \<mapsto> v)) (remove1 d ds) = how_many P h (remove1 d ds)" using assms by simp
  then show ?thesis using how_many_remove [OF assms(1), of P] by simp
qed

text \<open>
  The invariant of the manager: the devices \<open>ds\<close> and the drivers \<open>vs\<close> are on its lists; the devices on the list are exactly the registered
  ones; their types are valid, their drivers exist and their identifiers are different and below the next one; the
  totals count the list, modulo the width of the counters.
\<close>

definition listed :: "u64 list \<Rightarrow> 'a dev_sys_scheme \<Rightarrow> bool" where
  "listed ds s \<longleftrightarrow> chain dev_next (devs s) (device_list s) ds 0 \<and>
     (\<forall>d dv. devs s d = Some dv \<longrightarrow> (registered dv \<longleftrightarrow> d \<in> set ds)) \<and>
     (\<forall>d\<in>set ds. device_id (dev_at s d) < next_device_id s \<and> dev_type (dev_at s d) \<noteq> DEVICE_TYPE_MAX \<and>
        (driver (dev_at s d) \<noteq> 0 \<longrightarrow> drvs s (driver (dev_at s d)) \<noteq> None)) \<and>
     inj_on (\<lambda>d. device_id (dev_at s d)) (set ds)"

definition totals :: "u64 list \<Rightarrow> 'a dev_sys_scheme \<Rightarrow> bool" where
  "totals ds s \<longleftrightarrow> total_devices (dm_stats s) = of_nat (length ds) \<and> length (devices_by_type (dm_stats s)) = 15 \<and>
     (\<forall>t. t \<noteq> DEVICE_TYPE_MAX \<longrightarrow> devices_by_type (dm_stats s) ! type_index t = of_nat (how_many (\<lambda>dv. dev_type dv = t) (devs s) ds))"

definition dev_inv :: "u64 list \<Rightarrow> u64 list \<Rightarrow> 'a dev_sys_scheme \<Rightarrow> bool" where
  "dev_inv ds vs s \<longleftrightarrow> dm_initialized s \<and> listed ds s \<and> totals ds s \<and> chain drv_next (drvs s) (driver_list s) vs 0"

text \<open>The counters of the states.\<close>

definition counters :: "u64 list \<Rightarrow> 'a dev_sys_scheme \<Rightarrow> bool" where
  "counters ds s \<longleftrightarrow>
     active_devices (dm_stats s) = of_nat (how_many (\<lambda>dv. dev_state dv = DEVICE_STATE_READY) (devs s) ds) \<and>
     failed_devices (dm_stats s) = of_nat (how_many (\<lambda>dv. dev_state dv = DEVICE_STATE_ERROR) (devs s) ds) \<and>
     suspended_devices (dm_stats s) = of_nat (how_many (\<lambda>dv. dev_state dv = DEVICE_STATE_SUSPENDED) (devs s) ds)"

lemma type_index_inj: "type_index t = type_index u \<longleftrightarrow> t = u"
  by (cases t; cases u) simp_all

lemma type_index_max: "t \<noteq> DEVICE_TYPE_MAX \<longleftrightarrow> type_index t < 15"
  by (cases t) simp_all

lemma listed_distinct: "listed ds s \<Longrightarrow> distinct ds"
  unfolding listed_def by (auto intro: chain_distinct)

lemma listed_mem: "listed ds s \<Longrightarrow> d \<in> set ds \<Longrightarrow> \<exists>dv. devs s d = Some dv \<and> d \<noteq> 0 \<and> registered dv"
  unfolding listed_def using chain_mem [of dev_next "devs s" "device_list s" ds 0 d] by auto

text \<open>There are fewer devices than identifiers.\<close>

lemma listed_few:
  assumes "listed ds s"
  shows "length ds < 2 ^ 32"
proof -
  have "card ((\<lambda>d. unat (device_id (dev_at s d))) ` set ds) = length ds"
    using assms listed_distinct [OF assms] unfolding listed_def
    by (subst card_image) (auto simp: inj_on_def distinct_card simp flip: word_unat_eq_iff)
  moreover have "(\<lambda>d. unat (device_id (dev_at s d))) ` set ds \<subseteq> {..<unat (next_device_id s)}"
    using assms unfolding listed_def by (auto simp: word_less_nat_alt)
  then have "card ((\<lambda>d. unat (device_id (dev_at s d))) ` set ds) \<le> unat (next_device_id s)"
    using card_mono [of "{..<unat (next_device_id s)}"] by fastforce
  moreover have "unat (next_device_id s) < 2 ^ 32" by (rule order_less_le_trans [OF unsigned_less]) simp
  ultimately show ?thesis by linarith
qed

text \<open>The invariant does not depend on the rest of the state.\<close>

lemma listed_cong:
  assumes "listed ds s" and "device_list s' = device_list s" and "next_device_id s' = next_device_id s"
    and "\<And>d dv. devs s' d = Some dv \<Longrightarrow> \<exists>dv0. devs s d = Some dv0 \<and> dev_next dv = dev_next dv0 \<and> registered dv = registered dv0 \<and>
       device_id dv = device_id dv0 \<and> dev_type dv = dev_type dv0 \<and> driver dv = driver dv0"
    and "dom (devs s') = dom (devs s)" and "dom (drvs s) \<subseteq> dom (drvs s')"
  shows "listed ds s'"
proof -
  have at: "\<exists>dv0 dv. devs s d = Some dv0 \<and> devs s' d = Some dv \<and> dev_next dv = dev_next dv0 \<and> registered dv = registered dv0 \<and>
       device_id dv = device_id dv0 \<and> dev_type dv = dev_type dv0 \<and> driver dv = driver dv0" if mem: "d \<in> set ds" for d
  proof -
    obtain dv0 where "devs s d = Some dv0" using listed_mem [OF assms(1) mem] by auto
    moreover then obtain dv where "devs s' d = Some dv" using assms(5) by (metis domD domI)
    ultimately show ?thesis using assms(4) by fastforce
  qed
  have ch: "chain dev_next (devs s') (device_list s') ds 0"
    using assms(1) at unfolding listed_def assms(2) by (intro chain_cong [of ds "devs s" "devs s'"]) fastforce+
  have reg: "\<forall>d dv. devs s' d = Some dv \<longrightarrow> (registered dv \<longleftrightarrow> d \<in> set ds)"
    using assms(1,4) unfolding listed_def by metis
  have mem: "\<forall>d\<in>set ds. device_id (dev_at s' d) < next_device_id s' \<and> dev_type (dev_at s' d) \<noteq> DEVICE_TYPE_MAX \<and>
        (driver (dev_at s' d) \<noteq> 0 \<longrightarrow> drvs s' (driver (dev_at s' d)) \<noteq> None)"
  proof
    fix d assume d: "d \<in> set ds"
    obtain dv0 dv where dv: "devs s d = Some dv0" "devs s' d = Some dv" "device_id dv = device_id dv0" "dev_type dv = dev_type dv0"
      "driver dv = driver dv0" using at [OF d] by auto
    have "device_id dv0 < next_device_id s \<and> dev_type dv0 \<noteq> DEVICE_TYPE_MAX \<and> (driver dv0 \<noteq> 0 \<longrightarrow> drvs s (driver dv0) \<noteq> None)"
      using assms(1) d dv(1) unfolding listed_def by auto
    then show "device_id (dev_at s' d) < next_device_id s' \<and> dev_type (dev_at s' d) \<noteq> DEVICE_TYPE_MAX \<and>
        (driver (dev_at s' d) \<noteq> 0 \<longrightarrow> drvs s' (driver (dev_at s' d)) \<noteq> None)"
      using dv assms(3,6) by (auto simp: subset_iff domIff)
  qed
  have "inj_on (\<lambda>d. device_id (dev_at s' d)) (set ds) = inj_on (\<lambda>d. device_id (dev_at s d)) (set ds)"
    by (intro inj_on_cong) (use at in fastforce)
  then show ?thesis using assms(1) ch reg mem unfolding listed_def by blast
qed

lemma totals_cong:
  assumes "totals ds s"
    and "total_devices (dm_stats s') = total_devices (dm_stats s)" and "devices_by_type (dm_stats s') = devices_by_type (dm_stats s)"
    and "\<And>d. d \<in> set ds \<Longrightarrow> dev_type (dev_at s' d) = dev_type (dev_at s d)"
  shows "totals ds s'"
proof -
  have "how_many (\<lambda>dv. dev_type dv = t) (devs s') ds = how_many (\<lambda>dv. dev_type dv = t) (devs s) ds" for t
    by (rule how_many_cong) (simp add: assms(4))
  then show ?thesis using assms(1) unfolding totals_def assms(2,3) by simp
qed

lemma totals_push:
  assumes t: "totals ds s" and d: "d \<notin> set ds" "dev_type (dev_at s' d) \<noteq> DEVICE_TYPE_MAX"
    and st: "total_devices (dm_stats s') = total_devices (dm_stats s) + 1"
      "devices_by_type (dm_stats s') = (let xs = devices_by_type (dm_stats s); i = type_index (dev_type (dev_at s' d)) in xs[i := xs ! i + 1])"
    and other: "\<And>d. d \<in> set ds \<Longrightarrow> devs s' d = devs s d"
  shows "totals (d # ds) s'"
proof -
  have "how_many (\<lambda>dv. dev_type dv = t) (devs s') ds = how_many (\<lambda>dv. dev_type dv = t) (devs s) ds" for t
    by (rule how_many_cong) (simp add: other)
  then show ?thesis
    using t d(2) unfolding totals_def st by (auto simp: how_many_Cons nth_list_update Let_def type_index_inj type_index_max)
qed

lemma totals_remove:
  assumes t: "totals ds s" and d: "d \<in> set ds" "dev_type (dev_at s d) \<noteq> DEVICE_TYPE_MAX"
    and st: "total_devices (dm_stats s') = total_devices (dm_stats s) - 1"
      "devices_by_type (dm_stats s') = (let xs = devices_by_type (dm_stats s); i = type_index (dev_type (dev_at s d)) in xs[i := xs ! i - 1])"
    and other: "\<And>d. d \<in> set ds \<Longrightarrow> dev_type (dev_at s' d) = dev_type (dev_at s d)"
  shows "totals (remove1 d ds) s'"
proof -
  have hm: "how_many (\<lambda>dv. dev_type dv = t) (devs s') (remove1 d ds) = how_many (\<lambda>dv. dev_type dv = t) (devs s) (remove1 d ds)" for t
    by (rule how_many_cong) (use other notin_set_remove1 in metis)
  have len: "length ds = Suc (length (remove1 d ds))" using d(1) by (simp add: length_remove1) (metis Suc_pred length_pos_if_in_set)
  show ?thesis
    using t d(2) how_many_remove [OF d(1), of _ "devs s"] len unfolding totals_def st hm
    by (auto simp: nth_list_update Let_def type_index_inj type_index_max)
qed

text \<open>What is known of the code the framework calls: it returns and writes nothing but memory of its own.\<close>

definition driver_frame :: "'a dev_sys_scheme dev_env \<Rightarrow> bool" where
  "driver_frame e \<longleftrightarrow> (\<forall>f d x s. \<exists>r m. call_driver e f d x s = Some (r, s\<lparr>memory := m\<rparr>))"

definition clock_frame :: "'a dev_sys_scheme dev_env \<Rightarrow> bool" where
  "clock_frame e \<longleftrightarrow> (\<forall>s. \<exists>t n. read_clock e s = (n, s\<lparr>fake_time := t\<rparr>))"

lemma driver_frameE:
  assumes "driver_frame e"
  obtains r m where "call_driver e f d x s = Some (r, s\<lparr>memory := m\<rparr>)"
  using assms unfolding driver_frame_def by blast

lemma clock_frameE:
  assumes "clock_frame e"
  obtains n t where "read_clock e s = (n, s\<lparr>fake_time := t\<rparr>)"
  using assms unfolding clock_frame_def by blast

text \<open>The device after \<^verbatim>\<open>device_register\<close>, as far as the clock and the driver leave it open.\<close>

definition registered_as :: "u32 \<Rightarrow> u64 \<Rightarrow> u64 \<Rightarrow> device_state \<Rightarrow> device \<Rightarrow> device" where
  "registered_as i l now st dv = dv\<lparr>device_id := i, created_time := now, last_access_time := now, dev_state := st,
     dev_stats := zero_device_stats, dev_next := l, registered := True\<rparr>"

lemma registered_as_state [simp]: "(registered_as i l now st dv)\<lparr>dev_state := st'\<rparr> = registered_as i l now st' dv"
  by (cases dv) (simp add: registered_as_def)

definition counted :: "device_state \<Rightarrow> device_manager_stats \<Rightarrow> device_manager_stats" where
  "counted st ms = (if st = DEVICE_STATE_READY then ms\<lparr>active_devices := active_devices ms + 1\<rparr>
     else if st = DEVICE_STATE_ERROR then ms\<lparr>failed_devices := failed_devices ms + 1\<rparr> else ms)"

definition register_effect :: "u64 \<Rightarrow> device \<Rightarrow> u64 \<Rightarrow> u64 \<Rightarrow> mem \<Rightarrow> device_state \<Rightarrow> 'a dev_sys_scheme \<Rightarrow> 'a dev_sys_scheme" where
  "register_effect d dv now t m st s = s\<lparr>next_device_id := next_device_id s + 1, fake_time := t, device_list := d, memory := m,
      devs := (devs s)(d \<mapsto> registered_as (next_device_id s) (device_list s) now st dv),
      dm_stats := counted st ((dm_stats s)\<lparr>total_devices := total_devices (dm_stats s) + 1,
        devices_by_type := (let xs = devices_by_type (dm_stats s); i = type_index (dev_type dv) in xs[i := xs ! i + 1])\<rparr>)\<rparr>"

lemma device_register_spec:
  assumes cl: "clock_frame e" and dr: "driver_frame e" and ini: "dm_initialized s"
    and len: "length (devices_by_type (dm_stats s)) = 15"
    and d: "d \<noteq> 0" "devs s d = Some dv" "\<not> registered dv" "dev_type dv \<noteq> DEVICE_TYPE_MAX" "di_name (dev_info dv) \<noteq> []"
      "driver dv \<noteq> 0 \<longrightarrow> drvs s (driver dv) \<noteq> None"
  shows "\<exists>now t m st. device_register e d s = Some (0, register_effect d dv now t m st s) \<and>
    st \<in> {DEVICE_STATE_INITIALIZING, DEVICE_STATE_READY, DEVICE_STATE_ERROR} \<and>
    (st = DEVICE_STATE_INITIALIZING \<longleftrightarrow> driver dv = 0 \<or> op_init (drv_ops (the (drvs s (driver dv)))) = 0)"
proof -
  have ti: "type_index (dev_type dv) < 15" using d(4) type_index_max by simp
  have v: "validate_device e d s = Some 0" using d ti by (simp add: validate_device_def)
  obtain now t where c: "read_clock e (s\<lparr>devs := (devs s)(d \<mapsto> dv\<lparr>device_id := next_device_id s\<rparr>), next_device_id := next_device_id s + 1\<rparr>)
      = (now, s\<lparr>devs := (devs s)(d \<mapsto> dv\<lparr>device_id := next_device_id s\<rparr>), next_device_id := next_device_id s + 1, fake_time := t\<rparr>)"
    using clock_frameE [OF cl] by metis
  define f where "f = (if driver dv = 0 then 0 else op_init (drv_ops (the (drvs s (driver dv)))))"
  define s1 where "s1 = register_effect d dv now t (memory s) DEVICE_STATE_INITIALIZING s"
  have reg: "device_register e d s = (if f = 0 then Some (0, s1)
            else do {
              (r, s) \<leftarrow> call_driver e f d No_Arg s1;
              if r = 0 then do {
                s \<leftarrow> upd_dev d (\<lambda>dv. dv\<lparr>dev_state := DEVICE_STATE_READY\<rparr>) s;
                Some (0, upd_stats (\<lambda>st. st\<lparr>active_devices := active_devices st + 1\<rparr>) s) }
              else do {
                s \<leftarrow> upd_dev d (\<lambda>dv. dv\<lparr>dev_state := DEVICE_STATE_ERROR\<rparr>) s;
                Some (0, upd_stats (\<lambda>st. st\<lparr>failed_devices := failed_devices st + 1\<rparr>) s) } })"
    using ini v d(1,2,3,6) c ti len
    by (auto simp: f_def device_register_def upd_dev_def set_dev_next_def count_type_def driver_op_def s1_def registered_as_def Let_def
        register_effect_def counted_def)
  have f0: "f = 0 \<longleftrightarrow> driver dv = 0 \<or> op_init (drv_ops (the (drvs s (driver dv)))) = 0" by (simp add: f_def)
  show ?thesis
  proof (cases "f = 0")
    case True
    then have "device_register e d s = Some (0, register_effect d dv now t (memory s) DEVICE_STATE_INITIALIZING s)"
      using reg s1_def by simp
    then show ?thesis using f0 True by blast
  next
    case False
    obtain r m where call: "call_driver e f d No_Arg s1 = Some (r, s1\<lparr>memory := m\<rparr>)" by (rule driver_frameE [OF dr])
    define st where "st = (if r = 0 then DEVICE_STATE_READY else DEVICE_STATE_ERROR)"
    have "device_register e d s = Some (0, register_effect d dv now t m st s)"
      unfolding reg call unfolding s1_def using False
      by (cases "r = 0") (simp_all add: counted_def upd_dev_def st_def register_effect_def)
    moreover have "st \<noteq> DEVICE_STATE_INITIALIZING" "st \<in> {DEVICE_STATE_INITIALIZING, DEVICE_STATE_READY, DEVICE_STATE_ERROR}"
      by (simp_all add: st_def)
    ultimately show ?thesis using False f0 by blast
  qed
qed


lemma register_effect_simps [simp]:
  "dm_initialized (register_effect d dv now t m st s) = dm_initialized s"
  "device_list (register_effect d dv now t m st s) = d"
  "driver_list (register_effect d dv now t m st s) = driver_list s"
  "drvs (register_effect d dv now t m st s) = drvs s"
  "next_device_id (register_effect d dv now t m st s) = next_device_id s + 1"
  "devs (register_effect d dv now t m st s) = (devs s)(d \<mapsto> registered_as (next_device_id s) (device_list s) now st dv)"
  "total_devices (dm_stats (register_effect d dv now t m st s)) = total_devices (dm_stats s) + 1"
  "devices_by_type (dm_stats (register_effect d dv now t m st s)) =
     (let xs = devices_by_type (dm_stats s); i = type_index (dev_type dv) in xs[i := xs ! i + 1])"
  by (simp_all add: register_effect_def counted_def)

lemma registered_as_simps [simp]:
  "device_id (registered_as i l now st dv) = i" "dev_next (registered_as i l now st dv) = l"
  "dev_state (registered_as i l now st dv) = st" "registered (registered_as i l now st dv)"
  "dev_type (registered_as i l now st dv) = dev_type dv" "driver (registered_as i l now st dv) = driver dv"
  by (simp_all add: registered_as_def)

lemma listed_unregistered: "listed ds s \<Longrightarrow> devs s d = Some dv \<Longrightarrow> \<not> registered dv \<Longrightarrow> d \<notin> set ds"
  unfolding listed_def by blast

lemma register_listed:
  assumes l: "listed ds s" and d: "d \<noteq> 0" "devs s d = Some dv" "\<not> registered dv" "dev_type dv \<noteq> DEVICE_TYPE_MAX"
      "driver dv \<noteq> 0 \<longrightarrow> drvs s (driver dv) \<noteq> None"
    and room: "next_device_id s + 1 \<noteq> 0"
  shows "listed (d # ds) (register_effect d dv now t m st s)"
proof -
  have nd: "d \<notin> set ds" using listed_unregistered l d by blast
  have lt: "i < next_device_id s \<Longrightarrow> i < next_device_id s + 1" for i
    using room word_less_Suc less_trans by blast
  show ?thesis
    using l d nd room unfolding listed_def
    by (auto simp: lt word_less_Suc inj_on_def)
qed

lemma register_counters:
  assumes "counters ds s" and "d \<notin> set ds"
    and "st \<in> {DEVICE_STATE_INITIALIZING, DEVICE_STATE_READY, DEVICE_STATE_ERROR}"
  shows "counters (d # ds) (register_effect d dv now t m st s)"
  using assms by (auto simp: counters_def how_many_Cons register_effect_def counted_def)

lemma register_inv:
  assumes inv: "dev_inv ds vs s" and d: "d \<noteq> 0" "devs s d = Some dv" "\<not> registered dv" "dev_type dv \<noteq> DEVICE_TYPE_MAX"
      "driver dv \<noteq> 0 \<longrightarrow> drvs s (driver dv) \<noteq> None"
    and room: "next_device_id s + 1 \<noteq> 0"
  shows "dev_inv (d # ds) vs (register_effect d dv now t m st s)"
proof -
  have l: "listed ds s" "totals ds s" using inv by (simp_all add: dev_inv_def)
  have nd: "d \<notin> set ds" using listed_unregistered l d by blast
  have "totals (d # ds) (register_effect d dv now t m st s)"
    by (rule totals_push [OF l(2) nd]) (use d nd in auto)
  then show ?thesis using inv register_listed [OF l(1) d room] by (simp add: dev_inv_def)
qed


section \<open>State changes\<close>

lemma dev_inv_memory [simp]: "dev_inv ds vs (s\<lparr>memory := m\<rparr>) = dev_inv ds vs s" "dev_inv ds vs (s\<lparr>fake_time := t\<rparr>) = dev_inv ds vs s"
  by (simp_all add: dev_inv_def listed_def totals_def)

lemma counters_memory [simp]: "counters ds (s\<lparr>memory := m\<rparr>) = counters ds s" "counters ds (s\<lparr>fake_time := t\<rparr>) = counters ds s"
  by (simp_all add: counters_def)

text \<open>An operation of the life cycle changes the state of one device and the counters of the states.\<close>

definition restate :: "u64 \<Rightarrow> device \<Rightarrow> mem \<Rightarrow> (device_manager_stats \<Rightarrow> device_manager_stats) \<Rightarrow> 'a dev_sys_scheme \<Rightarrow> 'a dev_sys_scheme" where
  "restate d dv m c s = s\<lparr>memory := m, devs := (devs s)(d \<mapsto> dv), dm_stats := c (dm_stats s)\<rparr>"

lemma restate_simps [simp]:
  "devs (restate d dv m c s) = (devs s)(d \<mapsto> dv)" "drvs (restate d dv m c s) = drvs s"
  "device_list (restate d dv m c s) = device_list s" "driver_list (restate d dv m c s) = driver_list s"
  "dm_stats (restate d dv m c s) = c (dm_stats s)" "dm_initialized (restate d dv m c s) = dm_initialized s"
  "next_device_id (restate d dv m c s) = next_device_id s"
  by (simp_all add: restate_def)

definition same_identity :: "device \<Rightarrow> device \<Rightarrow> bool" where
  "same_identity dv' dv \<longleftrightarrow> dev_next dv' = dev_next dv \<and> registered dv' = registered dv \<and>
     device_id dv' = device_id dv \<and> dev_type dv' = dev_type dv \<and> driver dv' = driver dv"

lemma restate_inv:
  assumes inv: "dev_inv ds vs s" and d: "devs s d = Some dv" "same_identity dv' dv"
    and c: "\<And>st. total_devices (c st) = total_devices st" "\<And>st. devices_by_type (c st) = devices_by_type st"
  shows "dev_inv ds vs (restate d dv' m c s)"
proof -
  have "listed ds (restate d dv' m c s)"
    by (rule listed_cong [of ds s]) (use inv d in \<open>auto simp: dev_inv_def same_identity_def split: if_splits\<close>)
  moreover have "totals ds (restate d dv' m c s)"
    by (rule totals_cong [of ds s]) (use inv d c in \<open>auto simp: dev_inv_def same_identity_def\<close>)
  ultimately show ?thesis using inv by (simp add: dev_inv_def)
qed

lemma dec_of_nat: "0 < n \<Longrightarrow> n < 2 ^ LENGTH('w::len) \<Longrightarrow> dec (of_nat n :: 'w word) = of_nat (n - 1)"
  by (auto simp: dec_def of_nat_diff word_gt_0 word_of_nat_eq_0_iff dest: dvd_imp_le)

text \<open>The counters follow a change from one state to another.\<close>

lemma counters_restate:
  assumes inv: "dev_inv ds vs s" and cnt: "counters ds s" and d: "d \<in> set ds" "devs s d = Some dv"
    and st: "dev_state dv' \<noteq> dev_state dv"
  shows "counters ds (restate d dv' m (count_states (dev_state dv) (dev_state dv')) s)"
proof -
  have l: "listed ds s" using inv by (simp add: dev_inv_def)
  have few: "how_many P (devs s) ds < 2 ^ 32" for P
    using listed_few [OF l] how_many_le [of P "devs s" ds] by linarith
  let ?n = "\<lambda>x. how_many (\<lambda>dv. dev_state dv = x) (devs s) ds"
  have one: "dev_state dv = x \<Longrightarrow> 0 < ?n x" for x
    using how_many_remove [OF d(1), of "\<lambda>dv. dev_state dv = x" "devs s"] d(2) by simp
  have upd: "how_many (\<lambda>dv. dev_state dv = x) ((devs s)(d \<mapsto> dv')) ds =
      (if dev_state dv' = x then Suc (?n x) else if dev_state dv = x then ?n x - 1 else ?n x)" for x
    using how_many_upd [OF d(1) listed_distinct [OF l], of "\<lambda>dv. dev_state dv = x" "devs s" dv'] d(2) st by auto
  show ?thesis
    using cnt st one few by (auto simp: counters_def upd count_states_def dec_of_nat Let_def)
qed


lemma stop_counts: "count_states DEVICE_STATE_READY DEVICE_STATE_SUSPENDED st =
    st\<lparr>active_devices := dec (active_devices st), suspended_devices := suspended_devices st + 1\<rparr>"
  by (simp add: count_states_def)

lemma resume_counts: "count_states DEVICE_STATE_SUSPENDED DEVICE_STATE_READY st =
    st\<lparr>active_devices := active_devices st + 1, suspended_devices := dec (suspended_devices st)\<rparr>"
  by (simp add: count_states_def)

text \<open>The driver function of a device on the list is readable.\<close>

lemma driver_op_listed:
  assumes "dev_inv ds vs s" and "d \<in> set ds"
  obtains f where "driver_op sel d s = Some f"
proof -
  obtain dv where dv: "devs s d = Some dv" using listed_mem assms unfolding dev_inv_def by metis
  moreover have "driver dv \<noteq> 0 \<longrightarrow> drvs s (driver dv) \<noteq> None" using assms dv unfolding dev_inv_def listed_def by auto
  ultimately show thesis using that by (cases "driver dv = 0") (auto simp: driver_op_def)
qed

text \<open>The common part of these operations: the driver is called and, when it succeeds, the device and the counters change.\<close>

definition driver_step :: "'a dev_sys_scheme dev_env \<Rightarrow> u64 \<Rightarrow> u64 \<Rightarrow> int \<Rightarrow> (device \<Rightarrow> device) \<Rightarrow> (device_manager_stats \<Rightarrow> device_manager_stats) \<Rightarrow>
    'a dev_sys_scheme \<Rightarrow> (int \<times> 'a dev_sys_scheme) option" where
  "driver_step e f d z g c s =
     (if f = 0 then Some (z, s)
      else do {
        (r, s) \<leftarrow> call_driver e f d No_Arg s;
        if r = 0 then do { s \<leftarrow> upd_dev d g s; Some (r, upd_stats c s) } else Some (r, s) })"

lemma driver_step_spec:
  assumes dr: "driver_frame e" and d: "devs s d = Some dv"
  shows "\<exists>r m. driver_step e f d z g c s = Some (r, s\<lparr>memory := m\<rparr>) \<or> driver_step e f d z g c s = Some (0, restate d (g dv) m c s)"
proof (cases "f = 0")
  case True
  then have "driver_step e f d z g c s = Some (z, s\<lparr>memory := memory s\<rparr>)" by (simp add: driver_step_def)
  then show ?thesis by blast
next
  case False
  obtain r m where "call_driver e f d No_Arg s = Some (r, s\<lparr>memory := m\<rparr>)" by (rule driver_frameE [OF dr])
  then have "driver_step e f d z g c s = (if r = 0 then Some (0, restate d (g dv) m c s) else Some (r, s\<lparr>memory := m\<rparr>))"
    using False d by (simp add: driver_step_def upd_dev_def restate_def)
  then show ?thesis by (metis (full_types))
qed

text \<open>
  Stopping, suspending and resuming a listed device return, and either change nothing but memory or make the
  one change of state they are for.
\<close>

lemma device_stop_spec:
  assumes inv: "dev_inv ds vs s" and d: "d \<in> set ds" "devs s d = Some dv" and dr: "driver_frame e"
  shows "\<exists>r m. device_stop e d s = Some (r, s\<lparr>memory := m\<rparr>) \<or>
    dev_state dv \<in> {DEVICE_STATE_READY, DEVICE_STATE_BUSY} \<and>
    device_stop e d s = Some (0, restate d (dv\<lparr>dev_state := DEVICE_STATE_SUSPENDED\<rparr>) m (count_states DEVICE_STATE_READY DEVICE_STATE_SUSPENDED) s)"
proof -
  have dv: "d \<noteq> 0" "registered dv" using listed_mem [of ds s d] inv d unfolding dev_inv_def by auto
  obtain f where f: "driver_op op_stop d s = Some f" by (rule driver_op_listed [OF inv d(1)])
  have op: "device_stop e d s = driver_step e f d (err e ENOSYS) (\<lambda>dv. dv\<lparr>dev_state := DEVICE_STATE_SUSPENDED\<rparr>)
      (count_states DEVICE_STATE_READY DEVICE_STATE_SUSPENDED) s" if "dev_state dv \<in> {DEVICE_STATE_READY, DEVICE_STATE_BUSY}"
    using that dv d(2) f by (auto simp: device_stop_def driver_step_def stop_counts intro!: Option.bind_cong)
  have "\<exists>r. device_stop e d s = Some (r, s\<lparr>memory := memory s\<rparr>)" if "\<not> (dev_state dv \<in> {DEVICE_STATE_READY, DEVICE_STATE_BUSY})"
    using that dv d(2) f by (auto simp: device_stop_def)
  then show ?thesis using op driver_step_spec [OF dr d(2), of f] by metis
qed

lemma device_suspend_spec:
  assumes inv: "dev_inv ds vs s" and d: "d \<in> set ds" "devs s d = Some dv" and dr: "driver_frame e"
  shows "\<exists>r m. device_suspend e d s = Some (r, s\<lparr>memory := m\<rparr>) \<or>
    dev_state dv \<noteq> DEVICE_STATE_SUSPENDED \<and>
    device_suspend e d s = Some (0, restate d (dv\<lparr>dev_state := DEVICE_STATE_SUSPENDED\<rparr>) m (count_states DEVICE_STATE_READY DEVICE_STATE_SUSPENDED) s)"
proof -
  have dv: "d \<noteq> 0" "registered dv" using listed_mem [of ds s d] inv d unfolding dev_inv_def by auto
  obtain f where f: "driver_op op_suspend d s = Some f" by (rule driver_op_listed [OF inv d(1)])
  have op: "device_suspend e d s = driver_step e f d (err e ENOSYS) (\<lambda>dv. dv\<lparr>dev_state := DEVICE_STATE_SUSPENDED\<rparr>)
      (count_states DEVICE_STATE_READY DEVICE_STATE_SUSPENDED) s" if "dev_state dv \<noteq> DEVICE_STATE_SUSPENDED \<and> capabilities dv AND DEVICE_CAP_SUSPEND \<noteq> 0"
    using that dv d(2) f by (auto simp: device_suspend_def driver_step_def stop_counts intro!: Option.bind_cong)
  have "\<exists>r. device_suspend e d s = Some (r, s\<lparr>memory := memory s\<rparr>)" if "\<not> (dev_state dv \<noteq> DEVICE_STATE_SUSPENDED \<and> capabilities dv AND DEVICE_CAP_SUSPEND \<noteq> 0)"
    using that dv d(2) f by (auto simp: device_suspend_def)
  then show ?thesis using op driver_step_spec [OF dr d(2), of f] by metis
qed

lemma device_resume_spec:
  assumes inv: "dev_inv ds vs s" and d: "d \<in> set ds" "devs s d = Some dv" and dr: "driver_frame e"
  shows "\<exists>r m. device_resume e d s = Some (r, s\<lparr>memory := m\<rparr>) \<or>
    dev_state dv = DEVICE_STATE_SUSPENDED \<and>
    device_resume e d s = Some (0, restate d (dv\<lparr>dev_state := DEVICE_STATE_READY\<rparr>) m (count_states DEVICE_STATE_SUSPENDED DEVICE_STATE_READY) s)"
proof -
  have dv: "d \<noteq> 0" "registered dv" using listed_mem [of ds s d] inv d unfolding dev_inv_def by auto
  obtain f where f: "driver_op op_resume d s = Some f" by (rule driver_op_listed [OF inv d(1)])
  have op: "device_resume e d s = driver_step e f d (err e ENOSYS) (\<lambda>dv. dv\<lparr>dev_state := DEVICE_STATE_READY\<rparr>)
      (count_states DEVICE_STATE_SUSPENDED DEVICE_STATE_READY) s" if "dev_state dv = DEVICE_STATE_SUSPENDED"
    using that dv d(2) f by (auto simp: device_resume_def driver_step_def resume_counts intro!: Option.bind_cong)
  have "\<exists>r. device_resume e d s = Some (r, s\<lparr>memory := memory s\<rparr>)" if "\<not> (dev_state dv = DEVICE_STATE_SUSPENDED)"
    using that dv d(2) f by (auto simp: device_resume_def)
  then show ?thesis using op driver_step_spec [OF dr d(2), of f] by metis
qed

text \<open>The driver's \<^verbatim>\<open>remove\<close> touches memory and the reference count of the driver.\<close>

lemma drvs_inv:
  assumes inv: "dev_inv ds vs s" and v: "drvs s v = Some dr" "drv_next dr' = drv_next dr"
  shows "dev_inv ds vs (s\<lparr>memory := m, drvs := (drvs s)(v \<mapsto> dr')\<rparr>)"
proof -
  have "chain drv_next ((drvs s)(v \<mapsto> dr')) (driver_list s) vs 0"
    using inv v unfolding dev_inv_def by (intro chain_upd_same [of _ _ _ _ _ _ dr]) auto
  moreover have "listed ds (s\<lparr>memory := m, drvs := (drvs s)(v \<mapsto> dr')\<rparr>)"
    by (rule listed_cong [of ds s]) (use inv in \<open>auto simp: dev_inv_def\<close>)
  moreover have "totals ds (s\<lparr>memory := m, drvs := (drvs s)(v \<mapsto> dr')\<rparr>)"
    by (rule totals_cong [of ds s]) (use inv in \<open>auto simp: dev_inv_def\<close>)
  ultimately show ?thesis using inv by (simp add: dev_inv_def)
qed

lemma driver_remove_spec:
  assumes inv: "dev_inv ds vs s" and d: "d \<in> set ds" "devs s d = Some dv" and dr: "driver_frame e"
  shows "\<exists>s'. driver_remove e d s = Some s' \<and> dev_inv ds vs s' \<and> devs s' = devs s \<and> dm_stats s' = dm_stats s"
proof -
  obtain f where f: "driver_op op_remove d s = Some f" by (rule driver_op_listed [OF inv d(1)])
  show ?thesis
  proof (cases "f = 0")
    case True
    then show ?thesis using inv f by (simp add: driver_remove_def)
  next
    case False
    obtain r m where call: "call_driver e f d No_Arg s = Some (r, s\<lparr>memory := m\<rparr>)" by (rule driver_frameE [OF dr])
    obtain dr' where v: "drvs s (driver dv) = Some dr'"
      using f False d(2) by (cases "drvs s (driver dv)") (auto simp: driver_op_def split: if_splits)
    define dr2 where "dr2 = dr'\<lparr>reference_count := reference_count dr' - 1\<rparr>"
    have "driver_remove e d s = Some (s\<lparr>memory := m, drvs := (drvs s)(driver dv \<mapsto> dr2)\<rparr>)"
      using f False call v d(2) by (simp add: driver_remove_def upd_drv_def dr2_def)
    moreover have "dev_inv ds vs (s\<lparr>memory := m, drvs := (drvs s)(driver dv \<mapsto> dr2)\<rparr>)"
      by (rule drvs_inv [OF inv v]) (simp add: dr2_def)
    ultimately show ?thesis by auto
  qed
qed

text \<open>The last part of \<^verbatim>\<open>device_unregister\<close>: the device is taken off the list.\<close>

definition delisted :: "u64 \<Rightarrow> u64 list \<Rightarrow> 'a dev_sys_scheme \<Rightarrow> 'a dev_sys_scheme \<Rightarrow> bool" where
  "delisted d ds s s' \<longleftrightarrow>
     devs s' d = Some ((dev_at s d)\<lparr>registered := False, dev_state := DEVICE_STATE_REMOVED\<rparr>) \<and>
     (\<forall>c\<in>set ds. c \<noteq> d \<longrightarrow> (\<exists>l. devs s' c = Some (set_dev_next l (dev_at s c)))) \<and>
     (\<forall>c. c \<notin> set ds \<longrightarrow> devs s' c = devs s c)"

lemma delist_listed:
  assumes l: "listed ds s" and d: "d \<in> set ds" and del: "delisted d ds s s'"
    and ch: "chain dev_next (devs s') (device_list s') (remove1 d ds) 0"
    and same: "drvs s' = drvs s" "next_device_id s' = next_device_id s"
  shows "listed (remove1 d ds) s'"
proof -
  have dist: "distinct ds" using listed_distinct [OF l] .
  have link: "\<exists>l. devs s' c = Some (set_dev_next l (dev_at s c))" if "c \<in> set ds" "c \<noteq> d" for c
    using del that by (simp add: delisted_def)
  have field: "device_id (dev_at s' c) = device_id (dev_at s c)" "dev_type (dev_at s' c) = dev_type (dev_at s c)"
    "driver (dev_at s' c) = driver (dev_at s c)" "registered (dev_at s' c) = registered (dev_at s c)" if "c \<in> set ds" "c \<noteq> d" for c
    using link [OF that] by (auto simp: set_dev_next_def)
  have reg: "registered dv \<longleftrightarrow> c \<in> set (remove1 d ds)" if c: "devs s' c = Some dv" for c dv
  proof (cases "c \<in> set ds")
    case True
    then obtain dv0 where "devs s c = Some dv0" "registered dv0" using listed_mem [OF l] by blast
    then show ?thesis using field(4) [OF True] True c dist del by (cases "c = d") (auto simp: delisted_def)
  next
    case False
    then show ?thesis using l del c d dist by (auto simp: delisted_def listed_def)
  qed
  have "inj_on (\<lambda>c. device_id (dev_at s' c)) (set (remove1 d ds)) = inj_on (\<lambda>c. device_id (dev_at s c)) (set (remove1 d ds))"
    by (intro inj_on_cong) (use field(1) dist in auto)
  moreover have "inj_on (\<lambda>c. device_id (dev_at s c)) (set (remove1 d ds))"
    by (rule inj_on_subset [OF _ set_remove1_subset]) (use l in \<open>simp add: listed_def\<close>)
  moreover have "\<forall>c\<in>set (remove1 d ds). device_id (dev_at s' c) < next_device_id s' \<and> dev_type (dev_at s' c) \<noteq> DEVICE_TYPE_MAX \<and>
      (driver (dev_at s' c) \<noteq> 0 \<longrightarrow> drvs s' (driver (dev_at s' c)) \<noteq> None)"
    using l field(1-3) dist unfolding listed_def same by simp
  ultimately show ?thesis using ch reg unfolding listed_def by simp
qed

lemma delist:
  assumes inv: "dev_inv ds vs s" and d: "d \<in> set ds" "devs s d = Some dv"
  shows "\<exists>l h s'. chain_find dev_next (\<lambda>a _. a = d) (devs s) (device_list s) = Some d \<and>
    unlink dev_next set_dev_next d (devs s) (device_list s) = Some (l, h) \<and> h d = Some dv \<and>
    count_type (dev_type dv) (\<lambda>n. n - 1) (s\<lparr>device_list := l, devs := h(d \<mapsto> dv\<lparr>registered := False, dev_state := DEVICE_STATE_REMOVED\<rparr>),
        dm_stats := (dm_stats s)\<lparr>total_devices := total_devices (dm_stats s) - 1\<rparr>\<rparr>) = Some s' \<and>
    dev_inv (remove1 d ds) vs s' \<and> delisted d ds s s' \<and>
    active_devices (dm_stats s') = active_devices (dm_stats s) \<and> failed_devices (dm_stats s') = failed_devices (dm_stats s) \<and>
    suspended_devices (dm_stats s') = suspended_devices (dm_stats s)"
proof -
  have l: "listed ds s" "totals ds s" using inv by (simp_all add: dev_inv_def)
  have ch: "chain dev_next (devs s) (device_list s) ds 0" using l(1) by (simp add: listed_def)
  have dist: "distinct ds" using listed_distinct [OF l(1)] .
  have ty: "dev_type dv \<noteq> DEVICE_TYPE_MAX" using l(1) d unfolding listed_def by auto
  have find: "chain_find dev_next (\<lambda>a _. a = d) (devs s) (device_list s) = Some d"
    using chain_find_chain [OF ch, of "\<lambda>a _. a = d"] d(1) by (simp add: first_of_unique [where p = d])
  obtain a h where u: "unlink dev_next set_dev_next d (devs s) (device_list s) = Some (a, h)" "chain dev_next h a (remove1 d ds) 0"
    "h = devs s \<or> (\<exists>q m v. q \<in> set ds \<and> q \<noteq> d \<and> devs s q = Some m \<and> h = (devs s)(q \<mapsto> set_dev_next v m))"
    using dev_links.unlink_member [OF ch d(1)] by blast
  let ?dv = "dv\<lparr>registered := False, dev_state := DEVICE_STATE_REMOVED\<rparr>"
  have hd: "h d = Some dv" using u(3) d(2) by auto
  have at: "\<exists>l. h c = Some (set_dev_next l m)" if "devs s c = Some m" for c m
  proof -
    have "m = set_dev_next (dev_next m) m" by (simp add: set_dev_next_def)
    then show ?thesis using u(3) that by (metis fun_upd_other fun_upd_same option.inject)
  qed
  have out: "h c = devs s c" if "c \<notin> set ds" for c using u(3) that by auto
  define xs where "xs = devices_by_type (dm_stats s)"
  define i where "i = type_index (dev_type dv)"
  define s' where "s' = s\<lparr>device_list := a, devs := h(d \<mapsto> ?dv),
        dm_stats := (dm_stats s)\<lparr>total_devices := total_devices (dm_stats s) - 1, devices_by_type := xs[i := xs ! i - 1]\<rparr>\<rparr>"
  have ct: "count_type (dev_type dv) (\<lambda>n. n - 1) (s\<lparr>device_list := a, devs := h(d \<mapsto> ?dv),
        dm_stats := (dm_stats s)\<lparr>total_devices := total_devices (dm_stats s) - 1\<rparr>\<rparr>) = Some s'"
    using ty l(2) by (simp add: count_type_def s'_def totals_def type_index_max Let_def xs_def i_def)
  have mem: "devs s c \<noteq> None" if "c \<in> set ds" for c using listed_mem [OF l(1) that] by auto
  have link: "\<exists>l. devs s' c = Some (set_dev_next l (dev_at s c))" if "c \<in> set ds" "c \<noteq> d" for c
    using at [of c] mem [of c] that by (auto simp: s'_def)
  have del: "delisted d ds s s'" using link out d by (auto simp: delisted_def s'_def)
  have "listed (remove1 d ds) s'"
    using u(2) dist by (intro delist_listed [OF l(1) d(1) del]) (simp_all add: s'_def)
  moreover have "totals (remove1 d ds) s'"
  proof (rule totals_remove [OF l(2) d(1)])
    show "dev_type (dev_at s' c) = dev_type (dev_at s c)" if "c \<in> set ds" for c
      using link [OF that] d(2) by (cases "c = d") (auto simp: s'_def set_dev_next_def)
  qed (use d ty in \<open>simp_all add: s'_def xs_def i_def Let_def\<close>)
  ultimately have "dev_inv (remove1 d ds) vs s'" using inv by (simp add: dev_inv_def s'_def)
  moreover have "active_devices (dm_stats s') = active_devices (dm_stats s) \<and> failed_devices (dm_stats s') = failed_devices (dm_stats s) \<and>
         suspended_devices (dm_stats s') = suspended_devices (dm_stats s)" by (simp add: s'_def)
  ultimately show ?thesis using find u(1) hd ct del by blast
qed


text \<open>The counters of the states that \<^verbatim>\<open>device_unregister\<close> leaves: those after the device was stopped.\<close>

lemma device_unregister_spec:
  assumes inv: "dev_inv ds vs s" and d: "d \<in> set ds" "devs s d = Some dv" and dr: "driver_frame e"
  shows "\<exists>s'. device_unregister e d s = Some (0, s') \<and> dev_inv (remove1 d ds) vs s' \<and> delisted d ds s s' \<and>
    (dev_state dv \<notin> {DEVICE_STATE_READY, DEVICE_STATE_BUSY} \<longrightarrow> active_devices (dm_stats s') = active_devices (dm_stats s) \<and>
       failed_devices (dm_stats s') = failed_devices (dm_stats s) \<and> suspended_devices (dm_stats s') = suspended_devices (dm_stats s))"
proof -
  have dv: "d \<noteq> 0" "registered dv" "dm_initialized s" using listed_mem [of ds s d] inv d unfolding dev_inv_def by auto
  define run where "run \<longleftrightarrow> dev_state dv = DEVICE_STATE_READY \<or> dev_state dv = DEVICE_STATE_BUSY"
  obtain s1 st where s1: "(if run then do { (r, s) \<leftarrow> device_stop e d s; Some s } else Some s) = Some s1"
    "dev_inv ds vs s1" "devs s1 = (devs s)(d \<mapsto> dv\<lparr>dev_state := st\<rparr>)" "\<not> run \<longrightarrow> dm_stats s1 = dm_stats s"
  proof (cases run)
    case True
    consider r m where "device_stop e d s = Some (r, s\<lparr>memory := m\<rparr>)"
      | m where "device_stop e d s = Some (0, restate d (dv\<lparr>dev_state := DEVICE_STATE_SUSPENDED\<rparr>) m (count_states DEVICE_STATE_READY DEVICE_STATE_SUSPENDED) s)"
      using device_stop_spec [OF inv d dr] by blast
    then show thesis
    proof cases
      case 1
      have "devs s = (devs s)(d \<mapsto> dv\<lparr>dev_state := dev_state dv\<rparr>)" using d(2) by (simp add: fun_upd_idem)
      then show thesis using that [of "s\<lparr>memory := m\<rparr>" "dev_state dv"] 1 True inv by simp
    next
      case 2
      have "dev_inv ds vs (restate d (dv\<lparr>dev_state := DEVICE_STATE_SUSPENDED\<rparr>) m (count_states DEVICE_STATE_READY DEVICE_STATE_SUSPENDED) s)"
        by (rule restate_inv [OF inv d(2)]) (simp_all add: same_identity_def stop_counts)
      then show thesis using that 2 True by simp
    qed
  next
    case False
    have "devs s = (devs s)(d \<mapsto> dv\<lparr>dev_state := dev_state dv\<rparr>)" using d(2) by (simp add: fun_upd_idem)
    then show thesis using that [of s "dev_state dv"] False inv by simp
  qed
  have d1: "devs s1 d = Some (dv\<lparr>dev_state := st\<rparr>)" using s1(3) by simp
  obtain s2 where s2: "driver_remove e d s1 = Some s2" "dev_inv ds vs s2" "devs s2 = devs s1" "dm_stats s2 = dm_stats s1"
    using driver_remove_spec [OF s1(2) d(1) d1 dr] by blast
  have d2: "devs s2 d = Some (dv\<lparr>dev_state := st\<rparr>)" using d1 s2(3) by simp
  obtain l h s' where s': "chain_find dev_next (\<lambda>a _. a = d) (devs s2) (device_list s2) = Some d"
    "unlink dev_next set_dev_next d (devs s2) (device_list s2) = Some (l, h)" "h d = Some (dv\<lparr>dev_state := st\<rparr>)"
    "count_type (dev_type dv) (\<lambda>n. n - 1) (s2\<lparr>device_list := l, devs := h(d \<mapsto> dv\<lparr>registered := False, dev_state := DEVICE_STATE_REMOVED\<rparr>),
        dm_stats := (dm_stats s2)\<lparr>total_devices := total_devices (dm_stats s2) - 1\<rparr>\<rparr>) = Some s'"
    "dev_inv (remove1 d ds) vs s'" "delisted d ds s2 s'"
    "active_devices (dm_stats s') = active_devices (dm_stats s2)" "failed_devices (dm_stats s') = failed_devices (dm_stats s2)"
    "suspended_devices (dm_stats s') = suspended_devices (dm_stats s2)"
    using delist [OF s2(2) d(1) d2] by auto
  have "device_unregister e d s = Some (0, s')"
    using dv d(2) s1(1) s2(1) s'(1-4) by (simp add: device_unregister_def run_def upd_dev_def)
  moreover have "delisted d ds s s'"
    using s'(6) s1(3) s2(3) d by (auto simp: delisted_def)
  ultimately show ?thesis using s'(5,7-9) s1(4) s2(4) run_def by auto
qed

section \<open>Queries on the list\<close>

lemma dev_inv_chain:
  assumes "dev_inv ds vs s"
  shows "dm_initialized s" "chain dev_next (devs s) (device_list s) ds 0" "0 \<notin> set ds"
  using assms chain_mem [of dev_next "devs s" "device_list s" ds 0 0] unfolding dev_inv_def listed_def by blast+

lemma device_find_by_id_spec:
  assumes "dev_inv ds vs s"
  shows "device_find_by_id i s = Some (first_of (\<lambda>d. device_id (dev_at s d) = i) ds)"
  using dev_inv_chain [OF assms] by (simp add: device_find_by_id_def chain_find_chain)

lemma find_listed:
  assumes inv: "dev_inv ds vs s" and d: "d \<in> set ds"
  shows "device_find_by_id (device_id (dev_at s d)) s = Some d"
proof -
  have "first_of (\<lambda>c. device_id (dev_at s c) = device_id (dev_at s d)) ds = d"
    using inv d by (intro first_of_unique) (auto simp: dev_inv_def listed_def inj_on_def)
  then show ?thesis by (simp add: device_find_by_id_spec [OF inv])
qed

lemma find_unlisted:
  assumes inv: "dev_inv ds vs s" and i: "\<forall>d\<in>set ds. device_id (dev_at s d) \<noteq> i"
  shows "device_find_by_id i s = Some 0"
  using i dev_inv_chain(3) [OF inv] by (simp add: device_find_by_id_spec [OF inv] first_of_0_iff)

text \<open>An array of pointers, written from one index on.\<close>

fun write_array :: "u64 \<Rightarrow> u32 \<Rightarrow> u64 list \<Rightarrow> mem \<Rightarrow> mem" where
  "write_array a c [] m = m"
| "write_array a c (x # xs) m = write_array a (c + 1) xs (store64 (a + 8 * ucast c) x m)"

lemma unat_less_2p32: "unat (c :: u32) < 4294967296"
  using unsigned_less [of c] by simp

lemma unat_8_ucast: "unat (8 * ucast (c :: u32) :: u64) = 8 * unat c"
proof -
  have "unat (ucast c :: u64) = unat c" by (simp add: unsigned_ucast_eq take_bit_nat_eq_self order_less_trans [OF unat_less_2p32])
  then show ?thesis using unat_less_2p32 [of c] by (subst unat_mult_lem [THEN iffD1]) simp_all
qed

lemma unat_Suc_room: "unat (c :: u32) + Suc n < 2 ^ 32 \<Longrightarrow> unat (c + 1) = Suc (unat c)"
  by (simp add: unat_word_ariths)

lemma store64_outside:
  assumes "unat (x - a) < 8 * unat (c :: u32) \<or> 8 * unat c + 8 \<le> unat (x - a)"
  shows "store64 (a + 8 * ucast c) v m x = m x"
proof -
  define y where "y = x - a"
  have "8 \<le> unat (y - 8 * ucast c)"
    using assms unat_8_ucast [of c] unat_less_2p64 [of y] unat_less_2p32 [of c] unat_sub_if_size [of y "8 * ucast c"]
    by (auto simp: y_def [symmetric] word_size)
  then have "8 \<le> unat (x - (a + 8 * ucast c))" by (simp add: y_def diff_diff_eq)
  then show ?thesis by (simp add: store_le_def)
qed

lemma write_array_outside:
  "unat c + length xs < 2 ^ 32 \<Longrightarrow> unat (x - a) < 8 * unat c \<or> 8 * (unat c + length xs) \<le> unat (x - a) \<Longrightarrow> write_array a c xs m x = m x"
proof (induction xs arbitrary: c m)
  case (Cons y ys)
  have c: "unat (c + 1) = Suc (unat c)" using Cons.prems(1) unat_Suc_room [of c "length ys"] by simp
  have "write_array a (c + 1) ys (store64 (a + 8 * ucast c) y m) x = store64 (a + 8 * ucast c) y m x"
    by (rule Cons.IH) (use Cons.prems c in auto)
  moreover have "store64 (a + 8 * ucast c) y m x = m x" by (rule store64_outside) (use Cons.prems(2) in auto)
  ultimately show ?case by simp
qed simp

lemma write_array_read:
  "unat c + length xs < 2 ^ 32 \<Longrightarrow> i < length xs \<Longrightarrow> load64 (write_array a c xs m) (a + 8 * ucast (c + of_nat i)) = xs ! i"
proof (induction xs arbitrary: c m i)
  case (Cons y ys)
  have c: "unat (c + 1) = Suc (unat c)" using Cons.prems(1) unat_Suc_room [of c "length ys"] by simp
  show ?case
  proof (cases i)
    case 0
    have "load64 (write_array a (c + 1) ys (store64 (a + 8 * ucast c) y m)) (a + 8 * ucast c) = load64 (store64 (a + 8 * ucast c) y m) (a + 8 * ucast c)"
    proof (rule load_le_cong, rule write_array_outside)
      fix j :: nat assume j: "j < 8"
      have "a + 8 * ucast c + of_nat j - a = 8 * ucast c + (of_nat j :: u64)" by simp
      moreover have "unat (8 * ucast c + (of_nat j :: u64)) = 8 * unat c + j"
        using unat_8_ucast [of c] j unat_less_2p32 [of c] 
        by (subst unat_add_lem [THEN iffD1]) (simp_all add: unat_of_nat)
      ultimately show "unat (a + 8 * ucast c + of_nat j - a) < 8 * unat (c + 1) \<or> 8 * (unat (c + 1) + length ys) \<le> unat (a + 8 * ucast c + of_nat j - a)"
        using j c by simp
    qed (use Cons.prems c in simp)
    then show ?thesis using 0 by (simp add: load_store_64)
  next
    case (Suc k)
    have "load64 (write_array a (c + 1) ys (store64 (a + 8 * ucast c) y m)) (a + 8 * ucast (c + 1 + of_nat k)) = ys ! k"
      by (rule Cons.IH) (use Cons.prems Suc c in auto)
    then show ?thesis using Suc by (simp add: algebra_simps)
  qed
qed simp

lemma find_by_type_loop_spec:
  assumes "chain dev_next (devs s) d ps 0"
  shows "\<exists>xs. xs = take (unat max_devices - unat count) (filter (\<lambda>d. dev_type (dev_at s d) = t) ps) \<and>
    find_by_type_loop t a max_devices d count s = Some (count + of_nat (length xs), s\<lparr>memory := write_array a count xs (memory s)\<rparr>)"
  using assms
proof (induction ps arbitrary: d count s)
  case Nil
  then show ?case by (subst find_by_type_loop.simps) simp
next
  case (Cons p ps)
  then obtain dv where dv: "d = p" "p \<noteq> 0" "devs s p = Some dv" "chain dev_next (devs s) (dev_next dv) ps 0" by auto
  show ?case
  proof (cases "count < max_devices")
    case False
    then show ?thesis by (subst find_by_type_loop.simps) (simp add: word_less_nat_alt)
  next
    case lt: True
    have c: "unat (count + 1) = Suc (unat count)" using unat_Suc_less [OF lt] .
    show ?thesis
    proof (cases "dev_type dv = t")
      case True
      let ?s = "s\<lparr>memory := store64 (a + 8 * ucast count) p (memory s)\<rparr>"
      have "chain dev_next (devs ?s) (dev_next dv) ps 0" using dv(4) by simp
      from Cons.IH [OF this, of "count + 1"] show ?thesis
        using True lt dv c by (subst find_by_type_loop.simps) (auto simp: word_less_nat_alt Suc_diff_Suc [symmetric] algebra_simps)
    next
      case False
      then show ?thesis using Cons.IH [OF dv(4), of count] lt dv by (subst find_by_type_loop.simps) auto
    qed
  qed
qed


section \<open>Sequences of operations\<close>

lemma device_set_state_spec:
  assumes inv: "dev_inv ds vs s" and d: "d \<in> set ds" "devs s d = Some dv" and cl: "clock_frame e" and new: "new \<noteq> DEVICE_STATE_MAX"
  shows "\<exists>now t. device_set_state e d new s =
    Some ((restate d (dv\<lparr>dev_state := new, last_access_time := now\<rparr>) (memory s) (count_states (dev_state dv) new) s)\<lparr>fake_time := t\<rparr>)"
proof -
  have d0: "d \<noteq> 0" using dev_inv_chain(3) [OF inv] d(1) by metis
  let ?s = "s\<lparr>devs := (devs s)(d \<mapsto> dv\<lparr>dev_state := new\<rparr>)\<rparr>"
  obtain now t where "read_clock e ?s = (now, ?s\<lparr>fake_time := t\<rparr>)" by (rule clock_frameE [OF cl])
  then show ?thesis using d0 d(2) new
    by (intro exI [of _ now] exI [of _ t]) (simp add: device_set_state_def upd_dev_def restate_def)
qed

text \<open>
  The operations of a client that keeps to the life cycle: it registers valid devices, does not stop a busy one, suspends
  only a ready one, and sets a state only to change it.
\<close>

inductive dev_step :: "'a dev_sys_scheme dev_env \<Rightarrow> 'a dev_sys_scheme \<Rightarrow> 'a dev_sys_scheme \<Rightarrow> bool" for e where
  step_register: "d \<noteq> 0 \<Longrightarrow> devs s d = Some dv \<Longrightarrow> driver dv \<noteq> 0 \<longrightarrow> drvs s (driver dv) \<noteq> None \<Longrightarrow> next_device_id s + 1 \<noteq> 0 \<Longrightarrow>
     device_register e d s = Some (r, s') \<Longrightarrow> dev_step e s s'"
| step_stop: "devs s d = Some dv \<Longrightarrow> dev_state dv \<noteq> DEVICE_STATE_BUSY \<Longrightarrow> device_stop e d s = Some (r, s') \<Longrightarrow> dev_step e s s'"
| step_suspend: "devs s d = Some dv \<Longrightarrow> dev_state dv = DEVICE_STATE_READY \<Longrightarrow> device_suspend e d s = Some (r, s') \<Longrightarrow> dev_step e s s'"
| step_resume: "devs s d = Some dv \<Longrightarrow> device_resume e d s = Some (r, s') \<Longrightarrow> dev_step e s s'"
| step_set_state: "devs s d = Some dv \<Longrightarrow> registered dv \<Longrightarrow> dev_state dv \<noteq> new \<Longrightarrow> device_set_state e d new s = Some s' \<Longrightarrow> dev_step e s s'"

lemma unlisted_idle:
  assumes inv: "dev_inv ds vs s" and d: "devs s d = Some dv" "d \<notin> set ds"
  shows "device_stop e d s = Some (r, s') \<Longrightarrow> s' = s" "device_suspend e d s = Some (r, s') \<Longrightarrow> s' = s"
    "device_resume e d s = Some (r, s') \<Longrightarrow> s' = s"
proof -
  have "\<not> registered dv" using inv d by (auto simp: dev_inv_def listed_def)
  then show "device_stop e d s = Some (r, s') \<Longrightarrow> s' = s" "device_suspend e d s = Some (r, s') \<Longrightarrow> s' = s"
    "device_resume e d s = Some (r, s') \<Longrightarrow> s' = s"
    using d by (auto simp: device_stop_def device_suspend_def device_resume_def split: if_splits)
qed

lemma restate_keeps:
  assumes inv: "dev_inv ds vs s" and cnt: "counters ds s" and d: "d \<in> set ds" "devs s d = Some dv"
    and new: "dev_state dv' \<noteq> dev_state dv" "same_identity dv' dv"
  shows "dev_inv ds vs (restate d dv' m (count_states (dev_state dv) (dev_state dv')) s) \<and>
    counters ds (restate d dv' m (count_states (dev_state dv) (dev_state dv')) s)"
proof -
  have "total_devices (count_states x y st) = total_devices st" "devices_by_type (count_states x y st) = devices_by_type st" for x y st
    by (simp_all add: count_states_def Let_def)
  then show ?thesis using restate_inv [OF inv d(2) new(2)] counters_restate [OF inv cnt d new(1)] by blast
qed

text \<open>What the properties below ask of the code that is not part of the sources.\<close>

definition well_behaved :: "'a dev_sys_scheme dev_env \<Rightarrow> bool" where
  "well_behaved e \<longleftrightarrow> clock_frame e \<and> driver_frame e \<and> (\<forall>n. 0 < errno_code e n)"

lemma register_rejects:
  assumes "0 < errno_code e EINVAL" and "dm_initialized s" and d: "d \<noteq> 0" "devs s d = Some dv"
    and "registered dv \<or> dev_type dv = DEVICE_TYPE_MAX \<or> di_name (dev_info dv) = []"
  shows "\<exists>r. device_register e d s = Some (r, s)"
  using assms type_index_max [of "dev_type dv"] by (auto simp: device_register_def validate_device_def)

lemma dev_step_keeps:
  assumes "dev_step e s s'" and "dev_inv ds vs s" and "counters ds s" and env: "well_behaved e"
  shows "\<exists>ds'. dev_inv ds' vs s' \<and> counters ds' s'"
proof -
  have cl: "clock_frame e" and dr: "driver_frame e" and er: "0 < errno_code e EINVAL" using env by (simp_all add: well_behaved_def)
  show ?thesis
    using assms(1-3)
  proof cases
    case (step_register d dv r)
    have l: "dm_initialized s" "length (devices_by_type (dm_stats s)) = 15" "listed ds s"
      using assms(2) by (simp_all add: dev_inv_def totals_def)
    show ?thesis
    proof (cases "registered dv \<or> dev_type dv = DEVICE_TYPE_MAX \<or> di_name (dev_info dv) = []")
      case True
      then show ?thesis using register_rejects [OF er l(1) step_register(1,2) True] step_register(5) assms(2,3) by auto
    next
      case False
      then obtain now t m st where reg: "device_register e d s = Some (0, register_effect d dv now t m st s)"
        "st \<in> {DEVICE_STATE_INITIALIZING, DEVICE_STATE_READY, DEVICE_STATE_ERROR}"
        using device_register_spec [OF cl dr l(1,2) step_register(1,2) _ _ _ step_register(3)] by blast
      have "d \<notin> set ds" using listed_unregistered [OF l(3) step_register(2)] False by blast
      then have "dev_inv (d # ds) vs s' \<and> counters (d # ds) s'"
        using register_inv [OF assms(2) step_register(1,2) _ _ step_register(3,4)] register_counters [OF assms(3) _ reg(2)] False
          reg(1) step_register(5) by auto
      then show ?thesis by blast
    qed
  next
    case (step_stop d dv r)
    show ?thesis
    proof (cases "d \<in> set ds")
      case True
      note k = restate_keeps [OF assms(2,3) True step_stop(1), of "dv\<lparr>dev_state := DEVICE_STATE_SUSPENDED\<rparr>"]
      show ?thesis using device_stop_spec [OF assms(2) True step_stop(1) dr] step_stop(2,3) k assms(2,3)
        by (intro exI [of _ ds]) (auto simp: same_identity_def)
    qed (use unlisted_idle(1) [OF assms(2) step_stop(1)] step_stop(3) assms(2,3) in blast)
  next
    case (step_suspend d dv r)
    show ?thesis
    proof (cases "d \<in> set ds")
      case True
      note k = restate_keeps [OF assms(2,3) True step_suspend(1), of "dv\<lparr>dev_state := DEVICE_STATE_SUSPENDED\<rparr>"]
      show ?thesis using device_suspend_spec [OF assms(2) True step_suspend(1) dr] step_suspend(2,3) k assms(2,3)
        by (intro exI [of _ ds]) (auto simp: same_identity_def)
    qed (use unlisted_idle(2) [OF assms(2) step_suspend(1)] step_suspend(3) assms(2,3) in blast)
  next
    case (step_resume d dv r)
    show ?thesis
    proof (cases "d \<in> set ds")
      case True
      note k = restate_keeps [OF assms(2,3) True step_resume(1), of "dv\<lparr>dev_state := DEVICE_STATE_READY\<rparr>"]
      show ?thesis using device_resume_spec [OF assms(2) True step_resume(1) dr] step_resume(2) k assms(2,3)
        by (intro exI [of _ ds]) (auto simp: same_identity_def)
    qed (use unlisted_idle(3) [OF assms(2) step_resume(1)] step_resume(2) assms(2,3) in blast)
  next
    case (step_set_state d dv new)
    have d: "d \<in> set ds" using assms(2) step_set_state(1,2) by (auto simp: dev_inv_def listed_def)
    show ?thesis
    proof (cases "new = DEVICE_STATE_MAX")
      case True
      then show ?thesis using step_set_state(4) assms(2,3) by (auto simp: device_set_state_def)
    next
      case False
      obtain now t where s': "s' = (restate d (dv\<lparr>dev_state := new, last_access_time := now\<rparr>) (memory s) (count_states (dev_state dv) new) s)\<lparr>fake_time := t\<rparr>"
        using device_set_state_spec [OF assms(2) d step_set_state(1) cl False] step_set_state(4) by auto
      show ?thesis
        using restate_keeps [OF assms(2,3) d step_set_state(1), of "dv\<lparr>dev_state := new, last_access_time := now\<rparr>"] step_set_state(3)
        unfolding s' by (auto simp: same_identity_def)
    qed
  qed
qed

lemma device_init_inv:
  assumes "\<not> dm_initialized s" and "\<forall>d dv. devs s d = Some dv \<longrightarrow> \<not> registered dv"
  shows "dev_inv [] [] (snd (device_init s)) \<and> counters [] (snd (device_init s))"
proof -
  let ?z = zero_manager_stats
  have "devices_by_type ?z ! type_index t = 0" if "t \<noteq> DEVICE_TYPE_MAX" for t
    using that type_index_max [of t] unfolding zero_manager_stats_def device_manager_stats.simps by (metis nth_replicate)
  moreover have "length (devices_by_type ?z) = 15" "total_devices ?z = 0" "active_devices ?z = 0" "failed_devices ?z = 0"
    "suspended_devices ?z = 0" by (simp_all add: zero_manager_stats_def)
  ultimately show ?thesis
    using assms by (simp add: device_init_def dev_inv_def listed_def totals_def counters_def)
qed

section \<open>An example\<close>

definition blank_device :: device where
  "blank_device = \<lparr>device_id = 0, dev_type = DEVICE_TYPE_STORAGE, dev_state = DEVICE_STATE_UNKNOWN, capabilities = DEVICE_CAP_SUSPEND,
     dev_info = \<lparr>di_name = ''ata0'', di_description = '''', manufacturer = '''', model = '''', serial_number = '''', firmware_version = '''',
       di_vendor_id = 0, di_device_id = 0, di_revision = 0, di_class_code = 0, di_subclass_code = 0\<rparr>,
     dev_config = \<lparr>base_address = 0, memory_mapped_base = 0, memory_size = 0, irq_line = 14, dma_channel = 0, clock_frequency = 0,
       max_transfer_size = 0, alignment_requirement = 0, timeout_ms = 100, retry_count = 0\<rparr>,
     dev_stats = zero_device_stats, driver = 0x9000, dev_parent = 0, dev_children = 0, next_sibling = 0, dev_next = 0, request_queue = 0,
     driver_data = 0, created_time = 0, last_access_time = 0, registered = False\<rparr>"

definition small_driver :: device_driver where
  "small_driver = \<lparr>drv_name = ''ata'', drv_version = ''1.0'', drv_author = '''', supported_types = [DEVICE_TYPE_STORAGE], drv_flags = 0,
     drv_ops = \<lparr>op_probe = 0, op_init = 0x9100, op_start = 0, op_stop = 0x9200, op_reset = 0, op_suspend = 0x9300, op_resume = 0x9400,
       op_remove = 0x9500, op_read = 0, op_write = 0, op_ioctl = 0, op_interrupt = 0\<rparr>,
     drv_next = 0, drv_private = 0, reference_count = 0, loaded = False\<rparr>"

definition dev_small :: dev_sys where
  "dev_small = intr.extend intr_small
     \<lparr>devs = [0xA000 \<mapsto> blank_device, 0xB000 \<mapsto> blank_device], drvs = [0x9000 \<mapsto> small_driver], reqs = Map.empty,
      device_list = 0, driver_list = 0, dm_stats = zero_manager_stats, next_device_id = 0, next_request_id = 0, dm_initialized = False\<rparr>"

definition env_small :: "dev_sys dev_env" where
  "env_small = \<lparr>errno_code = (\<lambda>_. 22), read_clock = (\<lambda>s. (7, s)), call_driver = (\<lambda>_ _ _ s. Some (0, s)), call_back = (\<lambda>_ _. Some), meanwhile = Some\<rparr>"

lemma env_small_ok: "well_behaved env_small"
proof -
  have "\<exists>t n. read_clock env_small s = (n, s\<lparr>fake_time := t\<rparr>)" for s
    by (rule exI [of _ "fake_time s"]) (simp add: env_small_def)
  then have "clock_frame env_small" by (simp add: clock_frame_def)
  moreover have "\<exists>r m. call_driver env_small f d x s = Some (r, s\<lparr>memory := m\<rparr>)" for f d x s
    by (rule exI [of _ 0], rule exI [of _ "memory s"]) (simp add: env_small_def)
  then have "driver_frame env_small" by (simp add: driver_frame_def)
  ultimately show ?thesis by (simp add: well_behaved_def env_small_def)
qed

definition dev_started :: dev_sys where
  "dev_started = snd (device_init dev_small)"

lemma dev_small_simps:
  "devs dev_small = [0xA000 \<mapsto> blank_device, 0xB000 \<mapsto> blank_device]" "drvs dev_small = [0x9000 \<mapsto> small_driver]"
  "\<not> dm_initialized dev_small" "reqs dev_small = Map.empty"
  by (simp_all add: dev_small_def intr.defs)

lemma dev_started_simps:
  "devs dev_started = [0xA000 \<mapsto> blank_device, 0xB000 \<mapsto> blank_device]" "drvs dev_started = [0x9000 \<mapsto> small_driver]"
  "next_device_id dev_started = 1"
  by (simp_all add: dev_started_def device_init_def dev_small_simps)

lemma dev_started_ok: "dev_inv [] [] dev_started \<and> counters [] dev_started"
  unfolding dev_started_def by (rule device_init_inv) (auto simp: dev_small_simps blank_device_def split: if_splits)


lemma blank_device_simps:
  "\<not> registered blank_device" "dev_type blank_device = DEVICE_TYPE_STORAGE" "di_name (dev_info blank_device) = ''ata0''"
  "driver blank_device = 0x9000" "op_init (drv_ops small_driver) = 0x9100"
  by (simp_all add: blank_device_def small_driver_def)

text \<open>The state with one device registered.\<close>

definition dev_one :: dev_sys where
  "dev_one = snd (the (device_register env_small 0xA000 dev_started))"

lemma dev_one_ok:
  "device_register env_small 0xA000 dev_started = Some (0, dev_one)" "dev_inv [0xA000] [] dev_one"
  "\<exists>dv. devs dev_one 0xA000 = Some dv \<and> device_id dv = 1 \<and> dev_type dv = DEVICE_TYPE_STORAGE \<and> timeout_ms (dev_config dv) = 100"
proof -
  have i: "dev_inv [] [] dev_started" using dev_started_ok by blast
  have b: "devs dev_started 0xA000 = Some blank_device" by (simp add: dev_started_simps)
  have dr: "driver blank_device \<noteq> 0 \<longrightarrow> drvs dev_started (driver blank_device) \<noteq> None"
    by (simp add: dev_started_simps blank_device_simps)
  obtain now t m st where reg: "device_register env_small 0xA000 dev_started = Some (0, register_effect 0xA000 blank_device now t m st dev_started)"
    using device_register_spec [OF _ _ _ _ _ b _ _ _ dr, of env_small] i env_small_ok
    by (auto simp: blank_device_simps dev_inv_def totals_def well_behaved_def)
  then have one: "dev_one = register_effect 0xA000 blank_device now t m st dev_started" by (simp add: dev_one_def)
  show "device_register env_small 0xA000 dev_started = Some (0, dev_one)" using reg one by simp
  show "dev_inv [0xA000] [] dev_one" unfolding one
    by (rule register_inv [OF i _ b _ _ dr]) (simp_all add: blank_device_simps dev_started_simps)
  show "\<exists>dv. devs dev_one 0xA000 = Some dv \<and> device_id dv = 1 \<and> dev_type dv = DEVICE_TYPE_STORAGE \<and> timeout_ms (dev_config dv) = 100"
    by (simp add: one dev_started_simps blank_device_simps registered_as_def) (simp add: blank_device_def)
qed

section \<open>What the device framework promises\<close>







text \<open>
  C21: \<^verbatim>\<open>device_find_by_type\<close> returns: it writes to the caller's array the first devices of the type in list order, at most as many as the array
  holds, returns their number, and writes nothing outside the array.
\<close>

theorem device_find_by_type_correct:
  assumes inv: "dev_inv ds vs s" and a: "a \<noteq> 0" and n: "n \<noteq> 0"
  shows "\<exists>xs m. xs = take (unat n) (filter (\<lambda>d. dev_type (dev_at s d) = t) ds) \<and>
    device_find_by_type t a n s = Some (of_nat (length xs), s\<lparr>memory := m\<rparr>) \<and>
    (\<forall>i. i < length xs \<longrightarrow> load64 m (a + 8 * of_nat i) = xs ! i) \<and>
    (\<forall>x. 8 * length xs \<le> unat (x - a) \<longrightarrow> m x = memory s x)"
proof -
  define xs where "xs = take (unat n) (filter (\<lambda>d. dev_type (dev_at s d) = t) ds)"
  have len: "length xs < 2 ^ 32" using unat_less_2p32 [of n] unfolding xs_def by (simp add: min_def)
  let ?m = "write_array a 0 xs (memory s)"
  have "device_find_by_type t a n s = Some (of_nat (length xs), s\<lparr>memory := ?m\<rparr>)"
    using find_by_type_loop_spec [OF dev_inv_chain(2) [OF inv], of n 0 t a] dev_inv_chain(1) [OF inv] a n
    by (simp add: device_find_by_type_def xs_def)
  moreover have "load64 ?m (a + 8 * of_nat i) = xs ! i" if "i < length xs" for i
  proof -
    have "(ucast (of_nat i :: u32) :: u64) = of_nat i"
      using that len by (intro word_unat_eq_iff [THEN iffD2]) (simp add: unsigned_ucast_eq take_bit_nat_eq_self unat_of_nat)
    then show ?thesis using write_array_read [of 0 xs i a "memory s"] len that by simp
  qed
  moreover have "?m x = memory s x" if "8 * length xs \<le> unat (x - a)" for x
    using write_array_outside [of 0 xs x a] len that by simp
  ultimately show ?thesis unfolding xs_def by blast
qed


theorem device_find_by_type_correct_witness:
  "\<exists>m. device_find_by_type DEVICE_TYPE_STORAGE 0x7000 4 dev_one = Some (1, dev_one\<lparr>memory := m\<rparr>) \<and> load64 m 0x7000 = 0xA000"
  using device_find_by_type_correct [OF dev_one_ok(2), of "0x7000" 4 DEVICE_TYPE_STORAGE] dev_one_ok(3) by auto

section \<open>Requests that time out\<close>

text \<open>The clock stands still during a scan, and a callback returns and writes nothing but memory.\<close>

definition still_clock :: "u64 \<Rightarrow> 'a dev_sys_scheme dev_env \<Rightarrow> bool" where
  "still_clock now e \<longleftrightarrow> (\<forall>s. read_clock e s = (now, s))"

definition callback_frame :: "'a dev_sys_scheme dev_env \<Rightarrow> bool" where
  "callback_frame e \<longleftrightarrow> (\<forall>f q s. \<exists>m. call_back e f q s = Some (s\<lparr>memory := m\<rparr>))"

definition late :: "u64 \<Rightarrow> device \<Rightarrow> device_io_request \<Rightarrow> bool" where
  "late now dv r \<longleftrightarrow> now - io_timestamp r > ucast (timeout_ms (dev_config dv))"

definition count_timeout :: "device_manager_stats \<Rightarrow> device_manager_stats" where
  "count_timeout st = st\<lparr>pending_requests := dec (pending_requests st), completed_requests := completed_requests st + 1,
     failed_requests := failed_requests st + 1\<rparr>"

text \<open>The state after the requests of one device have changed.\<close>

definition io_effect :: "u64 \<Rightarrow> device \<Rightarrow> mem \<Rightarrow> device_io_request store \<Rightarrow> (device_manager_stats \<Rightarrow> device_manager_stats) \<Rightarrow>
    'a dev_sys_scheme \<Rightarrow> 'a dev_sys_scheme" where
  "io_effect d dv m h c s = s\<lparr>reqs := h, devs := (devs s)(d \<mapsto> dv), dm_stats := c (dm_stats s), memory := m\<rparr>"

lemma io_effect_simps [simp]:
  "reqs (io_effect d dv m h c s) = h" "devs (io_effect d dv m h c s) = (devs s)(d \<mapsto> dv)" "dm_stats (io_effect d dv m h c s) = c (dm_stats s)"
  "device_list (io_effect d dv m h c s) = device_list s" "memory (io_effect d dv m h c s) = m"
  by (simp_all add: io_effect_def)

lemma io_effect_comp: "io_effect d dv' m' h' c' (io_effect d dv m h c s) = io_effect d dv' m' h' (c' \<circ> c) s"
  by (simp add: io_effect_def)

lemma io_effect_dev: "upd_dev d f (io_effect d dv m h c s) = Some (io_effect d (f dv) m h c s)"
  by (simp add: upd_dev_def io_effect_def)

lemma io_effect_req: "h p = Some r \<Longrightarrow> upd_req p f (io_effect d dv m h c s) = Some (io_effect d dv m (h(p \<mapsto> f r)) c s)"
  by (simp add: upd_req_def io_effect_def)

lemma complete_timeout:
  assumes cl: "still_clock now e" and cb: "callback_frame e" and q: "q \<noteq> 0" "reqs s q = Some r" "io_device r = d" "d \<noteq> 0"
    and d: "devs s d = Some dv"
  shows "\<exists>m st. complete_request e q DEVICE_IO_TIMEOUT s =
    Some (io_effect d (dv\<lparr>dev_stats := st\<rparr>) m ((reqs s)(q \<mapsto> r\<lparr>io_status := DEVICE_IO_TIMEOUT\<rparr>)) count_timeout s)"
proof -
  let ?r = "r\<lparr>io_status := DEVICE_IO_TIMEOUT\<rparr>"
  define st where "st = time_request now ?r (count_request ?r (dev_stats dv))"
  define s1 where "s1 = s\<lparr>reqs := (reqs s)(q \<mapsto> ?r), devs := (devs s)(d \<mapsto> dv\<lparr>dev_stats := st\<rparr>), dm_stats := count_timeout (dm_stats s)\<rparr>"
  have "complete_request e q DEVICE_IO_TIMEOUT s = (if io_callback r \<noteq> 0 then call_back e (io_callback r) q s1 else Some s1)"
    using cl q d
    by (simp add: complete_request_def upd_req_def update_device_stats_def upd_dev_def still_clock_def s1_def st_def count_timeout_def)
  moreover obtain m where "call_back e (io_callback r) q s1 = Some (s1\<lparr>memory := m\<rparr>)" using cb unfolding callback_frame_def by blast
  moreover have "s1 = io_effect d (dv\<lparr>dev_stats := st\<rparr>) (memory s) ((reqs s)(q \<mapsto> ?r)) count_timeout s" by (simp add: s1_def io_effect_def)
  moreover have "s1\<lparr>memory := m\<rparr> = io_effect d (dv\<lparr>dev_stats := st\<rparr>) m ((reqs s)(q \<mapsto> ?r)) count_timeout s" by (simp add: s1_def io_effect_def)
  ultimately show ?thesis by metis
qed

text \<open>
  What a scan does to the requests of a queue, from the link \<open>p\<close> on: those that are late are taken off and marked, the others stay, in
  the same order. \<open>a\<close> and \<open>a'\<close> are the head of the queue before and after, \<open>h\<close> and \<open>h'\<close> the requests.
\<close>

definition link_of :: "u64 \<Rightarrow> u64 \<Rightarrow> device_io_request store \<Rightarrow> u64" where
  "link_of p a h = (if p = 0 then a else io_next (the (h p)))"

definition scanned :: "(device_io_request \<Rightarrow> bool) \<Rightarrow> u64 \<Rightarrow> u64 list \<Rightarrow> u64 \<Rightarrow> device_io_request store \<Rightarrow> u64 \<Rightarrow> device_io_request store \<Rightarrow> bool" where
  "scanned L p qs a h a' h' \<longleftrightarrow>
     (p \<noteq> 0 \<longrightarrow> a' = a \<and> (\<exists>l. h' p = Some (set_io_next l (the (h p))))) \<and>
     chain io_next h' (link_of p a' h') (filter (\<lambda>q. \<not> L (the (h q))) qs) 0 \<and>
     (\<forall>q. q \<notin> set qs \<longrightarrow> q \<noteq> p \<longrightarrow> h' q = h q) \<and>
     (\<forall>q\<in>set qs. if L (the (h q)) then io_status (the (h' q)) = DEVICE_IO_TIMEOUT
                else \<exists>l. h' q = Some (set_io_next l (the (h q))))"

lemma scanned_Nil:
  assumes "link_of p a h = 0" and "p \<noteq> 0 \<longrightarrow> h p \<noteq> None"
  shows "scanned L p [] a h a h"
proof -
  have "r = set_io_next (io_next r) r" for r by (simp add: set_io_next_def)
  then have "p \<noteq> 0 \<longrightarrow> (\<exists>l. h p = Some (set_io_next l (the (h p))))" using assms(2) by (metis option.exhaust_sel)
  then show ?thesis using assms(1) by (simp add: scanned_def)
qed

lemma scanned_keep:
  assumes sc: "scanned L q qs a h a' h'" and q: "h q = Some r" "\<not> L r" "q \<noteq> 0" "q \<notin> set qs"
    and p: "p \<notin> set (q # qs)" "link_of p a h = q" "p \<noteq> 0 \<longrightarrow> h p \<noteq> None"
  shows "scanned L p (q # qs) a h a' h'"
proof -
  obtain l where l: "a' = a" "h' q = Some (set_io_next l r)" using sc q by (auto simp: scanned_def)
  have hp: "h' p = h p" using sc p q by (auto simp: scanned_def)
  have "r = set_io_next (io_next r) r" for r by (simp add: set_io_next_def)
  then have "p \<noteq> 0 \<longrightarrow> (\<exists>l. h' p = Some (set_io_next l (the (h p))))" using p(3) hp by (metis option.exhaust_sel)
  moreover have "link_of p a' h' = q" using p(2) hp l by (simp add: link_of_def split: if_splits)
  ultimately show ?thesis using sc q l by (auto simp: scanned_def link_of_def)
qed

lemma scanned_drop:
  assumes sc: "scanned L p qs a1 h1 a' h'" and q: "h q = Some r" "L r" "q \<notin> set qs"
    and p: "p \<notin> set (q # qs)" "p \<noteq> 0 \<longrightarrow> h p \<noteq> None"
    and step: "p \<noteq> 0 \<longrightarrow> a1 = a" "h1 = (if p = 0 then h else h(p \<mapsto> set_io_next (io_next r) (the (h p))))(q \<mapsto> r\<lparr>io_status := DEVICE_IO_TIMEOUT\<rparr>)"
  shows "scanned L p (q # qs) a h a' h'"
proof -
  have same: "h1 c = h c" if "c \<noteq> q" "c \<noteq> p" for c using step(2) that by auto
  have sameqs: "h1 c = h c" if "c \<in> set qs" for c using same [of c] q(3) p(1) that by auto
  have f: "filter (\<lambda>c. \<not> L (the (h1 c))) qs = filter (\<lambda>c. \<not> L (the (h c))) qs"
    by (rule filter_cong) (use sameqs in auto)
  have h'q: "h' q = Some (r\<lparr>io_status := DEVICE_IO_TIMEOUT\<rparr>)" using sc q(3) p(1) step(2) by (auto simp: scanned_def)
  have "p \<noteq> 0 \<longrightarrow> (\<exists>l. h' p = Some (set_io_next l (the (h p))))"
  proof
    assume p0: "p \<noteq> 0"
    then obtain l where "h' p = Some (set_io_next l (the (h1 p)))" using sc by (auto simp: scanned_def)
    then show "\<exists>l. h' p = Some (set_io_next l (the (h p)))" using step(2) p0 p(1) by (auto simp: set_io_next_def)
  qed
  moreover have "\<forall>c\<in>set qs. if L (the (h c)) then io_status (the (h' c)) = DEVICE_IO_TIMEOUT else \<exists>l. h' c = Some (set_io_next l (the (h c)))"
    using sc unfolding scanned_def by (simp add: sameqs) (metis sameqs)
  moreover have "\<forall>c. c \<notin> set (q # qs) \<longrightarrow> c \<noteq> p \<longrightarrow> h' c = h c" using sc same by (simp add: scanned_def)
  ultimately show ?thesis using sc q h'q step(1) f by (simp add: scanned_def)
qed

lemma process_queue_spec:
  assumes cl: "still_clock now e" and cb: "callback_frame e" and d: "d \<noteq> 0"
  shows "devs s d = Some dv \<Longrightarrow> read_link d p s = Some b \<Longrightarrow> chain io_next (reqs s) b qs 0 \<Longrightarrow> p \<notin> set qs \<Longrightarrow>
    \<forall>q\<in>set qs. io_device (the (reqs s q)) = d \<Longrightarrow>
    \<exists>st a m h. process_queue e d p s =
        Some (io_effect d (dv\<lparr>dev_stats := st, request_queue := a\<rparr>) m h
          (count_timeout ^^ length (filter (\<lambda>q. late now dv (the (reqs s q))) qs)) s) \<and>
      scanned (late now dv) p qs (request_queue dv) (reqs s) a h"
proof (induction qs arbitrary: s dv p b)
  case Nil
  have "process_queue e d p s = Some s" using Nil by (subst process_queue.simps) simp
  moreover have "io_effect d (dv\<lparr>dev_stats := dev_stats dv, request_queue := request_queue dv\<rparr>) (memory s) (reqs s) (count_timeout ^^ 0) s = s"
    using Nil.prems(1) by (simp add: io_effect_def fun_upd_idem)
  moreover have "scanned (late now dv) p [] (request_queue dv) (reqs s) (request_queue dv) (reqs s)"
    using Nil.prems by (intro scanned_Nil) (auto simp: read_link_def link_of_def split: if_splits)
  ultimately show ?case by (metis filter.simps(1) list.size(3))
next
  case (Cons q qs)
  obtain r where q: "b = q" "q \<noteq> 0" "reqs s q = Some r" "chain io_next (reqs s) (io_next r) qs 0" using Cons.prems(3) by auto
  have nq: "q \<notin> set qs" using chain_distinct [OF Cons.prems(3)] by simp
  have p: "link_of p (request_queue dv) (reqs s) = q" "p \<noteq> 0 \<longrightarrow> reqs s p \<noteq> None"
    using Cons.prems(1,2) q(1) by (auto simp: read_link_def link_of_def split: if_splits)
  show ?case
  proof (cases "late now dv r")
    case False
    have "process_queue e d p s = process_queue e d q s"
      using Cons.prems(1,2) q False cl by (subst process_queue.simps) (simp add: still_clock_def late_def)
    moreover obtain st a m h where "process_queue e d q s =
        Some (io_effect d (dv\<lparr>dev_stats := st, request_queue := a\<rparr>) m h
          (count_timeout ^^ length (filter (\<lambda>q. late now dv (the (reqs s q))) qs)) s)"
      and sc: "scanned (late now dv) q qs (request_queue dv) (reqs s) a h"
      using Cons.IH [OF Cons.prems(1) _ q(4) nq] q Cons.prems(5) by (auto simp: read_link_def)
    moreover note scanned_keep [OF sc q(3) False q(2) nq Cons.prems(4) p]
    ultimately show ?thesis using False q(3) by auto
  next
    case True
    let ?r = "r\<lparr>io_status := DEVICE_IO_TIMEOUT\<rparr>"
    obtain m1 st1 where c1: "complete_request e q DEVICE_IO_TIMEOUT s =
        Some (io_effect d (dv\<lparr>dev_stats := st1\<rparr>) m1 ((reqs s)(q \<mapsto> ?r)) count_timeout s)"
      using complete_timeout [OF cl cb q(2,3) _ d Cons.prems(1)] Cons.prems(5) q(3) by auto
    define dv1 where "dv1 = dv\<lparr>dev_stats := st1, request_queue := (if p = 0 then io_next r else request_queue dv)\<rparr>"
    define h1 where "h1 = (if p = 0 then reqs s else (reqs s)(p \<mapsto> set_io_next (io_next r) (the (reqs s p))))(q \<mapsto> ?r)"
    define s1 where "s1 = io_effect d dv1 m1 h1 count_timeout s"
    have w: "write_link d p (io_next r) (io_effect d (dv\<lparr>dev_stats := st1\<rparr>) m1 ((reqs s)(q \<mapsto> ?r)) count_timeout s) = Some s1"
      using p(2) Cons.prems(4)
      by (auto simp: write_link_def io_effect_dev io_effect_req s1_def dv1_def h1_def fun_upd_twist)
    have pq: "process_queue e d p s = process_queue e d p s1"
      using Cons.prems(1,2) q True cl c1 w by (subst process_queue.simps) (simp add: still_clock_def late_def)
    have sameqs: "h1 c = reqs s c" if "c \<in> set qs" for c using nq Cons.prems(4) that by (auto simp: h1_def)
    have lt: "late now dv1 = late now dv" by (simp add: late_def [abs_def] dv1_def)
    have "chain io_next h1 (io_next r) qs 0" using q(4) by (rule chain_cong [rotated]) (simp add: sameqs)
    moreover have "read_link d p s1 = Some (io_next r)"
      using p(2) Cons.prems(4) by (auto simp: read_link_def s1_def dv1_def h1_def)
    ultimately obtain st a m h where ih: "process_queue e d p s1 =
        Some (io_effect d (dv1\<lparr>dev_stats := st, request_queue := a\<rparr>) m h
          (count_timeout ^^ length (filter (\<lambda>q. late now dv1 (the (reqs s1 q))) qs)) s1)"
      and sc: "scanned (late now dv1) p qs (request_queue dv1) (reqs s1) a h"
      using Cons.IH [of s1 dv1 p "io_next r"] Cons.prems(4,5) by (auto simp: s1_def sameqs)
    have f: "filter (\<lambda>q. late now dv1 (the (reqs s1 q))) qs = filter (\<lambda>q. late now dv (the (reqs s q))) qs"
      by (rule filter_cong) (simp_all add: s1_def sameqs lt)
    have "scanned (late now dv) p (q # qs) (request_queue dv) (reqs s) a h"
      by (rule scanned_drop [OF sc [unfolded lt] q(3) True nq Cons.prems(4) p(2)]) (simp_all add: dv1_def s1_def h1_def)
    moreover have "process_queue e d p s =
        Some (io_effect d (dv\<lparr>dev_stats := st, request_queue := a\<rparr>) m h
          (count_timeout ^^ length (filter (\<lambda>q. late now dv (the (reqs s q))) (q # qs))) s)"
      unfolding pq ih f unfolding s1_def io_effect_comp using True q(3) by (simp add: dv1_def funpow_Suc_right del: funpow.simps)
    ultimately show ?thesis by blast
  qed
qed


text \<open>The same for one device after a scan of several: the queue \<open>Q d\<close> has lost its late requests.\<close>

definition expired :: "u64 \<Rightarrow> u64 list \<Rightarrow> u64 \<Rightarrow> 'a dev_sys_scheme \<Rightarrow> 'a dev_sys_scheme \<Rightarrow> bool" where
  "expired now qs d s s' \<longleftrightarrow>
     (\<exists>st a. devs s' d = Some ((dev_at s d)\<lparr>dev_stats := st, request_queue := a\<rparr>) \<and>
        chain io_next (reqs s') a (filter (\<lambda>q. \<not> late now (dev_at s d) (the (reqs s q))) qs) 0) \<and>
     (\<forall>q\<in>set qs. if late now (dev_at s d) (the (reqs s q)) then io_status (the (reqs s' q)) = DEVICE_IO_TIMEOUT
                else \<exists>l. reqs s' q = Some (set_io_next l (the (reqs s q))))"

lemma expired_cong:
  assumes "expired now qs d s s1" and "devs s' d = devs s1 d" and "\<And>q. q \<in> set qs \<Longrightarrow> reqs s' q = reqs s1 q"
  shows "expired now qs d s s'"
proof -
  have "chain io_next (reqs s') a (filter P qs) 0" if "chain io_next (reqs s1) a (filter P qs) 0" for a P
    using that by (rule chain_cong [rotated]) (use assms(3) in auto)
  then show ?thesis using assms unfolding expired_def by (auto 4 4)
qed

lemma expired_start:
  assumes "expired now qs d s1 s'" and "devs s1 d = devs s d" and "\<And>q. q \<in> set qs \<Longrightarrow> reqs s1 q = reqs s q"
  shows "expired now qs d s s'"
proof -
  have "filter (\<lambda>q. \<not> late now dv (the (reqs s1 q))) qs = filter (\<lambda>q. \<not> late now dv (the (reqs s q))) qs" for dv
    by (rule filter_cong) (use assms(3) in auto)
  then show ?thesis using assms unfolding expired_def by simp (metis assms(3))
qed

definition queues :: "(u64 \<Rightarrow> u64 list) \<Rightarrow> u64 list \<Rightarrow> 'a dev_sys_scheme \<Rightarrow> bool" where
  "queues Q ds s \<longleftrightarrow> (\<forall>d\<in>set ds. chain io_next (reqs s) (request_queue (dev_at s d)) (Q d) 0 \<and> (\<forall>q\<in>set (Q d). io_device (the (reqs s q)) = d))"

lemma queues_disjoint: "queues Q ds s \<Longrightarrow> c \<in> set ds \<Longrightarrow> d \<in> set ds \<Longrightarrow> q \<in> set (Q c) \<Longrightarrow> q \<in> set (Q d) \<Longrightarrow> c = d"
  unfolding queues_def by metis

lemma queues_cong:
  assumes "queues Q ds s" and "\<And>d. d \<in> set ds \<Longrightarrow> devs s' d = devs s d" and "\<And>d q. d \<in> set ds \<Longrightarrow> q \<in> set (Q d) \<Longrightarrow> reqs s' q = reqs s q"
  shows "queues Q ds s'"
  unfolding queues_def
proof
  fix d assume d: "d \<in> set ds"
  have "chain io_next (reqs s') (request_queue (dev_at s d)) (Q d) 0"
    by (rule chain_cong [of "Q d" "reqs s"]) (use assms(1,3) d in \<open>auto simp: queues_def\<close>)
  then show "chain io_next (reqs s') (request_queue (dev_at s' d)) (Q d) 0 \<and> (\<forall>q\<in>set (Q d). io_device (the (reqs s' q)) = d)"
    using assms d by (simp add: queues_def)
qed

definition late_count :: "u64 \<Rightarrow> (u64 \<Rightarrow> u64 list) \<Rightarrow> u64 list \<Rightarrow> 'a dev_sys_scheme \<Rightarrow> nat" where
  "late_count now Q ds s = (\<Sum>d\<leftarrow>ds. length (filter (\<lambda>q. late now (dev_at s d) (the (reqs s q))) (Q d)))"

lemma process_devices_spec:
  assumes cl: "still_clock now e" and cb: "callback_frame e"
  shows "chain dev_next (devs s) a ds 0 \<Longrightarrow> queues Q ds s \<Longrightarrow>
    \<exists>s'. process_devices e a s = Some s' \<and> (\<forall>d\<in>set ds. expired now (Q d) d s s') \<and>
      s' = s\<lparr>reqs := reqs s', devs := devs s', dm_stats := (count_timeout ^^ late_count now Q ds s) (dm_stats s), memory := memory s'\<rparr> \<and>
      (\<forall>c. c \<notin> set ds \<longrightarrow> devs s' c = devs s c) \<and> (\<forall>q. q \<notin> (\<Union>d\<in>set ds. set (Q d)) \<longrightarrow> q \<noteq> 0 \<longrightarrow> reqs s' q = reqs s q)"
proof (induction ds arbitrary: a s)
  case Nil
  then show ?case by (subst process_devices.simps) (simp add: late_count_def)
next
  case (Cons d ds)
  obtain dv where d: "a = d" "d \<noteq> 0" "devs s d = Some dv" "chain dev_next (devs s) (dev_next dv) ds 0" using Cons.prems(1) by auto
  have nd: "d \<notin> set ds" using chain_distinct [OF Cons.prems(1)] by simp
  have qd: "chain io_next (reqs s) (request_queue dv) (Q d) 0" "\<forall>q\<in>set (Q d). io_device (the (reqs s q)) = d"
    using Cons.prems(2) d(3) by (auto simp: queues_def)
  have z: "0 \<notin> set (Q c)" if "c \<in> set (d # ds)" for c
    using Cons.prems(2) that chain_mem [of io_next "reqs s" _ "Q c" 0 0] by (auto simp: queues_def)
  obtain st hd m h where pq: "process_queue e d 0 s = Some (io_effect d (dv\<lparr>dev_stats := st, request_queue := hd\<rparr>) m h
        (count_timeout ^^ length (filter (\<lambda>q. late now dv (the (reqs s q))) (Q d))) s)"
    and sc: "scanned (late now dv) 0 (Q d) (request_queue dv) (reqs s) hd h"
    using process_queue_spec [OF cl cb d(2,3) _ qd(1) _ qd(2), of 0] z [of d] d(3) by (auto simp: read_link_def)
  define n where "n = length (filter (\<lambda>q. late now dv (the (reqs s q))) (Q d))"
  define s1 where "s1 = io_effect d (dv\<lparr>dev_stats := st, request_queue := hd\<rparr>) m h (count_timeout ^^ n) s"
  have ex1: "expired now (Q d) d s s1" using sc d(3) by (auto simp: expired_def scanned_def link_of_def s1_def)
  have r1: "reqs s1 q = reqs s q" if "q \<notin> set (Q d)" "q \<noteq> 0" for q using sc that by (simp add: scanned_def s1_def)
  have d1: "devs s1 c = devs s c" if "c \<noteq> d" for c using that by (simp add: s1_def)
  have d1': "devs s1 c = devs s c" if "c \<in> set ds" for c using d1 that nd by metis
  have keep: "reqs s1 q = reqs s q" if "c \<in> set ds" "q \<in> set (Q c)" for c q
    by (rule r1) (use queues_disjoint [OF Cons.prems(2), of c d q] z [of c] that nd in auto)
  have ch1: "chain dev_next (devs s1) (dev_next dv) ds 0" using d(4) nd by (simp add: s1_def)
  have q1: "queues Q ds s1"
    by (rule queues_cong [of _ _ s]) (use Cons.prems(2) d1' keep in \<open>auto simp: queues_def\<close>)
  obtain s' where s': "process_devices e (dev_next dv) s1 = Some s'" "\<forall>d\<in>set ds. expired now (Q d) d s1 s'"
      "s' = s1\<lparr>reqs := reqs s', devs := devs s', dm_stats := (count_timeout ^^ late_count now Q ds s1) (dm_stats s1), memory := memory s'\<rparr>"
      "\<forall>c. c \<notin> set ds \<longrightarrow> devs s' c = devs s1 c" "\<forall>q. q \<notin> (\<Union>d\<in>set ds. set (Q d)) \<longrightarrow> q \<noteq> 0 \<longrightarrow> reqs s' q = reqs s1 q"
    using Cons.IH [OF ch1 q1] by (elim exE conjE) (rule that)
  have "process_devices e a s = Some s'"
    using pq s'(1) d by (subst process_devices.simps) (simp add: s1_def n_def)
  moreover have "expired now (Q c) c s s'" if "c \<in> set (d # ds)" for c
  proof (cases "c = d")
    case True
    have "reqs s' q = reqs s1 q" if "q \<in> set (Q d)" for q
      using s'(5) queues_disjoint [OF Cons.prems(2), of _ d q] z [of d] that nd by fastforce
    then show ?thesis using expired_cong [OF ex1, of s'] s'(4) nd True by blast
  next
    case False
    then have "c \<in> set ds" using that by simp
    then show ?thesis using expired_start [of now "Q c" c s1 s' s] s'(2) d1' keep by blast
  qed
  moreover define k where "k = late_count now Q ds s1"
  have lc: "late_count now Q (d # ds) s = k + n"
  proof -
    have "length (filter (\<lambda>q. late now (dev_at s1 c) (the (reqs s1 q))) (Q c)) = length (filter (\<lambda>q. late now (dev_at s c) (the (reqs s q))) (Q c))"
      if "c \<in> set ds" for c
      by (intro arg_cong [where f = length] filter_cong) (use d1' keep that in auto)
    then show ?thesis by (simp add: late_count_def k_def n_def d(3) cong: map_cong)
  qed
  have "s' = s\<lparr>reqs := reqs s', devs := devs s', dm_stats := (count_timeout ^^ late_count now Q (d # ds) s) (dm_stats s), memory := memory s'\<rparr>"
    by (subst s'(3) [folded k_def]) (simp add: lc s1_def io_effect_def funpow_add)
  moreover have "\<forall>c. c \<notin> set (d # ds) \<longrightarrow> devs s' c = devs s c" using s'(4) d1 by simp
  moreover have "\<forall>q. q \<notin> (\<Union>c\<in>set (d # ds). set (Q c)) \<longrightarrow> q \<noteq> 0 \<longrightarrow> reqs s' q = reqs s q" using s'(5) r1 by simp
  ultimately show ?case by (intro exI [of _ s'] conjI ballI)
qed


lemma expired_queues:
  assumes "queues Q ds s" and "\<forall>d\<in>set ds. expired now (Q d) d s s'"
  shows "queues (\<lambda>d. filter (\<lambda>q. \<not> late now (dev_at s d) (the (reqs s q))) (Q d)) ds s'"
  unfolding queues_def
proof
  fix d assume d: "d \<in> set ds"
  then have ex: "expired now (Q d) d s s'" using assms(2) by blast
  have "io_device (the (reqs s' q)) = d" if q: "q \<in> set (Q d)" "\<not> late now (dev_at s d) (the (reqs s q))" for q
  proof -
    obtain l where "reqs s' q = Some (set_io_next l (the (reqs s q)))" using ex q unfolding expired_def by metis
    then show ?thesis using assms(1) d q(1) by (simp add: queues_def set_io_next_def)
  qed
  then show "chain io_next (reqs s') (request_queue (dev_at s' d)) (filter (\<lambda>q. \<not> late now (dev_at s d) (the (reqs s q))) (Q d)) 0 \<and>
      (\<forall>q\<in>set (filter (\<lambda>q. \<not> late now (dev_at s d) (the (reqs s q))) (Q d)). io_device (the (reqs s' q)) = d)"
    using ex by (auto simp: expired_def)
qed

lemma expired_inv:
  assumes inv: "dev_inv ds vs s" and ex: "\<forall>d\<in>set ds. expired now (Q d) d s s'"
    and s': "s' = s\<lparr>reqs := reqs s', devs := devs s', dm_stats := (count_timeout ^^ n) (dm_stats s), memory := memory s'\<rparr>"
      "\<forall>c. c \<notin> set ds \<longrightarrow> devs s' c = devs s c"
  shows "dev_inv ds vs s'"
proof -
  have ct: "total_devices ((count_timeout ^^ n) st) = total_devices st" "devices_by_type ((count_timeout ^^ n) st) = devices_by_type st" for st
    by (induction n) (simp_all add: count_timeout_def)
  have f: "device_list s' = device_list s" "next_device_id s' = next_device_id s" "drvs s' = drvs s" "driver_list s' = driver_list s"
    "dm_initialized s' = dm_initialized s" "dm_stats s' = (count_timeout ^^ n) (dm_stats s)" by (subst s'(1), simp)+
  have at: "\<exists>dv st a. devs s d = Some dv \<and> devs s' d = Some (dv\<lparr>dev_stats := st, request_queue := a\<rparr>)" if mem: "d \<in> set ds" for d
  proof -
    obtain dv where "devs s d = Some dv" using listed_mem [of ds s d] inv mem unfolding dev_inv_def by blast
    moreover obtain st a where "devs s' d = Some ((dev_at s d)\<lparr>dev_stats := st, request_queue := a\<rparr>)"
      using ex mem unfolding expired_def by blast
    ultimately show ?thesis by (metis option.sel)
  qed
  have ident: "\<exists>dv. devs s d = Some dv \<and> same_identity dv' dv" if "devs s' d = Some dv'" for d dv'
    using at [of d] s'(2) that by (cases "d \<in> set ds") (auto simp: same_identity_def)
  have dom: "dom (devs s') = dom (devs s)"
  proof (rule set_eqI)
    fix d show "d \<in> dom (devs s') \<longleftrightarrow> d \<in> dom (devs s)" using at [of d] s'(2) by (cases "d \<in> set ds") auto
  qed
  have "listed ds s'"
    by (rule listed_cong [of ds s, OF _ f(1,2) ident [unfolded same_identity_def] dom]) (use inv in \<open>simp_all add: dev_inv_def f\<close>)
  moreover have "totals ds s'"
  proof (rule totals_cong [of ds s])
    show "dev_type (dev_at s' d) = dev_type (dev_at s d)" if "d \<in> set ds" for d using at [OF that] by auto
  qed (use inv in \<open>simp_all add: dev_inv_def f ct\<close>)
  ultimately show ?thesis using inv by (simp add: dev_inv_def f)
qed


text \<open>A device with one request that has waited for a second.\<close>

definition dev_waiting :: dev_sys where
  "dev_waiting = (restate 0xA000 ((dev_at dev_one 0xA000)\<lparr>request_queue := 0xC000\<rparr>) (memory dev_one) id dev_one)
     \<lparr>reqs := [0xC000 \<mapsto> zero_request\<lparr>io_device := 0xA000\<rparr>]\<rparr>"


section \<open>Where the framework goes wrong\<close>

text \<open>The device framework's part of the state, as one tuple; the heap's operations leave it alone.\<close>

definition dev_view where
  "dev_view s = (devs s, drvs s, reqs s, device_list s, driver_list s, dm_stats s, next_device_id s, next_request_id s, dm_initialized s, fake_time s)"

lemma heap_frame_view: "heap_frame s s' \<Longrightarrow> dev_view s' = dev_view (s :: 'a dev_sys_scheme)"
  by (erule heap_frameE) (simp add: dev_view_def)

text \<open>Creating a request takes one new object from the heap.\<close>

definition new_request :: "device_io_type \<Rightarrow> u64 \<Rightarrow> u64 \<Rightarrow> u64 \<Rightarrow> u64 \<Rightarrow> device_io_request" where
  "new_request ty off buf sz cb = zero_request\<lparr>io_type := ty, io_offset := off, io_buffer := buf, io_size := sz, io_callback := cb,
     io_status := DEVICE_IO_PENDING\<rparr>"

lemma device_create_request_spec:
  assumes inv: "heap_inv s" and ok: "kmalloc sizeof_request s \<noteq> Some (0, s)"
  shows "\<exists>q n s'. device_create_request ty off buf sz cb s = Some (q, s') \<and> q \<noteq> 0 \<and> heap_inv s' \<and> live_objects s' = insert (q, n) (live_objects s) \<and>
    q \<notin> fst ` live_objects s \<and> dev_view s' = dev_view (s\<lparr>reqs := (reqs s)(q \<mapsto> new_request ty off buf sz cb)\<rparr>)"
proof -
  obtain q s1 where q: "kmalloc sizeof_request s = Some (q, s1)" "q \<noteq> 0"
    using kheap.alloc_returns [OF inv _ _ ok] by (auto simp: sizeof_request_def)
  obtain n where n: "unat sizeof_request \<le> n" "q \<notin> fst ` live_objects s" "live_objects s1 = insert (q, n) (live_objects s)"
    "heap_inv s1" "heap_frame s s1"
    using kheap.alloc_fresh [OF inv _ _ q] by (auto simp: sizeof_request_def)
  let ?m = "memset q 0 sizeof_request (memory s1)"
  have b: "unat q + n < 2 ^ 64" using live_objects_bounds(2) [OF n(4), of q n] n(3) by simp
  have "?m x = memory s1 x" if "\<not> inside q n x" for x
    using that region_inside [of q 0 sizeof_request x n] n(1) b by (auto simp: memset_fill mem_fill_def)
  then have w: "heap_inv (s1\<lparr>memory := ?m\<rparr>) \<and> live_objects (s1\<lparr>memory := ?m\<rparr>) = live_objects s1"
    using heap_write_law [OF n(4), of q n] n(3) by blast
  define s' where "s' = s1\<lparr>memory := ?m, reqs := (reqs s1)(q \<mapsto> new_request ty off buf sz cb)\<rparr>"
  have "heap_inv s' \<and> live_objects s' = live_objects s1"
    using w heap_view_cong [of "s1\<lparr>memory := ?m\<rparr>" s'] by (simp add: s'_def)
  moreover have "device_create_request ty off buf sz cb s = Some (q, s')"
    using q by (simp add: device_create_request_def s'_def new_request_def)
  moreover have "dev_view s' = dev_view (s\<lparr>reqs := (reqs s)(q \<mapsto> new_request ty off buf sz cb)\<rparr>)"
    using heap_frame_view [OF n(5)] by (simp add: dev_view_def s'_def)
  ultimately show ?thesis using q(2) n(2,3) by auto
qed

lemma device_free_request_spec:
  assumes "heap_inv s" and "(q, n) \<in> live_objects s" and "q \<noteq> 0"
  shows "\<exists>s'. device_free_request q s = Some s' \<and> heap_inv s' \<and> live_objects s' = live_objects s - {(q, n)} \<and>
    dev_view s' = dev_view (s\<lparr>reqs := (reqs s)(q := None)\<rparr>)"
proof -
  obtain s1 where s1: "kfree q s = Some s1" "live_objects s1 = live_objects s - {(q, n)}" "heap_inv s1" "heap_frame s s1"
    using kheap.release_law [OF assms(1,2)] by blast
  define s' where "s' = s1\<lparr>reqs := (reqs s1)(q := None)\<rparr>"
  have "heap_inv s' = heap_inv s1" "live_objects s' = live_objects s1"
    using heap_view_cong [of s' s1] by (simp_all add: s'_def)
  moreover have "device_free_request q s = Some s'" using s1(1) assms(3) by (simp add: device_free_request_def s'_def)
  moreover have "dev_view s' = dev_view (s\<lparr>reqs := (reqs s)(q := None)\<rparr>)"
    using heap_frame_view [OF s1(4)] by (simp add: dev_view_def s'_def)
  ultimately show ?thesis using s1 by auto
qed

text \<open>A request that the driver cannot serve is completed with an error, and stays in the queue.\<close>

lemma submit_unsupported:
  assumes cl: "still_clock now e" and er: "0 < errno_code e ENOSYS"
    and d: "d \<noteq> 0" "devs s d = Some dv" "registered dv" "dev_state dv = DEVICE_STATE_READY"
    and q: "q \<noteq> 0" "reqs s q = Some (new_request DEVICE_IO_READ off buf sz 0)" and op: "driver_op op_read d s = Some 0"
  shows "\<exists>r dv' c. device_submit_request e d q s = Some (err e ENOSYS, s\<lparr>next_request_id := next_request_id s + 1, reqs := (reqs s)(q \<mapsto> r),
      devs := (devs s)(d \<mapsto> dv'), dm_stats := c\<rparr>) \<and> request_queue dv' = q \<and> dev_next dv' = dev_next dv"
proof -
  have op': "driver_op op_read d (s\<lparr>next_request_id := i, reqs := h, devs := (devs s)(d \<mapsto> dv\<lparr>request_queue := q\<rparr>), dm_stats := c\<rparr>) = Some 0" for i h c
    using op d(2) by (simp add: driver_op_def split: if_splits)
  define r where "r = (new_request DEVICE_IO_READ off buf sz 0)\<lparr>request_id := next_request_id s, io_device := d, io_status := DEVICE_IO_ERROR,
      io_timestamp := now, io_next := request_queue dv\<rparr>"
  define dv' where "dv' = dv\<lparr>request_queue := q, dev_stats := time_request now r (count_request r (dev_stats dv))\<rparr>"
  define c where "c = (dm_stats s)\<lparr>total_requests := total_requests (dm_stats s) + 1, pending_requests := dec (pending_requests (dm_stats s) + 1),
      completed_requests := completed_requests (dm_stats s) + 1, failed_requests := failed_requests (dm_stats s) + 1\<rparr>"
  have "device_submit_request e d q s = Some (err e ENOSYS, s\<lparr>next_request_id := next_request_id s + 1, reqs := (reqs s)(q \<mapsto> r),
      devs := (devs s)(d \<mapsto> dv'), dm_stats := c\<rparr>)"
    using cl er d q op'
    by (simp add: device_submit_request_def upd_req_def upd_dev_def still_clock_def dispatch_request_def new_request_def set_io_next_def
        complete_request_def update_device_stats_def zero_request_def r_def dv'_def c_def)
  moreover have "request_queue dv' = q" "dev_next dv' = dev_next dv" by (simp_all add: dv'_def)
  ultimately show ?thesis by blast
qed

text \<open>
  \<^verbatim>\<open>device_read\<close> frees that request without taking it off the queue: the device's queue then points to freed memory, and the next pass over the queues
  reads it.
\<close>

lemma device_read_dangling:
  assumes inv: "heap_inv s" and ok: "kmalloc sizeof_request s \<noteq> Some (0, s)" and cl: "still_clock now e" and er: "0 < errno_code e ENOSYS"
    and d: "d \<noteq> 0" "devs s d = Some dv" "registered dv" "dev_state dv = DEVICE_STATE_READY" "device_list s = d"
    and op: "driver_op op_read d s = Some 0" and args: "buf \<noteq> 0" "sz \<noteq> 0"
  shows "\<exists>s'. device_read e d off buf sz s = Some (err e ENOSYS, s') \<and> live_objects s' = live_objects s \<and>
    request_queue (dev_at s' d) \<noteq> 0 \<and> reqs s' (request_queue (dev_at s' d)) = None \<and> device_process_requests e s' = None"
proof -
  obtain q n s1 where q: "device_create_request DEVICE_IO_READ off buf sz 0 s = Some (q, s1)" "q \<noteq> 0" "heap_inv s1"
    "live_objects s1 = insert (q, n) (live_objects s)" "q \<notin> fst ` live_objects s"
    "dev_view s1 = dev_view (s\<lparr>reqs := (reqs s)(q \<mapsto> new_request DEVICE_IO_READ off buf sz 0)\<rparr>)"
    using device_create_request_spec [OF inv ok] by blast
  have v1: "devs s1 = devs s" "drvs s1 = drvs s" "device_list s1 = d" "reqs s1 q = Some (new_request DEVICE_IO_READ off buf sz 0)"
    using q(6) d(5) by (simp_all add: dev_view_def)
  have op1: "driver_op op_read d s1 = Some 0" using op unfolding driver_op_def v1(1,2) .
  obtain r dv' c where s2: "device_submit_request e d q s1 = Some (err e ENOSYS, s1\<lparr>next_request_id := next_request_id s1 + 1,
      reqs := (reqs s1)(q \<mapsto> r), devs := (devs s1)(d \<mapsto> dv'), dm_stats := c\<rparr>)" "request_queue dv' = q"
    using submit_unsupported [OF cl er d(1) _ d(3,4) q(2) v1(4) op1] d(2) v1(1) by auto
  define s2 where "s2 = s1\<lparr>next_request_id := next_request_id s1 + 1, reqs := (reqs s1)(q \<mapsto> r), devs := (devs s1)(d \<mapsto> dv'), dm_stats := c\<rparr>"
  have "heap_inv s2" "live_objects s2 = live_objects s1" using heap_view_cong [of s2 s1] q(3) by (simp_all add: s2_def)
  then obtain s3 where s3: "device_free_request q s2 = Some s3" "live_objects s3 = live_objects s1 - {(q, n)}"
    "dev_view s3 = dev_view (s2\<lparr>reqs := (reqs s2)(q := None)\<rparr>)"
    using device_free_request_spec [of s2 q n] q(2,4) by auto
  have v3: "devs s3 d = Some dv'" "reqs s3 q = None" "device_list s3 = d" using s3(3) v1(3) by (simp_all add: dev_view_def s2_def)
  have "device_process_requests e s3 = None"
    using v3 s2(2) q(2) d(1) cl unfolding device_process_requests_def
    by (subst process_devices.simps, subst process_queue.simps) (simp add: read_link_def still_clock_def)
  moreover have "device_read e d off buf sz s = Some (err e ENOSYS, s3)"
    using d(1) args q(1,2) s2(1) s3(1) er by (simp add: device_read_def s2_def)
  moreover have "live_objects s3 = live_objects s" using s3(2) q(4,5) by force
  ultimately show ?thesis using v3 s2(2) q(2) by auto
qed

text \<open>\<^verbatim>\<open>device_start\<close> takes a device out of suspension without counting it so.\<close>

lemma device_start_miscounts:
  assumes inv: "dev_inv ds vs s" and cnt: "counters ds s" and d: "d \<in> set ds" "devs s d = Some dv" "dev_state dv = DEVICE_STATE_SUSPENDED"
    and op: "driver_op op_start d s = Some f" "f \<noteq> 0" "call_driver e f d No_Arg s = Some (0, s\<lparr>memory := m\<rparr>)"
  shows "\<exists>s'. device_start e d s = Some (0, s') \<and> dev_inv ds vs s' \<and> \<not> counters ds s'"
proof -
  define c where "c = (\<lambda>st :: device_manager_stats. st\<lparr>active_devices := active_devices st + 1\<rparr>)"
  define s' where "s' = restate d (dv\<lparr>dev_state := DEVICE_STATE_READY\<rparr>) m c s"
  have dv: "d \<noteq> 0" "registered dv" using listed_mem [of ds s d] inv d unfolding dev_inv_def by auto
  have "device_start e d s = Some (0, s')"
    using dv d op by (simp add: device_start_def upd_dev_def s'_def restate_def c_def)
  moreover have "dev_inv ds vs s'" unfolding s'_def
    by (rule restate_inv [OF inv d(2)]) (simp_all add: same_identity_def c_def)
  moreover have "\<not> counters ds s'"
  proof
    assume c': "counters ds s'"
    let ?n = "\<lambda>s. how_many (\<lambda>dv. dev_state dv = DEVICE_STATE_SUSPENDED) (devs s) ds"
    have l: "listed ds s" using inv by (simp add: dev_inv_def)
    have "?n s' + 1 = ?n s"
      using how_many_upd [OF d(1) listed_distinct [OF l], of "\<lambda>dv. dev_state dv = DEVICE_STATE_SUSPENDED" "devs s" "dv\<lparr>dev_state := DEVICE_STATE_READY\<rparr>"] d(2,3)
      by (simp add: s'_def)
    moreover have "(of_nat (?n s') :: u32) = of_nat (?n s)" using cnt c' by (simp add: counters_def s'_def c_def)
    moreover have "?n s < 2 ^ 32" "?n s' < 2 ^ 32" using listed_few [OF l] how_many_le [of _ _ ds] by (meson le_less_trans)+
    ultimately show False by (simp add: of_nat_inverse word_unat_eq_iff unat_of_nat)
  qed
  ultimately show ?thesis by blast
qed

text \<open>\<^verbatim>\<open>device_unregister\<close> tests the state after it has overwritten it: a failed device stays counted as failed.\<close>

lemma device_unregister_miscounts:
  assumes inv: "dev_inv ds vs s" and cnt: "counters ds s" and env: "well_behaved e"
    and d: "d \<in> set ds" "devs s d = Some dv" "dev_state dv = DEVICE_STATE_ERROR"
  shows "\<exists>s'. device_unregister e d s = Some (0, s') \<and> failed_devices (dm_stats s') = of_nat (how_many (\<lambda>dv. dev_state dv = DEVICE_STATE_ERROR) (devs s') (remove1 d ds)) + 1"
proof -
  obtain s' where s': "device_unregister e d s = Some (0, s')" "delisted d ds s s'" "failed_devices (dm_stats s') = failed_devices (dm_stats s)"
    using device_unregister_spec [OF inv d(1,2)] env d(3) unfolding well_behaved_def by auto
  have "distinct ds" using inv listed_distinct by (auto simp: dev_inv_def)
  then have "how_many (\<lambda>dv. dev_state dv = DEVICE_STATE_ERROR) (devs s') (remove1 d ds) = how_many (\<lambda>dv. dev_state dv = DEVICE_STATE_ERROR) (devs s) (remove1 d ds)"
    using s'(2) by (intro how_many_cong) (auto simp: delisted_def set_dev_next_def)
  then show ?thesis using s'(1,3) cnt how_many_remove [OF d(1), of "\<lambda>dv. dev_state dv = DEVICE_STATE_ERROR" "devs s"] d(2,3)
    by (auto simp: counters_def)
qed

end
