(* ===== verification/Hal.thy ===== *)
theory Hal
  imports Prelude "HOL-Library.Monad_Syntax"
begin

text \<open>
  The hardware abstraction layer, \<^verbatim>\<open>kernel/hal/hal.c\<close> and \<^verbatim>\<open>kernel/hal/x86_64_hal.c\<close>: its global variables as one record, and the
  detection, query, statistics and self-test functions. The layer touches no memory but its own variables and the
  structure a caller passes; a query returns that structure, and \<open>None\<close> for it when the pointer is null.

  Its clock is a counter that every reading advances by a millisecond, so its loops end.
\<close>

unbundle bit_operations_syntax

section \<open>Data\<close>

datatype hal_platform =
    HAL_PLATFORM_UNKNOWN | HAL_PLATFORM_X86_64 | HAL_PLATFORM_X86_32 | HAL_PLATFORM_ARM64 | HAL_PLATFORM_ARM32
  | HAL_PLATFORM_RISCV64 | HAL_PLATFORM_RISCV32

definition HAL_FEATURE_MMU :: u32 where "HAL_FEATURE_MMU = push_bit 0 1"

definition HAL_FEATURE_FPU :: u32 where "HAL_FEATURE_FPU = push_bit 1 1"

definition HAL_FEATURE_SIMD :: u32 where "HAL_FEATURE_SIMD = push_bit 2 1"

definition HAL_FEATURE_MULTICORE :: u32 where "HAL_FEATURE_MULTICORE = push_bit 3 1"

definition HAL_FEATURE_VIRTUALIZATION :: u32 where "HAL_FEATURE_VIRTUALIZATION = push_bit 4 1"

definition HAL_FEATURE_ATOMIC :: u32 where "HAL_FEATURE_ATOMIC = push_bit 5 1"

definition HAL_FEATURE_CACHE :: u32 where "HAL_FEATURE_CACHE = push_bit 6 1"

definition HAL_FEATURE_DMA :: u32 where "HAL_FEATURE_DMA = push_bit 7 1"

definition HAL_FEATURE_IOMMU :: u32 where "HAL_FEATURE_IOMMU = push_bit 8 1"

definition HAL_FEATURE_SECURE_BOOT :: u32 where "HAL_FEATURE_SECURE_BOOT = push_bit 9 1"

datatype hal_status =
    HAL_STATUS_UNINITIALIZED | HAL_STATUS_INITIALIZING | HAL_STATUS_READY | HAL_STATUS_ERROR | HAL_STATUS_DEGRADED | HAL_STATUS_SHUTDOWN

record hal_cpu_info =
  vendor_id :: string
  brand_string :: string
  cpu_family :: u32
  cpu_model :: u32
  stepping :: u32
  cache_line_size :: u32
  l1_cache_size :: u32
  l2_cache_size :: u32
  l3_cache_size :: u32
  core_count :: u32
  thread_count :: u32
  frequency_mhz :: u64
  cpu_features :: u32

record memory_map_entry =
  map_base :: u64
  map_length :: u64
  map_type :: u32
  map_attributes :: u32

record hal_memory_info =
  total_physical :: u64
  available_physical :: u64
  total_virtual :: u64
  kernel_reserved :: u64
  mem_page_size :: u64
  large_page_size :: u64
  memory_type_count :: u32
  memory_map :: "memory_map_entry list"

record hal_timer_info =
  frequency_hz :: u64
  resolution_ns :: u64
  timer_capabilities :: u32
  high_precision :: bool
  monotonic :: bool
  real_time :: bool

record hal_interrupt_info =
  max_vectors :: u32
  active_vectors :: u32
  controller_type :: u32
  msi_support :: bool
  msix_support :: bool
  level_triggered :: bool
  edge_triggered :: bool

record hal_system_info =
  platform :: hal_platform
  sys_features :: u32
  sys_cpu :: hal_cpu_info
  sys_memory :: hal_memory_info
  sys_timer :: hal_timer_info
  sys_interrupt :: hal_interrupt_info
  sys_uptime_ms :: u64
  boot_time :: u64

record hal_performance_counters =
  cpu_cycles :: u64
  instructions :: u64
  cache_hits :: u64
  cache_misses :: u64
  tlb_hits :: u64
  tlb_misses :: u64
  perf_context_switches :: u64
  perf_page_faults :: u64
  perf_interrupts :: u64
  perf_system_calls :: u64

record hal_statistics =
  initialization_time_us :: u64
  api_calls_total :: u64
  api_calls_per_second :: u64
  memory_allocations :: u64
  io_operations :: u64
  dma_transfers :: u64
  cache_operations :: u64
  atomic_operations :: u64
  error_count :: u32
  warning_count :: u32

text \<open>The zeroed structures, as \<^verbatim>\<open>memset\<close> and the static initialisers leave them.\<close>

definition zero_map_entry :: memory_map_entry where
  "zero_map_entry = \<lparr>map_base = 0, map_length = 0, map_type = 0, map_attributes = 0\<rparr>"

definition zero_system_info :: hal_system_info where
  "zero_system_info = \<lparr>platform = HAL_PLATFORM_UNKNOWN, sys_features = 0,
     sys_cpu = \<lparr>vendor_id = [], brand_string = [], cpu_family = 0, cpu_model = 0, stepping = 0, cache_line_size = 0, l1_cache_size = 0,
       l2_cache_size = 0, l3_cache_size = 0, core_count = 0, thread_count = 0, frequency_mhz = 0, cpu_features = 0\<rparr>,
     sys_memory = \<lparr>total_physical = 0, available_physical = 0, total_virtual = 0, kernel_reserved = 0, mem_page_size = 0,
       large_page_size = 0, memory_type_count = 0, memory_map = replicate 64 zero_map_entry\<rparr>,
     sys_timer = \<lparr>frequency_hz = 0, resolution_ns = 0, timer_capabilities = 0, high_precision = False, monotonic = False, real_time = False\<rparr>,
     sys_interrupt = \<lparr>max_vectors = 0, active_vectors = 0, controller_type = 0, msi_support = False, msix_support = False,
       level_triggered = False, edge_triggered = False\<rparr>,
     sys_uptime_ms = 0, boot_time = 0\<rparr>"

definition zero_statistics :: hal_statistics where
  "zero_statistics = \<lparr>initialization_time_us = 0, api_calls_total = 0, api_calls_per_second = 0, memory_allocations = 0,
     io_operations = 0, dma_transfers = 0, cache_operations = 0, atomic_operations = 0, error_count = 0, warning_count = 0\<rparr>"

definition zero_performance :: hal_performance_counters where
  "zero_performance = \<lparr>cpu_cycles = 0, instructions = 0, cache_hits = 0, cache_misses = 0, tlb_hits = 0, tlb_misses = 0,
     perf_context_switches = 0, perf_page_faults = 0, perf_interrupts = 0, perf_system_calls = 0\<rparr>"

record hal =
  hal_stat :: hal_status
  hal_info :: hal_system_info
  hal_stats :: hal_statistics
  hal_perf :: hal_performance_counters
  hal_init_start_time :: u64
  hal_uptime_start :: u64
  detected_platform :: hal_platform
  supported_features :: u32
  simulated_time :: u64

definition hal_zero :: hal where
  "hal_zero = \<lparr>hal_stat = HAL_STATUS_UNINITIALIZED, hal_info = zero_system_info, hal_stats = zero_statistics, hal_perf = zero_performance,
     hal_init_start_time = 0, hal_uptime_start = 0, detected_platform = HAL_PLATFORM_UNKNOWN, supported_features = 0, simulated_time = 0\<rparr>"

section \<open>Platform\<close>

definition hal_platform_init :: "hal \<Rightarrow> int \<times> hal" where
  "hal_platform_init s = (0, s)"

definition hal_platform_shutdown :: "hal \<Rightarrow> hal" where
  "hal_platform_shutdown s = s"

definition hal_platform_detect :: "u64 \<Rightarrow> int \<times> hal_platform option" where
  "hal_platform_detect p = (if p = 0 then (-1, None) else (0, Some HAL_PLATFORM_X86_64))"

section \<open>Time\<close>

definition hal_get_timestamp_us :: "hal \<Rightarrow> u64 \<times> hal" where
  "hal_get_timestamp_us s = (let s = s\<lparr>simulated_time := simulated_time s + 1000\<rparr> in (simulated_time s, s))"

definition hal_update_uptime :: "hal \<Rightarrow> hal" where
  "hal_update_uptime s =
     (let (now, s) = hal_get_timestamp_us s in
      s\<lparr>hal_info := (hal_info s)\<lparr>sys_uptime_ms := (now - hal_uptime_start s) div 1000\<rparr>\<rparr>)"

section \<open>Detection\<close>

text \<open>\<^verbatim>\<open>strncpy\<close> of a literal into a zeroed character array.\<close>

definition copy_name :: "string \<Rightarrow> nat \<Rightarrow> string" where
  "copy_name str k = take (k - 1) str"

definition detected_cpu :: "hal_cpu_info \<Rightarrow> hal_cpu_info" where
  "detected_cpu cpu = cpu\<lparr>vendor_id := copy_name ''GenuineIntel'' 16, brand_string := copy_name ''Intel(R) x86_64 Processor'' 64,
     cpu_family := 6, cpu_model := 142, stepping := 12, cache_line_size := 64, l1_cache_size := 32, l2_cache_size := 256,
     l3_cache_size := 8192, core_count := 4, thread_count := 8, frequency_mhz := 2400, cpu_features := 0x12345678\<rparr>"

definition detected_map :: "memory_map_entry list \<Rightarrow> memory_map_entry list" where
  "detected_map m = m[
     0 := \<lparr>map_base = 0, map_length = 0xA0000, map_type = 1, map_attributes = 0\<rparr>,
     1 := \<lparr>map_base = 0x100000, map_length = 0x1FF000000, map_type = 1, map_attributes = 0\<rparr>,
     2 := \<lparr>map_base = 0xFFE00000, map_length = 0x200000, map_type = 2, map_attributes = 0\<rparr>]"

definition detected_memory :: "hal_memory_info \<Rightarrow> hal_memory_info" where
  "detected_memory m = m\<lparr>total_physical := 8 * 1024 * 1024 * 1024, available_physical := 6 * 1024 * 1024 * 1024,
     total_virtual := 256 * 1024 * 1024 * 1024, kernel_reserved := 512 * 1024 * 1024, mem_page_size := 4096,
     large_page_size := 2 * 1024 * 1024, memory_type_count := 3, memory_map := detected_map (memory_map m)\<rparr>"

definition probed_features :: "hal_platform \<Rightarrow> u32" where
  "probed_features p =
     (if p = HAL_PLATFORM_X86_64
      then 0 OR HAL_FEATURE_MMU OR HAL_FEATURE_FPU OR HAL_FEATURE_CACHE OR HAL_FEATURE_ATOMIC OR HAL_FEATURE_DMA OR
           HAL_FEATURE_SIMD OR HAL_FEATURE_MULTICORE
      else 0)"

definition hal_detect_hardware :: "hal \<Rightarrow> int \<times> hal" where
  "hal_detect_hardware s =
     (let info = hal_info s;
          info = info\<lparr>sys_cpu := detected_cpu (sys_cpu info)\<rparr>;
          info = info\<lparr>sys_memory := detected_memory (sys_memory info)\<rparr>;
          s = s\<lparr>supported_features := probed_features (detected_platform s)\<rparr>;
          info = info\<lparr>platform := detected_platform s, sys_features := supported_features s, boot_time := 0, sys_uptime_ms := 5000\<rparr>
      in (0, s\<lparr>hal_info := info\<rparr>))"

text \<open>The static detection functions that nothing calls.\<close>

definition hal_detect_platform :: "hal \<Rightarrow> int \<times> hal" where
  "hal_detect_platform s = (0, s\<lparr>detected_platform := HAL_PLATFORM_X86_64\<rparr>)"

definition hal_detect_cpu_info :: "hal \<Rightarrow> int \<times> hal" where
  "hal_detect_cpu_info s = (0, s\<lparr>hal_info := (hal_info s)\<lparr>sys_cpu := detected_cpu (sys_cpu (hal_info s))\<rparr>\<rparr>)"

definition hal_detect_memory_info :: "hal \<Rightarrow> int \<times> hal" where
  "hal_detect_memory_info s = (0, s\<lparr>hal_info := (hal_info s)\<lparr>sys_memory := detected_memory (sys_memory (hal_info s))\<rparr>\<rparr>)"

definition hal_detect_timer_info :: "hal \<Rightarrow> int \<times> hal" where
  "hal_detect_timer_info s = (0, s\<lparr>hal_info := (hal_info s)\<lparr>sys_timer := (sys_timer (hal_info s))
     \<lparr>frequency_hz := 1000000000, resolution_ns := 1, timer_capabilities := 0xF, high_precision := True, monotonic := True, real_time := True\<rparr>\<rparr>\<rparr>)"

definition hal_detect_interrupt_info :: "hal \<Rightarrow> int \<times> hal" where
  "hal_detect_interrupt_info s = (0, s\<lparr>hal_info := (hal_info s)\<lparr>sys_interrupt := (sys_interrupt (hal_info s))
     \<lparr>max_vectors := 256, active_vectors := 32, controller_type := 1, msi_support := True, msix_support := True, level_triggered := True,
      edge_triggered := True\<rparr>\<rparr>\<rparr>)"

definition hal_enumerate_devices :: "hal \<Rightarrow> int \<times> hal" where
  "hal_enumerate_devices s = (0, s)"

definition hal_probe_capabilities :: "hal \<Rightarrow> int \<times> hal" where
  "hal_probe_capabilities s = (0, s)"

section \<open>Start and stop\<close>

definition hal_initialize :: "hal \<Rightarrow> int \<times> hal" where
  "hal_initialize s =
     (let s = s\<lparr>hal_init_start_time := 0\<rparr>;
          s = s\<lparr>hal_uptime_start := hal_init_start_time s, hal_stat := HAL_STATUS_INITIALIZING, hal_stats := zero_statistics,
                hal_perf := zero_performance, detected_platform := HAL_PLATFORM_X86_64\<rparr>;
          (result, s) = hal_platform_init s
      in if result \<noteq> 0 then (result, s\<lparr>hal_stat := HAL_STATUS_ERROR\<rparr>)
         else
           (let (result, s) = hal_detect_hardware s;
                s = s\<lparr>hal_stat := (if result \<noteq> 0 then HAL_STATUS_DEGRADED else HAL_STATUS_READY)\<rparr>
            in (0, s\<lparr>hal_stats := (hal_stats s)\<lparr>initialization_time_us := 1500\<rparr>\<rparr>)))"

definition hal_shutdown :: "hal \<Rightarrow> hal" where
  "hal_shutdown s = (hal_platform_shutdown s)\<lparr>hal_stat := HAL_STATUS_SHUTDOWN\<rparr>"

section \<open>Queries\<close>

definition count_call :: "hal \<Rightarrow> hal" where
  "count_call s = s\<lparr>hal_stats := (hal_stats s)\<lparr>api_calls_total := api_calls_total (hal_stats s) + 1\<rparr>\<rparr>"

definition hal_get_status :: "hal \<Rightarrow> hal_status" where
  "hal_get_status s = hal_stat s"

definition hal_get_version :: "string option" where
  "hal_get_version = Some ''1.0.0''"

definition hal_get_platform :: "hal \<Rightarrow> hal_platform" where
  "hal_get_platform s = detected_platform s"

definition hal_get_features :: "hal \<Rightarrow> u32" where
  "hal_get_features s = supported_features s"

definition hal_get_system_info :: "u64 \<Rightarrow> hal \<Rightarrow> int \<times> hal_system_info option \<times> hal" where
  "hal_get_system_info p s =
     (if p = 0 then (-1, None, s)
      else (let s = hal_update_uptime s in (0, Some (hal_info s), count_call s)))"

definition hal_get_cpu_info :: "u64 \<Rightarrow> hal \<Rightarrow> int \<times> hal_cpu_info option \<times> hal" where
  "hal_get_cpu_info p s = (if p = 0 then (-1, None, s) else (0, Some (sys_cpu (hal_info s)), count_call s))"

definition hal_get_memory_info :: "u64 \<Rightarrow> hal \<Rightarrow> int \<times> hal_memory_info option \<times> hal" where
  "hal_get_memory_info p s = (if p = 0 then (-1, None, s) else (0, Some (sys_memory (hal_info s)), count_call s))"

definition hal_get_timer_info :: "u64 \<Rightarrow> hal \<Rightarrow> int \<times> hal_timer_info option \<times> hal" where
  "hal_get_timer_info p s = (if p = 0 then (-1, None, s) else (0, Some (sys_timer (hal_info s)), count_call s))"

definition hal_get_interrupt_info :: "u64 \<Rightarrow> hal \<Rightarrow> int \<times> hal_interrupt_info option \<times> hal" where
  "hal_get_interrupt_info p s = (if p = 0 then (-1, None, s) else (0, Some (sys_interrupt (hal_info s)), count_call s))"

definition hal_get_performance_counters :: "u64 \<Rightarrow> hal \<Rightarrow> int \<times> hal_performance_counters option \<times> hal" where
  "hal_get_performance_counters p s = (if p = 0 then (-1, None, s) else (0, Some (hal_perf s), count_call s))"

definition hal_get_statistics :: "u64 \<Rightarrow> hal \<Rightarrow> int \<times> hal_statistics option \<times> hal" where
  "hal_get_statistics p s =
     (if p = 0 then (-1, None, s)
      else
        (let (now, s) = hal_get_timestamp_us s;
             elapsed = (now - hal_init_start_time s) div 1000000;
             s = (if elapsed > 0
                  then s\<lparr>hal_stats := (hal_stats s)\<lparr>api_calls_per_second := api_calls_total (hal_stats s) div elapsed\<rparr>\<rparr>
                  else s)
         in (0, Some (hal_stats s), count_call s)))"

definition hal_reset_statistics :: "hal \<Rightarrow> hal" where
  "hal_reset_statistics s =
     (let s = s\<lparr>hal_stats := zero_statistics\<rparr>;
          (now, s) = hal_get_timestamp_us s
      in s\<lparr>hal_stats := (hal_stats s)\<lparr>initialization_time_us := now - hal_init_start_time s\<rparr>\<rparr>)"

definition hal_reset_performance_counters :: "hal \<Rightarrow> hal" where
  "hal_reset_performance_counters s = s\<lparr>hal_perf := zero_performance\<rparr>"

definition hal_is_feature_supported :: "u32 \<Rightarrow> hal \<Rightarrow> bool" where
  "hal_is_feature_supported f s \<longleftrightarrow> supported_features s AND f \<noteq> 0"

fun hal_platform_to_string :: "hal_platform \<Rightarrow> string" where
  "hal_platform_to_string HAL_PLATFORM_X86_64 = ''x86_64''"
| "hal_platform_to_string HAL_PLATFORM_X86_32 = ''x86_32''"
| "hal_platform_to_string HAL_PLATFORM_ARM64 = ''ARM64''"
| "hal_platform_to_string HAL_PLATFORM_ARM32 = ''ARM32''"
| "hal_platform_to_string HAL_PLATFORM_RISCV64 = ''RISC-V 64''"
| "hal_platform_to_string HAL_PLATFORM_RISCV32 = ''RISC-V 32''"
| "hal_platform_to_string HAL_PLATFORM_UNKNOWN = ''Unknown''"

fun hal_status_to_string :: "hal_status \<Rightarrow> string" where
  "hal_status_to_string HAL_STATUS_UNINITIALIZED = ''Uninitialized''"
| "hal_status_to_string HAL_STATUS_INITIALIZING = ''Initializing''"
| "hal_status_to_string HAL_STATUS_READY = ''Ready''"
| "hal_status_to_string HAL_STATUS_ERROR = ''Error''"
| "hal_status_to_string HAL_STATUS_DEGRADED = ''Degraded''"
| "hal_status_to_string HAL_STATUS_SHUTDOWN = ''Shutdown''"

definition hal_feature_to_string :: "u32 \<Rightarrow> string" where
  "hal_feature_to_string f =
     (if f = HAL_FEATURE_MMU then ''MMU''
      else if f = HAL_FEATURE_FPU then ''FPU''
      else if f = HAL_FEATURE_SIMD then ''SIMD''
      else if f = HAL_FEATURE_MULTICORE then ''Multi-core''
      else if f = HAL_FEATURE_VIRTUALIZATION then ''Virtualization''
      else if f = HAL_FEATURE_ATOMIC then ''Atomic Operations''
      else if f = HAL_FEATURE_CACHE then ''Cache Management''
      else if f = HAL_FEATURE_DMA then ''DMA''
      else if f = HAL_FEATURE_IOMMU then ''IOMMU''
      else if f = HAL_FEATURE_SECURE_BOOT then ''Secure Boot''
      else ''Unknown'')"

section \<open>Tests\<close>

definition hal_run_self_test :: "hal \<Rightarrow> int" where
  "hal_run_self_test s =
     (if hal_stat s \<noteq> HAL_STATUS_READY \<and> hal_stat s \<noteq> HAL_STATUS_DEGRADED then -1
      else if hal_get_version = None then -1
      else if hal_get_platform s = HAL_PLATFORM_UNKNOWN then -1
      else 0)"

definition hal_run_hardware_test :: "hal \<Rightarrow> int \<times> hal" where
  "hal_run_hardware_test s = hal_detect_hardware s"

text \<open>The measured loop of \<^verbatim>\<open>hal_run_performance_test\<close> only reads.\<close>

definition hal_run_performance_test :: "hal \<Rightarrow> int \<times> hal" where
  "hal_run_performance_test s =
     (let (start_time, s) = hal_get_timestamp_us s;
          (end_time, s) = hal_get_timestamp_us s
      in (0, s))"

text \<open>
  The loop of the stress test, with the number of operations; the address of its local \<^verbatim>\<open>info\<close> is any non-null one. The rate it prints divides
  by the duration: a duration of zero is a fault.
\<close>

partial_function (option) stress_loop :: "u64 \<Rightarrow> u64 \<Rightarrow> hal \<Rightarrow> (u64 \<times> hal) option" where
  "stress_loop end_time operations s =
     (let (now, s) = hal_get_timestamp_us s in
      if now < end_time
      then (let (r, info, s) = hal_get_system_info 1 s in stress_loop end_time (operations + 1) s)
      else Some (operations, s))"

definition hal_run_stress_test :: "u32 \<Rightarrow> hal \<Rightarrow> (int \<times> hal) option" where
  "hal_run_stress_test duration_seconds s =
     (let (start_time, s) = hal_get_timestamp_us s;
          end_time = start_time + ucast duration_seconds * 1000000
      in do {
        (operations, s) \<leftarrow> stress_loop end_time 0 s;
        let (now, s) = hal_get_timestamp_us s;
        let actual_duration = now - start_time;
        if actual_duration = 0 then None else Some (0, s) })"

section \<open>What the layer promises\<close>

text \<open>One round of the stress loop, and many.\<close>

definition stress_round :: "hal \<Rightarrow> hal" where
  "stress_round s = (let (now, s) = hal_get_timestamp_us s; (r, info, s) = hal_get_system_info 1 s in s)"

lemma stress_round_fields [simp]:
  "simulated_time (stress_round s) = simulated_time s + 2000"
  "api_calls_total (hal_stats (stress_round s)) = api_calls_total (hal_stats s) + 1"
  "hal_stat (stress_round s) = hal_stat s"
  by (simp_all add: stress_round_def hal_get_timestamp_us_def hal_get_system_info_def hal_update_uptime_def count_call_def)

lemma stress_rounds_fields:
  "simulated_time ((stress_round ^^ n) s) = simulated_time s + of_nat n * 2000"
  "api_calls_total (hal_stats ((stress_round ^^ n) s)) = api_calls_total (hal_stats s) + of_nat n"
  "hal_stat ((stress_round ^^ n) s) = hal_stat s"
  by (induction n) (simp_all add: algebra_simps)

lemma stress_loop_unfold:
  "stress_loop end_time k s =
     (if simulated_time s + 1000 < end_time then stress_loop end_time (k + 1) (stress_round s)
      else Some (k, s\<lparr>simulated_time := simulated_time s + 1000\<rparr>))"
  by (subst stress_loop.simps) (simp add: stress_round_def hal_get_timestamp_us_def hal_get_system_info_def Let_def)

text \<open>\<open>n\<close> rounds fit before the end, and one more does not.\<close>

lemma stress_loop_spec:
  assumes "unat (simulated_time s) + 2000 * n \<le> unat end_time" and "unat end_time \<le> unat (simulated_time s) + 2000 * n + 1000"
    and "unat end_time + 1000 < 2 ^ 64"
  shows "stress_loop end_time k s =
    Some (k + of_nat n, (let s = (stress_round ^^ n) s in s\<lparr>simulated_time := simulated_time s + 1000\<rparr>))"
  using assms
proof (induction n arbitrary: k s)
  case 0
  have "unat (simulated_time s + 1000) = unat (simulated_time s) + 1000" using 0 by (subst unat_add_lem [THEN iffD1]) simp_all
  then have "\<not> simulated_time s + 1000 < end_time" using 0 by (simp add: word_less_nat_alt)
  then show ?case by (subst stress_loop_unfold) simp
next
  case (Suc n)
  have t: "unat (simulated_time s + 1000) = unat (simulated_time s) + 1000" "unat (simulated_time s + 2000) = unat (simulated_time s) + 2000"
    using Suc.prems by (subst unat_add_lem [THEN iffD1]; simp)+
  then have "simulated_time s + 1000 < end_time" using Suc.prems by (simp add: word_less_nat_alt)
  moreover have "stress_loop end_time (k + 1) (stress_round s) = Some (k + 1 + of_nat n,
      (let s = (stress_round ^^ n) (stress_round s) in s\<lparr>simulated_time := simulated_time s + 1000\<rparr>))"
    using Suc.prems t by (intro Suc.IH) simp_all
  ultimately show ?case by (subst stress_loop_unfold) (simp add: algebra_simps funpow_swap1)
qed

text \<open>
  The stress test ends. On a clock that does not wrap around it makes exactly 500 calls for every second asked for, all of them counted
  in the statistics, and succeeds; the status of the layer is unchanged.
\<close>

theorem hal_stress_test_terminates:
  assumes "unat (simulated_time s) + unat duration * 1000000 + 4000 < 2 ^ 64"
  shows "\<exists>s'. hal_run_stress_test duration s = Some (0, s') \<and>
    api_calls_total (hal_stats s') = api_calls_total (hal_stats s) + 500 * ucast duration \<and> hal_stat s' = hal_stat s \<and>
    simulated_time s' = simulated_time s + 1000000 * ucast duration + 3000"
proof -
  define n where "n = 500 * unat duration"
  define t where "t = simulated_time s + 1000"
  define e where "e = t + ucast duration * 1000000"
  have u: "unat (ucast duration :: u64) = unat duration" "unat duration < 2 ^ 32"
    using unat_less_2p [of duration] by (simp_all add: unsigned_ucast_eq take_bit_nat_eq_self)
  have m: "unat (ucast duration * 1000000 :: u64) = unat duration * 1000000"
    using u assms by (subst unat_mult_lem [THEN iffD1]) simp_all
  have ut: "unat t = unat (simulated_time s) + 1000" unfolding t_def using assms by (subst unat_add_lem [THEN iffD1]) simp_all
  have ue: "unat e = unat t + unat duration * 1000000" unfolding e_def using assms m ut by (subst unat_add_lem [THEN iffD1]) simp_all
  have nd: "(of_nat n :: u64) = 500 * ucast duration" by (simp add: n_def unsigned_ucast_eq)
  let ?s = "s\<lparr>simulated_time := t\<rparr>"
  let ?s2 = "(stress_round ^^ n) ?s"
  have loop: "stress_loop e 0 ?s = Some (of_nat n, ?s2\<lparr>simulated_time := simulated_time ?s2 + 1000\<rparr>)"
    using stress_loop_spec [of ?s n e 0] ue ut assms by (simp add: n_def Let_def)
  have e2: "simulated_time ?s2 = e" by (simp add: stress_rounds_fields nd e_def)
  have "unat (ucast duration * 1000000 + 2000 :: u64) = unat duration * 1000000 + 2000"
    using m assms by (subst unat_add_lem [THEN iffD1]) simp_all
  then have "ucast duration * 1000000 + 2000 \<noteq> (0 :: u64)" by (metis add_is_0 unsigned_0 zero_neq_numeral)
  then have "2000 + e \<noteq> t" by (simp add: e_def algebra_simps)
  then have "hal_run_stress_test duration s = Some (0, ?s2\<lparr>simulated_time := simulated_time ?s2 + 2000\<rparr>)"
    using loop e2 by (simp add: hal_run_stress_test_def hal_get_timestamp_us_def Let_def t_def [symmetric] e_def [symmetric])
  then show ?thesis by (simp add: stress_rounds_fields nd t_def algebra_simps)
qed

theorem hal_stress_test_terminates_witness:
  "\<exists>s'. hal_run_stress_test 60 (snd (hal_initialize hal_zero)) = Some (0, s') \<and> api_calls_total (hal_stats s') = 30000"
proof -
  have t: "simulated_time (snd (hal_initialize hal_zero)) = 0" "api_calls_total (hal_stats (snd (hal_initialize hal_zero))) = 0"
    by (simp_all add: hal_initialize_def hal_platform_init_def hal_detect_hardware_def hal_zero_def Let_def zero_statistics_def)
  from hal_stress_test_terminates [of "snd (hal_initialize hal_zero)" 60] show ?thesis unfolding t by (auto simp: t)
qed

text \<open>After start-up the layer is ready and passes its self test, with the features of the platform.\<close>

lemma hal_initialize_ready:
  "\<exists>s'. hal_initialize s = (0, s') \<and> hal_stat s' = HAL_STATUS_READY \<and> hal_run_self_test s' = 0 \<and>
     supported_features s' = 0xEF \<and> platform (hal_info s') = HAL_PLATFORM_X86_64 \<and> sys_timer (hal_info s') = sys_timer (hal_info s)"
  by (simp add: hal_initialize_def hal_platform_init_def hal_detect_hardware_def Let_def hal_run_self_test_def hal_get_version_def
      hal_get_platform_def probed_features_def HAL_FEATURE_MMU_def HAL_FEATURE_FPU_def HAL_FEATURE_CACHE_def HAL_FEATURE_ATOMIC_def
      HAL_FEATURE_DMA_def HAL_FEATURE_SIMD_def HAL_FEATURE_MULTICORE_def)

text \<open>The memory map it reports calls a region available that covers the region it reports as reserved.\<close>

lemma memory_map_overlap:
  fixes m :: "memory_map_entry list"
  assumes "length m = 64"
  defines "a \<equiv> detected_map m ! 1" and "r \<equiv> detected_map m ! 2"
  shows "map_type a = 1" "map_type r = 2" "map_base a \<le> map_base r" "map_base r + map_length r \<le> map_base a + map_length a"
  using assms by (simp_all add: detected_map_def word_le_nat_alt)

end
