(* ===== verification/Boot.thy ===== *)
theory Boot
  imports Device Hal
begin

text \<open>
  The start of the kernel, \<^verbatim>\<open>kernel/src/main.c\<close> and \<^verbatim>\<open>kernel/src/boot.c\<close>: the order in which the subsystems are brought up, with the early
  returns, and the demonstration that \<^verbatim>\<open>kernel_main\<close> runs before its idle loop. Messages are left out.

  The state of the whole kernel extends the device framework's by the hardware abstraction layer and the variables of
  \<^verbatim>\<open>main.c\<close>. Addresses of literals and functions come from the image of the kernel, an argument.
\<close>

section \<open>State\<close>

record kernel = dev_sys +
  hal_state :: hal
  g_boot_info :: u64
  kernel_initialized :: bool

record boot_image =
  img_idt :: image
  img_region1 :: u64
  img_region2 :: u64
  img_process_name :: u64
  img_thread_entry :: u64

definition KERNEL_HEAP_START :: u64 where
  "KERNEL_HEAP_START = 0xFFFFFFFF90000000"

definition MULTIBOOT2_MAGIC :: u32 where
  "MULTIBOOT2_MAGIC = 0x36D76289"

section \<open>Bringing the subsystems up\<close>

definition test_regions :: "boot_image \<Rightarrow> memory_region list" where
  "test_regions b =
     [\<lparr>region_start = 0x100000, region_end = 0x1100000, region_size = 0x1000000, region_type = MEMORY_TYPE_AVAILABLE,
       region_flags = 0, region_name = img_region1 b\<rparr>,
      \<lparr>region_start = 0x2000000, region_end = 0x4000000, region_size = 0x2000000, region_type = MEMORY_TYPE_AVAILABLE,
       region_flags = 0, region_name = img_region2 b\<rparr>]"

text \<open>The first part of \<^verbatim>\<open>init_subsystems\<close>: the memory managers.\<close>

definition init_memory :: "boot_image \<Rightarrow> 'a kernel_scheme \<Rightarrow> int \<times> 'a kernel_scheme" where
  "init_memory b s =
     (case pmm_init (Some (test_regions b)) s of (r, s) \<Rightarrow>
      if r \<noteq> 0 then (kern_code KERN_ERROR, s)
      else (case vmm_init s of (r, s) \<Rightarrow>
        if r \<noteq> 0 then (kern_code KERN_ERROR, s)
        else (case heap_init KERNEL_HEAP_START 0x1000000 s of (r, s) \<Rightarrow>
          if r \<noteq> 0 then (kern_code KERN_ERROR, s) else (kern_code KERN_SUCCESS, s))))"

text \<open>The second part: processes, threads, scheduler, interrupts, devices, hardware abstraction.\<close>

definition init_services :: "boot_image \<Rightarrow> 'a kernel_scheme \<Rightarrow> (int \<times> 'a kernel_scheme) option" where
  "init_services b s =
     (case process_init s of (r, s) \<Rightarrow>
      if r \<noteq> kern_code KERN_SUCCESS then Some (kern_code KERN_ERROR, s)
      else (case thread_init s of (r, s) \<Rightarrow>
        if r \<noteq> kern_code KERN_SUCCESS then Some (kern_code KERN_ERROR, s)
        else (case scheduler_init s of (r, s) \<Rightarrow>
          if r \<noteq> kern_code KERN_SUCCESS then Some (kern_code KERN_ERROR, s)
          else do {
            (r, s) \<leftarrow> interrupt_init (img_idt b) s;
            if r \<noteq> 0 then Some (kern_code KERN_ERROR, s)
            else (case device_init s of (r, s) \<Rightarrow>
              if r \<noteq> 0 then Some (kern_code KERN_ERROR, s)
              else (case hal_initialize (hal_state s) of (r, h) \<Rightarrow>
                let s = s\<lparr>hal_state := h\<rparr> in
                if r \<noteq> 0 then Some (kern_code KERN_ERROR, s) else Some (kern_code KERN_SUCCESS, s))) })))"

definition init_subsystems :: "boot_image \<Rightarrow> 'a kernel_scheme \<Rightarrow> (int \<times> 'a kernel_scheme) option" where
  "init_subsystems b s =
     (case init_memory b s of (r, s) \<Rightarrow>
      if r \<noteq> kern_code KERN_SUCCESS then Some (r, s) else init_services b s)"

definition kernel_early_init :: "u64 \<Rightarrow> 'a kernel_scheme \<Rightarrow> int \<times> 'a kernel_scheme" where
  "kernel_early_init boot_info s =
     (let s = s\<lparr>g_boot_info := boot_info\<rparr> in
      if boot_info = 0 then (kern_code KERN_INVALID, s) else (kern_code KERN_SUCCESS, s))"

definition kernel_init :: "boot_image \<Rightarrow> 'a kernel_scheme \<Rightarrow> (int \<times> 'a kernel_scheme) option" where
  "kernel_init b s = do {
     (result, s) \<leftarrow> init_subsystems b s;
     if result \<noteq> kern_code KERN_SUCCESS then Some (result, s)
     else Some (kern_code KERN_SUCCESS, s\<lparr>kernel_initialized := True\<rparr>) }"

definition kernel_shutdown :: "'a kernel_scheme \<Rightarrow> 'a kernel_scheme" where
  "kernel_shutdown s = s\<lparr>kernel_initialized := False\<rparr>"

definition parse_boot_info :: "u32 \<Rightarrow> u64 \<Rightarrow> int" where
  "parse_boot_info magic info = (if magic \<noteq> MULTIBOOT2_MAGIC then -1 else 0)"

section \<open>The demonstration\<close>

text \<open>
  \<^verbatim>\<open>kernel_main\<close> up to its idle loop. \<open>hw\<close> is what the hardware does between two readings of the clock in a waiting loop; the
  queries in between only print.
\<close>

fun work_rounds :: "nat \<Rightarrow> ('a kernel_scheme \<Rightarrow> 'a kernel_scheme option) \<Rightarrow> 'a kernel_scheme \<Rightarrow> 'a kernel_scheme option" where
  "work_rounds 0 hw s = Some s"
| "work_rounds (Suc n) hw s = do { s \<leftarrow> timer_sleep_ms hw 100 s; work_rounds n hw s }"

definition demo_processes :: "boot_image \<Rightarrow> ('a kernel_scheme \<Rightarrow> 'a kernel_scheme option) \<Rightarrow> 'a kernel_scheme \<Rightarrow> 'a kernel_scheme option" where
  "demo_processes b hw s = do {
     let s = scheduler_enable True s;
     (p, s) \<leftarrow> create_process (img_process_name b) 0 s;
     if p = 0 then Some s
     else do {
       pr \<leftarrow> procs s p;
       (t, s) \<leftarrow> create_thread (pid pr) (img_thread_entry b) 42 s;
       if t = 0 then Some s
       else do { s \<leftarrow> scheduler_add_thread t s; timer_sleep_ms hw 500 s } } }"

definition kernel_main :: "boot_image \<Rightarrow> ('a kernel_scheme \<Rightarrow> 'a kernel_scheme option) \<Rightarrow> 'a kernel_scheme \<Rightarrow> 'a kernel_scheme option" where
  "kernel_main b hw s = do {
     let s = interrupts_enable s;
     s \<leftarrow> work_rounds 5 hw s;
     let (saved_state, s) = critical_section_enter s;
     s \<leftarrow> timer_sleep_ms hw 50 s;
     let s = critical_section_exit saved_state s;
     demo_processes b hw s }"

text \<open>\<^verbatim>\<open>kernel_start\<close>: the codes it panics with, or what is left when \<^verbatim>\<open>kernel_main\<close> reaches its idle loop.\<close>

datatype 's outcome = Panic int | Idle 's

definition kernel_start :: "boot_image \<Rightarrow> ('a kernel_scheme \<Rightarrow> 'a kernel_scheme option) \<Rightarrow> u64 \<Rightarrow> 'a kernel_scheme \<Rightarrow> 'a kernel_scheme outcome option" where
  "kernel_start b hw boot_info s =
     (case kernel_early_init boot_info s of (result, s) \<Rightarrow>
      if result \<noteq> kern_code KERN_SUCCESS then Some (Panic result)
      else do {
        (result, s) \<leftarrow> kernel_init b s;
        if result \<noteq> kern_code KERN_SUCCESS then Some (Panic result)
        else do { s \<leftarrow> kernel_main b hw s; Some (Idle s) } })"

section \<open>What starting up does\<close>

text \<open>The pages the physical memory manager believes free: the first of them holds the bitmap.\<close>

lemma boot_pages:
  assumes "pmm_init (Some (test_regions b)) s = (r, s')"
  shows "r = 0" "total_pages s' = 0x3000" "page_bitmap s' = 0x100000" "pmm_inv s'"
    "free_set s' = {p. 0x100 \<le> p \<and> p < 0x1100 \<or> 0x2000 \<le> p \<and> p < 0x3000}"
proof -
  note ok = pmm_init_ok [of "test_regions b" s r s', OF _ assms]
  have ne: "test_regions b \<noteq> []" by (simp add: test_regions_def)
  show "r = 0" "page_bitmap s' = 0x100000" "pmm_inv s'" using ok(1-3) ne by simp_all
  have t: "total_pages s' = 0x3000"
    using ok(4) ne by (simp add: test_regions_def available_memory_def PAGE_SIZE_eq)
  then show "total_pages s' = 0x3000" .
  have "(\<Union>r\<in>set (take 32 (test_regions b)). region_pages r) =
      {p. 0x100 \<le> p \<and> p < 0x1100} \<union> {p. 0x2000 \<le> p \<and> p < 0x4000}"
    by (simp add: test_regions_def region_pages_def PAGE_SIZE_eq)
  then have "free_set s' = ({p. 0x100 \<le> p \<and> p < 0x1100} \<union> {p. 0x2000 \<le> p \<and> p < 0x4000}) \<inter> {p. p < 0x3000}"
    using ok(5) ne t by simp
  moreover have "(0x100 \<le> p \<and> p < 0x1100 \<or> 0x2000 \<le> p \<and> p < 0x4000) \<and> p < 0x3000 \<longleftrightarrow>
      0x100 \<le> p \<and> p < 0x1100 \<or> 0x2000 \<le> p \<and> p < 0x3000" for p :: u64
    unfolding word_le_nat_alt word_less_nat_alt by simp linarith
  ultimately show "free_set s' = {p. 0x100 \<le> p \<and> p < 0x1100 \<or> 0x2000 \<le> p \<and> p < 0x3000}" by blast
qed

text \<open>A memory manager whose lowest free page is the one that holds its bitmap loses the bitmap with the first allocation.\<close>

lemma vmm_init_loses_bitmap:
  assumes inv: "pmm_inv s" and b: "page_bitmap s = 0x100000" and t: "0x100 < total_pages s"
    and p: "{0x100, 0x101} \<subseteq> free_set s" "\<forall>p\<in>free_set s. 0x100 \<le> p"
  shows "fst (vmm_init s) = -1"
proof -
  have cnt: "pmm_count s" using pmm_inv_count [OF inv] .
  have "card {0x100, 0x101 :: u64} \<le> card (free_set s)" by (rule card_mono [OF finite_free_set p(1)])
  then have c2: "2 \<le> unat (free_pages s)" using cnt by (simp add: pmm_count_def)
  have "Min (free_set s) = 0x100" using p by (intro Min_eqI [OF finite_free_set]) auto
  then have find: "find_range (\<lambda>page. pmm_is_page_free page s) 0 (total_pages s) = Some 0x100"
    using find_free [OF cnt] p(1) by auto
  obtain s1 where s1: "pmm_alloc_page s = (0x100000, s1)" "free_pages s1 = free_pages s - 1" "total_pages s1 = total_pages s"
    "page_bitmap s1 = 0x100000"
  proof -
    have "pmm_is_page_free 0x100 s" using find_range_Some [OF find] by blast
    then have "free_pages (pmm_mark_page_used 0x100 s) = free_pages s - 1"
      using t by (simp add: pmm_mark_page_used_def pmm_is_page_free_def Let_def not_le)
    moreover have "free_pages s \<noteq> 0" using c2 by auto
    ultimately show thesis
      using find that by (simp add: pmm_alloc_page_def Let_def count_allocation_def mark_frame PAGE_SIZE_eq b)
  qed
  define s2 where "s2 = s1\<lparr>kernel_pml4 := 0x100000, kernel_cr3 := 0x100000, memory := memory_set 0x100000 0 PAGE_SIZE (memory s1)\<rparr>"
  have z: "memory s2 x = 0" if "in_region 0x100000 PAGE_SIZE x" for x
    using that by (simp add: s2_def memory_set_fill mem_fill_def)
  have e0: "entry (memory s2) 0x100000 0 = 0"
  proof -
    have "memory s2 (0x100000 + of_nat j) = 0" if "j < 8" for j
      using that by (intro z) (simp add: in_region_def PAGE_SIZE_eq word_less_nat_alt unat_of_nat)
    then have "entry (memory s2) 0x100000 0 = entry (\<lambda>_. 0) 0x100000 0" unfolding entry_def by (intro load_le_cong) simp
    then show ?thesis by (simp only: entry_zero)
  qed
  have "free_pages s \<noteq> 1" using c2 by auto
  then have f2: "free_pages s2 \<noteq> 0" by (simp add: s2_def s1(2))
  have t0: "total_pages s \<noteq> 0" using t by auto
  have "pmm_is_page_free 0 s2"
    using z [of "0x100000"] s1(3,4) t0 by (simp add: pmm_is_page_free_def bitmap_byte_def s2_def in_region_def PAGE_SIZE_eq)
  then have "find_range (\<lambda>page. pmm_is_page_free page s2) 0 (total_pages s2) = Some 0"
    using t0 s1(3) by (subst find_range.simps) (auto simp: s2_def word_gt_0)
  then have al: "fst (pmm_alloc_page s2) = 0" using f2 by (simp add: pmm_alloc_page_def Let_def)
  then have "next_table (kernel_pml4 s2) (pml4_index 0) s2 = (None, snd (pmm_alloc_page s2))"
    using e0 by (simp add: next_table_def s2_def pml4_index_def present_def case_prod_beta)
  then have "fst (vmm_map_page 0 0 (PTE_PRESENT OR PTE_WRITABLE) s2) = -1" by (simp add: vmm_map_page_def)
  then have "fst (map_range (Suc n) 0 0 (PTE_PRESENT OR PTE_WRITABLE) s2) = -1" for n by (simp add: case_prod_beta)
  moreover have "unat (0x100000000 div PAGE_SIZE :: u64) = Suc 1048575" by (simp add: unat_div_page_size)
  ultimately have "fst (map_range (unat (0x100000000 div PAGE_SIZE)) 0 0 (PTE_PRESENT OR PTE_WRITABLE) s2) \<noteq> 0"
    by (simp only: neg_equal_0_iff_equal one_neq_zero not_False_eq_True)
  then show ?thesis using s1(1) by (simp add: vmm_init_def s2_def [symmetric] case_prod_beta)
qed


text \<open>
  C25: with the memory regions \<^verbatim>\<open>main.c\<close> passes, the kernel never comes up: whatever the memory held before, the first page the physical memory manager
  hands out is the page of its own bitmap, which is then cleared, so the next allocation returns page 0, the value that means failure; \<^verbatim>\<open>vmm_init\<close>
  fails, and \<^verbatim>\<open>kernel_start\<close> panics with \<^verbatim>\<open>KERN_ERROR\<close>.
\<close>

theorem kernel_start_panics:
  "kernel_start b hw boot_info s = Some (Panic (if boot_info = 0 then kern_code KERN_INVALID else kern_code KERN_ERROR))"
proof (cases "boot_info = 0")
  case True
  then show ?thesis by (simp add: kernel_start_def kernel_early_init_def)
next
  case False
  define s0 where "s0 = s\<lparr>g_boot_info := boot_info\<rparr>"
  obtain r s1 where pmm: "pmm_init (Some (test_regions b)) s0 = (r, s1)" by (rule prod.exhaust)
  note p = boot_pages [OF pmm]
  have "fst (vmm_init s1) = -1"
  proof (rule vmm_init_loses_bitmap [OF p(4,3)])
    show "0x100 < total_pages s1" unfolding p(2) by (simp add: word_less_nat_alt)
    show "{0x100, 0x101} \<subseteq> free_set s1" unfolding p(5) by (simp add: word_le_nat_alt word_less_nat_alt)
    have "0x2000 \<le> p \<longrightarrow> 0x100 \<le> p" for p :: u64 by (simp add: word_le_nat_alt)
    then show "\<forall>p\<in>free_set s1. 0x100 \<le> p" unfolding p(5) by blast
  qed
  then have "fst (init_memory b s0) = kern_code KERN_ERROR"
    using p(1) by (simp add: init_memory_def pmm case_prod_beta)
  then show ?thesis using False
    by (simp add: kernel_start_def kernel_early_init_def kernel_init_def init_subsystems_def case_prod_beta s0_def [symmetric] kern_code.simps)
qed

text \<open>Setting up interrupts leaves alone what later components add to the state.\<close>

lemma register_handler_more: "intr.more (snd (idt_register_handler v h s)) = intr.more s"
  by (simp add: idt_register_handler_def Let_def interrupts_disable_def interrupts_restore_def interrupts_enable_def case_prod_beta)

lemma interrupt_init_more:
  assumes "interrupt_init img s = Some (r, s')"
  shows "intr.more s' = intr.more s"
proof -
  have a: "intr.more (snd (idt_init img s)) = intr.more s" "fst (idt_init img s) = 0" for s :: "'a intr_scheme"
    by (simp_all add: idt_init_spec)
  have b: "intr.more (init_hardware_interrupt_table (init_exception_table s)) = intr.more s" for s :: "'a intr_scheme"
    by (simp add: init_hardware_interrupt_table_spec init_exception_table_spec)
  have c: "intr.more (pic_enable_irq i s) = intr.more s" for i and s :: "'a intr_scheme"
    by (simp add: pic_enable_irq_def upd_irq_def outb_def Let_def case_prod_beta)
  show ?thesis
    using assms
    by (auto simp: interrupt_init_def timer_init_def Let_def case_prod_beta outb_def a b c register_handler_more
        pic_init_def split: if_splits)
qed

text \<open>The invariants of the components read only their own part of the state.\<close>

lemma sched_view_cong:
  assumes "sched.truncate s' = sched.truncate s"
  shows "proc_inv s' ps = proc_inv s ps" "thr_inv s' ps ts = thr_inv s ps ts" "sched_inv s' rs zs = sched_inv s rs zs"
proof -
  have h: "memory s' = memory s" "heap_start s' = heap_start s" "heap_end s' = heap_end s" "heap_size s' = heap_size s"
    "heap_used s' = heap_used s" "heap_free s' = heap_free s" "heap_first s' = heap_first s"
    and p: "procs s' = procs s" "process_list s' = process_list s" "next_pid s' = next_pid s" "process_count s' = process_count s"
    and t: "thrds s' = thrds s" "thread_list s' = thread_list s" "next_tid s' = next_tid s" "thread_mgr.thread_count s' = thread_mgr.thread_count s"
    "current_thread s' = current_thread s" "ready_queue s' = ready_queue s" "sleeping_queue s' = sleeping_queue s"
    using assms by (simp_all add: sched.defs)
  note v = heap_view_cong(1,2) [OF h]
  show "sched_inv s' rs zs = sched_inv s rs zs" by (simp add: sched_inv_def p t)
  show "proc_inv s' ps = proc_inv s ps" by (simp add: proc_inv_def pid_of_def [abs_def] p v)
  show "thr_inv s' ps ts = thr_inv s ps ts" by (simp add: thr_inv_def tid_of_def [abs_def] stack_of_def [abs_def] threads_of_def live_at_def p t v)
qed

text \<open>An example: a kernel whose heap has just been set up.\<close>

definition kernel_small :: kernel where
  "kernel_small = snd (heap_init KERNEL_HEAP_START 0x1000000
     (dev_sys.extend (dev_small\<lparr>procs := Map.empty, thrds := Map.empty\<rparr>) \<lparr>hal_state = hal_zero, g_boot_info = 0, kernel_initialized = False\<rparr>))"

lemma kernel_small_ok:
  "heap_inv kernel_small" "procs kernel_small = Map.empty" "thrds kernel_small = Map.empty" "\<not> dm_initialized kernel_small"
  "\<forall>d dv. devs kernel_small d = Some dv \<longrightarrow> \<not> registered dv"
proof -
  have "heap_extent 0x1000000 = 0x1000000" by (simp add: heap_extent_def)
  then show "heap_inv kernel_small"
    unfolding kernel_small_def heap_inv_def using heap_init_spec(2) [of KERNEL_HEAP_START "0x1000000"] by (auto simp: KERNEL_HEAP_START_def)
qed (auto simp: kernel_small_def heap_init_def Let_def dev_sys.defs dev_small_simps blank_device_def split: if_splits)

text \<open>
  C26: on a well-formed heap with no processes, threads and registered devices, the second part of \<^verbatim>\<open>init_subsystems\<close> succeeds, and every component starts in its
  invariant: no process, no thread, empty queues, empty device and driver lists with counters at zero, a clock at 1000 Hz that has not ticked, the
  hardware abstraction layer ready.
\<close>

theorem init_services_correct:
  assumes heap: "heap_inv s" and p: "procs s = Map.empty" and t: "thrds s = Map.empty"
    and d: "\<not> dm_initialized s" "\<forall>d dv. devs s d = Some dv \<longrightarrow> \<not> registered dv"
  shows "\<exists>s'. init_services b s = Some (kern_code KERN_SUCCESS, s') \<and> proc_inv s' [] \<and> thr_inv s' [] [] \<and> sched_inv s' [] [] \<and>
     \<not> scheduler_enabled s' \<and> dev_inv [] [] s' \<and> counters [] s' \<and> hal_stat (hal_state s') = HAL_STATUS_READY \<and>
     frequency (g_timer_manager s') = 1000 \<and> timer_get_uptime_ms s' = 0 \<and> interrupts_enabled s' = interrupts_enabled s"
proof -
  define s1 where "s1 = snd (process_init s)"
  define s2 where "s2 = snd (thread_init s1)"
  define s3 where "s3 = snd (scheduler_init s2)"
  note init = s3_def s2_def s1_def process_init_def thread_init_def scheduler_init_def get_system_time_def Let_def
  have s3: "proc_inv s3 []" "thr_inv s3 [] []" "sched_inv s3 [] []" "\<not> scheduler_enabled s3" "interrupts_enabled s3 = interrupts_enabled s"
  proof -
    have "heap_inv s3" using heap heap_view_cong(1) [of s3 s] by (simp add: init)
    then show "proc_inv s3 []" using p by (simp add: proc_inv_def) (simp add: init)
    show "thr_inv s3 [] []" using t by (simp add: thr_inv_def) (simp add: init)
    show "sched_inv s3 [] []" using t by (simp add: sched_inv_def have_process_def) (simp add: init)
    show "\<not> scheduler_enabled s3" "interrupts_enabled s3 = interrupts_enabled s" by (simp_all add: init interrupts_enabled_def)
  qed
  obtain s4 where s4: "interrupt_init (img_idt b) s3 = Some (0, s4)" "switch_ok s4 (interrupts_enabled s3) 4"
    "sched.truncate s4 = sched.truncate s3" "frequency (g_timer_manager s4) = 1000" "milliseconds (g_timer_manager s4) = 0"
    using interrupt_init_spec [of "img_idt b" s3] by fastforce
  have "intr.more s4 = intr.more s" using interrupt_init_more [OF s4(1)] by (simp add: init)
  then have m: "dm_initialized s4 = dm_initialized s" "devs s4 = devs s" by (cases s; cases s4; simp)+
  define s5 where "s5 = snd (device_init s4)"
  have d5: "dev_inv [] [] s5" "counters [] s5"
    using device_init_inv [of s4] d by (simp_all add: s5_def m)
  obtain h where h: "hal_initialize (hal_state s5) = (0, h)" "hal_stat h = HAL_STATUS_READY"
    using hal_initialize_ready [of "hal_state s5"] by blast
  let ?s' = "s5\<lparr>hal_state := h\<rparr>"
  have r: "fst (device_init s4) = 0" "fst (scheduler_init s2) = kern_code KERN_SUCCESS" "fst (thread_init s1) = kern_code KERN_SUCCESS"
    "fst (process_init s) = kern_code KERN_SUCCESS"
    by (simp_all add: init device_init_def)
  have run: "init_services b s = Some (kern_code KERN_SUCCESS, ?s')"
    using s4(1) h(1) r
    by (simp add: init_services_def case_prod_beta s1_def [symmetric] s2_def [symmetric] s3_def [symmetric] s5_def [symmetric] kern_code.simps)
  have v: "sched.truncate ?s' = sched.truncate s3" using s4(3) by (simp add: s5_def device_init_def sched.defs)
  show ?thesis
  proof (intro exI conjI)
    show "init_services b s = Some (kern_code KERN_SUCCESS, ?s')" by (rule run)
    show "proc_inv ?s' []" "thr_inv ?s' [] []" "sched_inv ?s' [] []" using s3 sched_view_cong [OF v] by simp_all
    show "\<not> scheduler_enabled ?s'" using v s3(4) by (simp add: sched.defs)
    show "dev_inv [] [] ?s'" "counters [] ?s'" using d5 by (simp_all add: dev_inv_def listed_def totals_def counters_def)
    show "interrupts_enabled ?s' = interrupts_enabled s"
      using s4(2) s3(5) by (simp add: s5_def device_init_def switch_ok_def interrupts_enabled_def)
  qed (use s4(4,5) h(2) in \<open>simp_all add: s5_def device_init_def timer_get_uptime_ms_def\<close>)
qed

theorem init_services_correct_witness:
  "\<exists>b s'. init_services b kernel_small = Some (kern_code KERN_SUCCESS, s') \<and> proc_inv s' [] \<and> dev_inv [] [] s'"
  using init_services_correct [OF kernel_small_ok] by blast

text \<open>A waiting loop that sees no interrupts never ends.\<close>

lemma sleep_spin_stuck:
  assumes "env s = Some s" "timer_get_uptime_ms s - start < ms"
  shows "sleep_spin env start ms s = None"
proof -
  have "env = en \<longrightarrow> start = st \<longrightarrow> ms = m \<longrightarrow> x \<noteq> s" if "sleep_spin en st m x = Some y" for en st m x y
    by (rule sleep_spin.raw_induct [of "\<lambda>en st m x y. env = en \<longrightarrow> start = st \<longrightarrow> ms = m \<longrightarrow> x \<noteq> s", OF _ that])
      (use assms in \<open>auto split: if_splits\<close>, blast)
  then show ?thesis by (cases "sleep_spin env start ms s") blast+
qed

lemma kernel_main_stuck:
  assumes hw: "\<forall>s. \<not> interrupts_enabled s \<longrightarrow> hw s = Some s"
  shows "kernel_main b hw s = None"
proof -
  have "timer_sleep_ms hw 50 (snd (critical_section_enter s)) = None" for s :: "'a kernel_scheme"
  proof -
    have "\<not> interrupts_enabled (snd (critical_section_enter s))"
      by (simp add: critical_section_enter_def interrupts_disable_def Let_def interrupts_enabled_bit)
    then show ?thesis using hw unfolding timer_sleep_ms_def Let_def by (intro sleep_spin_stuck) simp_all
  qed
  then show ?thesis by (simp add: kernel_main_def Let_def case_prod_beta split: bind_splits)
qed

end
