(* ===== verification/Fs.thy ===== *)
theory Fs
  imports Heap Chain
begin

text \<open>
  The file systems, \<^verbatim>\<open>kernel/fs/fgfs.c\<close>, \<^verbatim>\<open>fat32.c\<close> and \<^verbatim>\<open>ext4.c\<close>, with the caches and journals of \<^verbatim>\<open>fs.c\<close> they use.

  Every structure of the file system layer is an object on the kernel heap. \<open>objs\<close> maps the address of such an object to its
  fields; an access through a pointer to an object that was freed, or that never was, is a fault, \<open>None\<close>. A \<^verbatim>\<open>char*\<close> argument is the string
  it points to, \<open>None\<close> the null pointer. An output argument is part of the result.

  Two functions the code calls are defined nowhere in the repository, \<^verbatim>\<open>hal_get_timestamp\<close> and \<^verbatim>\<open>fs_cache_flush\<close>; they are fields of the
  environment \<open>fs_env\<close>, as are the bytes that a block of the heap holds before anything is written to it.
\<close>

section \<open>Data\<close>

text \<open>The last constructor stands for the other integers a caller can pass as the enumeration.\<close>

datatype fs_type =
  FS_TYPE_UNKNOWN | FS_TYPE_FGFS | FS_TYPE_FAT32 | FS_TYPE_NTFS | FS_TYPE_EXT4 | FS_TYPE_EXT3 | FS_TYPE_ISO9660 | FS_TYPE_TMPFS |
  FS_TYPE_PROCFS | FS_TYPE_DEVFS | FS_TYPE_OTHER

datatype file_type =
  FILE_TYPE_REGULAR | FILE_TYPE_DIRECTORY | FILE_TYPE_SYMLINK | FILE_TYPE_BLOCK_DEVICE | FILE_TYPE_CHAR_DEVICE | FILE_TYPE_FIFO |
  FILE_TYPE_SOCKET | FILE_TYPE_UNKNOWN

datatype file_access_mode =
  ACCESS_READ_ONLY | ACCESS_WRITE_ONLY | ACCESS_READ_WRITE | ACCESS_APPEND | ACCESS_CREATE | ACCESS_TRUNCATE | ACCESS_EXCLUSIVE

datatype fs_status =
  FS_STATUS_UNINITIALIZED | FS_STATUS_INITIALIZING | FS_STATUS_READY | FS_STATUS_MOUNTED | FS_STATUS_UNMOUNTED | FS_STATUS_ERROR |
  FS_STATUS_READ_ONLY | FS_STATUS_CORRUPTED

datatype seek_origin = SEEK_SET | SEEK_CUR | SEEK_END | SEEK_OTHER

definition MAX_FILENAME_LENGTH :: nat where "MAX_FILENAME_LENGTH = 255"

definition MAX_PATH_LENGTH :: nat where "MAX_PATH_LENGTH = 4096"

definition MAX_OPEN_FILES :: nat where "MAX_OPEN_FILES = 1024"

definition MAX_MOUNTED_FILESYSTEMS :: nat where "MAX_MOUNTED_FILESYSTEMS = 64"

definition DEFAULT_BLOCK_SIZE :: u32 where "DEFAULT_BLOCK_SIZE = 4096"

text \<open>The tables of operations that exist: one per implementation. The functions they hold are below.\<close>

datatype fs_operations = fgfs_ops | fat32_ops | ext4_ops

record file_metadata =
  md_inode :: u64
  md_type :: file_type
  md_size :: u64
  md_uid :: u32
  md_gid :: u32
  md_permissions :: "16 word"
  md_created_time :: u64
  md_modified_time :: u64
  md_accessed_time :: u64
  md_hard_links :: u32
  md_block_count :: u32
  md_flags :: u32
  md_name :: string

record file_t =
  fd :: u32
  f_inode :: u64
  f_mode :: file_access_mode
  f_position :: u64
  f_size :: u64
  f_flags :: u32
  f_fs :: u64
  f_mount :: u64
  f_private :: u64
  f_refs :: u32
  f_modified :: bool

text \<open>The operations are a pointer, so possibly null.\<close>

record filesystem =
  fs_kind :: fs_type
  fs_state :: fs_status
  fs_name :: string
  fs_device :: string
  fs_superblock :: u64
  fs_opers :: "fs_operations option"
  fs_private :: u64
  fs_flags :: u32
  fs_refs :: u32
  fs_mount_point :: u64

text \<open>The path is \<open>None\<close> when its array holds no terminating zero: reading it then runs past the array.\<close>

record mount_point =
  mp_path :: "string option"
  mp_fs :: u64
  mp_flags :: u32
  mp_time :: u64
  mp_next :: u64

record fs_cache_entry =
  ce_block :: u64
  ce_data :: u64
  ce_size :: u32
  ce_dirty :: bool
  ce_time :: u64
  ce_refs :: u32
  ce_next :: u64
  ce_prev :: u64

record fs_cache =
  c_entries :: u64
  c_size :: u32
  c_max_size :: u32
  c_block_size :: u32
  c_hits :: u64
  c_misses :: u64
  c_dirty_blocks :: u32

record journal =
  j_start_block :: u64
  j_size :: u64
  j_sequence :: u32
  j_block_size :: u32
  j_enabled :: bool
  j_cache :: u64
  j_current_entry :: u64

record fgfs_superblock =
  sb_magic :: u32
  sb_version :: u32
  sb_block_count :: u64
  sb_free_blocks :: u64
  sb_inode_count :: u64
  sb_free_inodes :: u64
  sb_block_size :: u32
  sb_fragment_size :: u32
  sb_blocks_per_group :: u32
  sb_inodes_per_group :: u32
  sb_group_count :: u32
  sb_root_inode :: u64
  sb_lost_found_inode :: u64
  sb_journal_inode :: u64
  sb_first_data_block :: u64
  sb_max_mount_count :: u32
  sb_mount_count :: u32
  sb_last_mounted :: u64
  sb_last_written :: u64
  sb_last_checked :: u64
  sb_check_interval :: u64
  sb_state :: u32
  sb_errors :: u32
  sb_feature_compat :: u32
  sb_feature_incompat :: u32
  sb_feature_ro_compat :: u32
  sb_uuid :: "u8 list"
  sb_volume_name :: "u8 list"
  sb_last_mounted_on :: "u8 list"
  sb_algorithm_usage_bitmap :: u32
  sb_default_mount_opts :: u32
  sb_first_meta_bg :: u32
  sb_mkfs_time :: u64
  sb_reserved :: "u32 list"
  sb_checksum :: u32

record fgfs_private =
  pv_superblock :: u64
  pv_group_descs :: u64
  pv_group_desc_count :: u32
  pv_block_size :: u32
  pv_inode_size :: u32
  pv_inodes_per_block :: u32
  pv_blocks_per_group :: u32
  pv_inodes_per_group :: u32
  pv_next_generation :: u64
  pv_has_journal :: bool
  pv_journal_inode :: u64
  pv_cache :: u64
  pv_journal :: u64

record fat32_private =
  fat_boot_sector :: u64
  fat_fsinfo :: u64
  fat_table :: u64
  fat_start_sector :: u32
  fat_size :: u32
  fat_data_start_sector :: u32
  fat_root_cluster :: u32
  fat_cluster_size :: u32
  fat_total_clusters :: u32
  fat_free_clusters :: u32
  fat_next_free_cluster :: u32
  fat_cache :: u64

record ext4_private =
  ext_superblock :: u64
  ext_group_descs :: u64
  ext_group_desc_count :: u32
  ext_block_size :: u32
  ext_inode_size :: u32
  ext_inodes_per_block :: u32
  ext_blocks_per_group :: u32
  ext_inodes_per_group :: u32
  ext_has_64bit :: bool
  ext_has_extents :: bool
  ext_cache :: u64

datatype fs_object =
  Filesystem filesystem | Mount mount_point | File file_t | Cache fs_cache | Cache_entry fs_cache_entry | Journal journal |
  Superblock fgfs_superblock | Fgfs_private fgfs_private | Fat32_private fat32_private | Ext4_private ext4_private

text \<open>The sizes of the structures.\<close>

definition sizeof_filesystem :: u64 where "sizeof_filesystem = 144"

definition sizeof_mount_point :: u64 where "sizeof_mount_point = 4128"

definition sizeof_file :: u64 where "sizeof_file = 80"

definition sizeof_cache :: u64 where "sizeof_cache = 48"

definition sizeof_journal :: u64 where "sizeof_journal = 48"

definition sizeof_fgfs_superblock :: u64 where "sizeof_fgfs_superblock = 372"

definition sizeof_fgfs_private :: u64 where "sizeof_fgfs_private = 80"

definition sizeof_fgfs_inode :: u32 where "sizeof_fgfs_inode = 172"

definition sizeof_fat32_private :: u64 where "sizeof_fat32_private = 64"

definition sizeof_ext4_private :: u64 where "sizeof_ext4_private = 56"

lemmas fs_sizes = sizeof_filesystem_def sizeof_mount_point_def sizeof_file_def sizeof_cache_def sizeof_journal_def
  sizeof_fgfs_superblock_def sizeof_fgfs_private_def sizeof_fat32_private_def sizeof_ext4_private_def

text \<open>Structures full of zeros, as \<^verbatim>\<open>memset\<close> leaves them.\<close>

definition zero_metadata :: file_metadata where
  "zero_metadata = \<lparr>md_inode = 0, md_type = FILE_TYPE_REGULAR, md_size = 0, md_uid = 0, md_gid = 0, md_permissions = 0, md_created_time = 0,
     md_modified_time = 0, md_accessed_time = 0, md_hard_links = 0, md_block_count = 0, md_flags = 0, md_name = []\<rparr>"

definition zero_file :: file_t where
  "zero_file = \<lparr>fd = 0, f_inode = 0, f_mode = ACCESS_READ_ONLY, f_position = 0, f_size = 0, f_flags = 0, f_fs = 0, f_mount = 0,
     f_private = 0, f_refs = 0, f_modified = False\<rparr>"

definition zero_filesystem :: filesystem where
  "zero_filesystem = \<lparr>fs_kind = FS_TYPE_UNKNOWN, fs_state = FS_STATUS_UNINITIALIZED, fs_name = [], fs_device = [], fs_superblock = 0,
     fs_opers = None, fs_private = 0, fs_flags = 0, fs_refs = 0, fs_mount_point = 0\<rparr>"

definition zero_cache :: fs_cache where
  "zero_cache = \<lparr>c_entries = 0, c_size = 0, c_max_size = 0, c_block_size = 0, c_hits = 0, c_misses = 0, c_dirty_blocks = 0\<rparr>"

definition zero_journal :: journal where
  "zero_journal = \<lparr>j_start_block = 0, j_size = 0, j_sequence = 0, j_block_size = 0, j_enabled = False, j_cache = 0, j_current_entry = 0\<rparr>"

definition zero_superblock :: fgfs_superblock where
  "zero_superblock = \<lparr>sb_magic = 0, sb_version = 0, sb_block_count = 0, sb_free_blocks = 0, sb_inode_count = 0, sb_free_inodes = 0,
     sb_block_size = 0, sb_fragment_size = 0, sb_blocks_per_group = 0, sb_inodes_per_group = 0, sb_group_count = 0, sb_root_inode = 0,
     sb_lost_found_inode = 0, sb_journal_inode = 0, sb_first_data_block = 0, sb_max_mount_count = 0, sb_mount_count = 0,
     sb_last_mounted = 0, sb_last_written = 0, sb_last_checked = 0, sb_check_interval = 0, sb_state = 0, sb_errors = 0,
     sb_feature_compat = 0, sb_feature_incompat = 0, sb_feature_ro_compat = 0, sb_uuid = replicate 16 0, sb_volume_name = replicate 16 0,
     sb_last_mounted_on = replicate 64 0, sb_algorithm_usage_bitmap = 0, sb_default_mount_opts = 0, sb_first_meta_bg = 0,
     sb_mkfs_time = 0, sb_reserved = replicate 25 0, sb_checksum = 0\<rparr>"

definition zero_fgfs_private :: fgfs_private where
  "zero_fgfs_private = \<lparr>pv_superblock = 0, pv_group_descs = 0, pv_group_desc_count = 0, pv_block_size = 0, pv_inode_size = 0,
     pv_inodes_per_block = 0, pv_blocks_per_group = 0, pv_inodes_per_group = 0, pv_next_generation = 0, pv_has_journal = False,
     pv_journal_inode = 0, pv_cache = 0, pv_journal = 0\<rparr>"

definition zero_fat32_private :: fat32_private where
  "zero_fat32_private = \<lparr>fat_boot_sector = 0, fat_fsinfo = 0, fat_table = 0, fat_start_sector = 0, fat_size = 0, fat_data_start_sector = 0,
     fat_root_cluster = 0, fat_cluster_size = 0, fat_total_clusters = 0, fat_free_clusters = 0, fat_next_free_cluster = 0, fat_cache = 0\<rparr>"

definition zero_ext4_private :: ext4_private where
  "zero_ext4_private = \<lparr>ext_superblock = 0, ext_group_descs = 0, ext_group_desc_count = 0, ext_block_size = 0, ext_inode_size = 0,
     ext_inodes_per_block = 0, ext_blocks_per_group = 0, ext_inodes_per_group = 0, ext_has_64bit = False, ext_has_extents = False,
     ext_cache = 0\<rparr>"

section \<open>State\<close>

record fs_manager =
  filesystems :: "u64 list"
  mount_points :: u64
  open_files :: "u64 list"
  next_fd :: u32
  global_cache :: u64
  global_journal :: u64
  mounted_count :: u32
  fs_initialized :: bool

record fs_sys = heap +
  objs :: "fs_object store"
  fs_mgr :: fs_manager
  registered_fs :: "fs_type \<Rightarrow> fs_operations option"

record 's fs_env =
  get_timestamp :: "'s \<Rightarrow> u64 \<times> 's"
  cache_flush :: "u64 \<Rightarrow> 's \<Rightarrow> (int \<times> 's) option"
  stale_byte :: "u64 \<Rightarrow> u8"

text \<open>Reading an object of a type.\<close>

definition get_fs :: "u64 \<Rightarrow> 'a fs_sys_scheme \<Rightarrow> filesystem option" where
  "get_fs p s = (case objs s p of Some (Filesystem f) \<Rightarrow> Some f | _ \<Rightarrow> None)"

definition get_mount :: "fs_object store \<Rightarrow> mount_point store" where
  "get_mount h p = (case h p of Some (Mount m) \<Rightarrow> Some m | _ \<Rightarrow> None)"

definition get_file :: "u64 \<Rightarrow> 'a fs_sys_scheme \<Rightarrow> file_t option" where
  "get_file p s = (case objs s p of Some (File f) \<Rightarrow> Some f | _ \<Rightarrow> None)"

definition get_cache :: "u64 \<Rightarrow> 'a fs_sys_scheme \<Rightarrow> fs_cache option" where
  "get_cache p s = (case objs s p of Some (Cache c) \<Rightarrow> Some c | _ \<Rightarrow> None)"

definition get_entry :: "u64 \<Rightarrow> 'a fs_sys_scheme \<Rightarrow> fs_cache_entry option" where
  "get_entry p s = (case objs s p of Some (Cache_entry c) \<Rightarrow> Some c | _ \<Rightarrow> None)"

definition get_journal :: "u64 \<Rightarrow> 'a fs_sys_scheme \<Rightarrow> journal option" where
  "get_journal p s = (case objs s p of Some (Journal j) \<Rightarrow> Some j | _ \<Rightarrow> None)"

definition get_fgfs :: "u64 \<Rightarrow> 'a fs_sys_scheme \<Rightarrow> fgfs_private option" where
  "get_fgfs p s = (case objs s p of Some (Fgfs_private v) \<Rightarrow> Some v | _ \<Rightarrow> None)"

definition get_fat32 :: "u64 \<Rightarrow> 'a fs_sys_scheme \<Rightarrow> fat32_private option" where
  "get_fat32 p s = (case objs s p of Some (Fat32_private v) \<Rightarrow> Some v | _ \<Rightarrow> None)"

definition get_ext4 :: "u64 \<Rightarrow> 'a fs_sys_scheme \<Rightarrow> ext4_private option" where
  "get_ext4 p s = (case objs s p of Some (Ext4_private v) \<Rightarrow> Some v | _ \<Rightarrow> None)"

text \<open>Writing an object, clearing its bytes first, and giving it back to the heap.\<close>

definition put :: "u64 \<Rightarrow> fs_object \<Rightarrow> 'a fs_sys_scheme \<Rightarrow> 'a fs_sys_scheme" where
  "put p ob s = s\<lparr>objs := (objs s)(p \<mapsto> ob)\<rparr>"

definition clear :: "u64 \<Rightarrow> u64 \<Rightarrow> 'a fs_sys_scheme \<Rightarrow> 'a fs_sys_scheme" where
  "clear p sz s = s\<lparr>memory := memset p 0 sz (memory s)\<rparr>"

definition drop_object :: "u64 \<Rightarrow> 'a fs_sys_scheme \<Rightarrow> 'a fs_sys_scheme option" where
  "drop_object p s = do { s \<leftarrow> kfree p s; Some (s\<lparr>objs := (objs s)(p := None)\<rparr>) }"

section \<open>Caches and journals\<close>

definition fs_cache_init :: "u64 \<Rightarrow> u32 \<Rightarrow> u32 \<Rightarrow> 'a fs_sys_scheme \<Rightarrow> int \<times> 'a fs_sys_scheme" where
  "fs_cache_init cache max_size block_size s =
     (if cache = 0 then (-1, s)
      else
        let s = clear cache sizeof_cache s
        in (0, put cache (Cache (zero_cache\<lparr>c_max_size := max_size, c_block_size := block_size, c_entries := 0, c_size := 0, c_hits := 0,
                  c_misses := 0, c_dirty_blocks := 0\<rparr>)) s))"

partial_function (option) free_entries :: "u64 \<Rightarrow> 'a fs_sys_scheme \<Rightarrow> 'a fs_sys_scheme option" where
  "free_entries ent s =
     (if ent = 0 then Some s
      else do {
        en \<leftarrow> get_entry ent s;
        let nxt = ce_next en;
        s \<leftarrow> (if ce_data en \<noteq> 0 then kfree (ce_data en) s else Some s);
        s \<leftarrow> drop_object ent s;
        free_entries nxt s })"

definition fs_cache_destroy :: "u64 \<Rightarrow> 'a fs_sys_scheme \<Rightarrow> 'a fs_sys_scheme option" where
  "fs_cache_destroy cache s =
     (if cache = 0 then Some s
      else do {
        c \<leftarrow> get_cache cache s;
        s \<leftarrow> free_entries (c_entries c) s;
        Some (put cache (Cache zero_cache) (clear cache sizeof_cache s)) })"

definition fs_journal_init :: "u64 \<Rightarrow> u64 \<Rightarrow> u64 \<Rightarrow> 'a fs_sys_scheme \<Rightarrow> int \<times> 'a fs_sys_scheme" where
  "fs_journal_init jrn start_block sz s =
     (if jrn = 0 then (-1, s)
      else
        let s = clear jrn sizeof_journal s
        in (0, put jrn (Journal (zero_journal\<lparr>j_start_block := start_block, j_size := sz, j_sequence := 1,
                  j_block_size := DEFAULT_BLOCK_SIZE, j_enabled := True\<rparr>)) s))"

definition fs_journal_commit :: "u64 \<Rightarrow> 'a fs_sys_scheme \<Rightarrow> (int \<times> 'a fs_sys_scheme) option" where
  "fs_journal_commit jrn s =
     (if jrn = 0 then Some (-1, s)
      else do {
        j \<leftarrow> get_journal jrn s;
        if \<not> j_enabled j then Some (-1, s)
        else Some (0, put jrn (Journal (j\<lparr>j_sequence := j_sequence j + 1\<rparr>)) s) })"

definition fs_journal_destroy :: "u64 \<Rightarrow> 'a fs_sys_scheme \<Rightarrow> 'a fs_sys_scheme option" where
  "fs_journal_destroy jrn s =
     (if jrn = 0 then Some s
      else do {
        j \<leftarrow> get_journal jrn s;
        s \<leftarrow> (if j_enabled j then do { (r, s) \<leftarrow> fs_journal_commit jrn s; Some s } else Some s);
        s \<leftarrow> (if j_cache j \<noteq> 0 then do { s \<leftarrow> fs_cache_destroy (j_cache j) s; drop_object (j_cache j) s } else Some s);
        Some (put jrn (Journal zero_journal) (clear jrn sizeof_journal s)) })"

text \<open>Registration of an implementation; the argument is a pointer, so possibly null.\<close>

definition fs_register_filesystem :: "fs_type \<Rightarrow> fs_operations option \<Rightarrow> 'a fs_sys_scheme \<Rightarrow> int \<times> 'a fs_sys_scheme" where
  "fs_register_filesystem type ops s =
     (if type = FS_TYPE_OTHER \<or> ops = None then (-1, s) else (0, s\<lparr>registered_fs := (registered_fs s)(type := ops)\<rparr>))"

section \<open>FGFS\<close>

definition FGFS_MAGIC :: u32 where "FGFS_MAGIC = 0x46474653"

definition FGFS_VERSION :: u32 where "FGFS_VERSION = push_bit 16 1 OR push_bit 8 0 OR 0"

definition FGFS_BLOCK_SIZE_MIN :: u32 where "FGFS_BLOCK_SIZE_MIN = 512"

definition FGFS_BLOCK_SIZE_MAX :: u32 where "FGFS_BLOCK_SIZE_MAX = 65536"

definition FGFS_BLOCK_SIZE_DEFAULT :: u32 where "FGFS_BLOCK_SIZE_DEFAULT = 4096"

definition FGFS_BLOCKS_PER_GROUP_DEFAULT :: u32 where "FGFS_BLOCKS_PER_GROUP_DEFAULT = 8192"

definition FGFS_INODES_PER_GROUP_DEFAULT :: u32 where "FGFS_INODES_PER_GROUP_DEFAULT = 2048"

definition FGFS_FEATURE_SPARSE_SUPER :: u32 where "FGFS_FEATURE_SPARSE_SUPER = push_bit 0 1"

definition FGFS_FEATURE_LARGE_FILE :: u32 where "FGFS_FEATURE_LARGE_FILE = push_bit 1 1"

definition FGFS_FEATURE_EXTENT :: u32 where "FGFS_FEATURE_EXTENT = push_bit 2 1"

definition FGFS_FEATURE_JOURNAL :: u32 where "FGFS_FEATURE_JOURNAL = push_bit 3 1"

definition FGFS_FEATURE_CHECKSUMS :: u32 where "FGFS_FEATURE_CHECKSUMS = push_bit 6 1"

datatype fgfs_checksum =
  FGFS_CHECKSUM_NONE | FGFS_CHECKSUM_CRC32 | FGFS_CHECKSUM_CRC32C | FGFS_CHECKSUM_SHA256 | FGFS_CHECKSUM_BLAKE2B

text \<open>The two loops of the checksum, over the bytes, and the function on the memory.\<close>

definition crc_step :: "u8 \<Rightarrow> u32 \<Rightarrow> u32" where
  "crc_step b checksum = (push_bit 8 checksum XOR ucast b) XOR drop_bit 24 checksum"

definition checksum_bytes :: "fgfs_checksum \<Rightarrow> u8 list \<Rightarrow> u32" where
  "checksum_bytes type bs =
     (case type of
        FGFS_CHECKSUM_CRC32 \<Rightarrow> fold crc_step bs 0
      | _ \<Rightarrow> fold (\<lambda>b checksum. checksum + ucast b) bs 0)"

definition fgfs_calculate_checksum :: "u64 \<Rightarrow> u64 \<Rightarrow> fgfs_checksum \<Rightarrow> mem \<Rightarrow> u32" where
  "fgfs_calculate_checksum data sz type m =
     (if data = 0 \<or> sz = 0 then 0 else checksum_bytes type (read_bytes m data (unat sz)))"

definition fgfs_verify_checksum :: "u64 \<Rightarrow> u64 \<Rightarrow> u32 \<Rightarrow> fgfs_checksum \<Rightarrow> mem \<Rightarrow> bool" where
  "fgfs_verify_checksum data sz checksum type m \<longleftrightarrow> fgfs_calculate_checksum data sz type m = checksum"

text \<open>The bytes of a superblock: its fields one after the other, little endian, packed. The last four are the checksum.\<close>

definition le_bytes :: "nat \<Rightarrow> 'w::len word \<Rightarrow> u8 list" where
  "le_bytes n w = map (\<lambda>i. ucast (drop_bit (8 * i) w)) [0..<n]"

definition superblock_bytes :: "fgfs_superblock \<Rightarrow> u8 list" where
  "superblock_bytes sb =
     le_bytes 4 (sb_magic sb) @ le_bytes 4 (sb_version sb) @ le_bytes 8 (sb_block_count sb) @ le_bytes 8 (sb_free_blocks sb) @
     le_bytes 8 (sb_inode_count sb) @ le_bytes 8 (sb_free_inodes sb) @ le_bytes 4 (sb_block_size sb) @ le_bytes 4 (sb_fragment_size sb) @
     le_bytes 4 (sb_blocks_per_group sb) @ le_bytes 4 (sb_inodes_per_group sb) @ le_bytes 4 (sb_group_count sb) @
     le_bytes 8 (sb_root_inode sb) @ le_bytes 8 (sb_lost_found_inode sb) @ le_bytes 8 (sb_journal_inode sb) @
     le_bytes 8 (sb_first_data_block sb) @ le_bytes 4 (sb_max_mount_count sb) @ le_bytes 4 (sb_mount_count sb) @
     le_bytes 8 (sb_last_mounted sb) @ le_bytes 8 (sb_last_written sb) @ le_bytes 8 (sb_last_checked sb) @
     le_bytes 8 (sb_check_interval sb) @ le_bytes 4 (sb_state sb) @ le_bytes 4 (sb_errors sb) @ le_bytes 4 (sb_feature_compat sb) @
     le_bytes 4 (sb_feature_incompat sb) @ le_bytes 4 (sb_feature_ro_compat sb) @ sb_uuid sb @ sb_volume_name sb @
     sb_last_mounted_on sb @ le_bytes 4 (sb_algorithm_usage_bitmap sb) @ le_bytes 4 (sb_default_mount_opts sb) @
     le_bytes 4 (sb_first_meta_bg sb) @ le_bytes 8 (sb_mkfs_time sb) @ concat (map (le_bytes 4) (sb_reserved sb)) @
     le_bytes 4 (sb_checksum sb)"

definition fgfs_init :: "'a fs_sys_scheme \<Rightarrow> int \<times> 'a fs_sys_scheme" where
  "fgfs_init s = fs_register_filesystem FS_TYPE_FGFS (Some fgfs_ops) s"

definition fgfs_shutdown :: "'a fs_sys_scheme \<Rightarrow> 'a fs_sys_scheme" where
  "fgfs_shutdown s = s"

text \<open>Formatting: the layout, the superblock in memory, its checksum; it is then freed, nothing is written to the device.\<close>

definition format_layout :: "u64 \<Rightarrow> u32 \<Rightarrow> fgfs_superblock" where
  "format_layout sz block_size =
     (let total_blocks = sz div ucast block_size;
          blocks_per_group = FGFS_BLOCKS_PER_GROUP_DEFAULT;
          group_count = (ucast ((total_blocks + ucast blocks_per_group - 1) div ucast blocks_per_group) :: u32);
          inodes_per_group = FGFS_INODES_PER_GROUP_DEFAULT;
          total_inodes = ucast (group_count * inodes_per_group)
      in zero_superblock\<lparr>sb_magic := FGFS_MAGIC, sb_version := FGFS_VERSION, sb_block_count := total_blocks,
           sb_free_blocks := total_blocks - 100, sb_inode_count := total_inodes, sb_free_inodes := total_inodes - 10,
           sb_block_size := block_size, sb_fragment_size := block_size, sb_blocks_per_group := blocks_per_group,
           sb_inodes_per_group := inodes_per_group, sb_group_count := group_count, sb_root_inode := 2, sb_lost_found_inode := 11,
           sb_journal_inode := 8, sb_first_data_block := 1, sb_max_mount_count := 100, sb_mount_count := 0\<rparr>)"

fun make_uuid :: "nat \<Rightarrow> 'a fs_sys_scheme fs_env \<Rightarrow> u8 list \<Rightarrow> 'a fs_sys_scheme \<Rightarrow> u8 list \<times> 'a fs_sys_scheme" where
  "make_uuid 0 e uuid s = (uuid, s)"
| "make_uuid (Suc n) e uuid s =
     (let (uuid, s) = make_uuid n e uuid s; (now, s) = get_timestamp e s in (uuid[n := ucast (drop_bit (n * 4) now)], s))"

definition volume_bytes :: "string \<Rightarrow> u8 list" where
  "volume_bytes label = (let cs = take 15 label in map of_char cs @ replicate (16 - length cs) 0)"

definition fgfs_format :: "'a fs_sys_scheme fs_env \<Rightarrow> string option \<Rightarrow> u64 \<Rightarrow> u32 \<Rightarrow> string option \<Rightarrow> 'a fs_sys_scheme \<Rightarrow>
    (int \<times> 'a fs_sys_scheme) option" where
  "fgfs_format e device sz block_size label s =
     (if device = None \<or> block_size < FGFS_BLOCK_SIZE_MIN \<or> FGFS_BLOCK_SIZE_MAX < block_size then Some (-1, s)
      else do {
        let layout = format_layout sz block_size;
        (sb, s) \<leftarrow> kmalloc sizeof_fgfs_superblock s;
        if sb = 0 then Some (-1, s)
        else do {
          let s = clear sb sizeof_fgfs_superblock s;
          let (t1, s) = get_timestamp e s;
          let (t2, s) = get_timestamp e s;
          let (t3, s) = get_timestamp e s;
          let v = layout\<lparr>sb_last_mounted := t1, sb_last_written := t2, sb_mkfs_time := t3, sb_state := 1, sb_errors := 1,
                    sb_feature_compat := FGFS_FEATURE_SPARSE_SUPER OR FGFS_FEATURE_LARGE_FILE,
                    sb_feature_incompat := FGFS_FEATURE_EXTENT OR FGFS_FEATURE_JOURNAL, sb_feature_ro_compat := FGFS_FEATURE_CHECKSUMS\<rparr>;
          let (uuid, s) = make_uuid 16 e (sb_uuid v) s;
          let v = v\<lparr>sb_uuid := uuid\<rparr>;
          let v = (case label of None \<Rightarrow> v | Some l \<Rightarrow> v\<lparr>sb_volume_name := volume_bytes l\<rparr>);
          let v = v\<lparr>sb_checksum := checksum_bytes FGFS_CHECKSUM_CRC32 (take (unat sizeof_fgfs_superblock - 4) (superblock_bytes v))\<rparr>;
          let s = put sb (Superblock v) s;
          s \<leftarrow> drop_object sb s;
          Some (0, s) } })"

text \<open>The minimal superblock of a mount, and what the mount copies from it.\<close>

definition minimal_superblock :: fgfs_superblock where
  "minimal_superblock = zero_superblock\<lparr>sb_magic := FGFS_MAGIC, sb_version := FGFS_VERSION, sb_block_size := FGFS_BLOCK_SIZE_DEFAULT,
     sb_blocks_per_group := FGFS_BLOCKS_PER_GROUP_DEFAULT, sb_inodes_per_group := FGFS_INODES_PER_GROUP_DEFAULT, sb_root_inode := 2\<rparr>"

definition read_superblock :: "fgfs_superblock \<Rightarrow> fgfs_private \<Rightarrow> fgfs_private" where
  "read_superblock sb v =
     (let v = v\<lparr>pv_block_size := sb_block_size sb, pv_inode_size := sizeof_fgfs_inode\<rparr>
      in v\<lparr>pv_inodes_per_block := pv_block_size v div pv_inode_size v, pv_blocks_per_group := sb_blocks_per_group sb,
           pv_inodes_per_group := sb_inodes_per_group sb, pv_group_desc_count := sb_group_count sb, pv_next_generation := 1,
           pv_has_journal := (sb_feature_incompat sb AND FGFS_FEATURE_JOURNAL \<noteq> 0), pv_journal_inode := sb_journal_inode sb\<rparr>)"

definition upd_fgfs :: "u64 \<Rightarrow> (fgfs_private \<Rightarrow> fgfs_private) \<Rightarrow> 'a fs_sys_scheme \<Rightarrow> 'a fs_sys_scheme option" where
  "upd_fgfs p f s = do { v \<leftarrow> get_fgfs p s; Some (put p (Fgfs_private (f v)) s) }"

definition upd_fs :: "u64 \<Rightarrow> (filesystem \<Rightarrow> filesystem) \<Rightarrow> 'a fs_sys_scheme \<Rightarrow> 'a fs_sys_scheme option" where
  "upd_fs p f s = do { v \<leftarrow> get_fs p s; Some (put p (Filesystem (f v)) s) }"

definition upd_file :: "u64 \<Rightarrow> (file_t \<Rightarrow> file_t) \<Rightarrow> 'a fs_sys_scheme \<Rightarrow> 'a fs_sys_scheme option" where
  "upd_file p f s = do { v \<leftarrow> get_file p s; Some (put p (File (f v)) s) }"

text \<open>The journal of a mount, when the superblock asks for one; a failure gives back everything the mount took.\<close>

definition fgfs_mount_journal :: "u64 \<Rightarrow> 'a fs_sys_scheme \<Rightarrow> (int \<times> 'a fs_sys_scheme) option" where
  "fgfs_mount_journal priv s = do {
     v \<leftarrow> get_fgfs priv s;
     if \<not> pv_has_journal v then Some (0, s)
     else do {
       (jrn, s) \<leftarrow> kmalloc sizeof_journal s;
       s \<leftarrow> upd_fgfs priv (\<lambda>v. v\<lparr>pv_journal := jrn\<rparr>) s;
       if jrn = 0 then do {
         s \<leftarrow> fs_cache_destroy (pv_cache v) s; s \<leftarrow> drop_object (pv_cache v) s; s \<leftarrow> drop_object (pv_superblock v) s;
         s \<leftarrow> drop_object priv s; Some (-1, s) }
       else do {
         let (r, s) = fs_journal_init jrn 1000 100 s;
         if r \<noteq> 0 then do {
           s \<leftarrow> drop_object jrn s; s \<leftarrow> fs_cache_destroy (pv_cache v) s; s \<leftarrow> drop_object (pv_cache v) s;
           s \<leftarrow> drop_object (pv_superblock v) s; s \<leftarrow> drop_object priv s; Some (-1, s) }
         else Some (0, s) } } }"

definition fgfs_mount :: "u64 \<Rightarrow> string option \<Rightarrow> u32 \<Rightarrow> 'a fs_sys_scheme \<Rightarrow> (int \<times> 'a fs_sys_scheme) option" where
  "fgfs_mount fs device flags s =
     (if fs = 0 \<or> device = None then Some (-1, s)
      else do {
        (priv, s) \<leftarrow> kmalloc sizeof_fgfs_private s;
        if priv = 0 then Some (-1, s)
        else do {
          let s = put priv (Fgfs_private zero_fgfs_private) (clear priv sizeof_fgfs_private s);
          (sb, s) \<leftarrow> kmalloc sizeof_fgfs_superblock s;
          s \<leftarrow> upd_fgfs priv (\<lambda>v. v\<lparr>pv_superblock := sb\<rparr>) s;
          if sb = 0 then do { s \<leftarrow> drop_object priv s; Some (-1, s) }
          else do {
            let s = put sb (Superblock minimal_superblock) (clear sb sizeof_fgfs_superblock s);
            if sb_magic minimal_superblock \<noteq> FGFS_MAGIC
            then do { s \<leftarrow> drop_object sb s; s \<leftarrow> drop_object priv s; Some (-1, s) }
            else do {
              s \<leftarrow> upd_fgfs priv (read_superblock minimal_superblock) s;
              (cache, s) \<leftarrow> kmalloc sizeof_cache s;
              s \<leftarrow> upd_fgfs priv (\<lambda>v. v\<lparr>pv_cache := cache\<rparr>) s;
              if cache = 0 then do { s \<leftarrow> drop_object sb s; s \<leftarrow> drop_object priv s; Some (-1, s) }
              else do {
                v \<leftarrow> get_fgfs priv s;
                let (r, s) = fs_cache_init cache 512 (pv_block_size v) s;
                if r \<noteq> 0
                then do { s \<leftarrow> drop_object cache s; s \<leftarrow> drop_object sb s; s \<leftarrow> drop_object priv s; Some (-1, s) }
                else do {
                  (r, s) \<leftarrow> fgfs_mount_journal priv s;
                  if r \<noteq> 0 then Some (r, s)
                  else do {
                    s \<leftarrow> upd_fs fs (\<lambda>f. f\<lparr>fs_private := priv, fs_state := FS_STATUS_READY\<rparr>) s;
                    Some (0, s) } } } } } } })"

definition fgfs_unmount :: "'a fs_sys_scheme fs_env \<Rightarrow> u64 \<Rightarrow> 'a fs_sys_scheme \<Rightarrow> (int \<times> 'a fs_sys_scheme) option" where
  "fgfs_unmount e fs s =
     (if fs = 0 then Some (-1, s)
      else do {
        f \<leftarrow> get_fs fs s;
        let priv = fs_private f;
        if priv = 0 then Some (-1, s)
        else do {
          v \<leftarrow> get_fgfs priv s;
          s \<leftarrow> (if pv_cache v \<noteq> 0 then do { (r, s) \<leftarrow> cache_flush e (pv_cache v) s; Some s } else Some s);
          s \<leftarrow> (if pv_journal v \<noteq> 0 then do { s \<leftarrow> fs_journal_destroy (pv_journal v) s; drop_object (pv_journal v) s } else Some s);
          s \<leftarrow> (if pv_cache v \<noteq> 0 then do { s \<leftarrow> fs_cache_destroy (pv_cache v) s; drop_object (pv_cache v) s } else Some s);
          s \<leftarrow> (if pv_group_descs v \<noteq> 0 then drop_object (pv_group_descs v) s else Some s);
          s \<leftarrow> (if pv_superblock v \<noteq> 0 then drop_object (pv_superblock v) s else Some s);
          s \<leftarrow> drop_object priv s;
          s \<leftarrow> upd_fs fs (\<lambda>f. f\<lparr>fs_private := 0, fs_state := FS_STATUS_UNMOUNTED\<rparr>) s;
          Some (0, s) } })"

text \<open>Files. An open returns the new handle beside its code; a transfer returns the number of bytes as a signed 64-bit value.\<close>

definition fgfs_open :: "u64 \<Rightarrow> string option \<Rightarrow> file_access_mode \<Rightarrow> u64 \<Rightarrow> 'a fs_sys_scheme \<Rightarrow>
    (int \<times> u64 option \<times> 'a fs_sys_scheme) option" where
  "fgfs_open fs path mode file s =
     (if fs = 0 \<or> path = None \<or> file = 0 then Some (-1, None, s)
      else do {
        v \<leftarrow> get_fs fs s;
        if fs_private v = 0 then Some (-1, None, s)
        else do {
          (f, s) \<leftarrow> kmalloc sizeof_file s;
          if f = 0 then Some (-1, None, s)
          else
            let s = clear f sizeof_file s
            in Some (0, Some f, put f (File (zero_file\<lparr>fd := 100, f_inode := 2, f_mode := mode, f_position := 0, f_size := 0, f_fs := fs,
                 f_refs := 1, f_modified := False\<rparr>)) s) } })"

definition fgfs_close :: "u64 \<Rightarrow> 'a fs_sys_scheme \<Rightarrow> (int \<times> 'a fs_sys_scheme) option" where
  "fgfs_close file s =
     (if file = 0 then Some (-1, s)
      else do {
        s \<leftarrow> upd_file file (\<lambda>f. f\<lparr>f_refs := f_refs f - 1\<rparr>) s;
        f \<leftarrow> get_file file s;
        s \<leftarrow> (if f_refs f = 0 then drop_object file s else Some s);
        Some (0, s) })"

definition fgfs_read :: "u64 \<Rightarrow> u64 \<Rightarrow> u64 \<Rightarrow> 'a fs_sys_scheme \<Rightarrow> (int \<times> 'a fs_sys_scheme) option" where
  "fgfs_read file buffer sz s = (if file = 0 \<or> buffer = 0 then Some (-1, s) else Some (0, s))"

definition fgfs_write :: "u64 \<Rightarrow> u64 \<Rightarrow> u64 \<Rightarrow> 'a fs_sys_scheme \<Rightarrow> (int \<times> 'a fs_sys_scheme) option" where
  "fgfs_write file buffer sz s =
     (if file = 0 \<or> buffer = 0 then Some (-1, s) else do { s \<leftarrow> upd_file file (\<lambda>f. f\<lparr>f_modified := True\<rparr>) s; Some (sint sz, s) })"

definition fgfs_seek :: "u64 \<Rightarrow> u64 \<Rightarrow> seek_origin \<Rightarrow> 'a fs_sys_scheme \<Rightarrow> (int \<times> 'a fs_sys_scheme) option" where
  "fgfs_seek file offset origin s =
     (if file = 0 then Some (-1, s)
      else do {
        f \<leftarrow> get_file file s;
        let new_pos = (case origin of
            SEEK_SET \<Rightarrow> Some offset
          | SEEK_CUR \<Rightarrow> Some (f_position f + offset)
          | SEEK_END \<Rightarrow> Some (f_size f + offset)
          | SEEK_OTHER \<Rightarrow> None);
        case new_pos of
          None \<Rightarrow> Some (-1, s)
        | Some pos \<Rightarrow>
            if sint pos < 0 then Some (-1, s)
            else do { s \<leftarrow> upd_file file (\<lambda>f. f\<lparr>f_position := pos\<rparr>) s; Some (sint pos, s) } })"

definition fgfs_create :: "u64 \<Rightarrow> string option \<Rightarrow> 16 word \<Rightarrow> 'a fs_sys_scheme \<Rightarrow> int \<times> 'a fs_sys_scheme" where
  "fgfs_create fs path permissions s = (if fs = 0 \<or> path = None then (-1, s) else (0, s))"

definition fgfs_mkdir :: "u64 \<Rightarrow> string option \<Rightarrow> 16 word \<Rightarrow> 'a fs_sys_scheme \<Rightarrow> int \<times> 'a fs_sys_scheme" where
  "fgfs_mkdir fs path permissions s = (if fs = 0 \<or> path = None then (-1, s) else (0, s))"

definition fgfs_unlink :: "u64 \<Rightarrow> string option \<Rightarrow> 'a fs_sys_scheme \<Rightarrow> int \<times> 'a fs_sys_scheme" where
  "fgfs_unlink fs path s = (if fs = 0 \<or> path = None then (-1, s) else (0, s))"

definition fgfs_stat :: "'a fs_sys_scheme fs_env \<Rightarrow> u64 \<Rightarrow> string option \<Rightarrow> u64 \<Rightarrow> 'a fs_sys_scheme \<Rightarrow>
    int \<times> file_metadata option \<times> 'a fs_sys_scheme" where
  "fgfs_stat e fs path metadata s =
     (case path of
        None \<Rightarrow> (-1, None, s)
      | Some p \<Rightarrow>
          if fs = 0 \<or> metadata = 0 then (-1, None, s)
          else
            let (t1, s) = get_timestamp e s;
                (t2, s) = get_timestamp e s;
                (t3, s) = get_timestamp e s
            in (0, Some (zero_metadata\<lparr>md_inode := 2, md_type := FILE_TYPE_DIRECTORY, md_size := 0, md_permissions := 0x1ED,
                    md_created_time := t1, md_modified_time := t2, md_accessed_time := t3,
                    md_name := take (MAX_FILENAME_LENGTH - 1) p\<rparr>), s))"

section \<open>FAT32\<close>

definition fat32_init :: "'a fs_sys_scheme \<Rightarrow> int \<times> 'a fs_sys_scheme" where
  "fat32_init s = fs_register_filesystem FS_TYPE_FAT32 (Some fat32_ops) s"

definition fat32_shutdown :: "'a fs_sys_scheme \<Rightarrow> 'a fs_sys_scheme" where
  "fat32_shutdown s = s"

definition fat32_mount :: "u64 \<Rightarrow> string option \<Rightarrow> u32 \<Rightarrow> 'a fs_sys_scheme \<Rightarrow> (int \<times> 'a fs_sys_scheme) option" where
  "fat32_mount fs device flags s =
     (if fs = 0 \<or> device = None then Some (-1, s)
      else do {
        (priv, s) \<leftarrow> kmalloc sizeof_fat32_private s;
        if priv = 0 then Some (-1, s)
        else do {
          let s = put priv (Fat32_private zero_fat32_private) (clear priv sizeof_fat32_private s);
          s \<leftarrow> upd_fs fs (\<lambda>f. f\<lparr>fs_private := priv, fs_state := FS_STATUS_READY\<rparr>) s;
          Some (0, s) } })"

definition fat32_unmount :: "u64 \<Rightarrow> 'a fs_sys_scheme \<Rightarrow> (int \<times> 'a fs_sys_scheme) option" where
  "fat32_unmount fs s =
     (if fs = 0 then Some (-1, s)
      else do {
        f \<leftarrow> get_fs fs s;
        let priv = fs_private f;
        if priv = 0 then Some (-1, s)
        else do {
          v \<leftarrow> get_fat32 priv s;
          s \<leftarrow> (if fat_cache v \<noteq> 0 then do { s \<leftarrow> fs_cache_destroy (fat_cache v) s; drop_object (fat_cache v) s } else Some s);
          s \<leftarrow> drop_object priv s;
          s \<leftarrow> upd_fs fs (\<lambda>f. f\<lparr>fs_private := 0, fs_state := FS_STATUS_UNMOUNTED\<rparr>) s;
          Some (0, s) } })"

definition fat32_open :: "u64 \<Rightarrow> string option \<Rightarrow> file_access_mode \<Rightarrow> u64 \<Rightarrow> 'a fs_sys_scheme \<Rightarrow>
    (int \<times> u64 option \<times> 'a fs_sys_scheme) option" where
  "fat32_open fs path mode file s =
     (if fs = 0 \<or> path = None \<or> file = 0 then Some (-1, None, s)
      else do {
        (f, s) \<leftarrow> kmalloc sizeof_file s;
        if f = 0 then Some (-1, None, s)
        else
          let s = clear f sizeof_file s
          in Some (0, Some f, put f (File (zero_file\<lparr>fd := 200, f_mode := mode, f_fs := fs, f_refs := 1\<rparr>)) s) })"

definition fat32_close :: "u64 \<Rightarrow> 'a fs_sys_scheme \<Rightarrow> (int \<times> 'a fs_sys_scheme) option" where
  "fat32_close file s =
     (if file = 0 then Some (-1, s)
      else do {
        s \<leftarrow> upd_file file (\<lambda>f. f\<lparr>f_refs := f_refs f - 1\<rparr>) s;
        f \<leftarrow> get_file file s;
        s \<leftarrow> (if f_refs f = 0 then drop_object file s else Some s);
        Some (0, s) })"

definition fat32_read :: "u64 \<Rightarrow> u64 \<Rightarrow> u64 \<Rightarrow> 'a fs_sys_scheme \<Rightarrow> (int \<times> 'a fs_sys_scheme) option" where
  "fat32_read file buffer sz s = (if file = 0 \<or> buffer = 0 then Some (-1, s) else Some (0, s))"

definition fat32_write :: "u64 \<Rightarrow> u64 \<Rightarrow> u64 \<Rightarrow> 'a fs_sys_scheme \<Rightarrow> (int \<times> 'a fs_sys_scheme) option" where
  "fat32_write file buffer sz s =
     (if file = 0 \<or> buffer = 0 then Some (-1, s) else Some (sint sz, s))"

definition fat32_seek :: "u64 \<Rightarrow> u64 \<Rightarrow> seek_origin \<Rightarrow> 'a fs_sys_scheme \<Rightarrow> (int \<times> 'a fs_sys_scheme) option" where
  "fat32_seek file offset origin s =
     (if file = 0 then Some (-1, s)
      else do {
        f \<leftarrow> get_file file s;
        let new_pos = (case origin of
            SEEK_SET \<Rightarrow> Some offset
          | SEEK_CUR \<Rightarrow> Some (f_position f + offset)
          | SEEK_END \<Rightarrow> Some (f_size f + offset)
          | SEEK_OTHER \<Rightarrow> None);
        case new_pos of
          None \<Rightarrow> Some (-1, s)
        | Some pos \<Rightarrow>
            if sint pos < 0 then Some (-1, s)
            else do { s \<leftarrow> upd_file file (\<lambda>f. f\<lparr>f_position := pos\<rparr>) s; Some (sint pos, s) } })"

definition fat32_create :: "u64 \<Rightarrow> string option \<Rightarrow> 16 word \<Rightarrow> 'a fs_sys_scheme \<Rightarrow> int \<times> 'a fs_sys_scheme" where
  "fat32_create fs path permissions s = (if fs = 0 \<or> path = None then (-1, s) else (0, s))"

definition fat32_mkdir :: "u64 \<Rightarrow> string option \<Rightarrow> 16 word \<Rightarrow> 'a fs_sys_scheme \<Rightarrow> int \<times> 'a fs_sys_scheme" where
  "fat32_mkdir fs path permissions s = (if fs = 0 \<or> path = None then (-1, s) else (0, s))"

definition fat32_unlink :: "u64 \<Rightarrow> string option \<Rightarrow> 'a fs_sys_scheme \<Rightarrow> int \<times> 'a fs_sys_scheme" where
  "fat32_unlink fs path s = (if fs = 0 \<or> path = None then (-1, s) else (0, s))"

definition fat32_stat :: "u64 \<Rightarrow> string option \<Rightarrow> u64 \<Rightarrow> 'a fs_sys_scheme \<Rightarrow> int \<times> file_metadata option \<times> 'a fs_sys_scheme" where
  "fat32_stat fs path metadata s =
     (case path of
        None \<Rightarrow> (-1, None, s)
      | Some p \<Rightarrow>
          if fs = 0 \<or> metadata = 0 then (-1, None, s)
          else (0, Some (zero_metadata\<lparr>md_type := FILE_TYPE_REGULAR, md_name := take (MAX_FILENAME_LENGTH - 1) p\<rparr>), s))"

section \<open>ext4\<close>

definition ext4_init :: "'a fs_sys_scheme \<Rightarrow> int \<times> 'a fs_sys_scheme" where
  "ext4_init s = fs_register_filesystem FS_TYPE_EXT4 (Some ext4_ops) s"

definition ext4_shutdown :: "'a fs_sys_scheme \<Rightarrow> 'a fs_sys_scheme" where
  "ext4_shutdown s = s"

definition ext4_mount :: "u64 \<Rightarrow> string option \<Rightarrow> u32 \<Rightarrow> 'a fs_sys_scheme \<Rightarrow> (int \<times> 'a fs_sys_scheme) option" where
  "ext4_mount fs device flags s =
     (if fs = 0 \<or> device = None then Some (-1, s)
      else do {
        (priv, s) \<leftarrow> kmalloc sizeof_ext4_private s;
        if priv = 0 then Some (-1, s)
        else do {
          let s = put priv (Ext4_private zero_ext4_private) (clear priv sizeof_ext4_private s);
          s \<leftarrow> upd_fs fs (\<lambda>f. f\<lparr>fs_private := priv, fs_state := FS_STATUS_READY\<rparr>) s;
          Some (0, s) } })"

definition ext4_unmount :: "u64 \<Rightarrow> 'a fs_sys_scheme \<Rightarrow> (int \<times> 'a fs_sys_scheme) option" where
  "ext4_unmount fs s =
     (if fs = 0 then Some (-1, s)
      else do {
        f \<leftarrow> get_fs fs s;
        let priv = fs_private f;
        if priv = 0 then Some (-1, s)
        else do {
          v \<leftarrow> get_ext4 priv s;
          s \<leftarrow> (if ext_cache v \<noteq> 0 then do { s \<leftarrow> fs_cache_destroy (ext_cache v) s; drop_object (ext_cache v) s } else Some s);
          s \<leftarrow> drop_object priv s;
          s \<leftarrow> upd_fs fs (\<lambda>f. f\<lparr>fs_private := 0, fs_state := FS_STATUS_UNMOUNTED\<rparr>) s;
          Some (0, s) } })"

definition ext4_open :: "u64 \<Rightarrow> string option \<Rightarrow> file_access_mode \<Rightarrow> u64 \<Rightarrow> 'a fs_sys_scheme \<Rightarrow>
    (int \<times> u64 option \<times> 'a fs_sys_scheme) option" where
  "ext4_open fs path mode file s =
     (if fs = 0 \<or> path = None \<or> file = 0 then Some (-1, None, s)
      else do {
        (f, s) \<leftarrow> kmalloc sizeof_file s;
        if f = 0 then Some (-1, None, s)
        else
          let s = clear f sizeof_file s
          in Some (0, Some f, put f (File (zero_file\<lparr>fd := 300, f_mode := mode, f_fs := fs, f_refs := 1\<rparr>)) s) })"

definition ext4_close :: "u64 \<Rightarrow> 'a fs_sys_scheme \<Rightarrow> (int \<times> 'a fs_sys_scheme) option" where
  "ext4_close file s =
     (if file = 0 then Some (-1, s)
      else do {
        s \<leftarrow> upd_file file (\<lambda>f. f\<lparr>f_refs := f_refs f - 1\<rparr>) s;
        f \<leftarrow> get_file file s;
        s \<leftarrow> (if f_refs f = 0 then drop_object file s else Some s);
        Some (0, s) })"

definition ext4_read :: "u64 \<Rightarrow> u64 \<Rightarrow> u64 \<Rightarrow> 'a fs_sys_scheme \<Rightarrow> (int \<times> 'a fs_sys_scheme) option" where
  "ext4_read file buffer sz s = (if file = 0 \<or> buffer = 0 then Some (-1, s) else Some (0, s))"

definition ext4_write :: "u64 \<Rightarrow> u64 \<Rightarrow> u64 \<Rightarrow> 'a fs_sys_scheme \<Rightarrow> (int \<times> 'a fs_sys_scheme) option" where
  "ext4_write file buffer sz s =
     (if file = 0 \<or> buffer = 0 then Some (-1, s) else Some (sint sz, s))"

definition ext4_seek :: "u64 \<Rightarrow> u64 \<Rightarrow> seek_origin \<Rightarrow> 'a fs_sys_scheme \<Rightarrow> (int \<times> 'a fs_sys_scheme) option" where
  "ext4_seek file offset origin s =
     (if file = 0 then Some (-1, s)
      else do {
        f \<leftarrow> get_file file s;
        let new_pos = (case origin of
            SEEK_SET \<Rightarrow> Some offset
          | SEEK_CUR \<Rightarrow> Some (f_position f + offset)
          | SEEK_END \<Rightarrow> Some (f_size f + offset)
          | SEEK_OTHER \<Rightarrow> None);
        case new_pos of
          None \<Rightarrow> Some (-1, s)
        | Some pos \<Rightarrow>
            if sint pos < 0 then Some (-1, s)
            else do { s \<leftarrow> upd_file file (\<lambda>f. f\<lparr>f_position := pos\<rparr>) s; Some (sint pos, s) } })"

definition ext4_create :: "u64 \<Rightarrow> string option \<Rightarrow> 16 word \<Rightarrow> 'a fs_sys_scheme \<Rightarrow> int \<times> 'a fs_sys_scheme" where
  "ext4_create fs path permissions s = (if fs = 0 \<or> path = None then (-1, s) else (0, s))"

definition ext4_mkdir :: "u64 \<Rightarrow> string option \<Rightarrow> 16 word \<Rightarrow> 'a fs_sys_scheme \<Rightarrow> int \<times> 'a fs_sys_scheme" where
  "ext4_mkdir fs path permissions s = (if fs = 0 \<or> path = None then (-1, s) else (0, s))"

definition ext4_unlink :: "u64 \<Rightarrow> string option \<Rightarrow> 'a fs_sys_scheme \<Rightarrow> int \<times> 'a fs_sys_scheme" where
  "ext4_unlink fs path s = (if fs = 0 \<or> path = None then (-1, s) else (0, s))"

definition ext4_stat :: "u64 \<Rightarrow> string option \<Rightarrow> u64 \<Rightarrow> 'a fs_sys_scheme \<Rightarrow> int \<times> file_metadata option \<times> 'a fs_sys_scheme" where
  "ext4_stat fs path metadata s =
     (case path of
        None \<Rightarrow> (-1, None, s)
      | Some p \<Rightarrow>
          if fs = 0 \<or> metadata = 0 then (-1, None, s)
          else (0, Some (zero_metadata\<lparr>md_type := FILE_TYPE_REGULAR, md_name := take (MAX_FILENAME_LENGTH - 1) p\<rparr>), s))"

section \<open>The objects of the file systems\<close>

text \<open>
  What the file systems see of a state: the live objects of the heap, the typed objects, the manager and the registered
  implementations. Every basic step acts on this view.
\<close>

definition models :: "'a fs_sys_scheme \<Rightarrow> (u64 \<times> nat) set \<Rightarrow> fs_object store \<Rightarrow> fs_manager \<Rightarrow> (fs_type \<Rightarrow> fs_operations option) \<Rightarrow> bool" where
  "models s L h m r \<longleftrightarrow> heap_inv s \<and> live_objects s = L \<and> objs s = h \<and> fs_mgr s = m \<and> registered_fs s = r"

lemma models_self: "heap_inv s \<Longrightarrow> models s (live_objects s) (objs s) (fs_mgr s) (registered_fs s)"
  by (simp add: models_def)

lemma models_heap_step:
  assumes "models s L h m r" and "heap_frame s s'" and "heap_inv s'" and "live_objects s' = L'"
  shows "models s' L' h m r"
  using assms by (auto simp: models_def elim!: heap_frameE)

lemma models_alloc:
  assumes mo: "models s L h m r" and d: "dom h \<subseteq> fst ` L" and sz: "sz \<noteq> 0" "unat sz + 55 < 2 ^ 64"
  obtains "kmalloc sz s = Some (0, s)"
    | p n s' where "kmalloc sz s = Some (p, s')" "p \<noteq> 0" "unat sz \<le> n" "p \<notin> fst ` L" "p \<notin> dom h" "h p = None"
      "models s' (insert (p, n) L) h m r"
proof -
  from mo have inv: "heap_inv s" and L: "live_objects s = L" by (simp_all add: models_def)
  from kmalloc_alloc_law [OF inv sz] show thesis
  proof (elim disjE exE conjE)
    fix p n s'
    assume k: "kmalloc sz s = Some (p, s')" "p \<noteq> 0" "unat sz \<le> n" "p \<notin> fst ` live_objects s"
      "live_objects s' = insert (p, n) (live_objects s)" "heap_inv s'" "heap_frame s s'"
    have "p \<notin> dom h" using k(4) d L by blast
    moreover have "models s' (insert (p, n) L) h m r" by (rule models_heap_step [OF mo k(7,6)]) (simp add: k(5) L)
    ultimately show thesis using that(2) k L by (auto simp: domIff)
  qed (rule that(1))
qed

lemma models_clear:
  assumes mo: "models s L h m r" and p: "(p, n) \<in> L" "unat sz \<le> n"
  shows "models (clear p sz s) L h m r"
proof -
  from mo have inv: "heap_inv s" and L: "live_objects s = L" by (simp_all add: models_def)
  have b: "unat p + n < 2 ^ 64" using live_objects_bounds(2) [OF inv] p(1) L by blast
  have "memset p 0 sz (memory s) x = memory s x" if "\<not> inside p n x" for x
    using region_inside [of p 0 sz x n] that p(2) b by (auto simp: memset_fill mem_fill_def)
  from heap_write_law [OF inv _ this] p(1) L show ?thesis using mo by (simp add: models_def clear_def)
qed

lemma models_put: "models s L h m r \<Longrightarrow> models (put p ob s) L (h(p \<mapsto> ob)) m r"
  using heap_view_cong(1,2) [of "put p ob s" s] by (simp add: models_def put_def)

lemma models_drop:
  assumes mo: "models s L h m r" and p: "(p, n) \<in> L"
  obtains s' where "drop_object p s = Some s'" "models s' (L - {(p, n)}) (h(p := None)) m r"
proof -
  from mo have inv: "heap_inv s" and L: "live_objects s = L" by (simp_all add: models_def)
  obtain s1 where s1: "kfree p s = Some s1" "live_objects s1 = L - {(p, n)}" "heap_inv s1" "heap_frame s s1"
    using kfree_release_law [OF inv] p L by blast
  have m1: "models s1 (L - {(p, n)}) h m r" by (rule models_heap_step [OF mo s1(4,3,2)])
  have "models (s1\<lparr>objs := (objs s1)(p := None)\<rparr>) (L - {(p, n)}) (h(p := None)) m r"
    using m1 heap_view_cong(1,2) [of "s1\<lparr>objs := (objs s1)(p := None)\<rparr>" s1] by (simp add: models_def)
  then show thesis using that s1(1) by (simp add: drop_object_def)
qed

lemma models_get:
  assumes "models s L h m r"
  shows "get_fs p s = (case h p of Some (Filesystem f) \<Rightarrow> Some f | _ \<Rightarrow> None)"
    "get_cache p s = (case h p of Some (Cache f) \<Rightarrow> Some f | _ \<Rightarrow> None)"
    "get_fgfs p s = (case h p of Some (Fgfs_private f) \<Rightarrow> Some f | _ \<Rightarrow> None)"
    "get_fat32 p s = (case h p of Some (Fat32_private f) \<Rightarrow> Some f | _ \<Rightarrow> None)"
    "get_ext4 p s = (case h p of Some (Ext4_private f) \<Rightarrow> Some f | _ \<Rightarrow> None)"
    "get_file p s = (case h p of Some (File f) \<Rightarrow> Some f | _ \<Rightarrow> None)"
    "objs s = h" "fs_mgr s = m" "registered_fs s = r"
  using assms by (simp_all add: models_def get_fs_def get_cache_def get_fgfs_def get_fat32_def get_ext4_def get_file_def)

lemma models_upd_fs:
  assumes "models s L h m r" and "h p = Some (Filesystem f)"
  obtains s' where "upd_fs p g s = Some s'" "models s' L (h(p \<mapsto> Filesystem (g f))) m r"
  using models_put [OF assms(1)] assms by (simp add: upd_fs_def models_get [OF assms(1)])

lemma models_upd_fgfs:
  assumes "models s L h m r" and "h p = Some (Fgfs_private v)"
  obtains s' where "upd_fgfs p g s = Some s'" "models s' L (h(p \<mapsto> Fgfs_private (g v))) m r"
  using models_put [OF assms(1)] assms by (simp add: upd_fgfs_def models_get [OF assms(1)])

text \<open>A cache without entries is destroyed by clearing it.\<close>

lemma models_cache_destroy:
  assumes mo: "models s L h m r" and c: "(c, n) \<in> L" "48 \<le> n" "h c = Some (Cache k)" "c_entries k = 0"
  obtains s' where "fs_cache_destroy c s = Some s'" "models s' L (h(c \<mapsto> Cache zero_cache)) m r"
proof -
  have "c \<noteq> 0" using live_objects_bounds(1) [of s c n] mo c(1) by (simp add: models_def)
  moreover have "models (clear c sizeof_cache s) L h m r"
    by (rule models_clear [OF mo c(1)]) (use c(2) in \<open>simp add: fs_sizes\<close>)
  note models_put [OF this, of c "Cache zero_cache"]
  ultimately show thesis
    using that c(3,4) by (simp add: fs_cache_destroy_def models_get [OF mo] free_entries.simps [of 0])
qed

section \<open>Implementations\<close>

text \<open>
  The contract of an implementation with the manager. A mount that fails leaves every object as it was; one that succeeds adds the
  objects the implementation owns, under the private pointer of the file system. An unmount takes exactly these back.
\<close>

definition flush_ok :: "'a fs_sys_scheme fs_env \<Rightarrow> bool" where
  "flush_ok e \<longleftrightarrow> (\<forall>s c k. objs s c = Some (Cache k) \<longrightarrow>
     (\<exists>r k'. cache_flush e c s = Some (r, put c (Cache k') s) \<and> c_entries k' = c_entries k))"

locale mountable =
  fixes mount :: "u64 \<Rightarrow> string option \<Rightarrow> u32 \<Rightarrow> 'a fs_sys_scheme \<Rightarrow> (int \<times> 'a fs_sys_scheme) option"
    and unmount :: "'a fs_sys_scheme fs_env \<Rightarrow> u64 \<Rightarrow> 'a fs_sys_scheme \<Rightarrow> (int \<times> 'a fs_sys_scheme) option"
    and owns :: "fs_object store \<Rightarrow> u64 \<Rightarrow> (u64 \<times> nat) set \<Rightarrow> bool"
  assumes mount_law: "models s L h m r \<Longrightarrow> dom h \<subseteq> fst ` L \<Longrightarrow> h fs = Some (Filesystem f) \<Longrightarrow> fs \<noteq> 0 \<Longrightarrow>
      (\<exists>c s'. mount fs (Some dev) flags s = Some (c, s') \<and> c \<noteq> 0 \<and> models s' L h m r) \<or>
      (\<exists>s' p A h'. mount fs (Some dev) flags s = Some (0, s') \<and> owns h' p A \<and> dom h' = fst ` A \<and> fst ` A \<inter> fst ` L = {} \<and>
         models s' (L \<union> A) ((h ++ h')(fs \<mapsto> Filesystem (f\<lparr>fs_private := p, fs_state := FS_STATUS_READY\<rparr>))) m r)"
    and unmount_law: "flush_ok e \<Longrightarrow> models s L h m r \<Longrightarrow> h fs = Some (Filesystem f) \<Longrightarrow> fs \<noteq> 0 \<Longrightarrow> fs \<notin> fst ` A \<Longrightarrow> A \<subseteq> L \<Longrightarrow>
      owns h (fs_private f) A \<Longrightarrow>
      \<exists>s'. unmount e fs s = Some (0, s') \<and>
        models s' (L - A) ((h |` (- fst ` A))(fs \<mapsto> Filesystem (f\<lparr>fs_private := 0, fs_state := FS_STATUS_UNMOUNTED\<rparr>))) m r"
    and owns_cong: "owns h p A \<Longrightarrow> (\<And>x. x \<in> fst ` A \<Longrightarrow> h' x = h x) \<Longrightarrow> owns h' p A"
begin

text \<open>A file system that was just mounted and is unmounted at once leaves no object behind.\<close>

lemma take_back:
  assumes "flush_ok e" and "models s (L \<union> A) ((h ++ h')(fs \<mapsto> Filesystem f)) m r" and "owns h' (fs_private f) A"
    and "dom h' = fst ` A" and "fst ` A \<inter> fst ` L = {}" and "dom h \<subseteq> fst ` L" and "fs \<in> fst ` L" and "fs \<noteq> 0"
  shows "\<exists>s'. unmount e fs s = Some (0, s') \<and> models s' L (h(fs \<mapsto> Filesystem (f\<lparr>fs_private := 0, fs_state := FS_STATUS_UNMOUNTED\<rparr>))) m r"
proof -
  let ?h = "(h ++ h')(fs \<mapsto> Filesystem f)"
  have fs: "fs \<notin> fst ` A" using assms(5,7) by blast
  have o: "owns ?h (fs_private f) A" using assms(4) fs by (intro owns_cong [OF assms(3)]) (auto simp: map_add_dom_app_simps)
  from unmount_law [OF assms(1,2) _ assms(8) fs _ o]
  obtain s' where s': "unmount e fs s = Some (0, s')"
    "models s' (L \<union> A - A) ((?h |` (- fst ` A))(fs \<mapsto> Filesystem (f\<lparr>fs_private := 0, fs_state := FS_STATUS_UNMOUNTED\<rparr>))) m r" by auto
  have "L \<inter> A = {}" using assms(5) by blast
  moreover have "(?h |` (- fst ` A))(fs \<mapsto> v) = h(fs \<mapsto> v)" for v
  proof
    fix x
    have "h x = None" if "x \<in> fst ` A" using that assms(5,6) by blast
    moreover have "h' x = None" if "x \<notin> fst ` A" using that assms(4) by blast
    ultimately show "((?h |` (- fst ` A))(fs \<mapsto> v)) x = (h(fs \<mapsto> v)) x" by (auto simp: restrict_map_def map_add_def)
  qed
  ultimately show ?thesis using s' by (metis Diff_cancel Un_Diff Un_empty_right Diff_triv)
qed

end

text \<open>What each implementation owns.\<close>

definition fgfs_owns :: "fs_object store \<Rightarrow> u64 \<Rightarrow> (u64 \<times> nat) set \<Rightarrow> bool" where
  "fgfs_owns h p A \<longleftrightarrow> (\<exists>v sb k n i j. h p = Some (Fgfs_private v) \<and> h (pv_superblock v) = Some (Superblock sb) \<and>
     h (pv_cache v) = Some (Cache k) \<and> c_entries k = 0 \<and> pv_journal v = 0 \<and> pv_group_descs v = 0 \<and> distinct [0, p, pv_superblock v, pv_cache v] \<and>
     A = {(p, n), (pv_superblock v, i), (pv_cache v, j)} \<and> 48 \<le> j)"

definition fat32_owns :: "fs_object store \<Rightarrow> u64 \<Rightarrow> (u64 \<times> nat) set \<Rightarrow> bool" where
  "fat32_owns h p A \<longleftrightarrow> (\<exists>v n. h p = Some (Fat32_private v) \<and> fat_cache v = 0 \<and> p \<noteq> 0 \<and> A = {(p, n)})"

definition ext4_owns :: "fs_object store \<Rightarrow> u64 \<Rightarrow> (u64 \<times> nat) set \<Rightarrow> bool" where
  "ext4_owns h p A \<longleftrightarrow> (\<exists>v n. h p = Some (Ext4_private v) \<and> ext_cache v = 0 \<and> p \<noteq> 0 \<and> A = {(p, n)})"

text \<open>FAT32 and ext4 allocate one object, and give it back.\<close>

lemma plain_mount:
  assumes mo: "models s L h m r" and d: "dom h \<subseteq> fst ` L" and f: "h fs = Some (Filesystem f)" and sz: "sz \<noteq> 0" "unat sz + 55 < 2 ^ 64"
    and owns: "\<And>p n. p \<noteq> 0 \<Longrightarrow> owns [p \<mapsto> ob] p {(p, n)}"
    and mount: "mount = do { (priv, s) \<leftarrow> kmalloc sz s;
       if priv = 0 then Some (-1, s)
       else do { s \<leftarrow> upd_fs fs (\<lambda>f. f\<lparr>fs_private := priv, fs_state := FS_STATUS_READY\<rparr>) (put priv ob (clear priv sz s)); Some (0, s) } }"
  shows "(\<exists>c s'. mount = Some (c, s') \<and> c \<noteq> 0 \<and> models s' L h m r) \<or>
      (\<exists>s' p A h'. mount = Some (0 :: int, s') \<and> owns h' p A \<and> dom h' = fst ` A \<and> fst ` A \<inter> fst ` L = {} \<and>
         models s' (L \<union> A) ((h ++ h')(fs \<mapsto> Filesystem (f\<lparr>fs_private := p, fs_state := FS_STATUS_READY\<rparr>))) m r)"
proof (rule models_alloc [OF mo d sz])
  assume "kmalloc sz s = Some (0, s)"
  then show ?thesis using mo by (simp add: mount)
next
  fix p n s1
  assume k: "kmalloc sz s = Some (p, s1)" "p \<noteq> 0" "unat sz \<le> n" "p \<notin> fst ` L" "p \<notin> dom h" "h p = None" "models s1 (insert (p, n) L) h m r"
  have "models (put p ob (clear p sz s1)) (insert (p, n) L) (h(p \<mapsto> ob)) m r"
    by (rule models_put, rule models_clear [OF k(7) _ k(3)]) simp
  moreover have "(h(p \<mapsto> ob)) fs = Some (Filesystem f)" using f k(6) by auto
  ultimately obtain s2 where s2: "upd_fs fs (\<lambda>f. f\<lparr>fs_private := p, fs_state := FS_STATUS_READY\<rparr>) (put p ob (clear p sz s1)) = Some s2"
    "models s2 (insert (p, n) L) (h(p \<mapsto> ob, fs \<mapsto> Filesystem (f\<lparr>fs_private := p, fs_state := FS_STATUS_READY\<rparr>))) m r"
    by (rule models_upd_fs)
  have "mount = Some (0, s2)" using k(1,2) s2(1) by (simp add: mount)
  then show ?thesis
    using owns [OF k(2), of n] k(4) s2(2)
    by (intro disjI2 exI [of _ s2] exI [of _ p] exI [of _ "{(p, n)}"] exI [of _ "[p \<mapsto> ob]"]) simp
qed

lemma plain_unmount:
  assumes mo: "models s L h m r" and f: "h fs = Some (Filesystem f)" "fs \<notin> fst ` A" and A: "A \<subseteq> L" "A = {(fs_private f, n)}"
    and unmount: "unmount = do { s \<leftarrow> drop_object (fs_private f) s;
       s \<leftarrow> upd_fs fs (\<lambda>f. f\<lparr>fs_private := 0, fs_state := FS_STATUS_UNMOUNTED\<rparr>) s; Some (0, s) }"
  shows "\<exists>s'. unmount = Some (0 :: int, s') \<and>
    models s' (L - A) ((h |` (- fst ` A))(fs \<mapsto> Filesystem (f\<lparr>fs_private := 0, fs_state := FS_STATUS_UNMOUNTED\<rparr>))) m r"
proof -
  obtain s1 where s1: "drop_object (fs_private f) s = Some s1" "models s1 (L - A) (h(fs_private f := None)) m r"
    using models_drop [OF mo, of "fs_private f" n] A by auto
  have "(h(fs_private f := None)) fs = Some (Filesystem f)" using f A(2) by auto
  from models_upd_fs [OF s1(2) this] obtain s2 where "upd_fs fs (\<lambda>f. f\<lparr>fs_private := 0, fs_state := FS_STATUS_UNMOUNTED\<rparr>) s1 = Some s2"
    "models s2 (L - A) (h(fs_private f := None, fs \<mapsto> Filesystem (f\<lparr>fs_private := 0, fs_state := FS_STATUS_UNMOUNTED\<rparr>))) m r" .
  moreover have "h |` (- fst ` A) = h(fs_private f := None)" using A(2) by (auto simp: restrict_map_def)
  ultimately show ?thesis using s1(1) by (simp add: unmount)
qed

interpretation fat32: mountable fat32_mount "\<lambda>e. fat32_unmount" fat32_owns
proof unfold_locales
  fix s :: "'a fs_sys_scheme" and L h m r fs f dev flags
  assume "models s L h m r" "dom h \<subseteq> fst ` L" "h fs = Some (Filesystem f)" "fs \<noteq> 0"
  then show "(\<exists>c s'. fat32_mount fs (Some dev) flags s = Some (c, s') \<and> c \<noteq> 0 \<and> models s' L h m r) \<or>
      (\<exists>s' p A h'. fat32_mount fs (Some dev) flags s = Some (0, s') \<and> fat32_owns h' p A \<and> dom h' = fst ` A \<and> fst ` A \<inter> fst ` L = {} \<and>
         models s' (L \<union> A) ((h ++ h')(fs \<mapsto> Filesystem (f\<lparr>fs_private := p, fs_state := FS_STATUS_READY\<rparr>))) m r)"
    by (intro plain_mount [of s L h m r fs f sizeof_fat32_private fat32_owns "Fat32_private zero_fat32_private"])
      (assumption | (unfold fat32_mount_def Let_def, simp; fail) | simp add: fs_sizes fat32_owns_def zero_fat32_private_def)+
next
  fix e :: "'a fs_sys_scheme fs_env" and s :: "'a fs_sys_scheme" and L h m r fs f A
  assume *: "models s L h m r" "h fs = Some (Filesystem f)" "fs \<noteq> 0" "fs \<notin> fst ` A" "A \<subseteq> L" "fat32_owns h (fs_private f) A"
  then show "\<exists>s'. fat32_unmount fs s = Some (0, s') \<and>
        models s' (L - A) ((h |` (- fst ` A))(fs \<mapsto> Filesystem (f\<lparr>fs_private := 0, fs_state := FS_STATUS_UNMOUNTED\<rparr>))) m r"
    by (elim fat32_owns_def [THEN iffD1, elim_format] exE conjE)
      (rule plain_unmount, auto simp: fat32_unmount_def models_get [OF *(1)])
qed (auto simp: fat32_owns_def)

interpretation ext4: mountable ext4_mount "\<lambda>e. ext4_unmount" ext4_owns
proof unfold_locales
  fix s :: "'a fs_sys_scheme" and L h m r fs f dev flags
  assume "models s L h m r" "dom h \<subseteq> fst ` L" "h fs = Some (Filesystem f)" "fs \<noteq> 0"
  then show "(\<exists>c s'. ext4_mount fs (Some dev) flags s = Some (c, s') \<and> c \<noteq> 0 \<and> models s' L h m r) \<or>
      (\<exists>s' p A h'. ext4_mount fs (Some dev) flags s = Some (0, s') \<and> ext4_owns h' p A \<and> dom h' = fst ` A \<and> fst ` A \<inter> fst ` L = {} \<and>
         models s' (L \<union> A) ((h ++ h')(fs \<mapsto> Filesystem (f\<lparr>fs_private := p, fs_state := FS_STATUS_READY\<rparr>))) m r)"
    by (intro plain_mount [of s L h m r fs f sizeof_ext4_private ext4_owns "Ext4_private zero_ext4_private"])
      (assumption | (unfold ext4_mount_def Let_def, simp; fail) | simp add: fs_sizes ext4_owns_def zero_ext4_private_def)+
next
  fix e :: "'a fs_sys_scheme fs_env" and s :: "'a fs_sys_scheme" and L h m r fs f A
  assume *: "models s L h m r" "h fs = Some (Filesystem f)" "fs \<noteq> 0" "fs \<notin> fst ` A" "A \<subseteq> L" "ext4_owns h (fs_private f) A"
  then show "\<exists>s'. ext4_unmount fs s = Some (0, s') \<and>
        models s' (L - A) ((h |` (- fst ` A))(fs \<mapsto> Filesystem (f\<lparr>fs_private := 0, fs_state := FS_STATUS_UNMOUNTED\<rparr>))) m r"
    by (elim ext4_owns_def [THEN iffD1, elim_format] exE conjE)
      (rule plain_unmount, auto simp: ext4_unmount_def models_get [OF *(1)])
qed (auto simp: ext4_owns_def)

text \<open>FGFS: three objects, given back in the reverse order when a later step fails.\<close>

lemma models_undo:
  assumes "models s (insert (p, n) L) (h(p \<mapsto> ob)) m r" and "p \<notin> fst ` L" and "h p = None"
  obtains s' where "drop_object p s = Some s'" "models s' L h m r"
proof -
  have "insert (p, n) L - {(p, n)} = L" using assms(2) by force
  moreover have "h(p := None) = h" using assms(3) by auto
  ultimately show thesis using models_drop [OF assms(1), of p n] that by auto
qed

lemma models_new:
  assumes "models s (insert (p, n) L) h m r" and "unat sz \<le> n"
  shows "models (put p ob (clear p sz s)) (insert (p, n) L) (h(p \<mapsto> ob)) m r"
  by (rule models_put, rule models_clear [OF assms(1) _ assms(2)]) simp

lemma minimal_superblock_simps:
  "sb_magic minimal_superblock = FGFS_MAGIC" "\<not> pv_has_journal (read_superblock minimal_superblock v)"
  "pv_superblock (read_superblock minimal_superblock v) = pv_superblock v" "pv_journal (read_superblock minimal_superblock v) = pv_journal v"
  "pv_group_descs (read_superblock minimal_superblock v) = pv_group_descs v"
  by (simp_all add: minimal_superblock_def zero_superblock_def read_superblock_def Let_def)

text \<open>The first two objects of a mount.\<close>

definition fgfs_private1 :: "u64 \<Rightarrow> fgfs_private" where
  "fgfs_private1 sb = read_superblock minimal_superblock (zero_fgfs_private\<lparr>pv_superblock := sb\<rparr>)"

definition fgfs_mount_rest :: "u64 \<Rightarrow> u64 \<Rightarrow> u64 \<Rightarrow> 'a fs_sys_scheme \<Rightarrow> (int \<times> 'a fs_sys_scheme) option" where
  "fgfs_mount_rest fs priv sb s = do {
     (cache, s) \<leftarrow> kmalloc sizeof_cache s;
     s \<leftarrow> upd_fgfs priv (\<lambda>v. v\<lparr>pv_cache := cache\<rparr>) s;
     if cache = 0 then do { s \<leftarrow> drop_object sb s; s \<leftarrow> drop_object priv s; Some (-1, s) }
     else do {
       v \<leftarrow> get_fgfs priv s;
       let (r, s) = fs_cache_init cache 512 (pv_block_size v) s;
       if r \<noteq> 0
       then do { s \<leftarrow> drop_object cache s; s \<leftarrow> drop_object sb s; s \<leftarrow> drop_object priv s; Some (-1, s) }
       else do {
         (r, s) \<leftarrow> fgfs_mount_journal priv s;
         if r \<noteq> 0 then Some (r, s)
         else do {
           s \<leftarrow> upd_fs fs (\<lambda>f. f\<lparr>fs_private := priv, fs_state := FS_STATUS_READY\<rparr>) s;
           Some (0, s) } } } }"

lemma fgfs_mount_start:
  assumes mo: "models s L h m r" and d: "dom h \<subseteq> fst ` L" and fs: "fs \<noteq> 0"
  obtains c s' where "fgfs_mount fs (Some dev) flags s = Some (c, s')" "c \<noteq> 0" "models s' L h m r"
    | p n sb i s' where "fgfs_mount fs (Some dev) flags s = fgfs_mount_rest fs p sb s'" "p \<noteq> 0" "sb \<noteq> 0" "p \<notin> fst ` L" "sb \<notin> fst ` insert (p, n) L"
      "models s' (insert (sb, i) (insert (p, n) L)) (h(p \<mapsto> Fgfs_private (fgfs_private1 sb), sb \<mapsto> Superblock minimal_superblock)) m r"
proof (rule models_alloc [OF mo d, of sizeof_fgfs_private])
  assume "kmalloc sizeof_fgfs_private s = Some (0, s)"
  then show thesis using that(1) [of "-1" s] fs mo by (simp add: fgfs_mount_def)
next
  fix p n s1
  assume k: "kmalloc sizeof_fgfs_private s = Some (p, s1)" "p \<noteq> 0" "unat sizeof_fgfs_private \<le> n" "p \<notin> fst ` L" "p \<notin> dom h" "h p = None"
    "models s1 (insert (p, n) L) h m r"
  define s2 where "s2 = put p (Fgfs_private zero_fgfs_private) (clear p sizeof_fgfs_private s1)"
  have m2: "models s2 (insert (p, n) L) (h(p \<mapsto> Fgfs_private zero_fgfs_private)) m r"
    unfolding s2_def by (rule models_new [OF k(7,3)])
  have d2: "dom (h(p \<mapsto> Fgfs_private zero_fgfs_private)) \<subseteq> fst ` insert (p, n) L" using d by auto
  let ?v = "\<lambda>sb. zero_fgfs_private\<lparr>pv_superblock := sb\<rparr>"
  show thesis
  proof (rule models_alloc [OF m2 d2, of sizeof_fgfs_superblock])
    assume k2: "kmalloc sizeof_fgfs_superblock s2 = Some (0, s2)"
    obtain s3 where s3: "upd_fgfs p (\<lambda>v. v\<lparr>pv_superblock := 0\<rparr>) s2 = Some s3" "models s3 (insert (p, n) L) (h(p \<mapsto> Fgfs_private (?v 0))) m r"
      using models_upd_fgfs [OF m2, of p zero_fgfs_private "\<lambda>v. v\<lparr>pv_superblock := 0\<rparr>"] by auto
    obtain s4 where "drop_object p s3 = Some s4" "models s4 L h m r" by (rule models_undo [OF s3(2) k(4,6)])
    then show thesis using that(1) [of "-1" s4] fs k(1,2) k2 s3(1) by (simp add: fgfs_mount_def Let_def s2_def [symmetric])
  next
    fix sb i s3
    assume k2: "kmalloc sizeof_fgfs_superblock s2 = Some (sb, s3)" "sb \<noteq> 0" "unat sizeof_fgfs_superblock \<le> i" "sb \<notin> fst ` insert (p, n) L"
      "sb \<notin> dom (h(p \<mapsto> Fgfs_private zero_fgfs_private))" "(h(p \<mapsto> Fgfs_private zero_fgfs_private)) sb = None"
      "models s3 (insert (sb, i) (insert (p, n) L)) (h(p \<mapsto> Fgfs_private zero_fgfs_private)) m r"
    obtain s4 where s4: "upd_fgfs p (\<lambda>v. v\<lparr>pv_superblock := sb\<rparr>) s3 = Some s4"
      "models s4 (insert (sb, i) (insert (p, n) L)) (h(p \<mapsto> Fgfs_private (?v sb))) m r"
      using models_upd_fgfs [OF k2(7), of p zero_fgfs_private "\<lambda>v. v\<lparr>pv_superblock := sb\<rparr>"] by auto
    define s5 where "s5 = put sb (Superblock minimal_superblock) (clear sb sizeof_fgfs_superblock s4)"
    have m5: "models s5 (insert (sb, i) (insert (p, n) L)) (h(p \<mapsto> Fgfs_private (?v sb), sb \<mapsto> Superblock minimal_superblock)) m r"
      unfolding s5_def by (rule models_new [OF s4(2) k2(3)])
    have ne: "sb \<noteq> p" using k2(6) by auto
    obtain s6 where s6: "upd_fgfs p (read_superblock minimal_superblock) s5 = Some s6"
      "models s6 (insert (sb, i) (insert (p, n) L)) (h(p \<mapsto> Fgfs_private (fgfs_private1 sb), sb \<mapsto> Superblock minimal_superblock)) m r"
      using models_upd_fgfs [OF m5, of p "?v sb" "read_superblock minimal_superblock"] ne
      by (auto simp: fgfs_private1_def fun_upd_twist [of sb p])
    have "fgfs_mount fs (Some dev) flags s = fgfs_mount_rest fs p sb s6"
      using fs k(1,2) k2(1,2) s4(1) s6(1)
      by (simp add: fgfs_mount_def Let_def s2_def [symmetric] s5_def [symmetric] minimal_superblock_simps fgfs_mount_rest_def)
    then show thesis using that(2) k(2,4) k2(2,4) s6(2) by blast
  qed (simp_all add: fs_sizes)
qed (simp_all add: fs_sizes)

lemma fgfs_mount_end:
  assumes mo: "models s (insert (sb, i) (insert (p, n) L)) (h(p \<mapsto> Fgfs_private (fgfs_private1 sb), sb \<mapsto> Superblock minimal_superblock)) m r"
    and d: "dom h \<subseteq> fst ` L" and f: "h fs = Some (Filesystem f)" and p: "p \<noteq> 0" "sb \<noteq> 0" "p \<notin> fst ` L" "sb \<notin> fst ` insert (p, n) L"
  shows "(\<exists>c s'. fgfs_mount_rest fs p sb s = Some (c, s') \<and> c \<noteq> 0 \<and> models s' L h m r) \<or>
      (\<exists>s' q A h'. fgfs_mount_rest fs p sb s = Some (0, s') \<and> fgfs_owns h' q A \<and> dom h' = fst ` A \<and> fst ` A \<inter> fst ` L = {} \<and>
         models s' (L \<union> A) ((h ++ h')(fs \<mapsto> Filesystem (f\<lparr>fs_private := q, fs_state := FS_STATUS_READY\<rparr>))) m r)"
proof -
  let ?sb = "Superblock minimal_superblock" and ?L = "insert (sb, i) (insert (p, n) L)"
  let ?v = "\<lambda>c. Fgfs_private (fgfs_private1 sb\<lparr>pv_cache := c\<rparr>)"
  have ne: "sb \<noteq> p" using p(4) by auto
  have none: "h p = None" "h sb = None" using d p(3,4) by (auto simp: subset_iff domIff)
  have d1: "dom (h(p \<mapsto> Fgfs_private (fgfs_private1 sb), sb \<mapsto> ?sb)) \<subseteq> fst ` ?L" using d by auto
  show ?thesis
  proof (rule models_alloc [OF mo d1, of sizeof_cache])
    assume k: "kmalloc sizeof_cache s = Some (0, s)"
    obtain s1 where s1: "upd_fgfs p (\<lambda>v. v\<lparr>pv_cache := 0\<rparr>) s = Some s1" "models s1 ?L (h(p \<mapsto> ?v 0, sb \<mapsto> ?sb)) m r"
      using models_upd_fgfs [OF mo, of p "fgfs_private1 sb" "\<lambda>v. v\<lparr>pv_cache := 0\<rparr>"] ne by (auto simp: fun_upd_twist [of sb p])
    obtain s2 where s2: "drop_object sb s1 = Some s2" "models s2 (insert (p, n) L) (h(p \<mapsto> ?v 0)) m r"
      using models_undo [OF s1(2) p(4)] none(2) ne by auto
    obtain s3 where s3: "drop_object p s2 = Some s3" "models s3 L h m r" by (rule models_undo [OF s2(2) p(3) none(1)])
    then show ?thesis using k s1(1) s2(1) by (intro disjI1 exI [of _ "-1"] exI [of _ s3]) (simp add: fgfs_mount_rest_def)
  next
    fix c j s1
    assume k: "kmalloc sizeof_cache s = Some (c, s1)" "c \<noteq> 0" "unat sizeof_cache \<le> j" "c \<notin> fst ` ?L"
      "c \<notin> dom (h(p \<mapsto> Fgfs_private (fgfs_private1 sb), sb \<mapsto> ?sb))" "(h(p \<mapsto> Fgfs_private (fgfs_private1 sb), sb \<mapsto> ?sb)) c = None"
      "models s1 (insert (c, j) ?L) (h(p \<mapsto> Fgfs_private (fgfs_private1 sb), sb \<mapsto> ?sb)) m r"
    have nc: "c \<noteq> p" "c \<noteq> sb" "h c = None" using k(6) by (auto split: if_splits)
    obtain s2 where s2: "upd_fgfs p (\<lambda>v. v\<lparr>pv_cache := c\<rparr>) s1 = Some s2" "models s2 (insert (c, j) ?L) (h(p \<mapsto> ?v c, sb \<mapsto> ?sb)) m r"
      using models_upd_fgfs [OF k(7), of p "fgfs_private1 sb" "\<lambda>v. v\<lparr>pv_cache := c\<rparr>"] ne by (auto simp: fun_upd_twist [of sb p])
    have g2: "get_fgfs p s2 = Some (fgfs_private1 sb\<lparr>pv_cache := c\<rparr>)" using ne by (simp add: models_get [OF s2(2)])
    define k0 where "k0 = zero_cache\<lparr>c_max_size := 512, c_block_size := pv_block_size (fgfs_private1 sb), c_entries := 0, c_size := 0,
       c_hits := 0, c_misses := 0, c_dirty_blocks := 0\<rparr>"
    define s3 where "s3 = put c (Cache k0) (clear c sizeof_cache s2)"
    have i3: "fs_cache_init c 512 (pv_block_size (fgfs_private1 sb)) s2 = (0, s3)" using k(2) by (simp add: fs_cache_init_def s3_def k0_def)
    have m3: "models s3 (insert (c, j) ?L) (h(p \<mapsto> ?v c, sb \<mapsto> ?sb, c \<mapsto> Cache k0)) m r"
      unfolding s3_def by (rule models_new [OF s2(2) k(3)])
    have "(h(p \<mapsto> ?v c, sb \<mapsto> ?sb, c \<mapsto> Cache k0)) fs = Some (Filesystem f)" using f none nc by auto
    from models_upd_fs [OF m3 this]
    obtain s4 where s4: "upd_fs fs (\<lambda>f. f\<lparr>fs_private := p, fs_state := FS_STATUS_READY\<rparr>) s3 = Some s4"
      "models s4 (insert (c, j) ?L) (h(p \<mapsto> ?v c, sb \<mapsto> ?sb, c \<mapsto> Cache k0, fs \<mapsto> Filesystem (f\<lparr>fs_private := p, fs_state := FS_STATUS_READY\<rparr>))) m r" .
    have "get_fgfs p s3 = Some (fgfs_private1 sb\<lparr>pv_cache := c\<rparr>)" using ne nc by (simp add: models_get [OF m3])
    then have "fgfs_mount_journal p s3 = Some (0, s3)" by (simp add: fgfs_mount_journal_def fgfs_private1_def minimal_superblock_simps)
    then have run: "fgfs_mount_rest fs p sb s = Some (0, s4)" using k(1,2) s2(1) g2 i3 s4(1) by (simp add: fgfs_mount_rest_def)
    let ?h = "[p \<mapsto> ?v c, sb \<mapsto> ?sb, c \<mapsto> Cache k0]" and ?A = "{(p, n), (sb, i), (c, j)}"
    have "fgfs_owns ?h p ?A"
      using ne nc p k(2,3) by (auto simp: fgfs_owns_def fgfs_private1_def minimal_superblock_simps zero_fgfs_private_def fs_sizes k0_def)
    moreover have "fst ` ?A \<inter> fst ` L = {}" using p(3,4) k(4) by auto
    moreover have "L \<union> ?A = insert (c, j) ?L" by auto
    ultimately show ?thesis
      using run s4(2) by (intro disjI2 exI [of _ s4] exI [of _ p] exI [of _ ?A] exI [of _ ?h]) auto
  qed (simp_all add: fs_sizes)
qed

lemma fgfs_unmount_spec:
  assumes fl: "flush_ok e" and mo: "models s L h m r" and f: "h fs = Some (Filesystem f)" "fs \<noteq> 0" "fs \<notin> fst ` A" and A: "A \<subseteq> L"
    and o: "fgfs_owns h (fs_private f) A"
  shows "\<exists>s'. fgfs_unmount e fs s = Some (0, s') \<and>
    models s' (L - A) ((h |` (- fst ` A))(fs \<mapsto> Filesystem (f\<lparr>fs_private := 0, fs_state := FS_STATUS_UNMOUNTED\<rparr>))) m r"
proof -
  let ?p = "fs_private f"
  obtain v sbv k n i j where v: "h ?p = Some (Fgfs_private v)" "h (pv_superblock v) = Some (Superblock sbv)" "h (pv_cache v) = Some (Cache k)"
    "c_entries k = 0" "pv_journal v = 0" "pv_group_descs v = 0" "distinct [0, ?p, pv_superblock v, pv_cache v]"
    "A = {(?p, n), (pv_superblock v, i), (pv_cache v, j)}" "48 \<le> j" using o by (auto simp: fgfs_owns_def)
  let ?sb = "pv_superblock v" and ?c = "pv_cache v"
  obtain rc k' where fl': "cache_flush e ?c s = Some (rc, put ?c (Cache k') s)" "c_entries k' = 0"
    using fl [unfolded flush_ok_def, rule_format, of s ?c k] v(3,4) models_get(7) [OF mo] by auto
  have m1: "models (put ?c (Cache k') s) L (h(?c \<mapsto> Cache k')) m r" by (rule models_put [OF mo])
  have cL: "(?c, j) \<in> L" using A v(8) by auto
  from models_cache_destroy [OF m1 cL v(9) _ fl'(2)]
  obtain s2 where s2: "fs_cache_destroy ?c (put ?c (Cache k') s) = Some s2" "models s2 L (h(?c \<mapsto> Cache zero_cache)) m r" by auto
  obtain s3 where s3: "drop_object ?c s2 = Some s3" "models s3 (L - {(?c, j)}) (h(?c := None)) m r"
    using models_drop [OF s2(2) cL] by auto
  have "(?sb, i) \<in> L - {(?c, j)}" using A v(7,8) by auto
  from models_drop [OF s3(2) this] obtain s4 where s4: "drop_object ?sb s3 = Some s4"
    "models s4 (L - {(?c, j)} - {(?sb, i)}) (h(?c := None, ?sb := None)) m r" .
  have "(?p, n) \<in> L - {(?c, j)} - {(?sb, i)}" using A v(7,8) by auto
  from models_drop [OF s4(2) this] obtain s5 where s5: "drop_object ?p s4 = Some s5"
    "models s5 (L - {(?c, j)} - {(?sb, i)} - {(?p, n)}) (h(?c := None, ?sb := None, ?p := None)) m r" .
  have "(h(?c := None, ?sb := None, ?p := None)) fs = Some (Filesystem f)" using f(1,3) v(8) by auto
  from models_upd_fs [OF s5(2) this]
  obtain s6 where s6: "upd_fs fs (\<lambda>f. f\<lparr>fs_private := 0, fs_state := FS_STATUS_UNMOUNTED\<rparr>) s5 = Some s6"
    "models s6 (L - {(?c, j)} - {(?sb, i)} - {(?p, n)}) (h(?c := None, ?sb := None, ?p := None,
       fs \<mapsto> Filesystem (f\<lparr>fs_private := 0, fs_state := FS_STATUS_UNMOUNTED\<rparr>))) m r" .
  have "fgfs_unmount e fs s = Some (0, s6)"
    using f(1,2) v(1,5,6,7) fl'(1) s2(1) s3(1) s4(1) s5(1) s6(1) by (simp add: fgfs_unmount_def models_get [OF mo] Let_def)
  moreover have "L - {(?c, j)} - {(?sb, i)} - {(?p, n)} = L - A" using v(8) by auto
  moreover have "h(?c := None, ?sb := None, ?p := None) = h |` (- fst ` A)" using v(8) by (auto simp: restrict_map_def)
  ultimately show ?thesis using s6(2) by auto
qed

interpretation fgfs: mountable fgfs_mount fgfs_unmount fgfs_owns
proof unfold_locales
  fix s :: "'a fs_sys_scheme" and L h m r fs f dev flags
  assume mo: "models s L h m r" and d: "dom h \<subseteq> fst ` L" and f: "h fs = Some (Filesystem f)" "fs \<noteq> 0"
  show "(\<exists>c s'. fgfs_mount fs (Some dev) flags s = Some (c, s') \<and> c \<noteq> 0 \<and> models s' L h m r) \<or>
      (\<exists>s' p A h'. fgfs_mount fs (Some dev) flags s = Some (0, s') \<and> fgfs_owns h' p A \<and> dom h' = fst ` A \<and> fst ` A \<inter> fst ` L = {} \<and>
         models s' (L \<union> A) ((h ++ h')(fs \<mapsto> Filesystem (f\<lparr>fs_private := p, fs_state := FS_STATUS_READY\<rparr>))) m r)"
    by (rule fgfs_mount_start [OF mo d f(2), of dev flags]) (blast, metis fgfs_mount_end [OF _ d f(1)])
next
  fix h h' p and A :: "(u64 \<times> nat) set"
  assume "fgfs_owns h p A" and *: "\<And>x. x \<in> fst ` A \<Longrightarrow> h' x = h x"
  then obtain v sb k n i j where v: "h p = Some (Fgfs_private v)" "h (pv_superblock v) = Some (Superblock sb)"
     "h (pv_cache v) = Some (Cache k)" "c_entries k = 0" "pv_journal v = 0" "pv_group_descs v = 0" "distinct [0, p, pv_superblock v, pv_cache v]"
     "A = {(p, n), (pv_superblock v, i), (pv_cache v, j)}" "48 \<le> j" unfolding fgfs_owns_def by blast
  have "h' p = h p" "h' (pv_superblock v) = h (pv_superblock v)" "h' (pv_cache v) = h (pv_cache v)" using * v(8) by simp_all
  then show "fgfs_owns h' p A" unfolding fgfs_owns_def using v by metis
qed (rule fgfs_unmount_spec)

section \<open>Formatting and checksums\<close>

text \<open>A device of fewer than a hundred blocks gets more free blocks than it has blocks: the reserve wraps around.\<close>

lemma format_small_wraps:
  assumes "sz div ucast block_size < 100"
  shows "sb_block_count (format_layout sz block_size) < sb_free_blocks (format_layout sz block_size)"
proof -
  define t where "t = sz div ucast block_size"
  have t: "unat t < 100" using assms by (simp add: t_def [symmetric] word_less_nat_alt)
  have "unat (t - 100) = 2 ^ 64 + unat t - 100" using t by (simp add: unat_sub_if' word_le_nat_alt)
  then have "t < t - 100" using t by (simp add: word_less_nat_alt)
  then show ?thesis by (simp add: format_layout_def Let_def t_def)
qed

text \<open>What the code calls a CRC is a rotation: two bytes four places apart cancel each other.\<close>

lemma checksum_rotates:
  "checksum_bytes FGFS_CHECKSUM_CRC32 [a, 0, 0, 0, x] = ucast x XOR ucast a"
proof -
  have 1: "crc_step a 0 = ucast a" by (simp add: crc_step_def)
  have 2: "crc_step 0 (push_bit k (ucast a)) = push_bit (8 + k) (ucast a)" if "k \<le> 16" for k
    using that by (intro bit_word_eqI) (auto simp: crc_step_def bit_simps dest: bit_imp_le_length)
  have 3: "crc_step x (push_bit 24 (ucast a)) = ucast x XOR ucast a"
    by (rule bit_word_eqI) (auto simp: crc_step_def bit_simps dest: bit_imp_le_length)
  show ?thesis using 1 2 [of 0] 2 [of 8] 2 [of 16] 3 by (simp add: checksum_bytes_def)
qed

text \<open>A position set by a seek is the returned value and never negative; the end of a file is position 0, its size is never set.\<close>

lemma fgfs_seek_bounds:
  assumes "fgfs_seek file offset origin s = Some (r, s')"
  shows "r = -1 \<and> s' = s \<or> 0 \<le> r \<and> r < 2 ^ 63 \<and> (\<exists>f. get_file file s' = Some f \<and> f_position f = of_int r)"
  using assms sint_lt [of "_ :: u64"]
  by (auto simp: fgfs_seek_def upd_file_def put_def get_file_def split: if_splits seek_origin.splits bind_splits option.splits)

end
