(* ===== verification/Vfs.thy ===== *)
theory Vfs
  imports Fs "HOL-Library.Sublist"
begin

text \<open>
  The file system manager, \<^verbatim>\<open>kernel/fs/fs.c\<close>: the list of mount points, the table of mounted file systems, and the calls that pass a
  request on to the implementation. The state and the implementations are those of the theory of the file systems.

  The mount list and the objects behind it are described by an invariant; mounting either fails and leaves every object as it was,
  or adds exactly the objects of the new mount, and unmounting gives exactly these back.
\<close>

section \<open>The operations table\<close>

text \<open>Calls through the members of \<^verbatim>\<open>fs_operations_t\<close> that \<^verbatim>\<open>fs.c\<close> uses.\<close>

fun ops_mount :: "fs_operations \<Rightarrow> u64 \<Rightarrow> string option \<Rightarrow> u32 \<Rightarrow> 'a fs_sys_scheme \<Rightarrow> (int \<times> 'a fs_sys_scheme) option" where
  "ops_mount fgfs_ops = fgfs_mount"
| "ops_mount fat32_ops = fat32_mount"
| "ops_mount ext4_ops = ext4_mount"

fun ops_unmount :: "fs_operations \<Rightarrow> 'a fs_sys_scheme fs_env \<Rightarrow> u64 \<Rightarrow> 'a fs_sys_scheme \<Rightarrow> (int \<times> 'a fs_sys_scheme) option" where
  "ops_unmount fgfs_ops = fgfs_unmount"
| "ops_unmount fat32_ops = (\<lambda>e. fat32_unmount)"
| "ops_unmount ext4_ops = (\<lambda>e. ext4_unmount)"

fun ops_open :: "fs_operations \<Rightarrow> u64 \<Rightarrow> string option \<Rightarrow> file_access_mode \<Rightarrow> u64 \<Rightarrow> 'a fs_sys_scheme \<Rightarrow>
    (int \<times> u64 option \<times> 'a fs_sys_scheme) option" where
  "ops_open fgfs_ops = fgfs_open"
| "ops_open fat32_ops = fat32_open"
| "ops_open ext4_ops = ext4_open"

fun ops_close :: "fs_operations \<Rightarrow> u64 \<Rightarrow> 'a fs_sys_scheme \<Rightarrow> (int \<times> 'a fs_sys_scheme) option" where
  "ops_close fgfs_ops = fgfs_close"
| "ops_close fat32_ops = fat32_close"
| "ops_close ext4_ops = ext4_close"

fun ops_read :: "fs_operations \<Rightarrow> u64 \<Rightarrow> u64 \<Rightarrow> u64 \<Rightarrow> 'a fs_sys_scheme \<Rightarrow> (int \<times> 'a fs_sys_scheme) option" where
  "ops_read fgfs_ops = fgfs_read"
| "ops_read fat32_ops = fat32_read"
| "ops_read ext4_ops = ext4_read"

fun ops_write :: "fs_operations \<Rightarrow> u64 \<Rightarrow> u64 \<Rightarrow> u64 \<Rightarrow> 'a fs_sys_scheme \<Rightarrow> (int \<times> 'a fs_sys_scheme) option" where
  "ops_write fgfs_ops = fgfs_write"
| "ops_write fat32_ops = fat32_write"
| "ops_write ext4_ops = ext4_write"

fun ops_seek :: "fs_operations \<Rightarrow> u64 \<Rightarrow> u64 \<Rightarrow> seek_origin \<Rightarrow> 'a fs_sys_scheme \<Rightarrow> (int \<times> 'a fs_sys_scheme) option" where
  "ops_seek fgfs_ops = fgfs_seek"
| "ops_seek fat32_ops = fat32_seek"
| "ops_seek ext4_ops = ext4_seek"

fun ops_create :: "fs_operations \<Rightarrow> u64 \<Rightarrow> string option \<Rightarrow> 16 word \<Rightarrow> 'a fs_sys_scheme \<Rightarrow> int \<times> 'a fs_sys_scheme" where
  "ops_create fgfs_ops = fgfs_create"
| "ops_create fat32_ops = fat32_create"
| "ops_create ext4_ops = ext4_create"

fun ops_mkdir :: "fs_operations \<Rightarrow> u64 \<Rightarrow> string option \<Rightarrow> 16 word \<Rightarrow> 'a fs_sys_scheme \<Rightarrow> int \<times> 'a fs_sys_scheme" where
  "ops_mkdir fgfs_ops = fgfs_mkdir"
| "ops_mkdir fat32_ops = fat32_mkdir"
| "ops_mkdir ext4_ops = ext4_mkdir"

fun ops_stat :: "fs_operations \<Rightarrow> 'a fs_sys_scheme fs_env \<Rightarrow> u64 \<Rightarrow> string option \<Rightarrow> u64 \<Rightarrow> 'a fs_sys_scheme \<Rightarrow>
    int \<times> file_metadata option \<times> 'a fs_sys_scheme" where
  "ops_stat fgfs_ops = fgfs_stat"
| "ops_stat fat32_ops = (\<lambda>e. fat32_stat)"
| "ops_stat ext4_ops = (\<lambda>e. ext4_stat)"

section \<open>Names\<close>

fun fs_type_to_string :: "fs_type \<Rightarrow> string" where
  "fs_type_to_string FS_TYPE_FGFS = ''FGFS''"
| "fs_type_to_string FS_TYPE_FAT32 = ''FAT32''"
| "fs_type_to_string FS_TYPE_NTFS = ''NTFS''"
| "fs_type_to_string FS_TYPE_EXT4 = ''ext4''"
| "fs_type_to_string FS_TYPE_EXT3 = ''ext3''"
| "fs_type_to_string FS_TYPE_ISO9660 = ''ISO9660''"
| "fs_type_to_string FS_TYPE_TMPFS = ''tmpfs''"
| "fs_type_to_string FS_TYPE_PROCFS = ''procfs''"
| "fs_type_to_string FS_TYPE_DEVFS = ''devfs''"
| "fs_type_to_string _ = ''unknown''"

fun fs_status_to_string :: "fs_status \<Rightarrow> string" where
  "fs_status_to_string FS_STATUS_UNINITIALIZED = ''uninitialized''"
| "fs_status_to_string FS_STATUS_INITIALIZING = ''initializing''"
| "fs_status_to_string FS_STATUS_READY = ''ready''"
| "fs_status_to_string FS_STATUS_MOUNTED = ''mounted''"
| "fs_status_to_string FS_STATUS_UNMOUNTED = ''unmounted''"
| "fs_status_to_string FS_STATUS_ERROR = ''error''"
| "fs_status_to_string FS_STATUS_READ_ONLY = ''read-only''"
| "fs_status_to_string FS_STATUS_CORRUPTED = ''corrupted''"

fun file_type_to_string :: "file_type \<Rightarrow> string" where
  "file_type_to_string FILE_TYPE_REGULAR = ''regular''"
| "file_type_to_string FILE_TYPE_DIRECTORY = ''directory''"
| "file_type_to_string FILE_TYPE_SYMLINK = ''symlink''"
| "file_type_to_string FILE_TYPE_BLOCK_DEVICE = ''block device''"
| "file_type_to_string FILE_TYPE_CHAR_DEVICE = ''character device''"
| "file_type_to_string FILE_TYPE_FIFO = ''fifo''"
| "file_type_to_string FILE_TYPE_SOCKET = ''socket''"
| "file_type_to_string _ = ''unknown''"

section \<open>Mounting\<close>

definition zero_manager :: fs_manager where
  "zero_manager = \<lparr>filesystems = replicate MAX_MOUNTED_FILESYSTEMS 0, mount_points = 0, open_files = replicate MAX_OPEN_FILES 0, next_fd = 0,
     global_cache = 0, global_journal = 0, mounted_count = 0, fs_initialized = False\<rparr>"

definition upd_fsm :: "(fs_manager \<Rightarrow> fs_manager) \<Rightarrow> 'a fs_sys_scheme \<Rightarrow> 'a fs_sys_scheme" where
  "upd_fsm f s = s\<lparr>fs_mgr := f (fs_mgr s)\<rparr>"

definition fs_init :: "'a fs_sys_scheme \<Rightarrow> (int \<times> 'a fs_sys_scheme) option" where
  "fs_init s = do {
     let s = s\<lparr>fs_mgr := zero_manager\<rparr>;
     (cache, s) \<leftarrow> kmalloc sizeof_cache s;
     let s = upd_fsm (\<lambda>m. m\<lparr>global_cache := cache\<rparr>) s;
     if cache = 0 then Some (-1, s)
     else do {
       let (r, s) = fs_cache_init cache 1024 DEFAULT_BLOCK_SIZE s;
       if r \<noteq> 0 then do { s \<leftarrow> drop_object cache s; Some (-1, s) }
       else do {
         (jrn, s) \<leftarrow> kmalloc sizeof_journal s;
         let s = upd_fsm (\<lambda>m. m\<lparr>global_journal := jrn\<rparr>) s;
         if jrn = 0 then do { s \<leftarrow> fs_cache_destroy cache s; s \<leftarrow> drop_object cache s; Some (-1, s) }
         else do {
           let (r, s) = fs_journal_init jrn 1000 100 s;
           if r \<noteq> 0
           then do { s \<leftarrow> drop_object jrn s; s \<leftarrow> fs_cache_destroy cache s; s \<leftarrow> drop_object cache s; Some (-1, s) }
           else do {
             let s = upd_fsm (\<lambda>m. m\<lparr>next_fd := 3, mounted_count := 0, mount_points := 0\<rparr>) s;
             let (_, s) = fgfs_init s;
             let (_, s) = fat32_init s;
             let (_, s) = ext4_init s;
             Some (0, upd_fsm (\<lambda>m. m\<lparr>fs_initialized := True\<rparr>) s) } } } } }"

text \<open>The first mount point with the path, or null; with the mount point before it, or null.\<close>

partial_function (option) find_mount :: "string \<Rightarrow> u64 \<Rightarrow> u64 \<Rightarrow> 'a fs_sys_scheme \<Rightarrow> (u64 \<times> u64) option" where
  "find_mount path prev mnt s =
     (if mnt = 0 then Some (prev, 0)
      else do {
        mp \<leftarrow> get_mount (objs s) mnt;
        p \<leftarrow> mp_path mp;
        if p = path then Some (prev, mnt) else find_mount path mnt (mp_next mp) s })"

text \<open>
  \<^verbatim>\<open>strncpy\<close> into the path of a mount point whose bytes were never cleared: the last byte of the array keeps what the block held.
\<close>

definition copy_path :: "(u64 \<Rightarrow> u8) \<Rightarrow> string \<Rightarrow> u64 \<Rightarrow> string option" where
  "copy_path stale path mnt =
     (if length path < MAX_PATH_LENGTH - 1 \<or> stale (mnt + of_nat (MAX_PATH_LENGTH - 1)) = 0
      then Some (take (MAX_PATH_LENGTH - 1) path) else None)"

text \<open>The filesystem structure of a new mount, and the entry of the mount in the list and in the table. A write past the table is a fault.\<close>

definition new_filesystem :: "fs_type \<Rightarrow> fs_operations \<Rightarrow> string \<Rightarrow> u32 \<Rightarrow> filesystem" where
  "new_filesystem type ops device flags = zero_filesystem\<lparr>fs_kind := type, fs_state := FS_STATUS_INITIALIZING, fs_opers := Some ops,
     fs_flags := flags, fs_refs := 1, fs_device := take 63 device, fs_name := take 31 (fs_type_to_string type)\<rparr>"

definition enter_mount :: "'a fs_sys_scheme fs_env \<Rightarrow> string \<Rightarrow> u32 \<Rightarrow> u64 \<Rightarrow> u64 \<Rightarrow> 'a fs_sys_scheme \<Rightarrow> (int \<times> 'a fs_sys_scheme) option" where
  "enter_mount e path flags fs mnt s = do {
     let (now, s) = get_timestamp e s;
     let s = put mnt (Mount \<lparr>mp_path = copy_path (stale_byte e) path mnt, mp_fs = fs, mp_flags = flags, mp_time = now,
               mp_next = mount_points (fs_mgr s)\<rparr>) s;
     let s = upd_fsm (\<lambda>m. m\<lparr>mount_points := mnt\<rparr>) s;
     let n = unat (mounted_count (fs_mgr s));
     if length (filesystems (fs_mgr s)) \<le> n then None
     else do {
       let s = upd_fsm (\<lambda>m. m\<lparr>filesystems := (filesystems m)[n := fs], mounted_count := mounted_count m + 1\<rparr>) s;
       s \<leftarrow> upd_fs fs (\<lambda>f. f\<lparr>fs_state := FS_STATUS_MOUNTED, fs_mount_point := mnt\<rparr>) s;
       Some (0, s) } }"

definition fs_mount :: "'a fs_sys_scheme fs_env \<Rightarrow> string option \<Rightarrow> string option \<Rightarrow> fs_type \<Rightarrow> u32 \<Rightarrow> 'a fs_sys_scheme \<Rightarrow>
    (int \<times> 'a fs_sys_scheme) option" where
  "fs_mount e device mount_point type flags s =
     (case (device, mount_point) of
        (Some dev, Some path) \<Rightarrow>
          if type = FS_TYPE_OTHER then Some (-1, s)
          else if \<not> fs_initialized (fs_mgr s) then Some (-1, s)
          else do {
            (_, existing) \<leftarrow> find_mount path 0 (mount_points (fs_mgr s)) s;
            if existing \<noteq> 0 then Some (-1, s)
            else case registered_fs s type of
                None \<Rightarrow> Some (-1, s)
              | Some ops \<Rightarrow> do {
                  (fs, s) \<leftarrow> kmalloc sizeof_filesystem s;
                  if fs = 0 then Some (-1, s)
                  else do {
                    let s = put fs (Filesystem (new_filesystem type ops dev flags)) (clear fs sizeof_filesystem s);
                    (result, s) \<leftarrow> ops_mount ops fs device flags s;
                    if result \<noteq> 0 then do { s \<leftarrow> drop_object fs s; Some (result, s) }
                    else do {
                      (mnt, s) \<leftarrow> kmalloc sizeof_mount_point s;
                      if mnt = 0 then do { (_, s) \<leftarrow> ops_unmount ops e fs s; s \<leftarrow> drop_object fs s; Some (-1, s) }
                      else enter_mount e path flags fs mnt s } } } }
      | _ \<Rightarrow> Some (-1, s))"

text \<open>Taking a file system out of the table: the later entries move down.\<close>

definition remove_slot :: "u64 \<Rightarrow> fs_manager \<Rightarrow> fs_manager" where
  "remove_slot fs m =
     (let n = unat (mounted_count m) in
      case find (\<lambda>i. filesystems m ! i = fs) [0..<n] of
        None \<Rightarrow> m
      | Some i \<Rightarrow> m\<lparr>filesystems := (fold (\<lambda>j xs. xs[j := xs ! (j + 1)]) [i..<n - 1] (filesystems m))[n - 1 := 0],
                     mounted_count := mounted_count m - 1\<rparr>)"

definition fs_unmount :: "'a fs_sys_scheme fs_env \<Rightarrow> string option \<Rightarrow> 'a fs_sys_scheme \<Rightarrow> (int \<times> 'a fs_sys_scheme) option" where
  "fs_unmount e mount_point s =
     (case mount_point of
        None \<Rightarrow> Some (-1, s)
      | Some path \<Rightarrow>
          if \<not> fs_initialized (fs_mgr s) then Some (-1, s)
          else do {
            (prev, mnt) \<leftarrow> find_mount path 0 (mount_points (fs_mgr s)) s;
            if mnt = 0 then Some (-1, s)
            else do {
              mp \<leftarrow> get_mount (objs s) mnt;
              let fs = mp_fs mp;
              f \<leftarrow> get_fs fs s;
              if 1 < fs_refs f then Some (-1, s)
              else do {
                ops \<leftarrow> fs_opers f;
                (result, s) \<leftarrow> ops_unmount ops e fs s;
                if result \<noteq> 0 then Some (result, s)
                else do {
                  mp \<leftarrow> get_mount (objs s) mnt;
                  s \<leftarrow> (if prev \<noteq> 0
                       then do { q \<leftarrow> get_mount (objs s) prev; Some (put prev (Mount (q\<lparr>mp_next := mp_next mp\<rparr>)) s) }
                       else Some (upd_fsm (\<lambda>m. m\<lparr>mount_points := mp_next mp\<rparr>) s));
                  let s = upd_fsm (remove_slot fs) s;
                  s \<leftarrow> drop_object fs s;
                  s \<leftarrow> drop_object mnt s;
                  Some (0, s) } } } })"

partial_function (option) unmount_all :: "'a fs_sys_scheme fs_env \<Rightarrow> u64 \<Rightarrow> 'a fs_sys_scheme \<Rightarrow> 'a fs_sys_scheme option" where
  "unmount_all e mnt s =
     (if mnt = 0 then Some s
      else do {
        mp \<leftarrow> get_mount (objs s) mnt;
        p \<leftarrow> mp_path mp;
        (_, s) \<leftarrow> fs_unmount e (Some p) s;
        unmount_all e (mp_next mp) s })"

definition fs_shutdown :: "'a fs_sys_scheme fs_env \<Rightarrow> 'a fs_sys_scheme \<Rightarrow> 'a fs_sys_scheme option" where
  "fs_shutdown e s =
     (if \<not> fs_initialized (fs_mgr s) then Some s
      else do {
        s \<leftarrow> unmount_all e (mount_points (fs_mgr s)) s;
        let jrn = global_journal (fs_mgr s);
        s \<leftarrow> (if jrn \<noteq> 0 then do { s \<leftarrow> fs_journal_destroy jrn s; drop_object jrn s } else Some s);
        let cache = global_cache (fs_mgr s);
        s \<leftarrow> (if cache \<noteq> 0 then do { s \<leftarrow> fs_cache_destroy cache s; drop_object cache s } else Some s);
        let s = ext4_shutdown s;
        let s = fat32_shutdown s;
        let s = fgfs_shutdown s;
        Some (upd_fsm (\<lambda>m. m\<lparr>fs_initialized := False\<rparr>) s) })"

section \<open>Finding the file system of a path\<close>

text \<open>
  The longest mount path that the path starts with; \<^verbatim>\<open>strncmp\<close> over the length of the mount path is null exactly when these
  characters agree.
\<close>

partial_function (option) best_mount :: "string \<Rightarrow> u64 \<Rightarrow> nat \<Rightarrow> u64 \<Rightarrow> 'a fs_sys_scheme \<Rightarrow> u64 option" where
  "best_mount path best best_len mnt s =
     (if mnt = 0 then Some best
      else do {
        mp \<leftarrow> get_mount (objs s) mnt;
        p \<leftarrow> mp_path mp;
        let mount_len = length p;
        if take mount_len path = take mount_len p \<and> best_len < mount_len
        then best_mount path mnt mount_len (mp_next mp) s
        else best_mount path best best_len (mp_next mp) s })"

definition fs_get_filesystem :: "string option \<Rightarrow> 'a fs_sys_scheme \<Rightarrow> u64 option" where
  "fs_get_filesystem path s =
     (case path of
        None \<Rightarrow> Some 0
      | Some p \<Rightarrow>
          if \<not> fs_initialized (fs_mgr s) then Some 0
          else do {
            best \<leftarrow> best_mount p 0 0 (mount_points (fs_mgr s)) s;
            if best = 0 then Some 0 else do { mp \<leftarrow> get_mount (objs s) best; Some (mp_fs mp) } })"

section \<open>Requests\<close>

definition fs_open :: "string option \<Rightarrow> file_access_mode \<Rightarrow> u64 \<Rightarrow> 'a fs_sys_scheme \<Rightarrow> (int \<times> u64 option \<times> 'a fs_sys_scheme) option" where
  "fs_open path mode file s =
     (if path = None \<or> file = 0 then Some (-1, None, s)
      else do {
        fs \<leftarrow> fs_get_filesystem path s;
        if fs = 0 then Some (-1, None, s)
        else do { f \<leftarrow> get_fs fs s; ops \<leftarrow> fs_opers f; ops_open ops fs path mode file s } })"

text \<open>The implementation behind an open file; a null file or a file without file system is rejected by the caller.\<close>

definition file_ops :: "u64 \<Rightarrow> 'a fs_sys_scheme \<Rightarrow> (u64 \<times> fs_operations option) option" where
  "file_ops file s = do { h \<leftarrow> get_file file s;
     if f_fs h = 0 then Some (0, None) else do { f \<leftarrow> get_fs (f_fs h) s; Some (f_fs h, fs_opers f) } }"

definition fs_close :: "u64 \<Rightarrow> 'a fs_sys_scheme \<Rightarrow> (int \<times> 'a fs_sys_scheme) option" where
  "fs_close file s =
     (if file = 0 then Some (-1, s)
      else do { (fs, opers) \<leftarrow> file_ops file s; if fs = 0 then Some (-1, s) else do { ops \<leftarrow> opers; ops_close ops file s } })"

definition fs_read :: "u64 \<Rightarrow> u64 \<Rightarrow> u64 \<Rightarrow> 'a fs_sys_scheme \<Rightarrow> (int \<times> 'a fs_sys_scheme) option" where
  "fs_read file buffer sz s =
     (if file = 0 \<or> buffer = 0 then Some (-1, s)
      else do { (fs, opers) \<leftarrow> file_ops file s; if fs = 0 then Some (-1, s) else do { ops \<leftarrow> opers; ops_read ops file buffer sz s } })"

definition fs_write :: "u64 \<Rightarrow> u64 \<Rightarrow> u64 \<Rightarrow> 'a fs_sys_scheme \<Rightarrow> (int \<times> 'a fs_sys_scheme) option" where
  "fs_write file buffer sz s =
     (if file = 0 \<or> buffer = 0 then Some (-1, s)
      else do { (fs, opers) \<leftarrow> file_ops file s; if fs = 0 then Some (-1, s) else do { ops \<leftarrow> opers; ops_write ops file buffer sz s } })"

definition fs_seek :: "u64 \<Rightarrow> u64 \<Rightarrow> seek_origin \<Rightarrow> 'a fs_sys_scheme \<Rightarrow> (int \<times> 'a fs_sys_scheme) option" where
  "fs_seek file offset origin s =
     (if file = 0 then Some (-1, s)
      else do { (fs, opers) \<leftarrow> file_ops file s; if fs = 0 then Some (-1, s) else do { ops \<leftarrow> opers; ops_seek ops file offset origin s } })"

definition fs_create :: "string option \<Rightarrow> 16 word \<Rightarrow> 'a fs_sys_scheme \<Rightarrow> (int \<times> 'a fs_sys_scheme) option" where
  "fs_create path permissions s =
     (if path = None then Some (-1, s)
      else do {
        fs \<leftarrow> fs_get_filesystem path s;
        if fs = 0 then Some (-1, s)
        else do { f \<leftarrow> get_fs fs s; ops \<leftarrow> fs_opers f; Some (ops_create ops fs path permissions s) } })"

definition fs_mkdir :: "string option \<Rightarrow> 16 word \<Rightarrow> 'a fs_sys_scheme \<Rightarrow> (int \<times> 'a fs_sys_scheme) option" where
  "fs_mkdir path permissions s =
     (if path = None then Some (-1, s)
      else do {
        fs \<leftarrow> fs_get_filesystem path s;
        if fs = 0 then Some (-1, s)
        else do { f \<leftarrow> get_fs fs s; ops \<leftarrow> fs_opers f; Some (ops_mkdir ops fs path permissions s) } })"

definition fs_stat :: "'a fs_sys_scheme fs_env \<Rightarrow> string option \<Rightarrow> u64 \<Rightarrow> 'a fs_sys_scheme \<Rightarrow>
    (int \<times> file_metadata option \<times> 'a fs_sys_scheme) option" where
  "fs_stat e path metadata s =
     (if path = None \<or> metadata = 0 then Some (-1, None, s)
      else do {
        fs \<leftarrow> fs_get_filesystem path s;
        if fs = 0 then Some (-1, None, s)
        else do { f \<leftarrow> get_fs fs s; ops \<leftarrow> fs_opers f; Some (ops_stat ops e fs path metadata s) } })"

section \<open>The contract of the implementations\<close>

fun ops_owns :: "fs_operations \<Rightarrow> fs_object store \<Rightarrow> u64 \<Rightarrow> (u64 \<times> nat) set \<Rightarrow> bool" where
  "ops_owns fgfs_ops = fgfs_owns"
| "ops_owns fat32_ops = fat32_owns"
| "ops_owns ext4_ops = ext4_owns"

interpretation impl: mountable "ops_mount op" "ops_unmount op" "ops_owns op" for op
  using fgfs.mountable_axioms fat32.mountable_axioms ext4.mountable_axioms by (cases op) simp_all

lemma models_upd_fsm: "models s L h m r \<Longrightarrow> models (upd_fsm f s) L h (f m) r"
  using heap_view_cong(1,2) [of "upd_fsm f s" s] by (simp add: models_def upd_fsm_def)

section \<open>The invariant\<close>

text \<open>
  \<open>mount_ok h A mnt\<close>: behind the mount point is a terminated path, a file system that nothing else refers to, and what the
  implementation owns; \<open>A\<close> are these objects with their sizes.
\<close>

definition path_of :: "fs_object store \<Rightarrow> u64 \<Rightarrow> string" where
  "path_of h mnt = the (mp_path (the (get_mount h mnt)))"

definition fs_of :: "fs_object store \<Rightarrow> u64 \<Rightarrow> u64" where
  "fs_of h mnt = mp_fs (the (get_mount h mnt))"

definition mount_ok :: "fs_object store \<Rightarrow> (u64 \<times> nat) set \<Rightarrow> u64 \<Rightarrow> bool" where
  "mount_ok h A mnt \<longleftrightarrow> (\<exists>mp path f op B k n. h mnt = Some (Mount mp) \<and> mp_path mp = Some path \<and> h (mp_fs mp) = Some (Filesystem f) \<and>
     fs_opers f = Some op \<and> fs_refs f = 1 \<and> ops_owns op h (fs_private f) B \<and> A = insert (mnt, k) (insert (mp_fs mp, n) B) \<and>
     mnt \<notin> fst ` B \<and> mp_fs mp \<notin> fst ` B \<and> mp_fs mp \<noteq> 0)"

text \<open>
  The table holds the file systems in the order in which they were mounted, the list has the latest mount first. Different mounts
  share no object, and have different paths.
\<close>

definition table_ok :: "fs_object store \<Rightarrow> u64 list \<Rightarrow> fs_manager \<Rightarrow> bool" where
  "table_ok h ms m \<longleftrightarrow> fs_initialized m \<and> length (filesystems m) = 64 \<and> length ms \<le> 64 \<and> mounted_count m = of_nat (length ms) \<and>
     filesystems m = rev (map (fs_of h) ms) @ replicate (64 - length ms) 0"

definition mounts_ok :: "(u64 \<times> nat) set \<Rightarrow> fs_object store \<Rightarrow> (u64 \<Rightarrow> (u64 \<times> nat) set) \<Rightarrow> u64 list \<Rightarrow> bool" where
  "mounts_ok L h own ms \<longleftrightarrow> (\<forall>mnt\<in>set ms. mount_ok h (own mnt) mnt \<and> own mnt \<subseteq> L) \<and>
     (\<forall>a\<in>set ms. \<forall>b\<in>set ms. a \<noteq> b \<longrightarrow> fst ` own a \<inter> fst ` own b = {}) \<and> distinct (map (path_of h) ms) \<and> dom h \<subseteq> fst ` L"

definition fs_inv :: "(u64 \<Rightarrow> (u64 \<times> nat) set) \<Rightarrow> u64 list \<Rightarrow> 'a fs_sys_scheme \<Rightarrow> bool" where
  "fs_inv own ms s \<longleftrightarrow> heap_inv s \<and> mounts_ok (live_objects s) (objs s) own ms \<and>
     chain mp_next (get_mount (objs s)) (mount_points (fs_mgr s)) ms 0 \<and> table_ok (objs s) ms (fs_mgr s)"

lemma get_mount_simps [simp]:
  "h p = Some (Mount mp) \<Longrightarrow> get_mount h p = Some mp"
  "get_mount (h(p \<mapsto> Mount mp)) = (get_mount h)(p \<mapsto> mp)"
  "p \<noteq> q \<Longrightarrow> get_mount (h(p := v)) q = get_mount h q"
  by (auto simp: get_mount_def)

lemma mount_okD:
  assumes "mount_ok h A mnt"
  shows "\<exists>mp. h mnt = Some (Mount mp) \<and> mp_path mp = Some (path_of h mnt) \<and> mp_fs mp = fs_of h mnt" "mnt \<in> fst ` A" "fs_of h mnt \<in> fst ` A"
    "fs_of h mnt \<noteq> 0"
  using assms by (auto simp: mount_ok_def path_of_def fs_of_def)

lemma mount_ok_cong:
  assumes ok: "mount_ok h A mnt" and eq: "\<And>x. x \<in> fst ` A \<Longrightarrow> h' x = h x"
  shows "mount_ok h' A mnt" "path_of h' mnt = path_of h mnt" "fs_of h' mnt = fs_of h mnt" "get_mount h' mnt = get_mount h mnt"
proof -
  obtain mp path f op B k n where a: "h mnt = Some (Mount mp)" "mp_path mp = Some path" "h (mp_fs mp) = Some (Filesystem f)"
    "fs_opers f = Some op" "fs_refs f = 1" "ops_owns op h (fs_private f) B" "A = insert (mnt, k) (insert (mp_fs mp, n) B)"
    "mnt \<notin> fst ` B" "mp_fs mp \<notin> fst ` B" "mp_fs mp \<noteq> 0" using ok unfolding mount_ok_def by blast
  have e: "h' mnt = h mnt" "h' (mp_fs mp) = h (mp_fs mp)" using eq a(7) by simp_all
  have "ops_owns op h' (fs_private f) B" using a(7) eq by (intro impl.owns_cong [OF a(6)]) auto
  then show "mount_ok h' A mnt" unfolding mount_ok_def using a e by metis
  show "get_mount h' mnt = get_mount h mnt" using e by (simp add: get_mount_def)
  then show "path_of h' mnt = path_of h mnt" "fs_of h' mnt = fs_of h mnt" by (simp_all add: path_of_def fs_of_def)
qed

text \<open>Searching the list for a path, with the predecessor.\<close>

lemma find_mount_spec:
  assumes "chain mp_next (get_mount (objs s)) a ms 0" and "\<forall>x\<in>set ms. \<exists>p. mp_path (the (get_mount (objs s) x)) = Some p"
  shows "find_mount path prev a s = Some
    (let t = takeWhile (\<lambda>x. path_of (objs s) x \<noteq> path) ms in
     (if t = [] then prev else last t, first_of (\<lambda>x. path_of (objs s) x = path) ms))"
  using assms
proof (induction ms arbitrary: a prev)
  case Nil
  then show ?case by (subst find_mount.simps) simp
next
  case (Cons x ms)
  then obtain mp p where mp: "a = x" "x \<noteq> 0" "get_mount (objs s) x = Some mp" "chain mp_next (get_mount (objs s)) (mp_next mp) ms 0"
    "mp_path mp = Some p" by auto
  have px: "path_of (objs s) x = p" using mp by (simp add: path_of_def)
  have IH: "find_mount path x (mp_next mp) s = Some
    (let t = takeWhile (\<lambda>x. path_of (objs s) x \<noteq> path) ms in
     (if t = [] then x else last t, first_of (\<lambda>x. path_of (objs s) x = path) ms))"
    using Cons.IH [OF mp(4)] Cons.prems(2) by simp
  show ?case using mp px IH by (subst find_mount.simps) (simp add: Let_def)
qed

lemma fs_inv_paths:
  assumes "fs_inv own ms s"
  shows "\<forall>x\<in>set ms. \<exists>p. mp_path (the (get_mount (objs s) x)) = Some p" "0 \<notin> set ms"
  using assms mount_okD(1) chain_mem by (fastforce simp: fs_inv_def mounts_ok_def)+

section \<open>The longest mount path\<close>

lemma take_prefix: "take (length p) path = p \<longleftrightarrow> prefix p path"
  by (metis append_eq_conv_conj prefix_def take_is_prefix)

text \<open>The search keeps the best mount so far.\<close>

lemma best_mount_spec:
  assumes "chain mp_next (get_mount (objs s)) a ms 0" and "\<forall>x\<in>set ms. \<exists>p. mp_path (the (get_mount (objs s) x)) = Some p"
  shows "\<exists>b. best_mount path best len a s = Some b \<and>
    (if \<exists>x\<in>set ms. prefix (path_of (objs s) x) path \<and> len < length (path_of (objs s) x)
     then b \<in> set ms \<and> prefix (path_of (objs s) b) path \<and>
       (\<forall>x\<in>set ms. prefix (path_of (objs s) x) path \<longrightarrow> length (path_of (objs s) x) \<le> length (path_of (objs s) b)) \<and>
       len < length (path_of (objs s) b)
     else b = best)"
  using assms
proof (induction ms arbitrary: a best len)
  case Nil
  then show ?case by (subst best_mount.simps) simp
next
  case (Cons x ms)
  then obtain mp p where mp: "a = x" "x \<noteq> 0" "get_mount (objs s) x = Some mp" "chain mp_next (get_mount (objs s)) (mp_next mp) ms 0"
    "mp_path mp = Some p" by auto
  have px: "path_of (objs s) x = p" using mp by (simp add: path_of_def)
  note IH = Cons.IH [OF mp(4)]
  have rest: "\<forall>x\<in>set ms. \<exists>p. mp_path (the (get_mount (objs s) x)) = Some p" using Cons.prems(2) by simp
  show ?case
  proof (cases "prefix p path \<and> len < length p")
    case True
    then have "best_mount path best len a s = best_mount path x (length p) (mp_next mp) s"
      using mp by (subst best_mount.simps) (simp add: take_prefix Let_def)
    then show ?thesis using IH [OF rest, of x "length p"] True px by (fastforce split: if_splits)
  next
    case False
    then have "best_mount path best len a s = best_mount path best len (mp_next mp) s"
      using mp by (subst best_mount.simps) (auto simp: take_prefix Let_def)
    then show ?thesis using IH [OF rest, of best len] False px by (fastforce split: if_splits)
  qed
qed

lemma fs_get_filesystem_spec:
  assumes inv: "fs_inv own ms s"
  shows "\<exists>a. fs_get_filesystem (Some path) s = Some a \<and>
    (if \<exists>x\<in>set ms. prefix (path_of (objs s) x) path \<and> path_of (objs s) x \<noteq> []
     then \<exists>b\<in>set ms. a = fs_of (objs s) b \<and> a \<noteq> 0 \<and> prefix (path_of (objs s) b) path \<and>
       (\<forall>x\<in>set ms. prefix (path_of (objs s) x) path \<longrightarrow> length (path_of (objs s) x) \<le> length (path_of (objs s) b))
     else a = 0)"
proof -
  have ch: "chain mp_next (get_mount (objs s)) (mount_points (fs_mgr s)) ms 0" and i: "fs_initialized (fs_mgr s)"
    and ok: "\<forall>x\<in>set ms. mount_ok (objs s) (own x) x" using inv by (auto simp: fs_inv_def table_ok_def mounts_ok_def)
  from best_mount_spec [OF ch fs_inv_paths(1) [OF inv], of path 0 0, unfolded length_greater_0_conv]
  obtain b where b: "best_mount path 0 0 (mount_points (fs_mgr s)) s = Some b"
    "if \<exists>x\<in>set ms. prefix (path_of (objs s) x) path \<and> path_of (objs s) x \<noteq> []
     then b \<in> set ms \<and> prefix (path_of (objs s) b) path \<and>
       (\<forall>x\<in>set ms. prefix (path_of (objs s) x) path \<longrightarrow> length (path_of (objs s) x) \<le> length (path_of (objs s) b)) \<and>
       path_of (objs s) b \<noteq> []
     else b = 0" by (elim exE conjE)
  show ?thesis
  proof (cases "\<exists>x\<in>set ms. prefix (path_of (objs s) x) path \<and> path_of (objs s) x \<noteq> []")
    case True
    then have bm: "b \<in> set ms" using b(2) by simp
    then have "b \<noteq> 0" using fs_inv_paths(2) [OF inv] by auto
    moreover obtain mp where "objs s b = Some (Mount mp)" "mp_fs mp = fs_of (objs s) b" using mount_okD(1) ok bm by blast
    ultimately have "fs_get_filesystem (Some path) s = Some (fs_of (objs s) b)" using b(1) i by (simp add: fs_get_filesystem_def)
    moreover have "fs_of (objs s) b \<noteq> 0" using mount_okD(4) ok bm by blast
    ultimately show ?thesis using True b(2) by auto
  next
    case False
    then show ?thesis using b i by (auto simp: fs_get_filesystem_def)
  qed
qed

section \<open>Mounting and unmounting\<close>

text \<open>The time is read without touching the file systems.\<close>

definition time_ok :: "'a fs_sys_scheme fs_env \<Rightarrow> bool" where
  "time_ok e \<longleftrightarrow> (\<forall>s. snd (get_timestamp e s) = s)"

text \<open>A new mount at the head of the list keeps the invariant.\<close>

lemma mounts_push:
  assumes ok: "mounts_ok L h own ms" and new: "mount_ok h' A mnt" and A: "fst ` A \<inter> fst ` L = {}"
    and eq: "\<And>x. x \<notin> fst ` A \<Longrightarrow> h' x = h x" and d: "dom h' \<subseteq> fst ` (L \<union> A)" and p: "path_of h' mnt \<notin> path_of h ` set ms"
  shows "mounts_ok (L \<union> A) h' (own(mnt := A)) (mnt # ms)"
proof -
  have sub: "fst ` own x \<subseteq> fst ` L" "mount_ok h (own x) x" "own x \<subseteq> L" if "x \<in> set ms" for x using ok that by (auto simp: mounts_ok_def)
  have ne: "x \<noteq> mnt" if "x \<in> set ms" for x
    using mount_okD(2) [OF new] mount_okD(2) [OF sub(2) [OF that]] sub(1) [OF that] A by blast
  have same: "h' y = h y" if "x \<in> set ms" "y \<in> fst ` own x" for x y using sub(1) [OF that(1)] that(2) A by (intro eq) blast
  have c: "mount_ok h' (own x) x" "path_of h' x = path_of h x" if "x \<in> set ms" for x
    using mount_ok_cong [OF sub(2) [OF that] same [OF that]] by simp_all
  have paths: "map (path_of h') ms = map (path_of h) ms" using c(2) by simp
  have apart: "fst ` A \<inter> fst ` own x = {}" if "x \<in> set ms" for x using sub(1) [OF that] A by blast
  have "\<forall>x\<in>set (mnt # ms). mount_ok h' ((own(mnt := A)) x) x \<and> (own(mnt := A)) x \<subseteq> L \<union> A" using new c(1) ne sub(3) by auto
  moreover have "\<forall>a\<in>set (mnt # ms). \<forall>b\<in>set (mnt # ms). a \<noteq> b \<longrightarrow> fst ` (own(mnt := A)) a \<inter> fst ` (own(mnt := A)) b = {}"
    using ok apart ne by (simp add: mounts_ok_def Int_commute)
  moreover have "distinct (map (path_of h') (mnt # ms))"
    using ok p unfolding list.map paths distinct.simps mounts_ok_def list.set_map by simp
  ultimately show ?thesis using d unfolding mounts_ok_def by blast
qed

lemma table_push:
  assumes "table_ok h ms m" and "length ms < 64" and "\<And>x. x \<in> set ms \<Longrightarrow> fs_of h' x = fs_of h x" and "fs_of h' mnt = fs"
  shows "table_ok h' (mnt # ms) (m\<lparr>mount_points := a, filesystems := (filesystems m)[unat (mounted_count m) := fs], mounted_count := mounted_count m + 1\<rparr>)"
proof -
  have u: "unat (mounted_count m) = length ms" using assms(1,2) by (simp add: table_ok_def unat_of_nat)
  have "map (fs_of h') ms = map (fs_of h) ms" using assms(3) by simp
  moreover have "64 - length ms = Suc (63 - length ms)" using assms(2) by simp
  ultimately show ?thesis using assms(1,2,4) u by (simp add: table_ok_def list_update_append)
qed

lemma enter_mount_spec:
  assumes mo: "models s L h m r" and t: "time_ok e" and tab: "table_ok h0 ms m" "length ms < 64" and path: "length path < 4095"
    and f: "h fs = Some (Filesystem f)" and ne: "mnt \<noteq> fs"
  obtains s' now where "enter_mount e path flags fs mnt s = Some (0, s')"
    "models s' L (h(mnt \<mapsto> Mount \<lparr>mp_path = Some path, mp_fs = fs, mp_flags = flags, mp_time = now, mp_next = mount_points m\<rparr>,
        fs \<mapsto> Filesystem (f\<lparr>fs_state := FS_STATUS_MOUNTED, fs_mount_point := mnt\<rparr>)))
      (m\<lparr>mount_points := mnt, filesystems := (filesystems m)[unat (mounted_count m) := fs], mounted_count := mounted_count m + 1\<rparr>) r"
proof -
  obtain now where now: "get_timestamp e s = (now, s)" using t by (metis prod.collapse time_ok_def)
  define mp where "mp = \<lparr>mp_path = Some path, mp_fs = fs, mp_flags = flags, mp_time = now, mp_next = mount_points m\<rparr>"
  have cp: "copy_path (stale_byte e) path mnt = Some path" using path by (simp add: copy_path_def MAX_PATH_LENGTH_def)
  define s1 where "s1 = put mnt (Mount mp) s"
  have m1: "models s1 L (h(mnt \<mapsto> Mount mp)) m r" unfolding s1_def by (rule models_put [OF mo])
  define s2 where "s2 = upd_fsm (\<lambda>m. m\<lparr>mount_points := mnt\<rparr>) s1"
  have m2: "models s2 L (h(mnt \<mapsto> Mount mp)) (m\<lparr>mount_points := mnt\<rparr>) r" unfolding s2_def by (rule models_upd_fsm [OF m1])
  let ?n = "unat (mounted_count m)"
  define s3 where "s3 = upd_fsm (\<lambda>m. m\<lparr>filesystems := (filesystems m)[?n := fs], mounted_count := mounted_count m + 1\<rparr>) s2"
  have m3: "models s3 L (h(mnt \<mapsto> Mount mp)) (m\<lparr>mount_points := mnt, filesystems := (filesystems m)[?n := fs], mounted_count := mounted_count m + 1\<rparr>) r"
    using models_upd_fsm [OF m2, of "\<lambda>m. m\<lparr>filesystems := (filesystems m)[?n := fs], mounted_count := mounted_count m + 1\<rparr>"] by (simp add: s3_def)
  have "(h(mnt \<mapsto> Mount mp)) fs = Some (Filesystem f)" using f ne by simp
  from models_upd_fs [OF m3 this] obtain s4 where
    s4: "upd_fs fs (\<lambda>f. f\<lparr>fs_state := FS_STATUS_MOUNTED, fs_mount_point := mnt\<rparr>) s3 = Some s4"
    "models s4 L (h(mnt \<mapsto> Mount mp, fs \<mapsto> Filesystem (f\<lparr>fs_state := FS_STATUS_MOUNTED, fs_mount_point := mnt\<rparr>)))
      (m\<lparr>mount_points := mnt, filesystems := (filesystems m)[?n := fs], mounted_count := mounted_count m + 1\<rparr>) r" .
  have "\<not> length (filesystems m) \<le> ?n" using tab by (simp add: table_ok_def unat_of_nat)
  then have "enter_mount e path flags fs mnt s = Some (0, s4)"
    using s4(1) cp now
    by (simp add: enter_mount_def models_get(8) [OF mo] models_get(8) [OF m2] mp_def [symmetric] s1_def [symmetric] s2_def [symmetric] s3_def [symmetric])
  then show thesis using that s4(2) unfolding mp_def by blast
qed

text \<open>What a successful mount leaves: the new objects, the entry in the list and in the table.\<close>

lemma mount_entered:
  assumes inv: "fs_inv own ms s" and room: "length ms < 64" and p: "path \<notin> path_of (objs s) ` set ms"
    and mo: "models s' (live_objects s \<union> insert (mnt, k) (insert (fs, n) B))
      ((objs s ++ h')(mnt \<mapsto> Mount \<lparr>mp_path = Some path, mp_fs = fs, mp_flags = flags, mp_time = now, mp_next = mount_points (fs_mgr s)\<rparr>, fs \<mapsto> Filesystem f))
      ((fs_mgr s)\<lparr>mount_points := mnt, filesystems := (filesystems (fs_mgr s))[unat (mounted_count (fs_mgr s)) := fs],
         mounted_count := mounted_count (fs_mgr s) + 1\<rparr>) r"
    and B: "ops_owns op h' (fs_private f) B" "dom h' = fst ` B" and f: "fs_opers f = Some op" "fs_refs f = 1" "fs \<noteq> 0" "mnt \<noteq> 0"
    and d: "fst ` insert (fs, n) B \<inter> fst ` live_objects s = {}" "mnt \<notin> fst ` (live_objects s \<union> insert (fs, n) B)" "fs \<notin> fst ` B"
  shows "fs_inv (own(mnt := insert (mnt, k) (insert (fs, n) B))) (mnt # ms) s'" "path_of (objs s') mnt = path"
    "\<And>x. x \<notin> fst ` insert (mnt, k) (insert (fs, n) B) \<Longrightarrow> objs s' x = objs s x"
proof -
  let ?A = "insert (mnt, k) (insert (fs, n) B)"
  define mp where "mp = \<lparr>mp_path = Some path, mp_fs = fs, mp_flags = flags, mp_time = now, mp_next = mount_points (fs_mgr s)\<rparr>"
  note o = models_get(7,8) [OF mo, folded mp_def]
  have hm: "objs s' mnt = Some (Mount mp)" "objs s' fs = Some (Filesystem f)" using d(2) by (simp_all add: o)
  show eq: "objs s' x = objs s x" if "x \<notin> fst ` ?A" for x
  proof -
    have "h' x = None" using that B(2) by (auto simp: domIff)
    then show ?thesis using that by (auto simp: o map_add_def)
  qed
  have hB: "objs s' x = h' x" if "x \<in> fst ` B" for x
    using that d(2,3) B(2) by (auto simp: o map_add_dom_app_simps)
  have "ops_owns op (objs s') (fs_private f) B" by (rule impl.owns_cong [OF B(1) hB])
  moreover have "mnt \<notin> fst ` B" using d(2) by auto
  ultimately have new: "mount_ok (objs s') ?A mnt"
    unfolding mount_ok_def using hm f d(3)
    by (intro exI [of _ mp] exI [of _ path] exI [of _ f] exI [of _ op] exI [of _ B] exI [of _ k] exI [of _ n]) (simp add: mp_def)
  show pth: "path_of (objs s') mnt = path" using hm(1) by (simp add: path_of_def mp_def)
  have fso: "fs_of (objs s') mnt = fs" using hm(1) by (simp add: fs_of_def mp_def)
  have ok: "mounts_ok (live_objects s) (objs s) own ms" and ch: "chain mp_next (get_mount (objs s)) (mount_points (fs_mgr s)) ms 0"
    and tab: "table_ok (objs s) ms (fs_mgr s)" using inv by (auto simp: fs_inv_def)
  have dA: "fst ` ?A \<inter> fst ` live_objects s = {}" using d(1,2) by auto
  have dom: "dom (objs s') \<subseteq> fst ` (live_objects s \<union> ?A)" using ok B(2) by (auto simp: o mounts_ok_def image_Un)
  have "path_of (objs s') mnt \<notin> path_of (objs s) ` set ms" using pth p by simp
  from mounts_push [OF ok new dA eq dom this]
  have 1: "mounts_ok (live_objects s \<union> ?A) (objs s') (own(mnt := ?A)) (mnt # ms)" .
  have same: "get_mount (objs s') x = get_mount (objs s) x" "fs_of (objs s') x = fs_of (objs s) x" if x: "x \<in> set ms" for x
  proof -
    have "mount_ok (objs s) (own x) x" "own x \<subseteq> live_objects s" using ok x by (auto simp: mounts_ok_def)
    moreover have "objs s' y = objs s y" if "y \<in> fst ` own x" for y using calculation(2) dA that by (intro eq) blast
    ultimately show "get_mount (objs s') x = get_mount (objs s) x" "fs_of (objs s') x = fs_of (objs s) x" using mount_ok_cong(3,4) by metis+
  qed
  have 2: "table_ok (objs s') (mnt # ms) (fs_mgr s')" unfolding o(2) by (rule table_push [OF tab room same(2) fso])
  have "chain mp_next (get_mount (objs s')) (mount_points (fs_mgr s)) ms 0"
    using ch by (rule chain_cong [rotated]) (simp add: same(1))
  then have "chain mp_next (get_mount (objs s')) (mount_points (fs_mgr s')) (mnt # ms) 0"
    using hm(1) f(4) by (simp add: o(2) mp_def)
  then show "fs_inv (own(mnt := ?A)) (mnt # ms) s'" using mo 1 2 by (simp add: fs_inv_def models_def)
qed

text \<open>The part of \<^verbatim>\<open>fs_mount\<close> after the filesystem structure is filled in.\<close>

definition mount_rest :: "'a fs_sys_scheme fs_env \<Rightarrow> fs_operations \<Rightarrow> string \<Rightarrow> string \<Rightarrow> u32 \<Rightarrow> u64 \<Rightarrow> 'a fs_sys_scheme \<Rightarrow>
    (int \<times> 'a fs_sys_scheme) option" where
  "mount_rest e ops dev path flags fs s = do {
     (result, s) \<leftarrow> ops_mount ops fs (Some dev) flags s;
     if result \<noteq> 0 then do { s \<leftarrow> drop_object fs s; Some (result, s) }
     else do {
       (mnt, s) \<leftarrow> kmalloc sizeof_mount_point s;
       if mnt = 0 then do { (_, s) \<leftarrow> ops_unmount ops e fs s; s \<leftarrow> drop_object fs s; Some (-1, s) }
       else enter_mount e path flags fs mnt s } }"

text \<open>How a mount of a new path can go: nothing changes, or there is one mount more.\<close>

definition mount_outcome :: "(u64 \<Rightarrow> (u64 \<times> nat) set) \<Rightarrow> u64 list \<Rightarrow> string \<Rightarrow> 'a fs_sys_scheme \<Rightarrow> (int \<times> 'a fs_sys_scheme) option \<Rightarrow> bool" where
  "mount_outcome own ms path s res \<longleftrightarrow>
     (\<exists>c s'. res = Some (c, s') \<and> c \<noteq> 0 \<and> models s' (live_objects s) (objs s) (fs_mgr s) (registered_fs s)) \<or>
     (\<exists>s' mnt A. res = Some (0, s') \<and> fs_inv (own(mnt := A)) (mnt # ms) s' \<and> path_of (objs s') mnt = path \<and>
        fst ` A \<inter> fst ` live_objects s = {} \<and> (\<forall>x. x \<notin> fst ` A \<longrightarrow> objs s' x = objs s x) \<and>
        models s' (live_objects s \<union> A) (objs s') ((fs_mgr s)\<lparr>mount_points := mnt,
          filesystems := (filesystems (fs_mgr s))[length ms := fs_of (objs s') mnt], mounted_count := of_nat (length ms) + 1\<rparr>) (registered_fs s))"

lemma mount_rest_entered:
  assumes inv: "fs_inv own ms s" and t: "time_ok e" and p: "path \<notin> path_of (objs s) ` set ms" "length path < 4095" and room: "length ms < 64"
    and f: "fs_opers f = Some op" "fs_refs f = 1" and fs: "fs \<noteq> 0" "fs \<notin> fst ` live_objects s"
    and B: "ops_owns op h' (fs_private f) B" "dom h' = fst ` B" "fst ` B \<inter> fst ` insert (fs, n) (live_objects s) = {}"
    and mnt: "mnt \<noteq> 0" "mnt \<notin> fst ` (insert (fs, n) (live_objects s) \<union> B)"
    and mo: "models s1 (insert (mnt, j) (insert (fs, n) (live_objects s) \<union> B)) ((objs s ++ h')(fs \<mapsto> Filesystem f)) (fs_mgr s) (registered_fs s)"
  shows "mount_outcome own ms path s (enter_mount e path flags fs mnt s1)"
proof -
  let ?L = "live_objects s" and ?h = "objs s" and ?m = "fs_mgr s" and ?r = "registered_fs s"
  have tab: "table_ok ?h ms ?m" using inv by (simp add: fs_inv_def)
  have ne: "mnt \<noteq> fs" and fB: "fs \<notin> fst ` B" using mnt(2) B(3) by auto
  have h1: "((?h ++ h')(fs \<mapsto> Filesystem f)) fs = Some (Filesystem f)" by simp
  let ?f = "f\<lparr>fs_state := FS_STATUS_MOUNTED, fs_mount_point := mnt\<rparr>" and ?A = "insert (mnt, j) (insert (fs, n) B)"
  obtain s2 now where s2: "enter_mount e path flags fs mnt s1 = Some (0, s2)"
    "models s2 (insert (mnt, j) (insert (fs, n) ?L \<union> B)) ((?h ++ h')(fs \<mapsto> Filesystem f, mnt \<mapsto> Mount \<lparr>mp_path = Some path, mp_fs = fs,
        mp_flags = flags, mp_time = now, mp_next = mount_points ?m\<rparr>, fs \<mapsto> Filesystem ?f))
      (?m\<lparr>mount_points := mnt, filesystems := (filesystems ?m)[unat (mounted_count ?m) := fs], mounted_count := mounted_count ?m + 1\<rparr>) ?r"
    by (rule enter_mount_spec [OF mo t tab room p(2) h1 ne])
  have hh: "(?h ++ h')(fs \<mapsto> u, mnt \<mapsto> v, fs \<mapsto> w) = (?h ++ h')(mnt \<mapsto> v, fs \<mapsto> w)" for u v w using ne by (auto simp: fun_eq_iff)
  have LL: "insert (mnt, j) (insert (fs, n) ?L \<union> B) = ?L \<union> ?A" by auto
  note m2 = s2(2) [unfolded hh LL]
  have f': "ops_owns op h' (fs_private ?f) B" "fs_opers ?f = Some op" "fs_refs ?f = 1" using B(1) f by simp_all
  have dA: "fst ` insert (fs, n) B \<inter> fst ` ?L = {}" "mnt \<notin> fst ` (?L \<union> insert (fs, n) B)" using fs(2) B(3) mnt(2) by auto
  note entered = mount_entered [OF inv room p(1) m2 f'(1) B(2) f'(2,3) fs(1) mnt(1) dA fB]
  have fso: "fs_of (objs s2) mnt = fs" using ne by (simp add: models_get(7) [OF m2] fs_of_def)
  have cnt: "unat (mounted_count ?m) = length ms" "mounted_count ?m = of_nat (length ms)" using tab room by (simp_all add: table_ok_def unat_of_nat)
  have "models s2 (?L \<union> ?A) (objs s2) (?m\<lparr>mount_points := mnt, filesystems := (filesystems ?m)[length ms := fs_of (objs s2) mnt],
      mounted_count := of_nat (length ms) + 1\<rparr>) ?r" using m2 unfolding models_get(7) [OF m2, symmetric] cnt(1) unfolding cnt(2) fso .
  moreover have "fst ` ?A \<inter> fst ` ?L = {}" using dA by auto
  ultimately show ?thesis using entered s2(1) unfolding mount_outcome_def by blast
qed

lemma mount_rest_spec:
  assumes inv: "fs_inv own ms s" and e: "flush_ok e" "time_ok e" and p: "path \<notin> path_of (objs s) ` set ms" "length path < 4095"
    and room: "length ms < 64" and f: "fs_opers f = Some op" "fs_refs f = 1" and fs: "fs \<noteq> 0" "fs \<notin> fst ` live_objects s"
    and mo: "models s1 (insert (fs, n) (live_objects s)) ((objs s)(fs \<mapsto> Filesystem f)) (fs_mgr s) (registered_fs s)"
  shows "mount_outcome own ms path s (mount_rest e op dev path flags fs s1)"
proof -
  let ?L = "live_objects s" and ?h = "objs s" and ?m = "fs_mgr s" and ?r = "registered_fs s"
  have d: "dom ?h \<subseteq> fst ` ?L" using inv by (auto simp: fs_inv_def mounts_ok_def)
  then have none: "?h fs = None" using fs(2) by (auto simp: domIff)
  have d1: "dom (?h(fs \<mapsto> Filesystem f)) \<subseteq> fst ` insert (fs, n) ?L" using d by auto
  have h1: "(?h(fs \<mapsto> Filesystem f)) fs = Some (Filesystem f)" by simp
  have fail: "mount_outcome own ms path s (mount_rest e op dev path flags fs s1)"
    if run: "mount_rest e op dev path flags fs s1 = do { s \<leftarrow> drop_object fs s2; Some (c, s) }" "c \<noteq> 0"
      "models s2 (insert (fs, n) ?L) (?h(fs \<mapsto> ob)) ?m ?r" for c s2 ob
  proof -
    obtain s3 where "drop_object fs s2 = Some s3" "models s3 ?L ?h ?m ?r" by (rule models_undo [OF run(3) fs(2) none])
    then show ?thesis using run(1,2) unfolding mount_outcome_def by (intro disjI1 exI [of _ c] exI [of _ s3]) simp
  qed
  from impl.mount_law [OF mo d1 h1 fs(1), of op dev flags] show ?thesis
  proof (elim disjE exE conjE)
    fix c s2
    assume "ops_mount op fs (Some dev) flags s1 = Some (c, s2)" "c \<noteq> 0" "models s2 (insert (fs, n) ?L) (?h(fs \<mapsto> Filesystem f)) ?m ?r"
    then show ?thesis by (intro fail [of s2 c]) (simp_all add: mount_rest_def)
  next
    fix s2 q B h'
    let ?f = "f\<lparr>fs_private := q, fs_state := FS_STATUS_READY\<rparr>"
    assume s2: "ops_mount op fs (Some dev) flags s1 = Some (0, s2)" and B: "ops_owns op h' q B" "dom h' = fst ` B" "fst ` B \<inter> fst ` insert (fs, n) ?L = {}"
      and m2: "models s2 (insert (fs, n) ?L \<union> B) ((?h(fs \<mapsto> Filesystem f) ++ h')(fs \<mapsto> Filesystem ?f)) ?m ?r"
    have B': "ops_owns op h' (fs_private ?f) B" using B(1) by simp
    let ?h2 = "(?h(fs \<mapsto> Filesystem f) ++ h')(fs \<mapsto> Filesystem ?f)"
    have d2: "dom ?h2 \<subseteq> fst ` (insert (fs, n) ?L \<union> B)" using d B(2) by auto
    show ?thesis
    proof (rule models_alloc [OF m2 d2, of sizeof_mount_point])
      assume k: "kmalloc sizeof_mount_point s2 = Some (0, s2)"
      from impl.take_back [OF e(1) m2 B' B(2,3) d1 _ fs(1)]
      obtain s3 f' where s3: "ops_unmount op e fs s2 = Some (0, s3)" "models s3 (insert (fs, n) ?L) (?h(fs \<mapsto> Filesystem f')) ?m ?r" by auto
      then show ?thesis using s2 k by (intro fail [of s3 "-1"]) (simp_all add: mount_rest_def)
    next
      fix mnt j s3
      assume k: "kmalloc sizeof_mount_point s2 = Some (mnt, s3)" "mnt \<noteq> 0" "mnt \<notin> fst ` (insert (fs, n) ?L \<union> B)"
        "models s3 (insert (mnt, j) (insert (fs, n) ?L \<union> B)) ?h2 ?m ?r"
      have "fs \<notin> fst ` B" using B(3) by auto
      then have hh: "?h2 = (?h ++ h')(fs \<mapsto> Filesystem ?f)" using B(2) by (auto simp: fun_eq_iff map_add_def split: option.splits)
      have f': "fs_opers ?f = Some op" "fs_refs ?f = 1" using f by simp_all
      from mount_rest_entered [OF inv e(2) p room f' fs B' B(2,3) k(2,3) k(4) [unfolded hh]]
      show ?thesis using s2 k(1,2) by (simp add: mount_rest_def)
    qed (simp_all add: fs_sizes)
  qed
qed

lemma fs_mount_outcome:
  assumes inv: "fs_inv own ms s" and e: "flush_ok e" "time_ok e" and p: "path \<notin> path_of (objs s) ` set ms" "length path < 4095"
    and room: "length ms < 64" and reg: "registered_fs s type = Some op" "type \<noteq> FS_TYPE_OTHER"
  shows "mount_outcome own ms path s (fs_mount e (Some dev) (Some path) type flags s)"
proof -
  let ?L = "live_objects s" and ?h = "objs s" and ?m = "fs_mgr s" and ?r = "registered_fs s"
  have mo: "models s ?L ?h ?m ?r" using inv by (simp add: models_def fs_inv_def)
  have d: "dom ?h \<subseteq> fst ` ?L" and start: "fs_initialized ?m" and ch: "chain mp_next (get_mount ?h) (mount_points ?m) ms 0"
    using inv by (simp_all add: fs_inv_def mounts_ok_def table_ok_def)
  have "first_of (\<lambda>x. path_of ?h x = path) ms = 0" using p(1) by (subst first_of_0_iff [OF fs_inv_paths(2) [OF inv]]) auto
  then obtain q where find: "find_mount path 0 (mount_points ?m) s = Some (q, 0)"
    using find_mount_spec [OF ch fs_inv_paths(1) [OF inv], of path 0] by (simp add: Let_def)
  show ?thesis
  proof (rule models_alloc [OF mo d, of sizeof_filesystem])
    assume "kmalloc sizeof_filesystem s = Some (0, s)"
    then have "fs_mount e (Some dev) (Some path) type flags s = Some (-1, s)" using reg start find by (simp add: fs_mount_def)
    then show ?thesis using mo unfolding mount_outcome_def by (intro disjI1 exI [of _ "-1"] exI [of _ s]) simp
  next
    fix fs n s1
    let ?nf = "new_filesystem type op dev flags"
    assume k: "kmalloc sizeof_filesystem s = Some (fs, s1)" "fs \<noteq> 0" "unat sizeof_filesystem \<le> n" "fs \<notin> fst ` ?L"
      "models s1 (insert (fs, n) ?L) ?h ?m ?r"
    have f: "fs_opers ?nf = Some op" "fs_refs ?nf = 1" by (simp_all add: new_filesystem_def zero_filesystem_def)
    have "fs_mount e (Some dev) (Some path) type flags s =
        mount_rest e op dev path flags fs (put fs (Filesystem ?nf) (clear fs sizeof_filesystem s1))"
      using reg start find k(1,2) by (simp add: fs_mount_def mount_rest_def)
    then show ?thesis using mount_rest_spec [OF inv e p room f k(2,4) models_new [OF k(5,3)]] by simp
  qed (simp_all add: fs_sizes)
qed

text \<open>Taking a mount out of the table moves the later entries down by one.\<close>

lemma shift_down:
  "fold (\<lambda>j xs. xs[j := xs ! (j + 1)]) [length a..<length a + length b] (a @ x # b @ zs) = a @ b @ last (x # b) # zs"
proof (induction b arbitrary: a x)
  case (Cons y b)
  have "[length a..<length a + length (y # b)] = length a # [length (a @ [y])..<length (a @ [y]) + length b]"
    by (simp add: upt_conv_Cons del: upt_Suc)
  then show ?case using Cons.IH [of "a @ [y]" y] by (simp add: nth_append list_update_append del: upt_Suc)
qed simp

lemma remove_slot_spec:
  assumes tab: "table_ok h (xs @ mnt # ys) m" and new: "fs_of h mnt \<notin> fs_of h ` set ys"
  shows "remove_slot (fs_of h mnt) m = m\<lparr>filesystems := rev (map (fs_of h) (xs @ ys)) @ replicate (64 - length (xs @ ys)) 0,
    mounted_count := of_nat (length (xs @ ys))\<rparr>"
proof -
  let ?fs = "fs_of h mnt" and ?a = "rev (map (fs_of h) ys)" and ?b = "rev (map (fs_of h) xs)" and ?n = "length (xs @ mnt # ys)"
  define zs where "zs = replicate (64 - ?n) (0 :: u64)"
  have mc: "mounted_count m = of_nat ?n" and n1: "?n \<le> 64" using tab unfolding table_ok_def by blast+
  have n: "?n \<le> 64" "unat (mounted_count m) = ?n" using n1 unfolding mc by (simp_all only: unat_of_nat) simp
  have fl: "filesystems m = ?a @ ?fs # ?b @ zs" using tab by (simp add: table_ok_def zs_def)
  have nf: "fs_of h (ys ! i) \<noteq> ?fs" if "i < length ys" for i using new nth_mem [OF that] by (metis image_eqI)
  have fnd: "find (\<lambda>i. filesystems m ! i = ?fs) [0..<?n] = Some (length ys)"
    unfolding find_Some_iff
    by (intro exI [of _ "length ys"]) (auto simp: fl nth_append rev_nth nf simp del: upt_Suc)
  have nn: "?n - 1 = length ?a + length ?b" by simp
  have sd: "fold (\<lambda>j xs. xs[j := xs ! (j + 1)]) [length ys..<?n - 1] (filesystems m) = ?a @ ?b @ last (?fs # ?b) # zs"
    using shift_down [of ?a ?b ?fs zs] unfolding fl nn by simp
  have z: "(?a @ ?b @ last (?fs # ?b) # zs)[?n - 1 := 0] = rev (map (fs_of h) (xs @ ys)) @ replicate (64 - length (xs @ ys)) 0"
    using n(1) unfolding nn by (simp add: list_update_append zs_def Suc_diff_Suc [symmetric])
  have "mounted_count m - 1 = of_nat (length (xs @ ys))" unfolding mc by simp
  then show ?thesis unfolding remove_slot_def Let_def n(2) fnd option.case sd z by simp
qed

interpretation mount_links: intrusive_list mp_next "\<lambda>v m. m\<lparr>mp_next := v\<rparr>"
  by unfold_locales simp

text \<open>The list without the mount: the predecessor, if there is one, is linked to the successor.\<close>

definition bypass :: "u64 \<Rightarrow> mount_point \<Rightarrow> fs_object store \<Rightarrow> fs_object store" where
  "bypass prev mp h = (if prev = 0 then h else h(prev \<mapsto> Mount ((the (get_mount h prev))\<lparr>mp_next := mp_next mp\<rparr>)))"

lemma bypass_chain:
  assumes ch: "chain mp_next (get_mount h) a (xs @ mnt # ys) 0" and mp: "get_mount h mnt = Some mp"
  shows "chain mp_next (get_mount (bypass (if xs = [] then 0 else last xs) mp h)) (if xs = [] then mp_next mp else a) (xs @ ys) 0"
proof (cases xs rule: rev_cases)
  case Nil
  then show ?thesis using ch mp by (simp add: bypass_def)
next
  case (snoc zs q)
  then have ch': "chain mp_next (get_mount h) a (zs @ q # mnt # ys) 0" using ch by simp
  obtain mq where mq: "get_mount h q = Some mq" "q \<noteq> 0" using chain_mem [OF ch', of q] by auto
  from mount_links.relink [OF ch' mp mq(1)] show ?thesis using snoc mq by (simp add: bypass_def)
qed

text \<open>What is left of the invariant without one mount, when only links of the other mounts change.\<close>

lemma mount_ok_relink:
  assumes ok: "mount_ok h A mnt" and eq: "\<And>x. x \<in> fst ` A \<Longrightarrow> h' x = h x \<or> x = mnt \<and> (\<exists>mp v. h mnt = Some (Mount mp) \<and> h' mnt = Some (Mount (mp\<lparr>mp_next := v\<rparr>)))"
  shows "mount_ok h' A mnt \<and> path_of h' mnt = path_of h mnt \<and> fs_of h' mnt = fs_of h mnt"
proof (cases "h' mnt = h mnt")
  case True
  then have "h' x = h x" if "x \<in> fst ` A" for x using eq [OF that] by auto
  then show ?thesis using mount_ok_cong [OF ok] by blast
next
  case False
  obtain mp path f op B k n where a: "h mnt = Some (Mount mp)" "mp_path mp = Some path" "h (mp_fs mp) = Some (Filesystem f)"
    "fs_opers f = Some op" "fs_refs f = 1" "ops_owns op h (fs_private f) B" "A = insert (mnt, k) (insert (mp_fs mp, n) B)"
    "mnt \<notin> fst ` B" "mp_fs mp \<notin> fst ` B" "mp_fs mp \<noteq> 0" using ok unfolding mount_ok_def by blast
  obtain v where v: "h' mnt = Some (Mount (mp\<lparr>mp_next := v\<rparr>))" using eq [of mnt] False a(1,7) by auto
  have "mp_fs mp \<noteq> mnt" using a(1,3) by auto
  then have e: "h' (mp_fs mp) = h (mp_fs mp)" using eq [of "mp_fs mp"] a(7) by auto
  have "h' x = h x" if "x \<in> fst ` B" for x using eq [of x] that a(7,8) by auto
  then have "ops_owns op h' (fs_private f) B" by (rule impl.owns_cong [OF a(6)])
  then have "mount_ok h' A mnt" unfolding mount_ok_def using a e v
    by (intro exI [of _ "mp\<lparr>mp_next := v\<rparr>"] exI [of _ path] exI [of _ f] exI [of _ op] exI [of _ B] exI [of _ k] exI [of _ n]) simp
  then show ?thesis using a(1) v by (simp add: path_of_def fs_of_def)
qed

definition without :: "u64 list \<Rightarrow> u64 \<Rightarrow> mount_point \<Rightarrow> (u64 \<times> nat) set \<Rightarrow> fs_object store \<Rightarrow> fs_object store" where
  "without xs mnt mp A h = bypass (if xs = [] then 0 else last xs) mp h |` (- fst ` A)"

lemma fs_inv_apart:
  assumes inv: "fs_inv own (xs @ mnt # ys) s" and x: "x \<in> set (xs @ ys)"
  shows "x \<noteq> mnt" "fst ` own x \<inter> fst ` own mnt = {}" "mount_ok (objs s) (own x) x" "own x \<subseteq> live_objects s" "x \<notin> fst ` own mnt" "x \<in> fst ` own x"
proof -
  have "chain mp_next (get_mount (objs s)) (mount_points (fs_mgr s)) (xs @ mnt # ys) 0" using inv by (simp add: fs_inv_def)
  then have "distinct (xs @ mnt # ys)" by (rule chain_distinct)
  then show ne: "x \<noteq> mnt" using x by auto
  have m: "mounts_ok (live_objects s) (objs s) own (xs @ mnt # ys)" using inv by (simp add: fs_inv_def)
  then show a: "fst ` own x \<inter> fst ` own mnt = {}" and k: "mount_ok (objs s) (own x) x" "own x \<subseteq> live_objects s"
    using x ne unfolding mounts_ok_def by auto
  show "x \<in> fst ` own x" by (rule mount_okD(2) [OF k(1)])
  then show "x \<notin> fst ` own mnt" using a by blast
qed

text \<open>The invariant without the mount.\<close>

lemma without_inv:
  assumes inv: "fs_inv own (xs @ mnt # ys) s" and mp: "get_mount (objs s) mnt = Some mp"
  defines "h \<equiv> without xs mnt mp (own mnt) (objs s)"
  shows "mounts_ok (live_objects s - own mnt) h own (xs @ ys)"
    and "chain mp_next (get_mount h) (if xs = [] then mp_next mp else mount_points (fs_mgr s)) (xs @ ys) 0"
    and "\<And>x. x \<in> set (xs @ ys) \<Longrightarrow> fs_of h x = fs_of (objs s) x" "\<And>x. x \<in> set (xs @ ys) \<Longrightarrow> path_of h x = path_of (objs s) x"
proof -
  let ?prev = "if xs = [] then 0 else last xs" and ?b = "bypass (if xs = [] then 0 else last xs) mp (objs s)"
  have ch: "chain mp_next (get_mount (objs s)) (mount_points (fs_mgr s)) (xs @ mnt # ys) 0"
    and mo: "mounts_ok (live_objects s) (objs s) own (xs @ mnt # ys)" using inv by (simp_all add: fs_inv_def)
  note ap = fs_inv_apart [OF inv]
  have prev: "?prev \<noteq> 0 \<Longrightarrow> ?prev \<in> set (xs @ ys)" by (auto split: if_splits)
  have b: "?b x = objs s x \<or> x = ?prev \<and> (\<exists>q v. objs s x = Some (Mount q) \<and> ?b x = Some (Mount (q\<lparr>mp_next := v\<rparr>)))" for x
  proof (cases "?prev \<noteq> 0 \<and> x = ?prev")
    case True
    then obtain q where "objs s x = Some (Mount q)" using mount_okD(1) ap(3) prev by metis
    then have "?b x = Some (Mount (q\<lparr>mp_next := mp_next mp\<rparr>))" using True by (simp add: bypass_def)
    then show ?thesis using True \<open>objs s x = Some (Mount q)\<close> by blast
  qed (auto simp: bypass_def)
  have hx: "h x = ?b x" if "x \<notin> fst ` own mnt" for x using that by (simp add: h_def without_def)
  have ok: "mount_ok h (own x) x \<and> path_of h x = path_of (objs s) x \<and> fs_of h x = fs_of (objs s) x" if x: "x \<in> set (xs @ ys)" for x
  proof (rule mount_ok_relink [OF ap(3) [OF x]])
    fix y
    assume y: "y \<in> fst ` own x"
    then have e: "h y = ?b y" using ap(2) [OF x] by (intro hx) blast
    show "h y = objs s y \<or> y = x \<and> (\<exists>mp v. objs s x = Some (Mount mp) \<and> h x = Some (Mount (mp\<lparr>mp_next := v\<rparr>)))"
    proof (cases "h y = objs s y")
      case False
      then have p: "y = ?prev" "\<exists>q v. objs s y = Some (Mount q) \<and> h y = Some (Mount (q\<lparr>mp_next := v\<rparr>))" using b [of y] e by auto
      then have "?prev \<noteq> 0" using False e by (auto simp: bypass_def)
      then have "?prev \<in> set (xs @ ys)" by (rule prev)
      moreover have "y \<in> fst ` own y" using ap(6) calculation p(1) by metis
      ultimately have "y = x"
        using mo x y p(1) unfolding mounts_ok_def by (metis IntI Un_iff emptyE list.set_intros(2) set_append)
      then show ?thesis using p(2) by blast
    qed simp
  qed
  then show "\<And>x. x \<in> set (xs @ ys) \<Longrightarrow> fs_of h x = fs_of (objs s) x" "\<And>x. x \<in> set (xs @ ys) \<Longrightarrow> path_of h x = path_of (objs s) x" by blast+
  have "chain mp_next (get_mount ?b) (if xs = [] then mp_next mp else mount_points (fs_mgr s)) (xs @ ys) 0"
    by (rule bypass_chain [OF ch mp])
  then show "chain mp_next (get_mount h) (if xs = [] then mp_next mp else mount_points (fs_mgr s)) (xs @ ys) 0"
    by (rule chain_cong [rotated]) (use hx ap(5) in \<open>simp add: get_mount_def\<close>)
  have "dom h \<subseteq> dom (objs s) - fst ` own mnt"
  proof
    fix x
    assume "x \<in> dom h"
    then have x: "x \<notin> fst ` own mnt" "?b x \<noteq> None" unfolding h_def without_def by (simp_all add: dom_def restrict_map_def del: image_iff split: if_splits)
    from b [of x] x(2) have "objs s x \<noteq> None" by (elim disjE conjE exE) simp_all
    then show "x \<in> dom (objs s) - fst ` own mnt" using x(1) by blast
  qed
  also have "\<dots> \<subseteq> fst ` live_objects s - fst ` own mnt" using mo unfolding mounts_ok_def by (intro Diff_mono) simp_all
  also have "\<dots> \<subseteq> fst ` (live_objects s - own mnt)" by (rule image_diff_subset)
  finally have "dom h \<subseteq> fst ` (live_objects s - own mnt)" .
  moreover have "distinct (map (path_of h) (xs @ ys))"
  proof -
    have "map (path_of h) (xs @ ys) = map (path_of (objs s)) (xs @ ys)" using ok by (intro map_cong) simp_all
    then show ?thesis using mo unfolding mounts_ok_def by (simp only:) auto
  qed
  moreover have "own x \<subseteq> live_objects s - own mnt" if "x \<in> set (xs @ ys)" for x using ap(2,4) [OF that] by blast
  moreover have "\<forall>a\<in>set (xs @ ys). \<forall>b\<in>set (xs @ ys). a \<noteq> b \<longrightarrow> fst ` own a \<inter> fst ` own b = {}" using mo unfolding mounts_ok_def by simp
  ultimately show "mounts_ok (live_objects s - own mnt) h own (xs @ ys)" using ok unfolding mounts_ok_def by blast
qed

text \<open>The part of \<^verbatim>\<open>fs_unmount\<close> after the implementation has let go of the file system.\<close>

definition unmount_rest :: "u64 \<Rightarrow> u64 \<Rightarrow> u64 \<Rightarrow> 'a fs_sys_scheme \<Rightarrow> (int \<times> 'a fs_sys_scheme) option" where
  "unmount_rest prev mnt fs s = do {
     mp \<leftarrow> get_mount (objs s) mnt;
     s \<leftarrow> (if prev \<noteq> 0
          then do { q \<leftarrow> get_mount (objs s) prev; Some (put prev (Mount (q\<lparr>mp_next := mp_next mp\<rparr>)) s) }
          else Some (upd_fsm (\<lambda>m. m\<lparr>mount_points := mp_next mp\<rparr>) s));
     let s = upd_fsm (remove_slot fs) s;
     s \<leftarrow> drop_object fs s;
     s \<leftarrow> drop_object mnt s;
     Some (0, s) }"

lemma unmount_rest_spec:
  assumes mo: "models s L h m r" and mnt: "h mnt = Some (Mount mp)" and prev: "prev \<noteq> 0 \<Longrightarrow> get_mount h prev \<noteq> None"
    and L: "(fs, n) \<in> L" "(mnt, k) \<in> L" and ne: "fs \<noteq> mnt"
  obtains s' where "unmount_rest prev mnt fs s = Some (0, s')"
    "models s' (L - {(fs, n)} - {(mnt, k)}) ((bypass prev mp h)(fs := None, mnt := None))
      (remove_slot fs (if prev = 0 then m\<lparr>mount_points := mp_next mp\<rparr> else m)) r"
proof -
  let ?link = "\<lambda>s. if prev \<noteq> 0 then do { q \<leftarrow> get_mount (objs s) prev; Some (put prev (Mount (q\<lparr>mp_next := mp_next mp\<rparr>)) s) }
    else Some (upd_fsm (\<lambda>m. m\<lparr>mount_points := mp_next mp\<rparr>) s)"
  have "\<exists>s1. ?link s = Some s1 \<and> models s1 L (bypass prev mp h) (if prev = 0 then m\<lparr>mount_points := mp_next mp\<rparr> else m) r"
  proof (cases "prev = 0")
    case True
    then show ?thesis using models_upd_fsm [OF mo, of "\<lambda>m. m\<lparr>mount_points := mp_next mp\<rparr>"] by (simp add: bypass_def)
  next
    case False
    then obtain q where q: "get_mount h prev = Some q" using prev by blast
    then show ?thesis using False models_put [OF mo, of prev "Mount (q\<lparr>mp_next := mp_next mp\<rparr>)"]
      by (simp add: bypass_def models_get(7) [OF mo])
  qed
  then obtain s1 where s1: "?link s = Some s1"
    "models s1 L (bypass prev mp h) (if prev = 0 then m\<lparr>mount_points := mp_next mp\<rparr> else m) r" by blast
  obtain s2 where s2: "drop_object fs (upd_fsm (remove_slot fs) s1) = Some s2"
    "models s2 (L - {(fs, n)}) ((bypass prev mp h)(fs := None)) (remove_slot fs (if prev = 0 then m\<lparr>mount_points := mp_next mp\<rparr> else m)) r"
    by (rule models_drop [OF models_upd_fsm [OF s1(2)] L(1)])
  have "(mnt, k) \<in> L - {(fs, n)}" using L(2) ne by simp
  then obtain s3 where s3: "drop_object mnt s2 = Some s3" "models s3 (L - {(fs, n)} - {(mnt, k)}) ((bypass prev mp h)(fs := None, mnt := None))
    (remove_slot fs (if prev = 0 then m\<lparr>mount_points := mp_next mp\<rparr> else m)) r" by (rule models_drop [OF s2(2)])
  have "get_mount (objs s) mnt = Some mp" using mnt by (simp add: models_get(7) [OF mo])
  then have "unmount_rest prev mnt fs s = Some (0, s3)"
    unfolding unmount_rest_def using s1(1) s2(1) s3(1) by simp
  then show thesis using that s3(2) by blast
qed

text \<open>What unmounting leaves: the objects of all other mounts, linked around the mount.\<close>

lemma without_eq:
  assumes "fs \<noteq> mnt" "fs \<notin> fst ` B" and prev: "xs \<noteq> [] \<Longrightarrow> last xs \<notin> fst ` insert (mnt, k) (insert (fs, n) B)" "xs \<noteq> [] \<Longrightarrow> last xs \<noteq> 0"
  shows "(bypass (if xs = [] then 0 else last xs) mp ((h |` (- fst ` B))(fs \<mapsto> F)))(fs := None, mnt := None) =
    without xs mnt mp (insert (mnt, k) (insert (fs, n) B)) h"
proof (cases "xs = []")
  case True
  then show ?thesis using assms by (auto simp: without_def bypass_def restrict_map_def fun_eq_iff)
next
  case False
  let ?q = "last xs"
  have q: "?q \<noteq> mnt" "?q \<noteq> fs" "?q \<notin> fst ` B" "?q \<noteq> 0" using prev False by auto
  then have "get_mount ((h |` (- fst ` B))(fs \<mapsto> F)) ?q = get_mount h ?q" by (simp add: get_mount_def)
  then show ?thesis using q False by (auto simp: without_def bypass_def restrict_map_def fun_eq_iff)
qed

definition without_manager :: "u64 list \<Rightarrow> mount_point \<Rightarrow> u64 list \<Rightarrow> fs_object store \<Rightarrow> fs_manager \<Rightarrow> fs_manager" where
  "without_manager xs mp ys h m = m\<lparr>mount_points := if xs = [] then mp_next mp else mount_points m,
     filesystems := rev (map (fs_of h) (xs @ ys)) @ replicate (64 - length (xs @ ys)) 0, mounted_count := of_nat (length (xs @ ys))\<rparr>"

lemma fs_inv_slot:
  assumes inv: "fs_inv own (xs @ mnt # ys) s" and mp: "get_mount (objs s) mnt = Some mp"
  shows "remove_slot (mp_fs mp) (if (if xs = [] then 0 else last xs) = 0 then (fs_mgr s)\<lparr>mount_points := mp_next mp\<rparr> else fs_mgr s) =
    without_manager xs mp ys (objs s) (fs_mgr s)"
proof -
  let ?h = "objs s" and ?m1 = "if xs = [] then (fs_mgr s)\<lparr>mount_points := mp_next mp\<rparr> else fs_mgr s"
  note ap = fs_inv_apart [OF inv]
  have fm: "fs_of ?h mnt = mp_fs mp" using mp by (simp add: fs_of_def)
  have "mount_ok ?h (own mnt) mnt" using inv by (simp add: fs_inv_def mounts_ok_def)
  note m3 = mount_okD(3) [OF this]
  have new: "fs_of ?h mnt \<notin> fs_of ?h ` set ys"
  proof
    assume "fs_of ?h mnt \<in> fs_of ?h ` set ys"
    then obtain y where y: "y \<in> set (xs @ ys)" "fs_of ?h mnt = fs_of ?h y" by auto
    then show False using ap(2) [OF y(1)] mount_okD(3) [OF ap(3) [OF y(1)]] m3 by auto
  qed
  have "table_ok ?h (xs @ mnt # ys) ?m1" using inv by (simp add: table_ok_def fs_inv_def)
  from remove_slot_spec [OF this new] have eq: "remove_slot (mp_fs mp) ?m1 = without_manager xs mp ys ?h (fs_mgr s)"
    unfolding fm by (simp add: without_manager_def)
  have "last xs \<noteq> 0" if "xs \<noteq> []" using fs_inv_paths(2) [OF inv] last_in_set [OF that] by auto
  then have "(if (if xs = [] then 0 else last xs) = 0 then (fs_mgr s)\<lparr>mount_points := mp_next mp\<rparr> else fs_mgr s) = ?m1" by simp
  then show ?thesis using eq by (simp only:)
qed

lemma fs_inv_without:
  assumes inv: "fs_inv own (xs @ mnt # ys) s" and mp: "get_mount (objs s) mnt = Some mp"
    and mo: "models s' (live_objects s - own mnt) (without xs mnt mp (own mnt) (objs s)) (without_manager xs mp ys (objs s) (fs_mgr s)) r"
  shows "fs_inv own (xs @ ys) s'"
proof -
  note w = without_inv [OF inv mp]
  have "map (fs_of (without xs mnt mp (own mnt) (objs s))) (xs @ ys) = map (fs_of (objs s)) (xs @ ys)" using w(3) by (intro map_cong) simp_all
  moreover have "table_ok (objs s) (xs @ mnt # ys) (fs_mgr s)" using inv by (simp add: fs_inv_def)
  ultimately have "table_ok (without xs mnt mp (own mnt) (objs s)) (xs @ ys) (without_manager xs mp ys (objs s) (fs_mgr s))"
    by (simp add: table_ok_def without_manager_def)
  moreover have "mount_points (without_manager xs mp ys (objs s) (fs_mgr s)) = (if xs = [] then mp_next mp else mount_points (fs_mgr s))"
    by (simp add: without_manager_def)
  ultimately show ?thesis using w(1,2) mo unfolding fs_inv_def models_def by simp
qed

lemma first_of_skip: "\<forall>x\<in>set xs. \<not> P x \<Longrightarrow> first_of P (xs @ ys) = first_of P ys"
  by (induction xs) simp_all

lemma fs_inv_find:
  assumes inv: "fs_inv own (xs @ mnt # ys) s"
  shows "find_mount (path_of (objs s) mnt) 0 (mount_points (fs_mgr s)) s = Some (if xs = [] then 0 else last xs, mnt)"
proof -
  have mok: "mounts_ok (live_objects s) (objs s) own (xs @ mnt # ys)"
    and ch: "chain mp_next (get_mount (objs s)) (mount_points (fs_mgr s)) (xs @ mnt # ys) 0" using inv by (simp_all add: fs_inv_def)
  have dp: "path_of (objs s) x \<noteq> path_of (objs s) mnt" if "x \<in> set xs" for x
    using mok imageI [OF that, of "path_of (objs s)"] unfolding mounts_ok_def by (intro notI) simp
  then have tw: "takeWhile (\<lambda>x. path_of (objs s) x \<noteq> path_of (objs s) mnt) (xs @ mnt # ys) = xs"
    and fo: "first_of (\<lambda>x. path_of (objs s) x = path_of (objs s) mnt) (xs @ mnt # ys) = mnt" by (simp_all add: first_of_skip)
  show ?thesis using find_mount_spec [OF ch fs_inv_paths(1) [OF inv], of "path_of (objs s) mnt" 0] unfolding Let_def tw fo .
qed

lemma fs_unmount_spec:
  assumes inv: "fs_inv own (xs @ mnt # ys) s" and e: "flush_ok e" and mp: "get_mount (objs s) mnt = Some mp"
  obtains s' where "fs_unmount e (Some (path_of (objs s) mnt)) s = Some (0, s')" "fs_inv own (xs @ ys) s'"
    "models s' (live_objects s - own mnt) (without xs mnt mp (own mnt) (objs s))
      (without_manager xs mp ys (objs s) (fs_mgr s))
      (registered_fs s)"
proof -
  let ?L = "live_objects s" and ?h = "objs s" and ?m = "fs_mgr s" and ?r = "registered_fs s" and ?prev = "if xs = [] then 0 else last xs"
  have mo: "models s ?L ?h ?m ?r" and mok: "mounts_ok ?L ?h own (xs @ mnt # ys)" and start: "fs_initialized ?m"
    and tab: "table_ok ?h (xs @ mnt # ys) ?m" and ch: "chain mp_next (get_mount ?h) (mount_points ?m) (xs @ mnt # ys) 0"
    using inv by (simp_all add: models_def fs_inv_def table_ok_def)
  note ap = fs_inv_apart [OF inv]
  obtain path f op B k n where a: "mp_path mp = Some path" "?h (mp_fs mp) = Some (Filesystem f)"
    "fs_opers f = Some op" "fs_refs f = 1" "ops_owns op ?h (fs_private f) B" "own mnt = insert (mnt, k) (insert (mp_fs mp, n) B)"
    "mnt \<notin> fst ` B" "mp_fs mp \<notin> fst ` B" "mp_fs mp \<noteq> 0" "?h mnt = Some (Mount mp)" and sub: "own mnt \<subseteq> ?L"
    using mok mp unfolding mounts_ok_def mount_ok_def by auto
  have ne: "mp_fs mp \<noteq> mnt" using a(2,10) by auto
  have pm: "path_of ?h mnt = path" using mp a(1) by (simp add: path_of_def)
  have fm: "fs_of ?h mnt = mp_fs mp" using mp by (simp add: fs_of_def)
  note find = fs_inv_find [OF inv]
  have m0: "mnt \<noteq> 0" using fs_inv_paths(2) [OF inv] by auto
  have BL: "B \<subseteq> ?L" using sub a(6) by blast
  obtain s1 where s1: "ops_unmount op e (mp_fs mp) s = Some (0, s1)" "models s1 (?L - B)
    ((?h |` (- fst ` B))(mp_fs mp \<mapsto> Filesystem (f\<lparr>fs_private := 0, fs_state := FS_STATUS_UNMOUNTED\<rparr>))) ?m ?r"
    using impl.unmount_law [OF e mo a(2,9,8) BL a(5)] by blast
  let ?h1 = "(?h |` (- fst ` B))(mp_fs mp \<mapsto> Filesystem (f\<lparr>fs_private := 0, fs_state := FS_STATUS_UNMOUNTED\<rparr>))"
  have q: "last xs \<notin> fst ` own mnt" "last xs \<noteq> 0" "\<exists>q. ?h (last xs) = Some (Mount q)" if "xs \<noteq> []"
  proof -
    have l: "last xs \<in> set xs" "last xs \<in> set (xs @ ys)" using that by simp_all
    show "last xs \<notin> fst ` own mnt" by (rule ap(5) [OF l(2)])
    show "last xs \<noteq> 0" using l(1) fs_inv_paths(2) [OF inv] by auto
    show "\<exists>q. ?h (last xs) = Some (Mount q)" using mount_okD(1) [OF ap(3) [OF l(2)]] by blast
  qed
  have h1: "?h1 mnt = Some (Mount mp)" using a(7,10) ne by simp
  have pr: "get_mount ?h1 ?prev \<noteq> None" if "?prev \<noteq> 0"
  proof -
    have "xs \<noteq> []" using that by auto
    then show ?thesis using q a(6) by (auto simp: get_mount_def)
  qed
  have L1: "(mp_fs mp, n) \<in> ?L - B" "(mnt, k) \<in> ?L - B" using sub a(6,7,8) by (auto simp: image_iff)
  obtain s' where s': "unmount_rest ?prev mnt (mp_fs mp) s1 = Some (0, s')"
    "models s' (?L - B - {(mp_fs mp, n)} - {(mnt, k)}) ((bypass ?prev mp ?h1)(mp_fs mp := None, mnt := None))
      (remove_slot (mp_fs mp) (if ?prev = 0 then ?m\<lparr>mount_points := mp_next mp\<rparr> else ?m)) ?r"
    by (rule unmount_rest_spec [OF s1(2) h1 pr L1 ne])
  have L': "?L - B - {(mp_fs mp, n)} - {(mnt, k)} = ?L - own mnt" unfolding a(6) by blast
  have h': "(bypass ?prev mp ?h1)(mp_fs mp := None, mnt := None) = without xs mnt mp (own mnt) ?h"
    unfolding a(6) by (rule without_eq [OF ne a(8)]) (use q a(6) in simp_all)
  note m' = fs_inv_slot [OF inv mp]
  note fin = s'(2) [unfolded L' h' m']
  have "fs_unmount e (Some (path_of ?h mnt)) s = unmount_rest ?prev mnt (mp_fs mp) s1"
    using start find m0 mp a(2-4) s1(1) by (simp add: fs_unmount_def unmount_rest_def models_get(1) [OF mo] Let_def)
  then have run: "fs_unmount e (Some (path_of ?h mnt)) s = Some (0, s')" using s'(1) by simp
  show thesis by (rule that [OF run fs_inv_without [OF inv mp fin] fin])
qed

text \<open>A mount that is taken back.\<close>

lemma chain_start: "chain nxt get a ps z \<Longrightarrow> a = (if ps = [] then z else hd ps)"
  by (cases ps) auto

lemma without_undo:
  assumes eq: "\<And>x. x \<notin> fst ` A \<Longrightarrow> h' x = h x" and d: "dom h \<subseteq> fst ` L" and A: "fst ` A \<inter> fst ` L = {}"
  shows "without [] mnt mp A h' = h"
proof
  fix x
  show "without [] mnt mp A h' x = h x"
  proof (cases "x \<in> fst ` A")
    case True
    then have "x \<notin> dom h" using d A by blast
    then show ?thesis using True by (simp add: without_def bypass_def domIff)
  next
    case False
    then show ?thesis using eq [OF False] by (simp add: without_def bypass_def)
  qed
qed

lemma without_manager_undo:
  assumes inv: "fs_inv own ms s" and inv': "fs_inv own' (mnt # ms) s'" and mp: "get_mount (objs s') mnt = Some mp"
    and m: "fs_mgr s' = (fs_mgr s)\<lparr>mount_points := mnt, filesystems := u, mounted_count := v\<rparr>"
    and eq: "\<And>x. x \<in> set ms \<Longrightarrow> fs_of (objs s') x = fs_of (objs s) x"
  shows "without_manager [] mp ms (objs s') (fs_mgr s') = fs_mgr s"
proof -
  have c: "chain mp_next (get_mount (objs s)) (mount_points (fs_mgr s)) ms 0" "chain mp_next (get_mount (objs s')) mnt (mnt # ms) 0"
    and t: "table_ok (objs s) ms (fs_mgr s)" using inv inv' m by (simp_all add: fs_inv_def)
  have "chain mp_next (get_mount (objs s')) (mp_next mp) ms 0" using c(2) mp by simp
  then have n: "mp_next mp = mount_points (fs_mgr s)" using chain_start [OF c(1)] chain_start by metis
  have "map (fs_of (objs s')) ms = map (fs_of (objs s)) ms" using eq by simp
  then have "filesystems (fs_mgr s) = rev (map (fs_of (objs s')) ms) @ replicate (64 - length ms) 0" "mounted_count (fs_mgr s) = of_nat (length ms)"
    using t unfolding table_ok_def by simp_all
  then show ?thesis using n by (simp add: without_manager_def m)
qed

lemma mount_unmount:
  assumes inv: "fs_inv own ms s" and e: "flush_ok e" and o: "fs_inv (own(mnt := A)) (mnt # ms) s1" "path_of (objs s1) mnt = path"
    "fst ` A \<inter> fst ` live_objects s = {}" "\<forall>x. x \<notin> fst ` A \<longrightarrow> objs s1 x = objs s x"
    "models s1 (live_objects s \<union> A) (objs s1) ((fs_mgr s)\<lparr>mount_points := mnt, filesystems := u, mounted_count := v\<rparr>) (registered_fs s)"
  obtains s2 where "fs_unmount e (Some path) s1 = Some (0, s2)" "models s2 (live_objects s) (objs s) (fs_mgr s) (registered_fs s)"
proof -
  have mok: "mounts_ok (live_objects s) (objs s) own ms" using inv by (simp add: fs_inv_def)
  have "mount_ok (objs s1) A mnt" using o(1) by (simp add: fs_inv_def mounts_ok_def)
  from mount_okD(1) [OF this] obtain mp where mp: "get_mount (objs s1) mnt = Some mp" by auto
  have i: "fs_inv (own(mnt := A)) ([] @ mnt # ms) s1" using o(1) by simp
  obtain s2 where s2: "fs_unmount e (Some (path_of (objs s1) mnt)) s1 = Some (0, s2)"
    "models s2 (live_objects s1 - (own(mnt := A)) mnt) (without [] mnt mp ((own(mnt := A)) mnt) (objs s1))
      (without_manager [] mp ms (objs s1) (fs_mgr s1)) (registered_fs s1)" by (rule fs_unmount_spec [OF i e mp])
  have "dom (objs s) \<subseteq> fst ` live_objects s" using mok by (simp add: mounts_ok_def)
  from without_undo [OF _ this o(3)] have h: "without [] mnt mp A (objs s1) = objs s" using o(4) by blast
  have "fs_of (objs s1) x = fs_of (objs s) x" if x: "x \<in> set ms" for x
  proof (rule mount_ok_cong(3))
    show "mount_ok (objs s) (own x) x" using mok x by (simp add: mounts_ok_def)
    have "own x \<subseteq> live_objects s" using mok x by (simp add: mounts_ok_def)
    then show "objs s1 y = objs s y" if "y \<in> fst ` own x" for y using o(3,4) that by blast
  qed
  from without_manager_undo [OF inv o(1) mp models_get(8) [OF o(5)] this]
  have m: "without_manager [] mp ms (objs s1) (fs_mgr s1) = fs_mgr s" .
  have "live_objects s1 = live_objects s \<union> A" using o(5) by (simp add: models_def)
  then have L: "live_objects s1 - A = live_objects s" using o(3) by auto
  show thesis by (rule that) (use s2 o(2) h m L models_get(9) [OF o(5)] in simp_all)
qed

lemma fs_inv_models: "fs_inv own ms s \<Longrightarrow> models s' (live_objects s) (objs s) (fs_mgr s) r \<Longrightarrow> fs_inv own ms s'"
  by (simp add: fs_inv_def models_def)

section \<open>Start and shutdown\<close>

lemma unmount_all_spec:
  assumes "fs_inv own ms s" and e: "flush_ok e"
  shows "\<exists>s'. unmount_all e (mount_points (fs_mgr s)) s = Some s' \<and> fs_inv own [] s' \<and>
    live_objects s' = live_objects s - \<Union> (own ` set ms) \<and> objs s' = objs s |` (- fst ` \<Union> (own ` set ms)) \<and>
    global_cache (fs_mgr s') = global_cache (fs_mgr s) \<and> global_journal (fs_mgr s') = global_journal (fs_mgr s) \<and> registered_fs s' = registered_fs s"
  using assms(1)
proof (induction ms arbitrary: s)
  case Nil
  then have "mount_points (fs_mgr s) = 0" by (simp add: fs_inv_def)
  then show ?case using Nil by (simp add: unmount_all.simps [of e 0])
next
  case (Cons mnt ms)
  then have i: "fs_inv own ([] @ mnt # ms) s" by simp
  have "mount_ok (objs s) (own mnt) mnt" using Cons.prems by (simp add: fs_inv_def mounts_ok_def)
  from mount_okD(1) [OF this] obtain mp where mp: "get_mount (objs s) mnt = Some mp" "mp_path mp = Some (path_of (objs s) mnt)" by auto
  have a: "mount_points (fs_mgr s) = mnt" "mnt \<noteq> 0" using Cons.prems by (simp_all add: fs_inv_def)
  obtain s1 where s1: "fs_unmount e (Some (path_of (objs s) mnt)) s = Some (0, s1)" "fs_inv own ([] @ ms) s1"
    "models s1 (live_objects s - own mnt) (without [] mnt mp (own mnt) (objs s)) (without_manager [] mp ms (objs s) (fs_mgr s)) (registered_fs s)"
    by (rule fs_unmount_spec [OF i e mp(1)])
  have m1: "mount_points (fs_mgr s1) = mp_next mp" "global_cache (fs_mgr s1) = global_cache (fs_mgr s)"
    "global_journal (fs_mgr s1) = global_journal (fs_mgr s)" by (simp_all add: models_get(8) [OF s1(3)] without_manager_def)
  have o1: "objs s1 = objs s |` (- fst ` own mnt)" "live_objects s1 = live_objects s - own mnt" "registered_fs s1 = registered_fs s"
    using s1(3) by (simp_all add: models_def without_def bypass_def)
  have "unmount_all e (mount_points (fs_mgr s)) s = unmount_all e (mount_points (fs_mgr s1)) s1"
    using a mp s1(1) by (subst unmount_all.simps) (simp add: m1)
  moreover have "live_objects s - own mnt - \<Union> (own ` set ms) = live_objects s - \<Union> (own ` set (mnt # ms))" by auto
  moreover have "- fst ` own mnt \<inter> - fst ` \<Union> (own ` set ms) = - fst ` \<Union> (own ` set (mnt # ms))" by auto
  ultimately show ?case using Cons.IH [of s1] s1(2) m1 o1 by (simp only: append_Nil restrict_restrict)
qed

text \<open>The cache and the journal of the manager, which belong to no mount.\<close>

definition fs_globals :: "(u64 \<times> nat) set \<Rightarrow> 'a fs_sys_scheme \<Rightarrow> bool" where
  "fs_globals G s \<longleftrightarrow> (\<exists>n l k j. G = {(global_cache (fs_mgr s), n), (global_journal (fs_mgr s), l)} \<and> 48 \<le> n \<and> 48 \<le> l \<and>
     global_cache (fs_mgr s) \<noteq> global_journal (fs_mgr s) \<and> global_cache (fs_mgr s) \<noteq> 0 \<and> global_journal (fs_mgr s) \<noteq> 0 \<and>
     objs s (global_cache (fs_mgr s)) = Some (Cache k) \<and> c_entries k = 0 \<and> objs s (global_journal (fs_mgr s)) = Some (Journal j) \<and> j_cache j = 0)"

lemma fs_globals_cong:
  assumes G: "fs_globals G s" and eq: "\<And>x. x \<in> fst ` G \<Longrightarrow> objs s' x = objs s x"
    and m: "global_cache (fs_mgr s') = global_cache (fs_mgr s)" "global_journal (fs_mgr s') = global_journal (fs_mgr s)"
  shows "fs_globals G s'"
proof -
  let ?c = "global_cache (fs_mgr s)" and ?j = "global_journal (fs_mgr s)"
  obtain n l k j where g: "G = {(?c, n), (?j, l)}" "48 \<le> n" "48 \<le> l" "?c \<noteq> ?j" "?c \<noteq> 0" "?j \<noteq> 0" "objs s ?c = Some (Cache k)" "c_entries k = 0"
    "objs s ?j = Some (Journal j)" "j_cache j = 0" using G(1) unfolding fs_globals_def by blast
  have "objs s' ?c = Some (Cache k)" "objs s' ?j = Some (Journal j)" using eq [of ?c] eq [of ?j] g(1,7,9) by simp_all
  then show ?thesis unfolding fs_globals_def m using g by blast
qed

lemma models_journal_destroy:
  assumes mo: "models s L h m r" and c: "(c, n) \<in> L" "48 \<le> n" "h c = Some (Journal k)" "j_cache k = 0" "c \<noteq> 0"
  obtains s' where "fs_journal_destroy c s = Some s'" "models s' L (h(c \<mapsto> Journal zero_journal)) m r"
proof -
  have get: "get_journal c s = Some k" using c(3) by (simp add: get_journal_def models_get(7) [OF mo])
  define s1 where "s1 = (if j_enabled k then put c (Journal (k\<lparr>j_sequence := j_sequence k + 1\<rparr>)) s else s)"
  define h1 where "h1 = (if j_enabled k then h(c \<mapsto> Journal (k\<lparr>j_sequence := j_sequence k + 1\<rparr>)) else h)"
  have m1: "models s1 L h1 m r" "h1(c \<mapsto> Journal zero_journal) = h(c \<mapsto> Journal zero_journal)"
    using mo models_put [OF mo, of c "Journal (k\<lparr>j_sequence := j_sequence k + 1\<rparr>)"] by (simp_all add: s1_def h1_def)
  have "models (clear c sizeof_journal s1) L h1 m r" by (rule models_clear [OF m1(1) c(1)]) (use c(2) in \<open>simp add: fs_sizes\<close>)
  from models_put [OF this, of c "Journal zero_journal"]
  have "models (put c (Journal zero_journal) (clear c sizeof_journal s1)) L (h(c \<mapsto> Journal zero_journal)) m r" by (simp add: m1(2))
  moreover have "fs_journal_destroy c s = Some (put c (Journal zero_journal) (clear c sizeof_journal s1))"
    using c(4,5) get by (simp add: fs_journal_destroy_def fs_journal_commit_def s1_def)
  ultimately show thesis using that by blast
qed

lemma fs_shutdown_spec:
  assumes inv: "fs_inv own ms s" and e: "flush_ok e" and G: "fs_globals G s" "G \<subseteq> live_objects s" "fst ` G \<inter> fst ` \<Union> (own ` set ms) = {}"
  shows "\<exists>s'. fs_shutdown e s = Some s' \<and> heap_inv s' \<and> live_objects s' = live_objects s - \<Union> (own ` set ms) - G \<and>
    objs s' = objs s |` (- fst ` (\<Union> (own ` set ms) \<union> G)) \<and> \<not> fs_initialized (fs_mgr s')"
proof -
  let ?U = "\<Union> (own ` set ms)" and ?c = "global_cache (fs_mgr s)" and ?j = "global_journal (fs_mgr s)"
  obtain n l k j where g: "G = {(?c, n), (?j, l)}" "48 \<le> n" "48 \<le> l" "?c \<noteq> ?j" "?c \<noteq> 0" "?j \<noteq> 0" "objs s ?c = Some (Cache k)" "c_entries k = 0"
    "objs s ?j = Some (Journal j)" "j_cache j = 0" using G(1) unfolding fs_globals_def by blast
  obtain s1 where s1: "unmount_all e (mount_points (fs_mgr s)) s = Some s1" "fs_inv own [] s1" "live_objects s1 = live_objects s - ?U"
    "objs s1 = objs s |` (- fst ` ?U)" "global_cache (fs_mgr s1) = ?c" "global_journal (fs_mgr s1) = ?j"
    using unmount_all_spec [OF inv e] by blast
  have m1: "models s1 (live_objects s - ?U) (objs s |` (- fst ` ?U)) (fs_mgr s1) (registered_fs s1)"
    using s1(2-4) by (simp add: models_def fs_inv_def)
  have nU: "?c \<notin> fst ` ?U" "?j \<notin> fst ` ?U" using G(3) g(1) by auto
  then have L: "(?c, n) \<in> live_objects s - ?U" "(?j, l) \<in> live_objects s - ?U" using G(2) g(1) by force+
  have hj: "(objs s |` (- fst ` ?U)) ?j = Some (Journal j)" using nU g(9) by (simp del: UN_iff)
  obtain s2 where s2: "fs_journal_destroy ?j s1 = Some s2"
    "models s2 (live_objects s - ?U) ((objs s |` (- fst ` ?U))(?j \<mapsto> Journal zero_journal)) (fs_mgr s1) (registered_fs s1)"
    by (rule models_journal_destroy [OF m1 L(2) g(3) hj g(10,6)])
  obtain s3 where s3: "drop_object ?j s2 = Some s3"
    "models s3 (live_objects s - ?U - {(?j, l)}) ((objs s |` (- fst ` ?U))(?j \<mapsto> Journal zero_journal, ?j := None)) (fs_mgr s1) (registered_fs s1)"
    by (rule models_drop [OF s2(2) L(2)])
  let ?h3 = "(objs s |` (- fst ` ?U))(?j := None)"
  have m3: "models s3 (live_objects s - ?U - {(?j, l)}) ?h3 (fs_mgr s1) (registered_fs s1)" using s3(2) by simp
  have hc: "?h3 ?c = Some (Cache k)" using nU g(4,7) by (simp del: UN_iff)
  have Lc: "(?c, n) \<in> live_objects s - ?U - {(?j, l)}" using L(1) g(4) by simp
  obtain s4 where s4: "fs_cache_destroy ?c s3 = Some s4"
    "models s4 (live_objects s - ?U - {(?j, l)}) (?h3(?c \<mapsto> Cache zero_cache)) (fs_mgr s1) (registered_fs s1)"
    by (rule models_cache_destroy [OF m3 Lc g(2) hc g(8)])
  obtain s5 where s5: "drop_object ?c s4 = Some s5"
    "models s5 (live_objects s - ?U - {(?j, l)} - {(?c, n)}) (?h3(?c \<mapsto> Cache zero_cache, ?c := None)) (fs_mgr s1) (registered_fs s1)"
    by (rule models_drop [OF s4(2) Lc])
  let ?s6 = "upd_fsm (\<lambda>m. m\<lparr>fs_initialized := False\<rparr>) s5"
  have "fs_initialized (fs_mgr s)" using inv by (simp add: fs_inv_def table_ok_def)
  then have run: "fs_shutdown e s = Some ?s6"
    using s1(1,5,6) s2(1) s3(1) s4(1) s5(1) g(5,6) models_get(8) [OF m3]
    by (simp add: fs_shutdown_def Let_def fgfs_shutdown_def fat32_shutdown_def ext4_shutdown_def)
  have m6: "models ?s6 (live_objects s - ?U - {(?j, l)} - {(?c, n)}) (?h3(?c := None)) ((fs_mgr s1)\<lparr>fs_initialized := False\<rparr>) (registered_fs s1)"
    using models_upd_fsm [OF s5(2), of "\<lambda>m. m\<lparr>fs_initialized := False\<rparr>"] by simp
  have "live_objects s - ?U - {(?j, l)} - {(?c, n)} = live_objects s - ?U - G" using g(1) by auto
  moreover have "?h3(?c := None) = objs s |` (- fst ` (?U \<union> G))" by (auto simp: g(1) fun_eq_iff restrict_map_def)
  ultimately show ?thesis using run m6 by (simp add: models_def)
qed

lemma zero_manager_simps [simp]:
  "\<not> fs_initialized zero_manager" "mount_points zero_manager = 0" "mounted_count zero_manager = 0" "filesystems zero_manager = replicate 64 0"
  by (simp_all add: zero_manager_def MAX_MOUNTED_FILESYSTEMS_def)

text \<open>How starting the manager can go: everything is as before, or the manager owns a cache and a journal.\<close>

definition init_outcome :: "'a fs_sys_scheme \<Rightarrow> (int \<times> 'a fs_sys_scheme) option \<Rightarrow> bool" where
  "init_outcome s res \<longleftrightarrow>
    (\<exists>s' m. res = Some (-1, s') \<and> models s' (live_objects s) (objs s) m (registered_fs s) \<and> \<not> fs_initialized m) \<or>
    (\<exists>s' G. res = Some (0, s') \<and> fs_inv (\<lambda>_. {}) [] s' \<and> fs_globals G s' \<and> fst ` G \<inter> fst ` live_objects s = {} \<and>
       live_objects s' = live_objects s \<union> G \<and> objs s' |` (- fst ` G) = objs s \<and>
       registered_fs s' = (registered_fs s)(FS_TYPE_FGFS \<mapsto> fgfs_ops, FS_TYPE_FAT32 \<mapsto> fat32_ops, FS_TYPE_EXT4 \<mapsto> ext4_ops))"

lemma init_done:
  assumes mo: "models s1 (insert (j, l) (insert (c, n) (live_objects s))) ((objs s)(c \<mapsto> Cache k, j \<mapsto> Journal jn))
      (zero_manager\<lparr>global_cache := c, global_journal := j, next_fd := 3, mounted_count := 0, mount_points := 0, fs_initialized := True\<rparr>)
      ((registered_fs s)(FS_TYPE_FGFS \<mapsto> fgfs_ops, FS_TYPE_FAT32 \<mapsto> fat32_ops, FS_TYPE_EXT4 \<mapsto> ext4_ops))"
    and d: "dom (objs s) \<subseteq> fst ` live_objects s" and c: "c \<noteq> 0" "48 \<le> n" "c \<notin> fst ` live_objects s" "c_entries k = 0"
    and j: "j \<noteq> 0" "48 \<le> l" "j \<notin> fst ` insert (c, n) (live_objects s)" "j_cache jn = 0"
  shows "init_outcome s (Some (0, s1))"
proof -
  let ?G = "{(c, n), (j, l)}"
  have jc: "j \<noteq> c" "j \<notin> fst ` live_objects s" using j(3) by auto
  have none: "objs s c = None" "objs s j = None" using d c(3) jc(2) by (auto simp: domIff)
  have "fs_globals ?G s1"
    unfolding fs_globals_def using c j jc models_get(7,8) [OF mo]
    by (intro exI [of _ n] exI [of _ l] exI [of _ k] exI [of _ jn]) (simp add: insert_commute)
  moreover have "fs_inv (\<lambda>_. {}) [] s1"
    using mo d unfolding fs_inv_def mounts_ok_def table_ok_def models_def by (simp add: subset_insertI2)
  moreover have "objs s1 |` (- fst ` ?G) = objs s"
    using none by (simp add: models_get(7) [OF mo] fun_eq_iff restrict_map_def)
  moreover have "live_objects s1 = live_objects s \<union> ?G" using mo by (auto simp: models_def)
  moreover have "fst ` ?G \<inter> fst ` live_objects s = {}" using c(3) jc(2) by simp
  ultimately show ?thesis using models_get(9) [OF mo] unfolding init_outcome_def by blast
qed

lemma models_register:
  assumes "models s L h m r" and "type \<noteq> FS_TYPE_OTHER"
  shows "fst (fs_register_filesystem type (Some op) s) = 0 \<and> models (snd (fs_register_filesystem type (Some op) s)) L h m (r(type \<mapsto> op))"
  using assms heap_view_cong(1,2) [of "s\<lparr>registered_fs := (registered_fs s)(type \<mapsto> op)\<rparr>" s]
  by (simp add: fs_register_filesystem_def models_def)

lemma models_registers:
  assumes "models s L h m r"
  shows "models (snd (ext4_init (snd (fat32_init (snd (fgfs_init s)))))) L h m (r(FS_TYPE_FGFS \<mapsto> fgfs_ops, FS_TYPE_FAT32 \<mapsto> fat32_ops, FS_TYPE_EXT4 \<mapsto> ext4_ops))"
  unfolding fgfs_init_def fat32_init_def ext4_init_def
  by (intro models_register [THEN conjunct2] assms) simp_all

text \<open>The part of \<^verbatim>\<open>fs_init\<close> after the cache is set up.\<close>

definition init_rest :: "u64 \<Rightarrow> 'a fs_sys_scheme \<Rightarrow> (int \<times> 'a fs_sys_scheme) option" where
  "init_rest cache s = do {
     (jrn, s) \<leftarrow> kmalloc sizeof_journal s;
     let s = upd_fsm (\<lambda>m. m\<lparr>global_journal := jrn\<rparr>) s;
     if jrn = 0 then do { s \<leftarrow> fs_cache_destroy cache s; s \<leftarrow> drop_object cache s; Some (-1, s) }
     else do {
       let (r, s) = fs_journal_init jrn 1000 100 s;
       let s = upd_fsm (\<lambda>m. m\<lparr>next_fd := 3, mounted_count := 0, mount_points := 0\<rparr>) s;
       Some (0, upd_fsm (\<lambda>m. m\<lparr>fs_initialized := True\<rparr>) (snd (ext4_init (snd (fat32_init (snd (fgfs_init s))))))) } }"

lemma init_rest_spec:
  assumes mo: "models s2 (insert (c, n) (live_objects s)) ((objs s)(c \<mapsto> Cache k)) (zero_manager\<lparr>global_cache := c\<rparr>) (registered_fs s)"
    and d: "dom (objs s) \<subseteq> fst ` live_objects s" and c: "c \<noteq> 0" "48 \<le> n" "c \<notin> fst ` live_objects s" "c_entries k = 0"
  shows "init_outcome s (init_rest c s2)"
proof -
  let ?L = "live_objects s" and ?h = "objs s" and ?r = "registered_fs s"
  let ?jn = "zero_journal\<lparr>j_start_block := 1000, j_size := 100, j_sequence := 1, j_block_size := DEFAULT_BLOCK_SIZE, j_enabled := True\<rparr>"
  have none: "?h c = None" using d c(3) by (auto simp: domIff)
  have d2: "dom (?h(c \<mapsto> Cache k)) \<subseteq> fst ` insert (c, n) ?L" using d by auto
  show ?thesis
  proof (rule models_alloc [OF mo d2, of sizeof_journal])
    assume k2: "kmalloc sizeof_journal s2 = Some (0, s2)"
    let ?m = "zero_manager\<lparr>global_cache := c, global_journal := 0\<rparr>"
    have m3: "models (upd_fsm (\<lambda>m. m\<lparr>global_journal := 0\<rparr>) s2) (insert (c, n) ?L) (?h(c \<mapsto> Cache k)) ?m ?r"
      using models_upd_fsm [OF mo, of "\<lambda>m. m\<lparr>global_journal := 0\<rparr>"] by simp
    obtain s4 where s4: "fs_cache_destroy c (upd_fsm (\<lambda>m. m\<lparr>global_journal := 0\<rparr>) s2) = Some s4"
      "models s4 (insert (c, n) ?L) (?h(c \<mapsto> Cache k, c \<mapsto> Cache zero_cache)) ?m ?r"
      by (rule models_cache_destroy [OF m3 _ c(2) _ c(4)]) auto
    then have m4: "models s4 (insert (c, n) ?L) (?h(c \<mapsto> Cache zero_cache)) ?m ?r" by simp
    obtain s5 where s5: "drop_object c s4 = Some s5" "models s5 ?L ?h ?m ?r" by (rule models_undo [OF m4 c(3) none])
    have "init_rest c s2 = Some (-1, s5)" using k2 s4(1) s5(1) by (simp add: init_rest_def)
    moreover have "\<not> fs_initialized ?m" by simp
    ultimately show ?thesis using s5(2) unfolding init_outcome_def by blast
  next
    fix j l s3
    assume k2: "kmalloc sizeof_journal s2 = Some (j, s3)" "j \<noteq> 0" "unat sizeof_journal \<le> l" "j \<notin> fst ` insert (c, n) ?L"
      "models s3 (insert (j, l) (insert (c, n) ?L)) (?h(c \<mapsto> Cache k)) (zero_manager\<lparr>global_cache := c\<rparr>) ?r"
    define s4 where "s4 = put j (Journal ?jn) (clear j sizeof_journal (upd_fsm (\<lambda>m. m\<lparr>global_journal := j\<rparr>) s3))"
    have m4: "models s4 (insert (j, l) (insert (c, n) ?L)) (?h(c \<mapsto> Cache k, j \<mapsto> Journal ?jn)) (zero_manager\<lparr>global_cache := c, global_journal := j\<rparr>) ?r"
      unfolding s4_def by (rule models_new [OF models_upd_fsm [OF k2(5)] k2(3)])
    note m5 = models_upd_fsm [OF models_registers [OF models_upd_fsm [OF m4, of "\<lambda>m. m\<lparr>next_fd := 3, mounted_count := 0, mount_points := 0\<rparr>"]],
      of "\<lambda>m. m\<lparr>fs_initialized := True\<rparr>"]
    have l: "48 \<le> l" "j_cache ?jn = 0" using k2(3) by (simp_all add: fs_sizes zero_journal_def)
    have "fs_journal_init j 1000 100 (upd_fsm (\<lambda>m. m\<lparr>global_journal := j\<rparr>) s3) = (0, s4)"
      using k2(2) by (simp add: fs_journal_init_def s4_def)
    then have "init_rest c s2 = Some (0, upd_fsm (\<lambda>m. m\<lparr>fs_initialized := True\<rparr>) (snd (ext4_init (snd (fat32_init (snd (fgfs_init
        (upd_fsm (\<lambda>m. m\<lparr>next_fd := 3, mounted_count := 0, mount_points := 0\<rparr>) s4))))))))"
      using k2(1,2) by (simp add: init_rest_def)
    then show ?thesis using init_done [OF _ d c k2(2) l(1) k2(4) l(2)] m5 by simp
  qed (simp_all add: fs_sizes)
qed

lemma fs_init_spec:
  assumes heap: "heap_inv s" and d: "dom (objs s) \<subseteq> fst ` live_objects s"
  shows "init_outcome s (fs_init s)"
proof -
  let ?L = "live_objects s" and ?h = "objs s" and ?r = "registered_fs s"
  let ?k = "zero_cache\<lparr>c_max_size := 1024, c_block_size := DEFAULT_BLOCK_SIZE, c_entries := 0, c_size := 0, c_hits := 0, c_misses := 0, c_dirty_blocks := 0\<rparr>"
  have m0: "models (s\<lparr>fs_mgr := zero_manager\<rparr>) ?L ?h zero_manager ?r"
    using heap heap_view_cong(1,2) [of "s\<lparr>fs_mgr := zero_manager\<rparr>" s] by (simp add: models_def)
  show ?thesis
  proof (rule models_alloc [OF m0 d, of sizeof_cache])
    let ?s = "upd_fsm (\<lambda>m. m\<lparr>global_cache := 0\<rparr>) (s\<lparr>fs_mgr := zero_manager\<rparr>)" and ?m = "zero_manager\<lparr>global_cache := 0\<rparr>"
    assume "kmalloc sizeof_cache (s\<lparr>fs_mgr := zero_manager\<rparr>) = Some (0, s\<lparr>fs_mgr := zero_manager\<rparr>)"
    then have "fs_init s = Some (-1, ?s)" by (simp add: fs_init_def)
    moreover have "models ?s ?L ?h ?m ?r" by (rule models_upd_fsm [OF m0])
    moreover have "\<not> fs_initialized ?m" by simp
    ultimately show ?thesis unfolding init_outcome_def by blast
  next
    fix c n s1
    assume k: "kmalloc sizeof_cache (s\<lparr>fs_mgr := zero_manager\<rparr>) = Some (c, s1)" "c \<noteq> 0" "unat sizeof_cache \<le> n" "c \<notin> fst ` ?L" "?h c = None"
      "models s1 (insert (c, n) ?L) ?h zero_manager ?r"
    define s2 where "s2 = put c (Cache ?k) (clear c sizeof_cache (upd_fsm (\<lambda>m. m\<lparr>global_cache := c\<rparr>) s1))"
    have m2: "models s2 (insert (c, n) ?L) (?h(c \<mapsto> Cache ?k)) (zero_manager\<lparr>global_cache := c\<rparr>) ?r"
      unfolding s2_def by (rule models_new [OF models_upd_fsm [OF k(6)] k(3)])
    have i2: "fs_cache_init c 1024 DEFAULT_BLOCK_SIZE (upd_fsm (\<lambda>m. m\<lparr>global_cache := c\<rparr>) s1) = (0, s2)"
      using k(2) by (simp add: fs_cache_init_def s2_def)
    have c: "48 \<le> n" "c_entries ?k = 0" using k(3) by (simp_all add: fs_sizes zero_cache_def)
    have "fs_init s = init_rest c s2" using k(1,2) i2 by (simp add: fs_init_def init_rest_def fs_journal_init_def Let_def case_prod_beta cong: if_cong)
    then show ?thesis using init_rest_spec [OF m2 d k(2) c(1) k(4) c(2)] by simp
  qed (simp_all add: fs_sizes)
qed

section \<open>An example\<close>

text \<open>A heap large enough, no objects; a clock that stands still and a flush that leaves the cache as it is.\<close>

definition fs_small :: fs_sys where
  "fs_small = heap.extend heap_small \<lparr>objs = Map.empty, fs_mgr = zero_manager, registered_fs = (\<lambda>_. None)\<rparr>"

definition fs_env_small :: "fs_sys fs_env" where
  "fs_env_small = \<lparr>get_timestamp = (\<lambda>s. (0, s)), cache_flush = (\<lambda>c s. Some (0, s)), stale_byte = (\<lambda>_. 0)\<rparr>"

lemma put_same: "objs s c = Some ob \<Longrightarrow> put c ob s = s"
  by (simp add: put_def map_upd_triv)

lemma fs_env_small_ok: "flush_ok fs_env_small" "time_ok fs_env_small"
  unfolding flush_ok_def fs_env_small_def time_ok_def using put_same by (auto intro!: exI [of _ 0] dest: put_same [symmetric])

lemma room_steps [simp]:
  "heap_room (put p ob s) k = heap_room s k" "heap_room (upd_fsm f s) k = heap_room s k"
  "heap_room (clear p sz (upd_fsm f s)) k = heap_room (clear p sz s) k" "heap_room (s\<lparr>fs_mgr := m\<rparr>) k = heap_room s k"
  "heap_room (s\<lparr>registered_fs := r\<rparr>) k = heap_room s k"
  by (rule heap_room_cong; simp add: put_def upd_fsm_def clear_def)+

lemma fs_small_ok: "heap_room fs_small 65536" "heap_inv fs_small" "live_objects fs_small = {}" "objs fs_small = Map.empty"
proof -
  have v: "heap_shape fs_small = heap_shape heap_small" "live_objects fs_small = live_objects heap_small"
    using heap_view_cong [of fs_small heap_small] by (simp_all add: fs_small_def heap.defs fun_eq_iff)
  show "heap_room fs_small 65536" using heap_small_ok(1) v(1) unfolding heap_room_def by (intro exI [of _ "[]"]) simp
  then show "heap_inv fs_small" by (rule heap_room_inv)
  show "live_objects fs_small = {}" using v(2) heap_small_ok(3) by simp
qed (simp add: fs_small_def heap.defs)

lemma room_new:
  assumes room: "heap_room s k" and sz: "sz \<noteq> 0" "unat sz + 55 < 2 ^ 64" "block_need sz + 64 < k"
  shows "\<exists>p s' k'. kmalloc sz s = Some (p, s') \<and> p \<noteq> 0 \<and> heap_room (clear p sz s') k' \<and> k - block_need sz \<le> k'"
proof -
  obtain p s' k' where k: "kmalloc sz s = Some (p, s')" "p \<noteq> 0" "heap_room s' k'" "k - block_need sz \<le> k'"
    using heap_room_alloc [OF room sz] by blast
  from kmalloc_alloc_law [OF heap_room_inv [OF room] sz(1,2)] k(1,2) obtain n where n: "unat sz \<le> n" "(p, n) \<in> live_objects s'" by auto
  have b: "unat p + n < 2 ^ 64" using live_objects_bounds(2) [OF heap_room_inv [OF k(3)] n(2)] .
  have "memset p 0 sz (memory s') x = memory s' x" if "\<not> inside p n x" for x
    using region_inside [of p 0 sz x n] that n(1) b by (auto simp: memset_fill mem_fill_def)
  from heap_room_write [OF k(3) n(2) this] have "heap_room (clear p sz s') k'" by (simp add: clear_def)
  then show ?thesis using k by blast
qed

lemma fs_inv_absent:
  assumes inv: "fs_inv own ms s" and p: "path \<notin> path_of (objs s) ` set ms"
  obtains q where "find_mount path 0 (mount_points (fs_mgr s)) s = Some (q, 0)"
proof -
  have ch: "chain mp_next (get_mount (objs s)) (mount_points (fs_mgr s)) ms 0" using inv by (simp add: fs_inv_def)
  have "first_of (\<lambda>x. path_of (objs s) x = path) ms = 0" using p by (subst first_of_0_iff [OF fs_inv_paths(2) [OF inv]]) auto
  then show thesis using that find_mount_spec [OF ch fs_inv_paths(1) [OF inv], of path 0] by (simp add: Let_def)
qed

text \<open>With enough room, starting the manager and mounting a FAT32 volume succeed.\<close>

lemma fs_init_room:
  assumes room: "heap_room s k" "1000 < k" and d: "dom (objs s) \<subseteq> fst ` live_objects s"
  obtains s' k' where "fs_init s = Some (0, s')" "heap_room s' k'" "k - 1000 \<le> k'"
proof -
  have bn: "block_need 48 = 88" by (simp add: block_need_def)
  obtain c s1 k1 where c: "kmalloc 48 (s\<lparr>fs_mgr := zero_manager\<rparr>) = Some (c, s1)" "c \<noteq> 0" "heap_room (clear c 48 s1) k1" "k - 88 \<le> k1"
    using room_new [of "s\<lparr>fs_mgr := zero_manager\<rparr>" k 48] room by (auto simp: bn)
  obtain s2 where s2: "fs_cache_init c 1024 DEFAULT_BLOCK_SIZE (upd_fsm (\<lambda>m. m\<lparr>global_cache := c\<rparr>) s1) = (0, s2)" "heap_room s2 k1"
    using c(2,3) by (simp add: fs_cache_init_def Let_def fs_sizes)
  have b: "152 < k1" using c(4) room(2) by linarith
  obtain j s3 k2 where j: "kmalloc 48 s2 = Some (j, s3)" "j \<noteq> 0" "heap_room (clear j 48 s3) k2" "k1 - 88 \<le> k2"
    using room_new [of s2 k1 48] s2(2) b by (auto simp: bn)
  obtain s4 where s4: "fs_journal_init j 1000 100 (upd_fsm (\<lambda>m. m\<lparr>global_journal := j\<rparr>) s3) = (0, s4)" "heap_room s4 k2"
    using j(2,3) by (simp add: fs_journal_init_def Let_def fs_sizes)
  define s5 where "s5 = upd_fsm (\<lambda>m. m\<lparr>fs_initialized := True\<rparr>) (snd (ext4_init (snd (fat32_init (snd (fgfs_init
    (upd_fsm (\<lambda>m. m\<lparr>next_fd := 3, mounted_count := 0, mount_points := 0\<rparr>) s4)))))))"
  have "fs_init s = Some (0, s5)" using c j s2 s4 by (simp add: fs_init_def fs_sizes s5_def case_prod_beta Let_def)
  moreover have "heap_room s5 k2" using s4(2)
    by (simp add: s5_def fgfs_init_def fat32_init_def ext4_init_def fs_register_filesystem_def)
  moreover have "k - 1000 \<le> k2" using j(4) c(4) by linarith
  ultimately show thesis by (rule that)
qed

lemma fs_mount_room:
  assumes inv: "fs_inv own ms s" and e: "flush_ok e" "time_ok e" and p: "path \<notin> path_of (objs s) ` set ms" "length path < 4095"
    and room: "length ms < 64" "heap_room s k" "5000 < k" and reg: "registered_fs s type = Some fat32_ops" "type \<noteq> FS_TYPE_OTHER"
  obtains s' where "fs_mount e (Some dev) (Some path) type flags s = Some (0, s')"
proof -
  have bn: "block_need 144 = 184" "block_need 64 = 104" "block_need 4128 = 4168" by (simp_all add: block_need_def)
  obtain q where find: "find_mount path 0 (mount_points (fs_mgr s)) s = Some (q, 0)" by (rule fs_inv_absent [OF inv p(1)])
  have start: "fs_initialized (fs_mgr s)" using inv by (simp add: fs_inv_def table_ok_def)
  obtain fs s1 k1 where k1: "kmalloc 144 s = Some (fs, s1)" "fs \<noteq> 0" "heap_room (clear fs 144 s1) k1" "k - 184 \<le> k1"
    using room_new [of s k 144] room by (auto simp: bn)
  define s2 where "s2 = put fs (Filesystem (new_filesystem type fat32_ops dev flags)) (clear fs 144 s1)"
  have b1: "168 < k1" using k1(4) room(3) by linarith
  obtain priv s3 k3 where k3: "kmalloc 64 s2 = Some (priv, s3)" "priv \<noteq> 0" "heap_room (clear priv 64 s3) k3" "k1 - 104 \<le> k3"
    using room_new [of s2 k1 64] k1(3) b1 by (auto simp: bn s2_def)
  obtain c s' where run: "fs_mount e (Some dev) (Some path) type flags s = Some (c, s')"
    using fs_mount_outcome [OF inv e p room(1) reg, of dev flags] by (auto simp: mount_outcome_def)
  then have run': "mount_rest e fat32_ops dev path flags fs s2 = Some (c, s')"
    using reg start find k1(1,2) by (simp add: fs_mount_def mount_rest_def s2_def fs_sizes)
  then obtain s4 where s4: "fat32_mount fs (Some dev) flags s2 = Some (0, s4)" "heap_room s4 k3"
    using k1(2) k3 by (auto simp: mount_rest_def fat32_mount_def fs_sizes upd_fs_def bind_eq_Some_conv Let_def)
  have b3: "4232 < k3" using k3(4) k1(4) room(3) by linarith
  obtain mnt s5 where "kmalloc 4128 s4 = Some (mnt, s5)" "mnt \<noteq> 0"
    using room_new [of s4 k3 4128] s4(2) b3 by (auto simp: bn)
  then have "enter_mount e path flags fs mnt s5 = Some (c, s')" using run' s4(1) by (simp add: mount_rest_def fs_sizes)
  then have "c = 0" by (auto simp: enter_mount_def Let_def bind_eq_Some_conv case_prod_beta split: if_splits)
  then show thesis using that run by simp
qed

text \<open>The example manager, and with the root file system mounted.\<close>

definition fs_started :: fs_sys where
  "fs_started = snd (the (fs_init fs_small))"

definition fs_mounted :: fs_sys where
  "fs_mounted = snd (the (fs_mount fs_env_small (Some ''hda'') (Some ''/'') FS_TYPE_FAT32 0 fs_started))"

lemma fs_started_ok:
  "fs_init fs_small = Some (0, fs_started)" "fs_inv (\<lambda>_. {}) [] fs_started" "\<exists>k>5000. heap_room fs_started k"
  "registered_fs fs_started FS_TYPE_FAT32 = Some fat32_ops" "\<exists>G. fs_globals G fs_started \<and> G = live_objects fs_started"
proof -
  have d: "dom (objs fs_small) \<subseteq> fst ` live_objects fs_small" by (simp add: fs_small_ok)
  obtain s' k' where i: "fs_init fs_small = Some (0, s')" "heap_room s' k'" "65536 - 1000 \<le> k'"
    using fs_init_room [OF fs_small_ok(1) _ d] by auto
  then have s': "s' = fs_started" by (simp add: fs_started_def)
  show "fs_init fs_small = Some (0, fs_started)" using i(1) s' by simp
  show "\<exists>k>5000. heap_room fs_started k" using i(2,3) s' by (intro exI [of _ k']) simp
  from fs_init_spec [OF fs_small_ok(2) d] i(1) s'
  show "fs_inv (\<lambda>_. {}) [] fs_started" "registered_fs fs_started FS_TYPE_FAT32 = Some fat32_ops" "\<exists>G. fs_globals G fs_started \<and> G = live_objects fs_started"
    by (auto simp: init_outcome_def fs_small_ok)
qed

lemma fs_mounted_ok:
  "fs_mount fs_env_small (Some ''hda'') (Some ''/'') FS_TYPE_FAT32 0 fs_started = Some (0, fs_mounted)"
  "\<exists>own mnt. fs_inv own [mnt] fs_mounted \<and> path_of (objs fs_mounted) mnt = ''/'' \<and>
    (\<exists>G. fs_globals G fs_mounted \<and> G \<subseteq> live_objects fs_mounted \<and> fst ` G \<inter> fst ` own mnt = {} \<and> live_objects fs_mounted = own mnt \<union> G)"
proof -
  obtain k where k: "heap_room fs_started k" "5000 < k" using fs_started_ok(3) by blast
  have a: "''/'' \<notin> path_of (objs fs_started) ` set []" "length ''/'' < 4095" "length ([] :: u64 list) < 64" "FS_TYPE_FAT32 \<noteq> FS_TYPE_OTHER" by simp_all
  obtain s' where m: "fs_mount fs_env_small (Some ''hda'') (Some ''/'') FS_TYPE_FAT32 0 fs_started = Some (0, s')"
    by (rule fs_mount_room [OF fs_started_ok(2) fs_env_small_ok a(1,2,3) k fs_started_ok(4) a(4)])
  then have s': "s' = fs_mounted" by (simp add: fs_mounted_def)
  show "fs_mount fs_env_small (Some ''hda'') (Some ''/'') FS_TYPE_FAT32 0 fs_started = Some (0, fs_mounted)" using m s' by simp
  obtain G where G: "fs_globals G fs_started" "G = live_objects fs_started" using fs_started_ok(5) by blast
  from fs_mount_outcome [OF fs_started_ok(2) fs_env_small_ok a(1,2,3) fs_started_ok(4) a(4), of "''hda''" 0] m s'
  obtain mnt A u v where o: "fs_inv ((\<lambda>_. {})(mnt := A)) [mnt] fs_mounted" "path_of (objs fs_mounted) mnt = ''/''"
    "fst ` A \<inter> fst ` live_objects fs_started = {}" "\<forall>x. x \<notin> fst ` A \<longrightarrow> objs fs_mounted x = objs fs_started x"
    "live_objects fs_mounted = live_objects fs_started \<union> A" "fs_mgr fs_mounted = (fs_mgr fs_started)\<lparr>mount_points := mnt, filesystems := u, mounted_count := v\<rparr>"
    by (auto simp: mount_outcome_def models_def)
  have "objs fs_mounted x = objs fs_started x" if "x \<in> fst ` G" for x using o(3,4) that G(2) by blast
  then have "fs_globals G fs_mounted" by (rule fs_globals_cong [OF G(1)]) (simp_all add: o(6))
  then show "\<exists>own mnt. fs_inv own [mnt] fs_mounted \<and> path_of (objs fs_mounted) mnt = ''/'' \<and>
    (\<exists>G. fs_globals G fs_mounted \<and> G \<subseteq> live_objects fs_mounted \<and> fst ` G \<inter> fst ` own mnt = {} \<and> live_objects fs_mounted = own mnt \<union> G)"
    using o(1,2,3,5) G(2) by (intro exI [of _ "(\<lambda>_. {})(mnt := A)"] exI [of _ mnt]) (auto intro!: exI [of _ G])
qed

section \<open>Sessions\<close>

text \<open>The states between a successful start and the shutdown: mounts and unmounts in any order, successful or not.\<close>

inductive fs_run :: "'a fs_sys_scheme fs_env \<Rightarrow> 'a fs_sys_scheme \<Rightarrow> 'a fs_sys_scheme \<Rightarrow> bool" for e s0 where
  start: "fs_init s0 = Some (0, s) \<Longrightarrow> fs_run e s0 s"
| mount: "fs_run e s0 s \<Longrightarrow> length path < 4095 \<Longrightarrow> mounted_count (fs_mgr s) < 64 \<Longrightarrow>
    fs_mount e dev (Some path) type flags s = Some (c, s') \<Longrightarrow> fs_run e s0 s'"
| unmount: "fs_run e s0 s \<Longrightarrow> fs_unmount e path s = Some (c, s') \<Longrightarrow> fs_run e s0 s'"

text \<open>The objects of a session are those of before, those of the manager and those of the mounts.\<close>

definition session :: "(u64 \<times> nat) set \<Rightarrow> fs_object store \<Rightarrow> (u64 \<Rightarrow> (u64 \<times> nat) set) \<Rightarrow> u64 list \<Rightarrow> (u64 \<times> nat) set \<Rightarrow> 'a fs_sys_scheme \<Rightarrow> bool" where
  "session L h own ms G s \<longleftrightarrow> fs_inv own ms s \<and> fs_globals G s \<and> fst ` G \<inter> fst ` \<Union> (own ` set ms) = {} \<and>
     fst ` (\<Union> (own ` set ms) \<union> G) \<inter> fst ` L = {} \<and> live_objects s = L \<union> G \<union> \<Union> (own ` set ms) \<and>
     objs s |` (- fst ` (\<Union> (own ` set ms) \<union> G)) = h"

lemma session_models:
  assumes ses: "session L h own ms G s" and mo: "models s' (live_objects s) (objs s) (fs_mgr s) r"
  shows "session L h own ms G s'"
proof -
  have inv: "fs_inv own ms s" and G: "fs_globals G s" using ses by (simp_all only: session_def)
  have "fs_inv own ms s'" by (rule fs_inv_models [OF inv mo])
  moreover have "fs_globals G s'" by (rule fs_globals_cong [OF G]) (simp_all only: models_get(7,8) [OF mo])
  moreover have "live_objects s' = live_objects s" using mo by (simp only: models_def)
  ultimately show ?thesis using ses unfolding session_def models_get(7) [OF mo] by (simp only:)
qed

text \<open>One mount more.\<close>

lemma session_mount:
  assumes ses: "session L h own ms G s" and new: "fs_inv (own(mnt := A)) (mnt # ms) s'" and A: "fst ` A \<inter> fst ` live_objects s = {}"
    and eq: "\<forall>x. x \<notin> fst ` A \<longrightarrow> objs s' x = objs s x"
    and mo: "models s' (live_objects s \<union> A) (objs s') ((fs_mgr s)\<lparr>mount_points := mnt, filesystems := u, mounted_count := v\<rparr>) r"
  shows "session L h (own(mnt := A)) (mnt # ms) G s'"
proof -
  let ?U = "\<Union> (own ` set ms)"
  have s: "fs_inv own ms s" "fs_globals G s" "fst ` G \<inter> fst ` ?U = {}" "fst ` (?U \<union> G) \<inter> fst ` L = {}" "live_objects s = L \<union> G \<union> ?U"
    "objs s |` (- fst ` (?U \<union> G)) = h" using ses unfolding session_def by blast+
  have "distinct (mnt # ms)" using new chain_distinct unfolding fs_inv_def by blast
  then have U: "\<Union> ((own(mnt := A)) ` set (mnt # ms)) = ?U \<union> A" by auto
  have ap: "fst ` A \<inter> fst ` L = {}" "fst ` A \<inter> fst ` G = {}" "fst ` A \<inter> fst ` ?U = {}" using A unfolding s(5) by blast+
  have "fs_globals G s'" by (rule fs_globals_cong [OF s(2)]) (use eq ap(2) models_get(8) [OF mo] in \<open>auto\<close>)
  moreover have "fst ` G \<inter> fst ` (?U \<union> A) = {}" using s(3) ap(2) by blast
  moreover have "fst ` (?U \<union> A \<union> G) \<inter> fst ` L = {}" using s(4) ap(1) by blast
  moreover have "live_objects s' = L \<union> G \<union> (?U \<union> A)" using mo s(5) by (auto simp: models_def)
  moreover have "objs s' |` (- fst ` (?U \<union> A \<union> G)) = h"
  proof
    fix x
    have "dom (objs s) \<subseteq> fst ` live_objects s" using s(1) by (simp add: fs_inv_def mounts_ok_def)
    then have d: "x \<notin> fst ` A" if "objs s x \<noteq> None" using that A by blast
    show "(objs s' |` (- fst ` (?U \<union> A \<union> G))) x = h x"
    proof (cases "x \<in> fst ` A")
      case True
      then have "objs s x = None" using d by blast
      then show ?thesis using True unfolding s(6) [symmetric] by (simp add: restrict_map_def image_Un)
    next
      case False
      then show ?thesis using eq unfolding s(6) [symmetric] by (simp add: restrict_map_def image_Un)
    qed
  qed
  ultimately show ?thesis using new unfolding session_def U by blast
qed

text \<open>One mount less.\<close>

lemma without_other: "x \<notin> fst ` A \<Longrightarrow> (xs \<noteq> [] \<Longrightarrow> x \<noteq> last xs) \<Longrightarrow> without xs mnt mp A h x = h x"
  by (simp add: without_def bypass_def)

lemma part_removed: "(\<And>x. x \<in> B \<Longrightarrow> x \<notin> A) \<Longrightarrow> A \<union> B - B = A"
  by blast

lemma session_unmount:
  assumes ses: "session L h own (xs @ mnt # ys) G s" and new: "fs_inv own (xs @ ys) s'"
    and mo: "models s' (live_objects s - own mnt) (without xs mnt mp (own mnt) (objs s)) (without_manager xs mp ys (objs s) (fs_mgr s)) r"
  shows "session L h own (xs @ ys) G s'"
proof -
  let ?U = "\<Union> (own ` set (xs @ mnt # ys))" and ?V = "\<Union> (own ` set (xs @ ys))"
  have s: "fs_inv own (xs @ mnt # ys) s" "fs_globals G s" "fst ` G \<inter> fst ` ?U = {}" "fst ` (?U \<union> G) \<inter> fst ` L = {}" "live_objects s = L \<union> G \<union> ?U"
    "objs s |` (- fst ` (?U \<union> G)) = h" using ses unfolding session_def by blast+
  note ap = fs_inv_apart [OF s(1)]
  have U: "?U = ?V \<union> own mnt" "fst ` ?V \<inter> fst ` own mnt = {}" using ap(2) by auto
  have last: "last xs \<in> fst ` ?V" if "xs \<noteq> []"
  proof -
    have "last xs \<in> set (xs @ ys)" using that by simp
    then show ?thesis using ap(6) by blast
  qed
  have o: "objs s' x = objs s x" if "x \<notin> fst ` ?U" for x
    unfolding models_get(7) [OF mo] by (rule without_other) (use that U(1) last in auto)
  have "fs_globals G s'"
    by (rule fs_globals_cong [OF s(2) o]) (use s(3) in \<open>auto simp: models_get(8) [OF mo] without_manager_def\<close>)
  moreover have "fst ` G \<inter> fst ` ?V = {}" "fst ` (?V \<union> G) \<inter> fst ` L = {}" using s(3,4) unfolding U(1) by blast+
  moreover have "live_objects s' = L \<union> G \<union> ?V"
  proof -
    have "x \<notin> L \<union> G \<union> ?V" if "x \<in> own mnt" for x
      using imageI [OF that, of fst] s(3,4) U(2) imageI [of x _ fst] unfolding U(1) image_Un by blast
    then have "L \<union> G \<union> ?V \<union> own mnt - own mnt = L \<union> G \<union> ?V" by (rule part_removed)
    then have "live_objects s - own mnt = L \<union> G \<union> ?V" unfolding s(5) U(1) Un_assoc .
    then show ?thesis using mo by (simp add: models_def)
  qed
  moreover have "objs s' |` (- fst ` (?V \<union> G)) = h"
  proof
    fix x
    show "(objs s' |` (- fst ` (?V \<union> G))) x = h x"
    proof (cases "x \<in> fst ` own mnt")
      case True
      then have "objs s' x = None" by (simp add: models_get(7) [OF mo] without_def)
      moreover have "h x = None" using True U(1) unfolding s(6) [symmetric] by (simp add: restrict_map_def image_Un)
      ultimately show ?thesis by (simp add: restrict_map_def)
    next
      case False
      then show ?thesis using o [of x] unfolding s(6) [symmetric] U(1) by (simp add: restrict_map_def image_Un del: UN_iff)
    qed
  qed
  ultimately show ?thesis using new unfolding session_def by blast
qed

lemma fs_unmount_cases:
  assumes inv: "fs_inv own ms s" and e: "flush_ok e"
  shows "(path \<notin> Some ` path_of (objs s) ` set ms \<and> fs_unmount e path s = Some (-1, s)) \<or>
    (\<exists>xs mnt ys mp s'. ms = xs @ mnt # ys \<and> path = Some (path_of (objs s) mnt) \<and> get_mount (objs s) mnt = Some mp \<and>
       fs_unmount e path s = Some (0, s') \<and> fs_inv own (xs @ ys) s' \<and>
       models s' (live_objects s - own mnt) (without xs mnt mp (own mnt) (objs s)) (without_manager xs mp ys (objs s) (fs_mgr s)) (registered_fs s))"
proof (cases "path \<in> Some ` path_of (objs s) ` set ms")
  case True
  then obtain mnt where m: "mnt \<in> set ms" "path = Some (path_of (objs s) mnt)" by blast
  then obtain xs ys where ms: "ms = xs @ mnt # ys" by (meson split_list)
  have "mount_ok (objs s) (own mnt) mnt" using inv m(1) by (simp add: fs_inv_def mounts_ok_def)
  from mount_okD(1) [OF this] obtain mp where mp: "get_mount (objs s) mnt = Some mp" by auto
  obtain s' where s': "fs_unmount e (Some (path_of (objs s) mnt)) s = Some (0, s')" "fs_inv own (xs @ ys) s'"
    "models s' (live_objects s - own mnt) (without xs mnt mp (own mnt) (objs s)) (without_manager xs mp ys (objs s) (fs_mgr s)) (registered_fs s)"
    by (rule fs_unmount_spec [OF inv [unfolded ms] e mp])
  then show ?thesis using ms mp unfolding m(2) by blast
next
  case False
  have "fs_unmount e path s = Some (-1, s)"
  proof (cases path)
    case (Some p)
    then have "p \<notin> path_of (objs s) ` set ms" using False by auto
    from fs_inv_absent [OF inv this] obtain q where "find_mount p 0 (mount_points (fs_mgr s)) s = Some (q, 0)" .
    then show ?thesis using Some by (simp add: fs_unmount_def)
  qed (simp add: fs_unmount_def)
  then show ?thesis using False by blast
qed

lemma fs_mount_cases:
  assumes inv: "fs_inv own ms s" and e: "flush_ok e" "time_ok e" and p: "length path < 4095" and room: "length ms < 64"
  shows "mount_outcome own ms path s (fs_mount e dev (Some path) type flags s)"
proof (cases "dev = None \<or> type = FS_TYPE_OTHER \<or> path \<in> path_of (objs s) ` set ms \<or> registered_fs s type = None")
  case True
  have "\<exists>c. fs_mount e dev (Some path) type flags s = Some (c, s) \<and> c \<noteq> 0"
  proof (cases "path \<in> path_of (objs s) ` set ms")
    case True
    then obtain mnt where m: "mnt \<in> set ms" "path = path_of (objs s) mnt" by blast
    then obtain xs ys where ms: "ms = xs @ mnt # ys" by (meson split_list)
    have "mnt \<noteq> 0" using fs_inv_paths(2) [OF inv] m(1) by auto
    then show ?thesis using fs_inv_find [OF inv [unfolded ms]] m(2) by (cases dev) (simp_all add: fs_mount_def)
  next
    case False
    from fs_inv_absent [OF inv this] obtain q where "find_mount path 0 (mount_points (fs_mgr s)) s = Some (q, 0)" .
    then show ?thesis using True False by (cases dev) (auto simp: fs_mount_def)
  qed
  moreover have "models s (live_objects s) (objs s) (fs_mgr s) (registered_fs s)" using inv by (intro models_self) (simp add: fs_inv_def)
  ultimately show ?thesis unfolding mount_outcome_def by blast
next
  case False
  then show ?thesis using fs_mount_outcome [OF inv e _ p room] by auto
qed

lemma session_fs_inv: "session L h own ms G s \<Longrightarrow> fs_inv own ms s"
  by (simp only: session_def)

lemma fs_inv_count: "fs_inv own ms s \<Longrightarrow> mounted_count (fs_mgr s) < 64 \<Longrightarrow> length ms < 64"
  by (simp add: fs_inv_def table_ok_def word_less_nat_alt unat_of_nat)

lemma fs_run_session:
  assumes "fs_run e s0 s" and heap: "heap_inv s0" "dom (objs s0) \<subseteq> fst ` live_objects s0" and e: "flush_ok e" "time_ok e"
  shows "\<exists>own ms G. session (live_objects s0) (objs s0) own ms G s"
  using assms(1)
proof induction
  case (start s)
  from fs_init_spec [OF heap] start obtain G where "fs_inv (\<lambda>_. {}) [] s" "fs_globals G s" "fst ` G \<inter> fst ` live_objects s0 = {}"
    "live_objects s = live_objects s0 \<union> G" "objs s |` (- fst ` G) = objs s0" by (auto simp: init_outcome_def)
  then have "session (live_objects s0) (objs s0) (\<lambda>_. {}) [] G s" unfolding session_def by simp
  then show ?case by blast
next
  case (mount s path dev type flags c s')
  then obtain own ms G where ses: "session (live_objects s0) (objs s0) own ms G s" by blast
  note inv = session_fs_inv [OF ses]
  from fs_mount_cases [OF inv e mount(2) fs_inv_count [OF inv mount(3)], of dev type flags] show ?case
    unfolding mount_outcome_def mount(4)
  proof (elim disjE exE conjE)
    fix c' s1
    assume "Some (c, s') = Some (c', s1)" "models s1 (live_objects s) (objs s) (fs_mgr s) (registered_fs s)"
    then show ?thesis using session_models [OF ses] by blast
  next
    fix s1 mnt A
    assume a: "Some (c, s') = Some (0, s1)" and o: "fs_inv (own(mnt := A)) (mnt # ms) s1" "fst ` A \<inter> fst ` live_objects s = {}"
      "\<forall>x. x \<notin> fst ` A \<longrightarrow> objs s1 x = objs s x"
      "models s1 (live_objects s \<union> A) (objs s1) ((fs_mgr s)\<lparr>mount_points := mnt,
          filesystems := (filesystems (fs_mgr s))[length ms := fs_of (objs s1) mnt], mounted_count := of_nat (length ms) + 1\<rparr>) (registered_fs s)"
    have "s1 = s'" using a by simp
    then show ?thesis using session_mount [OF ses o] by blast
  qed
next
  case (unmount s path c s')
  then obtain own ms G where ses: "session (live_objects s0) (objs s0) own ms G s" by blast
  from fs_unmount_cases [OF session_fs_inv [OF ses] e(1), of path] show ?case unfolding unmount(2)
  proof (elim disjE exE conjE)
    assume "Some (c, s') = Some (-1, s)"
    then show ?thesis using ses by blast
  next
    fix xs mnt ys mp s1
    assume a: "ms = xs @ mnt # ys" "Some (c, s') = Some (0, s1)" and o: "fs_inv own (xs @ ys) s1"
      "models s1 (live_objects s - own mnt) (without xs mnt mp (own mnt) (objs s)) (without_manager xs mp ys (objs s) (fs_mgr s)) (registered_fs s)"
    have "s1 = s'" using a(2) by simp
    then show ?thesis using session_unmount [OF ses [unfolded a(1)] o] by blast
  qed
qed

section \<open>Limits of the manager\<close>

text \<open>A path is looked up by comparing characters, not components: a path that merely starts like a mount path belongs to that mount.\<close>

lemma lookup_ignores_components:
  assumes "fs_inv own [mnt] s" and "path_of (objs s) mnt = ''/usr''"
  shows "fs_get_filesystem (Some ''/usrlocal/x'') s = Some (fs_of (objs s) mnt)"
  using fs_get_filesystem_spec [OF assms(1), of "''/usrlocal/x''"] assms(2) by simp

text \<open>The table of file systems is written without a check against its size: the mount after the 64th writes past it.\<close>

lemma table_overflow:
  assumes "length (filesystems (fs_mgr s)) = 64" and "mounted_count (fs_mgr s) = 64" and "time_ok e"
  shows "enter_mount e path flags fs mnt s = None"
proof -
  obtain now where "get_timestamp e s = (now, s)" using assms(3) by (metis prod.collapse time_ok_def)
  then show ?thesis using assms(1,2) by (simp add: enter_mount_def put_def upd_fsm_def)
qed

text \<open>
  Opening a file does not count as a reference, so a file system with open files can be unmounted; closing such a file afterwards
  follows a pointer to freed memory.
\<close>

lemma open_file_dangles:
  assumes inv: "fs_inv own (xs @ mnt # ys) s" and e: "flush_ok e" and f: "file \<noteq> 0" "get_file file s = Some v" "f_fs v = fs_of (objs s) mnt"
    and out: "\<forall>x\<in>set (xs @ mnt # ys). file \<notin> fst ` own x"
  shows "\<exists>s'. fs_unmount e (Some (path_of (objs s) mnt)) s = Some (0, s') \<and> get_file file s' = Some v \<and> fs_close file s' = None"
proof -
  have ok: "mount_ok (objs s) (own mnt) mnt" using inv by (simp add: fs_inv_def mounts_ok_def)
  from mount_okD(1) [OF this] obtain mp where mp: "get_mount (objs s) mnt = Some mp" by auto
  obtain s' where s': "fs_unmount e (Some (path_of (objs s) mnt)) s = Some (0, s')"
    "models s' (live_objects s - own mnt) (without xs mnt mp (own mnt) (objs s)) (without_manager xs mp ys (objs s) (fs_mgr s)) (registered_fs s)"
    by (rule fs_unmount_spec [OF inv e mp])
  have "last xs \<noteq> file" if "xs \<noteq> []"
  proof -
    have l: "last xs \<in> set (xs @ ys)" using that by simp
    then show ?thesis using fs_inv_apart(6) [OF inv l] out by auto
  qed
  then have "without xs mnt mp (own mnt) (objs s) file = objs s file" by (intro without_other) (use out in auto)
  then have g: "get_file file s' = Some v" using f(2) by (simp add: get_file_def models_get(7) [OF s'(2)])
  have "objs s' (f_fs v) = None" using mount_okD(3) [OF ok] by (simp add: models_get(7) [OF s'(2)] without_def f(3))
  then have "fs_close file s' = None" using f(1) g mount_okD(4) [OF ok] by (simp add: fs_close_def file_ops_def get_fs_def f(3))
  then show ?thesis using s'(1) g by blast
qed

section \<open>Properties\<close>

text \<open>
  C27: a session of the file system manager leaks nothing. After a successful start, and after any mounts and unmounts of paths shorter than
  the path buffer with at most 64 mounts at a time, successful or not, every further mount and unmount returns, and \<^verbatim>\<open>fs_shutdown\<close> returns and
  leaves exactly the heap objects and structures there were before the start.
\<close>

theorem fs_session_correct:
  assumes heap: "heap_inv s0" "dom (objs s0) \<subseteq> fst ` live_objects s0" and e: "flush_ok e" "time_ok e" and run: "fs_run e s0 s"
  shows "(\<exists>s'. fs_shutdown e s = Some s' \<and> heap_inv s' \<and> live_objects s' = live_objects s0 \<and> objs s' = objs s0) \<and>
    (\<forall>dev path type flags. length path < 4095 \<and> mounted_count (fs_mgr s) < 64 \<longrightarrow> fs_mount e dev (Some path) type flags s \<noteq> None) \<and>
    (\<forall>path. fs_unmount e path s \<noteq> None)"
proof (intro conjI allI impI)
  obtain own ms G where ses: "session (live_objects s0) (objs s0) own ms G s" using fs_run_session [OF run heap e] by blast
  note inv = session_fs_inv [OF ses]
  let ?U = "\<Union> (own ` set ms)"
  have G: "fs_globals G s" "fst ` G \<inter> fst ` ?U = {}" and d: "fst ` (?U \<union> G) \<inter> fst ` live_objects s0 = {}"
    and L: "live_objects s = live_objects s0 \<union> G \<union> ?U" and h: "objs s |` (- fst ` (?U \<union> G)) = objs s0"
    using ses unfolding session_def by blast+
  have "G \<subseteq> live_objects s" using L by blast
  from fs_shutdown_spec [OF inv e(1) G(1) this G(2)] obtain s' where s': "fs_shutdown e s = Some s'" "heap_inv s'"
    "live_objects s' = live_objects s - ?U - G" "objs s' = objs s |` (- fst ` (?U \<union> G))" by blast
  have "live_objects s - ?U - G = live_objects s0 \<union> (G \<union> ?U) - (G \<union> ?U)" unfolding L by blast
  also have "\<dots> = live_objects s0" by (rule part_removed) (use d imageI [of _ _ fst] in blast)
  finally show "\<exists>s'. fs_shutdown e s = Some s' \<and> heap_inv s' \<and> live_objects s' = live_objects s0 \<and> objs s' = objs s0" using s' h by metis
  show "fs_mount e dev (Some path) type flags s \<noteq> None" if "length path < 4095 \<and> mounted_count (fs_mgr s) < 64" for dev path type flags
    using fs_mount_cases [OF inv e _ fs_inv_count [OF inv], of path dev type flags] that by (auto simp: mount_outcome_def)
  show "fs_unmount e path s \<noteq> None" for path using fs_unmount_cases [OF inv e(1), of path] by auto
qed

theorem fs_session_correct_witness:
  "fs_run fs_env_small fs_small fs_mounted \<and> (\<exists>s'. fs_shutdown fs_env_small fs_mounted = Some s' \<and> live_objects s' = {} \<and> objs s' = Map.empty)"
proof -
  have "mounted_count (fs_mgr fs_started) < 64" using fs_started_ok(2) by (simp add: fs_inv_def table_ok_def)
  with fs_run.mount [OF fs_run.start [OF fs_started_ok(1)] _ _ fs_mounted_ok(1)] have "fs_run fs_env_small fs_small fs_mounted" by simp
  moreover have "dom (objs fs_small) \<subseteq> fst ` live_objects fs_small" by (simp add: fs_small_ok)
  ultimately show ?thesis using fs_session_correct [OF fs_small_ok(2) _ fs_env_small_ok, of fs_mounted] by (auto simp: fs_small_ok)
qed

text \<open>
  C28: \<^verbatim>\<open>fs_mount\<close> of a new path by a registered implementation either fails and leaves the heap objects, the structures and the manager
  as they were, or adds the mount and keeps the invariant; then \<^verbatim>\<open>fs_unmount\<close> of the path succeeds and restores all of them exactly.
\<close>

theorem fs_mount_unmount:
  assumes inv: "fs_inv own ms s" and e: "flush_ok e" "time_ok e" and p: "path \<notin> path_of (objs s) ` set ms" "length path < 4095"
    and room: "length ms < 64" and reg: "registered_fs s type = Some op" "type \<noteq> FS_TYPE_OTHER"
  shows "(\<exists>c s'. fs_mount e (Some dev) (Some path) type flags s = Some (c, s') \<and> c \<noteq> 0 \<and> fs_inv own ms s' \<and>
       live_objects s' = live_objects s \<and> objs s' = objs s \<and> fs_mgr s' = fs_mgr s) \<or>
    (\<exists>s1 s2 mnt A. fs_mount e (Some dev) (Some path) type flags s = Some (0, s1) \<and> fs_inv (own(mnt := A)) (mnt # ms) s1 \<and>
       path_of (objs s1) mnt = path \<and> live_objects s1 = live_objects s \<union> A \<and> (\<forall>x. x \<notin> fst ` A \<longrightarrow> objs s1 x = objs s x) \<and>
       fs_unmount e (Some path) s1 = Some (0, s2) \<and> fs_inv own ms s2 \<and>
       live_objects s2 = live_objects s \<and> objs s2 = objs s \<and> fs_mgr s2 = fs_mgr s)"
  using fs_mount_outcome [OF inv e p room reg, of dev flags] unfolding mount_outcome_def
proof (elim disjE exE conjE)
  fix c s'
  assume "fs_mount e (Some dev) (Some path) type flags s = Some (c, s')" "c \<noteq> 0" and mo: "models s' (live_objects s) (objs s) (fs_mgr s) (registered_fs s)"
  moreover have "fs_inv own ms s'" by (rule fs_inv_models [OF inv mo])
  ultimately show ?thesis unfolding models_def by blast
next
  fix s1 mnt A
  assume run: "fs_mount e (Some dev) (Some path) type flags s = Some (0, s1)" and o: "fs_inv (own(mnt := A)) (mnt # ms) s1" "path_of (objs s1) mnt = path"
    "fst ` A \<inter> fst ` live_objects s = {}" "\<forall>x. x \<notin> fst ` A \<longrightarrow> objs s1 x = objs s x"
    "models s1 (live_objects s \<union> A) (objs s1) ((fs_mgr s)\<lparr>mount_points := mnt,
       filesystems := (filesystems (fs_mgr s))[length ms := fs_of (objs s1) mnt], mounted_count := of_nat (length ms) + 1\<rparr>) (registered_fs s)"
  obtain s2 where s2: "fs_unmount e (Some path) s1 = Some (0, s2)" "models s2 (live_objects s) (objs s) (fs_mgr s) (registered_fs s)"
    by (rule mount_unmount [OF inv e(1) o])
  moreover have "fs_inv own ms s2" by (rule fs_inv_models [OF inv s2(2)])
  moreover have "live_objects s1 = live_objects s \<union> A" using o(5) by (simp add: models_def)
  ultimately show ?thesis using run o(1,2,4) unfolding models_def by blast
qed

theorem fs_mount_unmount_witness:
  "\<exists>s1 s2. fs_mount fs_env_small (Some ''hda'') (Some ''/'') FS_TYPE_FAT32 0 fs_started = Some (0, s1) \<and>
    fs_unmount fs_env_small (Some ''/'') s1 = Some (0, s2) \<and> live_objects s2 = live_objects fs_started \<and> fs_mgr s2 = fs_mgr fs_started"
  using fs_mount_unmount [OF fs_started_ok(2) fs_env_small_ok _ _ _ fs_started_ok(4), of "''/''" "''hda''" 0] fs_mounted_ok(1) by auto

text \<open>
  C29: \<^verbatim>\<open>fs_unmount\<close> always returns. For a path that is not mounted it fails and changes nothing; otherwise it takes exactly that mount out
  of the list and the table, gives back exactly its heap objects, and keeps the invariant with path and file system of every other mount.
\<close>

theorem fs_unmount_correct:
  assumes inv: "fs_inv own ms s" and e: "flush_ok e"
  shows "(path \<notin> path_of (objs s) ` set ms \<and> fs_unmount e (Some path) s = Some (-1, s)) \<or>
    (\<exists>xs mnt ys s'. ms = xs @ mnt # ys \<and> path = path_of (objs s) mnt \<and> fs_unmount e (Some path) s = Some (0, s') \<and> fs_inv own (xs @ ys) s' \<and>
       live_objects s' = live_objects s - own mnt \<and>
       (\<forall>x\<in>set (xs @ ys). path_of (objs s') x = path_of (objs s) x \<and> fs_of (objs s') x = fs_of (objs s) x))"
  using fs_unmount_cases [OF inv e, of "Some path"]
proof (elim disjE exE conjE)
  fix xs mnt ys mp s'
  assume a: "ms = xs @ mnt # ys" "Some path = Some (path_of (objs s) mnt)" "get_mount (objs s) mnt = Some mp" "fs_unmount e (Some path) s = Some (0, s')"
    "fs_inv own (xs @ ys) s'" and mo: "models s' (live_objects s - own mnt) (without xs mnt mp (own mnt) (objs s))
      (without_manager xs mp ys (objs s) (fs_mgr s)) (registered_fs s)"
  have "\<forall>x\<in>set (xs @ ys). path_of (objs s') x = path_of (objs s) x \<and> fs_of (objs s') x = fs_of (objs s) x"
    unfolding models_get(7) [OF mo] using without_inv(3,4) [OF inv [unfolded a(1)] a(3)] by blast
  moreover have "live_objects s' = live_objects s - own mnt" using mo by (simp add: models_def)
  ultimately show ?thesis using a by blast
qed auto

theorem fs_unmount_correct_witness:
  "\<exists>s'. fs_unmount fs_env_small (Some ''/'') fs_mounted = Some (0, s') \<and> mount_points (fs_mgr s') = 0"
proof -
  obtain own mnt where m: "fs_inv own [mnt] fs_mounted" "path_of (objs fs_mounted) mnt = ''/''" using fs_mounted_ok(2) by blast
  from fs_unmount_correct [OF m(1) fs_env_small_ok(1), of "''/''"] m(2)
  obtain s' where "fs_unmount fs_env_small (Some ''/'') fs_mounted = Some (0, s')" "fs_inv own [] s'" by (auto simp: Cons_eq_append_conv)
  then show ?thesis by (auto simp: fs_inv_def)
qed

text \<open>
  C30: \<^verbatim>\<open>fs_get_filesystem\<close> always returns: the file system of the mount with the longest path that the given path starts with, and
  null when the path starts with no mount path.
\<close>

theorem fs_get_filesystem_correct:
  assumes inv: "fs_inv own ms s"
  shows "(\<forall>b\<in>set ms. prefix (path_of (objs s) b) path \<and> path_of (objs s) b \<noteq> [] \<and>
       (\<forall>x\<in>set ms. prefix (path_of (objs s) x) path \<longrightarrow> length (path_of (objs s) x) \<le> length (path_of (objs s) b)) \<longrightarrow>
       fs_get_filesystem (Some path) s = Some (fs_of (objs s) b)) \<and>
    ((\<forall>x\<in>set ms. prefix (path_of (objs s) x) path \<longrightarrow> path_of (objs s) x = []) \<longrightarrow> fs_get_filesystem (Some path) s = Some 0)"
proof (intro conjI ballI impI)
  let ?p = "path_of (objs s)"
  have d: "distinct (map ?p ms)" using inv by (simp add: fs_inv_def mounts_ok_def)
  fix b
  assume b: "b \<in> set ms" "prefix (?p b) path \<and> ?p b \<noteq> [] \<and> (\<forall>x\<in>set ms. prefix (?p x) path \<longrightarrow> length (?p x) \<le> length (?p b))"
  then have ex: "\<exists>x\<in>set ms. prefix (?p x) path \<and> ?p x \<noteq> []" by blast
  from fs_get_filesystem_spec [OF inv, of path, unfolded if_P [OF ex]]
  obtain b' where b': "b' \<in> set ms" "fs_get_filesystem (Some path) s = Some (fs_of (objs s) b')" "prefix (?p b') path"
    "\<forall>x\<in>set ms. prefix (?p x) path \<longrightarrow> length (?p x) \<le> length (?p b')" by blast
  have "length (?p b) = length (?p b')" using b b'(1,3,4) by (meson le_antisym)
  then have "?p b = ?p b'" using b(2) b'(3) take_prefix by metis
  then have "b = b'" using d b(1) b'(1) unfolding distinct_map by (blast dest: inj_onD)
  then show "fs_get_filesystem (Some path) s = Some (fs_of (objs s) b)" using b'(2) by simp
next
  assume "\<forall>x\<in>set ms. prefix (path_of (objs s) x) path \<longrightarrow> path_of (objs s) x = []"
  then have "\<not> (\<exists>x\<in>set ms. prefix (path_of (objs s) x) path \<and> path_of (objs s) x \<noteq> [])" by blast
  from fs_get_filesystem_spec [OF inv, of path, unfolded if_not_P [OF this]] show "fs_get_filesystem (Some path) s = Some 0" by blast
qed

theorem fs_get_filesystem_correct_witness:
  "\<exists>mnt. fs_get_filesystem (Some ''/etc/motd'') fs_mounted = Some (fs_of (objs fs_mounted) mnt) \<and> path_of (objs fs_mounted) mnt = ''/'' \<and>
     fs_get_filesystem (Some ''etc'') fs_mounted = Some 0"
proof -
  obtain own mnt where m: "fs_inv own [mnt] fs_mounted" "path_of (objs fs_mounted) mnt = ''/''" using fs_mounted_ok(2) by blast
  then show ?thesis
    using fs_get_filesystem_correct [OF m(1), of "''/etc/motd''"] fs_get_filesystem_correct [OF m(1), of "''etc''"] by (intro exI [of _ mnt]) simp
qed

end
