(* ===== verification/Pci.thy ===== *)
theory Pci
  imports Device
begin

text \<open>
  The PCI bus driver, \<^verbatim>\<open>kernel/drivers/bus/pci.c\<close>: access to the configuration space, enumeration of the functions on all
  buses, the size and kind of their base address registers, and their registration with the device framework.

  A \<^verbatim>\<open>pci_device_t\<close> starts with its \<^verbatim>\<open>device_t\<close>, so both have the same address: the base device is in the store of devices, the
  rest in a store of its own. The instructions for port access, which the sources do not define, are an argument \<open>io\<close>; what is behind the
  ports is a part of the state of any type. The clock and the error codes are those of the environment of the device framework.
\<close>

unbundle bit_operations_syntax

section \<open>Data\<close>

definition PCI_CONFIG_ADDRESS :: u16 where "PCI_CONFIG_ADDRESS = 0xCF8"

definition PCI_CONFIG_DATA :: u16 where "PCI_CONFIG_DATA = 0xCFC"

definition PCI_CONFIG_ENABLE :: u32 where "PCI_CONFIG_ENABLE = push_bit 31 1"

definition PCI_CONFIG_VENDOR_ID :: u8 where "PCI_CONFIG_VENDOR_ID = 0x00"

definition PCI_CONFIG_DEVICE_ID :: u8 where "PCI_CONFIG_DEVICE_ID = 0x02"

definition PCI_CONFIG_COMMAND :: u8 where "PCI_CONFIG_COMMAND = 0x04"

definition PCI_CONFIG_STATUS :: u8 where "PCI_CONFIG_STATUS = 0x06"

definition PCI_CONFIG_REVISION_ID :: u8 where "PCI_CONFIG_REVISION_ID = 0x08"

definition PCI_CONFIG_PROG_IF :: u8 where "PCI_CONFIG_PROG_IF = 0x09"

definition PCI_CONFIG_SUBCLASS :: u8 where "PCI_CONFIG_SUBCLASS = 0x0A"

definition PCI_CONFIG_CLASS :: u8 where "PCI_CONFIG_CLASS = 0x0B"

definition PCI_CONFIG_CACHE_LINE_SIZE :: u8 where "PCI_CONFIG_CACHE_LINE_SIZE = 0x0C"

definition PCI_CONFIG_LATENCY_TIMER :: u8 where "PCI_CONFIG_LATENCY_TIMER = 0x0D"

definition PCI_CONFIG_HEADER_TYPE :: u8 where "PCI_CONFIG_HEADER_TYPE = 0x0E"

definition PCI_CONFIG_BIST :: u8 where "PCI_CONFIG_BIST = 0x0F"

definition PCI_CONFIG_BAR0 :: u8 where "PCI_CONFIG_BAR0 = 0x10"

definition PCI_CONFIG_CARDBUS_CIS :: u8 where "PCI_CONFIG_CARDBUS_CIS = 0x28"

definition PCI_CONFIG_SUBSYSTEM_VID :: u8 where "PCI_CONFIG_SUBSYSTEM_VID = 0x2C"

definition PCI_CONFIG_SUBSYSTEM_ID :: u8 where "PCI_CONFIG_SUBSYSTEM_ID = 0x2E"

definition PCI_CONFIG_ROM_ADDRESS :: u8 where "PCI_CONFIG_ROM_ADDRESS = 0x30"

definition PCI_CONFIG_CAPABILITIES :: u8 where "PCI_CONFIG_CAPABILITIES = 0x34"

definition PCI_CONFIG_INTERRUPT_LINE :: u8 where "PCI_CONFIG_INTERRUPT_LINE = 0x3C"

definition PCI_CONFIG_INTERRUPT_PIN :: u8 where "PCI_CONFIG_INTERRUPT_PIN = 0x3D"

definition PCI_CONFIG_MIN_GRANT :: u8 where "PCI_CONFIG_MIN_GRANT = 0x3E"

definition PCI_CONFIG_MAX_LATENCY :: u8 where "PCI_CONFIG_MAX_LATENCY = 0x3F"

definition PCI_COMMAND_IO :: u16 where "PCI_COMMAND_IO = push_bit 0 1"

definition PCI_COMMAND_MEMORY :: u16 where "PCI_COMMAND_MEMORY = push_bit 1 1"

definition PCI_COMMAND_MASTER :: u16 where "PCI_COMMAND_MASTER = push_bit 2 1"

definition PCI_HEADER_TYPE_MULTIFUNCTION :: u8 where "PCI_HEADER_TYPE_MULTIFUNCTION = 0x80"

definition PCI_BAR_TYPE_IO :: u32 where "PCI_BAR_TYPE_IO = 0x01"

definition DEVICE_CAP_READ :: u32 where "DEVICE_CAP_READ = push_bit 0 1"

definition DEVICE_CAP_WRITE :: u32 where "DEVICE_CAP_WRITE = push_bit 1 1"

definition DEVICE_CAP_CONFIG :: u32 where "DEVICE_CAP_CONFIG = push_bit 8 1"

record pci_location =
  loc_bus :: u8
  loc_device :: u8
  loc_function :: u8

record pci_config =
  cfg_vendor_id :: u16
  cfg_device_id :: u16
  cfg_command :: u16
  cfg_status :: u16
  cfg_revision_id :: u8
  cfg_prog_if :: u8
  cfg_subclass :: u8
  cfg_class_code :: u8
  cfg_cache_line_size :: u8
  cfg_latency_timer :: u8
  cfg_header_type :: u8
  cfg_bist :: u8
  cfg_bar :: "u32 list"
  cfg_cardbus_cis :: u32
  cfg_subsystem_vendor_id :: u16
  cfg_subsystem_id :: u16
  cfg_rom_address :: u32
  cfg_capabilities_ptr :: u8
  cfg_interrupt_line :: u8
  cfg_interrupt_pin :: u8
  cfg_min_grant :: u8
  cfg_max_latency :: u8

record pci_device =
  pd_location :: pci_location
  pd_config :: pci_config
  bar_sizes :: "u32 list"
  bar_is_io :: "bool list"
  bar_is_64bit :: "bool list"
  pd_next :: u64

record pci_bus_stats =
  total_buses :: u32
  pci_total_devices :: u32
  total_functions :: u32
  devices_by_class :: "u32 list"
  config_reads :: u32
  config_writes :: u32
  enumeration_time_ms :: u32

record 'h pci_sys = dev_sys +
  pdevs :: "pci_device store"
  pci_list :: u64
  pci_stats :: pci_bus_stats
  pci_initialized :: bool
  enumeration_start :: u32
  hardware :: 'h

record 'h ports =
  port_outl :: "u16 \<Rightarrow> u32 \<Rightarrow> 'h \<Rightarrow> 'h"
  port_outw :: "u16 \<Rightarrow> u16 \<Rightarrow> 'h \<Rightarrow> 'h"
  port_outb :: "u16 \<Rightarrow> u8 \<Rightarrow> 'h \<Rightarrow> 'h"
  port_inl :: "u16 \<Rightarrow> 'h \<Rightarrow> u32 \<times> 'h"
  port_inw :: "u16 \<Rightarrow> 'h \<Rightarrow> u16 \<times> 'h"
  port_inb :: "u16 \<Rightarrow> 'h \<Rightarrow> u8 \<times> 'h"

definition sizeof_pci_device :: u64 where
  "sizeof_pci_device = 760"

definition zero_pci_stats :: pci_bus_stats where
  "zero_pci_stats = \<lparr>total_buses = 0, pci_total_devices = 0, total_functions = 0, devices_by_class = replicate 256 0, config_reads = 0,
     config_writes = 0, enumeration_time_ms = 0\<rparr>"

definition zero_pci_config :: pci_config where
  "zero_pci_config = \<lparr>cfg_vendor_id = 0, cfg_device_id = 0, cfg_command = 0, cfg_status = 0, cfg_revision_id = 0, cfg_prog_if = 0,
     cfg_subclass = 0, cfg_class_code = 0, cfg_cache_line_size = 0, cfg_latency_timer = 0, cfg_header_type = 0, cfg_bist = 0,
     cfg_bar = replicate 6 0, cfg_cardbus_cis = 0, cfg_subsystem_vendor_id = 0, cfg_subsystem_id = 0, cfg_rom_address = 0,
     cfg_capabilities_ptr = 0, cfg_interrupt_line = 0, cfg_interrupt_pin = 0, cfg_min_grant = 0, cfg_max_latency = 0\<rparr>"

definition zero_pci_device :: pci_device where
  "zero_pci_device = \<lparr>pd_location = \<lparr>loc_bus = 0, loc_device = 0, loc_function = 0\<rparr>, pd_config = zero_pci_config, bar_sizes = replicate 6 0,
     bar_is_io = replicate 6 False, bar_is_64bit = replicate 6 False, pd_next = 0\<rparr>"

definition zero_device_info :: device_info where
  "zero_device_info = \<lparr>di_name = [], di_description = [], manufacturer = [], model = [], serial_number = [], firmware_version = [],
     di_vendor_id = 0, di_device_id = 0, di_revision = 0, di_class_code = 0, di_subclass_code = 0\<rparr>"

definition zero_device_config :: device_config where
  "zero_device_config = \<lparr>base_address = 0, memory_mapped_base = 0, memory_size = 0, irq_line = 0, dma_channel = 0, clock_frequency = 0,
     max_transfer_size = 0, alignment_requirement = 0, timeout_ms = 0, retry_count = 0\<rparr>"

definition zero_device :: device where
  "zero_device = \<lparr>device_id = 0, dev_type = DEVICE_TYPE_UNKNOWN, dev_state = DEVICE_STATE_UNKNOWN, capabilities = 0,
     dev_info = zero_device_info, dev_config = zero_device_config, dev_stats = zero_device_stats, driver = 0, dev_parent = 0,
     dev_children = 0, next_sibling = 0, dev_next = 0, request_queue = 0, driver_data = 0, created_time = 0, last_access_time = 0,
     registered = False\<rparr>"

definition upd_pci :: "u64 \<Rightarrow> (pci_device \<Rightarrow> pci_device) \<Rightarrow> ('h, 'a) pci_sys_scheme \<Rightarrow> ('h, 'a) pci_sys_scheme option" where
  "upd_pci p f s = do { pd \<leftarrow> pdevs s p; Some (s\<lparr>pdevs := (pdevs s)(p \<mapsto> f pd)\<rparr>) }"

abbreviation upd_pstats :: "(pci_bus_stats \<Rightarrow> pci_bus_stats) \<Rightarrow> ('h, 'a) pci_sys_scheme \<Rightarrow> ('h, 'a) pci_sys_scheme" where
  "upd_pstats f s \<equiv> s\<lparr>pci_stats := f (pci_stats s)\<rparr>"

section \<open>Names\<close>

definition pci_vendors :: "(u16 \<times> string) list" where
  "pci_vendors = [(0x8086, ''Intel Corporation''), (0x1022, ''Advanced Micro Devices''), (0x10DE, ''NVIDIA Corporation''),
     (0x1002, ''Advanced Micro Devices''), (0x15AD, ''VMware''), (0x1234, ''QEMU''), (0x1AF4, ''Red Hat, Inc.''),
     (0x1013, ''Cirrus Logic''), (0x5853, ''XenSource, Inc.''), (0x80EE, ''InnoTek Systemberatung GmbH''), (0x0000, ''Unknown Vendor'')]"

definition pci_class_names :: "(u8 \<times> string) list" where
  "pci_class_names = [(0x00, ''Unclassified Device''), (0x01, ''Mass Storage Controller''), (0x02, ''Network Controller''),
     (0x03, ''Display Controller''), (0x04, ''Multimedia Controller''), (0x05, ''Memory Controller''), (0x06, ''Bridge Device''),
     (0x07, ''Communication Controller''), (0x08, ''System Peripheral''), (0x09, ''Input Device Controller''), (0x0A, ''Docking Station''),
     (0x0B, ''Processor''), (0x0C, ''Serial Bus Controller''), (0x0D, ''Wireless Controller''), (0x0E, ''Intelligent Controller''),
     (0x0F, ''Satellite Controller''), (0x10, ''Encryption Controller''), (0x11, ''Signal Processing Controller''),
     (0x12, ''Processing Accelerator''), (0x13, ''Non-Essential Instrumentation''), (0x40, ''Coprocessor''), (0xFF, ''Unassigned Class'')]"

definition pci_get_class_name :: "u8 \<Rightarrow> string" where
  "pci_get_class_name class_code = (case map_of pci_class_names class_code of Some name \<Rightarrow> name | None \<Rightarrow> ''Unknown Class'')"

definition pci_get_vendor_name :: "u16 \<Rightarrow> string" where
  "pci_get_vendor_name vendor_id = (case map_of pci_vendors vendor_id of Some name \<Rightarrow> name | None \<Rightarrow> ''Unknown Vendor'')"

text \<open>The conversions \<^verbatim>\<open>%x\<close> and \<^verbatim>\<open>%X\<close> with a least width, and a text cut to a buffer with room for the terminating zero.\<close>

fun hex :: "string \<Rightarrow> nat \<Rightarrow> string" where
  "hex digits n = (if n < 16 then [digits ! n] else hex digits (n div 16) @ [digits ! (n mod 16)])"

declare hex.simps [simp del]

definition padded :: "nat \<Rightarrow> string \<Rightarrow> string" where
  "padded w xs = replicate (w - length xs) CHR ''0'' @ xs"

abbreviation hex_lower :: "nat \<Rightarrow> string" where
  "hex_lower \<equiv> hex ''0123456789abcdef''"

abbreviation hex_upper :: "nat \<Rightarrow> string" where
  "hex_upper \<equiv> hex ''0123456789ABCDEF''"

definition location_name :: "pci_location \<Rightarrow> string" where
  "location_name loc = ''PCI_'' @ padded 2 (hex_lower (unat (loc_bus loc))) @ '':'' @ padded 2 (hex_lower (unat (loc_device loc))) @ ''.'' @
     hex_lower (unat (loc_function loc))"

fun pci_class_to_device_type :: "u8 \<Rightarrow> device_type" where
  "pci_class_to_device_type class_code =
     (if class_code = 0x01 then DEVICE_TYPE_STORAGE
      else if class_code = 0x02 then DEVICE_TYPE_NETWORK
      else if class_code = 0x03 then DEVICE_TYPE_GRAPHICS
      else if class_code = 0x04 then DEVICE_TYPE_AUDIO
      else if class_code = 0x09 then DEVICE_TYPE_INPUT
      else if class_code = 0x0C then DEVICE_TYPE_SERIAL
      else DEVICE_TYPE_PCI)"

section \<open>Configuration space\<close>

definition pci_make_address :: "u8 \<Rightarrow> u8 \<Rightarrow> u8 \<Rightarrow> u8 \<Rightarrow> u32" where
  "pci_make_address bus device function offset =
     PCI_CONFIG_ENABLE OR push_bit 16 (ucast bus) OR push_bit 11 (ucast (device AND 0x1F)) OR push_bit 8 (ucast (function AND 0x07)) OR
     ucast (offset AND 0xFC)"

definition pci_config_read :: "'h ports \<Rightarrow> pci_location \<Rightarrow> u8 \<Rightarrow> u8 \<Rightarrow> ('h, 'a) pci_sys_scheme \<Rightarrow> u32 \<times> ('h, 'a) pci_sys_scheme" where
  "pci_config_read io location offset sz s =
     (if \<not> pci_initialized s \<or> 4 < sz \<or> sz AND (sz - 1) \<noteq> 0 then (0xFFFFFFFF, s)
      else
        let offset = offset AND NOT (sz - 1);
            address = pci_make_address (loc_bus location) (loc_device location) (loc_function location) offset;
            h = port_outl io PCI_CONFIG_ADDRESS address (hardware s);
            (data, h) = (if sz = 1 then (case port_inb io (PCI_CONFIG_DATA + ucast (offset AND 3)) h of (v, h) \<Rightarrow> (ucast v, h))
                         else if sz = 2 then (case port_inw io (PCI_CONFIG_DATA + ucast (offset AND 2)) h of (v, h) \<Rightarrow> (ucast v, h))
                         else if sz = 4 then port_inl io PCI_CONFIG_DATA h
                         else (0xFFFFFFFF, h))
        in (data, upd_pstats (\<lambda>st. st\<lparr>config_reads := config_reads st + 1\<rparr>) (s\<lparr>hardware := h\<rparr>)))"

definition pci_config_write :: "'h ports \<Rightarrow> pci_location \<Rightarrow> u8 \<Rightarrow> u32 \<Rightarrow> u8 \<Rightarrow> ('h, 'a) pci_sys_scheme \<Rightarrow> ('h, 'a) pci_sys_scheme" where
  "pci_config_write io location offset val sz s =
     (if \<not> pci_initialized s \<or> 4 < sz \<or> sz AND (sz - 1) \<noteq> 0 then s
      else
        let offset = offset AND NOT (sz - 1);
            address = pci_make_address (loc_bus location) (loc_device location) (loc_function location) offset;
            h = port_outl io PCI_CONFIG_ADDRESS address (hardware s);
            h = (if sz = 1 then port_outb io (PCI_CONFIG_DATA + ucast (offset AND 3)) (ucast val) h
                 else if sz = 2 then port_outw io (PCI_CONFIG_DATA + ucast (offset AND 2)) (ucast val) h
                 else if sz = 4 then port_outl io PCI_CONFIG_DATA val h
                 else h)
        in upd_pstats (\<lambda>st. st\<lparr>config_writes := config_writes st + 1\<rparr>) (s\<lparr>hardware := h\<rparr>))"

definition pci_config_read8 :: "'h ports \<Rightarrow> pci_location \<Rightarrow> u8 \<Rightarrow> ('h, 'a) pci_sys_scheme \<Rightarrow> u8 \<times> ('h, 'a) pci_sys_scheme" where
  "pci_config_read8 io location offset s = (case pci_config_read io location offset 1 s of (v, s) \<Rightarrow> (ucast v, s))"

definition pci_config_read16 :: "'h ports \<Rightarrow> pci_location \<Rightarrow> u8 \<Rightarrow> ('h, 'a) pci_sys_scheme \<Rightarrow> u16 \<times> ('h, 'a) pci_sys_scheme" where
  "pci_config_read16 io location offset s = (case pci_config_read io location offset 2 s of (v, s) \<Rightarrow> (ucast v, s))"

definition pci_config_read32 :: "'h ports \<Rightarrow> pci_location \<Rightarrow> u8 \<Rightarrow> ('h, 'a) pci_sys_scheme \<Rightarrow> u32 \<times> ('h, 'a) pci_sys_scheme" where
  "pci_config_read32 io location offset s = pci_config_read io location offset 4 s"

definition pci_config_write8 :: "'h ports \<Rightarrow> pci_location \<Rightarrow> u8 \<Rightarrow> u8 \<Rightarrow> ('h, 'a) pci_sys_scheme \<Rightarrow> ('h, 'a) pci_sys_scheme" where
  "pci_config_write8 io location offset val s = pci_config_write io location offset (ucast val) 1 s"

definition pci_config_write16 :: "'h ports \<Rightarrow> pci_location \<Rightarrow> u8 \<Rightarrow> u16 \<Rightarrow> ('h, 'a) pci_sys_scheme \<Rightarrow> ('h, 'a) pci_sys_scheme" where
  "pci_config_write16 io location offset val s = pci_config_write io location offset (ucast val) 2 s"

definition pci_config_write32 :: "'h ports \<Rightarrow> pci_location \<Rightarrow> u8 \<Rightarrow> u32 \<Rightarrow> ('h, 'a) pci_sys_scheme \<Rightarrow> ('h, 'a) pci_sys_scheme" where
  "pci_config_write32 io location offset val s = pci_config_write io location offset val 4 s"

section \<open>Base address registers\<close>

definition pci_get_bar_address :: "u64 \<Rightarrow> u8 \<Rightarrow> ('h, 'a) pci_sys_scheme \<Rightarrow> u64 option" where
  "pci_get_bar_address device bar_index s =
     (if device = 0 \<or> 6 \<le> bar_index then Some 0
      else do {
        pd \<leftarrow> pdevs s device;
        let i = unat bar_index;
        let bar = cfg_bar (pd_config pd) ! i;
        if bar_is_io pd ! i then Some (ucast bar AND NOT 0x3)
        else if bar_is_64bit pd ! i \<and> bar_index < 5
        then Some ((ucast bar AND NOT 0xF) OR push_bit 32 (ucast (cfg_bar (pd_config pd) ! (i + 1))))
        else Some (ucast bar AND NOT 0xF) })"

definition pci_get_bar_size :: "u64 \<Rightarrow> u8 \<Rightarrow> ('h, 'a) pci_sys_scheme \<Rightarrow> u32 option" where
  "pci_get_bar_size device bar_index s =
     (if device = 0 \<or> 6 \<le> bar_index then Some 0 else do { pd \<leftarrow> pdevs s device; Some (bar_sizes pd ! unat bar_index) })"

definition pci_bar_is_io :: "u64 \<Rightarrow> u8 \<Rightarrow> ('h, 'a) pci_sys_scheme \<Rightarrow> bool option" where
  "pci_bar_is_io device bar_index s =
     (if device = 0 \<or> 6 \<le> bar_index then Some False else do { pd \<leftarrow> pdevs s device; Some (bar_is_io pd ! unat bar_index) })"

definition pci_bar_is_64bit :: "u64 \<Rightarrow> u8 \<Rightarrow> ('h, 'a) pci_sys_scheme \<Rightarrow> bool option" where
  "pci_bar_is_64bit device bar_index s =
     (if device = 0 \<or> 6 \<le> bar_index then Some False else do { pd \<leftarrow> pdevs s device; Some (bar_is_64bit pd ! unat bar_index) })"

text \<open>Assignments to the elements of the arrays of a device.\<close>

definition set_bar :: "nat \<Rightarrow> u32 \<Rightarrow> pci_device \<Rightarrow> pci_device" where
  "set_bar i v pd = pd\<lparr>pd_config := (pd_config pd)\<lparr>cfg_bar := (cfg_bar (pd_config pd))[i := v]\<rparr>\<rparr>"

definition set_bar_size :: "nat \<Rightarrow> u32 \<Rightarrow> pci_device \<Rightarrow> pci_device" where
  "set_bar_size i v pd = pd\<lparr>bar_sizes := (bar_sizes pd)[i := v]\<rparr>"

definition set_bar_io :: "nat \<Rightarrow> bool \<Rightarrow> pci_device \<Rightarrow> pci_device" where
  "set_bar_io i v pd = pd\<lparr>bar_is_io := (bar_is_io pd)[i := v]\<rparr>"

definition set_bar_64bit :: "nat \<Rightarrow> bool \<Rightarrow> pci_device \<Rightarrow> pci_device" where
  "set_bar_64bit i v pd = pd\<lparr>bar_is_64bit := (bar_is_64bit pd)[i := v]\<rparr>"

definition bar_offset :: "nat \<Rightarrow> u8" where
  "bar_offset i = PCI_CONFIG_BAR0 + of_nat (i * 4)"

text \<open>The kind of a register, from its low bits.\<close>

definition classify_bar :: "u64 \<Rightarrow> nat \<Rightarrow> u32 \<Rightarrow> ('h, 'a) pci_sys_scheme \<Rightarrow> ('h, 'a) pci_sys_scheme option" where
  "classify_bar p i bar s =
     (if bar AND PCI_BAR_TYPE_IO \<noteq> 0 then upd_pci p (set_bar_io i True) s
      else do {
        s \<leftarrow> upd_pci p (set_bar_io i False) s;
        if drop_bit 1 bar AND 0x3 = 2 then upd_pci p (set_bar_64bit i True) s else Some s })"

text \<open>One round of the loop over the registers, with the number of the next one.\<close>

definition probe_bar :: "'h ports \<Rightarrow> pci_location \<Rightarrow> u64 \<Rightarrow> nat \<Rightarrow> ('h, 'a) pci_sys_scheme \<Rightarrow> (nat \<times> ('h, 'a) pci_sys_scheme) option" where
  "probe_bar io loc p i s = do {
     let (bar, s) = pci_config_read32 io loc (bar_offset i) s;
     s \<leftarrow> upd_pci p (set_bar i bar) s;
     if bar = 0 then Some (i + 1, s)
     else do {
       s \<leftarrow> classify_bar p i bar s;
       let s = pci_config_write32 io loc (bar_offset i) 0xFFFFFFFF s;
       let (size_mask, s) = pci_config_read32 io loc (bar_offset i) s;
       let s = pci_config_write32 io loc (bar_offset i) bar s;
       pd \<leftarrow> pdevs s p;
       if bar_is_io pd ! i
       then do { s \<leftarrow> upd_pci p (set_bar_size i (NOT (size_mask AND NOT 0x3) + 1)) s; Some (i + 1, s) }
       else do {
         s \<leftarrow> upd_pci p (set_bar_size i (NOT (size_mask AND NOT 0xF) + 1)) s;
         if bar_is_64bit pd ! i \<and> i < 5
         then do {
           let (high, s) = pci_config_read32 io loc (bar_offset (i + 1)) s;
           s \<leftarrow> upd_pci p (set_bar (i + 1) high) s;
           Some (i + 2, s) }
         else Some (i + 1, s) } } }"

partial_function (option) probe_bars_from :: "'h ports \<Rightarrow> pci_location \<Rightarrow> u64 \<Rightarrow> nat \<Rightarrow> ('h, 'a) pci_sys_scheme \<Rightarrow> ('h, 'a) pci_sys_scheme option" where
  "probe_bars_from io loc p i s =
     (if i < 6 then do { (i, s) \<leftarrow> probe_bar io loc p i s; probe_bars_from io loc p i s } else Some s)"

definition pci_probe_bars :: "'h ports \<Rightarrow> u64 \<Rightarrow> ('h, 'a) pci_sys_scheme \<Rightarrow> ('h, 'a) pci_sys_scheme option" where
  "pci_probe_bars io p s = do { pd \<leftarrow> pdevs s p; probe_bars_from io (pd_location pd) p 0 s }"

section \<open>Enumeration\<close>

definition pci_create_device :: "pci_location \<Rightarrow> ('h, 'a) pci_sys_scheme \<Rightarrow> (u64 \<times> ('h, 'a) pci_sys_scheme) option" where
  "pci_create_device location s = do {
     (p, s) \<leftarrow> kmalloc sizeof_pci_device s;
     if p = 0 then Some (0, s)
     else
       let s = s\<lparr>memory := memset p 0 sizeof_pci_device (memory s)\<rparr>;
           s = s\<lparr>pdevs := (pdevs s)(p \<mapsto> zero_pci_device\<lparr>pd_location := location\<rparr>)\<rparr>;
           s = s\<lparr>devs := (devs s)(p \<mapsto> zero_device\<lparr>dev_type := DEVICE_TYPE_PCI, dev_state := DEVICE_STATE_INITIALIZING,
                   capabilities := DEVICE_CAP_READ OR DEVICE_CAP_WRITE OR DEVICE_CAP_CONFIG\<rparr>)\<rparr>
       in Some (p, s) }"

text \<open>
  The statements of \<^verbatim>\<open>pci_init_device_info\<close> that read a register into a member of the configuration, in their order; the base address
  registers are not among them.
\<close>

datatype read_statement =
    Read8 u8 "u8 \<Rightarrow> pci_config \<Rightarrow> pci_config" | Read16 u8 "u16 \<Rightarrow> pci_config \<Rightarrow> pci_config" | Read32 u8 "u32 \<Rightarrow> pci_config \<Rightarrow> pci_config"

definition config_statements :: "read_statement list" where
  "config_statements =
    [Read16 PCI_CONFIG_VENDOR_ID (\<lambda>v c. c\<lparr>cfg_vendor_id := v\<rparr>),
     Read16 PCI_CONFIG_DEVICE_ID (\<lambda>v c. c\<lparr>cfg_device_id := v\<rparr>),
     Read16 PCI_CONFIG_COMMAND (\<lambda>v c. c\<lparr>cfg_command := v\<rparr>),
     Read16 PCI_CONFIG_STATUS (\<lambda>v c. c\<lparr>cfg_status := v\<rparr>),
     Read8 PCI_CONFIG_REVISION_ID (\<lambda>v c. c\<lparr>cfg_revision_id := v\<rparr>),
     Read8 PCI_CONFIG_PROG_IF (\<lambda>v c. c\<lparr>cfg_prog_if := v\<rparr>),
     Read8 PCI_CONFIG_SUBCLASS (\<lambda>v c. c\<lparr>cfg_subclass := v\<rparr>),
     Read8 PCI_CONFIG_CLASS (\<lambda>v c. c\<lparr>cfg_class_code := v\<rparr>),
     Read8 PCI_CONFIG_CACHE_LINE_SIZE (\<lambda>v c. c\<lparr>cfg_cache_line_size := v\<rparr>),
     Read8 PCI_CONFIG_LATENCY_TIMER (\<lambda>v c. c\<lparr>cfg_latency_timer := v\<rparr>),
     Read8 PCI_CONFIG_HEADER_TYPE (\<lambda>v c. c\<lparr>cfg_header_type := v\<rparr>),
     Read8 PCI_CONFIG_BIST (\<lambda>v c. c\<lparr>cfg_bist := v\<rparr>),
     Read32 PCI_CONFIG_CARDBUS_CIS (\<lambda>v c. c\<lparr>cfg_cardbus_cis := v\<rparr>),
     Read16 PCI_CONFIG_SUBSYSTEM_VID (\<lambda>v c. c\<lparr>cfg_subsystem_vendor_id := v\<rparr>),
     Read16 PCI_CONFIG_SUBSYSTEM_ID (\<lambda>v c. c\<lparr>cfg_subsystem_id := v\<rparr>),
     Read32 PCI_CONFIG_ROM_ADDRESS (\<lambda>v c. c\<lparr>cfg_rom_address := v\<rparr>),
     Read8 PCI_CONFIG_CAPABILITIES (\<lambda>v c. c\<lparr>cfg_capabilities_ptr := v\<rparr>),
     Read8 PCI_CONFIG_INTERRUPT_LINE (\<lambda>v c. c\<lparr>cfg_interrupt_line := v\<rparr>),
     Read8 PCI_CONFIG_INTERRUPT_PIN (\<lambda>v c. c\<lparr>cfg_interrupt_pin := v\<rparr>),
     Read8 PCI_CONFIG_MIN_GRANT (\<lambda>v c. c\<lparr>cfg_min_grant := v\<rparr>),
     Read8 PCI_CONFIG_MAX_LATENCY (\<lambda>v c. c\<lparr>cfg_max_latency := v\<rparr>)]"

fun read_config :: "'h ports \<Rightarrow> pci_location \<Rightarrow> read_statement list \<Rightarrow> pci_config \<Rightarrow> ('h, 'a) pci_sys_scheme \<Rightarrow> pci_config \<times> ('h, 'a) pci_sys_scheme" where
  "read_config io loc [] c s = (c, s)"
| "read_config io loc (Read8 off f # xs) c s = (let (v, s) = pci_config_read8 io loc off s in read_config io loc xs (f v c) s)"
| "read_config io loc (Read16 off f # xs) c s = (let (v, s) = pci_config_read16 io loc off s in read_config io loc xs (f v c) s)"
| "read_config io loc (Read32 off f # xs) c s = (let (v, s) = pci_config_read32 io loc off s in read_config io loc xs (f v c) s)"

definition pci_info :: "pci_location \<Rightarrow> pci_config \<Rightarrow> device_info \<Rightarrow> device_info" where
  "pci_info loc c info = info\<lparr>di_name := take 63 (location_name loc), di_description := take 127 (pci_get_class_name (cfg_class_code c)),
     manufacturer := take 63 (pci_get_vendor_name (cfg_vendor_id c)),
     model := take 63 (''Device_'' @ padded 4 (hex_upper (unat (cfg_device_id c)))),
     di_vendor_id := ucast (cfg_vendor_id c), di_device_id := ucast (cfg_device_id c), di_revision := ucast (cfg_revision_id c),
     di_class_code := ucast (cfg_class_code c), di_subclass_code := ucast (cfg_subclass c)\<rparr>"

definition pci_init_device_info :: "'h ports \<Rightarrow> u64 \<Rightarrow> ('h, 'a) pci_sys_scheme \<Rightarrow> ('h, 'a) pci_sys_scheme option" where
  "pci_init_device_info io p s = do {
     pd \<leftarrow> pdevs s p;
     let loc = pd_location pd;
     let (c, s) = read_config io loc config_statements (pd_config pd) s;
     s \<leftarrow> upd_pci p (\<lambda>pd. pd\<lparr>pd_config := c\<rparr>) s;
     s \<leftarrow> upd_dev p (\<lambda>dv. dv\<lparr>dev_info := pci_info loc c (dev_info dv)\<rparr>) s;
     s \<leftarrow> upd_dev p (\<lambda>dv. dv\<lparr>dev_type := pci_class_to_device_type (cfg_class_code c)\<rparr>) s;
     a \<leftarrow> pci_get_bar_address p 0 s;
     s \<leftarrow> upd_dev p (\<lambda>dv. dv\<lparr>dev_config := (dev_config dv)\<lparr>base_address := ucast a\<rparr>\<rparr>) s;
     upd_dev p (\<lambda>dv. dv\<lparr>dev_config := (dev_config dv)\<lparr>irq_line := cfg_interrupt_line c\<rparr>\<rparr>) s }"

text \<open>The new device on the list, with the counters.\<close>

definition link_pci :: "u64 \<Rightarrow> ('h, 'a) pci_sys_scheme \<Rightarrow> ('h, 'a) pci_sys_scheme option" where
  "link_pci p s = do {
     s \<leftarrow> upd_pci p (\<lambda>pd. pd\<lparr>pd_next := pci_list s\<rparr>) s;
     let s = s\<lparr>pci_list := p\<rparr>;
     pd \<leftarrow> pdevs s p;
     let i = unat (cfg_class_code (pd_config pd));
     Some (upd_pstats (\<lambda>st. st\<lparr>pci_total_devices := pci_total_devices st + 1, total_functions := total_functions st + 1,
             devices_by_class := (devices_by_class st)[i := devices_by_class st ! i + 1]\<rparr>) s) }"

definition pci_probe_device :: "('h, 'a) pci_sys_scheme dev_env \<Rightarrow> 'h ports \<Rightarrow> pci_location \<Rightarrow> ('h, 'a) pci_sys_scheme \<Rightarrow>
    (int \<times> ('h, 'a) pci_sys_scheme) option" where
  "pci_probe_device e io location s = do {
     let (vendor_id, s) = pci_config_read16 io location PCI_CONFIG_VENDOR_ID s;
     if vendor_id = 0xFFFF \<or> vendor_id = 0 then Some (err e ENODEV, s)
     else do {
       (p, s) \<leftarrow> pci_create_device location s;
       if p = 0 then Some (err e ENOMEM, s)
       else do {
         s \<leftarrow> pci_init_device_info io p s;
         s \<leftarrow> pci_probe_bars io p s;
         s \<leftarrow> link_pci p s;
         (_, s) \<leftarrow> device_register e p s;
         Some (0, s) } } }"

text \<open>A loop over a list of numbers that may stop with a fault.\<close>

primrec for_each :: "('i \<Rightarrow> 's \<Rightarrow> 's option) \<Rightarrow> 'i list \<Rightarrow> 's \<Rightarrow> 's option" where
  "for_each f [] s = Some s"
| "for_each f (i # is) s = do { s \<leftarrow> f i s; for_each f is s }"

definition count_probe :: "('h, 'a) pci_sys_scheme dev_env \<Rightarrow> 'h ports \<Rightarrow> pci_location \<Rightarrow> u32 \<times> ('h, 'a) pci_sys_scheme \<Rightarrow>
    (u32 \<times> ('h, 'a) pci_sys_scheme) option" where
  "count_probe e io location ns = (case ns of (n, s) \<Rightarrow> do {
     (r, s) \<leftarrow> pci_probe_device e io location s;
     Some (if r = 0 then n + 1 else n, s) })"

definition scan_function :: "('h, 'a) pci_sys_scheme dev_env \<Rightarrow> 'h ports \<Rightarrow> nat \<Rightarrow> nat \<Rightarrow> nat \<Rightarrow> u32 \<times> ('h, 'a) pci_sys_scheme \<Rightarrow>
    (u32 \<times> ('h, 'a) pci_sys_scheme) option" where
  "scan_function e io bus device function ns =
     (let location = \<lparr>loc_bus = of_nat bus, loc_device = of_nat device, loc_function = of_nat function\<rparr>;
          (vendor_id, s) = pci_config_read16 io location PCI_CONFIG_VENDOR_ID (snd ns)
      in if vendor_id \<noteq> 0xFFFF \<and> vendor_id \<noteq> 0 then count_probe e io location (fst ns, s) else Some (fst ns, s))"

definition scan_device :: "('h, 'a) pci_sys_scheme dev_env \<Rightarrow> 'h ports \<Rightarrow> nat \<Rightarrow> nat \<Rightarrow> u32 \<times> ('h, 'a) pci_sys_scheme \<Rightarrow>
    (u32 \<times> ('h, 'a) pci_sys_scheme) option" where
  "scan_device e io bus device ns =
     (let location = \<lparr>loc_bus = of_nat bus, loc_device = of_nat device, loc_function = 0\<rparr>;
          (vendor_id, s) = pci_config_read16 io location PCI_CONFIG_VENDOR_ID (snd ns)
      in if vendor_id = 0xFFFF \<or> vendor_id = 0 then Some (fst ns, s)
         else do {
           (n, s) \<leftarrow> count_probe e io location (fst ns, s);
           let (header_type, s) = pci_config_read8 io location PCI_CONFIG_HEADER_TYPE s;
           if header_type AND PCI_HEADER_TYPE_MULTIFUNCTION \<noteq> 0 then for_each (scan_function e io bus device) [1..<8] (n, s)
           else Some (n, s) })"

definition scan_bus :: "('h, 'a) pci_sys_scheme dev_env \<Rightarrow> 'h ports \<Rightarrow> nat \<Rightarrow> u32 \<times> ('h, 'a) pci_sys_scheme \<Rightarrow>
    (u32 \<times> ('h, 'a) pci_sys_scheme) option" where
  "scan_bus e io bus ns =
     for_each (scan_device e io bus) [0..<32] (fst ns, upd_pstats (\<lambda>st. st\<lparr>total_buses := total_buses st + 1\<rparr>) (snd ns))"

definition pci_enumerate_devices :: "('h, 'a) pci_sys_scheme dev_env \<Rightarrow> 'h ports \<Rightarrow> ('h, 'a) pci_sys_scheme \<Rightarrow>
    (u32 \<times> ('h, 'a) pci_sys_scheme) option" where
  "pci_enumerate_devices e io s =
     (if \<not> pci_initialized s then Some (0, s)
      else do {
        let (start_time, s) = read_clock e s;
        (device_count, s) \<leftarrow> for_each (scan_bus e io) [0..<256] (0, s);
        let (now, s) = read_clock e s;
        Some (device_count, upd_pstats (\<lambda>st. st\<lparr>enumeration_time_ms := ucast now - ucast start_time\<rparr>) s) })"

section \<open>The list of devices\<close>

definition pci_init :: "('h, 'a) pci_sys_scheme dev_env \<Rightarrow> ('h, 'a) pci_sys_scheme \<Rightarrow> int \<times> ('h, 'a) pci_sys_scheme" where
  "pci_init e s =
     (if pci_initialized s then (0, s)
      else
        let s = s\<lparr>pci_list := 0, pci_stats := zero_pci_stats, enumeration_start := 0, pci_initialized := True\<rparr>;
            (now, s) = read_clock e s
        in (0, s\<lparr>enumeration_start := ucast now\<rparr>))"

text \<open>Freeing a device frees its base device with it.\<close>

partial_function (option) free_devices :: "u64 \<Rightarrow> ('h, 'a) pci_sys_scheme \<Rightarrow> ('h, 'a) pci_sys_scheme option" where
  "free_devices device s =
     (if device = 0 then Some s
      else do {
        pd \<leftarrow> pdevs s device;
        s \<leftarrow> kfree device s;
        free_devices (pd_next pd) (s\<lparr>pdevs := (pdevs s)(device := None), devs := (devs s)(device := None)\<rparr>) })"

definition pci_shutdown :: "('h, 'a) pci_sys_scheme \<Rightarrow> ('h, 'a) pci_sys_scheme option" where
  "pci_shutdown s =
     (if \<not> pci_initialized s then Some s
      else do { s \<leftarrow> free_devices (pci_list s) s; Some (s\<lparr>pci_initialized := False\<rparr>) })"

definition pci_find_device :: "u16 \<Rightarrow> u16 \<Rightarrow> ('h, 'a) pci_sys_scheme \<Rightarrow> u64 option" where
  "pci_find_device vendor device s =
     (if \<not> pci_initialized s then Some 0
      else chain_find pd_next (\<lambda>_ pd. cfg_vendor_id (pd_config pd) = vendor \<and> cfg_device_id (pd_config pd) = device) (pdevs s) (pci_list s))"

partial_function (option) find_by_class_loop ::
    "u8 \<Rightarrow> u64 \<Rightarrow> u32 \<Rightarrow> u64 \<Rightarrow> u32 \<Rightarrow> ('h, 'a) pci_sys_scheme \<Rightarrow> (u32 \<times> ('h, 'a) pci_sys_scheme) option" where
  "find_by_class_loop class_code devices max_devices d count s =
     (if d = 0 \<or> \<not> count < max_devices then Some (count, s)
      else do {
        pd \<leftarrow> pdevs s d;
        let (count, s) = (if cfg_class_code (pd_config pd) = class_code
          then (count + 1, s\<lparr>memory := store64 (devices + 8 * ucast count) d (memory s)\<rparr>) else (count, s));
        find_by_class_loop class_code devices max_devices (pd_next pd) count s })"

definition pci_find_devices_by_class :: "u8 \<Rightarrow> u64 \<Rightarrow> u32 \<Rightarrow> ('h, 'a) pci_sys_scheme \<Rightarrow> (u32 \<times> ('h, 'a) pci_sys_scheme) option" where
  "pci_find_devices_by_class class_code devices max_devices s =
     (if \<not> pci_initialized s \<or> devices = 0 \<or> max_devices = 0 then Some (0, s)
      else find_by_class_loop class_code devices max_devices (pci_list s) 0 s)"

partial_function (option) pci_enumerate_from ::
    "(u64 \<Rightarrow> ('h, 'a) pci_sys_scheme \<Rightarrow> ('h, 'a) pci_sys_scheme option) \<Rightarrow> u64 \<Rightarrow> ('h, 'a) pci_sys_scheme \<Rightarrow> ('h, 'a) pci_sys_scheme option" where
  "pci_enumerate_from callback d s =
     (if d = 0 then Some s
      else do { s \<leftarrow> callback d s; pd \<leftarrow> pdevs s d; pci_enumerate_from callback (pd_next pd) s })"

definition pci_enumerate :: "(u64 \<Rightarrow> ('h, 'a) pci_sys_scheme \<Rightarrow> ('h, 'a) pci_sys_scheme option) option \<Rightarrow> ('h, 'a) pci_sys_scheme \<Rightarrow>
    ('h, 'a) pci_sys_scheme option" where
  "pci_enumerate callback s =
     (case callback of None \<Rightarrow> Some s | Some f \<Rightarrow> if \<not> pci_initialized s then Some s else pci_enumerate_from f (pci_list s) s)"

section \<open>The command register\<close>

definition write_command :: "'h ports \<Rightarrow> u64 \<Rightarrow> (u16 \<Rightarrow> u16) \<Rightarrow> ('h, 'a) pci_sys_scheme \<Rightarrow> ('h, 'a) pci_sys_scheme option" where
  "write_command io device f s = do {
     pd \<leftarrow> pdevs s device;
     let command = f (cfg_command (pd_config pd));
     let s = pci_config_write16 io (pd_location pd) PCI_CONFIG_COMMAND command s;
     upd_pci device (\<lambda>pd. pd\<lparr>pd_config := (pd_config pd)\<lparr>cfg_command := command\<rparr>\<rparr>) s }"

definition pci_enable_device :: "('h, 'a) pci_sys_scheme dev_env \<Rightarrow> 'h ports \<Rightarrow> u64 \<Rightarrow> ('h, 'a) pci_sys_scheme \<Rightarrow>
    (int \<times> ('h, 'a) pci_sys_scheme) option" where
  "pci_enable_device e io device s =
     (if device = 0 then Some (err e EINVAL, s)
      else do { s \<leftarrow> write_command io device (\<lambda>c. c OR (PCI_COMMAND_IO OR PCI_COMMAND_MEMORY)) s; Some (0, s) })"

definition pci_disable_device :: "('h, 'a) pci_sys_scheme dev_env \<Rightarrow> 'h ports \<Rightarrow> u64 \<Rightarrow> ('h, 'a) pci_sys_scheme \<Rightarrow>
    (int \<times> ('h, 'a) pci_sys_scheme) option" where
  "pci_disable_device e io device s =
     (if device = 0 then Some (err e EINVAL, s)
      else do {
        s \<leftarrow> write_command io device (\<lambda>c. c AND NOT (PCI_COMMAND_IO OR PCI_COMMAND_MEMORY OR PCI_COMMAND_MASTER)) s;
        Some (0, s) })"

definition pci_set_master :: "('h, 'a) pci_sys_scheme dev_env \<Rightarrow> 'h ports \<Rightarrow> u64 \<Rightarrow> bool \<Rightarrow> ('h, 'a) pci_sys_scheme \<Rightarrow>
    (int \<times> ('h, 'a) pci_sys_scheme) option" where
  "pci_set_master e io device enable s =
     (if device = 0 then Some (err e EINVAL, s)
      else do {
        s \<leftarrow> write_command io device (\<lambda>c. if enable then c OR PCI_COMMAND_MASTER else c AND NOT PCI_COMMAND_MASTER) s;
        Some (0, s) })"

definition pci_allocate_resources :: "('h, 'a) pci_sys_scheme dev_env \<Rightarrow> 'h ports \<Rightarrow> u64 \<Rightarrow> ('h, 'a) pci_sys_scheme \<Rightarrow>
    (int \<times> ('h, 'a) pci_sys_scheme) option" where
  "pci_allocate_resources e io device s = (if device = 0 then Some (err e EINVAL, s) else pci_enable_device e io device s)"

definition pci_free_resources :: "('h, 'a) pci_sys_scheme dev_env \<Rightarrow> 'h ports \<Rightarrow> u64 \<Rightarrow> ('h, 'a) pci_sys_scheme \<Rightarrow>
    ('h, 'a) pci_sys_scheme option" where
  "pci_free_resources e io device s = (if device = 0 then Some s else do { (_, s) \<leftarrow> pci_disable_device e io device s; Some s })"

definition pci_get_stats :: "('h, 'a) pci_sys_scheme \<Rightarrow> pci_bus_stats option" where
  "pci_get_stats s = (if \<not> pci_initialized s then None else Some (pci_stats s))"

definition pci_reset_stats :: "('h, 'a) pci_sys_scheme \<Rightarrow> ('h, 'a) pci_sys_scheme" where
  "pci_reset_stats s = (if \<not> pci_initialized s then s else s\<lparr>pci_stats := zero_pci_stats\<rparr>)"

section \<open>Addresses\<close>

lemma bit_masks:
  "bit (0x1F :: u8) k \<longleftrightarrow> k < 5" "bit (0x07 :: u8) k \<longleftrightarrow> k < 3" "bit (0xFC :: u8) k \<longleftrightarrow> 2 \<le> k \<and> k < 8" "bit (0x3 :: u32) k \<longleftrightarrow> k < 2"
proof -
  have e: "(0x1F :: u8) = mask 5" "(0x07 :: u8) = mask 3" "(0xFC :: u8) = push_bit 2 (mask 6)" "(0x3 :: u32) = mask 2"
    by (simp_all add: mask_eq_exp_minus_1)
  show "bit (0x1F :: u8) k \<longleftrightarrow> k < 5" unfolding e by (auto simp: bit_simps)
  show "bit (0x07 :: u8) k \<longleftrightarrow> k < 3" unfolding e by (auto simp: bit_simps)
  show "bit (0xFC :: u8) k \<longleftrightarrow> 2 \<le> k \<and> k < 8" unfolding e(3) by (auto simp: bit_simps)
  show "bit (0x3 :: u32) k \<longleftrightarrow> k < 2" unfolding e(4) by (auto simp: bit_simps)
qed

text \<open>The bits of a configuration address: a function is selected by 16 bits, a register of it by 6 bits.\<close>

lemma bit_len8: "bit (b :: u8) k \<Longrightarrow> k < 8"
  using bit_imp_le_length [of b k] by simp

lemma bit_pci_make_address:
  "bit (pci_make_address b d f off) n \<longleftrightarrow> n = 31 \<or> (16 \<le> n \<and> n < 24 \<and> bit b (n - 16)) \<or> (11 \<le> n \<and> n < 16 \<and> bit d (n - 11)) \<or>
     (8 \<le> n \<and> n < 11 \<and> bit f (n - 8)) \<or> (2 \<le> n \<and> n < 8 \<and> bit off n)"
proof -
  have 1: "bit (PCI_CONFIG_ENABLE) n \<longleftrightarrow> n = 31" unfolding PCI_CONFIG_ENABLE_def bit_push_bit_iff bit_1_iff by auto
  have 2: "bit (push_bit 16 (ucast b) :: u32) n \<longleftrightarrow> 16 \<le> n \<and> n < 24 \<and> bit b (n - 16)"
    using bit_len8 [of b "n - 16"] by (auto simp: bit_simps)
  have 3: "bit (push_bit 11 (ucast (d AND 0x1F)) :: u32) n \<longleftrightarrow> 11 \<le> n \<and> n < 16 \<and> bit d (n - 11)"
    unfolding bit_push_bit_iff bit_unsigned_iff bit_and_iff bit_masks by auto
  have 4: "bit (push_bit 8 (ucast (f AND 0x07)) :: u32) n \<longleftrightarrow> 8 \<le> n \<and> n < 11 \<and> bit f (n - 8)"
    unfolding bit_push_bit_iff bit_unsigned_iff bit_and_iff bit_masks by auto
  have 5: "bit (ucast (off AND 0xFC) :: u32) n \<longleftrightarrow> 2 \<le> n \<and> n < 8 \<and> bit off n"
    unfolding bit_push_bit_iff bit_unsigned_iff bit_and_iff bit_masks by auto
  show ?thesis unfolding pci_make_address_def bit_or_iff 1 2 3 4 5 by blast
qed

text \<open>The alignment of an offset does not change the register it is in.\<close>

lemma pci_make_address_aligned [simp]:
  "pci_make_address b d f (off AND - 4) = pci_make_address b d f off" "pci_make_address b d f (off AND - 2) = pci_make_address b d f off"
proof -
  have "(off AND - 4) AND 0xFC = off AND 0xFC" "(off AND - 2) AND 0xFC = off AND 0xFC" for off :: u8 by (simp_all add: and.assoc)
  then show "pci_make_address b d f (off AND - 4) = pci_make_address b d f off" "pci_make_address b d f (off AND - 2) = pci_make_address b d f off"
    by (simp_all only: pci_make_address_def)
qed

text \<open>The fields of an address can be read back, the device and the function as far as they fit.\<close>

lemma pci_make_address_decodes:
  "ucast (drop_bit 16 (pci_make_address bus device function offset)) = bus"
  "ucast (drop_bit 11 (pci_make_address bus device function offset)) AND 0x1F = device AND 0x1F"
  "ucast (drop_bit 8 (pci_make_address bus device function offset)) AND 0x07 = function AND 0x07"
  "ucast (pci_make_address bus device function offset) AND 0xFC = offset AND 0xFC"
  "pci_make_address bus device function offset AND 0x3 = 0"
proof -
  show "ucast (drop_bit 16 (pci_make_address bus device function offset)) = bus"
    by (rule bit_word_eqI) (auto simp: bit_simps bit_pci_make_address)
  show "ucast (drop_bit 11 (pci_make_address bus device function offset)) AND 0x1F = device AND 0x1F"
    by (rule bit_word_eqI, unfold bit_and_iff bit_unsigned_iff bit_drop_bit_eq bit_masks o_apply bit_pci_make_address) auto
  show "ucast (drop_bit 8 (pci_make_address bus device function offset)) AND 0x07 = function AND 0x07"
    by (rule bit_word_eqI, unfold bit_and_iff bit_unsigned_iff bit_drop_bit_eq bit_masks o_apply bit_pci_make_address) auto
  show "ucast (pci_make_address bus device function offset) AND 0xFC = offset AND 0xFC"
    by (rule bit_word_eqI, unfold bit_and_iff bit_unsigned_iff bit_drop_bit_eq bit_masks o_apply bit_pci_make_address) auto
  show "pci_make_address bus device function offset AND 0x3 = 0"
    by (rule bit_word_eqI, unfold bit_and_iff bit_unsigned_iff bit_drop_bit_eq bit_masks o_apply bit_pci_make_address) auto
qed

section \<open>The hardware\<close>

text \<open>
  What is known of the hardware behind the ports, from the specification of the bus: after an address is written to the address port, the data
  port reads the selected register, in parts of one, two or four bytes, and writes it. Of a value written, a register keeps what
  \<open>latch\<close> says; reading changes no register, nor does selecting.
\<close>

definition config_ports :: "'h ports \<Rightarrow> ('h \<Rightarrow> u32 \<Rightarrow> u32) \<Rightarrow> (u32 \<Rightarrow> u32 \<Rightarrow> u32) \<Rightarrow> bool" where
  "config_ports io reg latch \<longleftrightarrow> (\<forall>h a. let h1 = port_outl io PCI_CONFIG_ADDRESS a h in
     (\<exists>h'. port_inl io PCI_CONFIG_DATA h1 = (reg h a, h') \<and> reg h' = reg h) \<and>
     (\<forall>k<4. \<exists>h'. port_inw io (PCI_CONFIG_DATA + ucast k) h1 = (ucast (drop_bit (8 * unat (k :: u8)) (reg h a)), h') \<and> reg h' = reg h) \<and>
     (\<forall>k<4. \<exists>h'. port_inb io (PCI_CONFIG_DATA + ucast k) h1 = (ucast (drop_bit (8 * unat (k :: u8)) (reg h a)), h') \<and> reg h' = reg h) \<and>
     (\<forall>v. reg (port_outl io PCI_CONFIG_DATA v h1) = (reg h)(a := latch a v)))"

text \<open>Register contents by location; states that differ in the use of the ports only.\<close>

definition reg_at :: "('h \<Rightarrow> u32 \<Rightarrow> u32) \<Rightarrow> 'h \<Rightarrow> pci_location \<Rightarrow> u8 \<Rightarrow> u32" where
  "reg_at reg h loc off = reg h (pci_make_address (loc_bus loc) (loc_device loc) (loc_function loc) off)"

definition touched :: "('h \<Rightarrow> u32 \<Rightarrow> u32) \<Rightarrow> ('h, 'a) pci_sys_scheme \<Rightarrow> ('h, 'a) pci_sys_scheme \<Rightarrow> bool" where
  "touched R s s' \<longleftrightarrow> (\<exists>h r w. s' = s\<lparr>hardware := h, pci_stats := (pci_stats s)\<lparr>config_reads := r, config_writes := w\<rparr>\<rparr> \<and> R h = R (hardware s))"

lemma touched_refl: "touched R s s"
  unfolding touched_def by (intro exI [of _ "hardware s"] exI [of _ "config_reads (pci_stats s)"] exI [of _ "config_writes (pci_stats s)"]) simp

lemma touched_trans: "touched R s t \<Longrightarrow> touched R t u \<Longrightarrow> touched R s u"
  unfolding touched_def by force

lemma touched_simps:
  assumes "touched R s s'"
  shows "R (hardware s') = R (hardware s)" "pdevs s' = pdevs s" "devs s' = devs s" "pci_initialized s' = pci_initialized s" "pci_list s' = pci_list s"
    "memory s' = memory s" "reg_at R (hardware s') = reg_at R (hardware s)"
  using assms unfolding touched_def by (auto simp: reg_at_def fun_eq_iff)

lemma read32_spec:
  assumes io: "config_ports io R latch" and ini: "pci_initialized s"
  obtains s' where "pci_config_read32 io loc off s = (reg_at R (hardware s) loc off, s')" "touched R s s'"
proof -
  let ?a = "pci_make_address (loc_bus loc) (loc_device loc) (loc_function loc) off"
  obtain h' where h: "port_inl io PCI_CONFIG_DATA (port_outl io PCI_CONFIG_ADDRESS ?a (hardware s)) = (R (hardware s) ?a, h')" "R h' = R (hardware s)"
    using io unfolding config_ports_def Let_def by blast
  let ?s = "upd_pstats (\<lambda>st. st\<lparr>config_reads := config_reads st + 1\<rparr>) (s\<lparr>hardware := h'\<rparr>)"
  have "pci_config_read32 io loc off s = (reg_at R (hardware s) loc off, ?s)"
    using ini h(1) by (simp add: pci_config_read32_def pci_config_read_def reg_at_def Let_def)
  moreover have "touched R s ?s"
    unfolding touched_def using h(2)
    by (intro exI [of _ h'] exI [of _ "config_reads (pci_stats s) + 1"] exI [of _ "config_writes (pci_stats s)"]) simp
  ultimately show thesis by (rule that)
qed

lemma write32_spec:
  assumes io: "config_ports io R latch" and ini: "pci_initialized s"
  shows "\<exists>h. pci_config_write32 io loc off v s =
    s\<lparr>hardware := h, pci_stats := (pci_stats s)\<lparr>config_writes := config_writes (pci_stats s) + 1\<rparr>\<rparr> \<and>
    R h = (R (hardware s))(pci_make_address (loc_bus loc) (loc_device loc) (loc_function loc) off :=
      latch (pci_make_address (loc_bus loc) (loc_device loc) (loc_function loc) off) v)"
proof -
  let ?a = "pci_make_address (loc_bus loc) (loc_device loc) (loc_function loc) off"
  let ?h = "port_outl io PCI_CONFIG_DATA v (port_outl io PCI_CONFIG_ADDRESS ?a (hardware s))"
  have "R ?h = (R (hardware s))(?a := latch ?a v)" using io unfolding config_ports_def Let_def by blast
  then show ?thesis using ini by (intro exI [of _ ?h]) (simp add: pci_config_write32_def pci_config_write_def Let_def)
qed

lemma and_small: "off AND 2 < 4" "off AND 3 < (4 :: u8)"
  by (rule order_le_less_trans [OF word_and_le1]; simp)+

lemma ucast_back [simp]: "ucast (ucast (x :: u16) :: u32) = x" "ucast (ucast (y :: u8) :: u32) = y"
  by (rule bit_word_eqI; simp add: bit_simps)+

lemma read16_spec:
  assumes io: "config_ports io R latch" and ini: "pci_initialized s"
  obtains s' where "pci_config_read16 io loc off s = (ucast (drop_bit (8 * unat (off AND 2)) (reg_at R (hardware s) loc off)), s')" "touched R s s'"
proof -
  let ?a = "pci_make_address (loc_bus loc) (loc_device loc) (loc_function loc) off"
  have "\<exists>h'. port_inw io (PCI_CONFIG_DATA + ucast (off AND 2)) (port_outl io PCI_CONFIG_ADDRESS ?a (hardware s)) =
      (ucast (drop_bit (8 * unat (off AND 2)) (R (hardware s) ?a)), h') \<and> R h' = R (hardware s)"
    using io and_small(1) unfolding config_ports_def Let_def by blast
  then obtain h' where h: "port_inw io (PCI_CONFIG_DATA + ucast (off AND 2)) (port_outl io PCI_CONFIG_ADDRESS ?a (hardware s)) =
      (ucast (drop_bit (8 * unat (off AND 2)) (R (hardware s) ?a)), h')" "R h' = R (hardware s)" by blast
  let ?s = "upd_pstats (\<lambda>st. st\<lparr>config_reads := config_reads st + 1\<rparr>) (s\<lparr>hardware := h'\<rparr>)"
  have "(off AND - 2) AND 2 = off AND 2" by (simp add: and.assoc)
  then have "pci_config_read16 io loc off s = (ucast (drop_bit (8 * unat (off AND 2)) (reg_at R (hardware s) loc off)), ?s)"
    using ini h(1) by (simp add: pci_config_read16_def pci_config_read_def reg_at_def Let_def)
  moreover have "touched R s ?s"
    unfolding touched_def using h(2)
    by (intro exI [of _ h'] exI [of _ "config_reads (pci_stats s) + 1"] exI [of _ "config_writes (pci_stats s)"]) simp
  ultimately show thesis by (rule that)
qed

lemma read8_spec:
  assumes io: "config_ports io R latch" and ini: "pci_initialized s"
  obtains s' where "pci_config_read8 io loc off s = (ucast (drop_bit (8 * unat (off AND 3)) (reg_at R (hardware s) loc off)), s')" "touched R s s'"
proof -
  let ?a = "pci_make_address (loc_bus loc) (loc_device loc) (loc_function loc) off"
  have "\<exists>h'. port_inb io (PCI_CONFIG_DATA + ucast (off AND 3)) (port_outl io PCI_CONFIG_ADDRESS ?a (hardware s)) =
      (ucast (drop_bit (8 * unat (off AND 3)) (R (hardware s) ?a)), h') \<and> R h' = R (hardware s)"
    using io and_small(2) unfolding config_ports_def Let_def by blast
  then obtain h' where h: "port_inb io (PCI_CONFIG_DATA + ucast (off AND 3)) (port_outl io PCI_CONFIG_ADDRESS ?a (hardware s)) =
      (ucast (drop_bit (8 * unat (off AND 3)) (R (hardware s) ?a)), h')" "R h' = R (hardware s)" by blast
  let ?s = "upd_pstats (\<lambda>st. st\<lparr>config_reads := config_reads st + 1\<rparr>) (s\<lparr>hardware := h'\<rparr>)"
  have "pci_config_read8 io loc off s = (ucast (drop_bit (8 * unat (off AND 3)) (reg_at R (hardware s) loc off)), ?s)"
    using ini h(1) by (simp add: pci_config_read8_def pci_config_read_def reg_at_def Let_def)
  moreover have "touched R s ?s"
    unfolding touched_def using h(2)
    by (intro exI [of _ h'] exI [of _ "config_reads (pci_stats s) + 1"] exI [of _ "config_writes (pci_stats s)"]) simp
  ultimately show thesis by (rule that)
qed

section \<open>Base address registers, as read\<close>

text \<open>A register with these low bits is the lower half of a pair; the registers where a base address starts.\<close>

definition is_64bit :: "u32 \<Rightarrow> bool" where
  "is_64bit b \<longleftrightarrow> b AND PCI_BAR_TYPE_IO = 0 \<and> drop_bit 1 b AND 0x3 = 2"

definition next_bar :: "(nat \<Rightarrow> u32) \<Rightarrow> nat \<Rightarrow> nat" where
  "next_bar B i = (if is_64bit (B i) \<and> i < 5 then i + 2 else i + 1)"

function starts :: "(nat \<Rightarrow> u32) \<Rightarrow> nat \<Rightarrow> nat list" where
  "starts B i = (if i < 6 then i # starts B (next_bar B i) else [])"
  by pat_completeness auto
termination by (relation "measure (\<lambda>(B, i). 6 - i)") (auto simp: next_bar_def)

declare starts.simps [simp del]

text \<open>The size from the value \<open>m\<close> that the register holds after all ones are written to it.\<close>

definition bar_size :: "u32 \<Rightarrow> u32 \<Rightarrow> u32" where
  "bar_size b m = NOT (m AND NOT (if b AND PCI_BAR_TYPE_IO \<noteq> 0 then 0x3 else 0xF)) + 1"

definition bar_address :: "pci_location \<Rightarrow> nat \<Rightarrow> u32" where
  "bar_address loc i = pci_make_address (loc_bus loc) (loc_device loc) (loc_function loc) (bar_offset i)"

text \<open>What one round leaves in the device.\<close>

definition bar_done :: "(nat \<Rightarrow> u32) \<Rightarrow> (nat \<Rightarrow> u32) \<Rightarrow> nat \<Rightarrow> pci_device \<Rightarrow> pci_device" where
  "bar_done B S i pd =
     (let pd = set_bar i (B i) pd in
      if B i = 0 then pd
      else
        let pd = set_bar_io i (B i AND PCI_BAR_TYPE_IO \<noteq> 0) pd;
            pd = (if is_64bit (B i) then set_bar_64bit i True pd else pd);
            pd = set_bar_size i (bar_size (B i) (S i)) pd
        in if next_bar B i = i + 2 then set_bar (i + 1) (B (i + 1)) pd else pd)"

lemma set_bar_simps [simp]:
  "bar_is_io (set_bar i v pd) = bar_is_io pd" "bar_is_64bit (set_bar i v pd) = bar_is_64bit pd" "bar_sizes (set_bar i v pd) = bar_sizes pd"
  "cfg_bar (pd_config (set_bar i v pd)) = (cfg_bar (pd_config pd))[i := v]"
  "bar_is_io (set_bar_io i b pd) = (bar_is_io pd)[i := b]" "bar_is_64bit (set_bar_io i b pd) = bar_is_64bit pd" "bar_sizes (set_bar_io i b pd) = bar_sizes pd"
  "pd_config (set_bar_io i b pd) = pd_config pd"
  "bar_is_io (set_bar_64bit i b pd) = bar_is_io pd" "bar_is_64bit (set_bar_64bit i b pd) = (bar_is_64bit pd)[i := b]"
  "bar_sizes (set_bar_64bit i b pd) = bar_sizes pd" "pd_config (set_bar_64bit i b pd) = pd_config pd"
  "bar_is_io (set_bar_size i v pd) = bar_is_io pd" "bar_is_64bit (set_bar_size i v pd) = bar_is_64bit pd"
  "bar_sizes (set_bar_size i v pd) = (bar_sizes pd)[i := v]" "pd_config (set_bar_size i v pd) = pd_config pd"
  by (simp_all add: set_bar_def set_bar_io_def set_bar_64bit_def set_bar_size_def)

text \<open>The state after changes to one device, with any use of the ports.\<close>

definition probed :: "('h \<Rightarrow> u32 \<Rightarrow> u32) \<Rightarrow> u64 \<Rightarrow> ('h, 'a) pci_sys_scheme \<Rightarrow> pci_device \<Rightarrow> ('h, 'a) pci_sys_scheme \<Rightarrow> bool" where
  "probed R p s pd s' \<longleftrightarrow> (\<exists>s0. touched R s s0 \<and> s' = s0\<lparr>pdevs := (pdevs s)(p \<mapsto> pd)\<rparr>)"

lemma probed_start: "pdevs s p = Some pd \<Longrightarrow> touched R s s' \<Longrightarrow> probed R p s pd s'"
  unfolding probed_def by (intro exI [of _ s']) (simp add: map_upd_triv touched_simps(2) [symmetric, of R s s'])

lemma probed_simps:
  assumes "probed R p s pd s'"
  shows "pdevs s' = (pdevs s)(p \<mapsto> pd)" "R (hardware s') = R (hardware s)" "pci_initialized s' = pci_initialized s" "devs s' = devs s"
    "pci_list s' = pci_list s" "memory s' = memory s"
proof -
  obtain s0 where s0: "touched R s s0" "s' = s0\<lparr>pdevs := (pdevs s)(p \<mapsto> pd)\<rparr>" using assms unfolding probed_def by blast
  show "pdevs s' = (pdevs s)(p \<mapsto> pd)" "R (hardware s') = R (hardware s)" "pci_initialized s' = pci_initialized s" "devs s' = devs s"
    "pci_list s' = pci_list s" "memory s' = memory s" using touched_simps [OF s0(1)] by (simp_all add: s0(2))
qed

lemma probed_touched:
  assumes p: "probed R p s pd s'" and t: "touched R s' s''"
  shows "probed R p s pd s''"
proof -
  obtain s0 where s0: "touched R s s0" "s' = s0\<lparr>pdevs := (pdevs s)(p \<mapsto> pd)\<rparr>" using p unfolding probed_def by blast
  obtain h r w where s'': "s'' = s'\<lparr>hardware := h, pci_stats := (pci_stats s')\<lparr>config_reads := r, config_writes := w\<rparr>\<rparr>" "R h = R (hardware s')"
    using t unfolding touched_def by blast
  let ?s1 = "s0\<lparr>hardware := h, pci_stats := (pci_stats s0)\<lparr>config_reads := r, config_writes := w\<rparr>\<rparr>"
  have "touched R s0 ?s1" unfolding touched_def using s''(2) s0(2) by auto
  then have "touched R s ?s1" by (rule touched_trans [OF s0(1)])
  moreover have "s'' = ?s1\<lparr>pdevs := (pdevs s)(p \<mapsto> pd)\<rparr>" using s'' s0(2) by simp
  ultimately show ?thesis unfolding probed_def by blast
qed

lemma probed_upd:
  assumes p: "probed R p s pd s'"
  obtains s'' where "upd_pci p f s' = Some s''" "probed R p s (f pd) s''"
proof -
  obtain s0 where s0: "touched R s s0" "s' = s0\<lparr>pdevs := (pdevs s)(p \<mapsto> pd)\<rparr>" using p unfolding probed_def by blast
  have "upd_pci p f s' = Some (s0\<lparr>pdevs := (pdevs s)(p \<mapsto> f pd)\<rparr>)" by (simp add: upd_pci_def s0(2))
  moreover have "probed R p s (f pd) (s0\<lparr>pdevs := (pdevs s)(p \<mapsto> f pd)\<rparr>)" unfolding probed_def using s0(1) by blast
  ultimately show thesis by (rule that)
qed

text \<open>Writing all ones, reading back and restoring changes no register that keeps its own value when written.\<close>

lemma size_probe:
  assumes io: "config_ports io R latch" and ini: "pci_initialized s"
    and keep: "latch (bar_address loc i) (R (hardware s) (bar_address loc i)) = R (hardware s) (bar_address loc i)"
  obtains s1 s2 s3 where "pci_config_write32 io loc (bar_offset i) 0xFFFFFFFF s = s1"
    "pci_config_read32 io loc (bar_offset i) s1 = (latch (bar_address loc i) 0xFFFFFFFF, s2)"
    "pci_config_write32 io loc (bar_offset i) (R (hardware s) (bar_address loc i)) s2 = s3" "touched R s s3"
proof -
  let ?a = "bar_address loc i" and ?r = "R (hardware s)"
  obtain h1 where h1: "pci_config_write32 io loc (bar_offset i) 0xFFFFFFFF s =
      s\<lparr>hardware := h1, pci_stats := (pci_stats s)\<lparr>config_writes := config_writes (pci_stats s) + 1\<rparr>\<rparr>" "R h1 = ?r(?a := latch ?a 0xFFFFFFFF)"
    using write32_spec [OF io ini, of loc "bar_offset i" "0xFFFFFFFF"] unfolding bar_address_def by blast
  let ?s1 = "s\<lparr>hardware := h1, pci_stats := (pci_stats s)\<lparr>config_writes := config_writes (pci_stats s) + 1\<rparr>\<rparr>"
  have ini1: "pci_initialized ?s1" using ini by simp
  obtain s2 where s2: "pci_config_read32 io loc (bar_offset i) ?s1 = (reg_at R (hardware ?s1) loc (bar_offset i), s2)" "touched R ?s1 s2"
    by (rule read32_spec [OF io ini1])
  have v: "reg_at R (hardware ?s1) loc (bar_offset i) = latch ?a 0xFFFFFFFF" using h1(2) by (simp add: reg_at_def bar_address_def)
  obtain h2 r2 w2 where e2: "s2 = ?s1\<lparr>hardware := h2, pci_stats := (pci_stats ?s1)\<lparr>config_reads := r2, config_writes := w2\<rparr>\<rparr>" "R h2 = R h1"
    using s2(2) unfolding touched_def by auto
  have ini2: "pci_initialized s2" using ini e2(1) by simp
  obtain h3 where h3: "pci_config_write32 io loc (bar_offset i) (?r ?a) s2 =
      s2\<lparr>hardware := h3, pci_stats := (pci_stats s2)\<lparr>config_writes := config_writes (pci_stats s2) + 1\<rparr>\<rparr>" "R h3 = (R (hardware s2))(?a := latch ?a (?r ?a))"
    using write32_spec [OF io ini2, of loc "bar_offset i" "?r ?a"] unfolding bar_address_def by blast
  let ?s3 = "s2\<lparr>hardware := h3, pci_stats := (pci_stats s2)\<lparr>config_writes := config_writes (pci_stats s2) + 1\<rparr>\<rparr>"
  have "R h3 = ?r" using h3(2) e2 h1(2) keep by simp
  then have "touched R s ?s3" unfolding touched_def using e2(1)
    by (intro exI [of _ h3] exI [of _ r2] exI [of _ "w2 + 1"]) simp
  then show thesis using that h1(1) s2(1) v h3(1) by simp
qed

lemma classify_spec:
  assumes p: "probed R p s pd s'"
  obtains s'' where "classify_bar p i b s' = Some s''"
    "probed R p s (let pd = set_bar_io i (b AND PCI_BAR_TYPE_IO \<noteq> 0) pd in if is_64bit b then set_bar_64bit i True pd else pd) s''"
proof (cases "b AND PCI_BAR_TYPE_IO \<noteq> 0")
  case True
  then have "\<not> is_64bit b" by (simp add: is_64bit_def)
  then show thesis using True that probed_upd [OF p, of "set_bar_io i True"] by (auto simp: classify_bar_def)
next
  case False
  obtain s1 where s1: "upd_pci p (set_bar_io i False) s' = Some s1" "probed R p s (set_bar_io i False pd) s1" by (rule probed_upd [OF p])
  obtain s2 where s2: "upd_pci p (set_bar_64bit i True) s1 = Some s2" "probed R p s (set_bar_64bit i True (set_bar_io i False pd)) s2"
    by (rule probed_upd [OF s1(2)])
  show thesis using that [of "if is_64bit b then s2 else s1"] False s1 s2 by (auto simp: classify_bar_def is_64bit_def)
qed

text \<open>One round does what is described.\<close>

lemma probe_bar_spec:
  assumes io: "config_ports io R latch" and pr: "probed R p s0 pd s" and ini: "pci_initialized s0" and i: "i < 6"
    and len: "length (bar_is_io pd) = 6" "length (bar_is_64bit pd) = 6" and new: "\<not> bar_is_64bit pd ! i"
    and keep: "latch (bar_address loc i) (R (hardware s0) (bar_address loc i)) = R (hardware s0) (bar_address loc i)"
  defines "B \<equiv> \<lambda>i. R (hardware s0) (bar_address loc i)" and "S \<equiv> \<lambda>i. latch (bar_address loc i) 0xFFFFFFFF"
  obtains s' where "probe_bar io loc p i s = Some (next_bar B i, s')" "probed R p s0 (bar_done B S i pd) s'"
proof -
  have reg: "reg_at R (hardware t) loc (bar_offset j) = B j" if "probed R p s0 q t" for t q j
    using probed_simps(2) [OF that] by (simp add: reg_at_def B_def bar_address_def)
  have init: "pci_initialized t" if "probed R p s0 q t" for t q using probed_simps(3) [OF that] ini by simp
  obtain s1 where s1: "pci_config_read32 io loc (bar_offset i) s = (B i, s1)" "touched R s s1"
    using read32_spec [OF io init [OF pr], of loc "bar_offset i"] reg [OF pr] by metis
  let ?pd1 = "set_bar i (B i) pd"
  obtain s2 where s2: "upd_pci p (set_bar i (B i)) s1 = Some s2" "probed R p s0 ?pd1 s2"
    by (rule probed_upd [OF probed_touched [OF pr s1(2)]])
  show thesis
  proof (cases "B i = 0")
    case True
    then have "next_bar B i = i + 1" "bar_done B S i pd = ?pd1" by (simp_all add: next_bar_def is_64bit_def bar_done_def)
    then show thesis using that [of s2] s1(1) s2 True by (simp add: probe_bar_def)
  next
    case False
    define pd2 where "pd2 = (let pd = set_bar_io i (B i AND PCI_BAR_TYPE_IO \<noteq> 0) ?pd1 in if is_64bit (B i) then set_bar_64bit i True pd else pd)"
    obtain s3 where s3: "classify_bar p i (B i) s2 = Some s3" "probed R p s0 pd2 s3" unfolding pd2_def by (rule classify_spec [OF s2(2)])
    have keep3: "latch (bar_address loc i) (R (hardware s3) (bar_address loc i)) = R (hardware s3) (bar_address loc i)"
      using keep probed_simps(2) [OF s3(2)] by simp
    obtain t1 t2 s4 where t: "pci_config_write32 io loc (bar_offset i) 0xFFFFFFFF s3 = t1" "pci_config_read32 io loc (bar_offset i) t1 = (S i, t2)"
      "pci_config_write32 io loc (bar_offset i) (B i) t2 = s4" "touched R s3 s4"
      using size_probe [OF io init [OF s3(2)] keep3] probed_simps(2) [OF s3(2)] unfolding S_def B_def by metis
    have p4: "probed R p s0 pd2 s4" by (rule probed_touched [OF s3(2) t(4)])
    have g: "pdevs s4 p = Some pd2" using probed_simps(1) [OF p4] by simp
    have flags: "bar_is_io pd2 ! i = (B i AND PCI_BAR_TYPE_IO \<noteq> 0)" "bar_is_64bit pd2 ! i = is_64bit (B i)"
      using i len new by (simp_all add: pd2_def Let_def)
    let ?pd3 = "set_bar_size i (bar_size (B i) (S i)) pd2"
    obtain s5 where s5: "upd_pci p (set_bar_size i (bar_size (B i) (S i))) s4 = Some s5" "probed R p s0 ?pd3 s5" by (rule probed_upd [OF p4])
    have run: "probe_bar io loc p i s =
        (if is_64bit (B i) \<and> i < 5 then do { let (high, s) = pci_config_read32 io loc (bar_offset (i + 1)) s5; s \<leftarrow> upd_pci p (set_bar (i + 1) high) s; Some (i + 2, s) }
         else Some (i + 1, s5))"
      using s1(1) s2(1) False s3(1) t(1,2,3) g flags s5(1) by (auto simp: probe_bar_def bar_size_def is_64bit_def)
    show thesis
    proof (cases "is_64bit (B i) \<and> i < 5")
      case True
      obtain s6 where s6: "pci_config_read32 io loc (bar_offset (i + 1)) s5 = (B (i + 1), s6)" "touched R s5 s6"
        using read32_spec [OF io init [OF s5(2)], of loc "bar_offset (i + 1)"] reg [OF s5(2)] by metis
      obtain s7 where s7: "upd_pci p (set_bar (i + 1) (B (i + 1))) s6 = Some s7" "probed R p s0 (set_bar (i + 1) (B (i + 1)) ?pd3) s7"
        by (rule probed_upd [OF probed_touched [OF s5(2) s6(2)]])
      have nx: "next_bar B i = i + 2" using True by (simp add: next_bar_def)
      then have "bar_done B S i pd = set_bar (i + 1) (B (i + 1)) ?pd3" using False by (simp add: bar_done_def pd2_def Let_def)
      then show thesis using that [of s7] run True s6(1) s7 nx by simp
    next
      case no: False
      then have nx: "next_bar B i = i + 1" by (auto simp: next_bar_def)
      then have "bar_done B S i pd = ?pd3" using False by (simp add: bar_done_def pd2_def Let_def)
      then show thesis using that [of s5] run no s5(2) nx by simp
    qed
  qed
qed

definition six_bars :: "pci_device \<Rightarrow> bool" where
  "six_bars pd \<longleftrightarrow> length (cfg_bar (pd_config pd)) = 6 \<and> length (bar_sizes pd) = 6 \<and> length (bar_is_io pd) = 6 \<and> length (bar_is_64bit pd) = 6"

text \<open>The device with the registers from number \<open>i\<close> on read, and nothing else changed.\<close>

definition bars_read :: "(nat \<Rightarrow> u32) \<Rightarrow> (nat \<Rightarrow> u32) \<Rightarrow> nat \<Rightarrow> pci_device \<Rightarrow> pci_device \<Rightarrow> bool" where
  "bars_read B S i pd pd' \<longleftrightarrow> six_bars pd' \<and>
     pd' = pd\<lparr>pd_config := (pd_config pd)\<lparr>cfg_bar := cfg_bar (pd_config pd')\<rparr>, bar_sizes := bar_sizes pd', bar_is_io := bar_is_io pd', bar_is_64bit := bar_is_64bit pd'\<rparr> \<and>
     (\<forall>j<i. cfg_bar (pd_config pd') ! j = cfg_bar (pd_config pd) ! j \<and> bar_sizes pd' ! j = bar_sizes pd ! j \<and>
        bar_is_io pd' ! j = bar_is_io pd ! j \<and> bar_is_64bit pd' ! j = bar_is_64bit pd ! j) \<and>
     (\<forall>j. i \<le> j \<and> j < 6 \<longrightarrow> cfg_bar (pd_config pd') ! j = B j) \<and>
     (\<forall>j\<in>set (starts B i). B j \<noteq> 0 \<longrightarrow> bar_is_io pd' ! j = (B j AND PCI_BAR_TYPE_IO \<noteq> 0) \<and> bar_is_64bit pd' ! j = is_64bit (B j) \<and>
        bar_sizes pd' ! j = bar_size (B j) (S j))"

lemma starts_bounds: "j \<in> set (starts B i) \<Longrightarrow> i \<le> j \<and> j < 6"
proof (induction B i rule: starts.induct)
  case (1 B i)
  then show ?case by (subst (asm) starts.simps) (auto simp: next_bar_def split: if_splits)
qed

lemma bar_done_frame:
  "bar_done B S i pd = pd\<lparr>pd_config := (pd_config pd)\<lparr>cfg_bar := cfg_bar (pd_config (bar_done B S i pd))\<rparr>, bar_sizes := bar_sizes (bar_done B S i pd),
     bar_is_io := bar_is_io (bar_done B S i pd), bar_is_64bit := bar_is_64bit (bar_done B S i pd)\<rparr>"
  by (simp add: bar_done_def Let_def set_bar_def set_bar_io_def set_bar_64bit_def set_bar_size_def)

lemma bar_done_arrays:
  "cfg_bar (pd_config (bar_done B S i pd)) = (if next_bar B i = i + 2 then (cfg_bar (pd_config pd))[i := B i, i + 1 := B (i + 1)] else (cfg_bar (pd_config pd))[i := B i])"
  "bar_sizes (bar_done B S i pd) = (if B i = 0 then bar_sizes pd else (bar_sizes pd)[i := bar_size (B i) (S i)])"
  "bar_is_io (bar_done B S i pd) = (if B i = 0 then bar_is_io pd else (bar_is_io pd)[i := (B i AND PCI_BAR_TYPE_IO \<noteq> 0)])"
  "bar_is_64bit (bar_done B S i pd) = (if is_64bit (B i) then (bar_is_64bit pd)[i := True] else bar_is_64bit pd)"
  by (auto simp: bar_done_def Let_def next_bar_def is_64bit_def)

lemma six_bars_done: "six_bars pd \<Longrightarrow> six_bars (bar_done B S i pd)"
  by (simp add: six_bars_def bar_done_arrays)

lemma bars_read_step:
  assumes i: "i < 6" and six: "six_bars pd" and new: "\<not> bar_is_64bit pd ! i" and rest: "bars_read B S (next_bar B i) (bar_done B S i pd) pd'"
  shows "bars_read B S i pd pd'"
proof -
  let ?pd1 = "bar_done B S i pd" and ?k = "next_bar B i"
  have k: "i < ?k" "?k = i + 1 \<or> ?k = i + 2 \<and> i < 5" by (auto simp: next_bar_def)
  have r: "six_bars pd'" "pd' = ?pd1\<lparr>pd_config := (pd_config ?pd1)\<lparr>cfg_bar := cfg_bar (pd_config pd')\<rparr>, bar_sizes := bar_sizes pd', bar_is_io := bar_is_io pd', bar_is_64bit := bar_is_64bit pd'\<rparr>"
    "\<And>j. j < ?k \<Longrightarrow> cfg_bar (pd_config pd') ! j = cfg_bar (pd_config ?pd1) ! j \<and> bar_sizes pd' ! j = bar_sizes ?pd1 ! j \<and>
        bar_is_io pd' ! j = bar_is_io ?pd1 ! j \<and> bar_is_64bit pd' ! j = bar_is_64bit ?pd1 ! j"
    "\<And>j. ?k \<le> j \<and> j < 6 \<Longrightarrow> cfg_bar (pd_config pd') ! j = B j"
    "\<And>j. j \<in> set (starts B ?k) \<Longrightarrow> B j \<noteq> 0 \<longrightarrow> bar_is_io pd' ! j = (B j AND PCI_BAR_TYPE_IO \<noteq> 0) \<and> bar_is_64bit pd' ! j = is_64bit (B j) \<and>
        bar_sizes pd' ! j = bar_size (B j) (S j)" using rest unfolding bars_read_def by blast+
  have st: "starts B i = i # starts B ?k" using i by (subst starts.simps) simp
  have fr: "pd' = pd\<lparr>pd_config := (pd_config pd)\<lparr>cfg_bar := cfg_bar (pd_config pd')\<rparr>, bar_sizes := bar_sizes pd', bar_is_io := bar_is_io pd', bar_is_64bit := bar_is_64bit pd'\<rparr>"
  proof -
    obtain x y z w where e: "?pd1 = pd\<lparr>pd_config := (pd_config pd)\<lparr>cfg_bar := x\<rparr>, bar_sizes := y, bar_is_io := z, bar_is_64bit := w\<rparr>"
      using bar_done_frame [of B S i pd] by blast
    show ?thesis by (subst r(2), unfold e) simp
  qed
  have lo: "cfg_bar (pd_config pd') ! j = cfg_bar (pd_config pd) ! j \<and> bar_sizes pd' ! j = bar_sizes pd ! j \<and>
        bar_is_io pd' ! j = bar_is_io pd ! j \<and> bar_is_64bit pd' ! j = bar_is_64bit pd ! j" if "j < i" for j
    using r(3) [of j] that k(1) by (simp add: bar_done_arrays)
  have bars: "cfg_bar (pd_config pd') ! j = B j" if "i \<le> j \<and> j < 6" for j
  proof (cases "j < ?k")
    case True
    have e: "cfg_bar (pd_config pd') ! j = cfg_bar (pd_config ?pd1) ! j" using r(3) [OF True] by blast
    have "j = i \<or> j = i + 1 \<and> ?k = i + 2" using True k that by arith
    moreover have "length (cfg_bar (pd_config pd)) = 6" using six by (simp add: six_bars_def)
    ultimately show ?thesis using e i that by (elim disjE conjE) (simp_all add: bar_done_arrays(1))
  next
    case False
    then show ?thesis using r(4) that by simp
  qed
  have "B i \<noteq> 0 \<longrightarrow> bar_is_io pd' ! i = (B i AND PCI_BAR_TYPE_IO \<noteq> 0) \<and> bar_is_64bit pd' ! i = is_64bit (B i) \<and> bar_sizes pd' ! i = bar_size (B i) (S i)"
    using r(3) [OF k(1)] i six new by (simp add: bar_done_arrays six_bars_def)
  then show ?thesis unfolding bars_read_def st using r(1,5) fr lo bars by simp
qed

lemma probe_bars_spec:
  assumes io: "config_ports io R latch" and ini: "pci_initialized s0" and keep: "\<forall>j<6. latch (bar_address loc j) (R (hardware s0) (bar_address loc j)) = R (hardware s0) (bar_address loc j)"
    and pr: "probed R p s0 pd s" and six: "six_bars pd" and new: "\<forall>j. i \<le> j \<and> j < 6 \<longrightarrow> \<not> bar_is_64bit pd ! j"
  shows "\<exists>s' pd'. probe_bars_from io loc p i s = Some s' \<and> probed R p s0 pd' s' \<and>
    bars_read (\<lambda>j. R (hardware s0) (bar_address loc j)) (\<lambda>j. latch (bar_address loc j) 0xFFFFFFFF) i pd pd'"
  using pr six new
proof (induction "6 - i" arbitrary: i s pd rule: less_induct)
  case less
  let ?B = "\<lambda>j. R (hardware s0) (bar_address loc j)" and ?S = "\<lambda>j. latch (bar_address loc j) 0xFFFFFFFF"
  show ?case
  proof (cases "i < 6")
    case False
    then have "probe_bars_from io loc p i s = Some s" by (subst probe_bars_from.simps) simp
    moreover have "bars_read ?B ?S i pd pd" using less.prems(2) False by (auto simp: bars_read_def starts.simps)
    ultimately show ?thesis using less.prems(1) by blast
  next
    case True
    have l: "length (bar_is_io pd) = 6" "length (bar_is_64bit pd) = 6" "\<not> bar_is_64bit pd ! i" using less.prems(2,3) True by (simp_all add: six_bars_def)
    have kp: "latch (bar_address loc i) (R (hardware s0) (bar_address loc i)) = R (hardware s0) (bar_address loc i)" using keep True by blast
    obtain s1 where s1: "probe_bar io loc p i s = Some (next_bar ?B i, s1)" "probed R p s0 (bar_done ?B ?S i pd) s1"
      by (rule probe_bar_spec [OF io less.prems(1) ini True l kp])
    have k: "i < next_bar ?B i" by (simp add: next_bar_def)
    have "\<forall>j. next_bar ?B i \<le> j \<and> j < 6 \<longrightarrow> \<not> bar_is_64bit (bar_done ?B ?S i pd) ! j" using less.prems(3) k by (simp add: bar_done_arrays)
    with less.hyps [OF _ s1(2) six_bars_done [OF less.prems(2)]] True k
    obtain s' pd' where s': "probe_bars_from io loc p (next_bar ?B i) s1 = Some s'" "probed R p s0 pd' s'" "bars_read ?B ?S (next_bar ?B i) (bar_done ?B ?S i pd) pd'"
      by (meson diff_less_mono2)
    have "probe_bars_from io loc p i s = Some s'" using True s1(1) s'(1) by (subst probe_bars_from.simps) simp
    then show ?thesis using s'(2) bars_read_step [OF True less.prems(2) l(3) s'(3)] by blast
  qed
qed

section \<open>Probing a function\<close>

text \<open>The configuration that the reads produce, from the contents of the registers.\<close>

fun config_of :: "(u8 \<Rightarrow> u32) \<Rightarrow> read_statement list \<Rightarrow> pci_config \<Rightarrow> pci_config" where
  "config_of r [] c = c"
| "config_of r (Read8 off f # xs) c = config_of r xs (f (ucast (drop_bit (8 * unat (off AND 3)) (r off))) c)"
| "config_of r (Read16 off f # xs) c = config_of r xs (f (ucast (drop_bit (8 * unat (off AND 2)) (r off))) c)"
| "config_of r (Read32 off f # xs) c = config_of r xs (f (r off) c)"

lemma read_config_spec:
  assumes io: "config_ports io R latch" and "pci_initialized s"
  shows "\<exists>s'. read_config io loc xs c s = (config_of (reg_at R (hardware s) loc) xs c, s') \<and> touched R s s'"
  using assms(2)
proof (induction xs arbitrary: c s)
  case Nil
  then show ?case using touched_refl by auto
next
  case (Cons x xs)
  have step: ?case if "read_config io loc (x # xs) c s = read_config io loc xs c1 s1" "touched R s s1"
    "config_of (reg_at R (hardware s) loc) (x # xs) c = config_of (reg_at R (hardware s) loc) xs c1" for c1 s1
  proof -
    have "pci_initialized s1" using Cons.prems touched_simps(4) [OF that(2)] by simp
    from Cons.IH [OF this, of c1] show ?thesis using that touched_simps(7) [OF that(2)] touched_trans [OF that(2)] by auto
  qed
  show ?case
  proof (cases x)
    case (Read8 off f)
    obtain s1 where s1: "pci_config_read8 io loc off s = (ucast (drop_bit (8 * unat (off AND 3)) (reg_at R (hardware s) loc off)), s1)" "touched R s s1"
      by (rule read8_spec [OF io Cons.prems])
    then show ?thesis using Read8 by (intro step [OF _ s1(2)]) simp_all
  next
    case (Read16 off f)
    obtain s1 where s1: "pci_config_read16 io loc off s = (ucast (drop_bit (8 * unat (off AND 2)) (reg_at R (hardware s) loc off)), s1)" "touched R s s1"
      by (rule read16_spec [OF io Cons.prems])
    then show ?thesis using Read16 by (intro step [OF _ s1(2)]) simp_all
  next
    case (Read32 off f)
    obtain s1 where s1: "pci_config_read32 io loc off s = (reg_at R (hardware s) loc off, s1)" "touched R s s1"
      by (rule read32_spec [OF io Cons.prems])
    then show ?thesis using Read32 by (intro step [OF _ s1(2)]) simp_all
  qed
qed

lemma config_of_simps [simp]:
  "cfg_bar (config_of r config_statements c) = cfg_bar c" "cfg_vendor_id (config_of r config_statements c) = ucast (r PCI_CONFIG_VENDOR_ID)"
  "cfg_class_code (config_of r config_statements c) = ucast (drop_bit 24 (r PCI_CONFIG_CLASS))"
  by (simp_all add: config_statements_def PCI_CONFIG_VENDOR_ID_def PCI_CONFIG_CLASS_def)

text \<open>States that differ in the stores of devices, the list of PCI devices and the hardware only.\<close>

definition same_kernel :: "('h, 'a) pci_sys_scheme \<Rightarrow> ('h, 'a) pci_sys_scheme \<Rightarrow> bool" where
  "same_kernel s s' \<longleftrightarrow> (\<exists>x l y st h. s' = s\<lparr>devs := x, pdevs := y, pci_list := l, pci_stats := st, hardware := h\<rparr>)"

lemma same_kernelI:
  "same_kernel s (s\<lparr>devs := x, pdevs := y, pci_list := l, pci_stats := st, hardware := h\<rparr>)"
  unfolding same_kernel_def by blast

lemma same_kernel_trans:
  assumes "same_kernel s t" and "same_kernel t u"
  shows "same_kernel s u"
proof -
  obtain x l y st h where t: "t = s\<lparr>devs := x, pdevs := y, pci_list := l, pci_stats := st, hardware := h\<rparr>"
    using assms(1) unfolding same_kernel_def by blast
  obtain x' l' y' st' h' where u: "u = t\<lparr>devs := x', pdevs := y', pci_list := l', pci_stats := st', hardware := h'\<rparr>"
    using assms(2) unfolding same_kernel_def by blast
  have "u = s\<lparr>devs := x', pdevs := y', pci_list := l', pci_stats := st', hardware := h'\<rparr>" unfolding u t by simp
  then show ?thesis unfolding same_kernel_def by blast
qed

lemma same_kernel_simps:
  assumes "same_kernel s s'"
  shows "heap_inv s' = heap_inv s" "live_objects s' = live_objects s" "memory s' = memory s" "drvs s' = drvs s" "device_list s' = device_list s"
    "driver_list s' = driver_list s" "dm_stats s' = dm_stats s" "next_device_id s' = next_device_id s" "dm_initialized s' = dm_initialized s"
    "pci_initialized s' = pci_initialized s" "heap_first s' = heap_first s"
proof -
  obtain x l y st h where s': "s' = s\<lparr>devs := x, pdevs := y, pci_list := l, pci_stats := st, hardware := h\<rparr>"
    using assms unfolding same_kernel_def by blast
  show "heap_inv s' = heap_inv s" "live_objects s' = live_objects s" using heap_view_cong(1,2) [of s' s] unfolding s' by simp_all
  show "memory s' = memory s" "drvs s' = drvs s" "device_list s' = device_list s"
    "driver_list s' = driver_list s" "dm_stats s' = dm_stats s" "next_device_id s' = next_device_id s" "dm_initialized s' = dm_initialized s"
    "pci_initialized s' = pci_initialized s" "heap_first s' = heap_first s" by (simp_all add: s')
qed

lemma touched_same:
  assumes "touched R s s'"
  shows "same_kernel s s'"
proof -
  obtain h r w where "s' = s\<lparr>hardware := h, pci_stats := (pci_stats s)\<lparr>config_reads := r, config_writes := w\<rparr>\<rparr>"
    using assms unfolding touched_def by blast
  then have "s' = s\<lparr>devs := devs s, pdevs := pdevs s, pci_list := pci_list s, pci_stats := (pci_stats s)\<lparr>config_reads := r, config_writes := w\<rparr>, hardware := h\<rparr>"
    by simp
  then show ?thesis unfolding same_kernel_def by blast
qed

lemma probed_same:
  assumes "probed R p s pd s'"
  shows "same_kernel s s'"
proof -
  obtain s0 where s0: "touched R s s0" "s' = s0\<lparr>pdevs := (pdevs s)(p \<mapsto> pd)\<rparr>" using assms unfolding probed_def by blast
  then have "s' = s0\<lparr>devs := devs s0, pdevs := (pdevs s)(p \<mapsto> pd), pci_list := pci_list s0, pci_stats := pci_stats s0, hardware := hardware s0\<rparr>" by simp
  then have "same_kernel s0 s'" unfolding same_kernel_def by blast
  then show ?thesis by (rule same_kernel_trans [OF touched_same [OF s0(1)]])
qed

text \<open>A new function: its structures as \<^verbatim>\<open>pci_create_device\<close> leaves them, the reads done, and what the device framework is told.\<close>

definition fresh_device :: device where
  "fresh_device = zero_device\<lparr>dev_type := DEVICE_TYPE_PCI, dev_state := DEVICE_STATE_INITIALIZING,
     capabilities := DEVICE_CAP_READ OR DEVICE_CAP_WRITE OR DEVICE_CAP_CONFIG\<rparr>"

definition read_function :: "(u8 \<Rightarrow> u32) \<Rightarrow> pci_location \<Rightarrow> pci_device" where
  "read_function r loc = zero_pci_device\<lparr>pd_location := loc, pd_config := config_of r config_statements zero_pci_config\<rparr>"

definition function_device :: "(u8 \<Rightarrow> u32) \<Rightarrow> pci_location \<Rightarrow> device" where
  "function_device r loc = (let c = config_of r config_statements zero_pci_config in
     fresh_device\<lparr>dev_info := pci_info loc c zero_device_info, dev_type := pci_class_to_device_type (cfg_class_code c),
       dev_config := zero_device_config\<lparr>base_address := 0, irq_line := cfg_interrupt_line c\<rparr>\<rparr>)"

lemma create_device_spec:
  assumes inv: "heap_inv s" and ok: "kmalloc sizeof_pci_device s \<noteq> Some (0, s)"
  shows "\<exists>p n s1 s'. pci_create_device loc s = Some (p, s') \<and> p \<noteq> 0 \<and> p \<notin> fst ` live_objects s \<and> heap_frame s s1 \<and> heap_inv s' \<and>
    live_objects s' = insert (p, n) (live_objects s) \<and>
    s' = s1\<lparr>pdevs := (pdevs s)(p \<mapsto> zero_pci_device\<lparr>pd_location := loc\<rparr>), devs := (devs s)(p \<mapsto> fresh_device)\<rparr>"
proof -
  obtain p s1 where p: "kmalloc sizeof_pci_device s = Some (p, s1)" "p \<noteq> 0"
    using kheap.alloc_returns [OF inv _ _ ok] by (auto simp: sizeof_pci_device_def)
  obtain n where n: "unat sizeof_pci_device \<le> n" "p \<notin> fst ` live_objects s" "live_objects s1 = insert (p, n) (live_objects s)"
    "heap_inv s1" "heap_frame s s1"
    using kheap.alloc_fresh [OF inv _ _ p] by (auto simp: sizeof_pci_device_def)
  let ?m = "memset p 0 sizeof_pci_device (memory s1)"
  have b: "unat p + n < 2 ^ 64" using live_objects_bounds(2) [OF n(4), of p n] n(3) by simp
  have "?m x = memory s1 x" if "\<not> inside p n x" for x
    using that region_inside [of p 0 sizeof_pci_device x n] n(1) b by (auto simp: memset_fill mem_fill_def)
  then have w: "heap_inv (s1\<lparr>memory := ?m\<rparr>) \<and> live_objects (s1\<lparr>memory := ?m\<rparr>) = live_objects s1"
    using heap_write_law [OF n(4), of p n] n(3) by blast
  obtain m u f a r where e: "s1 = s\<lparr>memory := m, heap_used := u, heap_free := f, heap_allocations := a, heap_frees := r\<rparr>"
    using n(5) by (rule heap_frameE)
  define s2 where "s2 = s1\<lparr>memory := ?m\<rparr>"
  define s' where "s' = s2\<lparr>pdevs := (pdevs s)(p \<mapsto> zero_pci_device\<lparr>pd_location := loc\<rparr>), devs := (devs s)(p \<mapsto> fresh_device)\<rparr>"
  have "heap_inv s' \<and> live_objects s' = live_objects s1" using w heap_view_cong(1,2) [of s' s2] by (simp add: s'_def s2_def)
  moreover have "pci_create_device loc s = Some (p, s')"
    using p by (simp add: pci_create_device_def s'_def s2_def fresh_device_def e)
  moreover have "heap_frame s s2" using n(5) by (simp add: s2_def)
  ultimately show ?thesis using p(2) n(2,3) s'_def by auto
qed

lemma fresh_device_simps [simp]:
  "dev_info fresh_device = zero_device_info" "dev_config fresh_device = zero_device_config" "\<not> registered fresh_device" "driver fresh_device = 0"
  by (simp_all add: fresh_device_def zero_device_def)

lemma bar_address_unread:
  assumes "pdevs s p = Some pd" and "p \<noteq> 0" and "cfg_bar (pd_config pd) ! 0 = 0" and "\<not> bar_is_io pd ! 0" and "\<not> bar_is_64bit pd ! 0"
  shows "pci_get_bar_address p 0 s = Some 0"
  using assms by (simp add: pci_get_bar_address_def Let_def)

text \<open>The base address recorded for the device is zero: it is taken from the base address registers before these are read.\<close>

lemma init_info_spec:
  assumes io: "config_ports io R latch" and ini: "pci_initialized s" and p: "p \<noteq> 0" "pdevs s p = Some (zero_pci_device\<lparr>pd_location := loc\<rparr>)"
    "devs s p = Some fresh_device"
  shows "\<exists>s0 s'. pci_init_device_info io p s = Some s' \<and> touched R s s0 \<and>
    s' = s0\<lparr>pdevs := (pdevs s)(p \<mapsto> read_function (reg_at R (hardware s) loc) loc), devs := (devs s)(p \<mapsto> function_device (reg_at R (hardware s) loc) loc)\<rparr>"
proof -
  define c where "c = config_of (reg_at R (hardware s) loc) config_statements zero_pci_config"
  obtain s0 where s0: "read_config io loc config_statements zero_pci_config s = (c, s0)" "touched R s s0"
    using read_config_spec [OF io ini] unfolding c_def by blast
  define z where "z = zero_pci_device\<lparr>pd_location := loc\<rparr>"
  have z: "pd_location z = loc" "pd_config z = zero_pci_config" "\<not> bar_is_io z ! 0" "\<not> bar_is_64bit z ! 0"
    by (simp_all add: z_def zero_pci_device_def)
  have "cfg_bar c ! 0 = 0" by (simp add: c_def zero_pci_config_def)
  then have a: "pci_get_bar_address p 0 s1 = Some 0" if "pdevs s1 = (pdevs s)(p \<mapsto> z\<lparr>pd_config := c\<rparr>)" for s1 :: "('a, 'b) pci_sys_scheme"
    using that p(1) z by (intro bar_address_unread [of _ _ "z\<lparr>pd_config := c\<rparr>"]) simp_all
  note t = touched_simps [OF s0(2)]
  have f: "read_function (reg_at R (hardware s) loc) loc = z\<lparr>pd_config := c\<rparr>" "function_device (reg_at R (hardware s) loc) loc =
     fresh_device\<lparr>dev_info := pci_info loc c zero_device_info, dev_type := pci_class_to_device_type (cfg_class_code c),
       dev_config := zero_device_config\<lparr>base_address := 0, irq_line := cfg_interrupt_line c\<rparr>\<rparr>"
    by (simp_all add: read_function_def function_device_def c_def z_def Let_def)
  have "pci_init_device_info io p s = Some (s0\<lparr>pdevs := (pdevs s)(p \<mapsto> z\<lparr>pd_config := c\<rparr>), devs := (devs s)(p \<mapsto>
     fresh_device\<lparr>dev_info := pci_info loc c zero_device_info, dev_type := pci_class_to_device_type (cfg_class_code c),
       dev_config := zero_device_config\<lparr>base_address := 0, irq_line := cfg_interrupt_line c\<rparr>\<rparr>)\<rparr>)"
    using p(1) p(2,3) [folded z_def] s0(1) t(2,3) by (simp add: pci_init_device_info_def z upd_pci_def upd_dev_def a)
  then show ?thesis using s0(2) unfolding f by blast
qed

text \<open>Registration of a device without a driver calls no code but the clock.\<close>

lemma register_undriven:
  assumes cl: "clock_frame e" and ini: "dm_initialized s" and len: "length (devices_by_type (dm_stats s)) = 15"
    and d: "d \<noteq> 0" "devs s d = Some dv" "\<not> registered dv" "dev_type dv \<noteq> DEVICE_TYPE_MAX" "di_name (dev_info dv) \<noteq> []" "driver dv = 0"
  shows "\<exists>now t. device_register e d s = Some (0, register_effect d dv now t (memory s) DEVICE_STATE_INITIALIZING s)"
proof -
  have ti: "type_index (dev_type dv) < 15" using d(4) type_index_max by simp
  have v: "validate_device e d s = Some 0" using d ti by (simp add: validate_device_def)
  obtain now t where c: "read_clock e (s\<lparr>devs := (devs s)(d \<mapsto> dv\<lparr>device_id := next_device_id s\<rparr>), next_device_id := next_device_id s + 1\<rparr>)
      = (now, s\<lparr>devs := (devs s)(d \<mapsto> dv\<lparr>device_id := next_device_id s\<rparr>), next_device_id := next_device_id s + 1, fake_time := t\<rparr>)"
    using clock_frameE [OF cl] by metis
  have "device_register e d s = Some (0, register_effect d dv now t (memory s) DEVICE_STATE_INITIALIZING s)"
    using ini v d(1,2,3,6) c ti len
    by (auto simp: device_register_def upd_dev_def set_dev_next_def count_type_def driver_op_def registered_as_def Let_def register_effect_def counted_def)
  then show ?thesis by blast
qed

text \<open>The heap has no room for another PCI device; this depends on the heap only.\<close>

definition exhausted :: "('h, 'a) pci_sys_scheme \<Rightarrow> bool" where
  "exhausted s \<longleftrightarrow> kmalloc sizeof_pci_device s = Some (0, s)"

lemma exhausted_iff: "exhausted s \<longleftrightarrow> find_free_block 808 s = Some 0"
proof -
  have sz: "(sizeof_pci_device + HEAP_ALIGNMENT - 1) AND NOT (HEAP_ALIGNMENT - 1) = 768" "sizeof_pci_device \<noteq> 0" "768 + HEAP_BLOCK_HEADER_SIZE = 808"
    by (simp_all add: sizeof_pci_device_def HEAP_ALIGNMENT_def HEAP_BLOCK_HEADER_SIZE_def)
  have no: "s1 \<noteq> s" if "heap_allocations s1 = heap_allocations s + 1" for s1 using that by auto
  show ?thesis
  proof (cases "find_free_block 808 s")
    case None
    then show ?thesis unfolding exhausted_def kmalloc_def Let_def sz by (simp add: sz(2))
  next
    case (Some b)
    then show ?thesis
      using no by (cases "b = 0") (simp_all add: exhausted_def kmalloc_def Let_def sz)
  qed
qed

lemma exhausted_cong: "memory s' = memory s \<Longrightarrow> heap_first s' = heap_first s \<Longrightarrow> exhausted s' = exhausted s"
  by (simp add: exhausted_iff find_free_block_def)

interpretation pci_links: intrusive_list pd_next "\<lambda>v pd. pd\<lparr>pd_next := v\<rparr>"
  by unfold_locales simp

text \<open>The counters of the driver: functions in all, and by class.\<close>

definition class_of :: "('h, 'a) pci_sys_scheme \<Rightarrow> u64 \<Rightarrow> u8" where
  "class_of s p = cfg_class_code (pd_config (the (pdevs s p)))"

definition pci_counts :: "u64 list \<Rightarrow> ('h, 'a) pci_sys_scheme \<Rightarrow> bool" where
  "pci_counts ps s \<longleftrightarrow> pci_total_devices (pci_stats s) = of_nat (length ps) \<and> total_functions (pci_stats s) = of_nat (length ps) \<and>
     length (devices_by_class (pci_stats s)) = 256 \<and>
     (\<forall>c. devices_by_class (pci_stats s) ! unat c = of_nat (length (filter (\<lambda>p. class_of s p = c) ps)))"

text \<open>
  The invariant: the heap and the device framework are well formed, the PCI devices \<open>ps\<close> are on the list of the driver and are counted, and every device,
  of the bus or not, is an object of the heap.
\<close>

definition pci_inv :: "u64 list \<Rightarrow> u64 list \<Rightarrow> u64 list \<Rightarrow> ('h, 'a) pci_sys_scheme \<Rightarrow> bool" where
  "pci_inv ps ds vs s \<longleftrightarrow> heap_inv s \<and> pci_initialized s \<and> dev_inv ds vs s \<and> chain pd_next (pdevs s) (pci_list s) ps 0 \<and>
     set ps \<union> set ds \<subseteq> fst ` live_objects s \<and> pci_counts ps s"

text \<open>A function answers at the location; its structures at \<open>p\<close> hold what its registers say.\<close>

definition vendor_at :: "('h \<Rightarrow> u32 \<Rightarrow> u32) \<Rightarrow> 'h \<Rightarrow> pci_location \<Rightarrow> u16" where
  "vendor_at R h loc = ucast (reg_at R h loc PCI_CONFIG_VENDOR_ID)"

definition answers :: "('h \<Rightarrow> u32 \<Rightarrow> u32) \<Rightarrow> 'h \<Rightarrow> pci_location \<Rightarrow> bool" where
  "answers R h loc \<longleftrightarrow> vendor_at R h loc \<noteq> 0xFFFF \<and> vendor_at R h loc \<noteq> 0"

definition found_at :: "('h \<Rightarrow> u32 \<Rightarrow> u32) \<Rightarrow> (u32 \<Rightarrow> u32 \<Rightarrow> u32) \<Rightarrow> 'h \<Rightarrow> pci_location \<Rightarrow> u64 \<Rightarrow> ('h, 'a) pci_sys_scheme \<Rightarrow> bool" where
  "found_at R latch h loc p s \<longleftrightarrow> (\<exists>pd dv. pdevs s p = Some pd \<and> devs s p = Some dv \<and>
     bars_read (\<lambda>j. R h (bar_address loc j)) (\<lambda>j. latch (bar_address loc j) 0xFFFFFFFF) 0 ((read_function (reg_at R h loc) loc)\<lparr>pd_next := pd_next pd\<rparr>) pd \<and>
     dev_info dv = dev_info (function_device (reg_at R h loc) loc) \<and> dev_type dv = dev_type (function_device (reg_at R h loc) loc) \<and>
     dev_config dv = dev_config (function_device (reg_at R h loc) loc))"

lemma read_vendor:
  assumes "config_ports io R latch" and "pci_initialized s"
  obtains s' where "pci_config_read16 io loc PCI_CONFIG_VENDOR_ID s = (vendor_at R (hardware s) loc, s')" "touched R s s'"
  by (rule read16_spec [OF assms, of loc PCI_CONFIG_VENDOR_ID]) (simp add: vendor_at_def PCI_CONFIG_VENDOR_ID_def)

lemma bars_read_next: "bars_read B S i a b \<Longrightarrow> bars_read B S i (a\<lparr>pd_next := v\<rparr>) (b\<lparr>pd_next := v\<rparr>)"
  unfolding bars_read_def six_bars_def by (cases a; cases b) simp

lemma dev_inv_add:
  assumes inv: "dev_inv ds vs s" and p: "p \<notin> set ds" "devs s' = (devs s)(p \<mapsto> dv)" "\<not> registered dv"
    and eq: "dm_initialized s' = dm_initialized s" "device_list s' = device_list s" "next_device_id s' = next_device_id s" "drvs s' = drvs s"
      "dm_stats s' = dm_stats s" "driver_list s' = driver_list s"
  shows "dev_inv ds vs s'"
proof -
  have at: "dev_at s' d = dev_at s d" if "d \<in> set ds" for d using that p by auto
  have "listed ds s'" using inv p at unfolding dev_inv_def listed_def eq p(2) by (auto simp: inj_on_def)
  moreover have "totals ds s'" using inv at by (intro totals_cong [of ds s s']) (simp_all add: dev_inv_def eq)
  ultimately show ?thesis using inv by (simp add: dev_inv_def eq)
qed

text \<open>States that differ in the clock, the use of the ports and the counters of such uses.\<close>

definition unmoved :: "('h \<Rightarrow> u32 \<Rightarrow> u32) \<Rightarrow> ('h, 'a) pci_sys_scheme \<Rightarrow> ('h, 'a) pci_sys_scheme \<Rightarrow> bool" where
  "unmoved R s s' \<longleftrightarrow> (\<exists>t st h. s' = s\<lparr>fake_time := t, pci_stats := st, hardware := h\<rparr> \<and> R h = R (hardware s) \<and>
     pci_total_devices st = pci_total_devices (pci_stats s) \<and> total_functions st = total_functions (pci_stats s) \<and>
     devices_by_class st = devices_by_class (pci_stats s))"

lemma touched_unmoved:
  assumes "touched R s s'"
  shows "unmoved R s s'"
proof -
  obtain h r w where e: "s' = s\<lparr>hardware := h, pci_stats := (pci_stats s)\<lparr>config_reads := r, config_writes := w\<rparr>\<rparr>" "R h = R (hardware s)"
    using assms unfolding touched_def by blast
  then have "s' = s\<lparr>fake_time := fake_time s, pci_stats := (pci_stats s)\<lparr>config_reads := r, config_writes := w\<rparr>, hardware := h\<rparr>" by simp
  then show ?thesis using e(2) unfolding unmoved_def
    by (intro exI [of _ "fake_time s"] exI [of _ "(pci_stats s)\<lparr>config_reads := r, config_writes := w\<rparr>"] exI [of _ h]) simp
qed

lemma unmoved_simps:
  assumes "unmoved R s s'"
  shows "R (hardware s') = R (hardware s)" "pdevs s' = pdevs s" "devs s' = devs s" "next_device_id s' = next_device_id s" "exhausted s' = exhausted s"
    "live_objects s' = live_objects s"
  using assms exhausted_cong [of s' s] heap_view_cong(2) [of s' s] unfolding unmoved_def by auto

lemma unmoved_pci_inv:
  assumes "unmoved R s s'" and inv: "pci_inv ps ds vs s"
  shows "pci_inv ps ds vs s'"
proof -
  obtain t st h where e: "s' = s\<lparr>fake_time := t, pci_stats := st, hardware := h\<rparr>" "pci_total_devices st = pci_total_devices (pci_stats s)"
    "total_functions st = total_functions (pci_stats s)" "devices_by_class st = devices_by_class (pci_stats s)"
    using assms(1) unfolding unmoved_def by blast
  have "dev_inv ds vs s'" using inv unfolding pci_inv_def dev_inv_def listed_def totals_def e(1) by simp
  moreover have "pci_counts ps s'" using inv e(2-4) unfolding pci_inv_def pci_counts_def class_of_def e(1) by simp
  moreover have "heap_inv s'" "live_objects s' = live_objects s" using inv heap_view_cong(1,2) [of s' s] by (simp_all add: e(1) pci_inv_def)
  ultimately show ?thesis using inv unfolding pci_inv_def by (simp add: e(1))
qed

definition count_class :: "u8 \<Rightarrow> pci_bus_stats \<Rightarrow> pci_bus_stats" where
  "count_class c st = st\<lparr>pci_total_devices := pci_total_devices st + 1, total_functions := total_functions st + 1,
     devices_by_class := (devices_by_class st)[unat c := devices_by_class st ! unat c + 1]\<rparr>"

lemma link_pci_spec:
  assumes "pdevs s p = Some pd"
  shows "link_pci p s = Some (s\<lparr>pdevs := (pdevs s)(p \<mapsto> pd\<lparr>pd_next := pci_list s\<rparr>), pci_list := p,
    pci_stats := count_class (cfg_class_code (pd_config pd)) (pci_stats s)\<rparr>)"
  using assms by (simp add: link_pci_def upd_pci_def Let_def count_class_def)

lemma counts_push:
  assumes c: "pci_counts ps s" and p: "p \<notin> set ps" "pdevs s' p = Some pd" "\<And>q. q \<in> set ps \<Longrightarrow> pdevs s' q = pdevs s q"
    and st: "pci_stats s' = (count_class (cfg_class_code (pd_config pd)) (pci_stats s))\<lparr>config_reads := r, config_writes := w\<rparr>"
  shows "pci_counts (p # ps) s'"
proof -
  have k: "class_of s' q = class_of s q" if "q \<in> set ps" for q using p(3) that by (simp add: class_of_def)
  have f: "filter (\<lambda>q. class_of s' q = c) ps = filter (\<lambda>q. class_of s q = c) ps" for c by (rule filter_cong) (simp_all add: k)
  have cp: "class_of s' p = cfg_class_code (pd_config pd)" using p(2) by (simp add: class_of_def)
  have u: "unat x = unat y \<longleftrightarrow> x = y" for x y :: u8 by (rule word_unat_eq_iff [symmetric])
  have "unat (x :: u8) < 256" for x using unsigned_less [of x] by simp
  then show ?thesis using c by (auto simp: pci_counts_def st f cp count_class_def nth_list_update u)
qed

lemma function_device_simps [simp]:
  "\<not> registered (function_device r loc)" "driver (function_device r loc) = 0" "dev_type (function_device r loc) \<noteq> DEVICE_TYPE_MAX"
  "di_name (dev_info (function_device r loc)) \<noteq> []"
  by (simp_all add: function_device_def Let_def pci_info_def location_name_def)

lemma read_function_six: "six_bars (read_function r loc)" "j < 6 \<Longrightarrow> \<not> bar_is_64bit (read_function r loc) ! j" "pd_location (read_function r loc) = loc"
  by (simp_all add: six_bars_def read_function_def zero_pci_device_def zero_pci_config_def)

text \<open>Everything \<^verbatim>\<open>pci_probe_device\<close> does after the structure is there and before the registration.\<close>

lemma setup_spec:
  assumes io: "config_ports io R latch" and ini: "pci_initialized s"
    and keep: "\<forall>j<6. latch (bar_address loc j) (R (hardware s) (bar_address loc j)) = R (hardware s) (bar_address loc j)"
    and p: "p \<noteq> 0" "pdevs s p = Some (zero_pci_device\<lparr>pd_location := loc\<rparr>)" "devs s p = Some fresh_device"
  shows "\<exists>s1 s2 s' pd r w. pci_init_device_info io p s = Some s1 \<and> pci_probe_bars io p s1 = Some s2 \<and> link_pci p s2 = Some s' \<and> same_kernel s s' \<and>
    bars_read (\<lambda>j. R (hardware s) (bar_address loc j)) (\<lambda>j. latch (bar_address loc j) 0xFFFFFFFF) 0 (read_function (reg_at R (hardware s) loc) loc) pd \<and>
    pdevs s' = (pdevs s)(p \<mapsto> pd\<lparr>pd_next := pci_list s\<rparr>) \<and> devs s' = (devs s)(p \<mapsto> function_device (reg_at R (hardware s) loc) loc) \<and> pci_list s' = p \<and>
    R (hardware s') = R (hardware s) \<and> pci_stats s' = (count_class (cfg_class_code (pd_config pd)) (pci_stats s))\<lparr>config_reads := r, config_writes := w\<rparr>"
proof -
  define f where "f = read_function (reg_at R (hardware s) loc) loc"
  define dv where "dv = function_device (reg_at R (hardware s) loc) loc"
  obtain s0 s1 where s1: "pci_init_device_info io p s = Some s1" "touched R s s0" "s1 = s0\<lparr>pdevs := (pdevs s)(p \<mapsto> f), devs := (devs s)(p \<mapsto> dv)\<rparr>"
    using init_info_spec [OF io ini p] unfolding f_def dv_def by blast
  have t1: "pci_initialized s1" "R (hardware s1) = R (hardware s)" "pci_list s1 = pci_list s" "pdevs s1 p = Some f" "pdevs s1 = (pdevs s)(p \<mapsto> f)"
    using touched_simps [OF s1(2)] ini by (simp_all add: s1(3))
  have f: "six_bars f" "\<forall>j. 0 \<le> j \<and> j < 6 \<longrightarrow> \<not> bar_is_64bit f ! j" "pd_location f = loc" using read_function_six unfolding f_def by blast+
  have "\<forall>j<6. latch (bar_address loc j) (R (hardware s1) (bar_address loc j)) = R (hardware s1) (bar_address loc j)" using keep by (simp add: t1(2))
  from probe_bars_spec [OF io t1(1) this probed_start [OF t1(4) touched_refl] f(1,2)]
  obtain s2 pd where s2: "probe_bars_from io loc p 0 s1 = Some s2" "probed R p s1 pd s2"
    "bars_read (\<lambda>j. R (hardware s) (bar_address loc j)) (\<lambda>j. latch (bar_address loc j) 0xFFFFFFFF) 0 f pd" unfolding t1(2) by blast
  have run2: "pci_probe_bars io p s1 = Some s2" using s2(1) t1(4) f(3) by (simp add: pci_probe_bars_def)
  note t2 = probed_simps [OF s2(2)]
  define s' where "s' = s2\<lparr>pdevs := (pdevs s2)(p \<mapsto> pd\<lparr>pd_next := pci_list s2\<rparr>), pci_list := p, pci_stats := count_class (cfg_class_code (pd_config pd)) (pci_stats s2)\<rparr>"
  have run3: "link_pci p s2 = Some s'" unfolding s'_def by (rule link_pci_spec) (simp add: t2(1))
  have k: "same_kernel s s'"
  proof -
    have a: "same_kernel s0 s1" unfolding same_kernel_def s1(3)
      by (intro exI [of _ "(devs s)(p \<mapsto> dv)"] exI [of _ "pci_list s0"] exI [of _ "(pdevs s)(p \<mapsto> f)"] exI [of _ "pci_stats s0"] exI [of _ "hardware s0"]) simp
    have b: "same_kernel s2 s'" unfolding same_kernel_def s'_def
      by (intro exI [of _ "devs s2"] exI [of _ p] exI [of _ "(pdevs s2)(p \<mapsto> pd\<lparr>pd_next := pci_list s2\<rparr>)"]
          exI [of _ "count_class (cfg_class_code (pd_config pd)) (pci_stats s2)"] exI [of _ "hardware s2"]) simp
    show ?thesis by (rule same_kernel_trans [OF touched_same [OF s1(2)] same_kernel_trans [OF a same_kernel_trans [OF probed_same [OF s2(2)] b]]])
  qed
  obtain s3 where s3: "touched R s1 s3" "s2 = s3\<lparr>pdevs := (pdevs s1)(p \<mapsto> pd)\<rparr>" using s2(2) unfolding probed_def by blast
  obtain h r w where h: "s3 = s1\<lparr>hardware := h, pci_stats := (pci_stats s1)\<lparr>config_reads := r, config_writes := w\<rparr>\<rparr>" using s3(1) unfolding touched_def by blast
  obtain h' r' w' where h': "s0 = s\<lparr>hardware := h', pci_stats := (pci_stats s)\<lparr>config_reads := r', config_writes := w'\<rparr>\<rparr>" using s1(2) unfolding touched_def by blast
  have st: "pci_stats s' = (count_class (cfg_class_code (pd_config pd)) (pci_stats s))\<lparr>config_reads := r, config_writes := w\<rparr>"
    by (simp add: s'_def s3(2) h s1(3) h' count_class_def)
  have "pdevs s' = (pdevs s)(p \<mapsto> pd\<lparr>pd_next := pci_list s\<rparr>)" "devs s' = (devs s)(p \<mapsto> dv)" "pci_list s' = p" "R (hardware s') = R (hardware s)"
    using t1 t2 by (simp_all add: s'_def) (simp add: s1(3))
  then show ?thesis using s1(1) run2 run3 k s2(3) st unfolding f_def dv_def by blast
qed

text \<open>Probing a function that answers: without room on the heap nothing changes, otherwise its device is new on both lists.\<close>

lemma probe_exhausted:
  assumes io: "config_ports io R latch" and inv: "pci_inv ps ds vs s" and an: "answers R (hardware s) loc" and ex: "exhausted s"
  shows "\<exists>s'. pci_probe_device e io loc s = Some (err e ENOMEM, s') \<and> touched R s s'"
proof -
  have ini: "pci_initialized s" using inv by (simp add: pci_inv_def)
  obtain s1 where s1: "pci_config_read16 io loc PCI_CONFIG_VENDOR_ID s = (vendor_at R (hardware s) loc, s1)" "touched R s s1"
    by (rule read_vendor [OF io ini])
  have "kmalloc sizeof_pci_device s1 = Some (0, s1)" using ex unmoved_simps(5) [OF touched_unmoved [OF s1(2)]] by (simp add: exhausted_def)
  then show ?thesis using s1 an by (simp add: pci_probe_device_def answers_def pci_create_device_def)
qed

lemma push_inv:
  assumes inv: "pci_inv ps ds vs s" and fresh: "p \<notin> fst ` live_objects s" "p \<noteq> 0"
    and heap: "heap_inv s1" "live_objects s1 = insert (p, n) (live_objects s)"
    and st: "pdevs s1 = (pdevs s)(p \<mapsto> pd\<lparr>pd_next := pci_list s\<rparr>)" "pci_list s1 = p" "devs s1 = (devs s)(p \<mapsto> dv)" "pci_initialized s1"
      "pci_stats s1 = (count_class (cfg_class_code (pd_config pd)) (pci_stats s))\<lparr>config_reads := r, config_writes := w\<rparr>"
    and eq: "dm_initialized s1 = dm_initialized s" "device_list s1 = device_list s" "next_device_id s1 = next_device_id s" "drvs s1 = drvs s"
      "dm_stats s1 = dm_stats s" "driver_list s1 = driver_list s"
    and dv: "\<not> registered dv" "dev_type dv \<noteq> DEVICE_TYPE_MAX" "driver dv = 0" and room: "next_device_id s + 1 \<noteq> 0"
  shows "pci_inv (p # ps) (p # ds) vs (register_effect p dv now t (memory s1) st' s1)"
proof -
  let ?s = "register_effect p dv now t (memory s1) st' s1"
  have nw: "p \<notin> set ps" "p \<notin> set ds" using inv fresh unfolding pci_inv_def by auto
  have "dev_inv ds vs s1" by (rule dev_inv_add [of ds vs s p s1 dv]) (use inv nw st dv eq in \<open>simp_all add: pci_inv_def\<close>)
  then have d: "dev_inv (p # ds) vs ?s" by (rule register_inv) (use fresh dv room in \<open>simp_all add: st eq\<close>)
  have h: "heap_inv ?s" "live_objects ?s = live_objects s1" using heap_view_cong(1,2) [of ?s s1] heap(1) by (simp_all add: register_effect_def)
  have "pci_counts (p # ps) ?s"
    by (rule counts_push [where r = r and w = w and pd = "pd\<lparr>pd_next := pci_list s\<rparr>" and s = s]) (use inv nw st in \<open>auto simp: pci_inv_def register_effect_def\<close>)
  moreover have "chain pd_next (pdevs ?s) (pci_list ?s) (p # ps) 0" using inv nw fresh by (simp add: pci_inv_def register_effect_def st)
  moreover have "pci_initialized ?s" using st by (simp add: register_effect_def)
  ultimately show ?thesis using inv d h(1) unfolding pci_inv_def h(2) heap(2) by auto
qed

lemma probe_found:
  assumes io: "config_ports io R latch" and cl: "clock_frame e" and inv: "pci_inv ps ds vs s" and room: "next_device_id s + 1 \<noteq> 0"
    and keep: "\<forall>j<6. latch (bar_address loc j) (R (hardware s) (bar_address loc j)) = R (hardware s) (bar_address loc j)"
    and an: "answers R (hardware s) loc" and ex: "\<not> exhausted s"
  shows "\<exists>p s'. pci_probe_device e io loc s = Some (0, s') \<and> p \<notin> fst ` live_objects s \<and> pci_inv (p # ps) (p # ds) vs s' \<and>
    R (hardware s') = R (hardware s) \<and> found_at R latch (hardware s) loc p s' \<and> next_device_id s' = next_device_id s + 1 \<and>
    (\<forall>q. q \<noteq> p \<longrightarrow> pdevs s' q = pdevs s q \<and> devs s' q = devs s q)"
proof -
  have ini: "pci_initialized s" using inv by (simp add: pci_inv_def)
  obtain s1 where s1: "pci_config_read16 io loc PCI_CONFIG_VENDOR_ID s = (vendor_at R (hardware s) loc, s1)" "touched R s s1"
    by (rule read_vendor [OF io ini])
  have inv1: "pci_inv ps ds vs s1" and ex1: "kmalloc sizeof_pci_device s1 \<noteq> Some (0, s1)" and t1: "R (hardware s1) = R (hardware s)" "pdevs s1 = pdevs s" "devs s1 = devs s"
    "reg_at R (hardware s1) = reg_at R (hardware s)" "live_objects s1 = live_objects s" "next_device_id s1 = next_device_id s"
    using unmoved_pci_inv [OF touched_unmoved [OF s1(2)] inv] unmoved_simps(5) [OF touched_unmoved [OF s1(2)]] ex touched_simps [OF s1(2)] same_kernel_simps [OF touched_same [OF s1(2)]]
    by (simp_all add: exhausted_def)
  obtain p n s2 s3 where c: "pci_create_device loc s1 = Some (p, s3)" "p \<noteq> 0" "p \<notin> fst ` live_objects s" "heap_frame s1 s2" "heap_inv s3"
    "live_objects s3 = insert (p, n) (live_objects s)" "s3 = s2\<lparr>pdevs := (pdevs s)(p \<mapsto> zero_pci_device\<lparr>pd_location := loc\<rparr>), devs := (devs s)(p \<mapsto> fresh_device)\<rparr>"
    using create_device_spec [OF _ ex1, of loc] inv1 unfolding t1 by (auto simp: pci_inv_def)
  obtain m u f a r where e2: "s2 = s1\<lparr>memory := m, heap_used := u, heap_free := f, heap_allocations := a, heap_frees := r\<rparr>"
    using c(4) by (rule heap_frameE)
  have t3: "hardware s3 = hardware s1" "pci_list s3 = pci_list s1" "pci_stats s3 = pci_stats s1" "dm_initialized s3 = dm_initialized s1" "device_list s3 = device_list s1"
    "next_device_id s3 = next_device_id s1" "drvs s3 = drvs s1" "dm_stats s3 = dm_stats s1" "driver_list s3 = driver_list s1" "pci_initialized s3"
    using inv1 by (simp_all add: c(7) e2 pci_inv_def)
  define dv where "dv = function_device (reg_at R (hardware s) loc) loc"
  have p3: "pdevs s3 p = Some (zero_pci_device\<lparr>pd_location := loc\<rparr>)" "devs s3 p = Some fresh_device" by (simp_all add: c(7))
  have "\<forall>j<6. latch (bar_address loc j) (R (hardware s3) (bar_address loc j)) = R (hardware s3) (bar_address loc j)" using keep by (simp add: t3(1) t1(1))
  from setup_spec [OF io t3(10) this c(2) p3]
  obtain s4 s5 s6 pd r w where su: "pci_init_device_info io p s3 = Some s4" "pci_probe_bars io p s4 = Some s5" "link_pci p s5 = Some s6" "same_kernel s3 s6"
    "bars_read (\<lambda>j. R (hardware s) (bar_address loc j)) (\<lambda>j. latch (bar_address loc j) 0xFFFFFFFF) 0 (read_function (reg_at R (hardware s) loc) loc) pd"
    "pdevs s6 = (pdevs s3)(p \<mapsto> pd\<lparr>pd_next := pci_list s1\<rparr>)" "devs s6 = (devs s3)(p \<mapsto> dv)" "pci_list s6 = p" "R (hardware s6) = R (hardware s)"
    "pci_stats s6 = (count_class (cfg_class_code (pd_config pd)) (pci_stats s1))\<lparr>config_reads := r, config_writes := w\<rparr>"
    unfolding t3 t1 dv_def by blast
  note k = same_kernel_simps [OF su(4)]
  have s6: "pdevs s6 = (pdevs s)(p \<mapsto> pd\<lparr>pd_next := pci_list s1\<rparr>)" "devs s6 = (devs s)(p \<mapsto> dv)" using su(6,7) by (simp_all add: c(7))
  have "dm_initialized s6" "length (devices_by_type (dm_stats s6)) = 15" using inv1 by (simp_all add: k t3 pci_inv_def dev_inv_def totals_def)
  then obtain now t where reg: "device_register e p s6 = Some (0, register_effect p dv now t (memory s6) DEVICE_STATE_INITIALIZING s6)"
    using register_undriven [OF cl, of s6 p dv] c(2) by (auto simp: s6 dv_def)
  let ?s = "register_effect p dv now t (memory s6) DEVICE_STATE_INITIALIZING s6"
  have "pci_probe_device e io loc s = Some (0, ?s)" using s1(1) an c(1,2) su(1-3) reg by (simp add: pci_probe_device_def answers_def)
  moreover have "pci_inv (p # ps) (p # ds) vs ?s"
    by (rule push_inv [OF inv1, of p s6 n pd dv w r])
      (use c(2,3,5,6) su(8,10) room in \<open>simp_all add: k t1 t3 s6 dv_def\<close>)
  moreover have "found_at R latch (hardware s) loc p ?s"
    using bars_read_next [OF su(5), of "pci_list s1"] unfolding found_at_def by (simp add: register_effect_def s6 registered_as_def dv_def)
  moreover have "R (hardware ?s) = R (hardware s)" "next_device_id ?s = next_device_id s + 1" "\<forall>q. q \<noteq> p \<longrightarrow> pdevs ?s q = pdevs s q \<and> devs ?s q = devs s q"
    using su(9) by (simp_all add: register_effect_def s6 k t3 t1)
  ultimately show ?thesis using c(3) by blast
qed

section \<open>Enumeration of all functions\<close>

text \<open>The functions there are, in the order of the scan: function 0 of every device, and the others of a device that says it has several.\<close>

definition location_at :: "nat \<Rightarrow> nat \<Rightarrow> nat \<Rightarrow> pci_location" where
  "location_at bus device function = \<lparr>loc_bus = of_nat bus, loc_device = of_nat device, loc_function = of_nat function\<rparr>"

definition multifunction :: "('h \<Rightarrow> u32 \<Rightarrow> u32) \<Rightarrow> 'h \<Rightarrow> pci_location \<Rightarrow> bool" where
  "multifunction R h loc \<longleftrightarrow> ucast (drop_bit 16 (reg_at R h loc PCI_CONFIG_HEADER_TYPE)) AND PCI_HEADER_TYPE_MULTIFUNCTION \<noteq> 0"

definition slot_functions :: "('h \<Rightarrow> u32 \<Rightarrow> u32) \<Rightarrow> 'h \<Rightarrow> nat \<Rightarrow> nat \<Rightarrow> pci_location list" where
  "slot_functions R h bus device =
     (if answers R h (location_at bus device 0)
      then location_at bus device 0 #
        (if multifunction R h (location_at bus device 0) then filter (answers R h) (map (location_at bus device) [1..<8]) else [])
      else [])"

definition bus_functions :: "('h \<Rightarrow> u32 \<Rightarrow> u32) \<Rightarrow> 'h \<Rightarrow> nat \<Rightarrow> pci_location list" where
  "bus_functions R h bus = concat (map (slot_functions R h bus) [0..<32])"

definition all_functions :: "('h \<Rightarrow> u32 \<Rightarrow> u32) \<Rightarrow> 'h \<Rightarrow> pci_location list" where
  "all_functions R h = concat (map (bus_functions R h) [0..<256])"

text \<open>
  The state of a scan that has met the functions \<open>locs\<close>: the new devices are those of the first functions, in order, and of all unless
  the heap is exhausted; no other device has changed.
\<close>

definition scanned :: "('h \<Rightarrow> u32 \<Rightarrow> u32) \<Rightarrow> (u32 \<Rightarrow> u32 \<Rightarrow> u32) \<Rightarrow> u64 list \<Rightarrow> u64 list \<Rightarrow> u64 list \<Rightarrow> ('h, 'a) pci_sys_scheme \<Rightarrow> pci_location list \<Rightarrow>
    u32 \<times> ('h, 'a) pci_sys_scheme \<Rightarrow> bool" where
  "scanned R latch ps ds vs s0 locs ns \<longleftrightarrow> (\<exists>qs. pci_inv (qs @ ps) (qs @ ds) vs (snd ns) \<and> fst ns = of_nat (length qs) \<and>
     R (hardware (snd ns)) = R (hardware s0) \<and> next_device_id (snd ns) = next_device_id s0 + of_nat (length qs) \<and>
     length qs \<le> length locs \<and> (length qs = length locs \<or> exhausted (snd ns)) \<and>
     (\<forall>i<length qs. found_at R latch (hardware s0) (locs ! i) (rev qs ! i) (snd ns)) \<and>
     (\<forall>q. q \<notin> set qs \<longrightarrow> pdevs (snd ns) q = pdevs s0 q \<and> devs (snd ns) q = devs s0 q))"

lemma found_at_cong: "R h' = R h \<Longrightarrow> pdevs s' p = pdevs s p \<Longrightarrow> devs s' p = devs s p \<Longrightarrow> found_at R latch h' loc p s' = found_at R latch h loc p s"
  by (simp add: found_at_def reg_at_def [abs_def])

lemma answers_cong: "R h' = R h \<Longrightarrow> answers R h' = answers R h" "R h' = R h \<Longrightarrow> multifunction R h' = multifunction R h"
  by (simp_all add: answers_def vendor_at_def multifunction_def reg_at_def fun_eq_iff)

lemma scanned_unmoved:
  assumes "scanned R latch ps ds vs s0 locs (n, s)" and u: "unmoved R s s'"
  shows "scanned R latch ps ds vs s0 locs (n, s')"
proof -
  note k = unmoved_simps [OF u]
  have f: "found_at R latch h loc p s' = found_at R latch h loc p s" for h loc p by (rule found_at_cong) (simp_all add: k)
  show ?thesis using assms(1) unmoved_pci_inv [OF u] unfolding scanned_def fst_conv snd_conv k f by blast
qed

lemma scanned_more:
  assumes "scanned R latch ps ds vs s0 locs (n, s)" and "exhausted s"
  shows "scanned R latch ps ds vs s0 (locs @ [loc]) (n, s)"
proof -
  obtain qs where q: "pci_inv (qs @ ps) (qs @ ds) vs s" "n = of_nat (length qs)" "R (hardware s) = R (hardware s0)"
    "next_device_id s = next_device_id s0 + of_nat (length qs)" "length qs \<le> length locs"
    "\<forall>i<length qs. found_at R latch (hardware s0) (locs ! i) (rev qs ! i) s"
    "\<forall>q. q \<notin> set qs \<longrightarrow> pdevs s q = pdevs s0 q \<and> devs s q = devs s0 q"
    using assms(1) unfolding scanned_def fst_conv snd_conv by blast
  have "\<forall>i<length qs. found_at R latch (hardware s0) ((locs @ [loc]) ! i) (rev qs ! i) s" using q(5,6) by (simp add: nth_append)
  then show ?thesis unfolding scanned_def fst_conv snd_conv using q assms(2) by (intro exI [of _ qs] conjI) simp_all
qed

lemma scanned_probe_exhausted:
  assumes io: "config_ports io R latch" and env: "well_behaved e" and sc: "scanned R latch ps ds vs s0 locs (n, s)"
    and an: "answers R (hardware s0) loc" and ex: "exhausted s"
  shows "\<exists>ns'. count_probe e io loc (n, s) = Some ns' \<and> scanned R latch ps ds vs s0 (locs @ [loc]) ns'"
proof -
  obtain qs where q: "pci_inv (qs @ ps) (qs @ ds) vs s" "R (hardware s) = R (hardware s0)" using sc unfolding scanned_def by auto
  have "answers R (hardware s) loc" using an answers_cong(1) [of R "hardware s" "hardware s0"] q(2) by simp
  then obtain s' where s': "pci_probe_device e io loc s = Some (err e ENOMEM, s')" "touched R s s'" using probe_exhausted [OF io q(1) _ ex] by blast
  have "err e ENOMEM \<noteq> 0" using env by (simp add: well_behaved_def less_le)
  then have "count_probe e io loc (n, s) = Some (n, s')" using s'(1) by (simp add: count_probe_def)
  moreover have "scanned R latch ps ds vs s0 (locs @ [loc]) (n, s)" by (rule scanned_more [OF sc ex])
  ultimately show ?thesis using scanned_unmoved [OF _ touched_unmoved [OF s'(2)]] by blast
qed

lemma scanned_probe:
  assumes io: "config_ports io R latch" and env: "well_behaved e" and sc: "scanned R latch ps ds vs s0 locs (n, s)"
    and keep: "\<forall>j<6. latch (bar_address loc j) (R (hardware s0) (bar_address loc j)) = R (hardware s0) (bar_address loc j)"
    and an: "answers R (hardware s0) loc" and room: "unat (next_device_id s0) + length locs + 1 < 2 ^ 32"
  shows "\<exists>ns'. count_probe e io loc (n, s) = Some ns' \<and> scanned R latch ps ds vs s0 (locs @ [loc]) ns'"
proof (cases "exhausted s")
  case True
  then show ?thesis by (rule scanned_probe_exhausted [OF io env sc an])
next
    case False
  obtain qs where q: "pci_inv (qs @ ps) (qs @ ds) vs s" "n = of_nat (length qs)" "R (hardware s) = R (hardware s0)"
    "next_device_id s = next_device_id s0 + of_nat (length qs)" "length qs = length locs"
    "\<And>i. i < length qs \<Longrightarrow> found_at R latch (hardware s0) (locs ! i) (rev qs ! i) s"
    "\<And>q. q \<notin> set qs \<Longrightarrow> pdevs s q = pdevs s0 q \<and> devs s q = devs s0 q"
    using sc False unfolding scanned_def fst_conv snd_conv by blast
  note len = q(5)
  have an': "answers R (hardware s) loc" using an answers_cong(1) [of R "hardware s" "hardware s0"] q(3) by simp
    have "unat (next_device_id s + 1) = unat (next_device_id s0) + length qs + 1" using room len
      by (simp add: q(4) unat_word_ariths unat_of_nat)
    then have rm: "next_device_id s + 1 \<noteq> 0" by (metis add_is_0 one_neq_zero unsigned_0)
    have cl: "clock_frame e" using env by (simp add: well_behaved_def)
    obtain p s' where s': "pci_probe_device e io loc s = Some (0, s')" "p \<notin> fst ` live_objects s" "pci_inv (p # qs @ ps) (p # qs @ ds) vs s'"
      "R (hardware s') = R (hardware s0)" "found_at R latch (hardware s) loc p s'" "next_device_id s' = next_device_id s + 1"
      "\<And>q. q \<noteq> p \<Longrightarrow> pdevs s' q = pdevs s q \<and> devs s' q = devs s q"
      using probe_found [OF io cl q(1) rm _ an' False, unfolded q(3), OF keep] by blast
    have np: "p \<notin> set qs" using q(1) s'(2) unfolding pci_inv_def by auto
    have new: "found_at R latch (hardware s0) loc p s'" using s'(5) found_at_cong [of R "hardware s0" "hardware s" s' p s'] q(3) by simp
    have "found_at R latch (hardware s0) (locs ! i) (rev qs ! i) s'" if "i < length qs" for i
    proof -
      have "rev qs ! i \<noteq> p" using np that by (metis length_rev nth_mem set_rev)
      then show ?thesis using q(6) [OF that] s'(7) found_at_cong [of R "hardware s0" "hardware s0" s' "rev qs ! i" s] by simp
    qed
    then have all: "\<forall>i<length (p # qs). found_at R latch (hardware s0) ((locs @ [loc]) ! i) (rev (p # qs) ! i) s'"
      using new len by (auto simp: nth_append less_Suc_eq)
    have "count_probe e io loc (n, s) = Some (n + 1, s')" using s'(1) by (simp add: count_probe_def)
    moreover have "scanned R latch ps ds vs s0 (locs @ [loc]) (n + 1, s')"
      unfolding scanned_def fst_conv snd_conv using q(2,3,4,7) s'(3,4,6,7) all len
      by (intro exI [of _ "p # qs"] conjI) (simp_all add: algebra_simps)
    ultimately show ?thesis by blast
qed

lemma for_each_scan:
  assumes step: "\<And>x locs ns. x \<in> set xs \<Longrightarrow> P locs ns \<Longrightarrow> length locs + length (g x) \<le> N \<Longrightarrow> \<exists>ns'. f x ns = Some ns' \<and> P (locs @ g x) ns'"
    and "P locs ns" and "length locs + length (concat (map g xs)) \<le> N"
  shows "\<exists>ns'. for_each f xs ns = Some ns' \<and> P (locs @ concat (map g xs)) ns'"
  using assms
proof (induction xs arbitrary: locs ns)
  case (Cons x xs)
  obtain ns1 where ns1: "f x ns = Some ns1" "P (locs @ g x) ns1" using Cons.prems(1) [of x locs ns] Cons.prems(2,3) by auto
  have "\<exists>ns'. for_each f xs ns1 = Some ns' \<and> P ((locs @ g x) @ concat (map g xs)) ns'"
    using ns1(2) Cons.prems(3) by (intro Cons.IH Cons.prems(1)) auto
  then show ?case using ns1(1) by auto
qed simp

text \<open>A base address register keeps its own value when that is written to it.\<close>

definition bars_stable :: "('h \<Rightarrow> u32 \<Rightarrow> u32) \<Rightarrow> (u32 \<Rightarrow> u32 \<Rightarrow> u32) \<Rightarrow> 'h \<Rightarrow> bool" where
  "bars_stable R latch h \<longleftrightarrow> (\<forall>loc. \<forall>j<6. latch (bar_address loc j) (R h (bar_address loc j)) = R h (bar_address loc j))"

lemma scanned_hw:
  assumes "scanned R latch ps ds vs s0 locs (n, s)"
  shows "pci_initialized s" "vendor_at R (hardware s) = vendor_at R (hardware s0)" "multifunction R (hardware s) = multifunction R (hardware s0)"
  using assms answers_cong(2) [of R "hardware s" "hardware s0"] by (auto simp: scanned_def pci_inv_def vendor_at_def reg_at_def fun_eq_iff)

lemma scan_function_spec:
  assumes io: "config_ports io R latch" and env: "well_behaved e" and keep: "bars_stable R latch (hardware s0)"
    and sc: "scanned R latch ps ds vs s0 locs ns" and room: "unat (next_device_id s0) + N < 2 ^ 32"
    and len: "length locs + length (filter (answers R (hardware s0)) [location_at bus device function]) \<le> N"
  shows "\<exists>ns'. scan_function e io bus device function ns = Some ns' \<and>
    scanned R latch ps ds vs s0 (locs @ filter (answers R (hardware s0)) [location_at bus device function]) ns'"
proof -
  obtain n s where ns: "ns = (n, s)" by (cases ns)
  let ?loc = "location_at bus device function"
  note hw = scanned_hw [OF sc [unfolded ns]]
  obtain s1 where s1: "pci_config_read16 io ?loc PCI_CONFIG_VENDOR_ID s = (vendor_at R (hardware s0) ?loc, s1)" "touched R s s1"
    using read_vendor [OF io hw(1)] unfolding hw(2) by metis
  have sc1: "scanned R latch ps ds vs s0 locs (n, s1)" by (rule scanned_unmoved [OF sc [unfolded ns] touched_unmoved [OF s1(2)]])
  have run: "scan_function e io bus device function ns = (if answers R (hardware s0) ?loc then count_probe e io ?loc (n, s1) else Some (n, s1))"
    using s1(1) by (simp add: scan_function_def location_at_def answers_def ns Let_def)
  show ?thesis
  proof (cases "answers R (hardware s0) ?loc")
    case True
    then have "\<exists>ns'. count_probe e io ?loc (n, s1) = Some ns' \<and> scanned R latch ps ds vs s0 (locs @ [?loc]) ns'"
      using room len keep by (intro scanned_probe [OF io env sc1]) (auto simp: bars_stable_def)
    then show ?thesis using True run by simp
  next
    case False
    then show ?thesis using sc1 run by simp
  qed
qed

lemma scan_functions_spec:
  assumes io: "config_ports io R latch" and env: "well_behaved e" and keep: "bars_stable R latch (hardware s0)"
    and sc: "scanned R latch ps ds vs s0 locs ns" and room: "unat (next_device_id s0) + N < 2 ^ 32"
    and len: "length locs + length (filter (answers R (hardware s0)) (map (location_at bus device) fs)) \<le> N"
  shows "\<exists>ns'. for_each (scan_function e io bus device) fs ns = Some ns' \<and>
    scanned R latch ps ds vs s0 (locs @ filter (answers R (hardware s0)) (map (location_at bus device) fs)) ns'"
proof -
  let ?g = "\<lambda>f. filter (answers R (hardware s0)) [location_at bus device f]"
  have cc: "filter (answers R (hardware s0)) (map (location_at bus device) fs) = concat (map ?g fs)" by (induction fs) auto
  show ?thesis unfolding cc by (rule for_each_scan [OF scan_function_spec [OF io env keep _ room] sc len [unfolded cc]])
qed

lemma scan_device_spec:
  assumes io: "config_ports io R latch" and env: "well_behaved e" and keep: "bars_stable R latch (hardware s0)"
    and sc: "scanned R latch ps ds vs s0 locs ns" and room: "unat (next_device_id s0) + N < 2 ^ 32"
    and len: "length locs + length (slot_functions R (hardware s0) bus device) \<le> N"
  shows "\<exists>ns'. scan_device e io bus device ns = Some ns' \<and> scanned R latch ps ds vs s0 (locs @ slot_functions R (hardware s0) bus device) ns'"
proof -
  obtain n s where ns: "ns = (n, s)" by (cases ns)
  let ?loc = "location_at bus device 0" and ?A = "answers R (hardware s0)"
  note hw = scanned_hw [OF sc [unfolded ns]]
  obtain s1 where s1: "pci_config_read16 io ?loc PCI_CONFIG_VENDOR_ID s = (vendor_at R (hardware s0) ?loc, s1)" "touched R s s1"
    using read_vendor [OF io hw(1)] unfolding hw(2) by metis
  have sc1: "scanned R latch ps ds vs s0 locs (n, s1)" by (rule scanned_unmoved [OF sc [unfolded ns] touched_unmoved [OF s1(2)]])
  have l0: "\<lparr>loc_bus = of_nat bus, loc_device = of_nat device, loc_function = 0\<rparr> = ?loc" by (simp add: location_at_def)
  show ?thesis
  proof (cases "?A ?loc")
    case False
    then have "scan_device e io bus device ns = Some (n, s1)" using s1(1) by (simp add: scan_device_def l0 answers_def ns Let_def)
    then show ?thesis using sc1 False by (simp add: slot_functions_def)
  next
    case True
    obtain n2 s2 where s2: "count_probe e io ?loc (n, s1) = Some (n2, s2)" "scanned R latch ps ds vs s0 (locs @ [?loc]) (n2, s2)"
      using scanned_probe [OF io env sc1 _ True] room len keep True by (auto simp: bars_stable_def slot_functions_def)
    note hw2 = scanned_hw [OF s2(2)]
    obtain s3 where s3: "pci_config_read8 io ?loc PCI_CONFIG_HEADER_TYPE s2 = (ucast (drop_bit (8 * unat (PCI_CONFIG_HEADER_TYPE AND 3)) (reg_at R (hardware s2) ?loc PCI_CONFIG_HEADER_TYPE)), s3)"
      "touched R s2 s3" by (rule read8_spec [OF io hw2(1)])
    have sc3: "scanned R latch ps ds vs s0 (locs @ [?loc]) (n2, s3)" by (rule scanned_unmoved [OF s2(2) touched_unmoved [OF s3(2)]])
    have "8 * unat (PCI_CONFIG_HEADER_TYPE AND 3) = 16" by (simp add: PCI_CONFIG_HEADER_TYPE_def)
    then have run: "scan_device e io bus device ns = (if multifunction R (hardware s0) ?loc then for_each (scan_function e io bus device) [1..<8] (n2, s3) else Some (n2, s3))"
      using s1(1) s2(1) s3(1) True unfolding hw2(3) [symmetric] by (simp add: scan_device_def l0 answers_def multifunction_def ns Let_def)
    show ?thesis
    proof (cases "multifunction R (hardware s0) ?loc")
      case multi: True
      have "length (locs @ [?loc]) + length (filter ?A (map (location_at bus device) [1..<8])) \<le> N" using len True multi by (simp add: slot_functions_def)
      from scan_functions_spec [OF io env keep sc3 room this] show ?thesis using True multi run by (simp add: slot_functions_def)
    next
      case single: False
      then show ?thesis using True run sc3 by (simp add: slot_functions_def)
    qed
  qed
qed

lemma scan_bus_spec:
  assumes io: "config_ports io R latch" and env: "well_behaved e" and keep: "bars_stable R latch (hardware s0)"
    and sc: "scanned R latch ps ds vs s0 locs ns" and room: "unat (next_device_id s0) + N < 2 ^ 32"
    and len: "length locs + length (bus_functions R (hardware s0) bus) \<le> N"
  shows "\<exists>ns'. scan_bus e io bus ns = Some ns' \<and> scanned R latch ps ds vs s0 (locs @ bus_functions R (hardware s0) bus) ns'"
proof -
  obtain n s where ns: "ns = (n, s)" by (cases ns)
  let ?s = "upd_pstats (\<lambda>st. st\<lparr>total_buses := total_buses st + 1\<rparr>) s"
  have "unmoved R s ?s" unfolding unmoved_def
    by (intro exI [of _ "fake_time s"] exI [of _ "(pci_stats s)\<lparr>total_buses := total_buses (pci_stats s) + 1\<rparr>"] exI [of _ "hardware s"]) simp
  with sc have sc1: "scanned R latch ps ds vs s0 locs (n, ?s)" unfolding ns by (rule scanned_unmoved)
  have "\<exists>ns'. for_each (scan_device e io bus) [0..<32] (n, ?s) = Some ns' \<and>
    scanned R latch ps ds vs s0 (locs @ concat (map (slot_functions R (hardware s0) bus) [0..<32])) ns'"
    by (rule for_each_scan [OF scan_device_spec [OF io env keep _ room] sc1 len [unfolded bus_functions_def]])
  then show ?thesis by (simp add: scan_bus_def bus_functions_def ns)
qed

lemma slot_functions_length: "length (slot_functions R h bus device) \<le> 8"
proof -
  have "length (filter (answers R h) (map (location_at bus device) [1..<8])) \<le> 7" by (rule order_trans [OF length_filter_le]) simp
  then show ?thesis by (simp add: slot_functions_def)
qed

lemma concat_length: "(\<And>x. x \<in> set xs \<Longrightarrow> length (g x) \<le> k) \<Longrightarrow> length (concat (map g xs)) \<le> k * length xs"
  by (induction xs) (fastforce simp: algebra_simps)+

lemma all_functions_length: "length (all_functions R h) \<le> 65536"
proof -
  have "length (bus_functions R h bus) \<le> 256" for bus
    using concat_length [of "[0..<32]" "slot_functions R h bus" 8, OF slot_functions_length] by (simp add: bus_functions_def)
  from concat_length [of "[0..<256]" "bus_functions R h" 256, OF this] show ?thesis by (simp add: all_functions_def)
qed

lemma enumerate_spec:
  assumes io: "config_ports io R latch" and env: "well_behaved e" and keep: "bars_stable R latch (hardware s)"
    and inv: "pci_inv ps ds vs s" and room: "unat (next_device_id s) + 65536 < 2 ^ 32"
  shows "\<exists>ns'. pci_enumerate_devices e io s = Some ns' \<and> scanned R latch ps ds vs s (all_functions R (hardware s)) ns'"
proof -
  have ini: "pci_initialized s" using inv by (simp add: pci_inv_def)
  have cl: "clock_frame e" using env by (simp add: well_behaved_def)
  obtain t0 t where c1: "read_clock e s = (t0, s\<lparr>fake_time := t\<rparr>)" by (rule clock_frameE [OF cl])
  have u: "unmoved R s1 (s1\<lparr>fake_time := t, pci_stats := (pci_stats s1)\<lparr>enumeration_time_ms := x\<rparr>\<rparr>)" for s1 :: "('a, 'b) pci_sys_scheme" and t x
    unfolding unmoved_def by (intro exI [of _ t] exI [of _ "(pci_stats s1)\<lparr>enumeration_time_ms := x\<rparr>"] exI [of _ "hardware s1"]) simp
  have "scanned R latch ps ds vs s [] (0, s)" using inv unfolding scanned_def by (intro exI [of _ "[]"]) simp
  from scanned_unmoved [OF this u [where t = t and x = "enumeration_time_ms (pci_stats s)"]]
  have sc: "scanned R latch ps ds vs s [] (0, s\<lparr>fake_time := t\<rparr>)" by simp
  have len: "length [] + length (concat (map (bus_functions R (hardware s)) [0..<256])) \<le> 65536" using all_functions_length [of R "hardware s"] by (simp add: all_functions_def)
  have "\<exists>ns'. for_each (scan_bus e io) [0..<256] (0, s\<lparr>fake_time := t\<rparr>) = Some ns' \<and>
    scanned R latch ps ds vs s ([] @ concat (map (bus_functions R (hardware s)) [0..<256])) ns'"
    by (rule for_each_scan [OF scan_bus_spec [OF io env keep _ room] sc len])
  then obtain n s1 where s1: "for_each (scan_bus e io) [0..<256] (0, s\<lparr>fake_time := t\<rparr>) = Some (n, s1)"
    "scanned R latch ps ds vs s (all_functions R (hardware s)) (n, s1)" unfolding all_functions_def by auto
  obtain t1 t' where c2: "read_clock e s1 = (t1, s1\<lparr>fake_time := t'\<rparr>)" by (rule clock_frameE [OF cl])
  let ?s = "s1\<lparr>fake_time := t', pci_stats := (pci_stats s1)\<lparr>enumeration_time_ms := ucast t1 - ucast t0\<rparr>\<rparr>"
  have "pci_enumerate_devices e io s = Some (n, ?s)" using ini c1 s1(1) c2 by (simp add: pci_enumerate_devices_def)
  then show ?thesis using scanned_unmoved [OF s1(2) u] by blast
qed

section \<open>Start and shutdown\<close>

lemma pci_init_inv:
  assumes "\<not> pci_initialized s" and cl: "clock_frame e" and h: "heap_inv s" and d: "dev_inv ds vs s" "set ds \<subseteq> fst ` live_objects s"
  shows "\<exists>s'. pci_init e s = (0, s') \<and> pci_inv [] ds vs s' \<and> hardware s' = hardware s \<and> next_device_id s' = next_device_id s"
proof -
  let ?s = "s\<lparr>pci_list := 0, pci_stats := zero_pci_stats, enumeration_start := 0, pci_initialized := True\<rparr>"
  obtain n t where c: "read_clock e ?s = (n, ?s\<lparr>fake_time := t\<rparr>)" by (rule clock_frameE [OF cl])
  define s' where "s' = ?s\<lparr>fake_time := t, enumeration_start := ucast n\<rparr>"
  have v: "heap_inv s' = heap_inv s" "live_objects s' = live_objects s" using heap_view_cong(1,2) [of s' s] by (simp_all add: s'_def)
  have "dev_inv ds vs s'" using d(1) unfolding dev_inv_def listed_def totals_def s'_def by simp
  moreover have "unat (x :: u8) < 256" for x using unsigned_less [of x] by simp
  then have "pci_counts [] s'" by (simp add: pci_counts_def s'_def zero_pci_stats_def)
  ultimately have "pci_inv [] ds vs s'" using h d(2) unfolding pci_inv_def v by (simp add: s'_def)
  moreover have "pci_init e s = (0, s')" using assms(1) c by (simp add: pci_init_def s'_def)
  ultimately show ?thesis by (auto simp: s'_def)
qed

lemma free_devices_spec:
  assumes "heap_inv s" and "chain pd_next (pdevs s) a ps 0" and "set ps \<subseteq> fst ` live_objects s"
  shows "\<exists>s'. free_devices a s = Some s' \<and> heap_inv s' \<and> live_objects s' = {x \<in> live_objects s. fst x \<notin> set ps} \<and>
    (\<forall>q\<in>set ps. devs s' q = None) \<and> (\<forall>q. devs s q = None \<longrightarrow> devs s' q = None) \<and> device_list s' = device_list s \<and> dm_initialized s' = dm_initialized s"
  using assms
proof (induction ps arbitrary: a s)
  case Nil
  then show ?case by (subst free_devices.simps) simp
next
  case (Cons p ps)
  obtain pd where pd: "a = p" "p \<noteq> 0" "pdevs s p = Some pd" "chain pd_next (pdevs s) (pd_next pd) ps 0" using Cons.prems(2) by auto
  have nd: "p \<notin> set ps" using chain_distinct [OF Cons.prems(2)] by simp
  obtain n where n: "(p, n) \<in> live_objects s" using Cons.prems(3) by auto
  obtain s1 where s1: "kfree p s = Some s1" "live_objects s1 = live_objects s - {(p, n)}" "heap_inv s1" "heap_frame s s1"
    using kheap.release_law [OF Cons.prems(1) n] by blast
  obtain m u f al r where e: "s1 = s\<lparr>memory := m, heap_used := u, heap_free := f, heap_allocations := al, heap_frees := r\<rparr>"
    using s1(4) by (rule heap_frameE)
  define s2 where "s2 = s1\<lparr>pdevs := (pdevs s1)(p := None), devs := (devs s1)(p := None)\<rparr>"
  have v: "heap_inv s2" "live_objects s2 = live_objects s - {(p, n)}" using heap_view_cong(1,2) [of s2 s1] s1(2,3) by (simp_all add: s2_def)
  have t: "pdevs s2 = (pdevs s)(p := None)" "devs s2 = (devs s)(p := None)" "device_list s2 = device_list s" "dm_initialized s2 = dm_initialized s"
    by (simp_all add: s2_def e)
  have only: "x \<in> live_objects s \<Longrightarrow> fst x = p \<Longrightarrow> x = (p, n)" for x using kheap.live_fun [OF Cons.prems(1) n, of "snd x"] by (cases x) auto
  have "set ps \<subseteq> fst ` live_objects s2" using Cons.prems(3) nd unfolding v(2) by force
  moreover have "chain pd_next (pdevs s2) (pd_next pd) ps 0" using pd(4) nd unfolding t by simp
  ultimately obtain s' where s': "free_devices (pd_next pd) s2 = Some s'" "heap_inv s'" "live_objects s' = {x \<in> live_objects s2. fst x \<notin> set ps}"
    "\<forall>q\<in>set ps. devs s' q = None" "\<forall>q. devs s2 q = None \<longrightarrow> devs s' q = None" "device_list s' = device_list s2" "dm_initialized s' = dm_initialized s2"
    using Cons.IH [OF v(1)] by blast
  have "free_devices a s = Some s'" using pd(1-3) s1(1) s'(1) by (subst free_devices.simps) (simp add: s2_def)
  moreover have "live_objects s' = {x \<in> live_objects s. fst x \<notin> set (p # ps)}"
  proof (rule set_eqI)
    fix x
    show "x \<in> live_objects s' \<longleftrightarrow> x \<in> {x \<in> live_objects s. fst x \<notin> set (p # ps)}" using only [of x] unfolding s'(3) v(2) by (cases x) auto
  qed
  moreover have "\<forall>q\<in>set (p # ps). devs s' q = None" "\<forall>q. devs s q = None \<longrightarrow> devs s' q = None" using s'(4,5) unfolding t(2) by simp_all
  ultimately show ?case using s'(2,6,7) t(3,4) by simp
qed

text \<open>
  \<^verbatim>\<open>pci_shutdown\<close> gives back exactly the structures of the driver, but leaves them on the list of the device framework: the next search
  of that list reads freed memory.
\<close>

lemma pci_shutdown_dangles:
  assumes "pci_inv (p # ps) (p # ds) vs s"
  shows "\<exists>s'. pci_shutdown s = Some s' \<and> live_objects s' = {x \<in> live_objects s. fst x \<notin> set (p # ps)} \<and> device_find_by_id i s' = None"
proof -
  have i: "heap_inv s" "pci_initialized s" "chain pd_next (pdevs s) (pci_list s) (p # ps) 0" "set (p # ps) \<subseteq> fst ` live_objects s"
    "device_list s = p" "p \<noteq> 0" "dm_initialized s" using assms unfolding pci_inv_def dev_inv_def listed_def by auto
  obtain s1 where s1: "free_devices (pci_list s) s = Some s1" "live_objects s1 = {x \<in> live_objects s. fst x \<notin> set (p # ps)}" "devs s1 p = None"
    "device_list s1 = p" "dm_initialized s1"
    using free_devices_spec [OF i(1,3,4)] i(5,7) by auto
  let ?s = "s1\<lparr>pci_initialized := False\<rparr>"
  have "live_objects ?s = live_objects s1" using heap_view_cong(2) [of ?s s1] by simp
  moreover have "device_find_by_id i ?s = None" using s1(3-5) i(6) unfolding device_find_by_id_def by (subst chain_find.simps) simp
  moreover have "pci_shutdown s = Some ?s" using i(2) s1(1) by (simp add: pci_shutdown_def)
  ultimately show ?thesis using s1(2) by simp
qed

section \<open>An example\<close>

text \<open>
  A bus with one device, a storage controller at 0:0.0 with 4 KB of registers at \<^verbatim>\<open>0xFEB00000\<close>. The hardware is the selected address and the
  registers; those of absent functions read as ones.
\<close>

type_synonym bus_small = "u32 \<times> (u32 \<Rightarrow> u32)"

definition latch_small :: "u32 \<Rightarrow> u32 \<Rightarrow> u32" where
  "latch_small a v = (if a = 0x80000010 then v AND 0xFFFFF000 else v)"

definition regs_small :: "u32 \<Rightarrow> u32" where
  "regs_small a = (if a = 0x80000000 then 0x12348086 else if a = 0x80000008 then 0x01010000 else if a = 0x80000010 then 0xFEB00000
     else if a AND 0xFFFFFF00 = 0x80000000 then 0 else 0xFFFFFFFF)"

definition io_small :: "bus_small ports" where
  "io_small = \<lparr>port_outl = (\<lambda>port v (sel, r). if port = PCI_CONFIG_ADDRESS then (v, r) else if port = PCI_CONFIG_DATA then (sel, r(sel := latch_small sel v)) else (sel, r)),
     port_outw = (\<lambda>port v h. h), port_outb = (\<lambda>port v h. h), port_inl = (\<lambda>port (sel, r). (r sel, (sel, r))),
     port_inw = (\<lambda>port (sel, r). (ucast (drop_bit (8 * unat (port - PCI_CONFIG_DATA)) (r sel)), (sel, r))),
     port_inb = (\<lambda>port (sel, r). (ucast (drop_bit (8 * unat (port - PCI_CONFIG_DATA)) (r sel)), (sel, r)))\<rparr>"

definition pci_env_small :: "bus_small pci_sys dev_env" where
  "pci_env_small = \<lparr>errno_code = (\<lambda>_. 22), read_clock = (\<lambda>s. (7, s)), call_driver = (\<lambda>_ _ _ s. Some (0, s)), call_back = (\<lambda>_ _. Some), meanwhile = Some\<rparr>"

definition pci_boot :: "bus_small pci_sys" where
  "pci_boot = snd (device_init (snd (heap_init 0x1000000 0x10000 (dev_sys.extend (dev_small\<lparr>devs := Map.empty, drvs := Map.empty\<rparr>)
     \<lparr>pdevs = Map.empty, pci_list = 0, pci_stats = zero_pci_stats, pci_initialized = False, enumeration_start = 0, hardware = (0, regs_small)\<rparr>))))"

definition pci_small :: "bus_small pci_sys" where
  "pci_small = snd (pci_init pci_env_small pci_boot)"

lemma io_small_ok: "config_ports io_small snd latch_small"
proof -
  have "PCI_CONFIG_DATA \<noteq> PCI_CONFIG_ADDRESS" by (simp add: PCI_CONFIG_DATA_def PCI_CONFIG_ADDRESS_def)
  moreover have "unat (ucast (k :: u8) :: u16) = unat k" for k
  proof -
    have "unat k < 2 ^ 16" by (rule order_less_le_trans [OF unsigned_less]) simp
    then show ?thesis by (simp add: unsigned_ucast_eq take_bit_nat_eq_self)
  qed
  ultimately show ?thesis by (simp add: config_ports_def io_small_def Let_def split_beta)
qed

lemma pci_env_small_ok: "well_behaved pci_env_small"
proof -
  have "\<exists>t n. read_clock pci_env_small s = (n, s\<lparr>fake_time := t\<rparr>)" for s
    by (rule exI [of _ "fake_time s"]) (simp add: pci_env_small_def)
  then have "clock_frame pci_env_small" by (simp add: clock_frame_def)
  moreover have "\<exists>r m. call_driver pci_env_small f d x s = Some (r, s\<lparr>memory := m\<rparr>)" for f d x s
    by (rule exI [of _ 0], rule exI [of _ "memory s"]) (simp add: pci_env_small_def)
  then have "driver_frame pci_env_small" by (simp add: driver_frame_def)
  ultimately show ?thesis by (simp add: well_behaved_def pci_env_small_def)
qed

lemma latch_small_stable: "latch_small a (regs_small a) = regs_small a"
  by (simp add: latch_small_def regs_small_def)

lemma pci_boot_ok:
  "heap_inv pci_boot" "dev_inv [] [] pci_boot" "\<not> pci_initialized pci_boot" "hardware pci_boot = (0, regs_small)" "next_device_id pci_boot = 1"
proof -
  define b :: "bus_small pci_sys" where "b = dev_sys.extend (dev_small\<lparr>devs := Map.empty, drvs := Map.empty\<rparr>)
     \<lparr>pdevs = Map.empty, pci_list = 0, pci_stats = zero_pci_stats, pci_initialized = False, enumeration_start = 0, hardware = (0, regs_small)\<rparr>"
  define h where "h = snd (heap_init 0x1000000 0x10000 b)"
  have pb: "pci_boot = snd (device_init h)" by (simp add: pci_boot_def h_def b_def)
  have f: "\<not> dm_initialized h" "devs h = Map.empty" "\<not> pci_initialized h" "hardware h = (0, regs_small)"
    by (simp_all add: h_def b_def heap_init_def Let_def dev_sys.defs dev_small_simps)
  have "heap_extent 0x10000 = 65536" by (simp add: heap_extent_def)
  then have "heap_shape h [(65536, False)]" using heap_init_spec(2) [of "0x1000000" "0x10000" b] by (simp add: h_def)
  then have "heap_inv h" by (auto simp: heap_inv_def)
  then show "heap_inv pci_boot" using heap_view_cong(1) [of pci_boot h] by (simp add: pb device_init_def)
  show "dev_inv [] [] pci_boot" using device_init_inv [of h] f(1,2) by (simp add: pb)
  show "\<not> pci_initialized pci_boot" "hardware pci_boot = (0, regs_small)" "next_device_id pci_boot = 1" using f by (simp_all add: pb device_init_def)
qed

lemma pci_small_ok: "pci_inv [] [] [] pci_small" "snd (hardware pci_small) = regs_small" "next_device_id pci_small = 1" "bars_stable snd latch_small (hardware pci_small)"
proof -
  have cl: "clock_frame pci_env_small" using pci_env_small_ok by (simp add: well_behaved_def)
  obtain s' where "pci_init pci_env_small pci_boot = (0, s')" "pci_inv [] [] [] s'" "hardware s' = hardware pci_boot" "next_device_id s' = next_device_id pci_boot"
    using pci_init_inv [OF pci_boot_ok(3) cl pci_boot_ok(1,2)] by auto
  then show "pci_inv [] [] [] pci_small" and hw: "snd (hardware pci_small) = regs_small" and "next_device_id pci_small = 1"
    by (simp_all add: pci_small_def pci_boot_ok)
  show "bars_stable snd latch_small (hardware pci_small)" by (simp add: bars_stable_def hw latch_small_stable)
qed

section \<open>What the bus driver promises\<close>

text \<open>
  A decoder of \<open>2 ^ k\<close> bytes: the address bits from \<open>k\<close> on can be written, those below are zero, and the lowest bits, which give the kind of the register, are fixed.
\<close>

definition kind_bits :: "u32 \<Rightarrow> nat" where
  "kind_bits b = (if b AND PCI_BAR_TYPE_IO \<noteq> 0 then 2 else 4)"

definition decodes :: "nat \<Rightarrow> u32 \<Rightarrow> u32 \<Rightarrow> bool" where
  "decodes k b m \<longleftrightarrow> kind_bits b \<le> k \<and> k < 32 \<and> m = NOT (mask k) OR (b AND mask (kind_bits b))"

lemma bar_size_power:
  assumes "decodes k b m"
  shows "bar_size b m = 2 ^ k"
proof -
  have low: "(if b AND PCI_BAR_TYPE_IO \<noteq> 0 then 0x3 else 0xF) = (mask (kind_bits b) :: u32)" by (simp add: kind_bits_def mask_eq_exp_minus_1)
  have "m AND NOT (mask (kind_bits b)) = NOT (mask k)"
    using assms by (intro bit_word_eqI) (auto simp: decodes_def bit_simps)
  then have "bar_size b m = mask k + 1" unfolding bar_size_def low by simp
  then show ?thesis by (simp add: mask_eq_exp_minus_1)
qed

text \<open>
  C24: \<^verbatim>\<open>pci_probe_bars\<close> returns, for any hardware that answers on the configuration ports and keeps the value of a base address register that is written back.
  Afterwards every register of the hardware holds what it held before, although all ones were written to find the sizes; the six values are recorded; and at every
  register where a base address starts the kind, the width and the size are recorded: \<open>2 ^ k\<close> for a decoder of \<open>2 ^ k\<close> bytes.
\<close>

theorem pci_probe_bars_correct:
  assumes "config_ports io R latch" and "bars_stable R latch (hardware s)" and "pci_initialized s"
    and "pdevs s p = Some pd" and "six_bars pd" and "\<forall>j<6. \<not> bar_is_64bit pd ! j"
    and "\<forall>j. B j = R (hardware s) (bar_address (pd_location pd) j)"
  shows "\<exists>s' pd'. pci_probe_bars io p s = Some s' \<and> R (hardware s') = R (hardware s) \<and> pdevs s' = (pdevs s)(p \<mapsto> pd') \<and> devs s' = devs s \<and>
    (\<forall>j<6. cfg_bar (pd_config pd') ! j = B j) \<and>
    (\<forall>j\<in>set (starts B 0). B j \<noteq> 0 \<longrightarrow> bar_is_io pd' ! j = (B j AND PCI_BAR_TYPE_IO \<noteq> 0) \<and> bar_is_64bit pd' ! j = is_64bit (B j) \<and>
      (\<forall>k. decodes k (B j) (latch (bar_address (pd_location pd) j) 0xFFFFFFFF) \<longrightarrow> bar_sizes pd' ! j = 2 ^ k))"
proof -
  have B: "B = (\<lambda>j. R (hardware s) (bar_address (pd_location pd) j))" using assms(7) by auto
  have keep: "\<forall>j<6. latch (bar_address (pd_location pd) j) (R (hardware s) (bar_address (pd_location pd) j)) = R (hardware s) (bar_address (pd_location pd) j)"
    using assms(2) by (simp add: bars_stable_def)
  have new: "\<forall>j. 0 \<le> j \<and> j < 6 \<longrightarrow> \<not> bar_is_64bit pd ! j" using assms(6) by blast
  obtain s' pd' where s': "probe_bars_from io (pd_location pd) p 0 s = Some s'" "probed R p s pd' s'"
    "bars_read B (\<lambda>j. latch (bar_address (pd_location pd) j) 0xFFFFFFFF) 0 pd pd'"
    using probe_bars_spec [OF assms(1,3) keep probed_start [OF assms(4) touched_refl] assms(5) new] unfolding B by blast
  have r: "\<forall>j<6. cfg_bar (pd_config pd') ! j = B j"
    "\<And>j. j \<in> set (starts B 0) \<Longrightarrow> B j \<noteq> 0 \<Longrightarrow> bar_is_io pd' ! j = (B j AND PCI_BAR_TYPE_IO \<noteq> 0) \<and> bar_is_64bit pd' ! j = is_64bit (B j) \<and>
       bar_sizes pd' ! j = bar_size (B j) (latch (bar_address (pd_location pd) j) 0xFFFFFFFF)"
    using s'(3) unfolding bars_read_def by simp_all
  have "pci_probe_bars io p s = Some s'" using s'(1) assms(4) by (simp add: pci_probe_bars_def)
  then show ?thesis using probed_simps(1,2,4) [OF s'(2)] r bar_size_power by (intro exI [of _ s'] exI [of _ pd'] conjI) simp_all
qed

theorem pci_probe_bars_correct_witness:
  "\<exists>s' pd'. pci_probe_bars io_small 0x2000 (pci_small\<lparr>pdevs := [0x2000 \<mapsto> zero_pci_device]\<rparr>) = Some s' \<and> pdevs s' 0x2000 = Some pd' \<and>
    cfg_bar (pd_config pd') ! 0 = 0xFEB00000 \<and> \<not> bar_is_io pd' ! 0 \<and> bar_sizes pd' ! 0 = 4096"
proof -
  let ?s = "pci_small\<lparr>pdevs := [0x2000 \<mapsto> zero_pci_device]\<rparr>" and ?B = "\<lambda>j. regs_small (bar_address (pd_location zero_pci_device) j)"
  have a: "bar_address (pd_location zero_pci_device) 0 = 0x80000010"
    by (simp add: bar_address_def zero_pci_device_def bar_offset_def PCI_CONFIG_BAR0_def pci_make_address_def PCI_CONFIG_ENABLE_def)
  have hyps: "bars_stable snd latch_small (hardware ?s)" "pci_initialized ?s" "pdevs ?s 0x2000 = Some zero_pci_device" "six_bars zero_pci_device"
    "\<forall>j<6. \<not> bar_is_64bit zero_pci_device ! j" "\<forall>j. ?B j = snd (hardware ?s) (bar_address (pd_location zero_pci_device) j)"
    using pci_small_ok by (simp_all add: pci_inv_def six_bars_def zero_pci_device_def zero_pci_config_def)
  have b: "regs_small 0x80000010 = 0xFEB00000" "decodes 12 0xFEB00000 (latch_small 0x80000010 0xFFFFFFFF)" "0 \<in> set (starts ?B 0)"
    by (simp_all add: a regs_small_def decodes_def kind_bits_def PCI_BAR_TYPE_IO_def latch_small_def mask_eq_exp_minus_1 starts.simps [of _ 0])
  obtain s' pd' where s': "pci_probe_bars io_small 0x2000 ?s = Some s'" "pdevs s' = (pdevs ?s)(0x2000 \<mapsto> pd')" "\<forall>j<6. cfg_bar (pd_config pd') ! j = ?B j"
    "\<forall>j\<in>set (starts ?B 0). ?B j \<noteq> 0 \<longrightarrow> bar_is_io pd' ! j = (?B j AND PCI_BAR_TYPE_IO \<noteq> 0) \<and> bar_is_64bit pd' ! j = is_64bit (?B j) \<and>
      (\<forall>k. decodes k (?B j) (latch_small (bar_address (pd_location zero_pci_device) j) 0xFFFFFFFF) \<longrightarrow> bar_sizes pd' ! j = 2 ^ k)"
    using pci_probe_bars_correct [OF io_small_ok hyps] by blast
  have "\<not> bar_is_io pd' ! 0" "bar_sizes pd' ! 0 = 2 ^ 12" using bspec [OF s'(4) b(3)] b(2) unfolding a b(1) by (auto simp: PCI_BAR_TYPE_IO_def)
  then show ?thesis using s'(1,2,3) a b(1) by (intro exI [of _ s'] exI [of _ pd']) simp
qed

text \<open>
  C23: \<^verbatim>\<open>pci_enumerate_devices\<close> returns the number of devices it created. These are the functions that the hardware has, in the order of the scan: function 0 of every
  device on the 256 buses, and the other seven of a device that says it has several; all of them, or as many as the heap had room for. Each is on the list of
  the driver and registered with the device framework, and its structures hold what its registers say; the base address of the framework's record is always 0. The
  registers of the hardware, all other devices and the invariants of heap and framework are kept.
\<close>

theorem pci_enumerate_devices_correct:
  assumes "config_ports io R latch" and "bars_stable R latch (hardware s)" and "well_behaved e"
    and "pci_inv ps ds vs s" and "unat (next_device_id s) + 65536 < 2 ^ 32"
  shows "\<exists>n s' qs. pci_enumerate_devices e io s = Some (n, s') \<and> unat n = length qs \<and> pci_inv (qs @ ps) (qs @ ds) vs s' \<and> R (hardware s') = R (hardware s) \<and>
    length qs \<le> length (all_functions R (hardware s)) \<and> (length qs = length (all_functions R (hardware s)) \<or> exhausted s') \<and>
    (\<forall>i<length qs. found_at R latch (hardware s) (all_functions R (hardware s) ! i) (rev qs ! i) s') \<and>
    (\<forall>q. q \<notin> set qs \<longrightarrow> pdevs s' q = pdevs s q \<and> devs s' q = devs s q)"
proof -
  obtain n s' where s': "pci_enumerate_devices e io s = Some (n, s')" "scanned R latch ps ds vs s (all_functions R (hardware s)) (n, s')"
    using enumerate_spec [OF assms(1,3,2,4,5)] by auto
  then obtain qs where q: "n = of_nat (length qs)" "length qs \<le> length (all_functions R (hardware s))" and rest:
    "pci_inv (qs @ ps) (qs @ ds) vs s'" "R (hardware s') = R (hardware s)" "length qs = length (all_functions R (hardware s)) \<or> exhausted s'"
    "\<forall>i<length qs. found_at R latch (hardware s) (all_functions R (hardware s) ! i) (rev qs ! i) s'"
    "\<forall>q. q \<notin> set qs \<longrightarrow> pdevs s' q = pdevs s q \<and> devs s' q = devs s q"
    unfolding scanned_def fst_conv snd_conv by blast
  have "unat n = length qs" using q all_functions_length [of R "hardware s"] by (simp add: unat_of_nat)
  then show ?thesis using s'(1) q(2) rest by blast
qed

theorem pci_enumerate_devices_correct_witness:
  "\<exists>n s' qs. pci_enumerate_devices pci_env_small io_small pci_small = Some (n, s') \<and> unat n = length qs \<and> pci_inv qs qs [] s' \<and>
    (\<forall>i<length qs. found_at snd latch_small (hardware pci_small) (all_functions snd (hardware pci_small) ! i) (rev qs ! i) s')"
  using pci_enumerate_devices_correct [OF io_small_ok pci_small_ok(4) pci_env_small_ok pci_small_ok(1)] by (auto simp: pci_small_ok(3))

end
