(* ===== verification/Spec2Isabelle.thy ===== *)
theory Spec2Isabelle
  imports Boot Vfs Pci
begin

text \<open>
  A verification of the FG-OS kernel, the C sources under \<^verbatim>\<open>src/kernel/\<close>. This theory imports the whole development.

  \<^bold>\<open>The program.\<close> The kernel is brought up by \<^verbatim>\<open>src/main.c\<close> in the order: physical memory manager, virtual memory manager, heap, processes,
  threads, scheduler, interrupts, device framework, hardware abstraction layer. Each part keeps its state in static variables and builds on the
  ones before it: page tables are made of frames of the physical memory manager, every structure of the later parts is an object of the heap, the
  timer interrupt drives the scheduler. The file systems and the PCI bus driver use the heap and the device framework; nothing calls them at start-up.

  \<^bold>\<open>State.\<close> The static variables of a file are the fields of a record, and the records extend each other in boot order: \<open>machine\<close> (the memory), \<open>pmm\<close>,
  \<open>vmm\<close>, \<open>heap\<close>, \<open>process_mgr\<close>, \<open>thread_mgr\<close>, \<open>sched\<close>, \<open>idt_sys\<close>, \<open>intr\<close>, \<open>dev_sys\<close>, \<open>kernel\<close>. So an operation of a part applies to the state of every part
  that uses it. \<open>fs_sys\<close> extends \<open>heap\<close>, \<open>pci_sys\<close> extends \<open>dev_sys\<close>. Memory is a function from 64-bit addresses to bytes, and integers are words of their C width, so
  arithmetic wraps as in C. Page frames, the page bitmap, page tables, block headers, names and stacks are bytes of that memory; processes,
  threads, devices, drivers, requests and the objects of the file systems are records in typed stores, maps from the address that \<^verbatim>\<open>kmalloc\<close>
  returned, whose entries disappear with \<^verbatim>\<open>kfree\<close>. Memory is flat: the kernel's own accesses are not translated by the page tables it builds, which is how the code uses
  its addresses.

  \<^bold>\<open>Operations.\<close> A C function is one definition with its name. It takes the state last and returns the result and the new state. An operation that follows
  pointers has an option as its result: \<open>None\<close> means an access to an object that does not exist, or a loop that does not end. Loops over indices
  are total recursions, loops over lists are \<open>partial_function (option)\<close>; no fuel is used anywhere, and that an operation returns is part of the theorems.
  Failure codes of the C functions are values of the result. Messages are left out.

  \<^bold>\<open>Theories.\<close>
  \<^item> \<open>Prelude\<close>: word types and constants of \<^verbatim>\<open>include/types.h\<close>, counting loops, arithmetic.
  \<^item> \<open>Bytes\<close>: \<^verbatim>\<open>mm/memory_utils.c\<close> and \<^verbatim>\<open>src/string_stubs.c\<close>. The 64-bit fast path of \<^verbatim>\<open>memory_set\<close> equals a plain fill, \<^verbatim>\<open>memory_copy\<close> a simultaneous
    copy, overlap included; comparison is the lexicographic order; rounding to an alignment.
  \<^item> \<open>Pmm\<close>: \<^verbatim>\<open>mm/pmm.c\<close>. The bitmap is refined to the set of free pages: allocation of one page or of a contiguous run, freeing, initialisation. The locale
    \<open>frame_allocator\<close> is what the page tables need of it.
  \<^item> \<open>Vmm\<close>: \<^verbatim>\<open>mm/vmm.c\<close>. Mapping changes exactly one translation, also when tables have to be allocated, and none when it fails; unmapping, protection and the
    identity map of \<^verbatim>\<open>vmm_init\<close>.
  \<^item> \<open>Heap\<close>: \<^verbatim>\<open>mm/heap.c\<close>. The block list is refined to the set of live objects: allocation adds one that overlaps no other, freeing removes one and merges, and
    the contents of the others stay. The locale \<open>object_allocator\<close> is the contract its clients use.
  \<^item> \<open>Chain\<close>: lists whose links are fields of the objects; the locales \<open>intrusive_list\<close> and \<open>doubly_linked\<close>, interpreted for every link field of the kernel.
  \<^item> \<open>Process\<close>, \<open>Thread\<close>, \<open>Scheduler\<close>: \<^verbatim>\<open>sched/process.c\<close>, \<^verbatim>\<open>sched/thread.c\<close>, \<^verbatim>\<open>sched/scheduler.c\<close>. Invariants over lists, stores and heap; creation and
    destruction with everything given back; reachable states by rule induction; the queue operations; what a sequence of ticks does.
  \<^item> \<open>Idt\<close>, \<open>Interrupt\<close>: \<^verbatim>\<open>interrupt/idt.c\<close>, \<^verbatim>\<open>interrupt/interrupt.c\<close>. Gates as the processor reads them, the interrupt switch, the tables, timekeeping over sequences
    of timer interrupts, sleeping, critical sections.
  \<^item> \<open>Device\<close>: \<^verbatim>\<open>drivers/device.c\<close>. Registration, lookup, the life cycle, the counters along every sequence of operations, requests that time out.
  \<^item> \<open>Hal\<close>: \<^verbatim>\<open>hal/hal.c\<close> and \<^verbatim>\<open>hal/x86_64_hal.c\<close>. Detection, queries, and that the self tests end.
  \<^item> \<open>Boot\<close>: \<^verbatim>\<open>src/main.c\<close> and \<^verbatim>\<open>src/boot.c\<close>. The start-up sequence: the services come up on a well-formed heap, but with the regions the code passes the
    memory managers do not, and the kernel panics.
  \<^item> \<open>Fs\<close>, \<open>Vfs\<close>: \<^verbatim>\<open>fs/fgfs.c\<close>, \<^verbatim>\<open>fs/fat32.c\<close>, \<^verbatim>\<open>fs/ext4.c\<close> and \<^verbatim>\<open>fs/fs.c\<close>. The locale \<open>mountable\<close> is the contract of an implementation; the manager is proved
    against it: mounting and unmounting are inverse, a session leaks nothing, a path is served by its longest mount path.
  \<^item> \<open>Pci\<close>: \<^verbatim>\<open>drivers/bus/pci.c\<close>. Configuration addresses and accesses, the probing of base address registers and the enumeration of all functions with their
    registration, for any hardware that answers on the two ports.

  \<^bold>\<open>Arguments of the model.\<close> What the sources call and no file defines is an argument: the image of the kernel (addresses the linker chooses), what happens while the
  processor waits (\<open>hw\<close>), driver functions, callbacks, \<^verbatim>\<open>get_system_time_ms\<close> and the values of the error codes (\<open>dev_env\<close>), \<^verbatim>\<open>scheduler_is_enabled\<close>, \<^verbatim>\<open>hal_get_timestamp\<close>,
  \<^verbatim>\<open>fs_cache_flush\<close> and the former contents of a heap block (\<open>fs_env\<close>), port access (\<open>ports\<close>). A theorem names what it needs of them, and its witness gives a
  concrete instance.

  \<^bold>\<open>Not modelled.\<close> \<^verbatim>\<open>src/panic.c\<close> prints and halts; that the kernel panics is a value of \<open>kernel_start\<close>. \<^verbatim>\<open>src/console_stub.c\<close> and all functions that only print have no
  effect. \<^verbatim>\<open>drivers/input/keyboard.h\<close>, \<^verbatim>\<open>drivers/storage/ata.h\<close> and \<^verbatim>\<open>include/syscall.h\<close> declare what no file implements. The boot loader's assembly, the test
  programs and the build files are outside the model. Execution is sequential: interrupts happen where an operation waits or a sequence of steps says so.
\<close>

end
